(* ===== verification/NovaPrelude.thy ===== *)
theory NovaPrelude
  imports "HOL-Library.Word"
begin

text \<open>
  Shared ground of the development: the machine integer types of the source
  (\<open>std::uint8_t\<close> .. \<open>std::uint64_t\<close>), the named collections the component
  theories extend, and generic facts on words, lists and options. Nothing in
  this theory models a function of the program.
\<close>

unbundle bit_operations_syntax

type_synonym u8 = "8 word"
type_synonym u16 = "16 word"
type_synonym u32 = "32 word"
type_synonym u64 = "64 word"

named_theorems nova_bounds \<open>no-wrap facts: a guard of the code read as an inequality on naturals\<close>
named_theorems nova_frame \<open>fields an operation leaves alone\<close>
named_theorems nova_inv \<open>operations preserve the invariant of their component\<close>

section \<open>Wrap-around guards\<close>

text \<open>
  The source guards an addition with \<open>a > kMax - b\<close> and a multiplication with
  \<open>a > kMax / b\<close>. Both are exact overflow tests.
\<close>

lemma unat_max_word:
  "unat (- 1 :: 'a::len word) = 2 ^ LENGTH('a) - 1"
  by (simp add: unsigned_minus_1_eq_mask mask_eq_exp_minus_1)

lemma unat_minus_one_sub:
  fixes b :: "'a::len word"
  shows "unat (- 1 - b) = 2 ^ LENGTH('a) - 1 - unat b"
  by (simp add: unat_sub unat_max_word)

lemma le_max_minus_iff [nova_bounds]:
  fixes a b :: "'a::len word"
  shows "a \<le> - 1 - b \<longleftrightarrow> unat a + unat b < 2 ^ LENGTH('a)"
proof -
  have "unat b < 2 ^ LENGTH('a)" by (rule unsigned_less)
  then show ?thesis
    unfolding word_le_nat_alt unat_minus_one_sub by linarith
qed

lemma unat_add_no_wrap:
  fixes a b :: "'a::len word"
  assumes "unat a + unat b < 2 ^ LENGTH('a)"
  shows "unat (a + b) = unat a + unat b"
  using assms unat_add_lem by blast

lemma unat_mult_no_wrap:
  fixes a b :: "'a::len word"
  assumes "unat a * unat b < 2 ^ LENGTH('a)"
  shows "unat (a * b) = unat a * unat b"
  using assms unat_mult_lem by blast

lemma le_max_div_iff [nova_bounds]:
  fixes a b :: "'a::len word"
  assumes "b \<noteq> 0"
  shows "a \<le> - 1 div b \<longleftrightarrow> unat a * unat b < 2 ^ LENGTH('a)"
proof -
  have b: "0 < unat b" using assms by (simp add: unat_gt_0)
  have "a \<le> - 1 div b \<longleftrightarrow> unat a \<le> (2 ^ LENGTH('a) - 1) div unat b"
    by (simp add: word_le_nat_alt unat_div unat_max_word)
  also have "\<dots> \<longleftrightarrow> unat a * unat b \<le> 2 ^ LENGTH('a) - 1"
    using b by (simp add: less_eq_div_iff_mult_less_eq)
  also have "\<dots> \<longleftrightarrow> unat a * unat b < 2 ^ LENGTH('a)"
    using one_le_power [of "2 :: nat" "LENGTH('a)"] by linarith
  finally show ?thesis .
qed

lemma unat_sub_le:
  fixes a b :: "'a::len word"
  assumes "b \<le> a"
  shows "unat (a - b) = unat a - unat b"
  using assms by (simp add: unat_sub)

section \<open>Masks and free-running counters\<close>

lemma unat_and_mask:
  fixes w :: "'a::len word"
  shows "unat (w AND mask n) = unat w mod 2 ^ n"
proof -
  have "w AND mask n = take_bit n w" by (simp add: take_bit_eq_mask)
  then have "unat (w AND mask n) = take_bit n (unat w)"
    by (simp only: unsigned_take_bit_eq)
  then show ?thesis by (simp only: take_bit_eq_mod)
qed

lemma unat_of_nat_mod_dvd:
  assumes "2 ^ k dvd (2 ^ LENGTH('a) :: nat)"
  shows "unat (of_nat n :: 'a::len word) mod 2 ^ k = n mod 2 ^ k"
  using assms by (simp add: unat_of_nat take_bit_eq_mod mod_mod_cancel)

text \<open>
  A free-running index is \<open>of_nat\<close> of the number of elements that passed it,
  so the difference of two indices is exact as long as the true distance fits.
\<close>

lemma of_nat_distance:
  assumes "r \<le> w" "w - r < 2 ^ LENGTH('a)"
  shows "unat (of_nat w - of_nat r :: 'a::len word) = w - r"
proof -
  have "of_nat w - of_nat r = (of_nat (w - r) :: 'a word)"
    using assms(1) by (simp add: of_nat_diff)
  then show ?thesis using assms(2) by (simp add: unat_of_nat take_bit_nat_eq_self)
qed

lemma of_nat_eq_near:
  assumes "r \<le> w" "w - r < 2 ^ LENGTH('a)"
  shows "(of_nat w :: 'a::len word) = of_nat r \<longleftrightarrow> w = r"
proof -
  have "of_nat w = (of_nat r :: 'a word) \<longleftrightarrow> unat (of_nat w - of_nat r :: 'a word) = 0"
    by (simp add: unat_eq_0)
  then show ?thesis using of_nat_distance [OF assms] assms(1) by simp
qed

section \<open>Lists\<close>

lemma take_Suc_snoc:
  assumes "n < length xs"
  shows "take n xs @ [xs ! n] = take (Suc n) xs"
  using assms by (simp add: take_Suc_conv_app_nth)

lemma mod_distinct_window:
  fixes i j s :: nat
  assumes "i < j" "j < i + s"
  shows "i mod s \<noteq> j mod s"
proof
  assume "i mod s = j mod s"
  then have "s dvd j - i"
    using mod_eq_dvd_iff_nat [of i j s] assms(1) by simp
  then show False using assms by (auto dest: dvd_imp_le)
qed

text \<open>
  A loop over a list that leaves with the first result its body produces: the
  shape of every validation loop of the source with an early return.
\<close>

fun first_some :: "('a \<Rightarrow> 'b option) \<Rightarrow> 'a list \<Rightarrow> 'b option" where
  "first_some f [] = None"
| "first_some f (x # xs) = (case f x of Some y \<Rightarrow> Some y | None \<Rightarrow> first_some f xs)"

lemma first_some_None_iff: "first_some f xs = None \<longleftrightarrow> (\<forall>x \<in> set xs. f x = None)"
  by (induction xs) (auto split: option.splits)

lemma first_some_Some:
  assumes "first_some f xs = Some y"
  shows "\<exists>x \<in> set xs. f x = Some y"
  using assms by (induction xs) (auto split: option.splits)

text \<open>Descend through an \<open>if\<close> chain without using its conditions.\<close>

lemma if_both: "P x \<Longrightarrow> P y \<Longrightarrow> P (if b then x else y)"
  by simp

section \<open>Single bits\<close>

lemma bit_single:
  "bit (push_bit k 1 :: 'a::len word) i \<longleftrightarrow> i = k \<and> k < LENGTH('a)"
  by (auto simp: bit_simps)

lemma bit_clear_single:
  "bit (x AND NOT (push_bit k 1) :: 'a::len word) i \<longleftrightarrow> bit x i \<and> i \<noteq> k"
  by (auto simp: bit_and_iff bit_not_iff bit_single simp del: push_bit_of_1 dest: bit_imp_le_length)

lemma bit_set_single:
  "bit (x OR push_bit k 1 :: 'a::len word) i \<longleftrightarrow> bit x i \<or> i = k \<and> k < LENGTH('a)"
  by (auto simp: bit_or_iff bit_single simp del: push_bit_of_1)

text \<open>Reading an updated array in bounds, whether or not the update was.\<close>

lemma nth_upd: "j < length xs \<Longrightarrow> xs[i := x] ! j = (if i = j then x else xs ! j)"
  by (cases "i < length xs") (simp_all add: nth_list_update)

lemma snd_set_zip:
  assumes "length ys \<le> length xs"
  shows "snd ` set (zip xs ys) = set ys"
proof -
  have "snd ` set (zip xs ys) = set (map snd (zip xs ys))" by simp
  also have "\<dots> = set ys" using assms by (simp only: map_snd_zip_take min.absorb2) simp
  finally show ?thesis .
qed

lemma fst_set_zip:
  assumes "length xs \<le> length ys"
  shows "fst ` set (zip xs ys) = set xs"
proof -
  have "fst ` set (zip xs ys) = set (map fst (zip xs ys))" by simp
  also have "\<dots> = set xs" using assms by (simp only: map_fst_zip_take min.absorb1) simp
  finally show ?thesis .
qed

section \<open>Masks and arrays built by a loop\<close>

lemma bit_or_loop:
  "bit (foldl (\<lambda>m x. if P x then m OR push_bit (f x) 1 else m) m0 xs :: 'a::len word) k
     \<longleftrightarrow> bit m0 k \<or> k < LENGTH('a) \<and> (\<exists>x \<in> set xs. P x \<and> f x = k)"
proof (induction xs arbitrary: m0)
  case (Cons x xs)
  then show ?case by (simp add: Cons.IH bit_set_single del: push_bit_of_1) blast
qed simp

lemma bit_flag_loop:
  "bit (foldl (\<lambda>m i. m OR push_bit i (if P i then 1 else 0)) 0 [0 ..< n] :: 'a::len word) k
     \<longleftrightarrow> k < n \<and> k < LENGTH('a) \<and> P k"
proof -
  have "(\<lambda>m i. m OR push_bit i (if P i then 1 else 0)) = (\<lambda>m i. if P i then m OR push_bit i 1 else m :: 'a word)"
    by (intro ext) simp
  then show ?thesis by (simp add: bit_or_loop del: push_bit_of_1) blast
qed

lemma length_update_loop [simp]:
  "length (foldl (\<lambda>l i. if P (l ! i) then l[i := g (l ! i)] else l) l xs) = length l"
  by (induction xs arbitrary: l) auto

lemma nth_update_loop:
  assumes "k < length l"
  shows "foldl (\<lambda>l i. if P (l ! i) then l[i := g (l ! i)] else l) l [0 ..< n] ! k
    = (if k < n \<and> P (l ! k) then g (l ! k) else l ! k)"
proof (induction n)
  case (Suc n)
  let ?L = "foldl (\<lambda>l i. if P (l ! i) then l[i := g (l ! i)] else l) l [0 ..< n]"
  have len: "length ?L = length l" by simp
  show ?case using Suc assms len
    by (cases "k = n") (simp_all add: nth_list_update less_Suc_eq del: length_update_loop)
qed simp

lemma unat_and_not_mask:
  fixes a :: "'a::len word"
  shows "unat (a AND NOT (mask n)) = unat a - unat a mod 2 ^ n"
proof -
  have m: "a = (a AND mask n) + (a AND NOT (mask n))"
    by (simp add: plus_and_or [symmetric] disjunctive_add_eq_or bit_eq_iff bit_simps) auto
  have "a AND NOT (mask n) = a - (a AND mask n)" using m by (simp add: algebra_simps)
  moreover have "a AND mask n \<le> a" by (rule word_and_le2)
  ultimately show ?thesis using unat_and_mask [of a n] by (simp add: unat_sub word_le_nat_alt)
qed

end
