(* ===== verification/NovaTimebase.thy ===== *)
theory NovaTimebase
  imports NovaPrelude
begin

text \<open>
  \<open>src/nova/range.hpp\<close>, \<open>src/nova/arch/timebase.hpp\<close> and the
  deadline policy of \<open>watchdog/watchdog_model.hpp\<close>. Counter values are
  \<open>u64\<close>; a \<open>TickPlan\<close> and a \<open>DeadlinePlan\<close> are records with the
  source's \<open>accepted\<close> flag, because the code's rejected plan carries a zero.
\<close>

section \<open>Ranges\<close>

definition range_well_formed :: "u64 \<Rightarrow> u64 \<Rightarrow> bool" where
  "range_well_formed base sz \<longleftrightarrow> sz \<noteq> 0 \<and> base \<le> - 1 - (sz - 1)"

definition ranges_overlap :: "u64 \<Rightarrow> u64 \<Rightarrow> u64 \<Rightarrow> u64 \<Rightarrow> bool" where
  "ranges_overlap lhs_base lhs_size rhs_base rhs_size =
     (if lhs_size = 0 \<or> rhs_size = 0 then False
      else if lhs_base \<le> rhs_base then rhs_base - lhs_base < lhs_size
      else lhs_base - rhs_base < rhs_size)"

definition range_contains :: "u64 \<Rightarrow> u64 \<Rightarrow> u64 \<Rightarrow> u64 \<Rightarrow> bool" where
  "range_contains base sz sub len \<longleftrightarrow> len \<le> sz \<and> base \<le> sub \<and> sub - base \<le> sz - len"

text \<open>A range read as the set of naturals it covers, with no wrap-around.\<close>

definition range_set :: "u64 \<Rightarrow> u64 \<Rightarrow> nat set" where
  "range_set base sz = {unat base ..< unat base + unat sz}"

lemma range_well_formed_iff [nova_bounds]:
  "range_well_formed base sz \<longleftrightarrow> 0 < unat sz \<and> unat base + unat sz \<le> 2 ^ 64"
proof (cases "sz = 0")
  case True
  then show ?thesis by (simp add: range_well_formed_def)
next
  case False
  then have "unat (sz - 1) = unat sz - 1" "0 < unat sz"
    by (simp_all add: unat_minus_one unat_gt_0)
  then show ?thesis
    unfolding range_well_formed_def le_max_minus_iff using False by auto
qed

lemma ranges_overlap_iff:
  "ranges_overlap b1 s1 b2 s2 \<longleftrightarrow> range_set b1 s1 \<inter> range_set b2 s2 \<noteq> {}"
proof (cases "s1 = 0 \<or> s2 = 0")
  case True
  then show ?thesis by (auto simp: ranges_overlap_def range_set_def)
next
  case False
  then have p: "0 < unat s1" "0 < unat s2" by (simp_all add: unat_gt_0)
  have set: "range_set b1 s1 \<inter> range_set b2 s2 \<noteq> {}
      \<longleftrightarrow> unat b1 < unat b2 + unat s2 \<and> unat b2 < unat b1 + unat s1"
    using p by (auto simp: range_set_def)
  show ?thesis
    using False p unfolding set ranges_overlap_def
    by (auto simp: word_less_nat_alt word_le_nat_alt unat_sub_le)
qed

lemma range_contains_iff:
  "range_contains base sz sub len
     \<longleftrightarrow> unat base \<le> unat sub \<and> unat sub + unat len \<le> unat base + unat sz"
  by (auto simp: range_contains_def word_le_nat_alt unat_sub_le)

lemma range_contains_subset:
  assumes "range_contains base sz sub len"
  shows "range_set sub len \<subseteq> range_set base sz"
  using assms by (auto simp: range_contains_iff range_set_def)

section \<open>Timebase\<close>

definition kMinCounterHz :: u64 where "kMinCounterHz = 1000000"
definition kMaxCounterHz :: u64 where "kMaxCounterHz = 1000000000"

datatype TimebaseError = TbNone | TbUnprogrammed | TbOutOfRange

definition validate_timebase :: "u64 \<Rightarrow> TimebaseError" where
  "validate_timebase hz =
     (if hz = 0 then TbUnprogrammed
      else if hz < kMinCounterHz \<or> hz > kMaxCounterHz then TbOutOfRange
      else TbNone)"

record TickPlan =
  tp_accepted :: bool
  tp_ticks :: u64

record DeadlinePlan =
  dp_accepted :: bool
  dp_deadline :: u64

definition tick_rejected :: TickPlan where
  "tick_rejected = \<lparr>tp_accepted = False, tp_ticks = 0\<rparr>"

definition deadline_rejected :: DeadlinePlan where
  "deadline_rejected = \<lparr>dp_accepted = False, dp_deadline = 0\<rparr>"

text \<open>
  \<open>ms_to_ticks\<close> and \<open>us_to_ticks\<close> have the same body at the scales 1000
  and 1000000; both are written out as the code writes them.
\<close>

definition ms_to_ticks :: "u64 \<Rightarrow> u64 \<Rightarrow> TickPlan" where
  "ms_to_ticks hz ms =
     (if hz = 0 then tick_rejected
      else let seconds = ms div 1000; millis = ms mod 1000 in
        if seconds > - 1 div hz then tick_rejected
        else let whole = seconds * hz;
                 fraction = (hz div 1000) * millis + ((hz mod 1000) * millis) div 1000 in
          if whole > - 1 - fraction then tick_rejected
          else \<lparr>tp_accepted = True, tp_ticks = whole + fraction\<rparr>)"

definition us_to_ticks :: "u64 \<Rightarrow> u64 \<Rightarrow> TickPlan" where
  "us_to_ticks hz us =
     (if hz = 0 then tick_rejected
      else let seconds = us div 1000000; micros = us mod 1000000 in
        if seconds > - 1 div hz then tick_rejected
        else let whole = seconds * hz;
                 fraction = (hz div 1000000) * micros + ((hz mod 1000000) * micros) div 1000000 in
          if whole > - 1 - fraction then tick_rejected
          else \<lparr>tp_accepted = True, tp_ticks = whole + fraction\<rparr>)"

definition deadline_after_ms :: "u64 \<Rightarrow> u64 \<Rightarrow> u64 \<Rightarrow> DeadlinePlan" where
  "deadline_after_ms now hz ms =
     (let plan = ms_to_ticks hz ms in
      if \<not> tp_accepted plan \<or> now > - 1 - tp_ticks plan then deadline_rejected
      else \<lparr>dp_accepted = True, dp_deadline = now + tp_ticks plan\<rparr>)"

text \<open>
  The common body at a scale \<open>s\<close>. The split is exact as long as the
  sub-second products do not wrap, which holds for every \<open>s\<close> whose square fits.
\<close>

definition scaled_ticks :: "u64 \<Rightarrow> u64 \<Rightarrow> u64 \<Rightarrow> TickPlan" where
  "scaled_ticks s hz t =
     (if hz = 0 then tick_rejected
      else if t div s > - 1 div hz then tick_rejected
      else if (t div s) * hz > - 1 - ((hz div s) * (t mod s) + ((hz mod s) * (t mod s)) div s)
        then tick_rejected
      else \<lparr>tp_accepted = True,
            tp_ticks = (t div s) * hz + ((hz div s) * (t mod s) + ((hz mod s) * (t mod s)) div s)\<rparr>)"

lemma ms_to_ticks_scaled: "ms_to_ticks = scaled_ticks 1000"
  by (intro ext) (simp add: ms_to_ticks_def scaled_ticks_def Let_def)

lemma us_to_ticks_scaled: "us_to_ticks = scaled_ticks 1000000"
  by (intro ext) (simp add: us_to_ticks_def scaled_ticks_def Let_def)

lemma split_product_div:
  fixes h t s :: nat
  assumes "0 < s"
  shows "h * t div s = (t div s) * h + ((h div s) * (t mod s) + (h mod s) * (t mod s) div s)"
proof -
  define q r m n where qr: "q = t div s" "r = t mod s" "m = h div s" "n = h mod s"
  have t: "t = q * s + r" and h: "h = m * s + n" by (simp_all add: qr)
  have "h * t = h * q * s + h * r"
    by (simp add: t algebra_simps)
  moreover have "h * r = m * r * s + n * r"
    by (simp add: h algebra_simps)
  ultimately have "h * t div s = h * q + (m * r * s + n * r) div s"
    using assms by simp
  also have "(m * r * s + n * r) div s = m * r + n * r div s"
    using assms by simp
  finally show ?thesis by (simp add: qr mult.commute)
qed

lemma scaled_ticks_correct:
  fixes s hz t :: u64
  assumes s: "s \<noteq> 0" "unat s * unat s < 2 ^ 64" and hz: "hz \<noteq> 0"
  shows "tp_accepted (scaled_ticks s hz t) \<longleftrightarrow> unat hz * unat t div unat s < 2 ^ 64"
    and "tp_accepted (scaled_ticks s hz t)
       \<Longrightarrow> unat (tp_ticks (scaled_ticks s hz t)) = unat hz * unat t div unat s"
    and "\<not> tp_accepted (scaled_ticks s hz t) \<Longrightarrow> scaled_ticks s hz t = tick_rejected"
proof -
  let ?s = "unat s" and ?h = "unat hz" and ?t = "unat t"
  let ?F = "(hz div s) * (t mod s) + ((hz mod s) * (t mod s)) div s"
  have s0: "0 < ?s" using s by (simp add: unat_gt_0)
  have h64: "?h < 2 ^ 64" using unsigned_less [of hz] by simp
  have tm: "?t mod ?s < ?s" and hm: "?h mod ?s < ?s" using s0 by simp_all
  have frac_le: "(?h div ?s) * (?t mod ?s) + (?h mod ?s) * (?t mod ?s) div ?s \<le> ?h"
  proof -
    have "(?h mod ?s) * (?t mod ?s) div ?s \<le> ?h mod ?s"
      using tm s0 by (metis div_le_mono div_mult_self_is_m less_imp_le mult_le_mono2)
    moreover have "(?h div ?s) * (?t mod ?s) \<le> (?h div ?s) * ?s"
      using tm by simp
    ultimately show ?thesis
      using div_mult_mod_eq [of ?h ?s] by linarith
  qed
  have p1: "(?h div ?s) * (?t mod ?s) < 2 ^ 64"
    using frac_le h64 by linarith
  have p2: "(?h mod ?s) * (?t mod ?s) < 2 ^ 64"
  proof -
    have "(?h mod ?s) * (?t mod ?s) \<le> ?s * ?s"
      using tm hm by (intro mult_le_mono) simp_all
    then show ?thesis using s(2) by linarith
  qed
  have m1: "unat ((hz div s) * (t mod s)) = (?h div ?s) * (?t mod ?s)"
    using unat_mult_no_wrap [of "hz div s" "t mod s"] p1 by (simp add: unat_div unat_mod)
  have m2: "unat ((hz mod s) * (t mod s) div s) = (?h mod ?s) * (?t mod ?s) div ?s"
    using unat_mult_no_wrap [of "hz mod s" "t mod s"] p2 by (simp add: unat_div unat_mod)
  have F: "unat ?F = (?h div ?s) * (?t mod ?s) + (?h mod ?s) * (?t mod ?s) div ?s"
    using unat_add_no_wrap [of "(hz div s) * (t mod s)" "(hz mod s) * (t mod s) div s"] frac_le h64
    by (simp add: m1 m2)
  have g1: "t div s \<le> - 1 div hz \<longleftrightarrow> (?t div ?s) * ?h < 2 ^ 64"
    using le_max_div_iff [OF hz, of "t div s"] by (simp add: unat_div)
  have W: "(?t div ?s) * ?h < 2 ^ 64 \<Longrightarrow> unat ((t div s) * hz) = (?t div ?s) * ?h"
    using unat_mult_no_wrap [of "t div s" hz] by (simp add: unat_div)
  have eq: "?h * ?t div ?s = (?t div ?s) * ?h + unat ?F"
    using split_product_div [OF s0, of ?h ?t] F by simp
  have g2: "(?t div ?s) * ?h < 2 ^ 64 \<Longrightarrow>
      (t div s) * hz \<le> - 1 - ?F \<longleftrightarrow> ?h * ?t div ?s < 2 ^ 64"
    using W by (simp add: le_max_minus_iff eq)
  show acc: "tp_accepted (scaled_ticks s hz t) \<longleftrightarrow> ?h * ?t div ?s < 2 ^ 64"
    using hz g1 g2 eq by (auto simp: scaled_ticks_def tick_rejected_def not_le not_less)
  show "unat (tp_ticks (scaled_ticks s hz t)) = ?h * ?t div ?s"
    if "tp_accepted (scaled_ticks s hz t)"
  proof -
    have lt: "(?t div ?s) * ?h + unat ?F < 2 ^ 64" using that acc eq by simp
    then have "unat ((t div s) * hz + ?F) = (?t div ?s) * ?h + unat ?F"
      using W unat_add_no_wrap [of "(t div s) * hz" ?F] by simp
    moreover have "tp_ticks (scaled_ticks s hz t) = (t div s) * hz + ?F"
      using that by (auto simp: scaled_ticks_def tick_rejected_def split: if_splits)
    ultimately show ?thesis using eq by simp
  qed
  show "scaled_ticks s hz t = tick_rejected" if "\<not> tp_accepted (scaled_ticks s hz t)"
    using that by (auto simp: scaled_ticks_def split: if_splits)
qed

lemma scaled_ticks_closed:
  assumes s: "s \<noteq> 0" "unat s * unat s < 2 ^ 64"
  shows "scaled_ticks s hz t =
    (if hz \<noteq> 0 \<and> unat hz * unat t div unat s < 2 ^ 64
     then \<lparr>tp_accepted = True, tp_ticks = of_nat (unat hz * unat t div unat s)\<rparr>
     else tick_rejected)"
proof (cases "hz = 0")
  case True
  then show ?thesis by (simp add: scaled_ticks_def)
next
  case hz: False
  note c = scaled_ticks_correct [OF s hz, of t]
  show ?thesis
  proof (cases "tp_accepted (scaled_ticks s hz t)")
    case True
    then have "tp_ticks (scaled_ticks s hz t) = of_nat (unat hz * unat t div unat s)"
      using c(2) by (metis of_nat_unat ucast_id)
    then show ?thesis
      using True hz c(1) by (cases "scaled_ticks s hz t") simp
  next
    case False
    then show ?thesis using hz c(1,3) by simp
  qed
qed

lemma ms_to_ticks_closed:
  "ms_to_ticks hz ms =
    (if hz \<noteq> 0 \<and> unat hz * unat ms div 1000 < 2 ^ 64
     then \<lparr>tp_accepted = True, tp_ticks = of_nat (unat hz * unat ms div 1000)\<rparr>
     else tick_rejected)"
  using scaled_ticks_closed [of 1000 hz ms] by (simp add: ms_to_ticks_scaled)

lemma us_to_ticks_closed:
  "us_to_ticks hz us =
    (if hz \<noteq> 0 \<and> unat hz * unat us div 1000000 < 2 ^ 64
     then \<lparr>tp_accepted = True, tp_ticks = of_nat (unat hz * unat us div 1000000)\<rparr>
     else tick_rejected)"
  using scaled_ticks_closed [of 1000000 hz us] by (simp add: us_to_ticks_scaled)

lemma deadline_after_ms_closed:
  "deadline_after_ms now hz ms =
    (if hz \<noteq> 0 \<and> unat now + unat hz * unat ms div 1000 < 2 ^ 64
     then \<lparr>dp_accepted = True, dp_deadline = of_nat (unat now + unat hz * unat ms div 1000)\<rparr>
     else deadline_rejected)"
proof -
  let ?n = "unat hz * unat ms div 1000"
  have u: "unat (of_nat ?n :: u64) = ?n" if "?n < 2 ^ 64"
    using that by (simp add: unat_of_nat take_bit_nat_eq_self)
  have "now \<le> - 1 - of_nat ?n \<longleftrightarrow> unat now + ?n < 2 ^ 64" if "?n < 2 ^ 64"
    unfolding le_max_minus_iff u [OF that] by simp
  then show ?thesis
    unfolding deadline_after_ms_def ms_to_ticks_closed Let_def
    by (auto simp: tick_rejected_def not_less linorder_not_less)
qed

text \<open>
  C18. The two conversions compute the exact floor of \<open>hz * t / scale\<close> although
  they never form that product; they accept exactly when the frequency is
  non-zero and the result fits 64 bits, and a rejected plan carries zero ticks.
\<close>

theorem ticks_exact:
  "ms_to_ticks hz t =
    (if hz \<noteq> 0 \<and> unat hz * unat t div 1000 < 2 ^ 64
     then \<lparr>tp_accepted = True, tp_ticks = of_nat (unat hz * unat t div 1000)\<rparr>
     else tick_rejected) \<and>
   us_to_ticks hz t =
    (if hz \<noteq> 0 \<and> unat hz * unat t div 1000000 < 2 ^ 64
     then \<lparr>tp_accepted = True, tp_ticks = of_nat (unat hz * unat t div 1000000)\<rparr>
     else tick_rejected)"
  by (rule conjI) (rule ms_to_ticks_closed, rule us_to_ticks_closed)

text \<open>
  On a validated counter the microsecond conversion never rounds a positive
  request down to no delay at all.
\<close>

lemma us_to_ticks_positive:
  assumes "validate_timebase hz = TbNone" "us \<noteq> 0" "tp_accepted (us_to_ticks hz us)"
  shows "unat us \<le> unat (tp_ticks (us_to_ticks hz us))"
proof -
  let ?n = "unat hz * unat us div 1000000"
  have "1000000 \<le> unat hz"
    using assms(1) by (simp add: validate_timebase_def kMinCounterHz_def word_less_nat_alt not_less split: if_splits)
  then have "unat us * 1000000 \<le> unat hz * unat us" by (simp add: mult.commute)
  then have "unat us \<le> ?n" by (simp add: less_eq_div_iff_mult_less_eq)
  moreover have "unat (tp_ticks (us_to_ticks hz us)) = ?n"
    using assms(3)
    by (simp add: us_to_ticks_closed tick_rejected_def unat_of_nat take_bit_nat_eq_self split: if_splits)
  ultimately show ?thesis by simp
qed

end
