(* ===== verification/NovaRing.thy ===== *)
theory NovaRing
  imports NovaPrelude
begin

text \<open>
  The contract every first-in first-out ring of the program offers its client:
  an operation that appends or refuses, an operation that removes the oldest
  element or reports nothing, and the list of elements in flight. It is an
  interface only; the IVC ring, the PL011 receive FIFO and the command ring
  interpret it in their own theories. A client's run of operations then
  delivers what it accepted, once and in order.
\<close>

datatype 'a ring_op = RPush 'a | RPop

text \<open>
  A run returns the final ring, the values whose push was accepted and the
  values popped, both oldest first.
\<close>

fun ring_run ::
  "('r \<Rightarrow> 'a \<Rightarrow> 'r option) \<Rightarrow> ('r \<Rightarrow> ('a \<times> 'r) option) \<Rightarrow> 'a ring_op list \<Rightarrow> 'r
     \<Rightarrow> 'r \<times> 'a list \<times> 'a list" where
  "ring_run push pop [] r = (r, [], [])"
| "ring_run push pop (RPush x # ops) r =
     (case push r x of
        None \<Rightarrow> ring_run push pop ops r
      | Some r' \<Rightarrow> (let (r2, ins, outs) = ring_run push pop ops r' in (r2, x # ins, outs)))"
| "ring_run push pop (RPop # ops) r =
     (case pop r of
        None \<Rightarrow> ring_run push pop ops r
      | Some (x, r') \<Rightarrow> (let (r2, ins, outs) = ring_run push pop ops r' in (r2, ins, x # outs)))"

locale fifo_ring =
  fixes push :: "'r \<Rightarrow> 'a \<Rightarrow> 'r option"
    and pop :: "'r \<Rightarrow> ('a \<times> 'r) option"
    and content :: "'r \<Rightarrow> 'a list"
    and cap :: nat
    and inv :: "'r \<Rightarrow> bool"
  assumes content_bound: "inv r \<Longrightarrow> length (content r) \<le> cap"
    and push_full: "inv r \<Longrightarrow> length (content r) = cap \<Longrightarrow> push r x = None"
    and push_room: "inv r \<Longrightarrow> length (content r) < cap \<Longrightarrow>
          \<exists>r'. push r x = Some r' \<and> inv r' \<and> content r' = content r @ [x]"
    and pop_none: "inv r \<Longrightarrow> content r = [] \<Longrightarrow> pop r = None"
    and pop_some: "inv r \<Longrightarrow> content r = x # xs \<Longrightarrow>
          \<exists>r'. pop r = Some (x, r') \<and> inv r' \<and> content r' = xs"
begin

lemma push_accepts_iff: "inv r \<Longrightarrow> push r x \<noteq> None \<longleftrightarrow> length (content r) < cap"
  using content_bound push_full push_room by (metis le_neq_implies_less option.distinct(1))

lemma push_cases:
  assumes "inv r"
  obtains "push r x = None" "length (content r) = cap"
    | r' where "push r x = Some r'" "inv r'" "content r' = content r @ [x]" "length (content r) < cap"
  using assms content_bound push_full push_room by (metis le_neq_implies_less)

lemma pop_cases:
  assumes "inv r"
  obtains "pop r = None" "content r = []"
    | x r' where "pop r = Some (x, r')" "inv r'" "content r = x # content r'"
  using assms pop_none pop_some by (metis list.exhaust)

lemma run_conserves:
  assumes "inv r" "ring_run push pop ops r = (r', ins, outs)"
  shows "inv r' \<and> content r @ ins = outs @ content r'"
  using assms
proof (induction ops arbitrary: r r' ins outs)
  case Nil
  then show ?case by simp
next
  case (Cons op ops)
  show ?case
  proof (cases op)
    case (RPush x)
    show ?thesis
      by (rule push_cases [OF Cons.prems(1), of x])
        (use Cons RPush in \<open>fastforce split: prod.splits\<close>)+
  next
    case RPop
    show ?thesis
      by (rule pop_cases [OF Cons.prems(1)])
        (use Cons RPop in \<open>fastforce split: prod.splits\<close>)+
  qed
qed

lemma run_from_empty:
  assumes "inv r" "content r = []" "ring_run push pop ops r = (r', ins, outs)"
  shows "ins = outs @ content r'" "length (content r') \<le> cap"
  using run_conserves [OF assms(1,3)] assms(2) content_bound by auto

end

end
