(* ===== verification/NovaMachine.thy ===== *)
theory NovaMachine
  imports NovaPrelude
begin

text \<open>
  The contract of a component that runs as a step relation: an initial-state
  predicate, a step and an invariant every step keeps. Reachable states then
  satisfy the invariant. The interleaved protocols of the program interpret it.
\<close>

locale invariant_machine =
  fixes init :: "'s \<Rightarrow> bool"
    and step :: "'s \<Rightarrow> 's \<Rightarrow> bool"
    and inv :: "'s \<Rightarrow> bool"
  assumes inv_init: "init s \<Longrightarrow> inv s"
    and inv_step: "inv s \<Longrightarrow> step s s' \<Longrightarrow> inv s'"
begin

lemma inv_steps:
  assumes "step\<^sup>*\<^sup>* s s'" "inv s"
  shows "inv s'"
  using assms by (induction rule: rtranclp_induct) (auto intro: inv_step)

lemma reachable_inv:
  assumes "init s" "step\<^sup>*\<^sup>* s s'"
  shows "inv s'"
  using inv_steps [OF assms(2) inv_init [OF assms(1)]] .

text \<open>A state property whose only way to become false is excluded by the invariant.\<close>

lemma stable_along:
  assumes "step\<^sup>*\<^sup>* s s'" "inv s" "P s"
    and "\<And>t t'. inv t \<Longrightarrow> P t \<Longrightarrow> step t t' \<Longrightarrow> P t'"
  shows "P s'"
proof -
  from assms(1) have "inv s' \<and> P s'"
    by (induction rule: rtranclp_induct) (use assms(2,3,4) inv_step in blast)+
  then show ?thesis by blast
qed

end

end
