(* ===== verification/NovaIvc.thy ===== *)
theory NovaIvc
  imports NovaRing NovaMachine
begin

text \<open>
  \<open>src/components/service/ivc/include/ivc/ring.hpp\<close> over the layout of
  \<open>src/nova/abi/ivc_ring.h\<close>: the single-producer single-consumer ring of the
  inter-VM shared page. First the two operations as wholes, then the same code
  split at every atomic access, so that producer and consumer interleave
  freely. Loads and stores of the two indices are the steps; the release store
  of an index publishes everything its side did before it, which the step
  relation renders by executing the steps in program order on one memory.
\<close>

definition NOVA_IVC_RING_SLOTS :: nat where "NOVA_IVC_RING_SLOTS = 16"

record ivc_ring =
  ir_widx :: u32
  ir_ridx :: u32
  ir_slots :: "u64 list"

definition ivc_slot :: "u32 \<Rightarrow> nat" where
  "ivc_slot i = unat (i AND (of_nat NOVA_IVC_RING_SLOTS - 1))"

definition ivc_push :: "ivc_ring \<Rightarrow> u64 \<Rightarrow> ivc_ring option" where
  "ivc_push g v =
     (let w = ir_widx g; r = ir_ridx g in
      if w - r = of_nat NOVA_IVC_RING_SLOTS then None
      else Some (g\<lparr>ir_slots := (ir_slots g)[ivc_slot w := v], ir_widx := w + 1\<rparr>))"

definition ivc_pop :: "ivc_ring \<Rightarrow> (u64 \<times> ivc_ring) option" where
  "ivc_pop g =
     (let r = ir_ridx g; w = ir_widx g in
      if w = r then None
      else Some (ir_slots g ! ivc_slot r, g\<lparr>ir_ridx := r + 1\<rparr>))"

text \<open>What the ring holds, oldest first.\<close>

definition ivc_content :: "ivc_ring \<Rightarrow> u64 list" where
  "ivc_content g =
     map (\<lambda>k. ir_slots g ! ivc_slot (ir_ridx g + of_nat k)) [0 ..< unat (ir_widx g - ir_ridx g)]"

definition ivc_inv :: "ivc_ring \<Rightarrow> bool" where
  "ivc_inv g \<longleftrightarrow> length (ir_slots g) = NOVA_IVC_RING_SLOTS
     \<and> unat (ir_widx g - ir_ridx g) \<le> NOVA_IVC_RING_SLOTS"

lemma ivc_slot_mod: "ivc_slot i = unat i mod 16"
proof -
  have "(of_nat NOVA_IVC_RING_SLOTS - 1 :: u32) = mask 4"
    by (simp add: NOVA_IVC_RING_SLOTS_def mask_eq_exp_minus_1)
  then show ?thesis by (simp add: ivc_slot_def unat_and_mask)
qed

lemma ivc_slot_of_nat: "ivc_slot (of_nat n) = n mod 16"
  using unat_of_nat_mod_dvd [of 4 n, where 'a = 32] by (simp add: ivc_slot_mod)

lemma ivc_slot_less: "ivc_slot i < 16"
  by (simp add: ivc_slot_mod)

text \<open>The slot of an index a known distance ahead is free of the 32-bit wrap.\<close>

lemma ivc_slot_add: "ivc_slot (i + of_nat k) = (unat i + k) mod 16"
proof -
  have "i + of_nat k = of_nat (unat i + k)" by simp
  then show ?thesis by (metis ivc_slot_of_nat)
qed

lemma length_ivc_content: "length (ivc_content g) = unat (ir_widx g - ir_ridx g)"
  by (simp add: ivc_content_def)

lemma ivc_push_room:
  assumes "ivc_inv g" "length (ivc_content g) < 16"
  shows "\<exists>g'. ivc_push g v = Some g' \<and> ivc_inv g' \<and> ivc_content g' = ivc_content g @ [v]"
proof -
  let ?n = "unat (ir_widx g - ir_ridx g)"
  let ?g' = "g\<lparr>ir_slots := (ir_slots g)[ivc_slot (ir_widx g) := v], ir_widx := ir_widx g + 1\<rparr>"
  have n: "?n < 16" and len: "length (ir_slots g) = 16"
    using assms by (simp_all add: length_ivc_content ivc_inv_def NOVA_IVC_RING_SLOTS_def)
  have w: "ir_widx g = ir_ridx g + of_nat ?n" by simp
  have "ir_widx g - ir_ridx g \<noteq> 16"
    using n by auto
  then have push: "ivc_push g v = Some ?g'"
    by (simp add: ivc_push_def Let_def NOVA_IVC_RING_SLOTS_def)
  have "ir_widx g + 1 - ir_ridx g = of_nat (Suc ?n)" by (simp add: algebra_simps)
  then have n': "unat (ir_widx g + 1 - ir_ridx g) = Suc ?n"
    using n by (simp only: unat_of_nat) (simp add: take_bit_nat_eq_self)
  have keep: "(ir_slots g)[ivc_slot (ir_widx g) := v] ! ivc_slot (ir_ridx g + of_nat k)
      = ir_slots g ! ivc_slot (ir_ridx g + of_nat k)" if "k < ?n" for k
  proof -
    have "(unat (ir_ridx g) + k) mod 16 \<noteq> (unat (ir_ridx g) + ?n) mod 16"
      using that n by (intro mod_distinct_window) auto
    then have "ivc_slot (ir_ridx g + of_nat k) \<noteq> ivc_slot (ir_widx g)"
      using w ivc_slot_add by metis
    then show ?thesis by simp
  qed
  have new: "(ir_slots g)[ivc_slot (ir_widx g) := v] ! ivc_slot (ir_ridx g + of_nat ?n) = v"
    using len ivc_slot_less [of "ir_widx g"] by simp
  have "ivc_content ?g' = ivc_content g @ [v]"
    unfolding ivc_content_def using keep new n' by simp
  then show ?thesis
    using push n n' len by (simp add: ivc_inv_def NOVA_IVC_RING_SLOTS_def)
qed

lemma ivc_pop_some:
  assumes "ivc_inv g" "ivc_content g = x # xs"
  shows "\<exists>g'. ivc_pop g = Some (x, g') \<and> ivc_inv g' \<and> ivc_content g' = xs"
proof -
  let ?n = "unat (ir_widx g - ir_ridx g)"
  let ?g' = "g\<lparr>ir_ridx := ir_ridx g + 1\<rparr>"
  have n: "0 < ?n" "?n \<le> 16" and len: "length (ir_slots g) = 16"
    using assms length_ivc_content [of g] by (auto simp: ivc_inv_def NOVA_IVC_RING_SLOTS_def)
  then have ne: "ir_widx g \<noteq> ir_ridx g" by auto
  have "ir_widx g - (ir_ridx g + 1) = of_nat (?n - 1)"
    using n by (simp add: of_nat_diff algebra_simps)
  then have n': "unat (ir_widx g - (ir_ridx g + 1)) = ?n - 1"
    using n by (simp only: unat_of_nat) (simp add: take_bit_nat_eq_self)
  have "ivc_content g = map (\<lambda>k. ir_slots g ! ivc_slot (ir_ridx g + of_nat k)) [0 ..< Suc (?n - 1)]"
    using n by (simp add: ivc_content_def)
  also have "\<dots> = ir_slots g ! ivc_slot (ir_ridx g) # ivc_content ?g'"
    unfolding ivc_content_def using n'
    by (simp add: map_upt_Suc add.assoc del: upt_Suc)
  finally show ?thesis
    using assms(2) ne n n' len by (simp add: ivc_pop_def ivc_inv_def NOVA_IVC_RING_SLOTS_def Let_def)
qed

interpretation ivcq: fifo_ring ivc_push ivc_pop ivc_content 16 ivc_inv
proof unfold_locales
  show "length (ivc_content g) \<le> 16" if "ivc_inv g" for g
    using that by (simp add: length_ivc_content ivc_inv_def NOVA_IVC_RING_SLOTS_def)
  show "ivc_push g x = None" if "ivc_inv g" "length (ivc_content g) = 16" for g x
  proof -
    have "ir_widx g - ir_ridx g = of_nat 16"
      using that by (metis length_ivc_content of_nat_unat ucast_id)
    then show ?thesis by (simp add: ivc_push_def NOVA_IVC_RING_SLOTS_def)
  qed
  show "ivc_pop g = None" if "ivc_content g = []" for g
    using that length_ivc_content [of g] by (simp add: ivc_pop_def unat_eq_0)
qed (use ivc_push_room ivc_pop_some in auto)

section \<open>Producer and consumer interleaved\<close>

text \<open>
  The program counters of the two sides. A side holds in it the locals its
  code has computed so far: \<open>PushStart v\<close> is \<open>push(v)\<close> entered,
  \<open>PushW v w\<close> after the relaxed load of its own index, \<open>PushR v w r\<close> after
  the acquire load of the other side's index, \<open>PushStored v w\<close> after the
  payload store and before the release store. \<open>PopR\<close> and \<open>PopW\<close> are the two
  loads of \<open>pop\<close>, \<open>PopRead r v\<close> is the payload read and the index not yet
  released.
\<close>

datatype prod_pc = PushIdle | PushStart u64 | PushW u64 u32 | PushR u64 u32 u32 | PushStored u64 u32
datatype cons_pc = PopIdle | PopR u32 | PopW u32 u32 | PopRead u32 u64

record spsc =
  sp_ring :: ivc_ring
  sp_prod :: prod_pc
  sp_cons :: cons_pc
  sp_sent :: "u64 list"
  sp_recv :: "u64 list"

text \<open>
  \<open>sp_sent\<close> and \<open>sp_recv\<close> are history: the values \<open>push\<close> returned true for and
  the values \<open>pop\<close> delivered.
\<close>

inductive spsc_step :: "spsc \<Rightarrow> spsc \<Rightarrow> bool" where
  push_call: "sp_prod s = PushIdle \<Longrightarrow> spsc_step s (s\<lparr>sp_prod := PushStart v\<rparr>)"
| push_load_w: "sp_prod s = PushStart v \<Longrightarrow>
    spsc_step s (s\<lparr>sp_prod := PushW v (ir_widx (sp_ring s))\<rparr>)"
| push_load_r: "sp_prod s = PushW v w \<Longrightarrow>
    spsc_step s (s\<lparr>sp_prod := PushR v w (ir_ridx (sp_ring s))\<rparr>)"
| push_full: "sp_prod s = PushR v w r \<Longrightarrow> w - r = of_nat NOVA_IVC_RING_SLOTS \<Longrightarrow>
    spsc_step s (s\<lparr>sp_prod := PushIdle\<rparr>)"
| push_store: "sp_prod s = PushR v w r \<Longrightarrow> w - r \<noteq> of_nat NOVA_IVC_RING_SLOTS \<Longrightarrow>
    spsc_step s (s\<lparr>sp_ring := (sp_ring s)\<lparr>ir_slots := (ir_slots (sp_ring s))[ivc_slot w := v]\<rparr>,
                   sp_prod := PushStored v w\<rparr>)"
| push_publish: "sp_prod s = PushStored v w \<Longrightarrow>
    spsc_step s (s\<lparr>sp_ring := (sp_ring s)\<lparr>ir_widx := w + 1\<rparr>,
                   sp_prod := PushIdle, sp_sent := sp_sent s @ [v]\<rparr>)"
| pop_load_r: "sp_cons s = PopIdle \<Longrightarrow>
    spsc_step s (s\<lparr>sp_cons := PopR (ir_ridx (sp_ring s))\<rparr>)"
| pop_load_w: "sp_cons s = PopR r \<Longrightarrow>
    spsc_step s (s\<lparr>sp_cons := PopW r (ir_widx (sp_ring s))\<rparr>)"
| pop_empty: "sp_cons s = PopW r w \<Longrightarrow> w = r \<Longrightarrow>
    spsc_step s (s\<lparr>sp_cons := PopIdle\<rparr>)"
| pop_read: "sp_cons s = PopW r w \<Longrightarrow> w \<noteq> r \<Longrightarrow>
    spsc_step s (s\<lparr>sp_cons := PopRead r (ir_slots (sp_ring s) ! ivc_slot r)\<rparr>)"
| pop_release: "sp_cons s = PopRead r v \<Longrightarrow>
    spsc_step s (s\<lparr>sp_ring := (sp_ring s)\<lparr>ir_ridx := r + 1\<rparr>,
                   sp_cons := PopIdle, sp_recv := sp_recv s @ [v]\<rparr>)"

definition spsc_init :: "spsc \<Rightarrow> bool" where
  "spsc_init s \<longleftrightarrow> ir_widx (sp_ring s) = 0 \<and> ir_ridx (sp_ring s) = 0
     \<and> length (ir_slots (sp_ring s)) = NOVA_IVC_RING_SLOTS
     \<and> sp_prod s = PushIdle \<and> sp_cons s = PopIdle \<and> sp_sent s = [] \<and> sp_recv s = []"

text \<open>What each side may rely on while the other moves.\<close>

fun prod_ok :: "spsc \<Rightarrow> prod_pc \<Rightarrow> bool" where
  "prod_ok s PushIdle = True"
| "prod_ok s (PushStart v) = True"
| "prod_ok s (PushW v w) = (w = of_nat (length (sp_sent s)))"
| "prod_ok s (PushR v w r) = (w = of_nat (length (sp_sent s))
     \<and> (\<exists>n \<le> length (sp_recv s). r = of_nat n \<and> length (sp_sent s) \<le> n + 16))"
| "prod_ok s (PushStored v w) = (w = of_nat (length (sp_sent s))
     \<and> length (sp_sent s) < length (sp_recv s) + 16
     \<and> ir_slots (sp_ring s) ! (length (sp_sent s) mod 16) = v)"

fun cons_ok :: "spsc \<Rightarrow> cons_pc \<Rightarrow> bool" where
  "cons_ok s PopIdle = True"
| "cons_ok s (PopR r) = (r = of_nat (length (sp_recv s)))"
| "cons_ok s (PopW r w) = (r = of_nat (length (sp_recv s))
     \<and> (\<exists>m \<le> length (sp_sent s). w = of_nat m \<and> length (sp_recv s) \<le> m))"
| "cons_ok s (PopRead r v) = (r = of_nat (length (sp_recv s))
     \<and> length (sp_recv s) < length (sp_sent s) \<and> v = sp_sent s ! length (sp_recv s))"

definition spsc_ring_ok :: "spsc \<Rightarrow> bool" where
  "spsc_ring_ok s \<longleftrightarrow>
     ir_widx (sp_ring s) = of_nat (length (sp_sent s))
   \<and> ir_ridx (sp_ring s) = of_nat (length (sp_recv s))
   \<and> length (sp_recv s) \<le> length (sp_sent s)
   \<and> length (sp_sent s) \<le> length (sp_recv s) + 16
   \<and> length (ir_slots (sp_ring s)) = 16
   \<and> sp_recv s = take (length (sp_recv s)) (sp_sent s)
   \<and> (\<forall>i. length (sp_recv s) \<le> i \<longrightarrow> i < length (sp_sent s) \<longrightarrow>
        ir_slots (sp_ring s) ! (i mod 16) = sp_sent s ! i)"

definition spsc_inv :: "spsc \<Rightarrow> bool" where
  "spsc_inv s \<longleftrightarrow> spsc_ring_ok s \<and> prod_ok s (sp_prod s) \<and> cons_ok s (sp_cons s)"

lemma spsc_inv_init: "spsc_init s \<Longrightarrow> spsc_inv s"
  by (simp add: spsc_init_def spsc_inv_def spsc_ring_ok_def NOVA_IVC_RING_SLOTS_def)

lemma spsc_inv_prod_local:
  assumes "spsc_inv s" "prod_ok s p"
  shows "spsc_inv (s\<lparr>sp_prod := p\<rparr>)"
proof -
  have "prod_ok (s\<lparr>sp_prod := p\<rparr>) q = prod_ok s q" "cons_ok (s\<lparr>sp_prod := p\<rparr>) c = cons_ok s c" for q c
    by (cases q; simp) (cases c; simp)
  then show ?thesis using assms by (simp add: spsc_inv_def spsc_ring_ok_def)
qed

lemma spsc_inv_cons_local:
  assumes "spsc_inv s" "cons_ok s c"
  shows "spsc_inv (s\<lparr>sp_cons := c\<rparr>)"
proof -
  have "prod_ok (s\<lparr>sp_cons := c\<rparr>) q = prod_ok s q" "cons_ok (s\<lparr>sp_cons := c\<rparr>) d = cons_ok s d" for q d
    by (cases q; simp) (cases d; simp)
  then show ?thesis using assms by (simp add: spsc_inv_def spsc_ring_ok_def)
qed

text \<open>
  The stale consumer index the producer holds only ever understates the room:
  a slot the producer is about to write is one the consumer has released.
\<close>

lemma spsc_store_room:
  assumes "prod_ok s (PushR v w r)" "spsc_ring_ok s" "w - r \<noteq> of_nat NOVA_IVC_RING_SLOTS"
  shows "length (sp_sent s) < length (sp_recv s) + 16"
proof -
  from assms(1) obtain n where n: "w = of_nat (length (sp_sent s))" "n \<le> length (sp_recv s)"
    "r = of_nat n" "length (sp_sent s) \<le> n + 16" by auto
  have le: "n \<le> length (sp_sent s)" using n(2) assms(2) by (simp add: spsc_ring_ok_def)
  have "length (sp_sent s) - n \<noteq> 16"
  proof
    assume "length (sp_sent s) - n = 16"
    then have "w - r = of_nat 16" using n le by (simp flip: of_nat_diff)
    then show False using assms(3) by (simp add: NOVA_IVC_RING_SLOTS_def)
  qed
  then show ?thesis using n le by linarith
qed

lemma spsc_inv_push_store:
  assumes inv: "spsc_inv s" and p: "sp_prod s = PushR v w r"
    and room: "w - r \<noteq> of_nat NOVA_IVC_RING_SLOTS"
  shows "spsc_inv (s\<lparr>sp_ring := (sp_ring s)\<lparr>ir_slots := (ir_slots (sp_ring s))[ivc_slot w := v]\<rparr>,
                     sp_prod := PushStored v w\<rparr>)" (is "spsc_inv ?t")
proof -
  from inv p have ok: "prod_ok s (PushR v w r)" and ring: "spsc_ring_ok s"
    and c: "cons_ok s (sp_cons s)" by (simp_all add: spsc_inv_def)
  have lt: "length (sp_sent s) < length (sp_recv s) + 16"
    by (rule spsc_store_room [OF ok ring room])
  have w: "w = of_nat (length (sp_sent s))" using ok by simp
  then have slot: "ivc_slot w = length (sp_sent s) mod 16" by (simp add: ivc_slot_of_nat)
  have keep: "length (sp_sent s) mod 16 \<noteq> i mod 16"
    if "length (sp_recv s) \<le> i" "i < length (sp_sent s)" for i
    using that lt mod_distinct_window [of i "length (sp_sent s)" 16] by auto
  have "spsc_ring_ok ?t" using ring keep slot by (simp add: spsc_ring_ok_def)
  moreover have "prod_ok ?t (PushStored v w)"
    using ring lt w slot by (simp add: spsc_ring_ok_def)
  moreover have "cons_ok ?t (sp_cons s)" using c by (cases "sp_cons s") simp_all
  ultimately show ?thesis by (simp add: spsc_inv_def del: prod_ok.simps)
qed

lemma spsc_inv_push_publish:
  assumes inv: "spsc_inv s" and p: "sp_prod s = PushStored v w"
  shows "spsc_inv (s\<lparr>sp_ring := (sp_ring s)\<lparr>ir_widx := w + 1\<rparr>,
                     sp_prod := PushIdle, sp_sent := sp_sent s @ [v]\<rparr>)" (is "spsc_inv ?t")
proof -
  from inv p have ok: "prod_ok s (PushStored v w)" and ring: "spsc_ring_ok s"
    and c: "cons_ok s (sp_cons s)" by (simp_all add: spsc_inv_def)
  have "spsc_ring_ok ?t"
    using ring ok by (auto simp: spsc_ring_ok_def nth_append less_Suc_eq)
  moreover have "cons_ok ?t (sp_cons s)"
    using c by (cases "sp_cons s") (auto simp: nth_append intro: le_SucI)
  ultimately show ?thesis by (simp add: spsc_inv_def)
qed

lemma spsc_inv_pop_release:
  assumes inv: "spsc_inv s" and p: "sp_cons s = PopRead r v"
  shows "spsc_inv (s\<lparr>sp_ring := (sp_ring s)\<lparr>ir_ridx := r + 1\<rparr>,
                     sp_cons := PopIdle, sp_recv := sp_recv s @ [v]\<rparr>)" (is "spsc_inv ?t")
proof -
  from inv p have ok: "cons_ok s (PopRead r v)" and ring: "spsc_ring_ok s"
    and c: "prod_ok s (sp_prod s)" by (simp_all add: spsc_inv_def)
  have "sp_recv s @ [v] = take (Suc (length (sp_recv s))) (sp_sent s)"
    using ring ok by (simp add: spsc_ring_ok_def take_Suc_conv_app_nth)
  then have "spsc_ring_ok ?t"
    using ring ok by (auto simp: spsc_ring_ok_def)
  moreover have "prod_ok ?t (sp_prod s)"
    using c by (cases "sp_prod s") (auto intro: le_SucI)
  ultimately show ?thesis by (simp add: spsc_inv_def)
qed

lemma spsc_pop_read_ok:
  assumes "spsc_inv s" "sp_cons s = PopW r w" "w \<noteq> r"
  shows "cons_ok s (PopRead r (ir_slots (sp_ring s) ! ivc_slot r))"
proof -
  from assms obtain m where m: "r = of_nat (length (sp_recv s))" "m \<le> length (sp_sent s)"
    "w = of_nat m" "length (sp_recv s) \<le> m" by (auto simp: spsc_inv_def)
  then have "length (sp_recv s) < length (sp_sent s)"
    using assms(3) by (cases "m = length (sp_recv s)") auto
  then show ?thesis
    using assms(1) m(1) by (simp add: spsc_inv_def spsc_ring_ok_def ivc_slot_of_nat)
qed

lemma spsc_inv_step:
  assumes "spsc_inv s" "spsc_step s s'"
  shows "spsc_inv s'"
  using assms(2)
proof cases
  case push_store
  then show ?thesis using spsc_inv_push_store [OF assms(1)] by simp
next
  case push_publish
  then show ?thesis using spsc_inv_push_publish [OF assms(1)] by simp
next
  case pop_release
  then show ?thesis using spsc_inv_pop_release [OF assms(1)] by simp
next
  case pop_read
  then show ?thesis using spsc_pop_read_ok [OF assms(1)] spsc_inv_cons_local [OF assms(1)] by blast
next
  case (push_load_r v w)
  have "prod_ok s (PushR v w (ir_ridx (sp_ring s)))"
    using assms(1) push_load_r by (auto simp: spsc_inv_def spsc_ring_ok_def)
  then show ?thesis using push_load_r spsc_inv_prod_local [OF assms(1)] by blast
next
  case (pop_load_w r)
  have "cons_ok s (PopW r (ir_widx (sp_ring s)))"
    using assms(1) pop_load_w by (auto simp: spsc_inv_def spsc_ring_ok_def)
  then show ?thesis using pop_load_w spsc_inv_cons_local [OF assms(1)] by blast
next
  case push_load_w
  then show ?thesis
    using assms(1) spsc_inv_prod_local [OF assms(1)] by (simp add: spsc_inv_def spsc_ring_ok_def)
next
  case pop_load_r
  then show ?thesis
    using assms(1) spsc_inv_cons_local [OF assms(1)] by (simp add: spsc_inv_def spsc_ring_ok_def)
qed (use spsc_inv_prod_local [OF assms(1)] spsc_inv_cons_local [OF assms(1)] in simp_all)

interpretation spscm: invariant_machine spsc_init spsc_step spsc_inv
  by unfold_locales (rule spsc_inv_init spsc_inv_step; assumption)+

text \<open>
  C17. However the producer's and the consumer's atomic accesses interleave, the
  values delivered are a prefix of the values accepted, in the same order and
  each once, and at most a ring's worth of values is in flight.
\<close>

theorem ivc_spsc_fifo:
  assumes "spsc_init s0" "spsc_step\<^sup>*\<^sup>* s0 s"
  shows "\<exists>rest. sp_sent s = sp_recv s @ rest \<and> length rest \<le> NOVA_IVC_RING_SLOTS"
proof -
  have ok: "spsc_ring_ok s" using spscm.reachable_inv [OF assms] by (simp add: spsc_inv_def)
  have "sp_sent s = sp_recv s @ drop (length (sp_recv s)) (sp_sent s)"
    using ok by (metis append_take_drop_id spsc_ring_ok_def)
  moreover have "length (drop (length (sp_recv s)) (sp_sent s)) \<le> NOVA_IVC_RING_SLOTS"
    using ok unfolding spsc_ring_ok_def NOVA_IVC_RING_SLOTS_def length_drop by linarith
  ultimately show ?thesis by blast
qed

definition spsc_start :: spsc where
  "spsc_start = \<lparr>sp_ring = \<lparr>ir_widx = 0, ir_ridx = 0, ir_slots = replicate 16 0\<rparr>,
     sp_prod = PushIdle, sp_cons = PopIdle, sp_sent = [], sp_recv = []\<rparr>"

text \<open>A run in which the consumer enters \<open>pop\<close> while a push is still in progress.\<close>

lemma spsc_run_seven:
  "\<exists>s. spsc_step\<^sup>*\<^sup>* spsc_start s \<and> sp_recv s = [7] \<and> sp_sent s = [7]"
proof (intro exI conjI)
  show "spsc_step\<^sup>*\<^sup>* spsc_start
    (spsc_start\<lparr>sp_ring := \<lparr>ir_widx = 1, ir_ridx = 1, ir_slots = (replicate 16 0)[0 := 7]\<rparr>,
       sp_sent := [7], sp_recv := [7]\<rparr>)"
  proof -
    let ?fin = "spsc_start\<lparr>sp_ring := \<lparr>ir_widx = 1, ir_ridx = 1, ir_slots = (replicate 16 0)[0 := 7]\<rparr>,
       sp_sent := [7], sp_recv := [7]\<rparr>"
    let ?push = "\<lambda>pc. spsc_start\<lparr>sp_prod := pc\<rparr>"
    let ?stored = "\<lambda>pc c. spsc_start\<lparr>sp_ring := \<lparr>ir_widx = 0, ir_ridx = 0,
        ir_slots = (replicate 16 0)[0 := 7]\<rparr>, sp_prod := pc, sp_cons := c\<rparr>"
    let ?pub = "\<lambda>c. spsc_start\<lparr>sp_ring := \<lparr>ir_widx = 1, ir_ridx = 0,
        ir_slots = (replicate 16 0)[0 := 7]\<rparr>, sp_cons := c, sp_sent := [7]\<rparr>"
    have a: "spsc_step spsc_start (?push (PushStart 7))"
      by (rule push_call) (simp add: spsc_start_def)
    have b: "spsc_step (?push (PushStart 7)) (?push (PushW 7 0))"
      using push_load_w [of "?push (PushStart 7)" 7] by (simp add: spsc_start_def)
    have c: "spsc_step (?push (PushW 7 0)) (?push (PushR 7 0 0))"
      using push_load_r [of "?push (PushW 7 0)" 7 0] by (simp add: spsc_start_def)
    have d: "spsc_step (?push (PushR 7 0 0)) (?stored (PushStored 7 0) PopIdle)"
      using push_store [of "?push (PushR 7 0 0)" 7 0 0]
      by (simp add: spsc_start_def NOVA_IVC_RING_SLOTS_def ivc_slot_mod)
    have e: "spsc_step (?stored (PushStored 7 0) PopIdle) (?stored (PushStored 7 0) (PopR 0))"
      using pop_load_r [of "?stored (PushStored 7 0) PopIdle"] by (simp add: spsc_start_def)
    have f: "spsc_step (?stored (PushStored 7 0) (PopR 0)) (?pub (PopR 0))"
      using push_publish [of "?stored (PushStored 7 0) (PopR 0)" 7 0] by (simp add: spsc_start_def)
    have g: "spsc_step (?pub (PopR 0)) (?pub (PopW 0 1))"
      using pop_load_w [of "?pub (PopR 0)" 0] by (simp add: spsc_start_def)
    have h: "spsc_step (?pub (PopW 0 1)) (?pub (PopRead 0 7))"
      using pop_read [of "?pub (PopW 0 1)" 0 1] by (simp add: spsc_start_def ivc_slot_mod)
    have i: "spsc_step (?pub (PopRead 0 7)) ?fin"
      using pop_release [of "?pub (PopRead 0 7)" 0 7] by (simp add: spsc_start_def)
    show ?thesis
      by (intro converse_rtranclp_into_rtranclp [of spsc_step, OF a]
            converse_rtranclp_into_rtranclp [of spsc_step, OF b] converse_rtranclp_into_rtranclp [of spsc_step, OF c]
            converse_rtranclp_into_rtranclp [of spsc_step, OF d] converse_rtranclp_into_rtranclp [of spsc_step, OF e]
            converse_rtranclp_into_rtranclp [of spsc_step, OF f] converse_rtranclp_into_rtranclp [of spsc_step, OF g]
            converse_rtranclp_into_rtranclp [of spsc_step, OF h] r_into_rtranclp [of spsc_step, OF i])
  qed
qed (simp_all add: spsc_start_def)

lemma ivc_spsc_fifo_witness:
  "spsc_init spsc_start \<and>
   (\<exists>s rest. spsc_step\<^sup>*\<^sup>* spsc_start s \<and> sp_recv s = [7] \<and> sp_sent s = sp_recv s @ rest)"
proof -
  have "spsc_init spsc_start"
    by (simp add: spsc_init_def spsc_start_def NOVA_IVC_RING_SLOTS_def)
  moreover obtain s where "spsc_step\<^sup>*\<^sup>* spsc_start s" "sp_recv s = [7]"
    using spsc_run_seven by blast
  ultimately show ?thesis using ivc_spsc_fifo by blast
qed

end
