(* ===== verification/NovaStage2Desc.thy ===== *)
theory NovaStage2Desc
  imports NovaPrelude
begin

text \<open>
  \<open>src/components/core/core_mmu/include/core_mmu/stage2_descriptor.hpp\<close>:
  the 64-bit Stage 2 descriptor, its builders and its field extractors, with
  the round trips between them.
\<close>

section \<open>Fields\<close>

definition kTypeMask :: u64 where "kTypeMask = 3"
definition kTypeInvalid :: u64 where "kTypeInvalid = 0"
definition kTypeBlock :: u64 where "kTypeBlock = 1"
definition kTypeTable :: u64 where "kTypeTable = 3"
definition kTypePage :: u64 where "kTypePage = 3"

definition kMemAttrShift :: nat where "kMemAttrShift = 2"
definition kMemAttrMask :: u64 where "kMemAttrMask = push_bit kMemAttrShift 0xF"
definition kMemAttrNormalWB :: u64 where "kMemAttrNormalWB = 0xF"
definition kMemAttrDeviceNGnRE :: u64 where "kMemAttrDeviceNGnRE = 1"

definition kS2apShift :: nat where "kS2apShift = 6"
definition kS2apMask :: u64 where "kS2apMask = push_bit kS2apShift 3"
definition kS2apReadWrite :: u64 where "kS2apReadWrite = 3"

definition kShShift :: nat where "kShShift = 8"
definition kShMask :: u64 where "kShMask = push_bit kShShift 3"
definition kShOuterShareable :: u64 where "kShOuterShareable = 2"
definition kShInnerShareable :: u64 where "kShInnerShareable = 3"

definition kAfBit :: u64 where "kAfBit = push_bit 10 1"
definition kOutputAddrMask :: u64 where "kOutputAddrMask = 0x0000FFFFFFFFF000"
definition kContigBit :: u64 where "kContigBit = push_bit 52 1"
definition kXnBit :: u64 where "kXnBit = push_bit 54 1"

definition kAttrNormalRwx :: u64 where
  "kAttrNormalRwx = push_bit kMemAttrShift kMemAttrNormalWB OR push_bit kS2apShift kS2apReadWrite
     OR push_bit kShShift kShInnerShareable OR kAfBit"

definition kAttrNormalRwData :: u64 where
  "kAttrNormalRwData = kAttrNormalRwx OR kXnBit"

definition kAttrDeviceRw :: u64 where
  "kAttrDeviceRw = push_bit kMemAttrShift kMemAttrDeviceNGnRE OR push_bit kS2apShift kS2apReadWrite
     OR push_bit kShShift kShOuterShareable OR kAfBit OR kXnBit"

section \<open>Builders and extractors\<close>

definition make_block :: "u64 \<Rightarrow> u64 \<Rightarrow> u64" where
  "make_block output_pa attrs = (output_pa AND kOutputAddrMask) OR attrs OR kTypeBlock"

definition make_page :: "u64 \<Rightarrow> u64 \<Rightarrow> u64" where
  "make_page output_pa attrs = (output_pa AND kOutputAddrMask) OR attrs OR kTypePage"

definition make_table :: "u64 \<Rightarrow> u64" where
  "make_table next_table_pa = (next_table_pa AND kOutputAddrMask) OR kTypeTable"

definition kInvalid :: u64 where "kInvalid = 0"

definition descriptor_type :: "u64 \<Rightarrow> u64" where
  "descriptor_type d = d AND kTypeMask"

definition is_valid :: "u64 \<Rightarrow> bool" where
  "is_valid d \<longleftrightarrow> descriptor_type d \<noteq> kTypeInvalid"

definition output_addr :: "u64 \<Rightarrow> u64" where
  "output_addr d = d AND kOutputAddrMask"

definition mem_attr :: "u64 \<Rightarrow> u64" where
  "mem_attr d = drop_bit kMemAttrShift (d AND kMemAttrMask)"

definition s2ap :: "u64 \<Rightarrow> u64" where
  "s2ap d = drop_bit kS2apShift (d AND kS2apMask)"

definition shareability :: "u64 \<Rightarrow> u64" where
  "shareability d = drop_bit kShShift (d AND kShMask)"

definition access_flag :: "u64 \<Rightarrow> bool" where
  "access_flag d \<longleftrightarrow> d AND kAfBit \<noteq> 0"

definition execute_never :: "u64 \<Rightarrow> bool" where
  "execute_never d \<longleftrightarrow> d AND kXnBit \<noteq> 0"

definition attrs_well_formed :: "u64 \<Rightarrow> bool" where
  "attrs_well_formed attrs \<longleftrightarrow>
     attrs AND NOT (push_bit kMemAttrShift 0x3FF OR kXnBit OR kContigBit) = 0"

text \<open>The bits a leaf's attributes occupy; everything \<open>attrs_well_formed\<close> admits.\<close>

definition attr_mask :: u64 where
  "attr_mask = push_bit kMemAttrShift 0x3FF OR kXnBit OR kContigBit"

definition desc_attrs :: "u64 \<Rightarrow> u64" where
  "desc_attrs d = d AND attr_mask"

lemmas desc_consts = kTypeMask_def kTypeInvalid_def kTypeBlock_def kTypeTable_def kTypePage_def
  kOutputAddrMask_def kMemAttrShift_def kXnBit_def kContigBit_def kInvalid_def kMemAttrMask_def
  kS2apShift_def kS2apMask_def kShShift_def kShMask_def kAfBit_def kMemAttrNormalWB_def
  kMemAttrDeviceNGnRE_def kS2apReadWrite_def kShOuterShareable_def kShInnerShareable_def

lemma attr_mask_value: "attr_mask = 0x0050000000000FFC"
  by (simp add: attr_mask_def desc_consts push_bit_eq_mult)

lemma attrs_well_formed_and:
  assumes "attrs_well_formed attrs"
  shows "attrs AND attr_mask = attrs"
proof -
  have z: "attrs AND NOT attr_mask = 0" using assms by (simp add: attrs_well_formed_def attr_mask_def)
  have "attrs = attrs AND (attr_mask OR NOT attr_mask)" by simp
  also have "\<dots> = attrs AND attr_mask"
    unfolding bit.conj_disj_distrib z by simp
  finally show ?thesis by simp
qed

text \<open>
  A descriptor is the disjoint union of frame, attributes and type: each
  extractor applied to a builder returns what the builder was given.
\<close>

lemma leaf_fields:
  assumes "attrs_well_formed attrs" "ty AND kTypeMask = ty"
  shows "descriptor_type ((pa AND kOutputAddrMask) OR attrs OR ty) = ty"
    and "output_addr ((pa AND kOutputAddrMask) OR attrs OR ty) = pa AND kOutputAddrMask"
    and "desc_attrs ((pa AND kOutputAddrMask) OR attrs OR ty) = attrs"
proof -
  have a: "attrs = attrs AND 0x0050000000000FFC"
    using attrs_well_formed_and [OF assms(1)] by (simp add: attr_mask_value)
  have t: "ty = ty AND 3" using assms(2) by (simp add: kTypeMask_def)
  let ?d = "(pa AND 0x0000FFFFFFFFF000) OR (attrs AND 0x0050000000000FFC) OR (ty AND 3)"
  have d: "(pa AND kOutputAddrMask) OR attrs OR ty = ?d"
    using a t by (simp add: kOutputAddrMask_def)
  have "?d AND 3 = ty AND 3" "?d AND 0x0000FFFFFFFFF000 = pa AND 0x0000FFFFFFFFF000"
    "?d AND 0x0050000000000FFC = attrs AND 0x0050000000000FFC"
    by (simp_all add: bit.conj_disj_distrib2 and.assoc)
  then show "descriptor_type ((pa AND kOutputAddrMask) OR attrs OR ty) = ty"
    "output_addr ((pa AND kOutputAddrMask) OR attrs OR ty) = pa AND kOutputAddrMask"
    "desc_attrs ((pa AND kOutputAddrMask) OR attrs OR ty) = attrs"
    unfolding d using a t
    by (simp_all add: descriptor_type_def output_addr_def desc_attrs_def attr_mask_value desc_consts)
qed

lemma make_block_fields:
  assumes "attrs_well_formed attrs"
  shows "descriptor_type (make_block pa attrs) = kTypeBlock"
    and "output_addr (make_block pa attrs) = pa AND kOutputAddrMask"
    and "desc_attrs (make_block pa attrs) = attrs"
  unfolding make_block_def by (rule leaf_fields [OF assms]; simp add: desc_consts)+

lemma make_page_fields:
  assumes "attrs_well_formed attrs"
  shows "descriptor_type (make_page pa attrs) = kTypePage"
    and "output_addr (make_page pa attrs) = pa AND kOutputAddrMask"
    and "desc_attrs (make_page pa attrs) = attrs"
  unfolding make_page_def by (rule leaf_fields [OF assms]; simp add: desc_consts)+

lemma make_table_fields:
  shows "descriptor_type (make_table pa) = kTypeTable"
    and "output_addr (make_table pa) = pa AND kOutputAddrMask"
    and "desc_attrs (make_table pa) = 0"
  using leaf_fields [of 0 kTypeTable pa]
  by (simp_all add: make_table_def attrs_well_formed_def desc_consts)

lemma kInvalid_type: "descriptor_type kInvalid = kTypeInvalid"
  by (simp add: descriptor_type_def desc_consts)

lemma type_distinct [simp]:
  "kTypeBlock \<noteq> kTypeTable" "kTypeTable \<noteq> kTypeBlock" "kTypeTable \<noteq> kTypeInvalid"
  "kTypeInvalid \<noteq> kTypeTable" "kTypeBlock \<noteq> kTypeInvalid" "kTypeInvalid \<noteq> kTypeBlock"
  "kTypePage = kTypeTable"
  by (simp_all add: desc_consts)

lemma type_cases: "descriptor_type d \<in> {kTypeInvalid, kTypeBlock, 2, kTypeTable}"
proof -
  have "unat (d AND 3) = unat d mod 4"
    using unat_and_mask [of d 2] by (simp add: mask_eq_exp_minus_1)
  then have "unat (d AND 3) \<in> {0, 1, 2, 3}" by auto
  then have "d AND 3 \<in> {0, 1, 2, 3}"
    by (auto simp: word_unat_eq_iff)
  then show ?thesis by (simp add: descriptor_type_def desc_consts)
qed

text \<open>The frame field keeps every 4 KiB aligned address below \<open>2 ^ 48\<close>.\<close>

lemma frame_kept:
  assumes "unat pa mod 4096 = 0" "unat pa < 2 ^ 48"
  shows "pa AND kOutputAddrMask = pa"
proof -
  have lo: "take_bit 12 pa = 0"
    using assms(1) by (simp add: word_unat_eq_iff unsigned_take_bit_eq take_bit_eq_mod unat_mod del: take_bit_eq_0_iff)
  have hi: "take_bit 48 pa = pa"
    using assms(2) by (simp add: word_unat_eq_iff unsigned_take_bit_eq take_bit_nat_eq_self)
  have "pa AND kOutputAddrMask = take_bit 48 pa AND NOT (mask 12)"
    by (simp add: kOutputAddrMask_def take_bit_eq_mask and.assoc mask_eq_exp_minus_1)
  also have "\<dots> = pa AND NOT (mask 12)" by (simp only: hi)
  also have "\<dots> = take_bit 12 pa OR (pa AND NOT (mask 12))" by (simp only: lo or.left_neutral)
  also have "\<dots> = pa AND (mask 12 OR NOT (mask 12))"
    by (simp only: bit.conj_disj_distrib take_bit_eq_mask)
  also have "\<dots> = pa" by simp
  finally show ?thesis .
qed

end
