(* ===== verification/NovaStage2.thy ===== *)
theory NovaStage2
  imports NovaStage2Desc
begin

text \<open>
  \<open>src/components/core/core_mmu/include/core_mmu/stage2_builder.hpp\<close>: the
  table set, the index extractors, \<open>init_tables\<close> and \<open>map_range\<close> with its
  three nested loops. A table is a function from the 9-bit index to the
  descriptor (\<open>std::array<std::uint64_t, 512>\<close>, always indexed through
  \<open>kIndexMask\<close>); a pool is a list of tables beside the list of their physical
  addresses; the pointer \<open>l1\<close> is its null test and its pointee. A loop is a
  \<open>partial_function (option)\<close>, so that not returning would be \<open>None\<close>; that
  \<open>map_range\<close> always returns is proved.
\<close>

section \<open>Geometry\<close>

definition kTableEntries :: nat where "kTableEntries = 512"
definition kL1Shift :: nat where "kL1Shift = 30"
definition kL2Shift :: nat where "kL2Shift = 21"
definition kL3Shift :: nat where "kL3Shift = 12"
definition kIndexMask :: u64 where "kIndexMask = of_nat kTableEntries - 1"
definition k2MiB :: u64 where "k2MiB = push_bit kL2Shift 1"
definition k4KiB :: u64 where "k4KiB = push_bit kL3Shift 1"

type_synonym table = "nat \<Rightarrow> u64"

record Stage2Tables =
  s2_l1_set :: bool
  s2_l1 :: table
  s2_l2_pool :: "table list"
  s2_l2_pas :: "u64 list"
  s2_l3_pool :: "table list"
  s2_l3_pas :: "u64 list"
  s2_l2_used :: nat
  s2_l3_used :: nat

definition l1_index :: "u64 \<Rightarrow> nat" where
  "l1_index ipa = unat (drop_bit kL1Shift ipa AND kIndexMask)"

definition l2_index :: "u64 \<Rightarrow> nat" where
  "l2_index ipa = unat (drop_bit kL2Shift ipa AND kIndexMask)"

definition l3_index :: "u64 \<Rightarrow> nat" where
  "l3_index ipa = unat (drop_bit kL3Shift ipa AND kIndexMask)"

definition init_tables :: "Stage2Tables \<Rightarrow> Stage2Tables" where
  "init_tables t = t\<lparr>s2_l1 := (\<lambda>_. kInvalid),
     s2_l2_pool := map (\<lambda>_ _. kInvalid) (s2_l2_pool t),
     s2_l3_pool := map (\<lambda>_ _. kInvalid) (s2_l3_pool t),
     s2_l2_used := 0, s2_l3_used := 0\<rparr>"

text \<open>
  The two searches of the source scan the used prefix of a pool for the table
  whose address a descriptor holds.
\<close>

definition find_table :: "u64 list \<Rightarrow> nat \<Rightarrow> u64 \<Rightarrow> nat option" where
  "find_table pas used table_pa = find (\<lambda>i. pas ! i AND kOutputAddrMask = table_pa) [0 ..< used]"

definition find_l2 :: "Stage2Tables \<Rightarrow> u64 \<Rightarrow> nat option" where
  "find_l2 t = find_table (s2_l2_pas t) (s2_l2_used t)"

definition find_l3 :: "Stage2Tables \<Rightarrow> u64 \<Rightarrow> nat option" where
  "find_l3 t = find_table (s2_l3_pas t) (s2_l3_used t)"

section \<open>Builder\<close>

definition write_l2 :: "Stage2Tables \<Rightarrow> nat \<Rightarrow> nat \<Rightarrow> u64 \<Rightarrow> Stage2Tables" where
  "write_l2 t j i d = t\<lparr>s2_l2_pool := (s2_l2_pool t)[j := (s2_l2_pool t ! j)(i := d)]\<rparr>"

definition write_l3 :: "Stage2Tables \<Rightarrow> nat \<Rightarrow> nat \<Rightarrow> u64 \<Rightarrow> Stage2Tables" where
  "write_l3 t k i d = t\<lparr>s2_l3_pool := (s2_l3_pool t)[k := (s2_l3_pool t ! k)(i := d)]\<rparr>"

text \<open>The innermost loop: pages into L3 table \<open>k\<close> until \<open>chunk_end\<close>.\<close>

partial_function (option) map_pages ::
  "Stage2Tables \<Rightarrow> nat \<Rightarrow> u64 \<Rightarrow> u64 \<Rightarrow> u64 \<Rightarrow> u64 \<Rightarrow> (bool \<times> Stage2Tables \<times> u64) option" where
  "map_pages t k pa_off leaf_attrs addr chunk_end =
     (if addr < chunk_end then
        let i3 = l3_index addr in
        if is_valid ((s2_l3_pool t ! k) i3) then Some (False, t, addr)
        else map_pages (write_l3 t k i3 (make_page (addr + pa_off) leaf_attrs))
               k pa_off leaf_attrs (addr + k4KiB) chunk_end
      else Some (True, t, addr))"

text \<open>
  The L3 table of slot \<open>i2\<close> of L2 table \<open>j\<close>: taken from the pool, or found
  through the descriptor; \<open>None\<close> is an early \<open>return false\<close>.
\<close>

definition select_l3 :: "Stage2Tables \<Rightarrow> nat \<Rightarrow> nat \<Rightarrow> (Stage2Tables \<times> nat) option" where
  "select_l3 t j i2 =
     (let d = (s2_l2_pool t ! j) i2 in
      if \<not> is_valid d then
        if s2_l3_used t \<ge> length (s2_l3_pool t) then None
        else Some ((write_l2 t j i2 (make_table (s2_l3_pas t ! s2_l3_used t)))
                     \<lparr>s2_l3_used := s2_l3_used t + 1\<rparr>, s2_l3_used t)
      else if descriptor_type d = kTypeBlock then None
      else map_option (Pair t) (find_l3 t (output_addr d)))"

partial_function (option) map_region ::
  "Stage2Tables \<Rightarrow> nat \<Rightarrow> u64 \<Rightarrow> u64 \<Rightarrow> u64 \<Rightarrow> u64 \<Rightarrow> (bool \<times> Stage2Tables \<times> u64) option" where
  "map_region t j pa_off leaf_attrs addr region_end =
     (if addr < region_end then
        let i2 = l2_index addr in
        if addr mod k2MiB = 0 \<and> (addr + pa_off) mod k2MiB = 0 \<and> region_end - addr \<ge> k2MiB
             \<and> \<not> is_valid ((s2_l2_pool t ! j) i2)
        then map_region (write_l2 t j i2 (make_block (addr + pa_off) leaf_attrs))
               j pa_off leaf_attrs (addr + k2MiB) region_end
        else case select_l3 t j i2 of
            None \<Rightarrow> Some (False, t, addr)
          | Some (t', k) \<Rightarrow>
              (let slot_end = (addr AND NOT (k2MiB - 1)) + k2MiB;
                   chunk_end = (if region_end < slot_end then region_end else slot_end) in
               Option.bind (map_pages t' k pa_off leaf_attrs addr chunk_end) (\<lambda>(ok, t'', addr').
                 if ok then map_region t'' j pa_off leaf_attrs addr' region_end
                 else Some (False, t'', addr')))
      else Some (True, t, addr))"

definition select_l2 :: "Stage2Tables \<Rightarrow> nat \<Rightarrow> (Stage2Tables \<times> nat) option" where
  "select_l2 t i1 =
     (let d = s2_l1 t i1 in
      if \<not> is_valid d then
        if s2_l2_used t \<ge> length (s2_l2_pool t) then None
        else Some (t\<lparr>s2_l1 := (s2_l1 t)(i1 := make_table (s2_l2_pas t ! s2_l2_used t)),
                     s2_l2_used := s2_l2_used t + 1\<rparr>, s2_l2_used t)
      else if descriptor_type d \<noteq> kTypeTable then None
      else map_option (Pair t) (find_l2 t (output_addr d)))"

partial_function (option) map_l1 ::
  "Stage2Tables \<Rightarrow> u64 \<Rightarrow> u64 \<Rightarrow> u64 \<Rightarrow> u64 \<Rightarrow> (bool \<times> Stage2Tables) option" where
  "map_l1 t pa_off leaf_attrs addr end_addr =
     (if addr < end_addr then
        case select_l2 t (l1_index addr) of
          None \<Rightarrow> Some (False, t)
        | Some (t', j) \<Rightarrow>
            (let l1_end = push_bit kL1Shift (drop_bit kL1Shift addr + 1);
                 region_end = (if end_addr < l1_end then end_addr else l1_end) in
             Option.bind (map_region t' j pa_off leaf_attrs addr region_end) (\<lambda>(ok, t'', addr').
               if ok then map_l1 t'' pa_off leaf_attrs addr' end_addr
               else Some (False, t'')))
      else Some (True, t))"

definition kIpaLimit :: u64 where "kIpaLimit = push_bit 39 1"
definition kPaLimit :: u64 where "kPaLimit = push_bit 40 1"

definition map_range_refused :: "Stage2Tables \<Rightarrow> u64 \<Rightarrow> u64 \<Rightarrow> u64 \<Rightarrow> bool" where
  "map_range_refused t ipa_base pa_base sz \<longleftrightarrow>
     \<not> s2_l1_set t \<or> length (s2_l2_pool t) \<noteq> length (s2_l2_pas t)
   \<or> length (s2_l3_pool t) \<noteq> length (s2_l3_pas t)
   \<or> sz = 0 \<or> ipa_base mod k4KiB \<noteq> 0 \<or> pa_base mod k4KiB \<noteq> 0 \<or> sz mod k4KiB \<noteq> 0
   \<or> ipa_base \<ge> kIpaLimit \<or> sz > kIpaLimit - ipa_base
   \<or> pa_base \<ge> kPaLimit \<or> sz > kPaLimit - pa_base"

definition map_range ::
  "Stage2Tables \<Rightarrow> u64 \<Rightarrow> u64 \<Rightarrow> u64 \<Rightarrow> u64 \<Rightarrow> (bool \<times> Stage2Tables) option" where
  "map_range t ipa_base pa_base sz leaf_attrs =
     (if map_range_refused t ipa_base pa_base sz then Some (False, t)
      else map_l1 t (pa_base - ipa_base) leaf_attrs ipa_base (ipa_base + sz))"

section \<open>The walk\<close>

text \<open>
  What the translation hardware does with the tables (Arm DDI0487 D5.2, as the
  source cites it): a valid descriptor of table type leads to the pool table
  at its output address, a block at level 2 keeps 21 bits of the address, a
  page at level 3 keeps 12. The result is the output address and the leaf's
  attributes, or a translation fault.
\<close>

datatype slot = SFree | SLeaf u64 | STab nat | SBad

definition l1_view :: "Stage2Tables \<Rightarrow> nat \<Rightarrow> slot" where
  "l1_view t i =
     (let d = s2_l1 t i in
      if \<not> is_valid d then SFree
      else if descriptor_type d = kTypeTable then
        case find_table (s2_l2_pas t) (length (s2_l2_pool t)) (output_addr d) of
          None \<Rightarrow> SBad | Some j \<Rightarrow> STab j
      else SBad)"

definition l2_view :: "Stage2Tables \<Rightarrow> nat \<Rightarrow> nat \<Rightarrow> slot" where
  "l2_view t j i =
     (let d = (s2_l2_pool t ! j) i in
      if \<not> is_valid d then SFree
      else if descriptor_type d = kTypeBlock then SLeaf d
      else if descriptor_type d = kTypeTable then
        case find_table (s2_l3_pas t) (length (s2_l3_pool t)) (output_addr d) of
          None \<Rightarrow> SBad | Some k \<Rightarrow> STab k
      else SBad)"

definition l3_view :: "Stage2Tables \<Rightarrow> nat \<Rightarrow> nat \<Rightarrow> slot" where
  "l3_view t k i =
     (let d = (s2_l3_pool t ! k) i in
      if \<not> is_valid d then SFree
      else if descriptor_type d = kTypePage then SLeaf d
      else SBad)"

definition s2_walk :: "Stage2Tables \<Rightarrow> u64 \<Rightarrow> (u64 \<times> u64) option" where
  "s2_walk t ipa =
     (case l1_view t (l1_index ipa) of
        STab j \<Rightarrow>
          (case l2_view t j (l2_index ipa) of
             SLeaf d \<Rightarrow> Some (output_addr d - output_addr d mod k2MiB + ipa mod k2MiB, desc_attrs d)
           | STab k \<Rightarrow>
               (case l3_view t k (l3_index ipa) of
                  SLeaf d \<Rightarrow> Some (output_addr d + ipa mod k4KiB, desc_attrs d)
                | _ \<Rightarrow> None)
           | _ \<Rightarrow> None)
      | _ \<Rightarrow> None)"

end
