(* ===== verification/NovaStage2Walk.thy ===== *)
theory NovaStage2Walk
  imports NovaStage2
begin

text \<open>
  Facts on the table sets of \<open>NovaStage2\<close>: the index arithmetic, the
  well-formedness every builder operation keeps, and the effect on the walk of
  the four writes \<open>map_range\<close> performs (link an L2 table, link an L3 table,
  install a block, install a page).
\<close>

section \<open>Indices\<close>

lemmas geometry = kL1Shift_def kL2Shift_def kL3Shift_def k2MiB_def k4KiB_def kIpaLimit_def kPaLimit_def

lemma index_mask: "kIndexMask = mask 9"
  by (simp add: kIndexMask_def kTableEntries_def mask_eq_exp_minus_1)

lemma unat_drop_bit: "unat (drop_bit n (w :: u64)) = unat w div 2 ^ n"
  using unsigned_less [of w, where ?'a = nat] by (simp only: unsigned_drop_bit_eq) (simp add: drop_bit_eq_div take_bit_nat_eq_self)

lemma l1_index_div: "l1_index x = unat x div 2 ^ 30 mod 512"
  using unat_and_mask [of "drop_bit 30 x" 9]
  by (simp add: l1_index_def index_mask geometry unat_drop_bit)

lemma l2_index_div: "l2_index x = unat x div 2 ^ 21 mod 512"
  using unat_and_mask [of "drop_bit 21 x" 9]
  by (simp add: l2_index_def index_mask geometry unat_drop_bit)

lemma l3_index_div: "l3_index x = unat x div 2 ^ 12 mod 512"
  using unat_and_mask [of "drop_bit 12 x" 9]
  by (simp add: l3_index_def index_mask geometry unat_drop_bit)

lemma index_less [simp]: "l1_index x < 512" "l2_index x < 512" "l3_index x < 512"
  by (simp_all add: l1_index_div l2_index_div l3_index_div)

lemma k2MiB_value: "k2MiB = 0x200000" and k4KiB_value: "k4KiB = 0x1000"
  by (simp_all add: geometry push_bit_eq_mult)

lemma limit_values: "kIpaLimit = 0x8000000000" "kPaLimit = 0x10000000000"
  by (simp_all add: geometry push_bit_eq_mult)

text \<open>Below the 39-bit limit the indices of a level determine the slot of that size.\<close>

lemma l1_index_eq_iff:
  assumes "unat x < 2 ^ 39" "unat y < 2 ^ 39"
  shows "l1_index x = l1_index y \<longleftrightarrow> unat x div 2 ^ 30 = unat y div 2 ^ 30"
  using assms by (simp add: l1_index_div div_less_iff_less_mult)

lemma l12_index_eq_iff:
  assumes "unat x < 2 ^ 39" "unat y < 2 ^ 39"
  shows "l1_index x = l1_index y \<and> l2_index x = l2_index y \<longleftrightarrow> unat x div 2 ^ 21 = unat y div 2 ^ 21"
proof -
  have "n div 2 ^ 30 = n div 2 ^ 21 div 512" for n :: nat by (simp add: div_mult2_eq [symmetric])
  then show ?thesis
    unfolding l1_index_eq_iff [OF assms] by (simp add: l2_index_div) (metis div_mult_mod_eq)
qed

lemma l123_index_eq_iff:
  assumes "unat x < 2 ^ 39" "unat y < 2 ^ 39"
  shows "l1_index x = l1_index y \<and> l2_index x = l2_index y \<and> l3_index x = l3_index y
     \<longleftrightarrow> unat x div 2 ^ 12 = unat y div 2 ^ 12"
proof -
  have "n div 2 ^ 21 = n div 2 ^ 12 div 512" for n :: nat by (simp add: div_mult2_eq [symmetric])
  then show ?thesis
    using l12_index_eq_iff [OF assms] by (simp add: l3_index_div) (metis div_mult_mod_eq)
qed

section \<open>Searching a pool\<close>

definition frames_distinct :: "u64 list \<Rightarrow> bool" where
  "frames_distinct pas \<longleftrightarrow> distinct (map (\<lambda>p. p AND kOutputAddrMask) pas)"

lemma find_table_Some:
  assumes "find_table pas n pa = Some i"
  shows "i < n \<and> pas ! i AND kOutputAddrMask = pa"
  using assms by (auto simp: find_table_def find_Some_iff)

lemma find_table_hit:
  assumes "frames_distinct pas" "n \<le> length pas" "i < n"
  shows "find_table pas n (pas ! i AND kOutputAddrMask) = Some i"
  unfolding find_table_def find_Some_iff
proof (intro exI conjI allI impI)
  fix j assume "j < i"
  then have "j \<noteq> i" "j < length pas" "i < length pas" using assms by auto
  then show "\<not> pas ! ([0 ..< n] ! j) AND kOutputAddrMask = pas ! i AND kOutputAddrMask"
    using assms \<open>j < i\<close> by (simp add: frames_distinct_def distinct_conv_nth)
qed (use assms in auto)

section \<open>Well-formed table sets\<close>

definition s2_pools_ok :: "Stage2Tables \<Rightarrow> bool" where
  "s2_pools_ok t \<longleftrightarrow> s2_l1_set t
   \<and> length (s2_l2_pool t) = length (s2_l2_pas t) \<and> length (s2_l3_pool t) = length (s2_l3_pas t)
   \<and> frames_distinct (s2_l2_pas t) \<and> frames_distinct (s2_l3_pas t)
   \<and> s2_l2_used t \<le> length (s2_l2_pool t) \<and> s2_l3_used t \<le> length (s2_l3_pool t)"

text \<open>
  The table graph is a tree: every table in use is linked at most once, and
  tables not drawn from the pools yet are empty.
\<close>

definition s2_tree :: "Stage2Tables \<Rightarrow> bool" where
  "s2_tree t \<longleftrightarrow>
     (\<forall>i < 512. l1_view t i = SFree \<or> (\<exists>j < s2_l2_used t. l1_view t i = STab j))
   \<and> (\<forall>i < 512. \<forall>i' < 512. \<forall>j. l1_view t i = STab j \<longrightarrow> l1_view t i' = STab j \<longrightarrow> i = i')
   \<and> (\<forall>j < length (s2_l2_pool t). \<forall>i < 512. l2_view t j i = SFree \<or>
        j < s2_l2_used t \<and> ((\<exists>d. l2_view t j i = SLeaf d) \<or> (\<exists>k < s2_l3_used t. l2_view t j i = STab k)))
   \<and> (\<forall>j < length (s2_l2_pool t). \<forall>j' < length (s2_l2_pool t). \<forall>i < 512. \<forall>i' < 512. \<forall>k.
        l2_view t j i = STab k \<longrightarrow> l2_view t j' i' = STab k \<longrightarrow> j = j' \<and> i = i')
   \<and> (\<forall>k < length (s2_l3_pool t). \<forall>i < 512. l3_view t k i = SFree \<or>
        k < s2_l3_used t \<and> (\<exists>d. l3_view t k i = SLeaf d))"

definition s2_wf :: "Stage2Tables \<Rightarrow> bool" where
  "s2_wf t \<longleftrightarrow> s2_pools_ok t \<and> s2_tree t"

lemma init_tables_wf:
  assumes "s2_pools_ok t"
  shows "s2_wf (init_tables t)"
  using assms
  by (simp add: s2_wf_def s2_pools_ok_def s2_tree_def init_tables_def l1_view_def l2_view_def l3_view_def
      is_valid_def kInvalid_type)

lemma init_tables_walk: "s2_walk (init_tables t) x = None"
  by (simp add: s2_walk_def l1_view_def init_tables_def is_valid_def kInvalid_type)

lemma s2_l1_cases:
  assumes "s2_wf t" "i < 512"
  obtains "l1_view t i = SFree" | j where "l1_view t i = STab j" "j < s2_l2_used t"
  using assms by (auto simp: s2_wf_def s2_tree_def)

lemma s2_l2_cases:
  assumes "s2_wf t" "j < length (s2_l2_pool t)" "i < 512"
  obtains "l2_view t j i = SFree" | d where "l2_view t j i = SLeaf d" "j < s2_l2_used t"
    | k where "l2_view t j i = STab k" "k < s2_l3_used t" "j < s2_l2_used t"
  using assms unfolding s2_wf_def s2_tree_def by metis

lemma s2_l3_cases:
  assumes "s2_wf t" "k < length (s2_l3_pool t)" "i < 512"
  obtains "l3_view t k i = SFree" | d where "l3_view t k i = SLeaf d" "k < s2_l3_used t"
  using assms unfolding s2_wf_def s2_tree_def by metis

lemma s2_l1_inj:
  assumes "s2_wf t" "i < 512" "i' < 512" "l1_view t i = STab j" "l1_view t i' = STab j"
  shows "i = i'"
  using assms unfolding s2_wf_def s2_tree_def by blast

lemma s2_l2_inj:
  assumes "s2_wf t" "j < length (s2_l2_pool t)" "j' < length (s2_l2_pool t)" "i < 512" "i' < 512"
    "l2_view t j i = STab k" "l2_view t j' i' = STab k"
  shows "j = j'" "i = i'"
  using assms unfolding s2_wf_def s2_tree_def by blast+

lemma s2_used:
  assumes "s2_wf t"
  shows "s2_l2_used t \<le> length (s2_l2_pool t)" "s2_l3_used t \<le> length (s2_l3_pool t)"
    "length (s2_l2_pool t) = length (s2_l2_pas t)" "length (s2_l3_pool t) = length (s2_l3_pas t)"
    "frames_distinct (s2_l2_pas t)" "frames_distinct (s2_l3_pas t)"
  using assms by (simp_all add: s2_wf_def s2_pools_ok_def)

lemma view_free_iff:
  "l1_view t i = SFree \<longleftrightarrow> \<not> is_valid (s2_l1 t i)"
  "l2_view t j i = SFree \<longleftrightarrow> \<not> is_valid ((s2_l2_pool t ! j) i)"
  "l3_view t k i = SFree \<longleftrightarrow> \<not> is_valid ((s2_l3_pool t ! k) i)"
  by (auto simp: l1_view_def l2_view_def l3_view_def Let_def split: option.split)

section \<open>The four writes\<close>

definition link_l2 :: "Stage2Tables \<Rightarrow> nat \<Rightarrow> Stage2Tables" where
  "link_l2 t i1 = t\<lparr>s2_l1 := (s2_l1 t)(i1 := make_table (s2_l2_pas t ! s2_l2_used t)),
                    s2_l2_used := s2_l2_used t + 1\<rparr>"

definition link_l3 :: "Stage2Tables \<Rightarrow> nat \<Rightarrow> nat \<Rightarrow> Stage2Tables" where
  "link_l3 t j i2 = (write_l2 t j i2 (make_table (s2_l3_pas t ! s2_l3_used t)))\<lparr>s2_l3_used := s2_l3_used t + 1\<rparr>"

lemma make_table_valid: "is_valid (make_table pa)"
  by (simp add: is_valid_def make_table_fields)

lemma link_l2_views:
  assumes "s2_wf t" "s2_l2_used t < length (s2_l2_pool t)"
  shows "l1_view (link_l2 t i1) = (l1_view t)(i1 := STab (s2_l2_used t))"
    "l2_view (link_l2 t i1) = l2_view t" "l3_view (link_l2 t i1) = l3_view t"
proof -
  show "l1_view (link_l2 t i1) = (l1_view t)(i1 := STab (s2_l2_used t))"
    using s2_used [OF assms(1)] assms(2) find_table_hit [of "s2_l2_pas t" "length (s2_l2_pas t)" "s2_l2_used t"]
    by (intro ext) (simp add: link_l2_def l1_view_def Let_def make_table_fields make_table_valid)
qed (auto simp: link_l2_def l2_view_def l3_view_def Let_def fun_eq_iff)

lemma write_l2_fields [simp]:
  "s2_l1_set (write_l2 t j i d) = s2_l1_set t" "s2_l1 (write_l2 t j i d) = s2_l1 t"
  "s2_l2_pas (write_l2 t j i d) = s2_l2_pas t" "s2_l3_pas (write_l2 t j i d) = s2_l3_pas t"
  "length (s2_l2_pool (write_l2 t j i d)) = length (s2_l2_pool t)"
  "s2_l3_pool (write_l2 t j i d) = s2_l3_pool t"
  "s2_l2_used (write_l2 t j i d) = s2_l2_used t" "s2_l3_used (write_l2 t j i d) = s2_l3_used t"
  by (simp_all add: write_l2_def)

lemma write_l3_fields [simp]:
  "s2_l1_set (write_l3 t k i d) = s2_l1_set t" "s2_l1 (write_l3 t k i d) = s2_l1 t"
  "s2_l2_pas (write_l3 t k i d) = s2_l2_pas t" "s2_l3_pas (write_l3 t k i d) = s2_l3_pas t"
  "length (s2_l3_pool (write_l3 t k i d)) = length (s2_l3_pool t)"
  "s2_l2_pool (write_l3 t k i d) = s2_l2_pool t"
  "s2_l2_used (write_l3 t k i d) = s2_l2_used t" "s2_l3_used (write_l3 t k i d) = s2_l3_used t"
  by (simp_all add: write_l3_def)

lemma write_l2_views:
  assumes "j < length (s2_l2_pool t)"
  shows "l1_view (write_l2 t j i d) = l1_view t" "l3_view (write_l2 t j i d) = l3_view t"
    "j' \<noteq> j \<or> i' \<noteq> i \<Longrightarrow> l2_view (write_l2 t j i d) j' i' = l2_view t j' i'"
    "descriptor_type d = kTypeBlock \<Longrightarrow> l2_view (write_l2 t j i d) j i = SLeaf d"
  using assms
  by (auto simp: l1_view_def l2_view_def l3_view_def Let_def write_l2_def fun_eq_iff nth_list_update
      is_valid_def)

lemma write_l3_views:
  assumes "k < length (s2_l3_pool t)"
  shows "l1_view (write_l3 t k i d) = l1_view t" "l2_view (write_l3 t k i d) = l2_view t"
    "k' \<noteq> k \<or> i' \<noteq> i \<Longrightarrow> l3_view (write_l3 t k i d) k' i' = l3_view t k' i'"
    "descriptor_type d = kTypePage \<Longrightarrow> l3_view (write_l3 t k i d) k i = SLeaf d"
  using assms
  by (auto simp: l1_view_def l2_view_def l3_view_def Let_def write_l3_def fun_eq_iff nth_list_update
      is_valid_def)

lemma link_l3_views:
  assumes "s2_wf t" "j < length (s2_l2_pool t)" "s2_l3_used t < length (s2_l3_pool t)"
  shows "l1_view (link_l3 t j i) = l1_view t" "l3_view (link_l3 t j i) = l3_view t"
    "l2_view (link_l3 t j i) j' i' = (if j' = j \<and> i' = i then STab (s2_l3_used t) else l2_view t j' i')"
proof -
  show "l2_view (link_l3 t j i) j' i' = (if j' = j \<and> i' = i then STab (s2_l3_used t) else l2_view t j' i')"
    using s2_used [OF assms(1)] assms(2,3) find_table_hit [of "s2_l3_pas t" "length (s2_l3_pas t)" "s2_l3_used t"]
    by (auto simp: link_l3_def write_l2_def l2_view_def Let_def nth_list_update make_table_fields make_table_valid
       )
qed (auto simp: link_l3_def write_l2_def l1_view_def l3_view_def Let_def fun_eq_iff)

lemma link_l2_fields [simp]:
  "s2_l1_set (link_l2 t i) = s2_l1_set t" "s2_l2_pool (link_l2 t i) = s2_l2_pool t"
  "s2_l3_pool (link_l2 t i) = s2_l3_pool t" "s2_l2_pas (link_l2 t i) = s2_l2_pas t"
  "s2_l3_pas (link_l2 t i) = s2_l3_pas t" "s2_l2_used (link_l2 t i) = s2_l2_used t + 1"
  "s2_l3_used (link_l2 t i) = s2_l3_used t"
  by (simp_all add: link_l2_def)

lemma link_l3_fields [simp]:
  "s2_l1_set (link_l3 t j i) = s2_l1_set t" "length (s2_l2_pool (link_l3 t j i)) = length (s2_l2_pool t)"
  "s2_l3_pool (link_l3 t j i) = s2_l3_pool t" "s2_l2_pas (link_l3 t j i) = s2_l2_pas t"
  "s2_l3_pas (link_l3 t j i) = s2_l3_pas t" "s2_l2_used (link_l3 t j i) = s2_l2_used t"
  "s2_l3_used (link_l3 t j i) = s2_l3_used t + 1"
  by (simp_all add: link_l3_def)

lemma s2_wf_unused_l2:
  assumes "s2_wf t" "s2_l2_used t \<le> j" "j < length (s2_l2_pool t)" "i < 512"
  shows "l2_view t j i = SFree"
  using s2_l2_cases [OF assms(1,3,4)] assms(2) by (metis not_le)

lemma s2_wf_unused_l3:
  assumes "s2_wf t" "s2_l3_used t \<le> k" "k < length (s2_l3_pool t)" "i < 512"
  shows "l3_view t k i = SFree"
  using s2_l3_cases [OF assms(1,3,4)] assms(2) by (metis not_le)

lemma link_l2_wf:
  assumes wf: "s2_wf t" and room: "s2_l2_used t < length (s2_l2_pool t)"
    and i: "i < 512" and free: "l1_view t i = SFree"
  shows "s2_wf (link_l2 t i)"
proof -
  note v = link_l2_views [OF wf room, of i]
  have new: "l1_view t i' \<noteq> STab (s2_l2_used t)" if "i' < 512" for i'
    using s2_l1_cases [OF wf that] by (metis less_irrefl slot.distinct(3) slot.inject(2))
  have "s2_pools_ok (link_l2 t i)"
    using wf room by (simp add: s2_wf_def s2_pools_ok_def)
  moreover have "s2_tree (link_l2 t i)"
  proof -
    have "s2_tree t" using wf by (simp add: s2_wf_def)
    then show ?thesis
      unfolding s2_tree_def v link_l2_fields using new
      by (intro conjI) (auto simp: less_Suc_eq; metis)+
  qed
  ultimately show ?thesis by (simp add: s2_wf_def)
qed

lemma link_l3_wf:
  assumes wf: "s2_wf t" and room: "s2_l3_used t < length (s2_l3_pool t)"
    and j: "j < s2_l2_used t" "i < 512" and free: "l2_view t j i = SFree"
  shows "s2_wf (link_l3 t j i)"
proof -
  have jl: "j < length (s2_l2_pool t)" using j s2_used [OF wf] by simp
  note v = link_l3_views [OF wf jl room, of i]
  have new: "l2_view t j' i' \<noteq> STab (s2_l3_used t)" if "j' < length (s2_l2_pool t)" "i' < 512" for j' i'
    using s2_l2_cases [OF wf that] by (metis less_irrefl slot.distinct(3) slot.distinct(7) slot.inject(2))
  have "s2_pools_ok (link_l3 t j i)"
    using wf room by (simp add: s2_wf_def s2_pools_ok_def)
  moreover have "s2_tree (link_l3 t j i)"
  proof -
    have "s2_tree t" using wf by (simp add: s2_wf_def)
    then show ?thesis
      unfolding s2_tree_def v link_l3_fields using new j jl
      by (intro conjI) (auto simp: less_Suc_eq; metis)+
  qed
  ultimately show ?thesis by (simp add: s2_wf_def)
qed

lemma write_block_wf:
  assumes wf: "s2_wf t" and j: "j < s2_l2_used t" "i < 512"
    and free: "l2_view t j i = SFree" and ty: "descriptor_type d = kTypeBlock"
  shows "s2_wf (write_l2 t j i d)"
proof -
  have jl: "j < length (s2_l2_pool t)" using j s2_used [OF wf] by simp
  have v2: "l2_view (write_l2 t j i d) j' i' = (if j' = j \<and> i' = i then SLeaf d else l2_view t j' i')" for j' i'
    using write_l2_views(3,4) [OF jl] ty by auto
  have "s2_tree t" using wf by (simp add: s2_wf_def)
  then have "s2_tree (write_l2 t j i d)"
    unfolding s2_tree_def v2 write_l2_views(1,2) [OF jl] write_l2_fields using j
    by (intro conjI) (auto; metis)+
  then show ?thesis using wf by (simp add: s2_wf_def s2_pools_ok_def)
qed

lemma write_page_wf:
  assumes wf: "s2_wf t" and k: "k < s2_l3_used t" "i < 512"
    and ty: "descriptor_type d = kTypePage"
  shows "s2_wf (write_l3 t k i d)"
proof -
  have kl: "k < length (s2_l3_pool t)" using k s2_used [OF wf] by simp
  have v3: "l3_view (write_l3 t k i d) k' i' = (if k' = k \<and> i' = i then SLeaf d else l3_view t k' i')" for k' i'
    using write_l3_views(3,4) [OF kl] ty by auto
  have "s2_tree t" using wf by (simp add: s2_wf_def)
  then have "s2_tree (write_l3 t k i d)"
    unfolding s2_tree_def v3 write_l3_views(1,2) [OF kl] write_l3_fields using k
    by (intro conjI) (auto; metis)+
  then show ?thesis using wf by (simp add: s2_wf_def s2_pools_ok_def)
qed

section \<open>Effect on the walk\<close>

lemma link_l2_walk:
  assumes "s2_wf t" "s2_l2_used t < length (s2_l2_pool t)" "l1_view t i = SFree"
  shows "s2_walk (link_l2 t i) x = s2_walk t x"
  unfolding s2_walk_def link_l2_views [OF assms(1,2)]
  using s2_wf_unused_l2 [OF assms(1) order.refl assms(2) index_less(2)] assms(3) by simp

lemma link_l3_walk:
  assumes wf: "s2_wf t" and room: "s2_l3_used t < length (s2_l3_pool t)"
    and j: "j < length (s2_l2_pool t)" and free: "l2_view t j i = SFree"
  shows "s2_walk (link_l3 t j i) x = s2_walk t x"
  using s2_wf_unused_l3 [OF wf order.refl room index_less(3)] free
  by (auto simp: s2_walk_def link_l3_views [OF wf j room] split: slot.splits)

lemma write_block_walk:
  assumes wf: "s2_wf t" and i1: "i1 < 512" and l1: "l1_view t i1 = STab j"
    and j: "j < length (s2_l2_pool t)" and ty: "descriptor_type d = kTypeBlock"
  shows "s2_walk (write_l2 t j i2 d) x =
    (if l1_index x = i1 \<and> l2_index x = i2
     then Some (output_addr d - output_addr d mod k2MiB + x mod k2MiB, desc_attrs d)
     else s2_walk t x)"
proof -
  have v2: "l2_view (write_l2 t j i2 d) j' i' = (if j' = j \<and> i' = i2 then SLeaf d else l2_view t j' i')" for j' i'
    using write_l2_views(3,4) [OF j] ty by auto
  have "l1_view t (l1_index x) = STab j \<longleftrightarrow> l1_index x = i1"
    using s2_l1_inj [OF wf _ i1 _ l1, of "l1_index x"] l1 by auto
  then show ?thesis
    by (auto simp: s2_walk_def v2 write_l2_views(1,2) [OF j] l1 split: slot.split)
qed

lemma write_page_walk:
  assumes wf: "s2_wf t" and i1: "i1 < 512" and l1: "l1_view t i1 = STab j"
    and j: "j < length (s2_l2_pool t)" and i2: "i2 < 512" and l2: "l2_view t j i2 = STab k"
    and k: "k < length (s2_l3_pool t)" and ty: "descriptor_type d = kTypePage"
  shows "s2_walk (write_l3 t k i3 d) x =
    (if l1_index x = i1 \<and> l2_index x = i2 \<and> l3_index x = i3
     then Some (output_addr d + x mod k4KiB, desc_attrs d) else s2_walk t x)"
proof -
  have v3: "l3_view (write_l3 t k i3 d) k' i' = (if k' = k \<and> i' = i3 then SLeaf d else l3_view t k' i')" for k' i'
    using write_l3_views(3,4) [OF k] ty by auto
  have other: "j' = j \<and> i' = i2" if "j' < length (s2_l2_pool t)" "i' < 512" "l2_view t j' i' = STab k" for j' i'
    using s2_l2_inj [OF wf that(1) j that(2) i2 that(3) l2] by simp
  have l1x: "l1_view t (l1_index x) = STab j \<longleftrightarrow> l1_index x = i1"
    using s2_l1_inj [OF wf _ i1 _ l1, of "l1_index x"] l1 by auto
  show ?thesis
  proof (cases "l1_view t (l1_index x)")
    case (STab j')
    then have j': "j' < length (s2_l2_pool t)"
      using s2_l1_cases [OF wf index_less(1) [of x]] s2_used(1) [OF wf] by fastforce
    then show ?thesis
      using STab other [OF j' index_less(2) [of x]] l1x l2
      by (auto simp: s2_walk_def v3 write_l3_views(1,2) [OF k] split: slot.split)
  qed (use l1x l1 in \<open>auto simp: s2_walk_def write_l3_views(1,2) [OF k]\<close>)
qed

section \<open>Progress of a mapping\<close>

text \<open>
  \<open>s2_mapped t t' off attrs lo hi\<close>: from \<open>t\<close> to \<open>t'\<close> exactly the addresses
  \<open>[lo, hi)\<close> gained a translation, to themselves displaced by \<open>off\<close>; none of
  them had one, every other address of the 39-bit space keeps its own.
\<close>

definition s2_mapped :: "Stage2Tables \<Rightarrow> Stage2Tables \<Rightarrow> u64 \<Rightarrow> u64 \<Rightarrow> nat \<Rightarrow> nat \<Rightarrow> bool" where
  "s2_mapped t t' off attrs lo hi \<longleftrightarrow> s2_wf t'
     \<and> s2_l1_set t' = s2_l1_set t \<and> s2_l2_pas t' = s2_l2_pas t \<and> s2_l3_pas t' = s2_l3_pas t
     \<and> length (s2_l2_pool t') = length (s2_l2_pool t) \<and> length (s2_l3_pool t') = length (s2_l3_pool t)
     \<and> s2_l2_used t \<le> s2_l2_used t' \<and> s2_l3_used t \<le> s2_l3_used t'
     \<and> (\<forall>x. unat x < 2 ^ 39 \<longrightarrow>
          s2_walk t' x = (if lo \<le> unat x \<and> unat x < hi then Some (x + off, attrs) else s2_walk t x)
        \<and> (lo \<le> unat x \<and> unat x < hi \<longrightarrow> s2_walk t x = None))"

lemma s2_mapped_refl: "s2_wf t \<Longrightarrow> s2_mapped t t off attrs lo lo"
  by (auto simp: s2_mapped_def)

lemma s2_mapped_trans:
  assumes "s2_mapped t t1 off attrs lo mid" "s2_mapped t1 t2 off attrs mid hi" "lo \<le> mid" "mid \<le> hi"
  shows "s2_mapped t t2 off attrs lo hi"
proof -
  have "s2_walk t2 x = (if lo \<le> unat x \<and> unat x < hi then Some (x + off, attrs) else s2_walk t x)
      \<and> (lo \<le> unat x \<and> unat x < hi \<longrightarrow> s2_walk t x = None)" if "unat x < 2 ^ 39" for x
  proof -
    have a: "s2_walk t1 x = (if lo \<le> unat x \<and> unat x < mid then Some (x + off, attrs) else s2_walk t x)"
      "lo \<le> unat x \<and> unat x < mid \<longrightarrow> s2_walk t x = None"
      using assms(1) that by (simp_all add: s2_mapped_def)
    have b: "s2_walk t2 x = (if mid \<le> unat x \<and> unat x < hi then Some (x + off, attrs) else s2_walk t1 x)"
      "mid \<le> unat x \<and> unat x < hi \<longrightarrow> s2_walk t1 x = None"
      using assms(2) that by (simp_all add: s2_mapped_def)
    show ?thesis
      using a b assms(3,4) by (cases "unat x < mid"; cases "mid \<le> unat x") auto
  qed
  then show ?thesis using assms(1,2) unfolding s2_mapped_def by simp
qed

lemma s2_mapped_wf: "s2_mapped t t' off attrs lo hi \<Longrightarrow> s2_wf t'"
  by (simp add: s2_mapped_def)

lemma s2_mapped_walk:
  assumes "s2_mapped t t' off attrs lo hi" "unat x < 2 ^ 39"
  shows "s2_walk t' x = (if lo \<le> unat x \<and> unat x < hi then Some (x + off, attrs) else s2_walk t x)"
    and "lo \<le> unat x \<Longrightarrow> unat x < hi \<Longrightarrow> s2_walk t x = None"
  using assms by (simp_all add: s2_mapped_def)

end
