(* ===== verification/NovaStage2Map.thy ===== *)
theory NovaStage2Map
  imports NovaStage2Walk
begin

text \<open>
  Correctness of the three loops of \<open>map_range\<close>, inside out, and of
  \<open>map_range\<close> itself: it returns on every input, what it maps and what it
  leaves, and why it refuses.
\<close>

section \<open>Word facts of the loops\<close>

lemma unat_add_mod_pow:
  fixes a b :: u64
  assumes "k \<le> 64"
  shows "unat (a + b) mod 2 ^ k = (unat a + unat b) mod 2 ^ k"
proof -
  have "(2 :: nat) ^ k dvd 2 ^ 64" using assms by (rule le_imp_power_dvd)
  then show ?thesis by (simp add: unat_word_ariths mod_mod_cancel)
qed

lemma slot_end_value:
  assumes "unat addr < 2 ^ 39"
  shows "unat ((addr AND NOT (k2MiB - 1)) + k2MiB) = (unat addr div 2 ^ 21 + 1) * 2 ^ 21"
proof -
  have "k2MiB - 1 = mask 21" by (simp add: k2MiB_value mask_eq_exp_minus_1)
  then have d: "unat (addr AND NOT (k2MiB - 1)) = unat addr div 2 ^ 21 * 2 ^ 21"
    using unat_and_not_mask [of addr 21] by (simp add: minus_mod_eq_div_mult)
  then have "unat (addr AND NOT (k2MiB - 1)) + unat k2MiB < 2 ^ 64"
    using assms by (simp add: k2MiB_value)
  from unat_add_no_wrap [of "addr AND NOT (k2MiB - 1)" k2MiB] this d
  show ?thesis by (simp add: k2MiB_value)
qed

lemma l1_end_value:
  fixes addr :: u64
  assumes "unat addr < 2 ^ 39"
  shows "unat (push_bit kL1Shift (drop_bit kL1Shift addr + 1)) = (unat addr div 2 ^ 30 + 1) * 2 ^ 30"
proof -
  have "unat addr div 2 ^ 30 < 2 ^ 9" using assms by (simp add: div_less_iff_less_mult)
  then have d: "unat (drop_bit kL1Shift addr + 1) = unat addr div 2 ^ 30 + 1"
    using unat_add_no_wrap [of "drop_bit 30 addr" 1] by (simp add: geometry unat_drop_bit)
  have "push_bit kL1Shift (drop_bit kL1Shift addr + 1) = (drop_bit kL1Shift addr + 1) * 0x40000000"
    by (simp add: geometry push_bit_eq_mult)
  moreover have "unat (drop_bit kL1Shift addr + 1) * unat (0x40000000 :: u64) < 2 ^ 64"
    unfolding d using \<open>unat addr div 2 ^ 30 < 2 ^ 9\<close> by simp
  ultimately show ?thesis
    using unat_mult_no_wrap [of "drop_bit kL1Shift addr + 1" "0x40000000"] d by simp
qed

text \<open>An address of the same \<open>2 ^ n\<close> slot is the slot's base plus its own low bits.\<close>

lemma slot_offset:
  fixes x addr :: u64
  assumes "unat x div 2 ^ n = unat addr div 2 ^ n" "unat addr mod 2 ^ n = 0" "n < 64"
  shows "x = addr + x mod 2 ^ n"
proof -
  have "(2 :: nat) ^ n < 2 ^ 64" using assms(3) by (rule power_strict_increasing) simp
  then have p: "unat (2 ^ n :: u64) = 2 ^ n"
    using unat_of_nat [of "2 ^ n", where 'a = 64] by (simp add: take_bit_nat_eq_self)
  have "unat x = unat addr + unat x mod 2 ^ n"
    using assms(1,2) by (metis add.right_neutral div_mult_mod_eq)
  then have "unat x = unat addr + unat (x mod 2 ^ n)" by (simp add: unat_mod p)
  moreover have "unat addr + unat (x mod 2 ^ n) < 2 ^ 64"
    using calculation unsigned_less [of x, where ?'a = nat] by simp
  ultimately show ?thesis
    using unat_add_no_wrap [of addr "x mod 2 ^ n"] by (simp add: word_unat_eq_iff)
qed

section \<open>Side conditions of a mapping\<close>

definition map_ok :: "u64 \<Rightarrow> u64 \<Rightarrow> nat \<Rightarrow> nat \<Rightarrow> bool" where
  "map_ok off attrs lo hi \<longleftrightarrow> hi \<le> 2 ^ 39 \<and> hi mod 4096 = 0 \<and> attrs_well_formed attrs
     \<and> (\<forall>x. lo \<le> unat x \<longrightarrow> unat x < hi \<longrightarrow> unat x mod 4096 = 0 \<longrightarrow>
          unat (x + off) < 2 ^ 48 \<and> unat (x + off) mod 4096 = 0)"

lemma map_ok_mono: "map_ok off attrs lo hi \<Longrightarrow> lo \<le> lo' \<Longrightarrow> hi' \<le> hi \<Longrightarrow> hi' mod 4096 = 0 \<Longrightarrow> map_ok off attrs lo' hi'"
  unfolding map_ok_def by (meson le_trans less_le_trans)

lemma page_step:
  assumes wf: "s2_wf t" and ok: "map_ok off attrs lo hi" and a: "lo \<le> unat addr" "unat addr < hi" "unat addr mod 4096 = 0"
    and l1: "l1_view t (l1_index addr) = STab j" and j: "j < s2_l2_used t"
    and l2: "l2_view t j (l2_index addr) = STab k" and k: "k < s2_l3_used t"
    and free: "l3_view t k (l3_index addr) = SFree"
  shows "s2_mapped t (write_l3 t k (l3_index addr) (make_page (addr + off) attrs)) off attrs
           (unat addr) (unat addr + 4096)"
proof -
  let ?d = "make_page (addr + off) attrs" and ?A = "unat addr"
  have jl: "j < length (s2_l2_pool t)" and kl: "k < length (s2_l3_pool t)"
    using j k s2_used [OF wf] by simp_all
  have at: "attrs_well_formed attrs" and hi: "?A < 2 ^ 39"
    and pa: "unat (addr + off) < 2 ^ 48" "unat (addr + off) mod 4096 = 0"
    using ok a by (auto simp: map_ok_def)
  have out: "output_addr ?d = addr + off"
    using make_page_fields(2) [OF at] frame_kept [OF pa(2,1)] by simp
  note ty = make_page_fields(1) [OF at, of "addr + off"]
  note walk = write_page_walk [OF wf index_less(1) l1 jl index_less(2) l2 kl ty]
  have "s2_walk (write_l3 t k (l3_index addr) ?d) x =
      (if ?A \<le> unat x \<and> unat x < ?A + 4096 then Some (x + off, attrs) else s2_walk t x)
      \<and> (?A \<le> unat x \<and> unat x < ?A + 4096 \<longrightarrow> s2_walk t x = None)" if x: "unat x < 2 ^ 39" for x
  proof -
    have same: "l1_index x = l1_index addr \<and> l2_index x = l2_index addr \<and> l3_index x = l3_index addr
        \<longleftrightarrow> ?A \<le> unat x \<and> unat x < ?A + 4096"
      unfolding l123_index_eq_iff [OF x hi] using a(3) by (auto simp: mod_eq_0_iff_dvd elim!: dvdE)
    show ?thesis
    proof (cases "?A \<le> unat x \<and> unat x < ?A + 4096")
      case True
      then have ix: "l1_index x = l1_index addr" "l2_index x = l2_index addr" "l3_index x = l3_index addr"
        using same by simp_all
      have "unat x div 2 ^ 12 = ?A div 2 ^ 12" using ix l123_index_eq_iff [OF x hi] by simp
      then have "x = addr + x mod 2 ^ 12" using slot_offset [of x 12 addr] a(3) by simp
      then have "x = addr + x mod k4KiB" by (simp add: k4KiB_value)
      then have "addr + off + x mod k4KiB = x + off" by (metis add.assoc add.commute)
      moreover have "s2_walk t x = None" by (simp add: s2_walk_def ix l1 l2 free)
      ultimately show ?thesis
        using True walk ix out make_page_fields(3) [OF at] by simp
    next
      case False
      then show ?thesis using walk same by auto
    qed
  qed
  then show ?thesis
    unfolding s2_mapped_def using write_page_wf [OF wf k index_less(3) ty] by simp
qed

lemma block_step:
  assumes wf: "s2_wf t" and ok: "map_ok off attrs lo hi" and a: "lo \<le> unat addr" "unat addr < hi"
    "unat addr mod 2 ^ 21 = 0" and pa21: "unat (addr + off) mod 2 ^ 21 = 0"
    and l1: "l1_view t (l1_index addr) = STab j" and j: "j < s2_l2_used t"
    and free: "l2_view t j (l2_index addr) = SFree"
  shows "s2_mapped t (write_l2 t j (l2_index addr) (make_block (addr + off) attrs)) off attrs
           (unat addr) (unat addr + 2 ^ 21)"
proof -
  let ?d = "make_block (addr + off) attrs" and ?A = "unat addr"
  have jl: "j < length (s2_l2_pool t)" using j s2_used [OF wf] by simp
  have a12: "?A mod 4096 = 0" using a(3) mod_mod_cancel [of 4096 "2 ^ 21" ?A] by simp
  have at: "attrs_well_formed attrs" and hi: "?A < 2 ^ 39"
    and pa: "unat (addr + off) < 2 ^ 48" "unat (addr + off) mod 4096 = 0"
    using ok a a12 by (auto simp: map_ok_def)
  have out: "output_addr ?d = addr + off"
    using make_block_fields(2) [OF at] frame_kept [OF pa(2,1)] by simp
  have "(addr + off) mod k2MiB = 0"
    using pa21 by (simp add: word_unat_eq_iff unat_mod k2MiB_value)
  then have out2: "output_addr ?d - output_addr ?d mod k2MiB = addr + off" by (simp add: out)
  note ty = make_block_fields(1) [OF at, of "addr + off"]
  note walk = write_block_walk [OF wf index_less(1) l1 jl ty, of "l2_index addr"]
  have "s2_walk (write_l2 t j (l2_index addr) ?d) x =
      (if ?A \<le> unat x \<and> unat x < ?A + 2 ^ 21 then Some (x + off, attrs) else s2_walk t x)
      \<and> (?A \<le> unat x \<and> unat x < ?A + 2 ^ 21 \<longrightarrow> s2_walk t x = None)" if x: "unat x < 2 ^ 39" for x
  proof -
    have same: "l1_index x = l1_index addr \<and> l2_index x = l2_index addr
        \<longleftrightarrow> ?A \<le> unat x \<and> unat x < ?A + 2 ^ 21"
      unfolding l12_index_eq_iff [OF x hi] using a(3) by (auto simp: mod_eq_0_iff_dvd elim!: dvdE)
    show ?thesis
    proof (cases "?A \<le> unat x \<and> unat x < ?A + 2 ^ 21")
      case True
      then have ix: "l1_index x = l1_index addr" "l2_index x = l2_index addr"
        using same by simp_all
      have "unat x div 2 ^ 21 = ?A div 2 ^ 21" using ix l12_index_eq_iff [OF x hi] by simp
      then have "x = addr + x mod 2 ^ 21" using slot_offset [of x 21 addr] a(3) by simp
      then have "x = addr + x mod k2MiB" by (simp add: k2MiB_value)
      then have "addr + off + x mod k2MiB = x + off" by (metis add.assoc add.commute)
      moreover have "s2_walk t x = None" by (simp add: s2_walk_def ix l1 free)
      ultimately show ?thesis
        using True walk ix out2 make_block_fields(3) [OF at] by simp
    next
      case False
      then show ?thesis using walk same by auto
    qed
  qed
  then show ?thesis
    unfolding s2_mapped_def using write_block_wf [OF wf j index_less(2) free ty] by simp
qed

section \<open>The loops\<close>

text \<open>
  \<open>s2_progress t off attrs lo hi ok t' b\<close>: the loop mapped \<open>[lo, b)\<close>; it
  reports success exactly when it reached \<open>hi\<close>, and otherwise address \<open>b\<close> had
  a translation already or a pool is exhausted.
\<close>

definition s2_exhausted :: "Stage2Tables \<Rightarrow> bool" where
  "s2_exhausted t \<longleftrightarrow> s2_l2_used t = length (s2_l2_pool t) \<or> s2_l3_used t = length (s2_l3_pool t)"

definition s2_progress ::
  "Stage2Tables \<Rightarrow> u64 \<Rightarrow> u64 \<Rightarrow> nat \<Rightarrow> nat \<Rightarrow> bool \<Rightarrow> Stage2Tables \<Rightarrow> nat \<Rightarrow> bool" where
  "s2_progress t off attrs lo hi ok t' b \<longleftrightarrow>
     s2_mapped t t' off attrs lo b \<and> lo \<le> b \<and> b \<le> hi \<and> (ok \<longrightarrow> b = hi)
   \<and> (\<not> ok \<longrightarrow> b < hi \<and> (s2_walk t (of_nat b) \<noteq> None \<or> s2_exhausted t'))"

lemma s2_progress_trans:
  assumes m: "s2_mapped t t1 off attrs lo mid" and le: "lo \<le> mid" and hi: "hi \<le> 2 ^ 39"
    and p: "s2_progress t1 off attrs mid hi ok t' b"
  shows "s2_progress t off attrs lo hi ok t' b"
proof -
  have b: "mid \<le> b" "b \<le> hi" "s2_mapped t1 t' off attrs mid b" using p by (simp_all add: s2_progress_def)
  have "s2_mapped t t' off attrs lo b" by (rule s2_mapped_trans [OF m b(3) le b(1)])
  moreover have "s2_walk t1 (of_nat b) = s2_walk t (of_nat b)" if "b < hi"
  proof -
    have "unat (of_nat b :: u64) = b"
      using that hi by (simp add: unat_of_nat take_bit_nat_eq_self)
    then show ?thesis using s2_mapped_walk(1) [OF m, of "of_nat b"] that hi b(1) by simp
  qed
  ultimately show ?thesis using p le b(1,2) unfolding s2_progress_def by (cases ok) simp_all
qed

lemma unat_add_small:
  fixes a b :: u64
  assumes "unat a < 2 ^ 41" "unat b < 2 ^ 41"
  shows "unat (a + b) = unat a + unat b"
  using assms by (intro unat_add_no_wrap) simp

lemma map_pages_correct:
  assumes "s2_wf t" "map_ok off attrs (unat addr) (unat chunk_end)"
    and "unat addr \<le> unat chunk_end" "unat addr mod 4096 = 0"
    and "s * 2 ^ 21 \<le> unat addr" "unat chunk_end \<le> (s + 1) * 2 ^ 21"
    and "l1_view t (s div 512 mod 512) = STab j" "j < s2_l2_used t"
    and "l2_view t j (s mod 512) = STab k" "k < s2_l3_used t"
  shows "\<exists>ok t' addr'. map_pages t k off attrs addr chunk_end = Some (ok, t', addr')
     \<and> s2_progress t off attrs (unat addr) (unat chunk_end) ok t' (unat addr')
     \<and> unat addr' mod 4096 = 0 \<and> l1_view t' = l1_view t \<and> s2_l2_used t' = s2_l2_used t"
  using assms
proof (induction "unat chunk_end - unat addr" arbitrary: t addr rule: less_induct)
  case less
  note wf = less.prems(1) and ok = less.prems(2) and l1 = less.prems(7) and j = less.prems(8)
    and l2 = less.prems(9) and k = less.prems(10)
  show ?case
  proof (cases "addr < chunk_end")
    case False
    then have "unat addr = unat chunk_end" using less.prems(3) by (simp add: word_less_nat_alt)
    then show ?thesis
      using False s2_mapped_refl [OF wf] less.prems(4)
      by (subst map_pages.simps) (auto simp: s2_progress_def intro: exI [of _ True])
  next
    case True
    then have lt: "unat addr < unat chunk_end" by (simp add: word_less_nat_alt)
    have hi: "unat chunk_end \<le> 2 ^ 39" "unat chunk_end mod 4096 = 0" using ok by (simp_all add: map_ok_def)
    have sl: "unat addr div 2 ^ 21 = s" using less.prems(5,6) lt by (intro div_nat_eqI) auto
    have i1: "l1_index addr = s div 512 mod 512"
      using sl div_mult2_eq [of "unat addr" "2 ^ 21" 512] by (simp add: l1_index_div)
    have i2: "l2_index addr = s mod 512" using sl by (simp add: l2_index_div)
    note ix = l1 [folded i1] l2 [folded i2]
    show ?thesis
    proof (cases "is_valid ((s2_l3_pool t ! k) (l3_index addr))")
      case valid: True
      have kl: "k < length (s2_l3_pool t)" using k s2_used [OF wf] by simp
      obtain d where "l3_view t k (l3_index addr) = SLeaf d"
        using s2_l3_cases [OF wf kl index_less(3) [of addr]] valid view_free_iff(3) by metis
      then have "s2_walk t addr \<noteq> None" using ix by (simp add: s2_walk_def)
      then show ?thesis
        using True lt valid s2_mapped_refl [OF wf] less.prems(4)
        by (subst map_pages.simps) (auto simp: s2_progress_def intro: exI [of _ False])
    next
      case free: False
      let ?t = "write_l3 t k (l3_index addr) (make_page (addr + off) attrs)"
      have a4: "unat (addr + k4KiB) = unat addr + 4096"
        using lt hi unat_add_small [of addr k4KiB] by (simp add: k4KiB_value)
      have le: "unat addr + 4096 \<le> unat chunk_end"
        using lt hi less.prems(4) by (metis dvd_imp_le dvd_minus_mod dvd_diff_nat add.commute le_diff_conv2 less_imp_le mod_0_imp_dvd zero_less_diff)
      have step: "s2_mapped t ?t off attrs (unat addr) (unat addr + 4096)"
        by (rule page_step [OF wf ok order.refl lt less.prems(4) ix(1) j ix(2) k]) (simp add: view_free_iff free)
      have kl: "k < length (s2_l3_pool t)" using k s2_used [OF wf] by simp
      have "\<exists>ok t' addr'. map_pages ?t k off attrs (addr + k4KiB) chunk_end = Some (ok, t', addr')
          \<and> s2_progress ?t off attrs (unat addr + 4096) (unat chunk_end) ok t' (unat addr')
          \<and> unat addr' mod 4096 = 0 \<and> l1_view t' = l1_view ?t \<and> s2_l2_used t' = s2_l2_used ?t"
        using less.hyps [of "addr + k4KiB" ?t] less.prems le lt a4 hi(2)
          s2_mapped_wf [OF step] map_ok_mono [OF ok, of "unat addr + 4096" "unat chunk_end"]
        by (simp add: write_l3_views [OF kl] mod_add_eq [symmetric])
      then show ?thesis
        using True free s2_progress_trans [OF step _ hi(1)]
        by (subst map_pages.simps) (auto simp: write_l3_views [OF kl] Let_def)
    qed
  qed
qed

text \<open>Selecting the L3 table: what the three outcomes leave behind.\<close>

lemma select_l3_cases:
  assumes wf: "s2_wf t" and j: "j < s2_l2_used t" and i: "i < 512"
  obtains "select_l3 t j i = None" "(\<exists>d. l2_view t j i = SLeaf d) \<or> s2_l3_used t = length (s2_l3_pool t)"
    | k where "select_l3 t j i = Some (t, k)" "l2_view t j i = STab k" "k < s2_l3_used t"
    | "select_l3 t j i = Some (link_l3 t j i, s2_l3_used t)" "l2_view t j i = SFree"
        "s2_l3_used t < length (s2_l3_pool t)"
proof -
  have jl: "j < length (s2_l2_pool t)" using j s2_used [OF wf] by simp
  let ?d = "(s2_l2_pool t ! j) i"
  show thesis
  proof (rule s2_l2_cases [OF wf jl i])
    assume free: "l2_view t j i = SFree"
    show thesis
    proof (cases "s2_l3_used t < length (s2_l3_pool t)")
      case True
      then show thesis
        using free view_free_iff(2) [of t j i] that(3) by (simp add: select_l3_def link_l3_def)
    next
      case False
      then show thesis
        using free view_free_iff(2) [of t j i] that(1) s2_used(2) [OF wf] by (simp add: select_l3_def)
    qed
  next
    fix d assume "l2_view t j i = SLeaf d"
    then have "is_valid ?d" "descriptor_type ?d = kTypeBlock"
      by (auto simp: l2_view_def Let_def split: if_splits option.splits)
    then show thesis using that(1) \<open>l2_view t j i = SLeaf d\<close> by (simp add: select_l3_def)
  next
    fix k assume v: "l2_view t j i = STab k" and k: "k < s2_l3_used t"
    then have d: "is_valid ?d" "descriptor_type ?d = kTypeTable"
      "find_table (s2_l3_pas t) (length (s2_l3_pool t)) (output_addr ?d) = Some k"
      by (auto simp: l2_view_def Let_def split: if_splits option.splits)
    then have "output_addr ?d = s2_l3_pas t ! k AND kOutputAddrMask"
      using find_table_Some by metis
    then have "find_l3 t (output_addr ?d) = Some k"
      using find_table_hit s2_used [OF wf] k by (simp add: find_l3_def)
    then show thesis using that(2) v k d by (simp add: select_l3_def)
  qed
qed

lemma select_l2_cases:
  assumes wf: "s2_wf t" and i: "i < 512"
  obtains "select_l2 t i = None" "s2_l2_used t = length (s2_l2_pool t)"
    | j where "select_l2 t i = Some (t, j)" "l1_view t i = STab j" "j < s2_l2_used t"
    | "select_l2 t i = Some (link_l2 t i, s2_l2_used t)" "l1_view t i = SFree"
        "s2_l2_used t < length (s2_l2_pool t)"
proof -
  let ?d = "s2_l1 t i"
  show thesis
  proof (rule s2_l1_cases [OF wf i])
    assume free: "l1_view t i = SFree"
    show thesis
    proof (cases "s2_l2_used t < length (s2_l2_pool t)")
      case True
      then show thesis
        using free view_free_iff(1) [of t i] that(3) by (simp add: select_l2_def link_l2_def)
    next
      case False
      then show thesis
        using free view_free_iff(1) [of t i] that(1) s2_used(1) [OF wf] by (simp add: select_l2_def)
    qed
  next
    fix j assume v: "l1_view t i = STab j" and j: "j < s2_l2_used t"
    then have d: "is_valid ?d" "descriptor_type ?d = kTypeTable"
      "find_table (s2_l2_pas t) (length (s2_l2_pool t)) (output_addr ?d) = Some j"
      by (auto simp: l1_view_def Let_def split: if_splits option.splits)
    then have "output_addr ?d = s2_l2_pas t ! j AND kOutputAddrMask"
      using find_table_Some by metis
    then have "find_l2 t (output_addr ?d) = Some j"
      using find_table_hit s2_used [OF wf] j by (simp add: find_l2_def)
    then show thesis using that(2) v j d by (simp add: select_l2_def)
  qed
qed

lemma s2_mapped_same_walk:
  assumes "s2_wf t" "s2_wf t'" "\<And>x. s2_walk t' x = s2_walk t x" "s2_l1_set t' = s2_l1_set t"
    "s2_l2_pas t' = s2_l2_pas t" "s2_l3_pas t' = s2_l3_pas t"
    "length (s2_l2_pool t') = length (s2_l2_pool t)" "length (s2_l3_pool t') = length (s2_l3_pool t)"
    "s2_l2_used t \<le> s2_l2_used t'" "s2_l3_used t \<le> s2_l3_used t'"
  shows "s2_mapped t t' off attrs lo lo"
  using assms by (auto simp: s2_mapped_def)

lemma link_l3_mapped:
  assumes "s2_wf t" "s2_l3_used t < length (s2_l3_pool t)" "j < s2_l2_used t" "i < 512" "l2_view t j i = SFree"
  shows "s2_mapped t (link_l3 t j i) off attrs lo lo"
  using assms s2_used(1) [OF assms(1)]
  by (intro s2_mapped_same_walk) (auto intro: link_l3_wf simp: link_l3_walk)

lemma link_l2_mapped:
  assumes "s2_wf t" "s2_l2_used t < length (s2_l2_pool t)" "i < 512" "l1_view t i = SFree"
  shows "s2_mapped t (link_l2 t i) off attrs lo lo"
  using assms by (intro s2_mapped_same_walk) (auto intro: link_l2_wf simp: link_l2_walk)

text \<open>The branches of one round of the middle loop.\<close>

definition takes_block :: "Stage2Tables \<Rightarrow> nat \<Rightarrow> u64 \<Rightarrow> u64 \<Rightarrow> u64 \<Rightarrow> bool" where
  "takes_block t j off addr region_end \<longleftrightarrow>
     addr mod k2MiB = 0 \<and> (addr + off) mod k2MiB = 0 \<and> region_end - addr \<ge> k2MiB
     \<and> \<not> is_valid ((s2_l2_pool t ! j) (l2_index addr))"

definition chunk_limit :: "u64 \<Rightarrow> u64 \<Rightarrow> u64" where
  "chunk_limit addr region_end =
     (let slot_end = (addr AND NOT (k2MiB - 1)) + k2MiB in
      if region_end < slot_end then region_end else slot_end)"

lemma map_region_eq:
  "map_region t j off attrs addr region_end =
     (if addr < region_end then
        if takes_block t j off addr region_end
        then map_region (write_l2 t j (l2_index addr) (make_block (addr + off) attrs)) j off attrs
               (addr + k2MiB) region_end
        else case select_l3 t j (l2_index addr) of
            None \<Rightarrow> Some (False, t, addr)
          | Some (t', k) \<Rightarrow>
              Option.bind (map_pages t' k off attrs addr (chunk_limit addr region_end))
                (\<lambda>(ok, t'', addr'). if ok then map_region t'' j off attrs addr' region_end
                  else Some (False, t'', addr'))
      else Some (True, t, addr))"
  unfolding takes_block_def chunk_limit_def by (subst map_region.simps) (simp only: Let_def)

lemma map_region_branches:
  shows "\<not> addr < region_end \<Longrightarrow> map_region t j off attrs addr region_end = Some (True, t, addr)"
    and "addr < region_end \<Longrightarrow> takes_block t j off addr region_end \<Longrightarrow>
      map_region t j off attrs addr region_end =
      map_region (write_l2 t j (l2_index addr) (make_block (addr + off) attrs)) j off attrs (addr + k2MiB) region_end"
    and "addr < region_end \<Longrightarrow> \<not> takes_block t j off addr region_end \<Longrightarrow>
      select_l3 t j (l2_index addr) = None \<Longrightarrow>
      map_region t j off attrs addr region_end = Some (False, t, addr)"
    and "addr < region_end \<Longrightarrow> \<not> takes_block t j off addr region_end \<Longrightarrow>
      select_l3 t j (l2_index addr) = Some (t1, k) \<Longrightarrow>
      map_pages t1 k off attrs addr (chunk_limit addr region_end) = Some (ok, t2, a2) \<Longrightarrow>
      map_region t j off attrs addr region_end =
      (if ok then map_region t2 j off attrs a2 region_end else Some (False, t2, a2))"
  by (subst map_region_eq, simp)+

lemma chunk_limit_bounds:
  assumes "addr < region_end" "unat region_end \<le> 2 ^ 39" "unat region_end mod 4096 = 0"
  shows "unat addr < unat (chunk_limit addr region_end)"
    "unat (chunk_limit addr region_end) \<le> unat region_end"
    "unat (chunk_limit addr region_end) \<le> (unat addr div 2 ^ 21 + 1) * 2 ^ 21"
    "unat (chunk_limit addr region_end) mod 4096 = 0"
proof -
  let ?slot_end = "(addr AND NOT (k2MiB - 1)) + k2MiB" and ?e = "(unat addr div 2 ^ 21 + 1) * 2 ^ 21"
  have "unat addr < 2 ^ 39" using assms(1,2) by (simp add: word_less_nat_alt)
  then have "unat ?slot_end = ?e" by (rule slot_end_value)
  then have c: "unat (chunk_limit addr region_end) = min (unat region_end) ?e"
    by (simp add: chunk_limit_def Let_def word_less_nat_alt min_def)
  have "unat addr < ?e" using dividend_less_div_times [of "2 ^ 21" "unat addr"] by simp
  then show "unat addr < unat (chunk_limit addr region_end)"
    "unat (chunk_limit addr region_end) \<le> unat region_end"
    "unat (chunk_limit addr region_end) \<le> ?e"
    unfolding c using assms(1) by (simp_all add: word_less_nat_alt)
  have "(4096 :: nat) dvd ?e" by (rule dvd_mult) simp
  then show "unat (chunk_limit addr region_end) mod 4096 = 0"
    unfolding c using assms(3) by (simp add: min_def mod_eq_0_iff_dvd)
qed

lemma takes_block_step:
  assumes wf: "s2_wf t" and ok: "map_ok off attrs (unat addr) (unat region_end)" and lt: "addr < region_end"
    and al: "unat addr mod 4096 = 0" and blk: "takes_block t j off addr region_end"
    and l1: "l1_view t (l1_index addr) = STab j" and j: "j < s2_l2_used t"
  shows "s2_mapped t (write_l2 t j (l2_index addr) (make_block (addr + off) attrs)) off attrs
           (unat addr) (unat (addr + k2MiB))"
    and "unat addr < unat (addr + k2MiB)" "unat (addr + k2MiB) \<le> unat region_end"
    and "unat (addr + k2MiB) mod 4096 = 0"
proof -
  have ltn: "unat addr < unat region_end" using lt by (simp add: word_less_nat_alt)
  have "unat addr < 2 ^ 39" using ok ltn by (simp add: map_ok_def)
  then have a2: "unat (addr + k2MiB) = unat addr + 2 ^ 21"
    using unat_add_small [of addr k2MiB] by (simp add: k2MiB_value)
  have al2: "unat addr mod 2 ^ 21 = 0" "unat (addr + off) mod 2 ^ 21 = 0"
    using blk by (simp_all add: takes_block_def word_unat_eq_iff unat_mod k2MiB_value)
  show "s2_mapped t (write_l2 t j (l2_index addr) (make_block (addr + off) attrs)) off attrs
           (unat addr) (unat (addr + k2MiB))"
    unfolding a2 using blk l1 j
    by (intro block_step [OF wf ok order.refl ltn al2]) (simp_all add: takes_block_def view_free_iff)
  show "unat addr < unat (addr + k2MiB)" by (simp add: a2)
  have "addr \<le> region_end" using lt by simp
  then have "unat (region_end - addr) = unat region_end - unat addr" by (rule unat_sub_le)
  moreover have "2 ^ 21 \<le> unat (region_end - addr)"
    using blk by (simp add: takes_block_def word_le_nat_alt k2MiB_value)
  ultimately show "unat (addr + k2MiB) \<le> unat region_end" using ltn a2 by linarith
  show "unat (addr + k2MiB) mod 4096 = 0"
    using al unfolding a2 by (simp add: mod_add_eq [symmetric])
qed

text \<open>One round through an L3 table, up to the end of the slot or of the region.\<close>

lemma slot_round:
  assumes ok: "map_ok off attrs (unat addr) (unat region_end)" and lt: "addr < region_end"
    and al: "unat addr mod 4096 = 0"
    and m: "s2_mapped t t1 off attrs (unat addr) (unat addr)"
    and l1: "l1_view t1 (l1_index addr) = STab j" and j: "j < s2_l2_used t1"
    and l2: "l2_view t1 j (l2_index addr) = STab k" and k: "k < s2_l3_used t1"
  obtains ok2 t2 a2 where
    "map_pages t1 k off attrs addr (chunk_limit addr region_end) = Some (ok2, t2, a2)"
    "s2_progress t off attrs (unat addr) (unat (chunk_limit addr region_end)) ok2 t2 (unat a2)"
    "unat a2 mod 4096 = 0" "l1_view t2 = l1_view t1"
proof -
  have hi: "unat region_end \<le> 2 ^ 39" "unat region_end mod 4096 = 0" using ok by (simp_all add: map_ok_def)
  note c = chunk_limit_bounds [OF lt hi]
  let ?s = "unat addr div 2 ^ 21"
  have "?s div 512 mod 512 = l1_index addr" "?s mod 512 = l2_index addr"
    using div_mult2_eq [of "unat addr" "2 ^ 21" 512] by (simp_all add: l1_index_div l2_index_div)
  then obtain ok2 t2 a2 where r:
    "map_pages t1 k off attrs addr (chunk_limit addr region_end) = Some (ok2, t2, a2)"
    "s2_progress t1 off attrs (unat addr) (unat (chunk_limit addr region_end)) ok2 t2 (unat a2)"
    "unat a2 mod 4096 = 0" "l1_view t2 = l1_view t1"
    using map_pages_correct [OF s2_mapped_wf [OF m] map_ok_mono [OF ok order.refl c(2,4)]
        less_imp_le [OF c(1)] al div_times_less_eq_dividend c(3), of j k] l1 l2 j k by auto
  have "unat (chunk_limit addr region_end) \<le> 2 ^ 39" using c hi by simp
  from s2_progress_trans [OF m order.refl this r(2)] show thesis by (rule that [OF r(1) _ r(3,4)])
qed

lemma map_region_correct:
  assumes "s2_wf t" "map_ok off attrs (unat addr) (unat region_end)"
    and "unat addr \<le> unat region_end" "unat addr mod 4096 = 0"
    and "g * 2 ^ 30 \<le> unat addr" "unat region_end \<le> (g + 1) * 2 ^ 30" "g < 512"
    and "l1_view t g = STab j" "j < s2_l2_used t"
  shows "\<exists>ok t' addr'. map_region t j off attrs addr region_end = Some (ok, t', addr')
     \<and> s2_progress t off attrs (unat addr) (unat region_end) ok t' (unat addr')
     \<and> unat addr' mod 4096 = 0"
  using assms
proof (induction "unat region_end - unat addr" arbitrary: t addr rule: less_induct)
  case less
  note wf = less.prems(1) and ok = less.prems(2) and al = less.prems(4) and j = less.prems(9)
  have hi: "unat region_end \<le> 2 ^ 39" "unat region_end mod 4096 = 0" using ok by (simp_all add: map_ok_def)
  have jl: "j < length (s2_l2_pool t)" using j s2_used [OF wf] by simp
  show ?case
  proof (cases "addr < region_end")
    case False
    then show ?thesis
      using less.prems(3) s2_mapped_refl [OF wf] al map_region_branches(1) [OF False]
      by (auto simp: s2_progress_def word_less_nat_alt intro: exI [of _ True])
  next
    case lt: True
    then have ltn: "unat addr < unat region_end" by (simp add: word_less_nat_alt)
    have "unat addr div 2 ^ 30 = g" using less.prems(5,6) ltn by (intro div_nat_eqI) auto
    then have i1: "l1_index addr = g" using less.prems(7) by (simp add: l1_index_div)
    note l1 = less.prems(8) [folded i1]
    have rec: "\<exists>ok t' addr'. map_region t1 j off attrs addr1 region_end = Some (ok, t', addr')
        \<and> s2_progress t off attrs (unat addr) (unat region_end) ok t' (unat addr')
        \<and> unat addr' mod 4096 = 0"
      if m: "s2_mapped t t1 off attrs (unat addr) (unat addr1)"
        and a1: "unat addr < unat addr1" "unat addr1 \<le> unat region_end" "unat addr1 mod 4096 = 0"
        and l1': "l1_view t1 g = STab j" for t1 addr1
    proof -
      have "j < s2_l2_used t1" using j m by (simp add: s2_mapped_def)
      then obtain ok t' addr' where q: "map_region t1 j off attrs addr1 region_end = Some (ok, t', addr')"
          "s2_progress t1 off attrs (unat addr1) (unat region_end) ok t' (unat addr')"
          "unat addr' mod 4096 = 0"
        using less.hyps [of addr1 t1] a1 l1' less.prems(5,6,7) s2_mapped_wf [OF m] diff_less_mono2 [OF a1(1) ltn]
          map_ok_mono [OF ok _ order.refl hi(2), of "unat addr1"] by auto
      then show ?thesis
        using s2_progress_trans [OF m less_imp_le [OF a1(1)] hi(1) q(2)]
        by (intro exI [of _ ok] exI [of _ t'] exI [of _ addr']) simp
    qed
    have go: ?thesis
      if nb: "\<not> takes_block t j off addr region_end" and sel: "select_l3 t j (l2_index addr) = Some (t1, k)"
        and m: "s2_mapped t t1 off attrs (unat addr) (unat addr)"
        and v: "l1_view t1 (l1_index addr) = STab j" "l2_view t1 j (l2_index addr) = STab k" "k < s2_l3_used t1"
      for t1 k
    proof -
      have j1: "j < s2_l2_used t1" using j m by (simp add: s2_mapped_def)
      obtain ok2 t2 a2 where r:
        "map_pages t1 k off attrs addr (chunk_limit addr region_end) = Some (ok2, t2, a2)"
        "s2_progress t off attrs (unat addr) (unat (chunk_limit addr region_end)) ok2 t2 (unat a2)"
        "unat a2 mod 4096 = 0" "l1_view t2 = l1_view t1"
        by (rule slot_round [OF ok lt al m v(1) j1 v(2,3)])
      note c = chunk_limit_bounds [OF lt hi] and step = map_region_branches(4) [OF lt nb sel r(1)]
      show ?thesis
      proof (cases ok2)
        case True
        then have "s2_mapped t t2 off attrs (unat addr) (unat a2)" "unat a2 = unat (chunk_limit addr region_end)"
          using r(2) unfolding s2_progress_def by blast+
        then show ?thesis using rec [of t2 a2] c r(3,4) v(1) i1 step True by simp
      next
        case False
        then have "s2_progress t off attrs (unat addr) (unat region_end) False t2 (unat a2)"
          using r(2) c by (simp add: s2_progress_def)
        then show ?thesis
          using step False r(3) by (intro exI [of _ False] exI [of _ t2] exI [of _ a2]) simp
      qed
    qed
    show ?thesis
    proof (cases "takes_block t j off addr region_end")
      case blk: True
      show ?thesis
        using rec takes_block_step [OF wf ok lt al blk l1 j] less.prems(8)
        by (simp add: map_region_branches(2) [OF lt blk] write_l2_views(1) [OF jl])
    next
      case nb: False
      show ?thesis
      proof (rule select_l3_cases [OF wf j index_less(2) [of addr]])
        assume "select_l3 t j (l2_index addr) = None"
          and why: "(\<exists>d. l2_view t j (l2_index addr) = SLeaf d) \<or> s2_l3_used t = length (s2_l3_pool t)"
        moreover have "s2_walk t addr \<noteq> None \<or> s2_exhausted t"
          using why l1 by (auto simp: s2_walk_def s2_exhausted_def)
        then have "s2_progress t off attrs (unat addr) (unat region_end) False t (unat addr)"
          using ltn s2_mapped_refl [OF wf] by (simp add: s2_progress_def)
        ultimately show ?thesis
          using map_region_branches(3) [OF lt nb] al
          by (intro exI [of _ False] exI [of _ t] exI [of _ addr]) simp
      next
        fix k assume "select_l3 t j (l2_index addr) = Some (t, k)" "l2_view t j (l2_index addr) = STab k"
          "k < s2_l3_used t"
        then show ?thesis by (rule go [OF nb _ s2_mapped_refl [OF wf] l1])
      next
        assume new: "select_l3 t j (l2_index addr) = Some (link_l3 t j (l2_index addr), s2_l3_used t)"
          "l2_view t j (l2_index addr) = SFree" "s2_l3_used t < length (s2_l3_pool t)"
        show ?thesis
          by (rule go [OF nb new(1) link_l3_mapped [OF wf new(3) j index_less(2) new(2)]])
            (use l1 in \<open>simp_all add: link_l3_views [OF wf jl new(3)]\<close>)
      qed
    qed
  qed
qed

lemma map_l1_correct:
  assumes "s2_wf t" "map_ok off attrs (unat addr) (unat end_addr)"
    and "unat addr \<le> unat end_addr" "unat addr mod 4096 = 0"
  shows "\<exists>ok t' b. map_l1 t off attrs addr end_addr = Some (ok, t')
     \<and> s2_progress t off attrs (unat addr) (unat end_addr) ok t' b"
  using assms
proof (induction "unat end_addr - unat addr" arbitrary: t addr rule: less_induct)
  case less
  note wf = less.prems(1) and ok = less.prems(2) and al = less.prems(4)
  have hi: "unat end_addr \<le> 2 ^ 39" "unat end_addr mod 4096 = 0" using ok by (simp_all add: map_ok_def)
  show ?case
  proof (cases "addr < end_addr")
    case False
    then have "s2_progress t off attrs (unat addr) (unat end_addr) True t (unat addr)"
      using less.prems(3) s2_mapped_refl [OF wf] by (simp add: s2_progress_def word_less_nat_alt)
    then show ?thesis using False by (subst map_l1.simps) auto
  next
    case lt: True
    then have ltn: "unat addr < unat end_addr" by (simp add: word_less_nat_alt)
    then have a39: "unat addr < 2 ^ 39" using hi by simp
    let ?g = "unat addr div 2 ^ 30"
    let ?l1_end = "push_bit kL1Shift (drop_bit kL1Shift addr + 1)"
    define r where "r = (if end_addr < ?l1_end then end_addr else ?l1_end)"
    have g: "?g < 512" "l1_index addr = ?g" using a39 by (simp_all add: l1_index_div div_less_iff_less_mult)
    have rv: "unat r = min (unat end_addr) ((?g + 1) * 2 ^ 30)"
      using l1_end_value [OF a39] by (simp add: r_def word_less_nat_alt min_def)
    have "unat addr < (?g + 1) * 2 ^ 30" using dividend_less_div_times [of "2 ^ 30" "unat addr"] by simp
    then have r: "unat addr < unat r" "unat r \<le> unat end_addr" "unat r \<le> (?g + 1) * 2 ^ 30"
      using ltn rv by simp_all
    have "(4096 :: nat) dvd (?g + 1) * 2 ^ 30" by (rule dvd_mult) simp
    then have rmod: "unat r mod 4096 = 0" using hi(2) rv by (simp add: min_def mod_eq_0_iff_dvd)
    have go: ?thesis
      if sel: "select_l2 t (l1_index addr) = Some (t1, j)"
        and m: "s2_mapped t t1 off attrs (unat addr) (unat addr)"
        and v: "l1_view t1 ?g = STab j" "j < s2_l2_used t1" for t1 j
    proof -
      obtain ok2 t2 a2 where mr: "map_region t1 j off attrs addr r = Some (ok2, t2, a2)"
        and p1: "s2_progress t1 off attrs (unat addr) (unat r) ok2 t2 (unat a2)" and al2: "unat a2 mod 4096 = 0"
        using map_region_correct [OF s2_mapped_wf [OF m] map_ok_mono [OF ok order.refl r(2) rmod]
            less_imp_le [OF r(1)] al div_times_less_eq_dividend r(3) g(1) v] by auto
      have p: "s2_progress t off attrs (unat addr) (unat r) ok2 t2 (unat a2)"
        using s2_progress_trans [OF m order.refl _ p1] r(2) hi(1) by simp
      have step: "map_l1 t off attrs addr end_addr =
          (if ok2 then map_l1 t2 off attrs a2 end_addr else Some (False, t2))"
        using lt sel mr by (subst map_l1.simps) (simp add: Let_def r_def)
      show ?thesis
      proof (cases ok2)
        case True
        then have m2: "s2_mapped t t2 off attrs (unat addr) (unat a2)" and a2: "unat a2 = unat r"
          using p unfolding s2_progress_def by blast+
        have "\<exists>ok t' b. map_l1 t2 off attrs a2 end_addr = Some (ok, t')
            \<and> s2_progress t2 off attrs (unat a2) (unat end_addr) ok t' b"
          using less.hyps [of a2 t2] r a2 al2 s2_mapped_wf [OF m2]
            map_ok_mono [OF ok _ order.refl hi(2), of "unat a2"] by simp
        then show ?thesis
          using step True s2_progress_trans [OF m2 _ hi(1)] r(1) a2 by (metis less_imp_le)
      next
        case False
        then have "s2_progress t off attrs (unat addr) (unat end_addr) False t2 (unat a2)"
          using p r by (simp add: s2_progress_def)
        then show ?thesis using step False by auto
      qed
    qed
    show ?thesis
    proof (rule select_l2_cases [OF wf index_less(1) [of addr]])
      assume "select_l2 t (l1_index addr) = None" and "s2_l2_used t = length (s2_l2_pool t)"
      moreover from this have "s2_progress t off attrs (unat addr) (unat end_addr) False t (unat addr)"
        using ltn s2_mapped_refl [OF wf] by (simp add: s2_progress_def s2_exhausted_def)
      ultimately show ?thesis using lt by (subst map_l1.simps) auto
    next
      fix j assume "select_l2 t (l1_index addr) = Some (t, j)" "l1_view t (l1_index addr) = STab j"
        "j < s2_l2_used t"
      then show ?thesis using go [OF _ s2_mapped_refl [OF wf]] g(2) by simp
    next
      assume new: "select_l2 t (l1_index addr) = Some (link_l2 t (l1_index addr), s2_l2_used t)"
        "l1_view t (l1_index addr) = SFree" "s2_l2_used t < length (s2_l2_pool t)"
      show ?thesis
        using go [OF new(1) link_l2_mapped [OF wf new(3) index_less(1) new(2)]] g(2)
        by (simp add: link_l2_views [OF wf new(3)])
    qed
  qed
qed

section \<open>map_range\<close>

text \<open>The guards of \<open>map_range\<close> give the loops their side conditions.\<close>

lemma map_range_accepted:
  assumes "\<not> map_range_refused t ipa pa sz" "attrs_well_formed attrs"
  shows "unat (ipa + sz) = unat ipa + unat sz" "0 < unat sz"
    "unat ipa + unat sz \<le> 2 ^ 39" "unat pa + unat sz \<le> 2 ^ 40"
    "unat ipa mod 4096 = 0" "unat pa mod 4096 = 0"
    "map_ok (pa - ipa) attrs (unat ipa) (unat (ipa + sz))"
proof -
  have al: "unat ipa mod 4096 = 0" "unat pa mod 4096 = 0" "unat sz mod 4096 = 0"
    using assms(1) by (simp_all add: map_range_refused_def k4KiB_value word_unat_eq_iff unat_mod)
  have lim: "ipa \<le> kIpaLimit" "sz \<le> kIpaLimit - ipa" "pa \<le> kPaLimit" "sz \<le> kPaLimit - pa" "sz \<noteq> 0"
    using assms(1) by (auto simp: map_range_refused_def)
  have b: "unat ipa + unat sz \<le> 2 ^ 39" "unat pa + unat sz \<le> 2 ^ 40"
    using lim by (simp_all add: word_le_nat_alt unat_sub_le limit_values)
  show e: "unat (ipa + sz) = unat ipa + unat sz"
    using b(1) by (intro unat_add_no_wrap) simp
  show "0 < unat sz" using lim by (simp add: unat_gt_0)
  show "unat ipa + unat sz \<le> 2 ^ 39" "unat pa + unat sz \<le> 2 ^ 40" "unat ipa mod 4096 = 0"
    "unat pa mod 4096 = 0" by (fact b al)+
  have "unat (x + (pa - ipa)) < 2 ^ 48 \<and> unat (x + (pa - ipa)) mod 4096 = 0"
    if x: "unat ipa \<le> unat x" "unat x < unat (ipa + sz)" "unat x mod 4096 = 0" for x
  proof -
    have s: "unat (x - ipa) = unat x - unat ipa" using x(1) by (simp add: unat_sub_le word_le_nat_alt)
    have sw: "x + (pa - ipa) = pa + (x - ipa)" by simp
    have "unat (pa + (x - ipa)) = unat pa + (unat x - unat ipa)"
      using unat_add_no_wrap [of pa "x - ipa"] s x e b(2) by simp
    moreover have "(unat pa + (unat x - unat ipa)) mod 4096 = 0"
      using al x by (simp add: mod_eq_0_iff_dvd)
    ultimately show ?thesis unfolding sw using x e b(2) by simp
  qed
  then show "map_ok (pa - ipa) attrs (unat ipa) (unat (ipa + sz))"
    using assms(2) e b(1) al by (simp add: map_ok_def mod_eq_0_iff_dvd)
qed

lemma map_range_progress:
  assumes "s2_wf t" "attrs_well_formed attrs" "\<not> map_range_refused t ipa pa sz"
  shows "\<exists>ok t' b. map_range t ipa pa sz attrs = Some (ok, t')
     \<and> s2_progress t (pa - ipa) attrs (unat ipa) (unat ipa + unat sz) ok t' b"
  using map_l1_correct [OF assms(1) map_range_accepted(7) [OF assms(3,2)]]
    map_range_accepted [OF assms(3,2)] assms(3) by (simp add: map_range_def)

end
