(* ===== verification/NovaStage2Thms.thy ===== *)
theory NovaStage2Thms
  imports NovaStage2Map
begin

text \<open>
  The properties of \<open>map_range\<close> and the interface its clients use: an
  \<open>address_space\<close> is a structure with a reset, an installation of one
  region and a lookup. The guest tables of \<open>core_mmu\<close> and the DMA tables of
  the SMMU are clients of that interface.
\<close>

section \<open>map_range\<close>

lemma map_range_mapped:
  assumes "s2_wf t" "attrs_well_formed attrs" "map_range t ipa pa sz attrs = Some (True, t')"
  shows "s2_mapped t t' (pa - ipa) attrs (unat ipa) (unat ipa + unat sz)"
proof -
  have "\<not> map_range_refused t ipa pa sz" using assms(3) by (auto simp: map_range_def)
  then obtain b where "s2_progress t (pa - ipa) attrs (unat ipa) (unat ipa + unat sz) True t' b"
    using map_range_progress [OF assms(1,2)] assms(3) by force
  then show ?thesis by (simp add: s2_progress_def) blast
qed

lemma map_range_total:
  assumes "s2_wf t" "attrs_well_formed attrs"
  shows "\<exists>ok t'. map_range t ipa pa sz attrs = Some (ok, t') \<and> s2_wf t'"
proof (cases "map_range_refused t ipa pa sz")
  case True
  then show ?thesis using assms by (intro exI [of _ False] exI [of _ t]) (simp add: map_range_def)
next
  case False
  then show ?thesis using map_range_progress [OF assms False] by (auto simp: s2_progress_def s2_mapped_def)
qed

text \<open>
  C15. When \<open>map_range\<close> returns true, the whole range was unmapped before and
  every address of it now translates to its own displacement from the physical
  base with the requested attributes; every other address keeps its
  translation, and the tables stay well formed, so ranges can be installed one
  after another.
\<close>

theorem map_range_maps:
  assumes "s2_wf t" "attrs_well_formed attrs" "map_range t ipa pa sz attrs = Some (True, t')"
    and "unat x < 2 ^ 39"
  shows "s2_wf t'
     \<and> s2_walk t' x = (if unat ipa \<le> unat x \<and> unat x < unat ipa + unat sz
                       then Some (pa + (x - ipa), attrs) else s2_walk t x)
     \<and> (unat ipa \<le> unat x \<and> unat x < unat ipa + unat sz \<longrightarrow> s2_walk t x = None)"
proof -
  note m = map_range_mapped [OF assms(1-3)]
  have "x + (pa - ipa) = pa + (x - ipa)" by simp
  then show ?thesis
    using s2_mapped_walk [OF m assms(4)] s2_mapped_wf [OF m] by metis
qed

text \<open>
  C16. \<open>map_range\<close> returns on every input, and it returns false only for one of
  the documented reasons: a malformed request, an address of the range that is
  mapped already, or an exhausted pool. Whatever it returns, no translation
  that existed before is changed.
\<close>

theorem map_range_returns:
  assumes "s2_wf t" "attrs_well_formed attrs"
  shows "\<exists>ok t'. map_range t ipa pa sz attrs = Some (ok, t') \<and> s2_wf t'
     \<and> (ok \<or> map_range_refused t ipa pa sz
        \<or> (\<exists>x. unat ipa \<le> unat x \<and> unat x < unat ipa + unat sz \<and> s2_walk t x \<noteq> None)
        \<or> s2_exhausted t')
     \<and> (\<forall>x r. unat x < 2 ^ 39 \<longrightarrow> s2_walk t x = Some r \<longrightarrow> s2_walk t' x = Some r)"
proof (cases "map_range_refused t ipa pa sz")
  case True
  then show ?thesis
    using assms by (intro exI [of _ False] exI [of _ t]) (simp add: map_range_def)
next
  case False
  then obtain ok t' b where r: "map_range t ipa pa sz attrs = Some (ok, t')"
    and p: "s2_progress t (pa - ipa) attrs (unat ipa) (unat ipa + unat sz) ok t' b"
    using map_range_progress [OF assms] by metis
  have m: "s2_mapped t t' (pa - ipa) attrs (unat ipa) b" and b: "unat ipa \<le> b" "b \<le> unat ipa + unat sz"
    using p by (simp_all add: s2_progress_def)
  have keep: "\<forall>x r. unat x < 2 ^ 39 \<longrightarrow> s2_walk t x = Some r \<longrightarrow> s2_walk t' x = Some r"
    using s2_mapped_walk [OF m] by fastforce
  have "ok \<or> (\<exists>x. unat ipa \<le> unat x \<and> unat x < unat ipa + unat sz \<and> s2_walk t x \<noteq> None) \<or> s2_exhausted t'"
  proof (cases ok)
    case f: False
    then have lt: "b < unat ipa + unat sz" and why: "s2_walk t (of_nat b) \<noteq> None \<or> s2_exhausted t'"
      using p by (simp_all add: s2_progress_def)
    have "b < 2 ^ 64" using lt map_range_accepted(3) [OF False assms(2)] by simp
    then have "unat (of_nat b :: u64) = b" by (simp add: unat_of_nat take_bit_nat_eq_self)
    then have "s2_walk t (of_nat b) \<noteq> None \<Longrightarrow>
        \<exists>x. unat ipa \<le> unat x \<and> unat x < unat ipa + unat sz \<and> s2_walk t x \<noteq> None"
      using b lt by (intro exI [of _ "of_nat b"]) simp
    then show ?thesis using why by blast
  qed simp
  then show ?thesis using r keep s2_mapped_wf [OF m] by blast
qed

section \<open>Witnesses\<close>

definition one_of_each :: Stage2Tables where
  "one_of_each = \<lparr>s2_l1_set = True, s2_l1 = (\<lambda>_. 0), s2_l2_pool = [\<lambda>_. 0], s2_l2_pas = [0x80001000],
     s2_l3_pool = [\<lambda>_. 0], s2_l3_pas = [0x80002000], s2_l2_used = 0, s2_l3_used = 0\<rparr>"

lemma one_of_each_wf: "s2_wf (init_tables one_of_each)"
  by (rule init_tables_wf) (simp add: s2_pools_ok_def one_of_each_def frames_distinct_def)

text \<open>Half a megabyte short of a block: one 2 MiB block and one page behind it.\<close>

lemma map_range_run:
  "\<exists>t'. map_range (init_tables one_of_each) 0x40200000 0x90400000 0x201000 kAttrNormalRwx = Some (True, t')"
  by (simp add: map_range_def map_range_refused_def k4KiB_value limit_values init_tables_def one_of_each_def
      map_l1.simps select_l2_def l1_index_div kInvalid_def is_valid_def descriptor_type_def desc_consts
      kL1Shift_def map_region_eq takes_block_def k2MiB_value write_l2_def l2_index_div chunk_limit_def
      select_l3_def map_pages.simps l3_index_div write_l3_def make_block_def make_table_def make_page_def)

lemma rwx_well_formed: "attrs_well_formed kAttrNormalRwx"
  "attrs_well_formed kAttrNormalRwData" "attrs_well_formed kAttrDeviceRw"
  by (simp_all add: attrs_well_formed_def kAttrNormalRwx_def kAttrNormalRwData_def kAttrDeviceRw_def desc_consts
      push_bit_eq_mult)

lemma map_range_maps_witness:
  "\<exists>t'. map_range (init_tables one_of_each) 0x40200000 0x90400000 0x201000 kAttrNormalRwx = Some (True, t')
     \<and> s2_walk t' 0x40400ABC = Some (0x90600ABC, kAttrNormalRwx) \<and> s2_walk t' 0x40401000 = None"
proof -
  obtain t' where r: "map_range (init_tables one_of_each) 0x40200000 0x90400000 0x201000 kAttrNormalRwx
      = Some (True, t')" using map_range_run by blast
  show ?thesis
    using r map_range_maps [OF one_of_each_wf rwx_well_formed(1) r, of "0x40400ABC"]
      map_range_maps [OF one_of_each_wf rwx_well_formed(1) r, of "0x40401000"]
    by (simp add: init_tables_walk)
qed

lemma map_range_returns_witness:
  "\<exists>t'. map_range (init_tables one_of_each) 0x40200000 0x90400000 0x201800 kAttrNormalRwx = Some (False, t')
     \<and> s2_wf t'"
proof -
  have "map_range_refused (init_tables one_of_each) 0x40200000 0x90400000 0x201800"
    by (simp add: map_range_refused_def k4KiB_value)
  then show ?thesis
    using map_range_returns [OF one_of_each_wf rwx_well_formed(1), of "0x40200000" "0x90400000" "0x201800"]
    by (auto simp: map_range_def)
qed

section \<open>Address spaces\<close>

record region =
  rg_ipa :: u64
  rg_pa :: u64
  rg_size :: u64
  rg_attrs :: u64

definition in_region :: "region \<Rightarrow> u64 \<Rightarrow> bool" where
  "in_region r x \<longleftrightarrow> unat (rg_ipa r) \<le> unat x \<and> unat x < unat (rg_ipa r) + unat (rg_size r)"

definition region_image :: "region \<Rightarrow> u64 \<Rightarrow> u64 \<times> u64" where
  "region_image r x = (rg_pa r + (x - rg_ipa r), rg_attrs r)"

text \<open>
  Installing a list of regions one after another, stopping at the first that
  is refused, is what the guest and the DMA table builders do.
\<close>

fun install_all ::
  "('t \<Rightarrow> u64 \<Rightarrow> u64 \<Rightarrow> u64 \<Rightarrow> u64 \<Rightarrow> (bool \<times> 't) option) \<Rightarrow> 't \<Rightarrow> region list \<Rightarrow> (bool \<times> 't) option" where
  "install_all install t [] = Some (True, t)"
| "install_all install t (r # rs) =
     Option.bind (install t (rg_ipa r) (rg_pa r) (rg_size r) (rg_attrs r)) (\<lambda>(ok, t').
       if ok then install_all install t' rs else Some (False, t'))"

locale address_space =
  fixes fresh :: "'t \<Rightarrow> bool"
    and valid :: "'t \<Rightarrow> bool"
    and reset :: "'t \<Rightarrow> 't"
    and install :: "'t \<Rightarrow> u64 \<Rightarrow> u64 \<Rightarrow> u64 \<Rightarrow> u64 \<Rightarrow> (bool \<times> 't) option"
    and lookup :: "'t \<Rightarrow> u64 \<Rightarrow> (u64 \<times> u64) option"
    and legal :: "u64 \<Rightarrow> bool"
    and space :: nat
  assumes reset_valid: "fresh t \<Longrightarrow> valid (reset t)"
    and reset_lookup: "lookup (reset t) x = None"
    and install_total: "valid t \<Longrightarrow> legal a \<Longrightarrow> \<exists>ok t'. install t ipa pa sz a = Some (ok, t') \<and> valid t'"
    and install_keeps: "valid t \<Longrightarrow> legal a \<Longrightarrow> install t ipa pa sz a = Some (True, t') \<Longrightarrow> unat x < space \<Longrightarrow>
          lookup t' x = (if unat ipa \<le> unat x \<and> unat x < unat ipa + unat sz
                         then Some (pa + (x - ipa), a) else lookup t x)"
    and install_free: "valid t \<Longrightarrow> legal a \<Longrightarrow> install t ipa pa sz a = Some (True, t') \<Longrightarrow> unat x < space \<Longrightarrow>
          unat ipa \<le> unat x \<Longrightarrow> unat x < unat ipa + unat sz \<Longrightarrow> lookup t x = None"
begin

lemma install_all_total:
  assumes "valid t" "\<forall>r \<in> set rs. legal (rg_attrs r)"
  shows "\<exists>ok t'. install_all install t rs = Some (ok, t')"
  using assms
proof (induction rs arbitrary: t)
  case (Cons r rs)
  from install_total [OF Cons.prems(1), of "rg_attrs r" "rg_ipa r" "rg_pa r" "rg_size r"] Cons.prems(2)
  obtain ok t1 where "install t (rg_ipa r) (rg_pa r) (rg_size r) (rg_attrs r) = Some (ok, t1)" "valid t1" by auto
  then show ?case using Cons.IH [of t1] Cons.prems(2) by (cases ok) auto
qed (auto intro: exI [of _ True])

text \<open>
  Every address of the space translates to the image of the region that holds
  it, and to what it translated to before when none does; regions that all
  went in do not share an address.
\<close>

lemma install_all_lookup:
  assumes "valid t" "\<forall>r \<in> set rs. legal (rg_attrs r)" "install_all install t rs = Some (True, t')"
    and x: "unat x < space"
  shows "lookup t' x = (case find (\<lambda>r. in_region r x) rs of
      Some r \<Rightarrow> Some (region_image r x) | None \<Rightarrow> lookup t x)
    \<and> (find (\<lambda>r. in_region r x) rs \<noteq> None \<longrightarrow> lookup t x = None)"
  using assms(1-3)
proof (induction rs arbitrary: t)
  case (Cons r rs)
  have legal: "legal (rg_attrs r)" using Cons.prems(2) by simp
  from install_total [OF Cons.prems(1) legal, of "rg_ipa r" "rg_pa r" "rg_size r"] Cons.prems(3)
  obtain t1 where i: "install t (rg_ipa r) (rg_pa r) (rg_size r) (rg_attrs r) = Some (True, t1)" "valid t1"
    and rest: "install_all install t1 rs = Some (True, t')" by (auto split: if_splits)
  note k = install_keeps [OF Cons.prems(1) legal i(1) x] and f = install_free [OF Cons.prems(1) legal i(1) x]
  have "lookup t' x = (case find (\<lambda>r. in_region r x) rs of
      Some r \<Rightarrow> Some (region_image r x) | None \<Rightarrow> lookup t1 x)
    \<and> (find (\<lambda>r. in_region r x) rs \<noteq> None \<longrightarrow> lookup t1 x = None)"
    using Cons.IH [OF i(2) _ rest] Cons.prems(2) by simp
  then show ?case
    using k f by (auto simp: in_region_def region_image_def split: option.splits)
qed simp

lemma install_all_fresh:
  assumes "fresh t" "\<forall>r \<in> set rs. legal (rg_attrs r)" "install_all install (reset t) rs = Some (True, t')"
    and "unat x < space"
  shows "lookup t' x = map_option (\<lambda>r. region_image r x) (find (\<lambda>r. in_region r x) rs)"
  using install_all_lookup [OF reset_valid [OF assms(1)] assms(2-4)]
  by (auto simp: reset_lookup split: option.splits)

end

text \<open>The Stage 2 builder is an address space over the 39-bit input range.\<close>

interpretation stage2: address_space s2_pools_ok s2_wf init_tables map_range s2_walk attrs_well_formed "2 ^ 39"
proof unfold_locales
  fix t t' :: Stage2Tables and a ipa pa sz x :: u64
  show "s2_wf (init_tables t)" if "s2_pools_ok t" using that by (rule init_tables_wf)
  show "s2_walk (init_tables t) x = None" by (rule init_tables_walk)
  show "\<exists>ok t'. map_range t ipa pa sz a = Some (ok, t') \<and> s2_wf t'" if "s2_wf t" "attrs_well_formed a"
    using map_range_total [OF that] by blast
next
  fix t t' :: Stage2Tables and a ipa pa sz x :: u64
  assume *: "s2_wf t" "attrs_well_formed a" "map_range t ipa pa sz a = Some (True, t')" "unat x < 2 ^ 39"
  note m = s2_mapped_walk [OF map_range_mapped [OF *(1-3)] *(4)]
  have sw: "x + (pa - ipa) = pa + (x - ipa)" by simp
  show "s2_walk t' x = (if unat ipa \<le> unat x \<and> unat x < unat ipa + unat sz
      then Some (pa + (x - ipa), a) else s2_walk t x)"
    using m(1) unfolding sw .
  show "s2_walk t x = None" if "unat ipa \<le> unat x" "unat x < unat ipa + unat sz"
    using m(2) that by blast
qed

end
