(* ===== verification/NovaGuest.thy ===== *)
theory NovaGuest
  imports NovaTimebase
begin

text \<open>
  \<open>src/nova/abi/guest.hpp\<close> (the guest descriptor, slot arithmetic, window
  packing) and \<open>src/nova/abi/payload.hpp\<close> (layout validation and CRC-32).
  Sizes and slot numbers are naturals: the source range-checks them before it
  multiplies. Pointers are their 64-bit values.
\<close>

section \<open>Guests\<close>

definition NOVA_GUEST_PA_ALIGN :: u64 where "NOVA_GUEST_PA_ALIGN = 0x00200000"
definition kMaxGuests :: nat where "kMaxGuests = 4"
definition kMaxVcpusPerVm :: nat where "kMaxVcpusPerVm = 2"
definition kMaxVcpus :: nat where "kMaxVcpus = kMaxGuests * kMaxVcpusPerVm"

definition align_up_pa :: "u64 \<Rightarrow> u64" where
  "align_up_pa addr = (addr + NOVA_GUEST_PA_ALIGN - 1) AND NOT (NOVA_GUEST_PA_ALIGN - 1)"

definition vm_of :: "nat \<Rightarrow> nat" where "vm_of slot = slot div kMaxVcpusPerVm"
definition vcpu_of :: "nat \<Rightarrow> nat" where "vcpu_of slot = slot mod kMaxVcpusPerVm"
definition slot_of :: "nat \<Rightarrow> nat \<Rightarrow> nat" where "slot_of vm vcpu = vm * kMaxVcpusPerVm + vcpu"

datatype UartKind = UartNone | UartVuart

record GuestDescriptor =
  gd_ipa_base :: u64
  gd_ipa_size :: u64
  gd_load_pa :: u64
  gd_entry_pc :: u64
  gd_stack_top :: u64
  gd_vmid :: u16
  gd_vcpus :: u8
  gd_cpu :: "u8 list"
  gd_uart :: UartKind
  gd_auto_start :: bool
  gd_dtb :: u64
  gd_dtb_size :: u32
  gd_dtb_ipa :: u64
  gd_payload :: u64
  gd_payload_size :: u64
  gd_payload_checksum :: u32

definition gd_contains :: "GuestDescriptor \<Rightarrow> u64 \<Rightarrow> u64 \<Rightarrow> bool" where
  "gd_contains g ipa len = range_contains (gd_ipa_base g) (gd_ipa_size g) ipa len"

definition gd_to_pa :: "GuestDescriptor \<Rightarrow> u64 \<Rightarrow> u64" where
  "gd_to_pa g ipa = ipa - gd_ipa_base g + gd_load_pa g"

text \<open>The running total of \<open>pristine_span\<close>; the last window is not rounded up.\<close>

fun pristine_span_from :: "u64 \<Rightarrow> GuestDescriptor list \<Rightarrow> u64" where
  "pristine_span_from e [] = e"
| "pristine_span_from e [g] = e + gd_ipa_size g"
| "pristine_span_from e (g # gs) = pristine_span_from (align_up_pa (e + gd_ipa_size g)) gs"

definition pristine_span :: "GuestDescriptor list \<Rightarrow> u64" where
  "pristine_span guests = pristine_span_from 0 guests"

lemma slot_round_trip [simp]:
  assumes "vcpu < kMaxVcpusPerVm"
  shows "vm_of (slot_of vm vcpu) = vm" "vcpu_of (slot_of vm vcpu) = vcpu"
  using assms by (simp_all add: vm_of_def vcpu_of_def slot_of_def kMaxVcpusPerVm_def)

lemma slot_of_parts [simp]: "slot_of (vm_of slot) (vcpu_of slot) = slot"
  by (simp add: vm_of_def vcpu_of_def slot_of_def)

lemma vm_of_less: "slot < kMaxVcpus \<Longrightarrow> vm_of slot < kMaxGuests"
  by (simp add: vm_of_def kMaxVcpus_def kMaxGuests_def kMaxVcpusPerVm_def less_mult_imp_div_less)

lemma slot_of_less: "vm < kMaxGuests \<Longrightarrow> vcpu < kMaxVcpusPerVm \<Longrightarrow> slot_of vm vcpu < kMaxVcpus"
  by (simp add: slot_of_def kMaxVcpus_def kMaxGuests_def kMaxVcpusPerVm_def)

text \<open>Without wrap-around \<open>align_up_pa\<close> is the least multiple of the alignment above its argument.\<close>

lemma align_up_pa_bounds:
  assumes "unat addr \<le> 2 ^ 64 - 2 ^ 21"
  shows "unat addr \<le> unat (align_up_pa addr)" "unat (align_up_pa addr) < unat addr + 2 ^ 21"
    "unat (align_up_pa addr) mod 2 ^ 21 = 0"
proof -
  have e: "align_up_pa addr = (addr + 0x1FFFFF) AND NOT (mask 21)"
    by (simp add: align_up_pa_def NOVA_GUEST_PA_ALIGN_def mask_eq_exp_minus_1 add_diff_eq [symmetric])
  have u: "unat (addr + 0x1FFFFF) = unat addr + 0x1FFFFF"
    using unat_add_no_wrap [of addr "0x1FFFFF"] assms by simp
  have v: "unat (align_up_pa addr) = (unat addr + 0x1FFFFF) - (unat addr + 0x1FFFFF) mod 2 ^ 21"
    unfolding e unat_and_not_mask u by simp
  have "(unat addr + 0x1FFFFF) mod 2 ^ 21 < 2 ^ 21" by simp
  moreover have "(unat addr + 0x1FFFFF) mod 2 ^ 21 \<le> unat addr + 0x1FFFFF" by (rule mod_less_eq_dividend)
  ultimately show "unat addr \<le> unat (align_up_pa addr)" "unat (align_up_pa addr) < unat addr + 2 ^ 21"
    using v by simp_all
  show "unat (align_up_pa addr) mod 2 ^ 21 = 0"
    unfolding v by (simp add: minus_mod_eq_mult_div)
qed

section \<open>CRC-32\<close>

text \<open>One bit of the reflected division by the polynomial, eight of them make a table entry.\<close>

definition crc_bit :: "u32 \<Rightarrow> u32" where
  "crc_bit value = drop_bit 1 value XOR (if value AND 1 \<noteq> 0 then 0xEDB88320 else 0)"

definition make_crc32_entry :: "nat \<Rightarrow> u32" where
  "make_crc32_entry i = (crc_bit ^^ 8) (of_nat i)"

definition make_crc32_table :: "u32 list" where
  "make_crc32_table = map make_crc32_entry [0 ..< 256]"

definition crc_byte :: "u32 \<Rightarrow> u8 \<Rightarrow> u32" where
  "crc_byte crc byte = make_crc32_table ! unat ((crc XOR ucast byte) AND 0xFF) XOR drop_bit 8 crc"

definition checksum32 :: "u8 list \<Rightarrow> u32" where
  "checksum32 bytes = foldl crc_byte 0xFFFFFFFF bytes XOR 0xFFFFFFFF"

text \<open>The same checksum one bit at a time, as the polynomial division defines it.\<close>

definition checksum32_bitwise :: "u8 list \<Rightarrow> u32" where
  "checksum32_bitwise bytes =
     foldl (\<lambda>crc byte. (crc_bit ^^ 8) (crc XOR ucast byte)) 0xFFFFFFFF bytes XOR 0xFFFFFFFF"

lemma crc_bit_shift:
  assumes "0 < n" "\<And>k. bit y k \<Longrightarrow> k + n < 32"
  shows "crc_bit (x XOR push_bit n y) = crc_bit x XOR push_bit (n - 1) y"
proof -
  have "(x XOR push_bit n y) AND 1 = x AND 1"
    using assms(1) by (intro bit_eqI) (auto simp: bit_simps)
  moreover have "drop_bit 1 (x XOR push_bit n y) = drop_bit 1 x XOR push_bit (n - 1) y"
  proof (rule bit_eqI)
    fix k
    show "bit (drop_bit 1 (x XOR push_bit n y)) k = bit (drop_bit 1 x XOR push_bit (n - 1) y) k"
      using assms(1) assms(2) [of "Suc k - n"] by (auto simp: bit_simps)
  qed
  ultimately show ?thesis by (simp add: crc_bit_def xor.assoc xor.commute xor.left_commute)
qed

lemma crc_bits_shift:
  assumes "m \<le> n" "\<And>k. bit y k \<Longrightarrow> k + n < 32"
  shows "(crc_bit ^^ m) (x XOR push_bit n y) = (crc_bit ^^ m) x XOR push_bit (n - m) y"
  using assms(1)
proof (induction m)
  case (Suc m)
  have "crc_bit ((crc_bit ^^ m) x XOR push_bit (n - m) y) = crc_bit ((crc_bit ^^ m) x) XOR push_bit (n - m - 1) y"
    using Suc.prems assms(2) by (intro crc_bit_shift) (auto dest: assms(2))
  then show ?case using Suc by simp
qed simp

lemma crc_byte_bitwise: "crc_byte crc byte = (crc_bit ^^ 8) (crc XOR ucast byte)"
proof -
  let ?x = "crc XOR ucast byte" and ?y = "drop_bit 8 crc"
  have hi: "drop_bit 8 ?x = ?y"
    by (intro bit_eqI) (auto simp: bit_simps dest: bit_imp_le_length)
  have x: "?x = (?x AND 0xFF) XOR push_bit 8 ?y"
  proof -
    have m: "(0xFF :: u32) = mask 8" by (simp add: mask_eq_exp_minus_1)
    show ?thesis
      unfolding hi [symmetric] m by (rule bit_eqI) (auto simp: bit_simps)
  qed
  have small: "unat (?x AND 0xFF) < 256"
    using unat_and_mask [of ?x 8] by (simp add: mask_eq_exp_minus_1)
  have "make_crc32_table ! unat (?x AND 0xFF) = (crc_bit ^^ 8) (?x AND 0xFF)"
    unfolding make_crc32_table_def using small by (simp add: make_crc32_entry_def)
  moreover have "(crc_bit ^^ 8) ?x = (crc_bit ^^ 8) (?x AND 0xFF) XOR push_bit (8 - 8) ?y"
    by (subst x) (intro crc_bits_shift, auto simp: bit_simps dest!: bit_imp_le_length)
  ultimately show ?thesis by (simp add: crc_byte_def)
qed

text \<open>
  C20. The table-driven checksum the loader uses is the bit-serial CRC-32
  division, for every image.
\<close>

theorem checksum32_is_crc32: "checksum32 bytes = checksum32_bitwise bytes"
proof -
  have "crc_byte = (\<lambda>crc byte. (crc_bit ^^ 8) (crc XOR ucast byte))"
    by (intro ext) (rule crc_byte_bitwise)
  then show ?thesis by (simp add: checksum32_def checksum32_bitwise_def)
qed

section \<open>Payload layout\<close>

definition kLoadAlignment :: u64 where "kLoadAlignment = 0x1000"

record Layout =
  ly_source :: u64
  ly_image_size :: u64
  ly_load_pa :: u64
  ly_ipa_base :: u64
  ly_ipa_size :: u64
  ly_entry :: u64
  ly_dtb_ipa :: u64
  ly_checksum :: u32

definition layout_valid :: "Layout \<Rightarrow> bool" where
  "layout_valid l =
     (if ly_image_size l = 0 then ly_source l = 0 \<and> ly_checksum l = 0
      else \<not> (ly_source l = 0 \<or> ly_load_pa l mod kLoadAlignment \<noteq> 0
        \<or> \<not> range_well_formed (ly_source l) (ly_image_size l)
        \<or> \<not> range_well_formed (ly_load_pa l) (ly_image_size l)
        \<or> \<not> range_well_formed (ly_ipa_base l) (ly_ipa_size l)
        \<or> ly_image_size l > ly_ipa_size l
        \<or> ly_entry l < ly_ipa_base l \<or> ly_entry l \<ge> ly_ipa_base l + ly_ipa_size l
        \<or> ly_dtb_ipa l < ly_ipa_base l \<or> ly_dtb_ipa l > ly_ipa_base l + ly_ipa_size l
        \<or> ly_image_size l > ly_dtb_ipa l - ly_ipa_base l
        \<or> ranges_overlap (ly_source l) (ly_image_size l) (ly_load_pa l) (ly_image_size l)))"

definition contents_valid :: "Layout \<Rightarrow> u8 list \<Rightarrow> bool" where
  "contents_valid l img =
     (if of_nat (length img) \<noteq> ly_image_size l then False
      else img = [] \<or> checksum32 img = ly_checksum l)"

text \<open>
  A validated embedded image fits its window below the DTB, its source and
  destination do not overlap, and the entry point is inside the window unless
  the window ends exactly at the top of the address space.
\<close>

lemma layout_valid_image:
  assumes "layout_valid l" "ly_image_size l \<noteq> 0"
  shows "range_set (ly_source l) (ly_image_size l) \<inter> range_set (ly_load_pa l) (ly_image_size l) = {}"
    "unat (ly_image_size l) \<le> unat (ly_ipa_size l)"
    "unat (ly_ipa_base l) + unat (ly_image_size l) \<le> unat (ly_dtb_ipa l)"
    "unat (ly_ipa_base l) \<le> unat (ly_entry l)"
    "unat (ly_load_pa l) + unat (ly_image_size l) \<le> 2 ^ 64"
proof -
  have v: "\<not> ranges_overlap (ly_source l) (ly_image_size l) (ly_load_pa l) (ly_image_size l)"
    "range_well_formed (ly_load_pa l) (ly_image_size l)"
    "ly_image_size l \<le> ly_ipa_size l" "ly_ipa_base l \<le> ly_entry l" "ly_ipa_base l \<le> ly_dtb_ipa l"
    "ly_image_size l \<le> ly_dtb_ipa l - ly_ipa_base l"
    using assms by (simp_all add: layout_valid_def not_less)
  show "range_set (ly_source l) (ly_image_size l) \<inter> range_set (ly_load_pa l) (ly_image_size l) = {}"
    using v(1) by (simp add: ranges_overlap_iff)
  show "unat (ly_image_size l) \<le> unat (ly_ipa_size l)" "unat (ly_ipa_base l) \<le> unat (ly_entry l)"
    using v(3,4) by (simp_all add: word_le_nat_alt)
  show "unat (ly_load_pa l) + unat (ly_image_size l) \<le> 2 ^ 64"
    using v(2) by (simp add: range_well_formed_iff)
  show "unat (ly_ipa_base l) + unat (ly_image_size l) \<le> unat (ly_dtb_ipa l)"
    using v(5,6) unat_sub_le [OF v(5)] by (simp add: word_le_nat_alt)
qed

text \<open>
  C19. The window check behind every guest buffer: \<open>contains\<close> holds exactly
  when the buffer lies in the window, for any length, and then its translated
  bytes lie in the physical slot that backs the window.
\<close>

theorem guest_contains_exact:
  assumes "unat (gd_load_pa g) + unat (gd_ipa_size g) \<le> 2 ^ 64"
  shows "(gd_contains g ipa len \<longleftrightarrow>
       unat (gd_ipa_base g) \<le> unat ipa \<and> unat ipa + unat len \<le> unat (gd_ipa_base g) + unat (gd_ipa_size g))
     \<and> (gd_contains g ipa len \<and> len \<noteq> 0 \<longrightarrow>
       unat (gd_to_pa g ipa) = unat (gd_load_pa g) + (unat ipa - unat (gd_ipa_base g))
     \<and> range_set (gd_to_pa g ipa) len \<subseteq> range_set (gd_load_pa g) (gd_ipa_size g))"
proof -
  have iff: "gd_contains g ipa len \<longleftrightarrow>
       unat (gd_ipa_base g) \<le> unat ipa \<and> unat ipa + unat len \<le> unat (gd_ipa_base g) + unat (gd_ipa_size g)"
    by (simp add: gd_contains_def range_contains_iff)
  moreover have "gd_contains g ipa len \<and> len \<noteq> 0 \<longrightarrow>
       unat (gd_to_pa g ipa) = unat (gd_load_pa g) + (unat ipa - unat (gd_ipa_base g))
     \<and> range_set (gd_to_pa g ipa) len \<subseteq> range_set (gd_load_pa g) (gd_ipa_size g)"
  proof
    assume c: "gd_contains g ipa len \<and> len \<noteq> 0"
    then have b: "unat (gd_ipa_base g) \<le> unat ipa" "0 < unat len"
      "unat ipa + unat len \<le> unat (gd_ipa_base g) + unat (gd_ipa_size g)"
      by (simp_all add: iff unat_gt_0)
    have d: "unat (ipa - gd_ipa_base g) = unat ipa - unat (gd_ipa_base g)"
      using b by (simp add: unat_sub_le word_le_nat_alt)
    have "unat (ipa - gd_ipa_base g) + unat (gd_load_pa g) < 2 ^ 64"
      using b assms d by linarith
    then have pa: "unat (gd_to_pa g ipa) = unat (gd_load_pa g) + (unat ipa - unat (gd_ipa_base g))"
      using d by (simp add: gd_to_pa_def unat_add_no_wrap)
    then show "unat (gd_to_pa g ipa) = unat (gd_load_pa g) + (unat ipa - unat (gd_ipa_base g))
     \<and> range_set (gd_to_pa g ipa) len \<subseteq> range_set (gd_load_pa g) (gd_ipa_size g)"
      using b by (auto simp: range_set_def)
  qed
  ultimately show ?thesis by blast
qed

definition sample_guest :: GuestDescriptor where
  "sample_guest = \<lparr>gd_ipa_base = 0x50000000, gd_ipa_size = 0x100000, gd_load_pa = 0x50200000,
     gd_entry_pc = 0x50000000, gd_stack_top = 0x500FE000, gd_vmid = 2, gd_vcpus = 1, gd_cpu = [0, 0],
     gd_uart = UartVuart, gd_auto_start = True, gd_dtb = 0, gd_dtb_size = 0, gd_dtb_ipa = 0x500FE000,
     gd_payload = 0, gd_payload_size = 0, gd_payload_checksum = 0\<rparr>"

lemma guest_contains_exact_witness:
  "gd_contains sample_guest 0x50000010 0x20 \<and> range_set (gd_to_pa sample_guest 0x50000010) 0x20
     \<subseteq> range_set (gd_load_pa sample_guest) (gd_ipa_size sample_guest)"
  using guest_contains_exact [of sample_guest "0x50000010" "0x20"] by (simp add: sample_guest_def)

end
