(* ===== verification/NovaDmaPolicy.thy ===== *)
theory NovaDmaPolicy
  imports NovaGuest
begin

text \<open>
  \<open>src/nova/abi/dma.hpp\<close>: static DMA ownership and the validation of a board's
  policy against the guest table. A validation loop with an early return is
  \<open>first_some\<close> over its index list; \<open>size_t\<close> indices are naturals and \<open>kNoVm\<close> is
  the largest \<open>size_t\<close>.
\<close>

type_synonym DeviceId = u16

definition kNoVm :: nat where "kNoVm = 2 ^ 64 - 1"
definition kNoDevice :: DeviceId where "kNoDevice = 0xFFFF"
definition kPageSize :: u64 where "kPageSize = 4096"
definition kMaxDevices :: nat where "kMaxDevices = 8"

record Assignment =
  as_device_id :: DeviceId
  as_stream_id :: u32
  as_vm :: nat

record DeviceStream =
  ds_device_id :: DeviceId
  ds_stream_id :: u32

record FaultNotice =
  fn_owner_vm :: nat
  fn_stream_id :: u32
  fn_generation :: u64

definition fn_valid :: "FaultNotice \<Rightarrow> bool" where
  "fn_valid n \<longleftrightarrow> fn_owner_vm n \<noteq> kNoVm \<and> fn_generation n \<noteq> 0"

record DeviceRegion =
  dr_device_id :: DeviceId
  dr_ipa_base :: u64
  dr_pa_base :: u64
  dr_size :: u64

record PhysicalRange =
  pr_base :: u64
  pr_size :: u64

record PolicyLimits =
  pl_sid_bits :: u8
  pl_protected_pa :: "PhysicalRange list"

datatype PolicyError = PeNone | PeInvalidCapabilities | PeInvalidGuestWindow | PeOverlappingGuestPa
  | PeProtectedPaOverlap | PeInvalidOwner | PeInvalidDevice | PeStreamIdOutOfRange | PeDuplicateStream
  | PeConflictingDeviceOwner | PeUnknownDeviceStream | PeIncompleteDeviceAssignment

record PolicyCheck =
  pc_error :: PolicyError
  pc_index :: nat
  pc_related :: nat

definition pc_ok :: "PolicyCheck \<Rightarrow> bool" where "pc_ok c \<longleftrightarrow> pc_error c = PeNone"

definition pc_fail :: "PolicyError \<Rightarrow> nat \<Rightarrow> PolicyCheck" where
  "pc_fail e i = \<lparr>pc_error = e, pc_index = i, pc_related = kNoVm\<rparr>"

definition pc_fail2 :: "PolicyError \<Rightarrow> nat \<Rightarrow> nat \<Rightarrow> PolicyCheck" where
  "pc_fail2 e i j = \<lparr>pc_error = e, pc_index = i, pc_related = j\<rparr>"

definition pc_pass :: PolicyCheck where
  "pc_pass = \<lparr>pc_error = PeNone, pc_index = 0, pc_related = kNoVm\<rparr>"

section \<open>Ownership\<close>

fun owner_from :: "nat \<Rightarrow> DeviceId \<Rightarrow> Assignment list \<Rightarrow> nat" where
  "owner_from owner d [] = owner"
| "owner_from owner d (a # rest) =
     (if as_device_id a \<noteq> d then owner_from owner d rest
      else if owner \<noteq> kNoVm \<and> owner \<noteq> as_vm a then kNoVm
      else owner_from (as_vm a) d rest)"

definition owner_of :: "Assignment list \<Rightarrow> DeviceId \<Rightarrow> nat" where
  "owner_of assignments device_id = owner_from kNoVm device_id assignments"

definition guest_range_valid :: "u64 \<Rightarrow> u64 \<Rightarrow> bool" where
  "guest_range_valid base sz \<longleftrightarrow> range_well_formed base sz \<and> base mod kPageSize = 0 \<and> sz mod kPageSize = 0"

section \<open>Validation\<close>

definition sid_out_of_range :: "u8 \<Rightarrow> u32 \<Rightarrow> bool" where
  "sid_out_of_range sid_bits sid \<longleftrightarrow> sid_bits < 32 \<and> sid \<ge> push_bit (unat sid_bits) 1"

definition guest_policy_error ::
  "GuestDescriptor list \<Rightarrow> PhysicalRange list \<Rightarrow> nat \<Rightarrow> PolicyCheck option" where
  "guest_policy_error guests protected i =
     (let g = guests ! i in
      if \<not> guest_range_valid (gd_ipa_base g) (gd_ipa_size g) \<or> \<not> guest_range_valid (gd_load_pa g) (gd_ipa_size g)
      then Some (pc_fail PeInvalidGuestWindow i)
      else case first_some (\<lambda>j. if ranges_overlap (gd_load_pa g) (gd_ipa_size g)
                                     (pr_base (protected ! j)) (pr_size (protected ! j))
                              then Some (pc_fail2 PeProtectedPaOverlap i j) else None)
                  [0 ..< length protected] of
          Some e \<Rightarrow> Some e
        | None \<Rightarrow> first_some (\<lambda>j. if ranges_overlap (gd_load_pa g) (gd_ipa_size g)
                                     (gd_load_pa (guests ! j)) (gd_ipa_size (guests ! j))
                              then Some (pc_fail2 PeOverlappingGuestPa i j) else None) [0 ..< i])"

definition assignment_policy_error ::
  "Assignment list \<Rightarrow> nat \<Rightarrow> u8 \<Rightarrow> nat \<Rightarrow> PolicyCheck option" where
  "assignment_policy_error assignments n_guests sid_bits i =
     (let a = assignments ! i in
      if as_vm a \<ge> n_guests then Some (pc_fail PeInvalidOwner i)
      else if as_device_id a = kNoDevice then Some (pc_fail PeInvalidDevice i)
      else if sid_out_of_range sid_bits (as_stream_id a) then Some (pc_fail PeStreamIdOutOfRange i)
      else first_some (\<lambda>j. let b = assignments ! j in
             if as_stream_id a = as_stream_id b then Some (pc_fail2 PeDuplicateStream i j)
             else if as_device_id a = as_device_id b \<and> as_vm a \<noteq> as_vm b
             then Some (pc_fail2 PeConflictingDeviceOwner i j)
             else None) [0 ..< i])"

definition validate_policy :: "Assignment list \<Rightarrow> GuestDescriptor list \<Rightarrow> PolicyLimits \<Rightarrow> PolicyCheck" where
  "validate_policy assignments guests limits =
     (let protected = pl_protected_pa limits; sid_bits = pl_sid_bits limits in
      if sid_bits = 0 \<or> sid_bits > 32 then pc_fail PeInvalidCapabilities 0
      else case first_some (\<lambda>i. if \<not> range_well_formed (pr_base (protected ! i)) (pr_size (protected ! i))
                              then Some (pc_fail PeInvalidCapabilities i) else None) [0 ..< length protected] of
          Some e \<Rightarrow> e
        | None \<Rightarrow>
            (case first_some (guest_policy_error guests protected) [0 ..< length guests] of
               Some e \<Rightarrow> e
             | None \<Rightarrow>
                 (case first_some (assignment_policy_error assignments (length guests) sid_bits)
                         [0 ..< length assignments] of
                    Some e \<Rightarrow> e | None \<Rightarrow> pc_pass)))"

definition device_stream_error :: "DeviceStream list \<Rightarrow> u8 \<Rightarrow> nat \<Rightarrow> PolicyCheck option" where
  "device_stream_error devices sid_bits i =
     (let d = devices ! i in
      if ds_device_id d = kNoDevice then Some (pc_fail PeInvalidDevice i)
      else if sid_out_of_range sid_bits (ds_stream_id d) then Some (pc_fail PeStreamIdOutOfRange i)
      else first_some (\<lambda>j. if ds_stream_id d = ds_stream_id (devices ! j)
             then Some (pc_fail2 PeDuplicateStream i j) else None) [0 ..< i])"

definition device_found :: "DeviceStream list \<Rightarrow> Assignment \<Rightarrow> bool" where
  "device_found devices a \<longleftrightarrow>
     foldl (\<lambda>found d. found \<or> (as_device_id a = ds_device_id d \<and> as_stream_id a = ds_stream_id d)) False devices"

definition device_incomplete :: "Assignment list \<Rightarrow> DeviceStream \<Rightarrow> bool" where
  "device_incomplete assignments d \<longleftrightarrow>
     (let (device_assigned, stream_assigned) =
        foldl (\<lambda>(da, sa) a. if as_device_id a = ds_device_id d
                             then (True, sa \<or> as_stream_id a = ds_stream_id d) else (da, sa))
          (False, False) assignments in
      device_assigned \<and> \<not> stream_assigned)"

definition validate_device_policy :: "Assignment list \<Rightarrow> DeviceStream list \<Rightarrow> u8 \<Rightarrow> PolicyCheck" where
  "validate_device_policy assignments devices sid_bits =
     (if sid_bits = 0 \<or> sid_bits > 32 then pc_fail PeInvalidCapabilities 0
      else case first_some (device_stream_error devices sid_bits) [0 ..< length devices] of
          Some e \<Rightarrow> e
        | None \<Rightarrow>
            (case first_some (\<lambda>i. if device_found devices (assignments ! i) then None
                                  else Some (pc_fail PeUnknownDeviceStream i)) [0 ..< length assignments] of
               Some e \<Rightarrow> e
             | None \<Rightarrow>
                 (case first_some (\<lambda>i. if device_incomplete assignments (devices ! i)
                                       then Some (pc_fail PeIncompleteDeviceAssignment i) else None)
                         [0 ..< length devices] of
                    Some e \<Rightarrow> e | None \<Rightarrow> pc_pass)))"

definition validate_full_policy ::
  "Assignment list \<Rightarrow> DeviceStream list \<Rightarrow> GuestDescriptor list \<Rightarrow> PolicyLimits \<Rightarrow> PolicyCheck" where
  "validate_full_policy assignments devices guests limits =
     (let ownership = validate_policy assignments guests limits in
      if pc_ok ownership then validate_device_policy assignments devices (pl_sid_bits limits) else ownership)"

section \<open>What a passing check means\<close>

lemma pc_fail_not_ok [simp]:
  "pc_ok pc_pass" "e \<noteq> PeNone \<Longrightarrow> \<not> pc_ok (pc_fail e i)" "e \<noteq> PeNone \<Longrightarrow> \<not> pc_ok (pc_fail2 e i j)"
  by (simp_all add: pc_ok_def pc_fail_def pc_fail2_def pc_pass_def)

lemma guest_policy_error_bad: "guest_policy_error guests protected i = Some e \<Longrightarrow> \<not> pc_ok e"
  by (auto simp: guest_policy_error_def Let_def dest!: first_some_Some split: if_splits option.splits)

lemma assignment_policy_error_bad: "assignment_policy_error as n b i = Some e \<Longrightarrow> \<not> pc_ok e"
  by (auto simp: assignment_policy_error_def Let_def dest!: first_some_Some split: if_splits)

lemma validate_policy_ok_cases:
  assumes "pc_ok (validate_policy assignments guests limits)"
  shows "\<And>i. i < length guests \<Longrightarrow> guest_policy_error guests (pl_protected_pa limits) i = None"
    and "\<And>i. i < length assignments \<Longrightarrow>
      assignment_policy_error assignments (length guests) (pl_sid_bits limits) i = None"
    and "0 < pl_sid_bits limits" "pl_sid_bits limits \<le> 32"
proof -
  let ?G = "first_some (guest_policy_error guests (pl_protected_pa limits)) [0 ..< length guests]"
  let ?A = "first_some (assignment_policy_error assignments (length guests) (pl_sid_bits limits))
              [0 ..< length assignments]"
  have s: "pl_sid_bits limits \<noteq> 0" "\<not> pl_sid_bits limits > 32"
    using assms by (auto simp: validate_policy_def Let_def split: if_splits)
  have G: "?G = None"
    using assms s guest_policy_error_bad
    by (fastforce simp: validate_policy_def Let_def dest!: first_some_Some split: option.splits if_splits)
  have A: "?A = None"
    using assms s G assignment_policy_error_bad
    by (fastforce simp: validate_policy_def Let_def dest!: first_some_Some split: option.splits if_splits)
  show "guest_policy_error guests (pl_protected_pa limits) i = None" if "i < length guests" for i
    using G that by (simp add: first_some_None_iff)
  show "assignment_policy_error assignments (length guests) (pl_sid_bits limits) i = None"
    if "i < length assignments" for i
    using A that by (simp add: first_some_None_iff)
  show "0 < pl_sid_bits limits" "pl_sid_bits limits \<le> 32"
    using s by (auto simp: word_gt_0 not_less)
qed

lemma guest_policy_none:
  assumes "guest_policy_error guests protected i = None"
  shows "guest_range_valid (gd_load_pa (guests ! i)) (gd_ipa_size (guests ! i))"
    "guest_range_valid (gd_ipa_base (guests ! i)) (gd_ipa_size (guests ! i))"
    "\<And>p. p \<in> set protected \<Longrightarrow>
      \<not> ranges_overlap (gd_load_pa (guests ! i)) (gd_ipa_size (guests ! i)) (pr_base p) (pr_size p)"
    "\<And>j. j < i \<Longrightarrow> \<not> ranges_overlap (gd_load_pa (guests ! i)) (gd_ipa_size (guests ! i))
        (gd_load_pa (guests ! j)) (gd_ipa_size (guests ! j))"
  using assms
  by (auto simp: guest_policy_error_def Let_def first_some_None_iff in_set_conv_nth split: if_splits option.splits)

lemma ranges_overlap_sym: "ranges_overlap a m b n = ranges_overlap b n a m"
  by (auto simp: ranges_overlap_iff)

lemma assignment_policy_none:
  assumes "assignment_policy_error assignments n bits i = None"
  shows "as_vm (assignments ! i) < n" "as_device_id (assignments ! i) \<noteq> kNoDevice"
    "\<not> sid_out_of_range bits (as_stream_id (assignments ! i))"
    "\<And>j. j < i \<Longrightarrow> as_stream_id (assignments ! i) \<noteq> as_stream_id (assignments ! j)"
    "\<And>j. j < i \<Longrightarrow> as_device_id (assignments ! i) = as_device_id (assignments ! j) \<Longrightarrow>
      as_vm (assignments ! i) = as_vm (assignments ! j)"
  using assms
  by (auto simp: assignment_policy_error_def Let_def first_some_None_iff split: if_splits)

lemma owner_from_consistent:
  assumes "\<forall>a \<in> set xs. as_device_id a = d \<longrightarrow> as_vm a = v" "owner = kNoVm \<or> owner = v"
  shows "owner_from owner d xs = (if \<exists>a \<in> set xs. as_device_id a = d then v else owner)"
  using assms by (induction xs arbitrary: owner) auto

lemma device_found_iff:
  "device_found devices a \<longleftrightarrow>
     (\<exists>d \<in> set devices. as_device_id a = ds_device_id d \<and> as_stream_id a = ds_stream_id d)"
proof -
  have "foldl (\<lambda>found d. found \<or> P d) b devices \<longleftrightarrow> b \<or> (\<exists>d \<in> set devices. P d)" for P b
    by (induction devices arbitrary: b) auto
  then show ?thesis by (simp add: device_found_def)
qed

lemma device_incomplete_iff:
  "device_incomplete assignments d \<longleftrightarrow>
     (\<exists>a \<in> set assignments. as_device_id a = ds_device_id d)
     \<and> \<not> (\<exists>a \<in> set assignments. as_device_id a = ds_device_id d \<and> as_stream_id a = ds_stream_id d)"
proof -
  have "foldl (\<lambda>(da, sa) a. if as_device_id a = ds_device_id d
            then (True, sa \<or> as_stream_id a = ds_stream_id d) else (da, sa)) (p, q) assignments
      = (p \<or> (\<exists>a \<in> set assignments. as_device_id a = ds_device_id d),
         q \<or> (\<exists>a \<in> set assignments. as_device_id a = ds_device_id d \<and> as_stream_id a = ds_stream_id d))" for p q
    by (induction assignments arbitrary: p q) auto
  then show ?thesis by (simp add: device_incomplete_def)
qed

lemma device_stream_error_bad: "device_stream_error ds b i = Some e \<Longrightarrow> \<not> pc_ok e"
  by (auto simp: device_stream_error_def Let_def dest!: first_some_Some split: if_splits)

lemma validate_device_policy_ok:
  assumes "pc_ok (validate_device_policy assignments devices bits)"
  shows "\<forall>a \<in> set assignments. device_found devices a"
    "\<forall>d \<in> set devices. \<not> device_incomplete assignments d"
proof -
  let ?S = "first_some (device_stream_error devices bits) [0 ..< length devices]"
  let ?A = "first_some (\<lambda>i. if device_found devices (assignments ! i) then None
      else Some (pc_fail PeUnknownDeviceStream i)) [0 ..< length assignments]"
  let ?D = "first_some (\<lambda>i. if device_incomplete assignments (devices ! i)
      then Some (pc_fail PeIncompleteDeviceAssignment i) else None) [0 ..< length devices]"
  have b: "bits \<noteq> 0" "\<not> bits > 32"
    using assms by (auto simp: validate_device_policy_def split: if_splits)
  have S: "?S = None"
    using assms b device_stream_error_bad
    by (fastforce simp: validate_device_policy_def dest!: first_some_Some split: option.splits if_splits)
  have A: "?A = None"
    using assms b S
    by (fastforce simp: validate_device_policy_def dest!: first_some_Some split: option.splits if_splits)
  have D: "?D = None"
    using assms b S A
    by (fastforce simp: validate_device_policy_def dest!: first_some_Some split: option.splits if_splits)
  show "\<forall>a \<in> set assignments. device_found devices a"
    using A unfolding first_some_None_iff by (auto simp: in_set_conv_nth split: if_splits)
  show "\<forall>d \<in> set devices. \<not> device_incomplete assignments d"
    using D unfolding first_some_None_iff by (auto simp: in_set_conv_nth split: if_splits)
qed

lemma validate_full_policy_ok:
  assumes "pc_ok (validate_full_policy assignments devices guests limits)"
  shows "pc_ok (validate_policy assignments guests limits)"
    "pc_ok (validate_device_policy assignments devices (pl_sid_bits limits))"
  using assms by (simp_all add: validate_full_policy_def Let_def split: if_splits)

lemma assignments_consistent:
  assumes ok: "pc_ok (validate_policy assignments guests limits)" and a: "a \<in> set assignments" "b \<in> set assignments"
  shows "as_device_id a = as_device_id b \<Longrightarrow> as_vm a = as_vm b"
proof -
  obtain i j where ij: "i < length assignments" "a = assignments ! i" "j < length assignments" "b = assignments ! j"
    using a by (metis in_set_conv_nth)
  note n = assignment_policy_none(5) [OF validate_policy_ok_cases(2) [OF ok]]
  show "as_device_id a = as_device_id b \<Longrightarrow> as_vm a = as_vm b"
    using ij n [of i j] n [of j i] by (metis linorder_neqE_nat)
qed

lemma owner_of_assigned:
  assumes ok: "pc_ok (validate_policy assignments guests limits)" and a: "a \<in> set assignments"
  shows "owner_of assignments (as_device_id a) = as_vm a"
proof -
  have "\<forall>b \<in> set assignments. as_device_id b = as_device_id a \<longrightarrow> as_vm b = as_vm a"
    by (intro ballI impI) (rule assignments_consistent [OF ok _ a])
  from owner_from_consistent [OF this, of kNoVm] a show ?thesis
    unfolding owner_of_def by auto
qed

lemma guest_windows_disjoint:
  assumes ok: "pc_ok (validate_policy assignments guests limits)"
    and ij: "i < length guests" "j < length guests" "i \<noteq> j"
  shows "range_set (gd_load_pa (guests ! i)) (gd_ipa_size (guests ! i))
     \<inter> range_set (gd_load_pa (guests ! j)) (gd_ipa_size (guests ! j)) = {}"
proof -
  note n = guest_policy_none(4) [OF validate_policy_ok_cases(1) [OF ok]]
  show ?thesis
  proof (cases "i < j")
    case True
    from n [OF ij(2) True] show ?thesis by (simp add: ranges_overlap_iff Int_commute)
  next
    case False
    from n [OF ij(1), of j] False ij(3) show ?thesis by (simp add: ranges_overlap_iff)
  qed
qed

lemma guest_windows_unprotected:
  assumes "pc_ok (validate_policy assignments guests limits)" "i < length guests" "p \<in> set (pl_protected_pa limits)"
  shows "range_set (gd_load_pa (guests ! i)) (gd_ipa_size (guests ! i)) \<inter> range_set (pr_base p) (pr_size p) = {}"
  using guest_policy_none(3) [OF validate_policy_ok_cases(1) [OF assms(1,2)] assms(3)] by (simp add: ranges_overlap_iff)

text \<open>
  C9. A policy that passes validation isolates: guest windows are disjoint from
  each other and from every protected range, every assignment names an
  existing VM and a stream of the board, no stream is assigned twice, and a
  device that is assigned at all is assigned with all its streams to the one
  VM \<open>owner_of\<close> reports.
\<close>

theorem policy_isolates:
  assumes "pc_ok (validate_full_policy assignments devices guests limits)"
  shows "(\<forall>i < length guests. \<forall>j < length guests. i \<noteq> j \<longrightarrow>
       range_set (gd_load_pa (guests ! i)) (gd_ipa_size (guests ! i))
       \<inter> range_set (gd_load_pa (guests ! j)) (gd_ipa_size (guests ! j)) = {})
   \<and> (\<forall>g \<in> set guests. \<forall>p \<in> set (pl_protected_pa limits).
       range_set (gd_load_pa g) (gd_ipa_size g) \<inter> range_set (pr_base p) (pr_size p) = {})
   \<and> distinct (map as_stream_id assignments)
   \<and> (\<forall>a \<in> set assignments. as_vm a < length guests \<and> owner_of assignments (as_device_id a) = as_vm a
       \<and> \<lparr>ds_device_id = as_device_id a, ds_stream_id = as_stream_id a\<rparr> \<in> set devices)
   \<and> (\<forall>d \<in> set devices. \<forall>a \<in> set assignments. as_device_id a = ds_device_id d \<longrightarrow>
       (\<exists>b \<in> set assignments. as_device_id b = ds_device_id d \<and> as_stream_id b = ds_stream_id d
          \<and> as_vm b = as_vm a))"
proof (intro conjI)
  note ok = validate_full_policy_ok(1) [OF assms] and dev = validate_device_policy_ok [OF validate_full_policy_ok(2) [OF assms]]
  note an = assignment_policy_none [OF validate_policy_ok_cases(2) [OF ok]]
  show "\<forall>i < length guests. \<forall>j < length guests. i \<noteq> j \<longrightarrow>
       range_set (gd_load_pa (guests ! i)) (gd_ipa_size (guests ! i))
       \<inter> range_set (gd_load_pa (guests ! j)) (gd_ipa_size (guests ! j)) = {}"
    using guest_windows_disjoint [OF ok] by blast
  show "\<forall>g \<in> set guests. \<forall>p \<in> set (pl_protected_pa limits).
       range_set (gd_load_pa g) (gd_ipa_size g) \<inter> range_set (pr_base p) (pr_size p) = {}"
    using guest_windows_unprotected [OF ok] by (metis in_set_conv_nth)
  show "distinct (map as_stream_id assignments)"
    unfolding distinct_conv_nth
  proof (intro allI impI)
    fix i j assume "i < length (map as_stream_id assignments)" "j < length (map as_stream_id assignments)" "i \<noteq> j"
    then show "map as_stream_id assignments ! i \<noteq> map as_stream_id assignments ! j"
      using an(4) [of i j] an(4) [of j i] by (cases "i < j") auto
  qed
  show "\<forall>a \<in> set assignments. as_vm a < length guests \<and> owner_of assignments (as_device_id a) = as_vm a
       \<and> \<lparr>ds_device_id = as_device_id a, ds_stream_id = as_stream_id a\<rparr> \<in> set devices"
  proof
    fix a assume a: "a \<in> set assignments"
    obtain d where d: "d \<in> set devices" "as_device_id a = ds_device_id d" "as_stream_id a = ds_stream_id d"
      using dev(1) a by (auto simp: device_found_iff)
    have "\<lparr>ds_device_id = ds_device_id d, ds_stream_id = ds_stream_id d\<rparr> = d" by (cases d) simp
    then have "\<lparr>ds_device_id = as_device_id a, ds_stream_id = as_stream_id a\<rparr> \<in> set devices"
      unfolding d(2,3) using d(1) by metis
    moreover have "as_vm a < length guests" using an(1) a by (auto simp: in_set_conv_nth)
    ultimately show "as_vm a < length guests \<and> owner_of assignments (as_device_id a) = as_vm a
       \<and> \<lparr>ds_device_id = as_device_id a, ds_stream_id = as_stream_id a\<rparr> \<in> set devices"
      using owner_of_assigned [OF ok a] by blast
  qed
  show "\<forall>d \<in> set devices. \<forall>a \<in> set assignments. as_device_id a = ds_device_id d \<longrightarrow>
       (\<exists>b \<in> set assignments. as_device_id b = ds_device_id d \<and> as_stream_id b = ds_stream_id d
          \<and> as_vm b = as_vm a)"
  proof (intro ballI impI)
    fix d a assume d: "d \<in> set devices" and a: "a \<in> set assignments" "as_device_id a = ds_device_id d"
    have "\<not> device_incomplete assignments d" using dev(2) d by blast
    then obtain b where b: "b \<in> set assignments" "as_device_id b = ds_device_id d" "as_stream_id b = ds_stream_id d"
      using a unfolding device_incomplete_iff by auto
    then show "\<exists>b \<in> set assignments. as_device_id b = ds_device_id d \<and> as_stream_id b = ds_stream_id d
          \<and> as_vm b = as_vm a"
      using assignments_consistent [OF ok b(1) a(1)] a(2) by (intro bexI [of _ b]) simp_all
  qed
qed

lemma policy_isolates_witness:
  "distinct (map as_stream_id [\<lparr>as_device_id = 3, as_stream_id = 8, as_vm = 0\<rparr>])
   \<and> owner_of [\<lparr>as_device_id = 3, as_stream_id = 8, as_vm = 0\<rparr>] 3 = 0"
proof -
  let ?a = "\<lparr>as_device_id = 3, as_stream_id = 8, as_vm = 0\<rparr>"
  have "pc_ok (validate_full_policy [?a] [\<lparr>ds_device_id = 3, ds_stream_id = 8\<rparr>] [sample_guest]
      \<lparr>pl_sid_bits = 16, pl_protected_pa = [\<lparr>pr_base = 0, pr_size = 0x50000000\<rparr>]\<rparr>)"
    by (simp add: validate_full_policy_def validate_policy_def validate_device_policy_def guest_policy_error_def
        assignment_policy_error_def device_stream_error_def device_found_def device_incomplete_def
        guest_range_valid_def range_well_formed_def ranges_overlap_def sample_guest_def kPageSize_def
        sid_out_of_range_def kNoDevice_def pc_ok_def pc_pass_def)
  from policy_isolates [OF this] show ?thesis by simp
qed

end
