(* ===== verification/NovaCoreMmu.thy ===== *)
theory NovaCoreMmu
  imports NovaStage2Thms NovaDmaPolicy
begin

text \<open>
  \<open>src/components/core/core_mmu/src/core_mmu.cpp\<close> (boot-time validation of the
  guest windows, the per-guest tables, VTTBR), \<open>smmu/dma_table_model.hpp\<close> (the
  DMA tables) and \<open>src/nova/arch/cpu_contract.hpp\<close>. The board's reserved
  regions (\<open>hal/board/*/board_layout.h\<close>, chosen by the build) are a record;
  bytes of embedded images are read through a memory function. A call of
  \<open>panic::fail\<close>, which does not return, is the \<open>boot_panic\<close> it reports.
\<close>

section \<open>Boot contract of the CPU\<close>

datatype CpuContractError = CcNone | CcPaRangeTooSmall | CcNoStage2Gran4

definition mmfr0_pa_range :: "u64 \<Rightarrow> u64" where "mmfr0_pa_range mmfr0 = mmfr0 AND 0xF"

definition mmfr0_stage2_gran4 :: "u64 \<Rightarrow> bool" where
  "mmfr0_stage2_gran4 mmfr0 =
     (let tgran4 = drop_bit 28 mmfr0 AND 0xF; tgran4_2 = drop_bit 40 mmfr0 AND 0xF in
      if tgran4_2 = 0 then tgran4 \<noteq> 0xF else tgran4_2 \<noteq> 1)"

definition validate_cpu_contract :: "u64 \<Rightarrow> u64 \<Rightarrow> CpuContractError" where
  "validate_cpu_contract mmfr0 required_pa_range =
     (if mmfr0_pa_range mmfr0 < required_pa_range then CcPaRangeTooSmall
      else if \<not> mmfr0_stage2_gran4 mmfr0 then CcNoStage2Gran4 else CcNone)"

section \<open>Board\<close>

record board_layout =
  bl_guest_pa_base :: u64
  bl_guest_pa_size :: u64
  bl_ivc_shm_pa :: u64
  bl_pristine_pa :: u64
  bl_pristine_size :: u64

definition qemu_virt :: board_layout where
  "qemu_virt = \<lparr>bl_guest_pa_base = 0x50000000, bl_guest_pa_size = 0x10000000, bl_ivc_shm_pa = 0x60000000,
     bl_pristine_pa = 0x61100000, bl_pristine_size = 0x0EF00000\<rparr>"

definition NOVA_GUEST_IPA_BASE :: u64 where "NOVA_GUEST_IPA_BASE = 0x50000000"
definition NOVA_IVC_SHM_IPA :: u64 where "NOVA_IVC_SHM_IPA = 0x60000000"
definition NOVA_IVC_SHM_SIZE :: u64 where "NOVA_IVC_SHM_SIZE = 0x00001000"

datatype boot_panic = PanicStage2 nat | PanicPayload nat | PanicReservation nat | PanicVmid nat

section \<open>Validation\<close>

text \<open>The byte offset of a guest's pristine slot: every earlier window, rounded up.\<close>

definition pristine_offset :: "GuestDescriptor list \<Rightarrow> nat \<Rightarrow> u64" where
  "pristine_offset guests index =
     foldl (\<lambda>offset i. align_up_pa (offset + gd_ipa_size (guests ! i))) 0 [0 ..< index]"

definition guest_layout_of :: "GuestDescriptor \<Rightarrow> Layout" where
  "guest_layout_of g = \<lparr>ly_source = gd_payload g, ly_image_size = gd_payload_size g, ly_load_pa = gd_load_pa g,
     ly_ipa_base = gd_ipa_base g, ly_ipa_size = gd_ipa_size g, ly_entry = gd_entry_pc g,
     ly_dtb_ipa = gd_dtb_ipa g, ly_checksum = gd_payload_checksum g\<rparr>"

definition image_bytes :: "(u64 \<Rightarrow> u8) \<Rightarrow> u64 \<Rightarrow> u64 \<Rightarrow> u8 list" where
  "image_bytes mem p n = map (\<lambda>k. mem (p + of_nat k)) [0 ..< unat n]"

definition window_panic :: "board_layout \<Rightarrow> GuestDescriptor list \<Rightarrow> nat \<Rightarrow> boot_panic option" where
  "window_panic b guests i =
     (let g = guests ! i; window_limit = bl_guest_pa_base b + bl_guest_pa_size b in
      if \<not> range_well_formed (gd_load_pa g) (gd_ipa_size g) \<or> gd_load_pa g < bl_guest_pa_base b
         \<or> gd_load_pa g + gd_ipa_size g > window_limit
      then Some (PanicReservation i)
      else if gd_vmid g > 0xFF then Some (PanicVmid i) else None)"

definition payload_panic :: "(u64 \<Rightarrow> u8) \<Rightarrow> GuestDescriptor list \<Rightarrow> nat \<Rightarrow> boot_panic option" where
  "payload_panic mem guests i =
     (let g = guests ! i; layout = guest_layout_of g in
      if \<not> layout_valid layout then Some (PanicPayload i)
      else if gd_payload_size g \<noteq> 0
              \<and> \<not> contents_valid layout (image_bytes mem (gd_payload g) (gd_payload_size g))
      then Some (PanicPayload i)
      else first_some (\<lambda>other. if ranges_overlap (gd_load_pa g) (gd_ipa_size g)
                                  (gd_load_pa (guests ! other)) (gd_ipa_size (guests ! other))
                               then Some (PanicPayload i) else None) [0 ..< i])"

definition validate_payloads ::
  "board_layout \<Rightarrow> (u64 \<Rightarrow> u8) \<Rightarrow> GuestDescriptor list \<Rightarrow> boot_panic option" where
  "validate_payloads b mem guests =
     (case first_some (window_panic b guests) [0 ..< length guests] of
        Some p \<Rightarrow> Some p
      | None \<Rightarrow>
          if pristine_span guests > bl_pristine_size b then Some (PanicReservation (length guests - 1))
          else first_some (payload_panic mem guests) [0 ..< length guests])"

section \<open>Tables\<close>

text \<open>The device loop of \<open>build_guest_tables\<close>; a refused region is a panic.\<close>

fun map_device_regions ::
  "Assignment list \<Rightarrow> nat \<Rightarrow> Stage2Tables \<Rightarrow> DeviceRegion list \<Rightarrow> (bool \<times> Stage2Tables) option" where
  "map_device_regions assignments index t [] = Some (True, t)"
| "map_device_regions assignments index t (r # rs) =
     (if owner_of assignments (dr_device_id r) = index then
        Option.bind (map_range t (dr_ipa_base r) (dr_pa_base r) (dr_size r) kAttrDeviceRw) (\<lambda>(ok, t').
          if ok then map_device_regions assignments index t' rs else Some (False, t'))
      else map_device_regions assignments index t rs)"

definition build_guest_tables ::
  "board_layout \<Rightarrow> Assignment list \<Rightarrow> DeviceRegion list \<Rightarrow> nat \<Rightarrow> GuestDescriptor \<Rightarrow> Stage2Tables
     \<Rightarrow> (bool \<times> Stage2Tables) option" where
  "build_guest_tables b assignments regions index guest t =
     Option.bind (map_range (init_tables t) (gd_ipa_base guest) (gd_load_pa guest) (gd_ipa_size guest)
                    kAttrNormalRwx) (\<lambda>(ok, t1).
       if \<not> ok then Some (False, t1)
       else Option.bind (map_range t1 NOVA_IVC_SHM_IPA (bl_ivc_shm_pa b) NOVA_IVC_SHM_SIZE kAttrNormalRwData)
         (\<lambda>(ok, t2). if \<not> ok then Some (False, t2) else map_device_regions assignments index t2 regions))"

definition guest_vttbr :: "u64 \<Rightarrow> GuestDescriptor \<Rightarrow> u64" where
  "guest_vttbr l1_pa guest = l1_pa OR push_bit 48 (ucast (gd_vmid guest))"

definition build_dma_table :: "Stage2Tables \<Rightarrow> GuestDescriptor \<Rightarrow> (bool \<times> Stage2Tables) option" where
  "build_dma_table t guest =
     map_range (init_tables t) (gd_ipa_base guest) (gd_load_pa guest) (gd_ipa_size guest) kAttrNormalRwData"

section \<open>As clients of the address-space interface\<close>

definition device_regions_of :: "Assignment list \<Rightarrow> DeviceRegion list \<Rightarrow> nat \<Rightarrow> region list" where
  "device_regions_of assignments regions index =
     map (\<lambda>r. \<lparr>rg_ipa = dr_ipa_base r, rg_pa = dr_pa_base r, rg_size = dr_size r, rg_attrs = kAttrDeviceRw\<rparr>)
       (filter (\<lambda>r. owner_of assignments (dr_device_id r) = index) regions)"

definition guest_window :: "GuestDescriptor \<Rightarrow> u64 \<Rightarrow> region" where
  "guest_window guest attrs =
     \<lparr>rg_ipa = gd_ipa_base guest, rg_pa = gd_load_pa guest, rg_size = gd_ipa_size guest, rg_attrs = attrs\<rparr>"

definition ivc_window :: "board_layout \<Rightarrow> region" where
  "ivc_window b = \<lparr>rg_ipa = NOVA_IVC_SHM_IPA, rg_pa = bl_ivc_shm_pa b, rg_size = NOVA_IVC_SHM_SIZE,
     rg_attrs = kAttrNormalRwData\<rparr>"

definition guest_regions ::
  "board_layout \<Rightarrow> Assignment list \<Rightarrow> DeviceRegion list \<Rightarrow> nat \<Rightarrow> GuestDescriptor \<Rightarrow> region list" where
  "guest_regions b assignments regions index guest =
     guest_window guest kAttrNormalRwx # ivc_window b # device_regions_of assignments regions index"

lemma map_device_regions_install:
  "map_device_regions assignments index t regions =
     install_all map_range t (device_regions_of assignments regions index)"
proof (induction regions arbitrary: t)
  case (Cons r rs)
  show ?case
  proof (cases "owner_of assignments (dr_device_id r) = index")
    case True
    then show ?thesis
      using Cons.IH by (simp add: device_regions_of_def cong: if_cong)
  next
    case False
    then show ?thesis using Cons.IH by (simp add: device_regions_of_def)
  qed
qed (simp add: device_regions_of_def)

lemma build_guest_tables_install:
  "build_guest_tables b assignments regions index guest t =
     install_all map_range (init_tables t) (guest_regions b assignments regions index guest)"
  unfolding build_guest_tables_def guest_regions_def guest_window_def ivc_window_def
proof -
  have sw: "(if \<not> P then u else v) = (if P then v else u)" for P and u v :: "(bool \<times> Stage2Tables) option"
    by simp
  show "Option.bind (map_range (init_tables t) (gd_ipa_base guest) (gd_load_pa guest) (gd_ipa_size guest)
                    kAttrNormalRwx) (\<lambda>(ok, t1).
       if \<not> ok then Some (False, t1)
       else Option.bind (map_range t1 NOVA_IVC_SHM_IPA (bl_ivc_shm_pa b) NOVA_IVC_SHM_SIZE kAttrNormalRwData)
         (\<lambda>(ok, t2). if \<not> ok then Some (False, t2) else map_device_regions assignments index t2 regions)) =
     install_all map_range (init_tables t)
       (\<lparr>rg_ipa = gd_ipa_base guest, rg_pa = gd_load_pa guest, rg_size = gd_ipa_size guest,
          rg_attrs = kAttrNormalRwx\<rparr> #
        \<lparr>rg_ipa = NOVA_IVC_SHM_IPA, rg_pa = bl_ivc_shm_pa b, rg_size = NOVA_IVC_SHM_SIZE,
          rg_attrs = kAttrNormalRwData\<rparr> # device_regions_of assignments regions index)"
    unfolding sw by (simp add: map_device_regions_install cong: if_cong)
qed

text \<open>A region that went in keeps its image inside its physical range.\<close>

lemma installed_accepted:
  assumes "install_all map_range t rs = Some (True, t')" "r \<in> set rs"
  shows "\<exists>t1. \<not> map_range_refused t1 (rg_ipa r) (rg_pa r) (rg_size r)"
  using assms
proof (induction rs arbitrary: t)
  case (Cons q rs)
  obtain t1 where q: "map_range t (rg_ipa q) (rg_pa q) (rg_size q) (rg_attrs q) = Some (True, t1)"
    "install_all map_range t1 rs = Some (True, t')"
    using Cons.prems(1) by (auto split: bind_splits if_splits)
  show ?case
  proof (cases "r = q")
    case True
    then show ?thesis using q(1) by (auto simp: map_range_def split: if_splits)
  next
    case False
    then show ?thesis using Cons.IH [OF q(2)] Cons.prems(2) by simp
  qed
qed simp

lemma region_image_in:
  assumes "\<not> map_range_refused t (rg_ipa r) (rg_pa r) (rg_size r)" "in_region r x"
  shows "unat (fst (region_image r x)) \<in> range_set (rg_pa r) (rg_size r)"
proof -
  have lim: "rg_pa r \<le> kPaLimit" "rg_size r \<le> kPaLimit - rg_pa r"
    using assms(1) by (auto simp: map_range_refused_def)
  then have b: "unat (rg_pa r) + unat (rg_size r) \<le> 2 ^ 40"
    by (simp add: word_le_nat_alt unat_sub_le limit_values)
  have d: "unat (x - rg_ipa r) = unat x - unat (rg_ipa r)"
    using assms(2) by (simp add: in_region_def unat_sub_le word_le_nat_alt)
  have lt: "unat x - unat (rg_ipa r) < unat (rg_size r)"
    using assms(2) by (simp add: in_region_def) linarith
  then have "unat (rg_pa r + (x - rg_ipa r)) = unat (rg_pa r) + (unat x - unat (rg_ipa r))"
    using unat_add_no_wrap [of "rg_pa r" "x - rg_ipa r"] b d by simp
  then show ?thesis using lt by (simp add: region_image_def range_set_def)
qed

lemma install_all_reach:
  assumes t: "s2_pools_ok t" and legal: "\<forall>r \<in> set rs. attrs_well_formed (rg_attrs r)"
    and ok: "install_all map_range (init_tables t) rs = Some (True, t')"
    and x: "unat x < 2 ^ 39" and w: "s2_walk t' x = Some (p, a)"
  shows "\<exists>r \<in> set rs. in_region r x \<and> a = rg_attrs r \<and> unat p \<in> range_set (rg_pa r) (rg_size r)"
proof -
  obtain r where f: "find (\<lambda>r. in_region r x) rs = Some r" and img: "(p, a) = region_image r x"
    using stage2.install_all_fresh [OF t legal ok x] w
    by (cases "find (\<lambda>r. in_region r x) rs") auto
  then have r: "r \<in> set rs" "in_region r x" by (auto simp: find_Some_iff in_set_conv_nth)
  obtain t1 where "\<not> map_range_refused t1 (rg_ipa r) (rg_pa r) (rg_size r)"
    using installed_accepted [OF ok r(1)] by blast
  from region_image_in [OF this r(2)] r img show ?thesis
    by (intro bexI [of _ r]) (simp_all add: region_image_def)
qed

lemma guest_regions_legal:
  "\<forall>r \<in> set (guest_regions b assignments regions index guest). attrs_well_formed (rg_attrs r)"
  by (auto simp: guest_regions_def guest_window_def ivc_window_def device_regions_of_def rwx_well_formed)

lemma validated_windows_disjoint:
  assumes "validate_payloads b mem guests = None" "i < length guests" "j < length guests" "i \<noteq> j"
  shows "range_set (gd_load_pa (guests ! i)) (gd_ipa_size (guests ! i))
     \<inter> range_set (gd_load_pa (guests ! j)) (gd_ipa_size (guests ! j)) = {}"
proof -
  have n: "payload_panic mem guests k = None" if "k < length guests" for k
    using assms(1) that by (auto simp: validate_payloads_def first_some_None_iff split: option.splits if_splits)
  have "\<not> ranges_overlap (gd_load_pa (guests ! k)) (gd_ipa_size (guests ! k))
      (gd_load_pa (guests ! m)) (gd_ipa_size (guests ! m))" if "k < length guests" "m < k" for k m
    using n [OF that(1)] that(2)
    by (auto simp: payload_panic_def Let_def first_some_None_iff split: if_splits)
  then have "m < k \<Longrightarrow> k < length guests \<Longrightarrow>
      range_set (gd_load_pa (guests ! k)) (gd_ipa_size (guests ! k))
      \<inter> range_set (gd_load_pa (guests ! m)) (gd_ipa_size (guests ! m)) = {}" for k m
    by (simp add: ranges_overlap_iff)
  from this [of i j] this [of j i] assms(2-4) show ?thesis
    by (cases "i < j") (auto simp: Int_commute)
qed

text \<open>
  C8. What a guest can reach through the tables built for it: its own window,
  executable; the IVC page, not executable; and the regions of devices the
  policy assigns to it, as device memory. Nothing else translates.
\<close>

theorem guest_reaches:
  assumes "s2_pools_ok t" "build_guest_tables b assignments regions index guest t = Some (True, t')"
    and "unat x < 2 ^ 39" "s2_walk t' x = Some (p, a)"
  shows "unat p \<in> range_set (gd_load_pa guest) (gd_ipa_size guest) \<and> a = kAttrNormalRwx
   \<or> unat p \<in> range_set (bl_ivc_shm_pa b) NOVA_IVC_SHM_SIZE \<and> a = kAttrNormalRwData
   \<or> (\<exists>r \<in> set regions. owner_of assignments (dr_device_id r) = index
        \<and> unat p \<in> range_set (dr_pa_base r) (dr_size r) \<and> a = kAttrDeviceRw)"
proof -
  have "\<exists>r \<in> set (guest_regions b assignments regions index guest).
      in_region r x \<and> a = rg_attrs r \<and> unat p \<in> range_set (rg_pa r) (rg_size r)"
    using install_all_reach [OF assms(1) guest_regions_legal _ assms(3,4)] assms(2)
    unfolding build_guest_tables_install .
  then show ?thesis
    by (auto simp: guest_regions_def guest_window_def ivc_window_def device_regions_of_def)
qed

text \<open>
  C4. Isolation of two guests of a validated table: no address of guest \<open>i\<close>
  translates into the window of guest \<open>j\<close>, unless the board itself places the
  IVC page or a device region assigned to \<open>i\<close> there.
\<close>

theorem guests_isolated:
  assumes "validate_payloads b mem guests = None" "i < length guests" "j < length guests" "i \<noteq> j"
    and "s2_pools_ok t" "build_guest_tables b assignments regions i (guests ! i) t = Some (True, t')"
    and "unat x < 2 ^ 39" "s2_walk t' x = Some (p, a)"
  shows "unat p \<notin> range_set (gd_load_pa (guests ! j)) (gd_ipa_size (guests ! j))
   \<or> unat p \<in> range_set (bl_ivc_shm_pa b) NOVA_IVC_SHM_SIZE
   \<or> (\<exists>r \<in> set regions. owner_of assignments (dr_device_id r) = i
        \<and> unat p \<in> range_set (dr_pa_base r) (dr_size r))"
proof -
  have "\<exists>r \<in> set (guest_regions b assignments regions i (guests ! i)).
      in_region r x \<and> a = rg_attrs r \<and> unat p \<in> range_set (rg_pa r) (rg_size r)"
    using install_all_reach [OF assms(5) guest_regions_legal _ assms(7,8)] assms(6)
    unfolding build_guest_tables_install .
  then show ?thesis
    using validated_windows_disjoint [OF assms(1-4)]
    by (auto simp: guest_regions_def guest_window_def ivc_window_def device_regions_of_def)
qed

lemma dma_table_walk:
  assumes "s2_pools_ok t" "build_dma_table t guest = Some (True, t')" "unat x < 2 ^ 39"
  shows "s2_walk t' x =
    (if unat (gd_ipa_base guest) \<le> unat x \<and> unat x < unat (gd_ipa_base guest) + unat (gd_ipa_size guest)
     then Some (gd_to_pa guest x, kAttrNormalRwData) else None)"
proof -
  have "s2_walk t' x = (if unat (gd_ipa_base guest) \<le> unat x
        \<and> unat x < unat (gd_ipa_base guest) + unat (gd_ipa_size guest)
      then Some (gd_load_pa guest + (x - gd_ipa_base guest), kAttrNormalRwData)
      else s2_walk (init_tables t) x)"
    using stage2.install_keeps [OF init_tables_wf [OF assms(1)] rwx_well_formed(2) _ assms(3)] assms(2)
    by (simp add: build_dma_table_def)
  then show ?thesis by (simp add: init_tables_walk gd_to_pa_def)
qed

lemma build_dma_table_in:
  assumes "s2_pools_ok t" "build_dma_table t guest = Some (True, t')" "unat x < 2 ^ 39" "s2_walk t' x = Some (p, a)"
  shows "unat p \<in> range_set (gd_load_pa guest) (gd_ipa_size guest) \<and> a = kAttrNormalRwData"
proof -
  let ?r = "guest_window guest kAttrNormalRwData"
  have "install_all map_range (init_tables t) [?r] = Some (True, t')"
    using assms(2) by (simp add: build_dma_table_def guest_window_def)
  moreover have "\<forall>r \<in> set [?r]. attrs_well_formed (rg_attrs r)" by (simp add: guest_window_def rwx_well_formed)
  ultimately show ?thesis using install_all_reach [OF assms(1) _ _ assms(3,4)] by (fastforce simp: guest_window_def)
qed

text \<open>
  C21. The DMA tables of a guest translate its own window and nothing else, never
  executable: no IVC page, no device region, no other guest.
\<close>

theorem dma_table_reach:
  assumes "s2_pools_ok t" "build_dma_table t guest = Some (True, t')" "unat x < 2 ^ 39"
  shows "s2_walk t' x =
    (if unat (gd_ipa_base guest) \<le> unat x \<and> unat x < unat (gd_ipa_base guest) + unat (gd_ipa_size guest)
     then Some (gd_to_pa guest x, kAttrNormalRwData) else None)"
  using assms by (rule dma_table_walk)

section \<open>Witnesses\<close>

definition two_guests :: "GuestDescriptor list" where
  "two_guests = [sample_guest\<lparr>gd_load_pa := 0x50000000, gd_ipa_size := 0x200000, gd_vmid := 1\<rparr>,
                 sample_guest\<lparr>gd_load_pa := 0x50200000, gd_ipa_size := 0x200000, gd_vmid := 2\<rparr>]"

lemma two_guests_build:
  "\<exists>t'. build_guest_tables qemu_virt [] [] 1 (two_guests ! 1) one_of_each = Some (True, t')"
  by (simp add: build_guest_tables_def two_guests_def sample_guest_def qemu_virt_def
      NOVA_IVC_SHM_IPA_def NOVA_IVC_SHM_SIZE_def
      map_range_def map_range_refused_def k4KiB_value limit_values init_tables_def one_of_each_def
      map_l1.simps select_l2_def find_l2_def find_table_def l1_index_div kInvalid_def is_valid_def
      descriptor_type_def desc_consts output_addr_def
      kL1Shift_def map_region_eq takes_block_def k2MiB_value write_l2_def l2_index_div chunk_limit_def
      select_l3_def map_pages.simps l3_index_div write_l3_def make_block_def make_table_def make_page_def
      kAttrNormalRwx_def kAttrNormalRwData_def push_bit_eq_mult)

lemma one_of_each_pools: "s2_pools_ok one_of_each"
  by (simp add: s2_pools_ok_def one_of_each_def frames_distinct_def)

lemma two_guests_valid: "validate_payloads qemu_virt (\<lambda>_. 0) two_guests = None"
  by (simp add: validate_payloads_def window_panic_def payload_panic_def two_guests_def sample_guest_def
      qemu_virt_def range_well_formed_def layout_valid_def guest_layout_of_def ranges_overlap_def
      pristine_span_def align_up_pa_def NOVA_GUEST_PA_ALIGN_def)

lemma two_guests_walk:
  assumes "build_guest_tables qemu_virt [] [] 1 (two_guests ! 1) one_of_each = Some (True, t')"
  shows "s2_walk t' 0x50000123 = Some (0x50200123, kAttrNormalRwx)"
proof -
  have "install_all map_range (init_tables one_of_each) (guest_regions qemu_virt [] [] 1 (two_guests ! 1))
      = Some (True, t')" using assms by (simp add: build_guest_tables_install)
  from stage2.install_all_fresh [OF one_of_each_pools guest_regions_legal this, of "0x50000123"]
  show ?thesis
    by (simp add: guest_regions_def guest_window_def two_guests_def sample_guest_def in_region_def region_image_def)
qed

lemma guest_reaches_witness:
  "\<exists>t'. s2_walk t' 0x50000123 = Some (0x50200123, kAttrNormalRwx)
     \<and> (unat (0x50200123 :: u64) \<in> range_set 0x50200000 0x200000
        \<or> unat (0x50200123 :: u64) \<in> range_set 0x60000000 NOVA_IVC_SHM_SIZE)"
proof -
  obtain t' where b: "build_guest_tables qemu_virt [] [] 1 (two_guests ! 1) one_of_each = Some (True, t')"
    using two_guests_build by blast
  have w: "s2_walk t' 0x50000123 = Some (0x50200123, kAttrNormalRwx)"
    by (rule two_guests_walk [OF b])
  show ?thesis
    using guest_reaches [OF one_of_each_pools b _ w] w
    by (intro exI [of _ t']) (auto simp: two_guests_def qemu_virt_def)
qed

lemma guests_isolated_witness:
  "\<exists>t'. s2_walk t' 0x50000123 = Some (0x50200123, kAttrNormalRwx)
     \<and> (unat (0x50200123 :: u64) \<notin> range_set 0x50000000 0x200000
        \<or> unat (0x50200123 :: u64) \<in> range_set 0x60000000 NOVA_IVC_SHM_SIZE)"
proof -
  obtain t' where b: "build_guest_tables qemu_virt [] [] 1 (two_guests ! 1) one_of_each = Some (True, t')"
    using two_guests_build by blast
  have w: "s2_walk t' 0x50000123 = Some (0x50200123, kAttrNormalRwx)"
    by (rule two_guests_walk [OF b])
  show ?thesis
    using guests_isolated [OF two_guests_valid _ _ _ one_of_each_pools b _ w, of 0] w
    by (intro exI [of _ t']) (simp add: two_guests_def qemu_virt_def)
qed

lemma dma_table_reach_witness:
  "\<exists>t'. build_dma_table one_of_each (two_guests ! 1) = Some (True, t')
     \<and> s2_walk t' 0x50000123 = Some (0x50200123, kAttrNormalRwData) \<and> s2_walk t' 0x60000000 = None"
proof -
  have "\<exists>t'. build_dma_table one_of_each (two_guests ! 1) = Some (True, t')"
    by (simp add: build_dma_table_def two_guests_def sample_guest_def
        map_range_def map_range_refused_def k4KiB_value limit_values init_tables_def one_of_each_def
        map_l1.simps select_l2_def l1_index_div kInvalid_def is_valid_def
        descriptor_type_def desc_consts kL1Shift_def map_region_eq takes_block_def k2MiB_value)
  then obtain t' where b: "build_dma_table one_of_each (two_guests ! 1) = Some (True, t')" by blast
  show ?thesis
    using b dma_table_reach [OF one_of_each_pools b, of "0x50000123"]
      dma_table_reach [OF one_of_each_pools b, of "0x60000000"]
    by (simp add: two_guests_def sample_guest_def gd_to_pa_def)
qed

text \<open>VTTBR carries the L1 table and, in its top byte, the VMID validation bounded to 8 bits.\<close>

lemma guest_vttbr_fields:
  assumes "unat l1_pa < 2 ^ 48" "gd_vmid g \<le> 0xFF"
  shows "drop_bit 48 (guest_vttbr l1_pa g) = ucast (gd_vmid g)" "take_bit 48 (guest_vttbr l1_pa g) = l1_pa"
proof -
  have l: "take_bit 48 l1_pa = l1_pa"
    using assms(1) by (simp add: word_unat_eq_iff unsigned_take_bit_eq take_bit_nat_eq_self)
  then have d: "drop_bit 48 l1_pa = 0" by (metis drop_bit_take_bit diff_self_eq_0 take_bit_0)
  have v: "take_bit 16 (ucast (gd_vmid g) :: u64) = ucast (gd_vmid g)"
    by (rule bit_eqI) (auto simp: bit_simps dest: bit_imp_le_length)
  have "drop_bit 48 (push_bit 48 (ucast (gd_vmid g) :: u64)) = take_bit 16 (ucast (gd_vmid g))"
    by (rule bit_eqI) (auto simp: bit_simps)
  then show "drop_bit 48 (guest_vttbr l1_pa g) = ucast (gd_vmid g)"
    using v d by (simp add: guest_vttbr_def drop_bit_or)
  have "take_bit 48 (push_bit 48 (ucast (gd_vmid g) :: u64)) = 0"
    by (rule bit_eqI) (auto simp: bit_simps)
  then show "take_bit 48 (guest_vttbr l1_pa g) = l1_pa"
    using l by (simp add: guest_vttbr_def take_bit_or)
qed

end
