(* ===== verification/NovaVgicModel.thy ===== *)
theory NovaVgicModel
  imports NovaGuest
begin

text \<open>
  \<open>src/components/vdev/vgic/include/vgic/vgic_model.hpp\<close>: the emulated GICv3
  register files. \<open>DistState\<close> is one VM's distributor, \<open>RedistState\<close> one vCPU's
  redistributor; a read returns whether the offset is known and the value, a
  write returns the new state with \<open>known\<close> and \<open>delivery\<close>. A \<open>switch\<close> over
  offsets is an \<open>if\<close> chain in the order of its cases.
\<close>

section \<open>Register layout\<close>

definition kNumPrivate :: nat where "kNumPrivate = 32"
definition kNumSpis :: nat where "kNumSpis = 32"
definition kMaxIntid :: nat where "kMaxIntid = kNumPrivate + kNumSpis"

definition kGicdFrameSize :: u64 where "kGicdFrameSize = 0x10000"
definition kGicrFrameSize :: u64 where "kGicrFrameSize = 0x20000"

definition kGicdCtlr :: u64 where "kGicdCtlr = 0x0000"
definition kGicdTyper :: u64 where "kGicdTyper = 0x0004"
definition kGicdIidr :: u64 where "kGicdIidr = 0x0008"
definition kGicdTyper2 :: u64 where "kGicdTyper2 = 0x000C"
definition kGicdPidr2 :: u64 where "kGicdPidr2 = 0xFFE8"
definition kGicdIgroupr1 :: u64 where "kGicdIgroupr1 = 0x0080 + 4"
definition kGicdIsenabler1 :: u64 where "kGicdIsenabler1 = 0x0100 + 4"
definition kGicdIcenabler1 :: u64 where "kGicdIcenabler1 = 0x0180 + 4"
definition kGicdIspendr1 :: u64 where "kGicdIspendr1 = 0x0200 + 4"
definition kGicdIcpendr1 :: u64 where "kGicdIcpendr1 = 0x0280 + 4"
definition kGicdIsactiver1 :: u64 where "kGicdIsactiver1 = 0x0300 + 4"
definition kGicdIcactiver1 :: u64 where "kGicdIcactiver1 = 0x0380 + 4"
definition kGicdIpriorityrSpi :: u64 where "kGicdIpriorityrSpi = 0x0400 + of_nat kNumPrivate"
definition kGicdIpriorityrEnd :: u64 where "kGicdIpriorityrEnd = 0x0400 + of_nat kMaxIntid"
definition kGicdIcfgr2 :: u64 where "kGicdIcfgr2 = 0x0C00 + 8"
definition kGicdIcfgr3 :: u64 where "kGicdIcfgr3 = 0x0C00 + 12"
definition kGicdIgrpmodr1 :: u64 where "kGicdIgrpmodr1 = 0x0D00 + 4"
definition kGicdIrouterSpi :: u64 where "kGicdIrouterSpi = 0x6000 + 8 * of_nat kNumPrivate"
definition kGicdIrouterEnd :: u64 where "kGicdIrouterEnd = 0x6000 + 8 * of_nat kMaxIntid"

definition kGicrCtlr :: u64 where "kGicrCtlr = 0x0000"
definition kGicrIidr :: u64 where "kGicrIidr = 0x0004"
definition kGicrTyper :: u64 where "kGicrTyper = 0x0008"
definition kGicrTyperHi :: u64 where "kGicrTyperHi = 0x000C"
definition kGicrWaker :: u64 where "kGicrWaker = 0x0014"
definition kGicrPidr2 :: u64 where "kGicrPidr2 = 0xFFE8"
definition kGicrSgiFrame :: u64 where "kGicrSgiFrame = 0x10000"
definition kGicrIgroupr0 :: u64 where "kGicrIgroupr0 = 0x10000 + 0x0080"
definition kGicrIsenabler0 :: u64 where "kGicrIsenabler0 = 0x10000 + 0x0100"
definition kGicrIcenabler0 :: u64 where "kGicrIcenabler0 = 0x10000 + 0x0180"
definition kGicrIspendr0 :: u64 where "kGicrIspendr0 = 0x10000 + 0x0200"
definition kGicrIcpendr0 :: u64 where "kGicrIcpendr0 = 0x10000 + 0x0280"
definition kGicrIsactiver0 :: u64 where "kGicrIsactiver0 = 0x10000 + 0x0300"
definition kGicrIcactiver0 :: u64 where "kGicrIcactiver0 = 0x10000 + 0x0380"
definition kGicrIpriorityr :: u64 where "kGicrIpriorityr = 0x10000 + 0x0400"
definition kGicrIpriorityEnd :: u64 where "kGicrIpriorityEnd = kGicrIpriorityr + of_nat kNumPrivate"
definition kGicrIcfgr0 :: u64 where "kGicrIcfgr0 = 0x10000 + 0x0C00"
definition kGicrIcfgr1 :: u64 where "kGicrIcfgr1 = 0x10000 + 0x0C04"
definition kGicrIgrpmodr0 :: u64 where "kGicrIgrpmodr0 = 0x10000 + 0x0D00"

definition kGicdCtlrDs :: u32 where "kGicdCtlrDs = push_bit 6 1"
definition kGicdTyperValue :: u32 where "kGicdTyperValue = push_bit 19 9 OR 1"
definition kGicrTyperLast :: u32 where "kGicrTyperLast = push_bit 4 1"
definition kGicIidrValue :: u32 where "kGicIidrValue = 0x43B"
definition kPidr2GicV3 :: u32 where "kPidr2GicV3 = push_bit 4 3"
definition kWakerProcessorSleep :: u32 where "kWakerProcessorSleep = push_bit 1 1"
definition kWakerChildrenAsleep :: u32 where "kWakerChildrenAsleep = push_bit 2 1"

lemmas vgic_dist_offsets = kGicdCtlr_def kGicdTyper_def kGicdIidr_def kGicdTyper2_def kGicdPidr2_def
  kGicdIgroupr1_def kGicdIsenabler1_def kGicdIcenabler1_def kGicdIspendr1_def kGicdIcpendr1_def
  kGicdIsactiver1_def kGicdIcactiver1_def kGicdIpriorityrSpi_def kGicdIpriorityrEnd_def kGicdIcfgr2_def
  kGicdIcfgr3_def kGicdIgrpmodr1_def kGicdIrouterSpi_def kGicdIrouterEnd_def
  kNumPrivate_def kNumSpis_def kMaxIntid_def

lemmas vgic_redist_offsets = kGicrCtlr_def kGicrIidr_def kGicrTyper_def kGicrTyperHi_def kGicrWaker_def
  kGicrPidr2_def kGicrSgiFrame_def kGicrIgroupr0_def kGicrIsenabler0_def kGicrIcenabler0_def
  kGicrIspendr0_def kGicrIcpendr0_def kGicrIsactiver0_def kGicrIcactiver0_def kGicrIpriorityr_def
  kGicrIpriorityEnd_def kGicrIcfgr0_def kGicrIcfgr1_def kGicrIgrpmodr0_def
  kNumPrivate_def kNumSpis_def kMaxIntid_def

section \<open>Frames\<close>

record RedistId =
  ri_number :: u32
  ri_last :: bool

definition redist_typer :: "RedistId \<Rightarrow> u64" where
  "redist_typer i = push_bit 32 (ucast (ri_number i)) OR push_bit 8 (ucast (ri_number i))
     OR (if ri_last i then ucast kGicrTyperLast else 0)"

record RedistFrameRef =
  fr_vcpu :: nat
  fr_offset :: u64
  fr_id :: RedistId

text \<open>An access outside every frame (\<open>valid = false\<close>) is \<open>None\<close>.\<close>

definition decode_redist_frame :: "u64 \<Rightarrow> nat \<Rightarrow> RedistFrameRef option" where
  "decode_redist_frame off vcpus =
     (let frame = unat (off div kGicrFrameSize) in
      if frame \<ge> vcpus then None
      else Some \<lparr>fr_vcpu = frame, fr_offset = off mod kGicrFrameSize,
             fr_id = \<lparr>ri_number = of_nat frame, ri_last = (frame = vcpus - 1)\<rparr>\<rparr>)"

section \<open>SGI generation\<close>

definition kSgi1rTargetMask :: u64 where "kSgi1rTargetMask = 0xFFFF"
definition kSgi1rIrm :: u64 where "kSgi1rIrm = push_bit 40 1"
definition kSgi1rRsMask :: u64 where "kSgi1rRsMask = push_bit 44 0xF"

definition sgi1r_intid :: "u64 \<Rightarrow> u32" where
  "sgi1r_intid v = ucast (drop_bit 24 v AND 0xF)"

definition sgi1r_targets :: "u64 \<Rightarrow> nat \<Rightarrow> nat \<Rightarrow> u32" where
  "sgi1r_targets v sender vcpus =
     (let all = push_bit vcpus 1 - 1 in
      if v AND kSgi1rIrm \<noteq> 0 then all AND NOT (push_bit sender 1)
      else if v AND ((push_bit 48 0xFF OR push_bit 32 0xFF OR push_bit 16 0xFF) OR kSgi1rRsMask) \<noteq> 0 then 0
      else ucast (v AND kSgi1rTargetMask) AND all)"

section \<open>State\<close>

record DistState =
  dist_ctlr :: u32
  dist_group :: u32
  dist_enabled :: u32
  dist_pending :: u32
  dist_prio :: "u8 list"
  dist_route :: "u8 list"

definition dist_reset :: DistState where
  "dist_reset = \<lparr>dist_ctlr = 0, dist_group = - 1, dist_enabled = 0, dist_pending = 0,
     dist_prio = replicate kNumSpis 0, dist_route = replicate kNumSpis 0\<rparr>"

definition spi_target :: "DistState \<Rightarrow> nat \<Rightarrow> nat \<Rightarrow> nat" where
  "spi_target d intid vcpus =
     (let route = unat (dist_route d ! (intid - kNumPrivate)) in if route < vcpus then route else 0)"

record RedistState =
  rd_asleep :: bool
  rd_igroupr0 :: u32
  rd_isenabler0 :: u32
  rd_pending :: u32
  rd_prio :: "u8 list"

definition redist_reset :: RedistState where
  "redist_reset = \<lparr>rd_asleep = True, rd_igroupr0 = - 1, rd_isenabler0 = 0xFFFF, rd_pending = 0,
     rd_prio = replicate kNumPrivate 0\<rparr>"

text \<open>The byte arrays keep their 32 entries.\<close>

definition dist_wf :: "DistState \<Rightarrow> bool" where
  "dist_wf d \<longleftrightarrow> length (dist_prio d) = 32 \<and> length (dist_route d) = 32"

definition redist_wf :: "RedistState \<Rightarrow> bool" where
  "redist_wf r \<longleftrightarrow> length (rd_prio r) = 32"

record MmioRead =
  mr_known :: bool
  mr_value :: u64

record WriteResult =
  wr_known :: bool
  wr_delivery :: bool

definition mr_val :: "u64 \<Rightarrow> MmioRead" where "mr_val v = \<lparr>mr_known = True, mr_value = v\<rparr>"
definition mr_unknown :: MmioRead where "mr_unknown = \<lparr>mr_known = False, mr_value = 0\<rparr>"
definition wr_ok :: WriteResult where "wr_ok = \<lparr>wr_known = True, wr_delivery = False\<rparr>"
definition wr_deliver :: WriteResult where "wr_deliver = \<lparr>wr_known = True, wr_delivery = True\<rparr>"
definition wr_unknown :: WriteResult where "wr_unknown = \<lparr>wr_known = False, wr_delivery = False\<rparr>"

section \<open>Register emulation\<close>

definition prio_read :: "u8 list \<Rightarrow> nat \<Rightarrow> nat \<Rightarrow> u64" where
  "prio_read prio first sz = foldl (\<lambda>v i. v OR push_bit (8 * i) (ucast (prio ! (first + i)))) 0 [0 ..< sz]"

definition prio_write :: "u8 list \<Rightarrow> nat \<Rightarrow> nat \<Rightarrow> u64 \<Rightarrow> u8 list" where
  "prio_write prio first sz v = foldl (\<lambda>p i. p[first + i := ucast (drop_bit (8 * i) v)]) prio [0 ..< sz]"

definition kDistIgnored :: "u64 list" where
  "kDistIgnored = [kGicdIcfgr2, kGicdIcfgr3, kGicdIgrpmodr1, kGicdIsactiver1, kGicdIcactiver1]"

definition kRedistIgnored :: "u64 list" where
  "kRedistIgnored = [kGicrIcfgr0, kGicrIcfgr1, kGicrIgrpmodr0, kGicrIsactiver0, kGicrIcactiver0]"

definition is_ignored :: "u64 list \<Rightarrow> u64 \<Rightarrow> bool" where
  "is_ignored offsets off = list_ex (\<lambda>candidate. candidate = off) offsets"

definition dist_read :: "DistState \<Rightarrow> u64 \<Rightarrow> nat \<Rightarrow> MmioRead" where
  "dist_read d off sz =
     (if off \<ge> kGicdIpriorityrSpi \<and> off + of_nat sz \<le> kGicdIpriorityrEnd
        then mr_val (prio_read (dist_prio d) (unat (off - kGicdIpriorityrSpi)) sz)
      else if off \<ge> kGicdIrouterSpi \<and> off < kGicdIrouterEnd
        then mr_val (if off mod 8 = 0 then ucast (dist_route d ! unat ((off - kGicdIrouterSpi) div 8)) else 0)
      else if off = kGicdCtlr then mr_val (ucast (dist_ctlr d OR kGicdCtlrDs))
      else if off = kGicdTyper then mr_val (ucast kGicdTyperValue)
      else if off = kGicdTyper2 then mr_val 0
      else if off = kGicdIidr then mr_val (ucast kGicIidrValue)
      else if off = kGicdPidr2 then mr_val (ucast kPidr2GicV3)
      else if off = kGicdIgroupr1 then mr_val (ucast (dist_group d))
      else if off = kGicdIsenabler1 \<or> off = kGicdIcenabler1 then mr_val (ucast (dist_enabled d))
      else if off = kGicdIspendr1 \<or> off = kGicdIcpendr1 then mr_val (ucast (dist_pending d))
      else if is_ignored kDistIgnored off then mr_val 0 else mr_unknown)"

definition dist_write ::
  "DistState \<Rightarrow> u64 \<Rightarrow> nat \<Rightarrow> u64 \<Rightarrow> u32 \<Rightarrow> DistState \<times> WriteResult" where
  "dist_write d off sz v keep_pending =
     (let word = ucast v :: u32 in
      if off \<ge> kGicdIpriorityrSpi \<and> off + of_nat sz \<le> kGicdIpriorityrEnd
        then (d\<lparr>dist_prio := prio_write (dist_prio d) (unat (off - kGicdIpriorityrSpi)) sz v\<rparr>, wr_ok)
      else if off \<ge> kGicdIrouterSpi \<and> off < kGicdIrouterEnd
        then (if off mod 8 = 0
              then (d\<lparr>dist_route := (dist_route d)[unat ((off - kGicdIrouterSpi) div 8) := ucast v]\<rparr>, wr_deliver)
              else (d, wr_ok))
      else if off = kGicdCtlr then (d\<lparr>dist_ctlr := word\<rparr>, wr_ok)
      else if off = kGicdIgroupr1 then (d\<lparr>dist_group := word\<rparr>, wr_ok)
      else if off = kGicdIsenabler1 then (d\<lparr>dist_enabled := dist_enabled d OR word\<rparr>, wr_deliver)
      else if off = kGicdIcenabler1 then (d\<lparr>dist_enabled := dist_enabled d AND NOT word\<rparr>, wr_deliver)
      else if off = kGicdIspendr1 then (d\<lparr>dist_pending := dist_pending d OR word\<rparr>, wr_deliver)
      else if off = kGicdIcpendr1
        then (d\<lparr>dist_pending := (dist_pending d AND NOT word) OR keep_pending\<rparr>, wr_deliver)
      else if is_ignored kDistIgnored off then (d, wr_ok) else (d, wr_unknown))"

definition redist_read :: "RedistState \<Rightarrow> u64 \<Rightarrow> nat \<Rightarrow> RedistId \<Rightarrow> MmioRead" where
  "redist_read r off sz i =
     (if off \<ge> kGicrIpriorityr \<and> off + of_nat sz \<le> kGicrIpriorityEnd
        then mr_val (prio_read (rd_prio r) (unat (off - kGicrIpriorityr)) sz)
      else if off = kGicrCtlr then mr_val 0
      else if off = kGicrIidr then mr_val (ucast kGicIidrValue)
      else if off = kGicrTyper then mr_val (redist_typer i)
      else if off = kGicrTyperHi then mr_val (drop_bit 32 (redist_typer i))
      else if off = kGicrWaker
        then mr_val (if rd_asleep r then ucast (kWakerProcessorSleep OR kWakerChildrenAsleep) else 0)
      else if off = kGicrPidr2 then mr_val (ucast kPidr2GicV3)
      else if off = kGicrIgroupr0 then mr_val (ucast (rd_igroupr0 r))
      else if off = kGicrIsenabler0 \<or> off = kGicrIcenabler0 then mr_val (ucast (rd_isenabler0 r))
      else if off = kGicrIspendr0 \<or> off = kGicrIcpendr0 then mr_val (ucast (rd_pending r))
      else if is_ignored kRedistIgnored off then mr_val 0 else mr_unknown)"

definition redist_write :: "RedistState \<Rightarrow> u64 \<Rightarrow> nat \<Rightarrow> u64 \<Rightarrow> RedistState \<times> WriteResult" where
  "redist_write r off sz v =
     (let word = ucast v :: u32 in
      if off \<ge> kGicrIpriorityr \<and> off + of_nat sz \<le> kGicrIpriorityEnd
        then (r\<lparr>rd_prio := prio_write (rd_prio r) (unat (off - kGicrIpriorityr)) sz v\<rparr>, wr_ok)
      else if off = kGicrCtlr then (r, wr_ok)
      else if off = kGicrWaker then (r\<lparr>rd_asleep := (word AND kWakerProcessorSleep \<noteq> 0)\<rparr>, wr_ok)
      else if off = kGicrIgroupr0 then (r\<lparr>rd_igroupr0 := word\<rparr>, wr_ok)
      else if off = kGicrIsenabler0 then (r\<lparr>rd_isenabler0 := rd_isenabler0 r OR word\<rparr>, wr_deliver)
      else if off = kGicrIcenabler0 then (r\<lparr>rd_isenabler0 := rd_isenabler0 r AND NOT word\<rparr>, wr_deliver)
      else if off = kGicrIspendr0 then (r\<lparr>rd_pending := rd_pending r OR word\<rparr>, wr_deliver)
      else if off = kGicrIcpendr0 then (r\<lparr>rd_pending := rd_pending r AND NOT word\<rparr>, wr_deliver)
      else if is_ignored kRedistIgnored off then (r, wr_ok) else (r, wr_unknown))"

section \<open>Byte lanes\<close>

lemma length_prio_write [simp]: "length (prio_write p first sz v) = length p"
proof -
  have "length (foldl (\<lambda>p i. p[first + i := f i]) p xs) = length p" for f :: "nat \<Rightarrow> u8" and xs
    by (induction xs arbitrary: p) auto
  then show ?thesis by (simp add: prio_write_def)
qed

lemma prio_write_nth:
  assumes "k < length p"
  shows "prio_write p first sz v ! k =
    (if first \<le> k \<and> k < first + sz then ucast (drop_bit (8 * (k - first)) v) else p ! k)"
  using assms
proof (induction sz)
  case (Suc sz)
  have "prio_write p first (Suc sz) v = (prio_write p first sz v)[first + sz := ucast (drop_bit (8 * sz) v)]"
    by (simp add: prio_write_def)
  then show ?case using Suc by (auto simp: nth_list_update less_Suc_eq)
qed (auto simp: prio_write_def)

lemma bit_prio_read:
  assumes "sz \<le> 8"
  shows "bit (prio_read p first sz) n \<longleftrightarrow> n div 8 < sz \<and> bit (p ! (first + n div 8)) (n mod 8)"
  using assms
proof (induction sz)
  case (Suc sz)
  have step: "prio_read p first (Suc sz) = prio_read p first sz OR push_bit (8 * sz) (ucast (p ! (first + sz)))"
    by (simp add: prio_read_def)
  have lane: "bit (push_bit (8 * sz) (ucast (p ! (first + sz)) :: u64)) n
      \<longleftrightarrow> n div 8 = sz \<and> bit (p ! (first + sz)) (n mod 8)" (is "?L \<longleftrightarrow> ?R")
  proof
    assume l: ?L
    then have "8 * sz \<le> n" "bit (p ! (first + sz)) (n - 8 * sz)" by (auto simp: bit_simps)
    moreover from this have "n - 8 * sz < 8" by (auto dest: bit_imp_le_length)
    moreover from calculation have "n div 8 = sz" by (intro div_nat_eqI) auto
    ultimately show ?R by (metis minus_mult_div_eq_mod mult.commute)
  next
    assume r: ?R
    then have "n = 8 * sz + n mod 8" by (metis mult_div_mod_eq)
    moreover have "n < 64" using r Suc.prems by linarith
    moreover from r have "n - 8 * sz = n mod 8" by (metis minus_mult_div_eq_mod)
    ultimately show ?L using r by (simp add: bit_simps)
  qed
  show ?case
    unfolding step bit_or_iff lane using Suc by (auto simp: less_Suc_eq)
qed (simp add: prio_read_def)

lemma prio_round_trip:
  assumes "first + sz \<le> length p" "sz \<le> 8"
  shows "prio_read (prio_write p first sz v) first sz = take_bit (8 * sz) v"
proof (rule bit_eqI)
  fix n :: nat
  have i: "8 * (n div 8) + n mod 8 = n" by simp
  have lt: "n div 8 < sz \<longleftrightarrow> n < 8 * sz" by (simp add: div_less_iff_less_mult mult.commute)
  show "bit (prio_read (prio_write p first sz v) first sz) n = bit (take_bit (8 * sz) v) n"
  proof (cases "n div 8 < sz")
    case True
    then have "prio_write p first sz v ! (first + n div 8) = ucast (drop_bit (8 * (n div 8)) v)"
      using assms(1) by (subst prio_write_nth) auto
    then show ?thesis
      by (simp add: bit_prio_read [OF assms(2)] bit_simps i True lt [symmetric])
  next
    case False
    then show ?thesis using lt by (simp add: bit_prio_read [OF assms(2)] bit_simps)
  qed
qed

section \<open>Frames and SGIs\<close>

lemma decode_redist_frame_Some:
  assumes "decode_redist_frame off vcpus = Some f"
  shows "fr_vcpu f < vcpus" "unat off = fr_vcpu f * 0x20000 + unat (fr_offset f)" "unat (fr_offset f) < 0x20000"
    "ri_last (fr_id f) \<longleftrightarrow> fr_vcpu f = vcpus - 1"
proof -
  have f: "fr_vcpu f = unat off div 0x20000" "fr_offset f = off mod kGicrFrameSize"
    "ri_last (fr_id f) \<longleftrightarrow> fr_vcpu f = vcpus - 1" "fr_vcpu f < vcpus"
    using assms by (auto simp: decode_redist_frame_def Let_def kGicrFrameSize_def unat_div split: if_splits)
  then show "fr_vcpu f < vcpus" "ri_last (fr_id f) \<longleftrightarrow> fr_vcpu f = vcpus - 1" by simp_all
  have m: "unat (fr_offset f) = unat off mod 0x20000" by (simp add: f(2) kGicrFrameSize_def unat_mod)
  then show "unat (fr_offset f) < 0x20000" by simp
  show "unat off = fr_vcpu f * 0x20000 + unat (fr_offset f)" unfolding m f(1) by simp
qed

lemma bit_all_vcpus:
  assumes "vcpus < 32"
  shows "bit (push_bit vcpus 1 - 1 :: u32) t \<longleftrightarrow> t < vcpus"
proof -
  have "(push_bit vcpus 1 - 1 :: u32) = mask vcpus" by (simp add: mask_eq_exp_minus_1 push_bit_eq_mult)
  then show ?thesis using assms by (auto simp: bit_mask_iff)
qed

lemma and_exp_nonzero: "(v :: u64) AND push_bit k 1 \<noteq> 0 \<longleftrightarrow> bit v k"
  by (simp add: bit_iff_and_push_bit_not_eq_0 push_bit_of_1)

text \<open>
  C23. A trapped SGI write reaches a vCPU of the sender's own VM or nobody: with
  IRM every sibling but the sender, otherwise exactly the listed vCPUs, and
  only when all upper affinities and the range selector are zero.
\<close>

theorem sgi1r_targets_exact:
  assumes "vcpus < 32"
  shows "bit (sgi1r_targets v sender vcpus) t \<longleftrightarrow> t < vcpus
     \<and> (if bit v 40 then t \<noteq> sender
        else (v AND 0x00FFF0FF00FF0000 = 0 \<and> t < 16 \<and> bit v t))"
proof -
  note all = bit_all_vcpus [OF assms, of t]
  have irm: "v AND kSgi1rIrm \<noteq> 0 \<longleftrightarrow> bit v 40"
    unfolding kSgi1rIrm_def by (rule and_exp_nonzero)
  have up: "((push_bit 48 0xFF OR push_bit 32 0xFF OR push_bit 16 0xFF) OR kSgi1rRsMask :: u64)
      = 0x00FFF0FF00FF0000"
    by (simp add: kSgi1rRsMask_def push_bit_eq_mult)
  have list: "bit (ucast (v AND kSgi1rTargetMask) :: u32) t \<longleftrightarrow> t < 16 \<and> bit v t"
  proof -
    have m: "kSgi1rTargetMask = mask 16" by (simp add: kSgi1rTargetMask_def mask_eq_exp_minus_1)
    show ?thesis unfolding m by (auto simp: bit_simps)
  qed
  have "bit ((push_bit vcpus 1 - 1 :: u32) AND NOT (push_bit sender 1)) t \<longleftrightarrow> t < vcpus \<and> t \<noteq> sender"
    by (simp only: bit_clear_single all)
  moreover have "bit (ucast (v AND kSgi1rTargetMask) AND (push_bit vcpus 1 - 1 :: u32)) t
      \<longleftrightarrow> t < vcpus \<and> t < 16 \<and> bit v t"
    by (simp only: bit_and_iff list all) blast
  ultimately show ?thesis
    unfolding sgi1r_targets_def Let_def irm up by (simp del: push_bit_of_1)
qed

lemma sgi1r_targets_exact_witness:
  "bit (sgi1r_targets 0x0000010003000002 1 2) 0 \<and> \<not> bit (sgi1r_targets 0x0000010003000002 1 2) 1"
  using sgi1r_targets_exact [of 2 "0x0000010003000002" 1 0] sgi1r_targets_exact [of 2 "0x0000010003000002" 1 1]
  by (simp add: bit_numeral_rec)

section \<open>Register file\<close>

lemma dist_write_wf: "dist_wf d \<Longrightarrow> dist_wf (fst (dist_write d off sz v keep))"
  by (simp add: dist_write_def dist_wf_def Let_def)

lemma redist_write_wf: "redist_wf r \<Longrightarrow> redist_wf (fst (redist_write r off sz v))"
  by (simp add: redist_write_def redist_wf_def Let_def)

lemma reset_wf: "dist_wf dist_reset" "redist_wf redist_reset"
  by (simp_all add: dist_wf_def dist_reset_def redist_wf_def redist_reset_def kNumSpis_def kNumPrivate_def)

text \<open>The \<open>delivery\<close> flag is complete: a write without it changes nothing delivery reads.\<close>

lemma dist_write_quiet:
  assumes "\<not> wr_delivery (snd (dist_write d off sz v keep))"
  shows "dist_enabled (fst (dist_write d off sz v keep)) = dist_enabled d
    \<and> dist_pending (fst (dist_write d off sz v keep)) = dist_pending d
    \<and> dist_route (fst (dist_write d off sz v keep)) = dist_route d"
proof -
  define Q where "Q = (\<lambda>p :: DistState \<times> WriteResult. \<not> wr_delivery (snd p) \<longrightarrow> dist_enabled (fst p) = dist_enabled d
    \<and> dist_pending (fst p) = dist_pending d \<and> dist_route (fst p) = dist_route d)"
  have "Q (dist_write d off sz v keep)"
    unfolding dist_write_def Let_def
    by (intro if_both [where P = Q]) (simp_all add: Q_def wr_deliver_def)
  then show ?thesis using assms by (simp add: Q_def)
qed

lemma redist_write_quiet:
  assumes "\<not> wr_delivery (snd (redist_write r off sz v))"
  shows "rd_isenabler0 (fst (redist_write r off sz v)) = rd_isenabler0 r
    \<and> rd_pending (fst (redist_write r off sz v)) = rd_pending r"
proof -
  define Q where "Q = (\<lambda>p :: RedistState \<times> WriteResult. \<not> wr_delivery (snd p) \<longrightarrow> rd_isenabler0 (fst p) = rd_isenabler0 r
    \<and> rd_pending (fst p) = rd_pending r)"
  have "Q (redist_write r off sz v)"
    unfolding redist_write_def Let_def
    by (intro if_both [where P = Q]) (simp_all add: Q_def wr_deliver_def)
  then show ?thesis using assms by (simp add: Q_def)
qed

end
