(* ===== verification/NovaVgicRefill.thy ===== *)
theory NovaVgicRefill
  imports NovaVgicDelivery
begin

text \<open>
  Proofs about \<open>refill\<close> (NovaVgicDelivery). The loop re-scans the candidates and
  the list registers each round; the reference ranks the candidates once
  (priority, then INTID), lists the free slots once and zips the two.
\<close>

section \<open>The ranking\<close>

definition ranked :: "CpuState \<Rightarrow> DistState option \<Rightarrow> u64 \<Rightarrow> nat list" where
  "ranked c dist cands = sort_key (candidate_prio c dist) (set_bits_of cands)"

definition free_slots :: "CpuState \<Rightarrow> nat \<Rightarrow> nat list" where
  "free_slots c lr_count = filter (\<lambda>i. \<not> lr_in_flight (cs_lr c ! i)) [0 ..< lr_count]"

definition place_all :: "(nat \<Rightarrow> nat) \<Rightarrow> (nat \<times> nat) list \<Rightarrow> delivery_state \<Rightarrow> delivery_state" where
  "place_all prio pairs st = foldl (\<lambda>st (i, s). place i (prio i) s st) st pairs"

lemma place_all_simps [simp]:
  "place_all prio [] st = st"
  "place_all prio ((i, s) # ps) st = place_all prio ps (place i (prio i) s st)"
  by (simp_all add: place_all_def)

lemma candidate_prio_less: "candidate_prio c dist i < kPriorityLimit"
proof -
  have "unat w < 0x100" for w :: u8 using unsigned_less [of w] by simp
  then show ?thesis by (simp add: candidate_prio_def kPriorityLimit_def)
qed

lemma insort_key_agree:
  "(\<And>y. y \<in> insert x (set ys) \<Longrightarrow> f y = g y) \<Longrightarrow> insort_key f x ys = insort_key g x ys"
  by (induction ys) auto

lemma sort_key_agree: "(\<And>x. x \<in> set xs \<Longrightarrow> f x = g x) \<Longrightarrow> sort_key f xs = sort_key g xs"
  by (induction xs) (auto intro: insort_key_agree)

lemma hd_insort_key:
  "hd (insort_key f x ys) = (if ys = [] \<or> f x \<le> f (hd ys) then x else hd ys)"
  by (cases ys) auto

lemma hd_sort_key_Cons:
  "hd (sort_key f (x # xs)) = (if xs = [] \<or> f x \<le> f (hd (sort_key f xs)) then x else hd (sort_key f xs))"
  using length_sort [of f xs] by (auto simp: hd_insort_key simp del: length_sort)

lemma select_min_sort:
  fixes f :: "nat \<Rightarrow> nat"
  shows "foldl (\<lambda>(b, p) i. if f i < p then (i, f i) else (b, p)) (b0, f b0) xs =
    (hd (sort_key f (b0 # xs)), f (hd (sort_key f (b0 # xs))))"
proof (induction xs arbitrary: b0)
  case (Cons x xs)
  have "hd (sort_key f (b0 # x # xs)) = hd (sort_key f ((if f x < f b0 then x else b0) # xs))"
    unfolding hd_sort_key_Cons [of f b0 "x # xs"] hd_sort_key_Cons [of f x xs]
      hd_sort_key_Cons [of f "if f x < f b0 then x else b0" xs] by auto
  then show ?case using Cons.IH [of x] Cons.IH [of b0] by (simp del: sort_key_simps)
qed simp

lemma set_bits_of_less: "i \<in> set (set_bits_of w) \<Longrightarrow> i < kMaxIntid"
  by (simp add: set_bits_of_def kMaxIntid_def kNumPrivate_def kNumSpis_def)

lemma distinct_ranked [simp]: "distinct (ranked c dist cands)"
  by (simp add: ranked_def set_bits_of_def)

lemma set_ranked [simp]: "set (ranked c dist cands) = {i. bit cands i}"
  by (auto simp: ranked_def set_bits_of_def dest: bit_imp_le_length)

lemma best_candidate_ranked:
  "best_candidate c dist cands =
    (case ranked c dist cands of [] \<Rightarrow> (kMaxIntid, kPriorityLimit)
     | b # _ \<Rightarrow> (b, candidate_prio c dist b))"
proof -
  define f where "f = (candidate_prio c dist)(kMaxIntid := kPriorityLimit)"
  define xs where "xs = set_bits_of cands"
  have f: "f i = candidate_prio c dist i" if "i \<in> set xs" for i
    using set_bits_of_less [of i cands] that by (simp add: f_def xs_def)
  have step: "best_candidate c dist cands =
      foldl (\<lambda>(b, p) i. if f i < p then (i, f i) else (b, p)) (kMaxIntid, f kMaxIntid) xs"
    unfolding best_candidate_def xs_def [symmetric]
  proof (rule foldl_cong)
    show "(kMaxIntid, kPriorityLimit) = (kMaxIntid, f kMaxIntid)" by (simp add: f_def)
  qed (simp_all add: f Let_def split: prod.splits)
  have sort: "sort_key f xs = ranked c dist cands"
    unfolding ranked_def xs_def [symmetric] by (rule sort_key_agree) (simp add: f)
  show ?thesis
  proof (cases "xs = []")
    case True
    then show ?thesis by (simp add: step ranked_def xs_def [symmetric] f_def)
  next
    case False
    then obtain b bs where b: "ranked c dist cands = b # bs"
      by (metis ranked_def xs_def length_sort list.exhaust length_0_conv)
    have "b \<in> set xs" using b by (metis list.set_intros(1) ranked_def set_sort xs_def)
    then have "f b < f kMaxIntid" using set_bits_of_less [of b cands]
      by (simp add: f xs_def [symmetric]) (simp add: f_def candidate_prio_less)
    then have "hd (sort_key f (kMaxIntid # xs)) = b"
      unfolding hd_sort_key_Cons sort using False b by simp
    then show ?thesis using step f [OF \<open>b \<in> set xs\<close>] b by (simp add: select_min_sort del: sort_key_simps)
  qed
qed

lemma ranked_rest:
  assumes "ranked c dist cands = b # bs"
  shows "ranked c dist (cands AND NOT (push_bit b 1)) = bs"
proof -
  have "ranked c dist (cands AND NOT (push_bit b 1)) = filter (\<lambda>i. i \<noteq> b) (ranked c dist cands)"
    by (simp only: ranked_def set_bits_clear filter_sort)
  also have "\<dots> = bs"
    using distinct_ranked [of c dist cands] assms by (auto simp: filter_id_conv)
  finally show ?thesis .
qed

section \<open>List registers\<close>

lemma make_lr_bits:
  "bit (make_lr v p m) i \<longleftrightarrow> i = 62 \<or> i = 60 \<or> (48 \<le> i \<and> bit p (i - 48)) \<or> (m \<and> i = 41) \<or> bit v i"
proof -
  have c: "kLrStatePending = push_bit 62 1" "kLrGroup1 = push_bit 60 1" "kLrEoi = push_bit 41 1"
    by (simp_all add: kLrStatePending_def kLrGroup1_def kLrEoi_def)
  have p: "bit (push_bit kLrPriorityShift (ucast p) :: u64) i \<longleftrightarrow> 48 \<le> i \<and> bit p (i - 48)"
    by (auto simp: kLrPriorityShift_def bit_simps dest: bit_imp_le_length)
  have v: "bit (ucast v :: u64) i \<longleftrightarrow> bit v i" by (auto simp: bit_simps dest: bit_imp_le_length)
  show ?thesis
    unfolding make_lr_def c by (cases m) (auto simp: bit_or_iff p v bit_single simp del: push_bit_of_1)
qed

lemma lr_in_flight_bits: "lr_in_flight lr \<longleftrightarrow> bit lr 62 \<or> bit lr 63"
proof -
  have m: "kLrStateMask = push_bit 62 1 OR push_bit 63 1" by (simp add: kLrStateMask_def)
  have "lr AND kLrStateMask \<noteq> 0 \<longleftrightarrow> lr AND push_bit 62 1 \<noteq> 0 \<or> lr AND push_bit 63 1 \<noteq> 0"
    unfolding m and.commute [of lr] by (simp add: bit.conj_disj_distrib2 or_eq_0_iff del: push_bit_of_1)
  then show ?thesis by (simp only: lr_in_flight_def and_exp_nonzero)
qed

lemma lr_in_flight_make [simp]: "lr_in_flight (make_lr v p m)"
  by (simp add: lr_in_flight_bits make_lr_bits)

lemma lr_in_flight_zero [simp]: "\<not> lr_in_flight 0"
  by (simp add: lr_in_flight_bits)

lemma bit_lr_vintid: "bit (lr_vintid lr) i \<longleftrightarrow> i < 32 \<and> bit lr i"
proof -
  have m: "kLrVintidMask = mask 32" by (simp add: kLrVintidMask_def mask_eq_exp_minus_1)
  show ?thesis unfolding lr_vintid_def m by (auto simp: bit_simps)
qed

lemma lr_vintid_make [simp]: "lr_vintid (make_lr v p m) = v"
  by (rule bit_eqI) (auto simp: bit_lr_vintid make_lr_bits dest: bit_imp_le_length)

section \<open>The loop is the ranking\<close>

lemma candidate_prio_place:
  assumes "place b p s (c, dist, toks) = (c', dist', toks')"
  shows "candidate_prio c' dist' = candidate_prio c dist"
proof
  fix i
  have "map_option (dist_prio) dist' = map_option dist_prio dist" "rd_prio (cs_redist c') = rd_prio (cs_redist c)"
    "dist = None \<longleftrightarrow> dist' = None"
    using assms by (auto simp: place_def Let_def option.map_comp comp_def split: option.splits if_splits)
  then show "candidate_prio c' dist' i = candidate_prio c dist i"
    by (cases dist; cases dist') (simp_all add: candidate_prio_def)
qed

lemma place_lr:
  assumes "place b p s (c, dist, toks) = (c', dist', toks')"
  shows "\<exists>m. cs_lr c' = (cs_lr c)[s := make_lr (of_nat b) (of_nat p) m]"
  using assms by (auto simp: place_def Let_def split: option.splits if_splits)

lemma free_slots_place:
  assumes "place b p s (c, dist, toks) = (c', dist', toks')" "free_slots c n = s # ss" "n \<le> length (cs_lr c)"
  shows "free_slots c' n = ss"
proof -
  obtain m where m: "cs_lr c' = (cs_lr c)[s := make_lr (of_nat b) (of_nat p) m]"
    using place_lr [OF assms(1)] by blast
  have "s \<in> set (free_slots c n)" by (simp add: assms(2))
  then have s: "s < length (cs_lr c)" using assms(3) by (auto simp: free_slots_def)
  have "free_slots c' n = filter (\<lambda>i. i \<noteq> s) (free_slots c n)"
    unfolding free_slots_def filter_filter m
    by (rule filter_cong) (use s in \<open>auto simp: nth_list_update\<close>)
  moreover have "distinct (free_slots c n)" by (simp add: free_slots_def)
  ultimately show ?thesis using assms(2) by (auto simp: filter_id_conv)
qed

lemma free_slot_slots:
  "free_slot c n = (case free_slots c n of [] \<Rightarrow> None | s # _ \<Rightarrow> Some s)"
proof -
  have "find P xs = (case filter P xs of [] \<Rightarrow> None | x # _ \<Rightarrow> Some x)" for P :: "nat \<Rightarrow> bool" and xs
    by (induction xs) auto
  then show ?thesis by (simp add: free_slot_def free_slots_def)
qed

declare refill_loop.simps [simp del]

lemma refill_loop_ranked:
  assumes "n \<le> length (cs_lr c)"
  shows "refill_loop n cands (c, dist, toks) =
    (length (free_slots c n) < length (ranked c dist cands),
     place_all (candidate_prio c dist) (zip (ranked c dist cands) (free_slots c n)) (c, dist, toks))"
proof -
  have "ranked c dist cands = rs \<Longrightarrow> n \<le> length (cs_lr c) \<Longrightarrow> refill_loop n cands (c, dist, toks) =
      (length (free_slots c n) < length rs,
       place_all (candidate_prio c dist) (zip rs (free_slots c n)) (c, dist, toks))" for rs
  proof (induction rs arbitrary: cands c dist toks)
    case Nil
    then show ?case by (simp add: refill_loop.simps best_candidate_ranked)
  next
    case (Cons b bs)
    have "b \<in> set (ranked c dist cands)" using Cons.prems(1) by simp
    then have "b < kMaxIntid" using set_bits_of_less by (simp add: ranked_def)
    then have loop: "refill_loop n cands (c, dist, toks) = (case free_slot c n of
        None \<Rightarrow> (True, c, dist, toks)
      | Some s \<Rightarrow> refill_loop n (cands AND NOT (push_bit b 1)) (place b (candidate_prio c dist b) s (c, dist, toks)))"
      using Cons.prems(1)
      by (subst refill_loop.simps) (simp add: best_candidate_ranked del: push_bit_of_1 cong: option.case_cong)
    show ?case
    proof (cases "free_slots c n")
      case Nil
      then show ?thesis unfolding loop by (simp add: free_slot_slots)
    next
      case (Cons s ss)
      obtain c' dist' toks' where pl: "place b (candidate_prio c dist b) s (c, dist, toks) = (c', dist', toks')"
        by (rule prod_cases3)
      note prio = candidate_prio_place [OF pl]
      have r: "ranked c' dist' (cands AND NOT (push_bit b 1)) = bs"
        using ranked_rest [OF \<open>ranked c dist cands = b # bs\<close>] by (simp only: ranked_def prio)
      have len: "n \<le> length (cs_lr c')" using place_lr [OF pl] Cons.prems(2) by auto
      show ?thesis
        unfolding loop free_slot_slots Cons list.case option.case pl Cons.IH [OF r len]
        by (simp add: free_slots_place [OF pl Cons Cons.prems(2)] prio pl)
    qed
  qed
  then show ?thesis using assms by blast
qed

section \<open>What is wanted\<close>

lemma bit_spi_deliverable:
  "bit (spi_deliverable d vcpu vcpus) k
     \<longleftrightarrow> bit (dist_pending d) k \<and> bit (dist_enabled d) k \<and> spi_target d (kNumPrivate + k) vcpus = vcpu"
  by (auto simp: spi_deliverable_def Let_def bit_and_iff bit_flag_loop kNumSpis_def simp del: push_bit_of_1
      dest: bit_imp_le_length)

definition wants :: "RedistState \<Rightarrow> DistState \<Rightarrow> nat \<Rightarrow> nat \<Rightarrow> nat \<Rightarrow> bool" where
  "wants r d vcpu vcpus i \<longleftrightarrow>
     (if i < kNumPrivate then bit (rd_pending r) i \<and> bit (rd_isenabler0 r) i
      else bit (dist_pending d) (i - kNumPrivate) \<and> bit (dist_enabled d) (i - kNumPrivate)
        \<and> spi_target d i vcpus = vcpu)"

lemma bit_wanted_ids: "bit (wanted_ids c (Some d) vcpu vcpus) i \<longleftrightarrow> wants (cs_redist c) d vcpu vcpus i"
  by (auto simp: wanted_ids_def wants_def Let_def bit_or_iff bit_push_bit_iff bit_ucast_iff bit_spi_deliverable
      deliverable_def bit_and_iff kNumPrivate_def dest: bit_imp_le_length)

lemma wants_less: "wants r d vcpu vcpus i \<Longrightarrow> i < kMaxIntid"
  by (auto simp: wants_def kMaxIntid_def kNumPrivate_def kNumSpis_def split: if_splits dest: bit_imp_le_length)

text \<open>List register \<open>s\<close> holds INTID \<open>i\<close>, pending or active.\<close>

definition holds :: "CpuState \<Rightarrow> nat \<Rightarrow> nat \<Rightarrow> bool" where
  "holds c s i \<longleftrightarrow> lr_in_flight (cs_lr c ! s) \<and> unat (lr_vintid (cs_lr c ! s)) = i"

lemma bit_inflight_ids: "bit (inflight_ids c n) i \<longleftrightarrow> i < kMaxIntid \<and> (\<exists>s < n. holds c s i)"
  by (auto simp: inflight_ids_def bit_or_loop holds_def kMaxIntid_def kNumPrivate_def kNumSpis_def
      simp del: push_bit_of_1)

lemma arm_eoi_nth:
  assumes "s < length (cs_lr c)"
  shows "cs_lr (arm_eoi c n w) ! s =
    (if s < n \<and> lr_in_flight (cs_lr c ! s) \<and> unat (lr_vintid (cs_lr c ! s)) < kMaxIntid
        \<and> bit w (unat (lr_vintid (cs_lr c ! s)))
     then cs_lr c ! s OR kLrEoi else cs_lr c ! s)"
  using nth_update_loop [OF assms, of "\<lambda>l. lr_in_flight l \<and> unat (lr_vintid l) < kMaxIntid
      \<and> w AND push_bit (unat (lr_vintid l)) 1 \<noteq> 0" "\<lambda>l. l OR kLrEoi" n]
  by (simp add: arm_eoi_def and_exp_nonzero del: push_bit_of_1)

lemma arm_eoi_frame [simp]:
  "cs_redist (arm_eoi c n w) = cs_redist c" "cs_token (arm_eoi c n w) = cs_token c"
  "length (cs_lr (arm_eoi c n w)) = length (cs_lr c)"
  by (simp_all add: arm_eoi_def length_update_loop [of "\<lambda>l. lr_in_flight l \<and> unat (lr_vintid l) < kMaxIntid
      \<and> w AND push_bit (unat (lr_vintid l)) 1 \<noteq> 0" "\<lambda>l. l OR kLrEoi"] del: push_bit_of_1)

lemma eoi_bit: "bit kLrEoi i \<longleftrightarrow> i = 41"
proof -
  have e: "kLrEoi = push_bit 41 1" by (simp add: kLrEoi_def)
  show ?thesis unfolding e bit_single by simp
qed

lemma armed_lr [simp]:
  "lr_in_flight (lr OR kLrEoi) = lr_in_flight lr" "lr_vintid (lr OR kLrEoi) = lr_vintid lr"
  by (simp_all add: lr_in_flight_bits bit_or_iff eoi_bit)
    (rule bit_eqI, auto simp: bit_lr_vintid bit_or_iff eoi_bit)

section \<open>What a sequence of placements does\<close>

definition spi_token :: "EoiToken list \<Rightarrow> nat \<Rightarrow> EoiToken" where
  "spi_token ts i = (if i \<ge> kNumPrivate then ts ! (i - kNumPrivate) else et_none)"

lemma place_Some:
  "place b p s (c, Some d, Some ts) =
    (c\<lparr>cs_token := (cs_token c)[s := spi_token ts b],
       cs_lr := (cs_lr c)[s := make_lr (of_nat b) (of_nat p) (et_valid (spi_token ts b))],
       cs_redist := (cs_redist c)\<lparr>rd_pending := if b < kNumPrivate
          then rd_pending (cs_redist c) AND NOT (push_bit b 1) else rd_pending (cs_redist c)\<rparr>\<rparr>,
     Some (d\<lparr>dist_pending := if b < kNumPrivate then dist_pending d
          else dist_pending d AND NOT (push_bit (b - kNumPrivate) 1)\<rparr>),
     Some (if b < kNumPrivate then ts else ts[b - kNumPrivate := et_none]))"
  by (cases "b < kNumPrivate") (simp_all add: place_def spi_token_def Let_def)

text \<open>The state after placing the pairs \<open>ps\<close> of (INTID, slot), field by field.\<close>

definition placed :: "(nat \<Rightarrow> nat) \<Rightarrow> (nat \<times> nat) list \<Rightarrow> CpuState \<Rightarrow> DistState \<Rightarrow> EoiToken list
    \<Rightarrow> CpuState \<Rightarrow> DistState \<Rightarrow> EoiToken list \<Rightarrow> bool" where
  "placed prio ps c d ts c' d' ts' \<longleftrightarrow>
     length (cs_lr c') = length (cs_lr c) \<and> length (cs_token c') = length (cs_token c) \<and> length ts' = length ts
     \<and> (\<forall>(i, s) \<in> set ps. cs_lr c' ! s = make_lr (of_nat i) (of_nat (prio i)) (et_valid (spi_token ts i))
           \<and> cs_token c' ! s = spi_token ts i)
     \<and> (\<forall>s. s \<notin> snd ` set ps \<longrightarrow> cs_lr c' ! s = cs_lr c ! s \<and> cs_token c' ! s = cs_token c ! s)
     \<and> (\<forall>k. bit (rd_pending (cs_redist c')) k \<longleftrightarrow> bit (rd_pending (cs_redist c)) k \<and> k \<notin> fst ` set ps)
     \<and> (\<forall>k. bit (dist_pending d') k \<longleftrightarrow> bit (dist_pending d) k \<and> k + kNumPrivate \<notin> fst ` set ps)
     \<and> (\<forall>k < length ts. ts' ! k = (if k + kNumPrivate \<in> fst ` set ps then et_none else ts ! k))
     \<and> cs_redist c' = (cs_redist c)\<lparr>rd_pending := rd_pending (cs_redist c')\<rparr>
     \<and> d' = d\<lparr>dist_pending := dist_pending d'\<rparr>"

lemma placed_Cons:
  assumes "place b (prio b) s (c, Some d, Some ts) = (c1, Some d1, Some ts1)"
    and "placed prio ps c1 d1 ts1 c' d' ts'"
    and "b \<notin> fst ` set ps" "s \<notin> snd ` set ps" "s < length (cs_lr c)" "s < length (cs_token c)"
  shows "placed prio ((b, s) # ps) c d ts c' d' ts'"
proof -
  have c1: "cs_token c1 = (cs_token c)[s := spi_token ts b]"
    "cs_lr c1 = (cs_lr c)[s := make_lr (of_nat b) (of_nat (prio b)) (et_valid (spi_token ts b))]"
    "cs_redist c1 = (cs_redist c)\<lparr>rd_pending := if b < kNumPrivate
          then rd_pending (cs_redist c) AND NOT (push_bit b 1) else rd_pending (cs_redist c)\<rparr>"
    "d1 = d\<lparr>dist_pending := if b < kNumPrivate then dist_pending d
          else dist_pending d AND NOT (push_bit (b - kNumPrivate) 1)\<rparr>"
    "ts1 = (if b < kNumPrivate then ts else ts[b - kNumPrivate := et_none])"
    using assms(1) unfolding place_Some by (auto simp del: push_bit_of_1)
  note P = assms(2) [unfolded placed_def]
  have tok: "spi_token ts1 i = spi_token ts i" if "i \<in> fst ` set ps" for i
  proof -
    have "i \<noteq> b" using that assms(3) by blast
    then show ?thesis unfolding spi_token_def c1
      by (cases "b < kNumPrivate"; cases "kNumPrivate \<le> i") (simp_all add: nth_list_update_neq)
  qed
  show ?thesis
    unfolding placed_def
  proof (intro conjI)
    show "\<forall>(i, s') \<in> set ((b, s) # ps). cs_lr c' ! s' = make_lr (of_nat i) (of_nat (prio i)) (et_valid (spi_token ts i))
           \<and> cs_token c' ! s' = spi_token ts i"
    proof (clarsimp, intro conjI ballI; (clarify)?)
      have new: "cs_lr c' ! s = cs_lr c1 ! s" "cs_token c' ! s = cs_token c1 ! s" using P assms(4) by blast+
      show "cs_lr c' ! s = make_lr (of_nat b) (of_nat (prio b)) (et_valid (spi_token ts b))"
        unfolding new using assms(5) by (simp add: c1)
      show "cs_token c' ! s = spi_token ts b" unfolding new using assms(6) by (simp add: c1)
      fix i s' assume m: "(i, s') \<in> set ps"
      then have t: "spi_token ts1 i = spi_token ts i" by (intro tok) force
      show "cs_lr c' ! s' = make_lr (of_nat i) (of_nat (prio i)) (et_valid (spi_token ts i))
           \<and> cs_token c' ! s' = spi_token ts i"
        using P m t by fastforce
    qed
    show "\<forall>s'. s' \<notin> snd ` set ((b, s) # ps) \<longrightarrow> cs_lr c' ! s' = cs_lr c ! s' \<and> cs_token c' ! s' = cs_token c ! s'"
      using P by (simp add: c1)
    show "\<forall>k. bit (rd_pending (cs_redist c')) k \<longleftrightarrow>
        bit (rd_pending (cs_redist c)) k \<and> k \<notin> fst ` set ((b, s) # ps)"
      using P by (auto simp: c1 bit_clear_single kNumPrivate_def simp del: push_bit_of_1 dest: bit_imp_le_length)
    show "\<forall>k. bit (dist_pending d') k \<longleftrightarrow> bit (dist_pending d) k \<and> k + kNumPrivate \<notin> fst ` set ((b, s) # ps)"
      using P by (auto simp: c1 bit_clear_single simp del: push_bit_of_1)
    show "\<forall>k < length ts. ts' ! k = (if k + kNumPrivate \<in> fst ` set ((b, s) # ps) then et_none else ts ! k)"
      using P by (auto simp: c1 nth_list_update)
  qed (use P in \<open>simp_all add: c1\<close>)
qed

lemma place_all_placed:
  assumes "distinct (map fst ps)" "distinct (map snd ps)"
    "\<forall>s \<in> snd ` set ps. s < length (cs_lr c) \<and> s < length (cs_token c)"
  shows "\<exists>c' d' ts'. place_all prio ps (c, Some d, Some ts) = (c', Some d', Some ts')
     \<and> placed prio ps c d ts c' d' ts'"
  using assms
proof (induction ps arbitrary: c d ts)
  case Nil
  then show ?case by (simp add: placed_def)
next
  case (Cons p ps)
  obtain b s where p: "p = (b, s)" by (cases p)
  obtain c1 d1 ts1 where pl: "place b (prio b) s (c, Some d, Some ts) = (c1, Some d1, Some ts1)"
    using place_Some by blast
  have "length (cs_lr c1) = length (cs_lr c)" "length (cs_token c1) = length (cs_token c)"
    using pl unfolding place_Some by (auto simp del: push_bit_of_1)
  then obtain c' d' ts' where rest: "place_all prio ps (c1, Some d1, Some ts1) = (c', Some d', Some ts')"
      "placed prio ps c1 d1 ts1 c' d' ts'"
    using Cons.IH [of c1 d1 ts1] Cons.prems by (auto simp: p)
  have "placed prio ((b, s) # ps) c d ts c' d' ts'"
    by (rule placed_Cons [OF pl rest(2)]) (use Cons.prems in \<open>auto simp: p image_iff\<close>)
  then show ?case using rest(1) by (simp add: p pl)
qed

section \<open>The whole of refill\<close>

definition refill_pairs :: "CpuState \<Rightarrow> nat \<Rightarrow> DistState \<Rightarrow> nat \<Rightarrow> nat \<Rightarrow> (nat \<times> nat) list" where
  "refill_pairs c n d vcpu vcpus =
     zip (ranked c (Some d) (wanted_ids c (Some d) vcpu vcpus AND NOT (inflight_ids c n))) (free_slots c n)"

definition armed :: "CpuState \<Rightarrow> nat \<Rightarrow> DistState \<Rightarrow> nat \<Rightarrow> nat \<Rightarrow> CpuState" where
  "armed c n d vcpu vcpus =
     (if wanted_ids c (Some d) vcpu vcpus AND inflight_ids c n \<noteq> 0
      then arm_eoi c n (wanted_ids c (Some d) vcpu vcpus) else c)"

lemma armed_frame [simp]:
  "cs_redist (armed c n d v m) = cs_redist c" "cs_token (armed c n d v m) = cs_token c"
  "length (cs_lr (armed c n d v m)) = length (cs_lr c)"
  by (simp_all add: armed_def)

lemma armed_nth:
  assumes "s < length (cs_lr c)"
  shows "cs_lr (armed c n d v m) ! s =
    (if s < n \<and> (\<exists>i. holds c s i \<and> wants (cs_redist c) d v m i) then cs_lr c ! s OR kLrEoi else cs_lr c ! s)"
proof (cases "wanted_ids c (Some d) v m AND inflight_ids c n = 0")
  case True
  have "\<not> (s < n \<and> holds c s i \<and> wants (cs_redist c) d v m i)" for i
  proof
    assume a: "s < n \<and> holds c s i \<and> wants (cs_redist c) d v m i"
    then have "bit (wanted_ids c (Some d) v m AND inflight_ids c n) i"
      using wants_less by (auto simp: bit_and_iff bit_wanted_ids bit_inflight_ids)
    then show False by (simp add: True)
  qed
  then show ?thesis using True by (auto simp: armed_def)
next
  case False
  then show ?thesis
    using wants_less by (auto simp: armed_def arm_eoi_nth [OF assms] bit_wanted_ids holds_def)
qed

lemma armed_holds: "s < length (cs_lr c) \<Longrightarrow> holds (armed c n d v m) s i \<longleftrightarrow> holds c s i"
  by (simp add: holds_def armed_nth)

lemma candidates_iff:
  "bit (wanted_ids c (Some d) v m AND NOT (inflight_ids c n)) i
     \<longleftrightarrow> wants (cs_redist c) d v m i \<and> \<not> (\<exists>s < n. holds c s i)"
  using wants_less [of "cs_redist c" d v m i] wants_less [of "cs_redist c" d v m i, THEN order.strict_trans2, of 64]
  by (auto simp: bit_and_iff bit_not_iff bit_wanted_ids bit_inflight_ids kMaxIntid_def kNumPrivate_def kNumSpis_def)

lemma refill_as_place_all:
  assumes "cpu_wf c" "n \<le> kMaxLrs"
  shows "refill c n (Some d) v m (Some ts) =
    (length (free_slots c n)
       < length (ranked c (Some d) (wanted_ids c (Some d) v m AND NOT (inflight_ids c n))),
     place_all (candidate_prio c (Some d)) (refill_pairs c n d v m) (armed c n d v m, Some d, Some ts))"
proof -
  let ?a = "armed c n d v m"
  let ?w = "wanted_ids c (Some d) v m AND NOT (inflight_ids c n)"
  have len: "length (cs_lr c) = kMaxLrs" using assms(1) by (simp add: cpu_wf_def)
  have prio: "candidate_prio ?a (Some d) = candidate_prio c (Some d)"
    by (intro ext) (simp add: candidate_prio_def)
  have rk: "ranked ?a (Some d) = ranked c (Some d)" by (intro ext) (simp add: ranked_def prio)
  have free: "free_slots ?a n = free_slots c n"
    unfolding free_slots_def by (rule filter_cong) (use assms len in \<open>auto simp: armed_nth\<close>)
  have "refill c n (Some d) v m (Some ts) = refill_loop n ?w (?a, Some d, Some ts)"
    by (simp add: refill_def armed_def Let_def)
  then show ?thesis
    using refill_loop_ranked [of n ?a ?w "Some d" "Some ts"] assms len
    by (simp add: rk free prio refill_pairs_def)
qed

lemma refill_placed:
  assumes "cpu_wf c" "n \<le> kMaxLrs"
  obtains c' d' ts' where
    "refill c n (Some d) v m (Some ts) =
       (length (free_slots c n)
          < length (ranked c (Some d) (wanted_ids c (Some d) v m AND NOT (inflight_ids c n))),
        c', Some d', Some ts')"
    "placed (candidate_prio c (Some d)) (refill_pairs c n d v m) (armed c n d v m) d ts c' d' ts'"
proof -
  have len: "length (cs_lr c) = kMaxLrs" "length (cs_token c) = kMaxLrs" using assms(1) by (simp_all add: cpu_wf_def)
  have ps: "distinct (map fst (refill_pairs c n d v m))" "distinct (map snd (refill_pairs c n d v m))"
    "\<forall>s \<in> snd ` set (refill_pairs c n d v m). s < length (cs_lr (armed c n d v m)) \<and> s < length (cs_token (armed c n d v m))"
    using assms len by (auto simp: refill_pairs_def free_slots_def map_fst_zip_take map_snd_zip_take
        dest!: set_zip_rightD)
  obtain c' d' ts' where
    "place_all (candidate_prio c (Some d)) (refill_pairs c n d v m) (armed c n d v m, Some d, Some ts) = (c', Some d', Some ts')"
    "placed (candidate_prio c (Some d)) (refill_pairs c n d v m) (armed c n d v m) d ts c' d' ts'"
    using place_all_placed [OF ps] by blast
  then show ?thesis using refill_as_place_all [OF assms] that by simp
qed

lemma refill_pairs_in:
  assumes "(i, s) \<in> set (refill_pairs c n d v m)"
  shows "s < n" "\<not> lr_in_flight (cs_lr c ! s)" "wants (cs_redist c) d v m i" "\<not> (\<exists>s < n. holds c s i)" "i < 64"
proof -
  have i: "bit (wanted_ids c (Some d) v m AND NOT (inflight_ids c n)) i" and s: "s \<in> set (free_slots c n)"
    using set_zip_leftD [OF assms [unfolded refill_pairs_def]] set_zip_rightD [OF assms [unfolded refill_pairs_def]]
    by simp_all
  from i have w: "wants (cs_redist c) d v m i" and h: "\<not> (\<exists>s < n. holds c s i)"
    by (simp_all only: candidates_iff not_False_eq_True)
  show "wants (cs_redist c) d v m i" "\<not> (\<exists>s < n. holds c s i)" by (fact w, fact h)
  from s show "s < n" "\<not> lr_in_flight (cs_lr c ! s)" by (auto simp: free_slots_def)
  from wants_less [OF w] show "i < 64" by (simp add: kMaxIntid_def kNumPrivate_def kNumSpis_def)
qed

lemma refill_pairs_all:
  "if length (free_slots c n)
      < length (ranked c (Some d) (wanted_ids c (Some d) v m AND NOT (inflight_ids c n)))
   then snd ` set (refill_pairs c n d v m) = set (free_slots c n)
   else fst ` set (refill_pairs c n d v m)
      = {i. wants (cs_redist c) d v m i \<and> \<not> (\<exists>s < n. holds c s i)}"
proof -
  have "{i. wants (cs_redist c) d v m i \<and> \<not> (\<exists>s < n. holds c s i)}
      = set (ranked c (Some d) (wanted_ids c (Some d) v m AND NOT (inflight_ids c n)))"
    by (simp only: set_ranked candidates_iff)
  then show ?thesis unfolding refill_pairs_def by (simp add: snd_set_zip fst_set_zip)
qed

text \<open>The list registers after \<open>refill\<close>: the pairs placed, and what was in flight before.\<close>

lemma placed_holds:
  assumes "cpu_wf c" "n \<le> kMaxLrs"
    "placed prio (refill_pairs c n d v m) (armed c n d v m) d ts c' d' ts'" "s < n"
  shows "holds c' s i \<longleftrightarrow> (i, s) \<in> set (refill_pairs c n d v m) \<or> holds c s i"
proof -
  have len: "s < length (cs_lr c)" using assms by (simp add: cpu_wf_def)
  note P = assms(3) [unfolded placed_def]
  show ?thesis
  proof (cases "s \<in> snd ` set (refill_pairs c n d v m)")
    case True
    then obtain j where j: "(j, s) \<in> set (refill_pairs c n d v m)" by force
    have lr: "cs_lr c' ! s = make_lr (of_nat j) (of_nat (prio j)) (et_valid (spi_token ts j))"
      using P j by fastforce
    have uniq: "k = j" if "(k, s) \<in> set (refill_pairs c n d v m)" for k
    proof -
      have "distinct (map snd (refill_pairs c n d v m))"
        by (simp add: refill_pairs_def map_snd_zip_take free_slots_def)
      then show ?thesis using that j by (metis distinct_map inj_onD snd_conv Pair_inject)
    qed
    have "holds c' s i \<longleftrightarrow> i = j"
      using refill_pairs_in(5) [OF j] by (auto simp: holds_def lr unat_of_nat take_bit_nat_eq_self)
    moreover have "\<not> holds c s i" using refill_pairs_in(2) [OF j] by (simp add: holds_def)
    ultimately show ?thesis using j uniq by blast
  next
    case False
    then have "cs_lr c' ! s = cs_lr (armed c n d v m) ! s" using P by blast
    then have "holds c' s i \<longleftrightarrow> holds c s i" using armed_holds [OF len] by (simp add: holds_def)
    then show ?thesis using False by force
  qed
qed

lemma placed_wants:
  assumes "placed prio ps c d ts c' d' ts'"
  shows "wants (cs_redist c') d' v m i \<longleftrightarrow> wants (cs_redist c) d v m i \<and> i \<notin> fst ` set ps"
proof -
  note P = assms [unfolded placed_def]
  have r: "rd_isenabler0 (cs_redist c') = rd_isenabler0 (cs_redist c)"
    using P by (metis RedistState.select_convs(3) RedistState.surjective RedistState.update_convs(4))
  have d: "dist_enabled d' = dist_enabled d" "dist_route d' = dist_route d"
    using P by (metis DistState.select_convs(3) DistState.surjective DistState.update_convs(4))
      (use P in \<open>metis DistState.select_convs(6) DistState.surjective DistState.update_convs(4)\<close>)
  have t: "spi_target d' i m = spi_target d i m" by (simp add: spi_target_def d)
  show ?thesis
    using P by (auto simp: wants_def r d t)
qed

lemma refill_result:
  assumes "cpu_wf c" "n \<le> kMaxLrs" "refill c n (Some d) v m (Some ts) = (ov, c', Some d', Some ts')"
  shows "placed (candidate_prio c (Some d)) (refill_pairs c n d v m) (armed c n d v m) d ts c' d' ts'"
    "if ov then snd ` set (refill_pairs c n d v m) = {s. s < n \<and> \<not> lr_in_flight (cs_lr c ! s)}
     else fst ` set (refill_pairs c n d v m) = {i. wants (cs_redist c) d v m i \<and> \<not> (\<exists>s < n. holds c s i)}"
proof -
  show "placed (candidate_prio c (Some d)) (refill_pairs c n d v m) (armed c n d v m) d ts c' d' ts'"
    by (rule refill_placed [OF assms(1,2), of d v m ts]) (use assms(3) in simp)
  have "ov \<longleftrightarrow> length (free_slots c n)
      < length (ranked c (Some d) (wanted_ids c (Some d) v m AND NOT (inflight_ids c n)))"
    by (rule refill_placed [OF assms(1,2), of d v m ts]) (use assms(3) in simp)
  moreover have "{s. s < n \<and> \<not> lr_in_flight (cs_lr c ! s)} = set (free_slots c n)" by (auto simp: free_slots_def)
  ultimately show "if ov then snd ` set (refill_pairs c n d v m) = {s. s < n \<and> \<not> lr_in_flight (cs_lr c ! s)}
     else fst ` set (refill_pairs c n d v m) = {i. wants (cs_redist c) d v m i \<and> \<not> (\<exists>s < n. holds c s i)}"
    using refill_pairs_all [of c n d v m] by simp
qed

lemma holds_in_flight: "(\<exists>i. holds c s i) \<longleftrightarrow> lr_in_flight (cs_lr c ! s)"
  by (simp add: holds_def)

lemma refill_overflow_full:
  assumes "cpu_wf c" "n \<le> kMaxLrs" "refill c n (Some d) v m (Some ts) = (True, c', Some d', Some ts')" "s < n"
  shows "lr_in_flight (cs_lr c' ! s)"
proof (cases "lr_in_flight (cs_lr c ! s)")
  case True
  then show ?thesis
    using placed_holds [OF assms(1,2) refill_result(1) [OF assms(1-3)] assms(4)] holds_in_flight by blast
next
  case False
  then have "s \<in> snd ` set (refill_pairs c n d v m)" using refill_result(2) [OF assms(1-3)] assms(4) by simp
  then show ?thesis
    using placed_holds [OF assms(1,2) refill_result(1) [OF assms(1-3)] assms(4)] holds_in_flight by force
qed

text \<open>An interrupt that keeps its pending bit because a copy is in flight has that copy armed.\<close>

lemma refill_rearms:
  assumes "cpu_wf c" "n \<le> kMaxLrs" "refill c n (Some d) v m (Some ts) = (ov, c', Some d', Some ts')"
    "wants (cs_redist c) d v m i" "s < n" "holds c s i"
  shows "bit (cs_lr c' ! s) 41"
proof -
  have len: "s < length (cs_lr c)" using assms by (simp add: cpu_wf_def)
  have "s \<notin> snd ` set (refill_pairs c n d v m)"
    using refill_pairs_in(2) assms(6) by (force simp: holds_def)
  then have "cs_lr c' ! s = cs_lr (armed c n d v m) ! s"
    using refill_result(1) [OF assms(1-3)] by (simp add: placed_def)
  then show ?thesis using armed_nth [OF len] assms(4-6) by (auto simp: bit_or_iff eoi_bit)
qed

lemma refill_new:
  assumes "cpu_wf c" "n \<le> kMaxLrs" "refill c n (Some d) v m (Some ts) = (ov, c', Some d', Some ts')"
  shows "i \<in> fst ` set (refill_pairs c n d v m) \<longleftrightarrow> (\<exists>s < n. holds c' s i \<and> \<not> holds c s i)"
proof
  assume "i \<in> fst ` set (refill_pairs c n d v m)"
  then obtain s where s: "(i, s) \<in> set (refill_pairs c n d v m)" by force
  note r = refill_pairs_in [OF s]
  have "holds c' s i" using placed_holds [OF assms(1,2) refill_result(1) [OF assms] r(1)] s by simp
  moreover have "\<not> holds c s i" using r(2) by (simp add: holds_def)
  ultimately show "\<exists>s < n. holds c' s i \<and> \<not> holds c s i" using r(1) by blast
next
  assume "\<exists>s < n. holds c' s i \<and> \<not> holds c s i"
  then obtain s where s: "s < n" "holds c' s i" "\<not> holds c s i" by blast
  then have "(i, s) \<in> set (refill_pairs c n d v m)"
    using placed_holds [OF assms(1,2) refill_result(1) [OF assms] s(1)] by simp
  then show "i \<in> fst ` set (refill_pairs c n d v m)" by force
qed

lemma refill_keeps:
  assumes "cpu_wf c" "n \<le> kMaxLrs" "refill c n (Some d) v m (Some ts) = (ov, c', Some d', Some ts')"
    "s < n" "holds c s i"
  shows "holds c' s i"
  using placed_holds [OF assms(1,2) refill_result(1) [OF assms(1-3)] assms(4)] assms(5) by simp

lemma refill_wants:
  assumes "cpu_wf c" "n \<le> kMaxLrs" "refill c n (Some d) v m (Some ts) = (ov, c', Some d', Some ts')"
  shows "wants (cs_redist c') d' v m i
    \<longleftrightarrow> wants (cs_redist c) d v m i \<and> \<not> (\<exists>s < n. holds c' s i \<and> \<not> holds c s i)"
  using placed_wants [OF refill_result(1) [OF assms]] unfolding refill_new [OF assms] by simp

lemma refill_finds_slot:
  assumes "cpu_wf c" "n \<le> kMaxLrs" "refill c n (Some d) v m (Some ts) = (False, c', Some d', Some ts')"
    "wants (cs_redist c) d v m i"
  shows "(\<exists>s < n. holds c' s i \<and> \<not> holds c s i) \<or> (\<exists>s < n. holds c s i)"
proof -
  have "fst ` set (refill_pairs c n d v m) = {i. wants (cs_redist c) d v m i \<and> \<not> (\<exists>s < n. holds c s i)}"
    using refill_result(2) [OF assms(1-3)] by simp
  then have "i \<in> fst ` set (refill_pairs c n d v m) \<or> (\<exists>s < n. holds c s i)" using assms(4) by blast
  then show ?thesis unfolding refill_new [OF assms(1-3)] .
qed

text \<open>
  C10. No interrupt is lost by a refill. Every interrupt the vCPU wants ends up in
  a list register, or every list register is busy and the overflow is reported.
  What is still pending afterwards is either such an overflow or a second
  occurrence whose in-flight copy now carries the EOI maintenance request that
  brings the next refill. A pending bit is consumed only by an injection, and
  what was in flight stays in flight.
\<close>

theorem refill_delivers:
  assumes "cpu_wf c" "n \<le> kMaxLrs" "refill c n (Some d) v m (Some ts) = (ov, c', Some d', Some ts')"
  shows "(\<forall>i. wants (cs_redist c) d v m i \<longrightarrow>
        (\<exists>s < n. holds c' s i) \<or> ov \<and> (\<forall>s < n. lr_in_flight (cs_lr c' ! s)))
    \<and> (\<forall>i. wants (cs_redist c') d' v m i \<longrightarrow>
        (\<exists>s < n. holds c' s i \<and> bit (cs_lr c' ! s) 41) \<or> ov \<and> (\<forall>s < n. lr_in_flight (cs_lr c' ! s)))
    \<and> (\<forall>i. wants (cs_redist c') d' v m i \<longleftrightarrow>
        wants (cs_redist c) d v m i \<and> \<not> (\<exists>s < n. holds c' s i \<and> \<not> holds c s i))
    \<and> (\<forall>s < n. \<forall>i. holds c s i \<longrightarrow> holds c' s i)"
proof (cases ov)
  case True
  have run: "refill c n (Some d) v m (Some ts) = (True, c', Some d', Some ts')" using assms(3) True by simp
  have "\<forall>s < n. lr_in_flight (cs_lr c' ! s)" using refill_overflow_full [OF assms(1,2) run] by simp
  then show ?thesis using refill_wants [OF assms] refill_keeps [OF assms] True by simp
next
  case False
  have run: "refill c n (Some d) v m (Some ts) = (False, c', Some d', Some ts')" using assms(3) False by simp
  have a: "\<exists>s < n. holds c' s i" if w: "wants (cs_redist c) d v m i" for i
    using refill_finds_slot [OF assms(1,2) run w] refill_keeps [OF assms] by auto
  have b: "\<exists>s < n. holds c' s i \<and> bit (cs_lr c' ! s) 41" if "wants (cs_redist c') d' v m i" for i
  proof -
    have w: "wants (cs_redist c) d v m i" "\<not> (\<exists>s < n. holds c' s i \<and> \<not> holds c s i)"
      using that refill_wants [OF assms] by simp_all
    then obtain s where s: "s < n" "holds c s i" using refill_finds_slot [OF assms(1,2) run w(1)] by auto
    then show ?thesis using refill_rearms [OF assms w(1) s] refill_keeps [OF assms s] by auto
  qed
  show ?thesis using a b refill_wants [OF assms] refill_keeps [OF assms] False by simp
qed

text \<open>A vCPU with one list register busy on INTID 33 and three interrupts wanted.\<close>

definition busy_cpu :: CpuState where
  "busy_cpu = cpu_state_reset\<lparr>
     cs_redist := redist_reset\<lparr>rd_isenabler0 := - 1, rd_pending := 0x08000000,
       rd_prio := (replicate 32 0)[27 := 0xA0]\<rparr>,
     cs_lr := (replicate 16 0)[0 := make_lr 33 0x80 True]\<rparr>"

definition busy_dist :: DistState where
  "busy_dist = dist_reset\<lparr>dist_enabled := - 1, dist_pending := 0x6, dist_prio := replicate 32 0x80\<rparr>"

definition busy_tokens :: "EoiToken list" where
  "busy_tokens = (replicate 32 et_none)[2 := \<lparr>et_virtual = 34, et_physical = 50, et_generation = 7\<rparr>]"

lemma busy_wf: "cpu_wf busy_cpu" "length busy_tokens = 32"
  by (simp_all add: busy_cpu_def busy_tokens_def cpu_wf_def cpu_state_reset_def redist_wf_def redist_reset_def
      kMaxLrs_def kNumPrivate_def)

lemma busy_wants: "wants (cs_redist busy_cpu) busy_dist 0 1 27" "wants (cs_redist busy_cpu) busy_dist 0 1 34"
    "wants (cs_redist busy_cpu) busy_dist 0 1 33"
  by (simp_all add: wants_def busy_cpu_def busy_dist_def dist_reset_def redist_reset_def kNumPrivate_def kNumSpis_def
      spi_target_def bit_numeral_rec)

lemma busy_holds: "holds busy_cpu 0 33" "s < 16 \<Longrightarrow> holds busy_cpu s i \<Longrightarrow> s = 0 \<and> i = 33"
  by (auto simp: holds_def busy_cpu_def nth_list_update split: if_splits)

lemma busy_overflow: "fst (refill busy_cpu 4 (Some busy_dist) 0 1 (Some busy_tokens)) = False"
  by code_simp

lemma busy_run:
  obtains c' d' ts' where
    "refill busy_cpu 4 (Some busy_dist) 0 1 (Some busy_tokens) = (False, c', Some d', Some ts')"
proof -
  have n: "4 \<le> kMaxLrs" by (simp add: kMaxLrs_def)
  show ?thesis
    by (rule refill_placed [OF busy_wf(1) n, of busy_dist 0 1 busy_tokens])
      (use busy_overflow that in simp)
qed

lemma refill_delivers_witness:
  "\<exists>c' d' ts'. refill busy_cpu 4 (Some busy_dist) 0 1 (Some busy_tokens) = (False, c', Some d', Some ts')
     \<and> (\<exists>s < 4. holds c' s 34) \<and> (\<exists>s < 4. holds c' s 27)"
proof -
  have n: "4 \<le> kMaxLrs" by (simp add: kMaxLrs_def)
  obtain c' d' ts' where run:
    "refill busy_cpu 4 (Some busy_dist) 0 1 (Some busy_tokens) = (False, c', Some d', Some ts')"
    by (rule busy_run)
  show ?thesis using refill_delivers [OF busy_wf(1) n run] busy_wants run by blast
qed

section \<open>Order and uniqueness\<close>

lemma sorted_insort_key:
  fixes f :: "nat \<Rightarrow> nat" and x :: nat
  assumes "sorted_wrt (\<lambda>a b. f a < f b \<or> f a = f b \<and> a < b) ys" "\<forall>y \<in> set ys. x < y"
  shows "sorted_wrt (\<lambda>a b. f a < f b \<or> f a = f b \<and> a < b) (insort_key f x ys)"
  using assms by (induction ys) (auto simp: set_insort_key)

lemma sorted_ranked:
  "sorted_wrt (\<lambda>a b. candidate_prio c dist a < candidate_prio c dist b
      \<or> candidate_prio c dist a = candidate_prio c dist b \<and> a < b) (ranked c dist cands)"
proof -
  have "sorted_wrt (\<lambda>a b. f a < f b \<or> f a = f b \<and> a < b) (sort_key f xs)" if "sorted_wrt (<) xs"
    for f :: "nat \<Rightarrow> nat" and xs
    using that by (induction xs) (auto intro: sorted_insort_key)
  moreover have "sorted_wrt (<) (set_bits_of cands)"
    unfolding set_bits_of_def by (rule sorted_wrt_filter) (rule sorted_wrt_upt)
  ultimately show ?thesis by (simp add: ranked_def)
qed

text \<open>
  C22. Injection follows the GIC order: an interrupt \<open>refill\<close> injects is of higher
  priority (lower value, then lower INTID) than every wanted interrupt it leaves
  outside the list registers.
\<close>

theorem refill_priority:
  assumes "cpu_wf c" "n \<le> kMaxLrs" "refill c n (Some d) v m (Some ts) = (ov, c', Some d', Some ts')"
    and "s < n" "holds c' s i" "\<not> holds c s i"
    and "wants (cs_redist c) d v m j" "\<not> (\<exists>s < n. holds c' s j)"
  shows "candidate_prio c (Some d) i < candidate_prio c (Some d) j
    \<or> candidate_prio c (Some d) i = candidate_prio c (Some d) j \<and> i < j"
proof -
  let ?w = "wanted_ids c (Some d) v m AND NOT (inflight_ids c n)"
  let ?r = "ranked c (Some d) ?w" and ?k = "length (free_slots c n)"
  have taken: "fst ` set (refill_pairs c n d v m) = set (take ?k ?r)"
    unfolding refill_pairs_def list.set_map [symmetric] map_fst_zip_take by (simp add: min_def)
  have i: "i \<in> set (take ?k ?r)" using refill_new [OF assms(1-3)] assms(4-6) taken by auto
  have "\<not> (\<exists>s < n. holds c s j)" using refill_keeps [OF assms(1-3)] assms(8) by auto
  then have "j \<in> set ?r" using assms(7) by (simp only: set_ranked candidates_iff mem_Collect_eq simp_thms)
  moreover have "j \<notin> set (take ?k ?r)" using refill_new [OF assms(1-3)] assms(8) taken by auto
  ultimately have j: "j \<in> set (drop ?k ?r)" by (metis append_take_drop_id Un_iff set_append)
  have "sorted_wrt (\<lambda>a b. candidate_prio c (Some d) a < candidate_prio c (Some d) b
      \<or> candidate_prio c (Some d) a = candidate_prio c (Some d) b \<and> a < b) (take ?k ?r @ drop ?k ?r)"
    using sorted_ranked by simp
  then show ?thesis unfolding sorted_wrt_append using i j by blast
qed

lemma refill_pairs_unique:
  assumes "(i, s) \<in> set (refill_pairs c n d v m)" "(i, t) \<in> set (refill_pairs c n d v m)"
  shows "s = t"
proof -
  have "distinct (map fst (refill_pairs c n d v m))" by (simp add: refill_pairs_def map_fst_zip_take)
  then show ?thesis using assms by (metis distinct_map inj_onD fst_conv Pair_inject)
qed

definition each_once :: "CpuState \<Rightarrow> nat \<Rightarrow> bool" where
  "each_once c n \<longleftrightarrow> (\<forall>i s t. s < n \<and> t < n \<and> holds c s i \<and> holds c t i \<longrightarrow> s = t)"

lemma refill_unique:
  assumes "cpu_wf c" "n \<le> kMaxLrs" "refill c n (Some d) v m (Some ts) = (ov, c', Some d', Some ts')"
    and once: "each_once c n"
  shows "each_once c' n"
  unfolding each_once_def
proof (intro allI impI, elim conjE)
  fix i s t assume st: "s < n" "t < n" "holds c' s i" "holds c' t i"
  note H = placed_holds [OF assms(1,2) refill_result(1) [OF assms(1-3)]]
  show "s = t"
  proof (cases "\<exists>s < n. holds c s i")
    case True
    then have none: "(i, u) \<notin> set (refill_pairs c n d v m)" for u using refill_pairs_in(4) by metis
    have "holds c s i" "holds c t i" using H [OF st(1)] H [OF st(2)] st none by simp_all
    then show ?thesis using once st(1,2) unfolding each_once_def by blast
  next
    case False
    then have "(i, s) \<in> set (refill_pairs c n d v m)" "(i, t) \<in> set (refill_pairs c n d v m)"
      using H [OF st(1)] H [OF st(2)] st by simp_all
    then show ?thesis by (rule refill_pairs_unique)
  qed
qed

lemma refill_new_slot:
  assumes "cpu_wf c" "n \<le> kMaxLrs" "refill c n (Some d) v m (Some ts) = (ov, c', Some d', Some ts')"
    "s < n" "holds c' s i" "\<not> holds c s i"
  shows "cs_token c' ! s = spi_token ts i" "bit (cs_lr c' ! s) 41 \<longleftrightarrow> et_valid (spi_token ts i)"
proof -
  note P = refill_result(1) [OF assms(1-3)]
  have p: "(i, s) \<in> set (refill_pairs c n d v m)"
    using placed_holds [OF assms(1,2) P assms(4), of i] assms(5,6) by simp
  have all: "\<forall>(i, s) \<in> set (refill_pairs c n d v m).
      cs_lr c' ! s = make_lr (of_nat i) (of_nat (candidate_prio c (Some d) i)) (et_valid (spi_token ts i))
      \<and> cs_token c' ! s = spi_token ts i"
    using P by (simp add: placed_def)
  have lr: "cs_lr c' ! s = make_lr (of_nat i) (of_nat (candidate_prio c (Some d) i)) (et_valid (spi_token ts i))
      \<and> cs_token c' ! s = spi_token ts i" using bspec [OF all p] by simp
  then show "cs_token c' ! s = spi_token ts i" by simp
  show "bit (cs_lr c' ! s) 41 \<longleftrightarrow> et_valid (spi_token ts i)"
    using lr by (auto simp: make_lr_bits dest: bit_imp_le_length)
qed

lemma refill_old_slot:
  assumes "cpu_wf c" "n \<le> kMaxLrs" "refill c n (Some d) v m (Some ts) = (ov, c', Some d', Some ts')"
    "s < n" "\<not> (\<exists>i. holds c' s i \<and> \<not> holds c s i)"
  shows "cs_token c' ! s = cs_token c ! s"
proof -
  note P = refill_result(1) [OF assms(1-3)]
  have "s \<notin> snd ` set (refill_pairs c n d v m)"
  proof
    assume "s \<in> snd ` set (refill_pairs c n d v m)"
    then obtain i where i: "(i, s) \<in> set (refill_pairs c n d v m)" by force
    then have "holds c' s i" using placed_holds [OF assms(1,2) P assms(4)] by simp
    moreover have "\<not> holds c s i" using refill_pairs_in(2) [OF i] by (simp add: holds_def)
    ultimately show False using assms(5) by simp
  qed
  then show ?thesis using P by (simp add: placed_def)
qed

lemma refill_bank:
  assumes "cpu_wf c" "n \<le> kMaxLrs" "refill c n (Some d) v m (Some ts) = (ov, c', Some d', Some ts')" "k < length ts"
  shows "ts' ! k =
    (if \<exists>s < n. holds c' s (k + kNumPrivate) \<and> \<not> holds c s (k + kNumPrivate) then et_none else ts ! k)"
  using refill_result(1) [OF assms(1-3)] assms(4) unfolding placed_def refill_new [OF assms(1-3), symmetric] by simp

text \<open>
  C13. A refill never puts one INTID into two list registers, and moves the EoI
  token of every SPI it injects out of the distributor bank into the token slot
  of its list register, so a physical interrupt is owed exactly one EOI.
\<close>

theorem refill_exactly_once:
  assumes "cpu_wf c" "n \<le> kMaxLrs" "refill c n (Some d) v m (Some ts) = (ov, c', Some d', Some ts')"
    and "each_once c n"
  shows "each_once c' n
    \<and> (\<forall>s < n. \<forall>i. holds c' s i \<and> \<not> holds c s i \<longrightarrow>
          cs_token c' ! s = spi_token ts i \<and> (bit (cs_lr c' ! s) 41 \<longleftrightarrow> et_valid (spi_token ts i)))
    \<and> (\<forall>k < length ts. ts' ! k =
          (if \<exists>s < n. holds c' s (k + kNumPrivate) \<and> \<not> holds c s (k + kNumPrivate) then et_none else ts ! k))
    \<and> (\<forall>s < n. \<not> (\<exists>i. holds c' s i \<and> \<not> holds c s i) \<longrightarrow> cs_token c' ! s = cs_token c ! s)"
  by (simp add: refill_unique [OF assms] refill_new_slot [OF assms(1-3)] refill_old_slot [OF assms(1-3)]
      refill_bank [OF assms(1-3)])

lemma refill_exactly_once_witness:
  "\<exists>c' d' ts'. refill busy_cpu 4 (Some busy_dist) 0 1 (Some busy_tokens) = (False, c', Some d', Some ts')
     \<and> (\<exists>s < 4. holds c' s 34 \<and> bit (cs_lr c' ! s) 41 \<and> et_physical (cs_token c' ! s) = 50)"
proof -
  have n: "4 \<le> kMaxLrs" by (simp add: kMaxLrs_def)
  obtain c' d' ts' where run:
    "refill busy_cpu 4 (Some busy_dist) 0 1 (Some busy_tokens) = (False, c', Some d', Some ts')"
    by (rule busy_run)
  have none: "\<not> (\<exists>s < 4. holds busy_cpu s 34)" using busy_holds(2) [of _ 34] by fastforce
  have one: "each_once busy_cpu 4"
    unfolding each_once_def using busy_holds(2) by (metis kMaxLrs_def le_less_trans less_le n not_less)
  have "\<exists>s < 4. holds c' s 34 \<and> \<not> holds busy_cpu s 34"
    using refill_finds_slot [OF busy_wf(1) n run busy_wants(2)] none by blast
  then obtain s where s: "s < 4" "holds c' s 34" "\<not> holds busy_cpu s 34" by blast
  have tok: "spi_token busy_tokens 34 = \<lparr>et_virtual = 34, et_physical = 50, et_generation = 7\<rparr>"
    by (simp add: spi_token_def busy_tokens_def kNumPrivate_def)
  have "cs_token c' ! s = spi_token busy_tokens 34 \<and> (bit (cs_lr c' ! s) 41 \<longleftrightarrow> et_valid (spi_token busy_tokens 34))"
    using refill_exactly_once [OF busy_wf(1) n run one] s by blast
  then have "holds c' s 34 \<and> bit (cs_lr c' ! s) 41 \<and> et_physical (cs_token c' ! s) = 50"
    using s(2) by (simp add: tok et_valid_def)
  then show ?thesis using s(1) run by blast
qed

lemma busy_two:
  "(case refill busy_cpu 2 (Some busy_dist) 0 1 (Some busy_tokens) of (ov, c', _) \<Rightarrow>
     holds c' 1 34 \<and> \<not> holds busy_cpu 1 34 \<and> \<not> holds c' 0 27 \<and> \<not> holds c' 1 27)"
  by code_simp

lemma refill_priority_witness:
  "candidate_prio busy_cpu (Some busy_dist) 34 < candidate_prio busy_cpu (Some busy_dist) 27"
proof -
  have n: "2 \<le> kMaxLrs" by (simp add: kMaxLrs_def)
  obtain ov c' d' ts' where run:
    "refill busy_cpu 2 (Some busy_dist) 0 1 (Some busy_tokens) = (ov, c', Some d', Some ts')"
    by (rule refill_placed [OF busy_wf(1) n, of busy_dist 0 1 busy_tokens])
  have h: "holds c' 1 34" "\<not> holds busy_cpu 1 34" and f: "\<not> holds c' 0 27" "\<not> holds c' 1 27"
    using busy_two unfolding run by simp_all
  have out: "\<not> (\<exists>s < 2. holds c' s 27)" using f by (metis One_nat_def less_2_cases_iff)
  show ?thesis using refill_priority [OF busy_wf(1) n run _ h busy_wants(1) out] by simp
qed

end
