(* ===== verification/NovaVgic.thy ===== *)
theory NovaVgic
  imports NovaVgicRefill "HOL-Library.Multiset" NovaMachine
begin

text \<open>
  \<open>src/components/vdev/vgic/src/vgic.cpp\<close>, with \<open>hal/arch/aarch64/gic/ich.hpp\<close> and
  \<open>nova/arch/gicv3/vtr.hpp\<close>: the component that routes MMIO traps to the register
  files, keeps track of the resident vCPU of each core and mirrors list registers
  to the hardware interface. The globals are the record \<open>Vgic\<close>; the banked ICH
  registers of each core are the record \<open>Ich\<close>. The value of ICH_EISR_EL2 is
  hardware and is the parameter \<open>eisr\<close>; \<open>gt\<close> lists the vCPU counts of the guest
  table, \<open>turn\<close> is \<open>telemetry::last_turn()\<close>. Each lock-protected section is one
  step. Service calls are returned as events; traces and console lines are left
  out. \<open>kNoResident\<close> is \<open>None\<close>.
\<close>

section \<open>The hardware interface\<close>

definition vtr_list_regs :: "u64 \<Rightarrow> nat" where
  "vtr_list_regs vtr = unat (vtr AND 0x1F) + 1"

definition vtr_pri_bits_field :: "u64 \<Rightarrow> u64" where
  "vtr_pri_bits_field vtr = drop_bit 29 vtr AND 0x7"

definition vtr_pre_bits_field :: "u64 \<Rightarrow> u64" where
  "vtr_pre_bits_field vtr = drop_bit 26 vtr AND 0x7"

definition vtr_id_bits_field :: "u64 \<Rightarrow> u64" where
  "vtr_id_bits_field vtr = drop_bit 23 vtr AND 0x7"

definition icc_ctlr_view :: "u64 \<Rightarrow> u64" where
  "icc_ctlr_view vtr = push_bit 11 (vtr_id_bits_field vtr) OR push_bit 8 (vtr_pri_bits_field vtr)"

definition kVmcrVeng1 :: u64 where "kVmcrVeng1 = push_bit 1 1"
definition kVmcrVpmrAll :: u64 where "kVmcrVpmrAll = push_bit 24 0xFF"

definition vmcr_reset :: "u64 \<Rightarrow> u64" where
  "vmcr_reset vtr =
     (let vbpr0 = 7 - vtr_pre_bits_field vtr;
          vbpr1 = (if vbpr0 \<ge> 7 then 7 else vbpr0 + 1) in
      kVmcrVpmrAll OR kVmcrVeng1 OR push_bit 21 vbpr0 OR push_bit 18 vbpr1)"

definition kIchHcrEn :: u64 where "kIchHcrEn = push_bit 0 1"
definition kIchHcrUie :: u64 where "kIchHcrUie = push_bit 1 1"
definition kIchHcrTc :: u64 where "kIchHcrTc = push_bit 10 1"
definition kIchHcrBase :: u64 where "kIchHcrBase = kIchHcrEn OR kIchHcrTc"
definition kMaintenanceIntid :: u32 where "kMaintenanceIntid = 25"

record Ich =
  ich_lr :: "u64 list"
  ich_vmcr :: u64
  ich_hcr :: u64

definition ich_wf :: "Ich \<Rightarrow> bool" where "ich_wf h \<longleftrightarrow> length (ich_lr h) = 16"

definition read_lr :: "Ich \<Rightarrow> nat \<Rightarrow> u64" where
  "read_lr h i = (if i < 16 then ich_lr h ! i else 0)"

definition write_lr :: "nat \<Rightarrow> u64 \<Rightarrow> Ich \<Rightarrow> Ich" where
  "write_lr i v h = (if i < 16 then h\<lparr>ich_lr := (ich_lr h)[i := v]\<rparr> else h)"

definition virtual_interface_init :: "u64 \<Rightarrow> Ich \<Rightarrow> Ich" where
  "virtual_interface_init vtr h = h\<lparr>ich_vmcr := vmcr_reset vtr, ich_hcr := kIchHcrEn OR kIchHcrTc\<rparr>"

section \<open>Component state\<close>

record HwBank =
  hb_vmcr :: u64
  hb_hcr :: u64

record Vgic =
  vg_cpu :: "CpuState list"
  vg_hw :: "HwBank list"
  vg_resident :: "nat option list"
  vg_lr_count :: nat
  vg_vtr :: u64
  vg_vmcr_reset :: u64
  vg_dist :: "DistState list"
  vg_tokens :: "EoiToken list list"
  vg_ich :: "Ich list"

datatype VgicEvent = VirqReevaluate nat | VirtualEoi nat u32 EoiToken

definition kGicdIpaBase :: u64 where "kGicdIpaBase = 0x08000000"
definition kGicrIpaBase :: u64 where "kGicrIpaBase = 0x080A0000"

abbreviation upd_cpu :: "nat \<Rightarrow> CpuState \<Rightarrow> Vgic \<Rightarrow> Vgic" where
  "upd_cpu i c g \<equiv> g\<lparr>vg_cpu := (vg_cpu g)[i := c]\<rparr>"

abbreviation upd_ich :: "nat \<Rightarrow> Ich \<Rightarrow> Vgic \<Rightarrow> Vgic" where
  "upd_ich core h g \<equiv> g\<lparr>vg_ich := (vg_ich g)[core := h]\<rparr>"

text \<open>The copy loops between a shadow and the hardware, over the slots selected by \<open>P\<close>.\<close>

definition pull_lrs :: "(nat \<Rightarrow> bool) \<Rightarrow> nat \<Rightarrow> Ich \<Rightarrow> u64 list \<Rightarrow> u64 list" where
  "pull_lrs P n h l = foldl (\<lambda>l i. if P i then l[i := read_lr h i] else l) l [0 ..< n]"

definition push_lrs :: "(nat \<Rightarrow> bool) \<Rightarrow> nat \<Rightarrow> (nat \<Rightarrow> u64) \<Rightarrow> Ich \<Rightarrow> Ich" where
  "push_lrs P n v h = foldl (\<lambda>h i. if P i then write_lr i (v i) h else h) h [0 ..< n]"

section \<open>Residency and delivery\<close>

definition sync_resident_lrs :: "nat \<Rightarrow> u64 \<Rightarrow> nat \<Rightarrow> Vgic \<Rightarrow> Vgic" where
  "sync_resident_lrs core turn index g =
     (if vg_resident g ! core \<noteq> Some index then g
      else let c = vg_cpu g ! index in
        upd_cpu index (c\<lparr>cs_lr := pull_lrs (\<lambda>_. True) (vg_lr_count g) (vg_ich g ! core) (cs_lr c),
                         cs_synced_at := turn\<rparr>) g)"

definition flush :: "nat list \<Rightarrow> nat \<Rightarrow> u64 \<Rightarrow> nat \<Rightarrow> Vgic \<Rightarrow> Vgic" where
  "flush gt core turn index g =
     (let resident = (vg_resident g ! core = Some index);
          g1 = sync_resident_lrs core turn index g;
          vm = vm_of index;
          (overflow, c, d, ts) = refill (vg_cpu g1 ! index) (vg_lr_count g1) (Some (vg_dist g1 ! vm))
             (vcpu_of index) (gt ! vm) (Some (vg_tokens g1 ! vm));
          g2 = (upd_cpu index c g1)\<lparr>vg_dist := (vg_dist g1)[vm := the d], vg_tokens := (vg_tokens g1)[vm := the ts]\<rparr>;
          hcr = kIchHcrBase OR (if overflow then kIchHcrUie else 0) in
      if resident
      then upd_ich core ((push_lrs (\<lambda>_. True) (vg_lr_count g2) (\<lambda>i. cs_lr c ! i) (vg_ich g2 ! core))\<lparr>ich_hcr := hcr\<rparr>) g2
      else g2\<lparr>vg_hw := (vg_hw g2)[index := (vg_hw g2 ! index)\<lparr>hb_hcr := hcr\<rparr>]\<rparr>)"

definition drain_eois :: "(Ich \<Rightarrow> u64) \<Rightarrow> nat \<Rightarrow> nat \<Rightarrow> Vgic \<Rightarrow> Vgic \<times> VgicEvent list" where
  "drain_eois eisr core index g =
     (if vg_resident g ! core \<noteq> Some index then (g, [])
      else let h = vg_ich g ! core; e = eisr h in
        if e = 0 then (g, [])
        else let c = vg_cpu g ! index;
                 c1 = c\<lparr>cs_lr := pull_lrs (\<lambda>i. e AND push_bit i 1 \<noteq> 0) (min (vg_lr_count g) (length (cs_lr c))) h (cs_lr c)\<rparr>;
                 (c2, toks, cleared) = harvest_eois c1 e (vg_lr_count g);
                 h1 = push_lrs (\<lambda>i. cleared AND push_bit i 1 \<noteq> 0) (min (vg_lr_count g) (length (cs_lr c))) (\<lambda>_. 0) h in
             (upd_ich core h1 (upd_cpu index c2 g), map (\<lambda>t. VirtualEoi index (et_virtual t) t) toks))"

section \<open>MMIO\<close>

record MmioCall =
  mc_ipa :: u64
  mc_size :: nat
  mc_write :: bool
  mc_value :: u64
  mc_handled :: bool

definition dist_mmio :: "nat list \<Rightarrow> nat \<Rightarrow> MmioCall \<Rightarrow> u64 \<Rightarrow> Vgic \<Rightarrow> MmioCall \<times> Vgic \<times> VgicEvent list" where
  "dist_mmio gt core call off g =
     (case vg_resident g ! core of
        None \<Rightarrow> ((if mc_write call then call else call\<lparr>mc_value := 0\<rparr>), g, [])
      | Some s \<Rightarrow>
         (let vm = vm_of s; d = vg_dist g ! vm in
          if mc_write call
          then let keep = (if off = kGicdIcpendr1 then pending_token_mask (vg_tokens g ! vm) else 0);
                   (d1, w) = dist_write d off (mc_size call) (mc_value call) keep;
                   g1 = g\<lparr>vg_dist := (vg_dist g)[vm := d1]\<rparr> in
               (call, g1, if wr_known w \<and> wr_delivery w
                          then map (\<lambda>v. VirqReevaluate (slot_of vm v)) [0 ..< gt ! vm] else [])
          else (call\<lparr>mc_value := mr_value (dist_read d off (mc_size call))\<rparr>, g, [])))"

definition redist_mmio :: "nat list \<Rightarrow> nat \<Rightarrow> MmioCall \<Rightarrow> u64 \<Rightarrow> Vgic \<Rightarrow> MmioCall \<times> Vgic \<times> VgicEvent list" where
  "redist_mmio gt core call off g =
     (case vg_resident g ! core of
        None \<Rightarrow> ((if mc_write call then call else call\<lparr>mc_value := 0\<rparr>), g, [])
      | Some r \<Rightarrow>
         (let vm = vm_of r in
          case decode_redist_frame off (gt ! vm) of
            None \<Rightarrow> ((if mc_write call then call else call\<lparr>mc_value := 0\<rparr>), g, [])
          | Some f \<Rightarrow>
             (let s = slot_of vm (fr_vcpu f); c = vg_cpu g ! s in
              if mc_write call
              then let (r1, w) = redist_write (cs_redist c) (fr_offset f) (mc_size call) (mc_value call) in
                   (call, upd_cpu s (c\<lparr>cs_redist := r1\<rparr>) g,
                    if wr_known w \<and> wr_delivery w then [VirqReevaluate s] else [])
              else (call\<lparr>mc_value := mr_value (redist_read (cs_redist c) (fr_offset f) (mc_size call) (fr_id f))\<rparr>, g, []))))"

definition handle_mmio :: "nat list \<Rightarrow> nat \<Rightarrow> MmioCall \<Rightarrow> Vgic \<Rightarrow> MmioCall \<times> Vgic \<times> VgicEvent list" where
  "handle_mmio gt core call g =
     (if mc_ipa call \<ge> kGicdIpaBase \<and> mc_ipa call < kGicdIpaBase + kGicdFrameSize
      then dist_mmio gt core (call\<lparr>mc_handled := True\<rparr>) (mc_ipa call - kGicdIpaBase) g
      else if mc_ipa call \<ge> kGicrIpaBase \<and> mc_ipa call < kGicrIpaBase + of_nat kMaxVcpusPerVm * kGicrFrameSize
      then redist_mmio gt core (call\<lparr>mc_handled := True\<rparr>) (mc_ipa call - kGicrIpaBase) g
      else (call, g, []))"

section \<open>Operations\<close>

definition init_cpu :: "u64 \<Rightarrow> nat \<Rightarrow> Vgic \<Rightarrow> Vgic" where
  "init_cpu vtr core g =
     upd_ich core (push_lrs (\<lambda>_. True) (vtr_list_regs vtr) (\<lambda>_. 0) (virtual_interface_init vtr (vg_ich g ! core))) g"

definition vgic_init :: "u64 \<Rightarrow> nat \<Rightarrow> Vgic \<Rightarrow> Vgic" where
  "vgic_init vtr core g =
     (let g1 = init_cpu vtr core g in
      g1\<lparr>vg_vtr := vtr, vg_vmcr_reset := vmcr_reset vtr, vg_lr_count := min (vtr_list_regs vtr) kMaxLrs,
         vg_hw := map (\<lambda>hw. hw\<lparr>hb_vmcr := vmcr_reset vtr\<rparr>) (vg_hw g1),
         vg_resident := map (\<lambda>_. None) (vg_resident g1)\<rparr>)"

definition cpu_reset :: "u64 \<Rightarrow> nat \<Rightarrow> Vgic \<Rightarrow> Vgic" where
  "cpu_reset turn index g =
     (upd_cpu index (cpu_state_reset\<lparr>cs_synced_at := turn\<rparr>) g)
       \<lparr>vg_hw := (vg_hw g)[index := \<lparr>hb_vmcr = vg_vmcr_reset g, hb_hcr = kIchHcrBase\<rparr>]\<rparr>"

definition cpu_save :: "(Ich \<Rightarrow> u64) \<Rightarrow> nat \<Rightarrow> u64 \<Rightarrow> nat \<Rightarrow> Vgic \<Rightarrow> Vgic \<times> VgicEvent list" where
  "cpu_save eisr core turn index g =
     (let (g1, ev) = drain_eois eisr core index g;
          c = vg_cpu g1 ! index; h = vg_ich g1 ! core in
      ((upd_cpu index (c\<lparr>cs_lr := pull_lrs (\<lambda>_. True) (vg_lr_count g1) h (cs_lr c), cs_synced_at := turn\<rparr>) g1)
         \<lparr>vg_hw := (vg_hw g1)[index := \<lparr>hb_vmcr = ich_vmcr h, hb_hcr = ich_hcr h\<rparr>]\<rparr>, ev))"

definition cpu_restore :: "nat list \<Rightarrow> nat \<Rightarrow> u64 \<Rightarrow> nat \<Rightarrow> Vgic \<Rightarrow> Vgic" where
  "cpu_restore gt core turn index g =
     (let g1 = flush gt core turn index g;
          h = push_lrs (\<lambda>_. True) (vg_lr_count g1) (\<lambda>i. cs_lr (vg_cpu g1 ! index) ! i) (vg_ich g1 ! core) in
      (upd_ich core (h\<lparr>ich_vmcr := hb_vmcr (vg_hw g1 ! index), ich_hcr := hb_hcr (vg_hw g1 ! index)\<rparr>) g1)
        \<lparr>vg_resident := (vg_resident g1)[core := Some index]\<rparr>)"

definition vacate :: "nat \<Rightarrow> Vgic \<Rightarrow> Vgic" where
  "vacate core g = g\<lparr>vg_resident := (vg_resident g)[core := None]\<rparr>"

definition post_private :: "nat list \<Rightarrow> nat \<Rightarrow> u64 \<Rightarrow> nat \<Rightarrow> nat \<Rightarrow> Vgic \<Rightarrow> bool \<times> Vgic" where
  "post_private gt core turn index vintid g =
     (if vintid \<ge> kNumPrivate then (False, g)
      else let c = vg_cpu g ! index; r = cs_redist c in
        (True, flush gt core turn index
           (upd_cpu index (c\<lparr>cs_redist := r\<lparr>rd_pending := rd_pending r OR push_bit vintid 1\<rparr>\<rparr>) g)))"

definition spi_band :: "nat \<times> nat" where "spi_band = (kNumPrivate, kMaxIntid - 1)"

definition raise_spi :: "nat \<Rightarrow> nat \<Rightarrow> Vgic \<Rightarrow> Vgic" where
  "raise_spi vm k g =
     (let d = vg_dist g ! vm in
      g\<lparr>vg_dist := (vg_dist g)[vm := d\<lparr>dist_pending := dist_pending d OR push_bit k 1\<rparr>]\<rparr>)"

definition post_spi :: "nat list \<Rightarrow> nat \<Rightarrow> nat \<Rightarrow> Vgic \<Rightarrow> bool \<times> Vgic \<times> VgicEvent list" where
  "post_spi gt vm vintid g =
     (if vintid < kNumPrivate \<or> vintid \<ge> kMaxIntid \<or> vm \<ge> length gt then (False, g, [])
      else let g1 = raise_spi vm (vintid - kNumPrivate) g in
        (True, g1, [VirqReevaluate (slot_of vm (spi_target (vg_dist g1 ! vm) vintid (gt ! vm)))]))"

definition post_spi_tracked ::
  "nat list \<Rightarrow> nat \<Rightarrow> nat \<Rightarrow> u32 \<Rightarrow> u64 \<Rightarrow> Vgic \<Rightarrow> bool \<times> Vgic \<times> VgicEvent list" where
  "post_spi_tracked gt vm vintid physical generation g =
     (if vintid < kNumPrivate \<or> vintid \<ge> kMaxIntid \<or> vm \<ge> length gt \<or> generation = 0 then (False, g, [])
      else let k = vintid - kNumPrivate; token = vg_tokens g ! vm ! k in
        if et_valid token then (et_physical token = physical \<and> et_generation token = generation, g, [])
        else let t = \<lparr>et_virtual = of_nat vintid, et_physical = physical, et_generation = generation\<rparr>;
                 g1 = raise_spi vm k (g\<lparr>vg_tokens := (vg_tokens g)[vm := (vg_tokens g ! vm)[k := t]]\<rparr>) in
             (True, g1, [VirqReevaluate (slot_of vm (spi_target (vg_dist g1 ! vm) vintid (gt ! vm)))]))"

definition has_deliverable :: "nat list \<Rightarrow> nat \<Rightarrow> u64 \<Rightarrow> nat \<Rightarrow> Vgic \<Rightarrow> bool \<times> Vgic" where
  "has_deliverable gt core turn index g =
     (let g1 = sync_resident_lrs core turn index g; c = vg_cpu g1 ! index in
      if list_ex (\<lambda>i. cs_lr c ! i AND kLrStatePending \<noteq> 0) [0 ..< vg_lr_count g1] then (True, g1)
      else let vm = vm_of index in
        (deliverable (cs_redist c) \<noteq> 0 \<or> spi_deliverable (vg_dist g1 ! vm) (vcpu_of index) (gt ! vm) \<noteq> 0, g1))"

definition reevaluate :: "nat list \<Rightarrow> nat \<Rightarrow> u64 \<Rightarrow> nat \<Rightarrow> Vgic \<Rightarrow> bool \<times> Vgic" where
  "reevaluate gt core turn index g = has_deliverable gt core turn index (flush gt core turn index g)"

definition vm_reset :: "nat \<Rightarrow> Vgic \<Rightarrow> Vgic" where
  "vm_reset vm g = g\<lparr>vg_dist := (vg_dist g)[vm := dist_reset],
     vg_tokens := (vg_tokens g)[vm := replicate kNumSpis et_none]\<rparr>"

text \<open>
  \<open>handle_irq\<close> indexes \<open>g_cpu\<close> with the resident slot of the core. With nobody
  resident the index is \<open>kNoResident\<close>, outside the array: \<open>None\<close>.
\<close>

definition handle_irq ::
  "(Ich \<Rightarrow> u64) \<Rightarrow> nat list \<Rightarrow> nat \<Rightarrow> u64 \<Rightarrow> u32 \<Rightarrow> bool \<Rightarrow> Vgic \<Rightarrow> (bool \<times> Vgic \<times> VgicEvent list) option" where
  "handle_irq eisr gt core turn intid handled g =
     (if handled then Some (handled, g, [])
      else if intid \<noteq> kMaintenanceIntid then Some (handled, g, [])
      else case vg_resident g ! core of
          None \<Rightarrow> None
        | Some r \<Rightarrow> (let (g1, ev) = drain_eois eisr core r g in Some (True, flush gt core turn r g1, ev)))"

end
