(* ===== verification/NovaVgicInv.thy ===== *)
theory NovaVgicInv
  imports NovaVgic
begin

text \<open>
  Proofs about the vGIC component (NovaVgic): an invariant every operation, every
  guest access and every move of the hardware list registers keeps, and the fate
  of the EoI tokens. The component runs as a step relation that interprets the
  invariant machine of NovaMachine.
\<close>

section \<open>Well-formed states\<close>

definition gt_wf :: "nat list \<Rightarrow> bool" where
  "gt_wf gt \<longleftrightarrow> length gt \<le> kMaxGuests \<and> (\<forall>vm < length gt. gt ! vm \<le> kMaxVcpusPerVm)"

definition vgic_wf :: "Vgic \<Rightarrow> bool" where
  "vgic_wf g \<longleftrightarrow> length (vg_cpu g) = kMaxVcpus \<and> length (vg_hw g) = kMaxVcpus
     \<and> length (vg_dist g) = kMaxGuests \<and> length (vg_tokens g) = kMaxGuests
     \<and> length (vg_ich g) = length (vg_resident g) \<and> vg_lr_count g \<le> kMaxLrs
     \<and> (\<forall>i < kMaxVcpus. cpu_wf (vg_cpu g ! i))
     \<and> (\<forall>vm < kMaxGuests. dist_wf (vg_dist g ! vm) \<and> length (vg_tokens g ! vm) = kNumSpis)
     \<and> (\<forall>core < length (vg_resident g). ich_wf (vg_ich g ! core)
           \<and> (\<forall>i. vg_resident g ! core = Some i \<longrightarrow> i < kMaxVcpus))"

text \<open>A live token of the bank belongs to a pending SPI that is in no list register yet.\<close>

definition bank_pending :: "DistState \<Rightarrow> EoiToken list \<Rightarrow> bool" where
  "bank_pending d ts \<longleftrightarrow> (\<forall>k < kNumSpis. et_valid (ts ! k) \<longrightarrow>
     bit (dist_pending d) k \<and> et_virtual (ts ! k) = of_nat (k + kNumPrivate))"

definition tokens_pending :: "Vgic \<Rightarrow> bool" where
  "tokens_pending g \<longleftrightarrow> (\<forall>vm < kMaxGuests. bank_pending (vg_dist g ! vm) (vg_tokens g ! vm))"

definition vgic_ok :: "Vgic \<Rightarrow> bool" where
  "vgic_ok g \<longleftrightarrow> vgic_wf g \<and> tokens_pending g"

lemma et_none_invalid [simp]: "\<not> et_valid et_none"
  by (simp add: et_valid_def et_none_def)

section \<open>Copy loops\<close>

lemma length_pull_lrs [simp]: "length (pull_lrs P n h l) = length l"
proof -
  have "length (foldl (\<lambda>l i. if P i then l[i := read_lr h i] else l) l xs) = length l" for xs
    by (induction xs arbitrary: l) auto
  then show ?thesis by (simp add: pull_lrs_def)
qed

lemma pull_lrs_nth:
  assumes "s < length l"
  shows "pull_lrs P n h l ! s = (if s < n \<and> P s then read_lr h s else l ! s)"
proof (induction n)
  case (Suc n)
  have "pull_lrs P (Suc n) h l = (if P n then (pull_lrs P n h l)[n := read_lr h n] else pull_lrs P n h l)"
    by (simp add: pull_lrs_def)
  then show ?case using Suc assms by (auto simp: nth_list_update less_Suc_eq)
qed (simp add: pull_lrs_def)

lemma write_lr_wf [simp]: "ich_wf (write_lr i v h) = ich_wf h"
  by (simp add: write_lr_def ich_wf_def)

lemma ich_wf_regs [simp]: "ich_wf (h\<lparr>ich_hcr := v\<rparr>) = ich_wf h" "ich_wf (h\<lparr>ich_vmcr := w\<rparr>) = ich_wf h"
  by (simp_all add: ich_wf_def)

lemma push_lrs_wf [simp]: "ich_wf (push_lrs P n v h) = ich_wf h"
proof -
  have "ich_wf (foldl (\<lambda>h i. if P i then write_lr i (v i) h else h) h xs) = ich_wf h" for xs
    by (induction xs arbitrary: h) auto
  then show ?thesis by (simp add: push_lrs_def)
qed

section \<open>Frames of the model operations\<close>

lemma take_eoi_token_frame:
  "cs_redist (fst (take_eoi_token c s)) = cs_redist c" "cs_lr (fst (take_eoi_token c s)) = cs_lr c"
  "length (cs_token (fst (take_eoi_token c s))) = length (cs_token c)"
  by (simp_all add: take_eoi_token_def)

lemma harvest_frame:
  assumes "harvest_eois c e n = (c', toks, cl)"
  shows "cs_redist c' = cs_redist c" "length (cs_lr c') = length (cs_lr c)"
    "length (cs_token c') = length (cs_token c)"
proof -
  have step: "foldl (harvest_slot e) (c, t0, m0) xs = (c', toks, cl) \<Longrightarrow>
     cs_redist c' = cs_redist c \<and> length (cs_lr c') = length (cs_lr c) \<and> length (cs_token c') = length (cs_token c)"
    for xs t0 m0
  proof (induction xs arbitrary: c t0 m0)
    case (Cons x xs)
    obtain c1 t1 m1 where s: "harvest_slot e (c, t0, m0) x = (c1, t1, m1)" by (rule prod_cases3)
    then have "cs_redist c1 = cs_redist c \<and> length (cs_lr c1) = length (cs_lr c)
        \<and> length (cs_token c1) = length (cs_token c)"
      using take_eoi_token_frame [of c x]
      by (auto simp: harvest_slot_def Let_def split: if_splits prod.splits simp del: push_bit_of_1)
    then show ?case using Cons.IH [of c1 t1 m1] Cons.prems s by simp
  qed simp
  from step [OF assms [unfolded harvest_eois_def]] show "cs_redist c' = cs_redist c"
    "length (cs_lr c') = length (cs_lr c)" "length (cs_token c') = length (cs_token c)" by blast+
qed

lemma harvest_cpu_wf: "cpu_wf c \<Longrightarrow> harvest_eois c e n = (c', toks, cl) \<Longrightarrow> cpu_wf c'"
  using harvest_frame [of c e n c' toks cl] by (simp add: cpu_wf_def)

lemma pull_cpu_wf [simp]: "cpu_wf (c\<lparr>cs_lr := pull_lrs P n h (cs_lr c)\<rparr>) = cpu_wf c"
  "cpu_wf (c\<lparr>cs_lr := pull_lrs P n h (cs_lr c), cs_synced_at := t\<rparr>) = cpu_wf c"
  "cpu_wf (c\<lparr>cs_synced_at := t\<rparr>) = cpu_wf c"
  by (simp_all add: cpu_wf_def)

lemma placed_wf:
  assumes "placed prio ps c d ts c' d' ts'"
  shows "cpu_wf c' = cpu_wf c" "dist_wf d' = dist_wf d" "length ts' = length ts"
proof -
  note P = assms [unfolded placed_def]
  have r: "rd_prio (cs_redist c') = rd_prio (cs_redist c)"
    using P by (metis RedistState.select_convs(5) RedistState.surjective RedistState.update_convs(4))
  have d: "dist_prio d' = dist_prio d" "dist_route d' = dist_route d"
    using P by (metis DistState.select_convs(5) DistState.surjective DistState.update_convs(4))
      (use P in \<open>metis DistState.select_convs(6) DistState.surjective DistState.update_convs(4)\<close>)
  show "cpu_wf c' = cpu_wf c" using P r by (simp add: cpu_wf_def redist_wf_def)
  show "dist_wf d' = dist_wf d" "length ts' = length ts" using P d by (simp_all add: dist_wf_def)
qed

lemma armed_wf [simp]: "cpu_wf (armed c n d v m) = cpu_wf c"
  by (simp add: cpu_wf_def)

section \<open>Updates of one field\<close>

lemma ok_upd_cpu [nova_inv]: "vgic_ok g \<Longrightarrow> cpu_wf c \<Longrightarrow> vgic_ok (upd_cpu i c g)"
  by (auto simp: vgic_ok_def vgic_wf_def tokens_pending_def nth_upd split: if_splits)

lemma ok_upd_ich [nova_inv]: "vgic_ok g \<Longrightarrow> ich_wf h \<Longrightarrow> vgic_ok (upd_ich core h g)"
  by (auto simp: vgic_ok_def vgic_wf_def tokens_pending_def nth_upd split: if_splits)

lemma ok_upd_hw [nova_inv]: "vgic_ok g \<Longrightarrow> vgic_ok (g\<lparr>vg_hw := (vg_hw g)[i := b]\<rparr>)"
  by (auto simp: vgic_ok_def vgic_wf_def tokens_pending_def)

lemma ok_upd_resident [nova_inv]:
  "vgic_ok g \<Longrightarrow> (\<And>i. r = Some i \<Longrightarrow> i < kMaxVcpus) \<Longrightarrow> vgic_ok (g\<lparr>vg_resident := (vg_resident g)[core := r]\<rparr>)"
  by (auto simp: vgic_ok_def vgic_wf_def tokens_pending_def nth_upd split: if_splits)

lemma ok_upd_bank [nova_inv]:
  "vgic_ok g \<Longrightarrow> dist_wf d \<Longrightarrow> length ts = kNumSpis \<Longrightarrow> bank_pending d ts \<Longrightarrow>
     vgic_ok (g\<lparr>vg_dist := (vg_dist g)[vm := d], vg_tokens := (vg_tokens g)[vm := ts]\<rparr>)"
  by (auto simp: vgic_ok_def vgic_wf_def tokens_pending_def nth_upd split: if_splits)

lemma ok_upd_bank' [nova_inv]:
  "vgic_ok g \<Longrightarrow> dist_wf d \<Longrightarrow> length ts = kNumSpis \<Longrightarrow> bank_pending d ts \<Longrightarrow>
     vgic_ok (g\<lparr>vg_tokens := (vg_tokens g)[vm := ts], vg_dist := (vg_dist g)[vm := d]\<rparr>)"
  by (auto simp: vgic_ok_def vgic_wf_def tokens_pending_def nth_upd split: if_splits)

lemma ok_upd_dist [nova_inv]:
  "vgic_ok g \<Longrightarrow> dist_wf d \<Longrightarrow> bank_pending d (vg_tokens g ! vm) \<Longrightarrow>
     vgic_ok (g\<lparr>vg_dist := (vg_dist g)[vm := d]\<rparr>)"
  by (auto simp: vgic_ok_def vgic_wf_def tokens_pending_def nth_upd split: if_splits)

lemma okD:
  assumes "vgic_ok g"
  shows "i < kMaxVcpus \<Longrightarrow> cpu_wf (vg_cpu g ! i)" "vm < kMaxGuests \<Longrightarrow> dist_wf (vg_dist g ! vm)"
    "vm < kMaxGuests \<Longrightarrow> length (vg_tokens g ! vm) = kNumSpis"
    "vm < kMaxGuests \<Longrightarrow> bank_pending (vg_dist g ! vm) (vg_tokens g ! vm)"
    "core < length (vg_resident g) \<Longrightarrow> ich_wf (vg_ich g ! core)"
    "core < length (vg_resident g) \<Longrightarrow> vg_resident g ! core = Some i \<Longrightarrow> i < kMaxVcpus"
    "vg_lr_count g \<le> kMaxLrs"
  using assms by (auto simp: vgic_ok_def vgic_wf_def tokens_pending_def)

section \<open>Refill and flush\<close>

lemma refill_ok:
  assumes "cpu_wf c" "n \<le> kMaxLrs" "dist_wf d" "length ts = kNumSpis" "bank_pending d ts"
  shows "\<exists>ov c' d' ts'. refill c n (Some d) v m (Some ts) = (ov, c', Some d', Some ts') \<and> cpu_wf c' \<and> dist_wf d'
    \<and> length ts' = kNumSpis \<and> bank_pending d' ts'"
proof -
  obtain ov c' d' ts' where r: "refill c n (Some d) v m (Some ts) = (ov, c', Some d', Some ts')"
    by (rule refill_placed [OF assms(1,2), of d v m ts])
  note P = refill_result(1) [OF assms(1,2) r]
  note W = placed_wf [OF P]
  have "bank_pending d' ts'"
    using P assms(4,5) unfolding placed_def bank_pending_def by (metis et_none_invalid)
  then show ?thesis using r W assms by (simp add: r)
qed

lemma sync_ok [nova_inv]:
  assumes "vgic_ok g" "index < kMaxVcpus"
  shows "vgic_ok (sync_resident_lrs core turn index g)"
  using assms okD(1) [OF assms] by (simp add: sync_resident_lrs_def Let_def ok_upd_cpu)

lemma sync_frame [nova_frame]:
  "vg_resident (sync_resident_lrs core turn index g) = vg_resident g"
  "vg_lr_count (sync_resident_lrs core turn index g) = vg_lr_count g"
  "vg_dist (sync_resident_lrs core turn index g) = vg_dist g"
  "vg_tokens (sync_resident_lrs core turn index g) = vg_tokens g"
  "vg_ich (sync_resident_lrs core turn index g) = vg_ich g"
  by (simp_all add: sync_resident_lrs_def Let_def)

lemma flush_eq:
  assumes "vgic_ok g" "index < kMaxVcpus"
  obtains ov c d ts where
    "refill (vg_cpu (sync_resident_lrs core turn index g) ! index) (vg_lr_count g) (Some (vg_dist g ! vm_of index))
       (vcpu_of index) (gt ! vm_of index) (Some (vg_tokens g ! vm_of index)) = (ov, c, Some d, Some ts)"
    "cpu_wf c" "dist_wf d" "length ts = kNumSpis" "bank_pending d ts"
    "flush gt core turn index g =
      (let g2 = (upd_cpu index c (sync_resident_lrs core turn index g))
             \<lparr>vg_dist := (vg_dist g)[vm_of index := d], vg_tokens := (vg_tokens g)[vm_of index := ts]\<rparr>;
           hcr = kIchHcrBase OR (if ov then kIchHcrUie else 0) in
       if vg_resident g ! core = Some index
       then upd_ich core ((push_lrs (\<lambda>_. True) (vg_lr_count g) (\<lambda>i. cs_lr c ! i) (vg_ich g ! core))\<lparr>ich_hcr := hcr\<rparr>) g2
       else g2\<lparr>vg_hw := (vg_hw g2)[index := (vg_hw g2 ! index)\<lparr>hb_hcr := hcr\<rparr>]\<rparr>)"
proof -
  let ?g1 = "sync_resident_lrs core turn index g"
  have ok: "vgic_ok ?g1" using assms by (rule sync_ok)
  note vm = vm_of_less [OF assms(2)]
  obtain ov c d ts where r:
    "refill (vg_cpu ?g1 ! index) (vg_lr_count ?g1) (Some (vg_dist ?g1 ! vm_of index))
       (vcpu_of index) (gt ! vm_of index) (Some (vg_tokens ?g1 ! vm_of index)) = (ov, c, Some d, Some ts)"
    "cpu_wf c" "dist_wf d" "length ts = kNumSpis" "bank_pending d ts"
    using refill_ok [OF okD(1) [OF ok assms(2)] okD(7) [OF ok] okD(2) [OF ok vm] okD(3) [OF ok vm] okD(4) [OF ok vm]]
    by blast
  show ?thesis
    by (rule that [of ov c d ts]) (use r in \<open>simp_all add: flush_def Let_def sync_frame\<close>)
qed

lemma flush_ok [nova_inv]:
  assumes "vgic_ok g" "index < kMaxVcpus" "core < length (vg_resident g)"
  shows "vgic_ok (flush gt core turn index g)"
proof -
  let ?g1 = "sync_resident_lrs core turn index g"
  show ?thesis
  proof (rule flush_eq [OF assms(1,2), of core turn gt])
    fix ov c d ts assume c: "cpu_wf c" and d: "dist_wf d" "length ts = kNumSpis" "bank_pending d ts"
      and f: "flush gt core turn index g =
      (let g2 = (upd_cpu index c ?g1)\<lparr>vg_dist := (vg_dist g)[vm_of index := d], vg_tokens := (vg_tokens g)[vm_of index := ts]\<rparr>;
           hcr = kIchHcrBase OR (if ov then kIchHcrUie else 0) in
       if vg_resident g ! core = Some index
       then upd_ich core ((push_lrs (\<lambda>_. True) (vg_lr_count g) (\<lambda>i. cs_lr c ! i) (vg_ich g ! core))\<lparr>ich_hcr := hcr\<rparr>) g2
       else g2\<lparr>vg_hw := (vg_hw g2)[index := (vg_hw g2 ! index)\<lparr>hb_hcr := hcr\<rparr>]\<rparr>)"
    define g2 where "g2 = (upd_cpu index c ?g1)\<lparr>vg_dist := (vg_dist g)[vm_of index := d], vg_tokens := (vg_tokens g)[vm_of index := ts]\<rparr>"
    have "vgic_ok g2"
      using ok_upd_bank [OF ok_upd_cpu [OF sync_ok [OF assms(1,2)] c, of core turn index] d]
      by (simp add: g2_def sync_frame)
    then show "vgic_ok (flush gt core turn index g)"
      using okD(5) [OF assms(1,3)] unfolding f Let_def g2_def [symmetric]
      by (auto intro!: ok_upd_ich ok_upd_hw)
  qed
qed

lemma flush_frame [nova_frame]:
  assumes "vgic_ok g" "index < kMaxVcpus"
  shows "vg_resident (flush gt core turn index g) = vg_resident g"
    "vg_lr_count (flush gt core turn index g) = vg_lr_count g"
  by (rule flush_eq [OF assms, of core turn gt], simp add: Let_def sync_frame)+

section \<open>The other operations\<close>

lemma drain_ok [nova_inv]:
  assumes "vgic_ok g" "index < kMaxVcpus" "core < length (vg_resident g)"
  shows "vgic_ok (fst (drain_eois eisr core index g))"
proof (cases "vg_resident g ! core \<noteq> Some index \<or> eisr (vg_ich g ! core) = 0")
  case True
  then show ?thesis using assms(1) by (auto simp: drain_eois_def Let_def)
next
  case False
  let ?h = "vg_ich g ! core" and ?c = "vg_cpu g ! index" let ?e = "eisr ?h"
  let ?c1 = "?c\<lparr>cs_lr := pull_lrs (\<lambda>i. ?e AND push_bit i 1 \<noteq> 0) (min (vg_lr_count g) (length (cs_lr ?c))) ?h (cs_lr ?c)\<rparr>"
  obtain c2 toks cl where hv: "harvest_eois ?c1 ?e (vg_lr_count g) = (c2, toks, cl)" by (rule prod_cases3)
  have c2: "cpu_wf c2" by (rule harvest_cpu_wf [OF _ hv]) (use okD(1) [OF assms(1,2)] in simp)
  have "drain_eois eisr core index g =
    (upd_ich core (push_lrs (\<lambda>i. cl AND push_bit i 1 \<noteq> 0) (min (vg_lr_count g) (length (cs_lr ?c))) (\<lambda>_. 0) ?h)
       (upd_cpu index c2 g), map (\<lambda>t. VirtualEoi index (et_virtual t) t) toks)"
    using False hv by (simp add: drain_eois_def Let_def del: push_bit_of_1)
  moreover have "ich_wf (push_lrs (\<lambda>i. cl AND push_bit i 1 \<noteq> 0) (min (vg_lr_count g) (length (cs_lr ?c))) (\<lambda>_. 0) ?h)"
    using okD(5) [OF assms(1,3)] by simp
  from ok_upd_ich [OF ok_upd_cpu [OF assms(1) c2] this] have
    "vgic_ok (upd_ich core (push_lrs (\<lambda>i. cl AND push_bit i 1 \<noteq> 0) (min (vg_lr_count g) (length (cs_lr ?c))) (\<lambda>_. 0) ?h)
       (upd_cpu index c2 g))" .
  ultimately show ?thesis by (simp only: fst_conv)
qed

lemma drain_frame [nova_frame]:
  "vg_resident (fst (drain_eois eisr core index g)) = vg_resident g"
  "vg_lr_count (fst (drain_eois eisr core index g)) = vg_lr_count g"
  by (simp_all add: drain_eois_def Let_def split: prod.splits)

lemma bit_pending_token_mask: "bit (pending_token_mask ts) k \<longleftrightarrow> k < length ts \<and> k < 32 \<and> et_valid (ts ! k)"
  by (simp add: pending_token_mask_def bit_flag_loop del: push_bit_of_1)

text \<open>A guest write keeps the pending bit of every SPI whose token is live.\<close>

lemma dist_write_keeps:
  "bit (dist_pending d) k \<Longrightarrow> off = kGicdIcpendr1 \<longrightarrow> bit keep k \<Longrightarrow> bit (dist_pending (fst (dist_write d off sz v keep))) k"
proof -
  assume a: "bit (dist_pending d) k" "off = kGicdIcpendr1 \<longrightarrow> bit keep k"
  define Q where "Q = (\<lambda>p :: DistState \<times> WriteResult. bit (dist_pending (fst p)) k)"
  have "Q (dist_write d off sz v keep)"
  proof (cases "off = kGicdIcpendr1")
    case True
    then have "bit keep k" using a(2) by simp
    then show ?thesis
      unfolding dist_write_def Let_def
      by (intro if_both [where P = Q]) (use a(1) in \<open>simp_all add: Q_def bit_or_iff\<close>)
  next
    case False
    show ?thesis
      unfolding dist_write_def Let_def if_not_P [OF False]
      by (intro if_both [where P = Q]) (use a(1) in \<open>simp_all add: Q_def bit_or_iff\<close>)
  qed
  then show ?thesis by (simp add: Q_def)
qed

lemma dist_write_bank:
  assumes "bank_pending d ts" "length ts = kNumSpis"
  shows "bank_pending (fst (dist_write d off sz v (if off = kGicdIcpendr1 then pending_token_mask ts else 0))) ts"
  using assms unfolding bank_pending_def
  by (intro allI impI conjI dist_write_keeps) (auto simp: bit_pending_token_mask kNumSpis_def)

lemma dist_mmio_ok [nova_inv]:
  assumes "vgic_ok g" "core < length (vg_resident g)"
  shows "vgic_ok (fst (snd (dist_mmio gt core call off g)))"
proof (cases "vg_resident g ! core")
  case (Some s)
  note vm = vm_of_less [OF okD(6) [OF assms Some]]
  let ?keep = "if off = kGicdIcpendr1 then pending_token_mask (vg_tokens g ! vm_of s) else 0"
  have w: "vgic_ok (g\<lparr>vg_dist := (vg_dist g)[vm_of s := fst (dist_write (vg_dist g ! vm_of s) off (mc_size call) (mc_value call) ?keep)]\<rparr>)"
    by (intro ok_upd_dist dist_write_wf dist_write_bank okD(2-4) [OF assms(1)] assms(1) vm)
  then show ?thesis using assms(1) Some by (simp add: dist_mmio_def Let_def split_beta)
qed (use assms in \<open>simp add: dist_mmio_def\<close>)

lemma redist_mmio_ok [nova_inv]:
  assumes "vgic_ok g"
  shows "vgic_ok (fst (snd (redist_mmio gt core call off g)))"
proof (cases "vg_resident g ! core")
  case (Some s)
  show ?thesis
  proof (cases "decode_redist_frame off (gt ! vm_of s)")
    case (Some f)
    let ?i = "slot_of (vm_of s) (fr_vcpu f)"
    let ?c = "(vg_cpu g ! ?i)\<lparr>cs_redist := fst (redist_write (cs_redist (vg_cpu g ! ?i)) (fr_offset f)
            (mc_size call) (mc_value call))\<rparr>"
    have "vgic_ok (upd_cpu ?i ?c g)"
    proof (cases "?i < kMaxVcpus")
      case True
      from okD(1) [OF assms this] have "cpu_wf ?c" by (simp add: cpu_wf_def redist_write_wf)
      then show ?thesis by (rule ok_upd_cpu [OF assms])
    next
      case False
      then have "length (vg_cpu g) \<le> ?i" using assms by (simp add: vgic_ok_def vgic_wf_def)
      then have "(vg_cpu g)[?i := ?c] = vg_cpu g" by (rule list_update_beyond)
      then show ?thesis using assms by simp
    qed
    then show ?thesis using assms Some \<open>vg_resident g ! core = Some s\<close>
      by (simp add: redist_mmio_def Let_def split_beta)
  qed (use assms Some in \<open>simp add: redist_mmio_def Let_def\<close>)
qed (use assms in \<open>simp add: redist_mmio_def\<close>)

lemma handle_mmio_ok [nova_inv]:
  assumes "vgic_ok g" "core < length (vg_resident g)"
  shows "vgic_ok (fst (snd (handle_mmio gt core call g)))"
  using assms by (simp add: handle_mmio_def dist_mmio_ok redist_mmio_ok)

lemma cpu_state_reset_wf: "cpu_wf cpu_state_reset" "cpu_wf (cpu_state_reset\<lparr>cs_synced_at := t\<rparr>)"
  using reset_wf by (simp_all add: cpu_wf_def cpu_state_reset_def)

lemma cpu_reset_ok [nova_inv]: "vgic_ok g \<Longrightarrow> vgic_ok (cpu_reset turn index g)"
  unfolding cpu_reset_def
  using ok_upd_hw [OF ok_upd_cpu [OF _ cpu_state_reset_wf(2)], of g index turn index] by simp

lemma cpu_save_ok [nova_inv]:
  assumes "vgic_ok g" "index < kMaxVcpus" "core < length (vg_resident g)"
  shows "vgic_ok (fst (cpu_save eisr core turn index g))"
proof -
  obtain g1 ev where d: "drain_eois eisr core index g = (g1, ev)" by (cases "drain_eois eisr core index g")
  have g1: "vgic_ok g1" using drain_ok [OF assms] d by (metis fst_conv)
  let ?c = "(vg_cpu g1 ! index)\<lparr>cs_lr := pull_lrs (\<lambda>_. True) (vg_lr_count g1) (vg_ich g1 ! core) (cs_lr (vg_cpu g1 ! index)),
      cs_synced_at := turn\<rparr>"
  have "cpu_wf ?c" using okD(1) [OF g1 assms(2)] by simp
  from ok_upd_hw [OF ok_upd_cpu [OF g1 this]] show ?thesis by (simp add: cpu_save_def Let_def d)
qed

lemma cpu_restore_ok [nova_inv]:
  assumes "vgic_ok g" "index < kMaxVcpus" "core < length (vg_resident g)"
  shows "vgic_ok (cpu_restore gt core turn index g)"
proof -
  let ?g1 = "flush gt core turn index g"
  let ?h = "(push_lrs (\<lambda>_. True) (vg_lr_count ?g1) (\<lambda>i. cs_lr (vg_cpu ?g1 ! index) ! i) (vg_ich ?g1 ! core))
    \<lparr>ich_vmcr := hb_vmcr (vg_hw ?g1 ! index), ich_hcr := hb_hcr (vg_hw ?g1 ! index)\<rparr>"
  note ok = flush_ok [OF assms, of gt turn]
  have "ich_wf ?h" using okD(5) [OF ok, of core] assms(3) flush_frame [OF assms(1,2)] by simp
  from ok_upd_resident [OF ok_upd_ich [OF ok this, of core], of "Some index" core] assms(2)
  show ?thesis by (simp add: cpu_restore_def Let_def)
qed

lemma vacate_ok [nova_inv]: "vgic_ok g \<Longrightarrow> vgic_ok (vacate core g)"
  unfolding vacate_def by (rule ok_upd_resident) simp_all

lemma post_private_ok [nova_inv]:
  assumes "vgic_ok g" "index < kMaxVcpus" "core < length (vg_resident g)"
  shows "vgic_ok (snd (post_private gt core turn index vintid g))"
proof -
  let ?c = "vg_cpu g ! index"
  have "cpu_wf (?c\<lparr>cs_redist := (cs_redist ?c)\<lparr>rd_pending := rd_pending (cs_redist ?c) OR push_bit vintid 1\<rparr>\<rparr>)"
    using okD(1) [OF assms(1,2)] by (simp add: cpu_wf_def redist_wf_def)
  from flush_ok [OF ok_upd_cpu [OF assms(1) this] assms(2), of core index] assms(1,3)
  show ?thesis by (simp add: post_private_def Let_def)
qed

lemma raise_spi_ok [nova_inv]:
  assumes "vgic_ok g" "vm < kMaxGuests"
  shows "vgic_ok (raise_spi vm k g)"
  unfolding raise_spi_def Let_def
proof (rule ok_upd_dist [OF assms(1)])
  show "dist_wf ((vg_dist g ! vm)\<lparr>dist_pending := dist_pending (vg_dist g ! vm) OR push_bit k 1\<rparr>)"
    using okD(2) [OF assms] by (simp add: dist_wf_def)
  show "bank_pending ((vg_dist g ! vm)\<lparr>dist_pending := dist_pending (vg_dist g ! vm) OR push_bit k 1\<rparr>) (vg_tokens g ! vm)"
    using okD(4) [OF assms] by (simp add: bank_pending_def bit_or_iff)
qed

lemma post_spi_ok [nova_inv]:
  "vgic_ok g \<Longrightarrow> gt_wf gt \<Longrightarrow> vgic_ok (fst (snd (post_spi gt vm vintid g)))"
  by (auto simp: post_spi_def Let_def gt_wf_def raise_spi_ok)

lemma post_spi_tracked_ok [nova_inv]:
  assumes "vgic_ok g" "gt_wf gt"
  shows "vgic_ok (fst (snd (post_spi_tracked gt vm vintid phys gen g)))"
proof (cases "vintid < kNumPrivate \<or> vintid \<ge> kMaxIntid \<or> vm \<ge> length gt \<or> gen = 0
    \<or> et_valid (vg_tokens g ! vm ! (vintid - kNumPrivate))")
  case True
  then show ?thesis using assms(1) by (auto simp: post_spi_tracked_def Let_def)
next
  case False
  let ?k = "vintid - kNumPrivate"
  let ?t = "\<lparr>et_virtual = of_nat vintid, et_physical = phys, et_generation = gen\<rparr>"
  let ?ts = "(vg_tokens g ! vm)[?k := ?t]"
  let ?d = "(vg_dist g ! vm)\<lparr>dist_pending := dist_pending (vg_dist g ! vm) OR push_bit ?k 1\<rparr>"
  have vm: "vm < kMaxGuests" using False assms(2) by (simp add: gt_wf_def)
  note len = okD(3) [OF assms(1) vm]
  have k: "?k < kNumSpis" "?k + kNumPrivate = vintid" using False by (auto simp: kMaxIntid_def)
  have "bank_pending ?d ?ts"
    unfolding bank_pending_def
  proof (intro allI impI)
    fix j assume j: "j < kNumSpis" "et_valid (?ts ! j)"
    show "bit (dist_pending ?d) j \<and> et_virtual (?ts ! j) = of_nat (j + kNumPrivate)"
    proof (cases "j = ?k")
      case True
      have "bit (push_bit ?k 1 :: u32) ?k" using k(1) by (simp only: bit_single) (simp add: kNumSpis_def)
      then show ?thesis using k len True j(1) by (simp add: bit_or_iff)
    next
      case False
      then show ?thesis using okD(4) [OF assms(1) vm] j by (simp add: bank_pending_def bit_or_iff)
    qed
  qed
  from ok_upd_bank' [OF assms(1) _ _ this, of vm] okD(2,3) [OF assms(1) vm]
  have "vgic_ok (g\<lparr>vg_tokens := (vg_tokens g)[vm := ?ts], vg_dist := (vg_dist g)[vm := ?d]\<rparr>)"
    by (simp add: dist_wf_def)
  then show ?thesis using False by (simp add: post_spi_tracked_def raise_spi_def Let_def)
qed

lemma reevaluate_ok [nova_inv]:
  assumes "vgic_ok g" "index < kMaxVcpus" "core < length (vg_resident g)"
  shows "vgic_ok (snd (reevaluate gt core turn index g))" "vgic_ok (snd (has_deliverable gt core turn index g))"
  using assms flush_ok [OF assms, of gt turn] flush_frame [OF assms(1,2)]
  by (simp_all add: reevaluate_def has_deliverable_def Let_def sync_ok)

lemma vm_reset_ok [nova_inv]: "vgic_ok g \<Longrightarrow> vgic_ok (vm_reset vm g)"
  unfolding vm_reset_def by (rule ok_upd_bank) (simp_all add: reset_wf bank_pending_def)

lemma handle_irq_ok [nova_inv]:
  assumes "vgic_ok g" "core < length (vg_resident g)" "handle_irq eisr gt core turn intid h g = Some (h', g', ev)"
  shows "vgic_ok g'"
proof (cases "h \<or> intid \<noteq> kMaintenanceIntid")
  case True
  then show ?thesis using assms by (auto simp: handle_irq_def split: if_splits)
next
  case False
  then obtain r where r: "vg_resident g ! core = Some r"
    using assms(3) by (auto simp: handle_irq_def split: option.splits)
  note i = okD(6) [OF assms(1,2) r]
  have "g' = flush gt core turn r (fst (drain_eois eisr core r g))"
    using False assms(3) r by (auto simp: handle_irq_def split_beta)
  then show ?thesis using flush_ok [OF drain_ok [OF assms(1) i assms(2)] i] assms(2) by (simp add: drain_frame)
qed

section \<open>The component as a step relation\<close>

text \<open>
  One step is one call into the component on some core, or the guest of a core
  moving the hardware list registers (acknowledging, deactivating, changing its
  ICV view) in any way.
\<close>

inductive vgic_step :: "(Ich \<Rightarrow> u64) \<Rightarrow> nat list \<Rightarrow> Vgic \<Rightarrow> Vgic \<Rightarrow> bool" for eisr gt where
  guest_runs: "ich_wf h \<Longrightarrow> vgic_step eisr gt g (upd_ich core h g)"
| mmio: "core < length (vg_resident g) \<Longrightarrow> handle_mmio gt core call g = (call', g', ev) \<Longrightarrow> vgic_step eisr gt g g'"
| irq: "core < length (vg_resident g) \<Longrightarrow> handle_irq eisr gt core turn intid False g = Some (h, g', ev) \<Longrightarrow>
    vgic_step eisr gt g g'"
| reset: "index < kMaxVcpus \<Longrightarrow> vgic_step eisr gt g (cpu_reset turn index g)"
| save: "index < kMaxVcpus \<Longrightarrow> core < length (vg_resident g) \<Longrightarrow> cpu_save eisr core turn index g = (g', ev) \<Longrightarrow>
    vgic_step eisr gt g g'"
| restore: "index < kMaxVcpus \<Longrightarrow> core < length (vg_resident g) \<Longrightarrow>
    vgic_step eisr gt g (cpu_restore gt core turn index g)"
| leave: "vgic_step eisr gt g (vacate core g)"
| ppi: "index < kMaxVcpus \<Longrightarrow> core < length (vg_resident g) \<Longrightarrow>
    post_private gt core turn index vintid g = (ok, g') \<Longrightarrow> vgic_step eisr gt g g'"
| spi: "gt_wf gt \<Longrightarrow> post_spi gt vm vintid g = (ok, g', ev) \<Longrightarrow> vgic_step eisr gt g g'"
| tracked: "gt_wf gt \<Longrightarrow> post_spi_tracked gt vm vintid phys gen g = (ok, g', ev) \<Longrightarrow> vgic_step eisr gt g g'"
| reeval: "index < kMaxVcpus \<Longrightarrow> core < length (vg_resident g) \<Longrightarrow>
    reevaluate gt core turn index g = (d, g') \<Longrightarrow> vgic_step eisr gt g g'"
| query: "index < kMaxVcpus \<Longrightarrow> core < length (vg_resident g) \<Longrightarrow>
    has_deliverable gt core turn index g = (d, g') \<Longrightarrow> vgic_step eisr gt g g'"
| wipe: "vm < kMaxGuests \<Longrightarrow> vgic_step eisr gt g (vm_reset vm g)"

text \<open>The state at the end of cold boot, over cores whose list registers hold anything.\<close>

definition vgic_static :: "Ich list \<Rightarrow> Vgic" where
  "vgic_static hs = \<lparr>vg_cpu = replicate kMaxVcpus cpu_state_reset,
     vg_hw = replicate kMaxVcpus \<lparr>hb_vmcr = 0, hb_hcr = kIchHcrBase\<rparr>,
     vg_resident = replicate (length hs) (Some 0), vg_lr_count = 0, vg_vtr = 0, vg_vmcr_reset = 0,
     vg_dist = replicate kMaxGuests dist_reset, vg_tokens = replicate kMaxGuests (replicate kNumSpis et_none),
     vg_ich = hs\<rparr>"

definition vgic_boot :: "Vgic \<Rightarrow> bool" where
  "vgic_boot g \<longleftrightarrow> (\<exists>hs vtr core. list_all ich_wf hs \<and> core < length hs \<and> g = vgic_init vtr core (vgic_static hs))"

lemma vgic_boot_ok: "vgic_boot g \<Longrightarrow> vgic_ok g"
  using cpu_state_reset_wf reset_wf
  by (auto simp: vgic_boot_def vgic_init_def init_cpu_def vgic_static_def vgic_ok_def vgic_wf_def tokens_pending_def
      bank_pending_def list_all_length nth_upd Let_def virtual_interface_init_def ich_wf_def [symmetric])

lemma vgic_step_ok: "vgic_step eisr gt g g' \<Longrightarrow> vgic_ok g \<Longrightarrow> vgic_ok g'"
proof (induction rule: vgic_step.induct)
  case (mmio core g call call' g' ev)
  then show ?case using handle_mmio_ok [of g core gt call] by simp
next
  case (irq core g turn intid h g' ev)
  then show ?case using handle_irq_ok by blast
next
  case (save index core g turn g' ev)
  then show ?case using cpu_save_ok [of g index core eisr turn] by simp
next
  case (ppi index core g turn vintid ok g')
  then show ?case using post_private_ok [of g index core gt turn vintid] by simp
next
  case (spi vm vintid g ok g' ev)
  then show ?case using post_spi_ok [of g gt vm vintid] by simp
next
  case (tracked vm vintid phys gen g ok g' ev)
  then show ?case using post_spi_tracked_ok [of g gt vm vintid phys gen] by simp
next
  case (reeval index core g turn d g')
  then show ?case using reevaluate_ok(1) [of g index core gt turn] by simp
next
  case (query index core g turn d g')
  then show ?case using reevaluate_ok(2) [of g index core gt turn] by simp
qed (simp_all add: ok_upd_ich cpu_reset_ok cpu_restore_ok vacate_ok vm_reset_ok)

interpretation vgicm: invariant_machine vgic_boot "vgic_step eisr gt" vgic_ok for eisr gt
  by unfold_locales (auto intro: vgic_boot_ok vgic_step_ok)


text \<open>One core, one tracked SPI.\<close>

definition one_core :: Vgic where
  "one_core = vgic_init 3 0 (vgic_static [\<lparr>ich_lr = replicate 16 0, ich_vmcr = 0, ich_hcr = 0\<rparr>])"

definition one_spi :: Vgic where "one_spi = fst (snd (post_spi_tracked [1] 0 32 50 7 one_core))"

lemma one_core_boot: "vgic_boot one_core"
  unfolding vgic_boot_def one_core_def
  by (rule exI [of _ "[\<lparr>ich_lr = replicate 16 0, ich_vmcr = 0, ich_hcr = 0\<rparr>]"], rule exI [of _ 3], rule exI [of _ 0])
    (simp add: ich_wf_def)


section \<open>The fate of the EoI tokens\<close>

definition live :: "EoiToken list \<Rightarrow> EoiToken multiset" where
  "live ts = filter_mset et_valid (mset ts)"

lemma live_update:
  assumes "s < length ts"
  shows "live (ts[s := t]) + (if et_valid (ts ! s) then {#ts ! s#} else {#})
    = live ts + (if et_valid t then {#t#} else {#})"
proof -
  have "add_mset (ts ! s) (mset (ts[s := t])) = add_mset t (mset ts)"
    using assms by (simp add: mset_update)
  then have "filter_mset et_valid (add_mset (ts ! s) (mset (ts[s := t]))) = filter_mset et_valid (add_mset t (mset ts))"
    by simp
  then show ?thesis by (simp add: live_def split: if_splits)
qed

lemma place_live:
  assumes "place b p s (c, Some d, Some ts) = (c', Some d', Some ts')"
    and "s < length (cs_token c)" "\<not> et_valid (cs_token c ! s)" "b < kMaxIntid" "length ts = kNumSpis"
  shows "live (cs_token c') + live ts' = live (cs_token c) + live ts" "length ts' = kNumSpis"
    "length (cs_token c') = length (cs_token c)" "j \<noteq> s \<Longrightarrow> cs_token c' ! j = cs_token c ! j"
proof -
  have c': "cs_token c' = (cs_token c)[s := spi_token ts b]"
    "ts' = (if b < kNumPrivate then ts else ts[b - kNumPrivate := et_none])"
    using assms(1) unfolding place_Some by auto
  then show "length ts' = kNumSpis" "length (cs_token c') = length (cs_token c)"
    "j \<noteq> s \<Longrightarrow> cs_token c' ! j = cs_token c ! j" using assms(5) by simp_all
  have slot: "live (cs_token c') = live (cs_token c) + (if et_valid (spi_token ts b) then {#spi_token ts b#} else {#})"
    using live_update [OF assms(2), of "spi_token ts b"] assms(3) by (simp add: c')
  show "live (cs_token c') + live ts' = live (cs_token c) + live ts"
  proof (cases "b < kNumPrivate")
    case True
    then show ?thesis using slot by (simp add: c' spi_token_def)
  next
    case False
    then have "b - kNumPrivate < length ts" using assms(4,5) by (simp add: kMaxIntid_def)
    from live_update [OF this, of et_none] False show ?thesis using slot
      by (simp add: c' spi_token_def split: if_splits)
  qed
qed

lemma place_all_live:
  assumes "distinct (map snd ps)" "\<forall>(b, s) \<in> set ps. b < kMaxIntid \<and> s < length (cs_token c) \<and> \<not> et_valid (cs_token c ! s)"
    and "length ts = kNumSpis" "place_all prio ps (c, Some d, Some ts) = (c', Some d', Some ts')"
  shows "live (cs_token c') + live ts' = live (cs_token c) + live ts"
  using assms
proof (induction ps arbitrary: c d ts)
  case (Cons p ps)
  obtain b s where p: "p = (b, s)" by (cases p)
  obtain c1 d1 ts1 where pl: "place b (prio b) s (c, Some d, Some ts) = (c1, Some d1, Some ts1)"
    using place_Some by blast
  have b: "s < length (cs_token c)" "\<not> et_valid (cs_token c ! s)" "b < kMaxIntid" using Cons.prems(2) by (auto simp: p)
  note L = place_live [OF pl b Cons.prems(3)]
  have rest: "\<forall>(b, s) \<in> set ps. b < kMaxIntid \<and> s < length (cs_token c1) \<and> \<not> et_valid (cs_token c1 ! s)"
  proof (clarify, intro conjI)
    fix b' s' assume m: "(b', s') \<in> set ps"
    then have n: "s' \<noteq> s" using Cons.prems(1) p by force
    have o: "b' < kMaxIntid" "s' < length (cs_token c)" "\<not> et_valid (cs_token c ! s')"
      using Cons.prems(2) m by auto
    then show "b' < kMaxIntid" "s' < length (cs_token c1)" "\<not> et_valid (cs_token c1 ! s')"
      using L(3) L(4) [OF n] by simp_all
  qed
  show ?case
    using Cons.IH [OF _ rest L(2)] Cons.prems(1,4) L(1) by (simp add: p pl)
qed simp

lemma refill_live:
  assumes "cpu_wf c" "n \<le> kMaxLrs" "refill c n (Some d) v m (Some ts) = (ov, c', Some d', Some ts')"
    and "length ts = kNumSpis" "\<forall>s < n. et_valid (cs_token c ! s) \<longrightarrow> lr_in_flight (cs_lr c ! s)"
  shows "live (cs_token c') + live ts' = live (cs_token c) + live ts"
proof -
  let ?ps = "refill_pairs c n d v m" and ?a = "armed c n d v m"
  have len: "length (cs_token c) = kMaxLrs" using assms(1) by (simp add: cpu_wf_def)
  have ps: "distinct (map snd ?ps)" by (simp add: refill_pairs_def map_snd_zip_take free_slots_def)
  have in_ps: "b < kMaxIntid \<and> s < length (cs_token ?a) \<and> \<not> et_valid (cs_token ?a ! s)" if "(b, s) \<in> set ?ps" for b s
    using refill_pairs_in [OF that] wants_less assms(2,5) len by auto
  have "refill c n (Some d) v m (Some ts) = (ov, place_all (candidate_prio c (Some d)) ?ps (?a, Some d, Some ts))"
    using refill_as_place_all [OF assms(1,2), of d v m ts] assms(3) by simp
  then have "place_all (candidate_prio c (Some d)) ?ps (?a, Some d, Some ts) = (c', Some d', Some ts')"
    using assms(3) by simp
  from place_all_live [OF ps _ assms(4) this] in_ps show ?thesis by auto
qed

lemma harvest_slots:
  assumes "foldl (harvest_slot e) (c, t0, 0) [0 ..< n] = (c', toks, cl)" "n \<le> length (cs_token c)" "n \<le> 64"
  shows "live (cs_token c') + mset toks = live (cs_token c) + mset t0
    \<and> (\<forall>s. bit cl s \<longleftrightarrow> s < n \<and> bit e s)
    \<and> (\<forall>s. cs_token c' ! s = (if s < n \<and> bit e s then et_none else cs_token c ! s))
    \<and> length (cs_token c') = length (cs_token c)"
  using assms
proof (induction n arbitrary: c' toks cl)
  case 0
  then show ?case by simp
next
  case (Suc n)
  obtain c1 t1 m1 where s: "foldl (harvest_slot e) (c, t0, 0) [0 ..< n] = (c1, t1, m1)" by (rule prod_cases3)
  then have IH: "live (cs_token c1) + mset t1 = live (cs_token c) + mset t0"
      "\<forall>s. bit m1 s \<longleftrightarrow> s < n \<and> bit e s"
      "\<forall>s. cs_token c1 ! s = (if s < n \<and> bit e s then et_none else cs_token c ! s)"
      "length (cs_token c1) = length (cs_token c)"
    using Suc.IH [OF s] Suc.prems(2,3) by simp_all
  have step: "harvest_slot e (c1, t1, m1) n = (c', toks, cl)" using Suc.prems(1) s by simp
  show ?case
  proof (cases "bit e n")
    case False
    then have "e AND push_bit n 1 = 0" using and_exp_nonzero [of e n] by blast
    then have "c' = c1" "toks = t1" "cl = m1"
      using step by (simp_all add: harvest_slot_def del: push_bit_of_1)
    then show ?thesis using IH False by (auto simp: less_Suc_eq)
  next
    case True
    then have ne: "e AND push_bit n 1 \<noteq> 0" by (simp only: and_exp_nonzero)
    have n: "n < length (cs_token c1)" using IH(4) Suc.prems(2) by simp
    have r: "cs_token c' = (cs_token c1)[n := et_none]" "cl = m1 OR push_bit n 1"
      "toks = (if et_valid (cs_token c1 ! n) then t1 @ [cs_token c1 ! n] else t1)"
      using step ne n by (auto simp: harvest_slot_def Let_def take_eoi_token_def split: if_splits simp del: push_bit_of_1)
    have "live (cs_token c') + mset toks = live (cs_token c1) + mset t1"
      using live_update [OF n, of et_none] by (auto simp: r split: if_splits)
    moreover have "\<forall>s. bit cl s \<longleftrightarrow> s < Suc n \<and> bit e s"
      unfolding r(2) bit_set_single using IH(2) True Suc.prems(3) by (auto simp: less_Suc_eq)
    moreover have "\<forall>s. cs_token c' ! s = (if s < Suc n \<and> bit e s then et_none else cs_token c ! s)"
      unfolding r(1) using IH(3) n True by (auto simp: nth_list_update less_Suc_eq)
    ultimately show ?thesis using IH(1,4) r(1) by simp
  qed
qed

text \<open>The tokens a VM still owes an EOI for, as one vCPU and the bank hold them.\<close>

definition owed :: "nat \<Rightarrow> Vgic \<Rightarrow> EoiToken multiset" where
  "owed index g = live (cs_token (vg_cpu g ! index)) + live (vg_tokens g ! vm_of index)"

definition emitted :: "VgicEvent list \<Rightarrow> EoiToken multiset" where
  "emitted ev = mset (concat (map (\<lambda>e. case e of VirtualEoi _ _ t \<Rightarrow> [t] | _ \<Rightarrow> []) ev))"

text \<open>No tokened slot of the shadow has been retired by the guest.\<close>

definition settled :: "nat \<Rightarrow> Vgic \<Rightarrow> nat \<Rightarrow> bool" where
  "settled core g index \<longleftrightarrow> (\<forall>s < vg_lr_count g. et_valid (cs_token (vg_cpu g ! index) ! s) \<longrightarrow>
     lr_in_flight (if vg_resident g ! core = Some index then read_lr (vg_ich g ! core) s
                   else cs_lr (vg_cpu g ! index) ! s))"

lemma flush_owed:
  assumes "vgic_ok g" "index < kMaxVcpus" "settled core g index"
  shows "owed index (flush gt core turn index g) = owed index g"
proof (rule flush_eq [OF assms(1,2), of core turn gt])
  let ?g1 = "sync_resident_lrs core turn index g"
  let ?c1 = "vg_cpu ?g1 ! index"
  note vm = vm_of_less [OF assms(2)]
  note ok1 = sync_ok [OF assms(1,2), of core turn]
  have len: "index < length (vg_cpu g)" using assms(1,2) by (simp add: vgic_ok_def vgic_wf_def)
  have lenv: "vm_of index < length (vg_tokens g)" using assms(1) vm by (simp add: vgic_ok_def vgic_wf_def)
  have tok: "cs_token ?c1 = cs_token (vg_cpu g ! index)"
    using len by (simp add: sync_resident_lrs_def Let_def)
  have lr: "\<forall>s < vg_lr_count g. et_valid (cs_token ?c1 ! s) \<longrightarrow> lr_in_flight (cs_lr ?c1 ! s)"
  proof (intro allI impI)
    fix s assume s: "s < vg_lr_count g" "et_valid (cs_token ?c1 ! s)"
    then have "s < length (cs_lr (vg_cpu g ! index))"
      using okD(1) [OF assms(1,2)] okD(7) [OF assms(1)] by (simp add: cpu_wf_def)
    then show "lr_in_flight (cs_lr ?c1 ! s)"
      using assms(3) s tok len by (simp add: settled_def sync_resident_lrs_def Let_def pull_lrs_nth split: if_splits)
  qed
  fix ov c d ts
  assume r: "refill ?c1 (vg_lr_count g) (Some (vg_dist g ! vm_of index))
       (vcpu_of index) (gt ! vm_of index) (Some (vg_tokens g ! vm_of index)) = (ov, c, Some d, Some ts)"
    and f: "flush gt core turn index g =
      (let g2 = (upd_cpu index c ?g1)
             \<lparr>vg_dist := (vg_dist g)[vm_of index := d], vg_tokens := (vg_tokens g)[vm_of index := ts]\<rparr>;
           hcr = kIchHcrBase OR (if ov then kIchHcrUie else 0) in
       if vg_resident g ! core = Some index
       then upd_ich core ((push_lrs (\<lambda>_. True) (vg_lr_count g) (\<lambda>i. cs_lr c ! i) (vg_ich g ! core))\<lparr>ich_hcr := hcr\<rparr>) g2
       else g2\<lparr>vg_hw := (vg_hw g2)[index := (vg_hw g2 ! index)\<lparr>hb_hcr := hcr\<rparr>]\<rparr>)"
  have "live (cs_token c) + live ts = live (cs_token ?c1) + live (vg_tokens g ! vm_of index)"
    by (rule refill_live [OF okD(1) [OF ok1 assms(2)] okD(7) [OF assms(1)] r okD(3) [OF assms(1) vm] lr])
  moreover have "vg_cpu (flush gt core turn index g) ! index = c" "vg_tokens (flush gt core turn index g) ! vm_of index = ts"
    unfolding f using len lenv by (simp_all add: Let_def sync_resident_lrs_def)
  ultimately show "owed index (flush gt core turn index g) = owed index g" by (simp add: owed_def tok)
qed

text \<open>The hardware after a drain: the slots the guest retired are zero, the others untouched.\<close>

lemma push_lrs_nth:
  assumes "ich_wf h"
  shows "read_lr (push_lrs P n v h) s = (if s < n \<and> s < 16 \<and> P s then v s else read_lr h s)"
proof -
  have "ich_wf (push_lrs P k v h)" for k using assms by simp
  then show ?thesis
  proof (induction n)
    case (Suc n)
    have "push_lrs P (Suc n) v h = (if P n then write_lr n (v n) (push_lrs P n v h) else push_lrs P n v h)"
      by (simp add: push_lrs_def)
    then show ?case using Suc by (auto simp: write_lr_def read_lr_def ich_wf_def less_Suc_eq nth_list_update)
  qed (simp add: push_lrs_def)
qed

lemma drain_settles:
  assumes "vgic_ok g" "core < length (vg_resident g)" "vg_resident g ! core = Some r"
    and "\<forall>s < vg_lr_count g. et_valid (cs_token (vg_cpu g ! r) ! s) \<longrightarrow>
      bit (eisr (vg_ich g ! core)) s \<or> lr_in_flight (read_lr (vg_ich g ! core) s)"
    and "drain_eois eisr core r g = (g1, ev)"
  shows "settled core g1 r" "owed r g1 + emitted ev = owed r g"
proof -
  let ?h = "vg_ich g ! core" and ?c = "vg_cpu g ! r" and ?n = "vg_lr_count g" let ?e = "eisr ?h"
  note i = okD(6) [OF assms(1-3)]
  have len: "length (cs_lr ?c) = kMaxLrs" "length (cs_token ?c) = kMaxLrs"
    using okD(1) [OF assms(1) i] by (simp_all add: cpu_wf_def)
  have n: "?n \<le> kMaxLrs" "min ?n (length (cs_lr ?c)) = ?n" using okD(7) [OF assms(1)] len by simp_all
  have r: "r < length (vg_cpu g)" "core < length (vg_ich g)"
    using assms(1,2) i by (simp_all add: vgic_ok_def vgic_wf_def)
  have "settled core g1 r \<and> owed r g1 + emitted ev = owed r g"
  proof (cases "?e = 0")
    case True
    then have "g1 = g" "ev = []" using assms(3,5) by (simp_all add: drain_eois_def Let_def)
    then show ?thesis using assms(3,4) True by (simp add: settled_def emitted_def)
  next
    case False
    let ?c1 = "?c\<lparr>cs_lr := pull_lrs (\<lambda>i. ?e AND push_bit i 1 \<noteq> 0) ?n ?h (cs_lr ?c)\<rparr>"
    obtain c2 toks cl where hv: "harvest_eois ?c1 ?e ?n = (c2, toks, cl)" by (rule prod_cases3)
    have fold: "foldl (harvest_slot ?e) (?c1, [], 0) [0 ..< ?n] = (c2, toks, cl)"
      using hv n by (simp add: harvest_eois_def)
    have sl: "live (cs_token c2) + mset toks = live (cs_token ?c)" "\<forall>s. bit cl s \<longleftrightarrow> s < ?n \<and> bit ?e s"
      "\<forall>s. cs_token c2 ! s = (if s < ?n \<and> bit ?e s then et_none else cs_token ?c ! s)"
      using harvest_slots [OF fold] n(1) len by (auto simp: kMaxLrs_def)
    let ?h1 = "push_lrs (\<lambda>i. cl AND push_bit i 1 \<noteq> 0) ?n (\<lambda>_. 0) ?h"
    have d: "g1 = upd_ich core ?h1 (upd_cpu r c2 g)" "ev = map (\<lambda>t. VirtualEoi r (et_virtual t) t) toks"
      using assms(3,5) False hv n(2) by (simp_all add: drain_eois_def Let_def del: push_bit_of_1)
    have "emitted ev = mset toks" unfolding d(2) emitted_def by (induction toks) simp_all
    then have "owed r g1 + emitted ev = owed r g" using sl(1) r by (simp add: d(1) owed_def)
    moreover have "settled core g1 r"
      unfolding settled_def
    proof (intro allI impI)
      fix s assume s: "s < vg_lr_count g1" "et_valid (cs_token (vg_cpu g1 ! r) ! s)"
      then have "\<not> bit ?e s" "et_valid (cs_token ?c ! s)" "s < ?n"
        using sl(3) r by (auto simp: d(1) split: if_splits)
      moreover from this have "\<not> bit cl s" using sl(2) by simp
      then have "read_lr ?h1 s = read_lr ?h s"
        using push_lrs_nth [OF okD(5) [OF assms(1,2)]] and_exp_nonzero [of cl s] by simp
      ultimately show "lr_in_flight (if vg_resident g1 ! core = Some r then read_lr (vg_ich g1 ! core) s
          else cs_lr (vg_cpu g1 ! r) ! s)"
        using assms(3,4) r by (auto simp: d(1))
    qed
    ultimately show ?thesis by simp
  qed
  then show "settled core g1 r" "owed r g1 + emitted ev = owed r g" by simp_all
qed

text \<open>
  C12. The maintenance interrupt loses and duplicates no physical EOI. Whenever the
  hardware reports every retired tokened list register in EISR, the tokens held
  by the resident vCPU and its VM's bank before are exactly those held after plus
  those handed to the device layer as virtual EOIs.
\<close>

theorem vgic_maintenance_conserves:
  assumes "vgic_ok g" "core < length (vg_resident g)" "vg_resident g ! core = Some r"
    and "\<forall>s < vg_lr_count g. et_valid (cs_token (vg_cpu g ! r) ! s) \<longrightarrow>
      bit (eisr (vg_ich g ! core)) s \<or> lr_in_flight (read_lr (vg_ich g ! core) s)"
    and "handle_irq eisr gt core turn kMaintenanceIntid False g = Some (h, g', ev)"
  shows "owed r g' + emitted ev = owed r g"
proof -
  note i = okD(6) [OF assms(1-3)]
  obtain g1 ev1 where d: "drain_eois eisr core r g = (g1, ev1)" by (cases "drain_eois eisr core r g")
  note S = drain_settles [OF assms(1-4) d]
  have g1: "vgic_ok g1" using drain_ok [OF assms(1) i assms(2), of eisr] d by simp
  have "g' = flush gt core turn r g1" "ev = ev1" using assms(3,5) d by (simp_all add: handle_irq_def)
  then show ?thesis using flush_owed [OF g1 i S(1), of gt turn] S(2) by simp
qed

text \<open>
  A resident vCPU whose list register 0 held the tracked SPI 32 and was just
  retired by the guest: the hardware slot is empty, EISR reports it, and an SGI is
  pending.
\<close>

definition retired_token :: EoiToken where
  "retired_token = \<lparr>et_virtual = 32, et_physical = 50, et_generation = 7\<rparr>"

definition retired :: Vgic where
  "retired = one_core\<lparr>
     vg_cpu := (vg_cpu one_core)[0 := cpu_state_reset\<lparr>cs_redist := redist_reset\<lparr>rd_pending := 2\<rparr>,
        cs_lr := (replicate 16 0)[0 := make_lr 32 0 True], cs_token := (replicate 16 et_none)[0 := retired_token]\<rparr>],
     vg_resident := [Some 0]\<rparr>"

lemma retired_ok: "vgic_ok retired"
proof -
  have "cpu_wf (cpu_state_reset\<lparr>cs_redist := redist_reset\<lparr>rd_pending := 2\<rparr>,
        cs_lr := (replicate 16 0)[0 := make_lr 32 0 True], cs_token := (replicate 16 et_none)[0 := retired_token]\<rparr>)"
    by (simp add: cpu_wf_def redist_wf_def redist_reset_def kMaxLrs_def kNumPrivate_def)
  from ok_upd_cpu [OF vgic_boot_ok [OF one_core_boot] this, of 0]
  have ok: "vgic_ok (upd_cpu 0 (cpu_state_reset\<lparr>cs_redist := redist_reset\<lparr>rd_pending := 2\<rparr>,
        cs_lr := (replicate 16 0)[0 := make_lr 32 0 True], cs_token := (replicate 16 et_none)[0 := retired_token]\<rparr>) one_core)" .
  have len: "length (vg_resident one_core) = 1"
    by (simp add: one_core_def vgic_init_def init_cpu_def vgic_static_def Let_def)
  have "(vg_resident one_core)[0 := Some 0] = [Some 0]" using len by (cases "vg_resident one_core") auto
  with ok_upd_resident [OF ok, of "Some 0" 0] show ?thesis
    by (simp add: retired_def kMaxVcpus_def kMaxGuests_def kMaxVcpusPerVm_def)
qed

lemma retired_facts:
  "vg_lr_count retired = 4 \<and> cs_token (vg_cpu retired ! 0) = (replicate 16 et_none)[0 := retired_token]"
  by code_simp

lemma vgic_maintenance_conserves_witness:
  "\<exists>h g' ev. handle_irq (\<lambda>_. 1) [1] 0 0 kMaintenanceIntid False retired = Some (h, g', ev)
     \<and> owed 0 g' + emitted ev = owed 0 retired"
proof -
  have r: "0 < length (vg_resident retired)" "vg_resident retired ! 0 = Some 0" by (simp_all add: retired_def)
  have hw: "\<forall>s < vg_lr_count retired. et_valid (cs_token (vg_cpu retired ! 0) ! s) \<longrightarrow>
      bit ((\<lambda>_. 1 :: u64) (vg_ich retired ! 0)) s \<or> lr_in_flight (read_lr (vg_ich retired ! 0) s)"
    using retired_facts by (auto simp: nth_list_update split: if_splits)
  obtain h g' ev where run: "handle_irq (\<lambda>_. 1) [1] 0 0 kMaintenanceIntid False retired = Some (h, g', ev)"
    using r by (auto simp: handle_irq_def Let_def split_beta)
  show ?thesis using vgic_maintenance_conserves [OF retired_ok r hw run] run by blast
qed

text \<open>
  Outside the maintenance interrupt the same state is not safe: \<open>flush\<close> takes the
  retired slot as free before anybody read EISR, injects the SGI into it and
  overwrites the token.
\<close>

lemma flush_drops_retired_token:
  "filter et_valid (cs_token (vg_cpu (snd (reevaluate [1] 0 0 0 retired)) ! 0)) = []
   \<and> filter et_valid (vg_tokens (snd (reevaluate [1] 0 0 0 retired)) ! 0) = []
   \<and> filter et_valid (cs_token (vg_cpu retired ! 0)) = [retired_token]"
  by code_simp

text \<open>With nobody resident the maintenance handler indexes outside \<open>g_cpu\<close>.\<close>

lemma handle_irq_after_vacate:
  assumes "core < length (vg_resident g)"
  shows "handle_irq eisr gt core turn kMaintenanceIntid False (vacate core g) = None"
  using assms by (simp add: handle_irq_def vacate_def)

text \<open>A pending SPI follows a later IROUTER write.\<close>

lemma pending_spi_follows_route:
  "(let d = dist_reset\<lparr>dist_enabled := 1, dist_pending := 1\<rparr>;
        d' = fst (dist_write d kGicdIrouterSpi 8 1 0) in
    spi_deliverable d 0 2 = 1 \<and> spi_deliverable d 1 2 = 0 \<and> spi_deliverable d' 0 2 = 0 \<and> spi_deliverable d' 1 2 = 1)"
  by code_simp

end
