(* ===== verification/NovaTimer.thy ===== *)
theory NovaTimer
  imports NovaPrelude
begin

text \<open>
  \<open>components/service/soft_timer\<close>: the deadline queue (\<open>timer_queue.hpp\<close>) and the
  driver that keeps the one-shot of a core programmed to its earliest deadline
  (\<open>soft_timer.cpp\<close>). The state is that of one core, as no operation crosses
  cores. A callback is the parameter \<open>run\<close>, which may arm and cancel slots of the
  same queue; \<open>nullptr\<close> is \<open>None\<close>. CNTHP is \<open>None\<close> when stopped.
\<close>

section \<open>The queue\<close>

definition kNoDeadline :: u64 where "kNoDeadline = - 1"

record 'cb Slot =
  sl_deadline :: u64
  sl_fn :: "'cb option"
  sl_arg :: u64
  sl_armed :: bool

record 'cb Expired =
  ex_fn :: "'cb option"
  ex_arg :: u64
  ex_slot :: nat
  ex_deadline :: u64

type_synonym 'cb queue = "'cb Slot list"

definition queue_init :: "nat \<Rightarrow> 'cb queue" where
  "queue_init n = replicate n \<lparr>sl_deadline = 0, sl_fn = None, sl_arg = 0, sl_armed = False\<rparr>"

definition q_arm :: "nat \<Rightarrow> u64 \<Rightarrow> 'cb \<Rightarrow> u64 \<Rightarrow> 'cb queue \<Rightarrow> 'cb queue" where
  "q_arm s deadline fn arg q =
     (if s \<ge> length q then q
      else q[s := \<lparr>sl_deadline = deadline, sl_fn = Some fn, sl_arg = arg, sl_armed = True\<rparr>])"

definition q_cancel :: "nat \<Rightarrow> 'cb queue \<Rightarrow> 'cb queue" where
  "q_cancel s q = (if s < length q then q[s := (q ! s)\<lparr>sl_armed := False\<rparr>] else q)"

definition next_deadline :: "'cb queue \<Rightarrow> u64" where
  "next_deadline q = foldl (\<lambda>next s. if sl_armed s \<and> sl_deadline s < next then sl_deadline s else next) kNoDeadline q"

definition due_slot :: "'cb queue \<Rightarrow> u64 \<Rightarrow> nat \<times> u64" where
  "due_slot q now =
     foldl (\<lambda>(idx, dl) i. if sl_armed (q ! i) \<and> sl_deadline (q ! i) \<le> now \<and> sl_deadline (q ! i) < dl
                          then (i, sl_deadline (q ! i)) else (idx, dl))
       (length q, kNoDeadline) [0 ..< length q]"

definition pop_expired :: "'cb queue \<Rightarrow> u64 \<Rightarrow> ('cb Expired \<times> 'cb queue) option" where
  "pop_expired q now =
     (case due_slot q now of (idx, dl) \<Rightarrow>
      if idx = length q then None
      else Some (\<lparr>ex_fn = sl_fn (q ! idx), ex_arg = sl_arg (q ! idx), ex_slot = idx, ex_deadline = dl\<rparr>,
                 q[idx := (q ! idx)\<lparr>sl_armed := False\<rparr>]))"

section \<open>The driver\<close>

record 'cb SoftTimer =
  st_queue :: "'cb queue"
  st_programmed :: u64
  st_cnthp :: "u64 option"

definition reprogram :: "'cb SoftTimer \<Rightarrow> 'cb SoftTimer" where
  "reprogram t =
     (let next = next_deadline (st_queue t) in
      if next = st_programmed t then t
      else t\<lparr>st_programmed := next, st_cnthp := (if next = kNoDeadline then None else Some next)\<rparr>)"

definition arm :: "nat \<Rightarrow> u64 \<Rightarrow> 'cb \<Rightarrow> u64 \<Rightarrow> 'cb SoftTimer \<Rightarrow> 'cb SoftTimer" where
  "arm s deadline fn arg t = reprogram (t\<lparr>st_queue := q_arm s deadline fn arg (st_queue t)\<rparr>)"

definition cancel :: "nat \<Rightarrow> 'cb SoftTimer \<Rightarrow> 'cb SoftTimer" where
  "cancel s t = reprogram (t\<lparr>st_queue := q_cancel s (st_queue t)\<rparr>)"

text \<open>
  The drain loop returns the callbacks in the order they ran. A callback that
  keeps arming deadlines at or before \<open>now\<close> would keep it going, so it is a
  partial function; \<open>None\<close> is not returning.
\<close>

partial_function (option) drain_loop ::
  "('cb option \<Rightarrow> u64 \<Rightarrow> 'cb SoftTimer \<Rightarrow> 'cb SoftTimer) \<Rightarrow> u64 \<Rightarrow> 'cb SoftTimer
     \<Rightarrow> ('cb Expired list \<times> 'cb SoftTimer) option" where
  "drain_loop run now t =
     (case pop_expired (st_queue t) now of
        None \<Rightarrow> Some ([], t)
      | Some (due, q') \<Rightarrow>
         Option.bind (drain_loop run now (run (ex_fn due) (ex_arg due) (t\<lparr>st_queue := q'\<rparr>)))
           (\<lambda>(fired, t'). Some (due # fired, t')))"

definition drain_expired ::
  "('cb option \<Rightarrow> u64 \<Rightarrow> 'cb SoftTimer \<Rightarrow> 'cb SoftTimer) \<Rightarrow> u64 \<Rightarrow> 'cb SoftTimer
     \<Rightarrow> ('cb Expired list \<times> 'cb SoftTimer) option" where
  "drain_expired run now t = map_option (\<lambda>(fired, t'). (fired, reprogram t')) (drain_loop run now t)"

definition kHypTimerIntid :: u32 where "kHypTimerIntid = 26"

text \<open>\<open>handle_irq\<close>: the result is (handled, callbacks run, state).\<close>

definition timer_handle_irq ::
  "('cb option \<Rightarrow> u64 \<Rightarrow> 'cb SoftTimer \<Rightarrow> 'cb SoftTimer) \<Rightarrow> u64 \<Rightarrow> u32 \<Rightarrow> bool \<Rightarrow> 'cb SoftTimer
     \<Rightarrow> (bool \<times> 'cb Expired list \<times> 'cb SoftTimer) option" where
  "timer_handle_irq run now intid handled t =
     (if handled then Some (handled, [], t)
      else if intid \<noteq> kHypTimerIntid then Some (handled, [], t)
      else map_option (\<lambda>(fired, t'). (True, fired, t')) (drain_expired run now t))"

section \<open>The earliest deadline\<close>

definition due :: "'cb queue \<Rightarrow> u64 \<Rightarrow> nat \<Rightarrow> bool" where
  "due q now i \<longleftrightarrow> i < length q \<and> sl_armed (q ! i) \<and> sl_deadline (q ! i) \<le> now \<and> sl_deadline (q ! i) \<noteq> kNoDeadline"

lemma less_kNoDeadline: "(d :: u64) < kNoDeadline \<longleftrightarrow> d \<noteq> kNoDeadline"
  using word_n1_ge [of d] by (auto simp: kNoDeadline_def less_le)

definition earliest_from :: "u64 \<Rightarrow> 'cb queue \<Rightarrow> u64" where
  "earliest_from n q = foldl (\<lambda>next s. if sl_armed s \<and> sl_deadline s < next then sl_deadline s else next) n q"

lemma earliest_from_simps [simp]:
  "earliest_from n [] = n"
  "earliest_from n (s # q) = earliest_from (if sl_armed s \<and> sl_deadline s < n then sl_deadline s else n) q"
  by (simp_all add: earliest_from_def)

lemma earliest_from_le: "earliest_from n q \<le> n"
proof (induction q arbitrary: n)
  case (Cons s q)
  show ?case using Cons.IH [of n] order.trans [OF Cons.IH [of "sl_deadline s"], of n] by auto
qed simp

lemma earliest_from_armed: "s \<in> set q \<Longrightarrow> sl_armed s \<Longrightarrow> earliest_from n q \<le> sl_deadline s"
proof (induction q arbitrary: n)
  case (Cons x q)
  show ?case
  proof (cases "s = x")
    case True
    have "(if sl_armed x \<and> sl_deadline x < n then sl_deadline x else n) \<le> sl_deadline s"
      using True Cons.prems(2) by auto
    then show ?thesis using earliest_from_le order.trans by (simp only: earliest_from_simps) blast
  next
    case False
    then show ?thesis using Cons by simp
  qed
qed simp

lemma earliest_from_attained:
  "earliest_from n q = n \<or> (\<exists>s \<in> set q. sl_armed s \<and> sl_deadline s = earliest_from n q)"
proof (induction q arbitrary: n)
  case (Cons x q)
  show ?case
    using Cons.IH [of n] Cons.IH [of "sl_deadline x"] by (cases "sl_armed x \<and> sl_deadline x < n") auto
qed simp

lemma next_deadline_le: "s \<in> set q \<Longrightarrow> sl_armed s \<Longrightarrow> next_deadline q \<le> sl_deadline s"
  using earliest_from_armed [of s q kNoDeadline] by (simp add: next_deadline_def earliest_from_def)

lemma next_deadline_attained:
  "next_deadline q = kNoDeadline \<or> (\<exists>s \<in> set q. sl_armed s \<and> sl_deadline s = next_deadline q)"
  using earliest_from_attained [of kNoDeadline q] by (simp add: next_deadline_def earliest_from_def)

lemma due_slot_spec:
  assumes "due_slot q now = (idx, dl)"
  shows "(idx = length q \<longrightarrow> (\<forall>i. \<not> due q now i))
    \<and> (idx \<noteq> length q \<longrightarrow> due q now idx \<and> dl = sl_deadline (q ! idx)
        \<and> (\<forall>i. due q now i \<longrightarrow> dl < sl_deadline (q ! i) \<or> dl = sl_deadline (q ! i) \<and> idx \<le> i))"
proof -
  let ?f = "\<lambda>(idx, dl) i. if sl_armed (q ! i) \<and> sl_deadline (q ! i) \<le> now \<and> sl_deadline (q ! i) < dl
                          then (i, sl_deadline (q ! i)) else (idx, dl)"
  have "foldl ?f (length q, kNoDeadline) [0 ..< n] = (idx, dl) \<Longrightarrow> n \<le> length q \<Longrightarrow>
      (if idx = length q then dl = kNoDeadline \<and> (\<forall>i < n. \<not> due q now i)
       else idx < n \<and> due q now idx \<and> dl = sl_deadline (q ! idx)
        \<and> (\<forall>i < n. due q now i \<longrightarrow> dl < sl_deadline (q ! i) \<or> dl = sl_deadline (q ! i) \<and> idx \<le> i))" for n idx dl
  proof (induction n arbitrary: idx dl)
    case (Suc n)
    obtain i0 d0 where s: "foldl ?f (length q, kNoDeadline) [0 ..< n] = (i0, d0)" by fastforce
    note IH = Suc.IH [OF s] 
    have r: "(idx, dl) = (if sl_armed (q ! n) \<and> sl_deadline (q ! n) \<le> now \<and> sl_deadline (q ! n) < d0
        then (n, sl_deadline (q ! n)) else (i0, d0))" using Suc.prems(1) s by simp
    have n: "n < length q" using Suc.prems(2) by simp
    show ?case
    proof (cases "sl_armed (q ! n) \<and> sl_deadline (q ! n) \<le> now \<and> sl_deadline (q ! n) < d0")
      case True
      then have "due q now n" using n less_kNoDeadline [of "sl_deadline (q ! n)"] word_n1_ge [of d0]
        by (auto simp: due_def kNoDeadline_def dest: order.strict_trans2)
      then show ?thesis using r True IH n by (auto simp: less_Suc_eq split: if_splits dest: order.strict_trans)
    next
      case False
      have "due q now n \<Longrightarrow> i0 \<noteq> length q \<and> d0 \<le> sl_deadline (q ! n)"
        using False IH n less_kNoDeadline [of "sl_deadline (q ! n)"] by (auto simp: due_def split: if_splits)
      then show ?thesis using r False IH n by (auto simp: less_Suc_eq le_less split: if_splits)
    qed
  qed simp
  from this [OF assms [unfolded due_slot_def]] show ?thesis
    by (auto simp: due_def split: if_splits)
qed

lemma pop_expired_cases:
  obtains "pop_expired q now = None" "\<And>i. \<not> due q now i"
  | idx where "pop_expired q now = Some (\<lparr>ex_fn = sl_fn (q ! idx), ex_arg = sl_arg (q ! idx), ex_slot = idx,
        ex_deadline = sl_deadline (q ! idx)\<rparr>, q[idx := (q ! idx)\<lparr>sl_armed := False\<rparr>])"
      "due q now idx" "\<And>i. due q now i \<Longrightarrow> sl_deadline (q ! idx) \<le> sl_deadline (q ! i)"
proof -
  obtain idx dl where d: "due_slot q now = (idx, dl)" by fastforce
  note S = due_slot_spec [OF d]
  show ?thesis
  proof (cases "idx = length q")
    case True
    then show ?thesis using that(1) S d by (simp add: pop_expired_def)
  next
    case False
    then have dl: "dl = sl_deadline (q ! idx)" "due q now idx" using S by simp_all
    have "sl_deadline (q ! idx) \<le> sl_deadline (q ! i)" if "due q now i" for i
      using S False that dl by (metis order.strict_implies_order order.refl)
    then show ?thesis using that(2) [of idx] dl d False by (simp add: pop_expired_def)
  qed
qed

section \<open>The hardware follows the queue\<close>

text \<open>CNTHP holds the deadline the driver remembers having programmed.\<close>

definition tracks :: "'cb SoftTimer \<Rightarrow> bool" where
  "tracks t \<longleftrightarrow> st_cnthp t = (if st_programmed t = kNoDeadline then None else Some (st_programmed t))"

lemma reprogram_tracks [nova_inv]: "tracks t \<Longrightarrow> tracks (reprogram t)"
  by (simp add: tracks_def reprogram_def Let_def)

lemma reprogram_queue [nova_frame]: "st_queue (reprogram t) = st_queue t"
  by (simp add: reprogram_def Let_def)

lemma reprogram_programmed: "st_programmed (reprogram t) = next_deadline (st_queue t)"
  by (simp add: reprogram_def Let_def)

lemma arm_tracks [nova_inv]: "tracks t \<Longrightarrow> tracks (arm s dl fn arg t)" "tracks t \<Longrightarrow> tracks (cancel s t)"
  by (simp_all add: arm_def cancel_def reprogram_tracks tracks_def [of "_\<lparr>st_queue := _\<rparr>"] tracks_def [of t])


definition two_slots :: "nat SoftTimer" where
  "two_slots = \<lparr>st_queue = queue_init 2, st_programmed = kNoDeadline, st_cnthp = None\<rparr>"


section \<open>The drain\<close>

text \<open>
  A callback may cancel slots and arm later deadlines, but makes no slot due that
  was not due before.
\<close>

definition well_behaved :: "('cb option \<Rightarrow> u64 \<Rightarrow> 'cb SoftTimer \<Rightarrow> 'cb SoftTimer) \<Rightarrow> u64 \<Rightarrow> bool" where
  "well_behaved run now \<longleftrightarrow> (\<forall>fn arg t. (tracks t \<longrightarrow> tracks (run fn arg t))
     \<and> (\<forall>i. due (st_queue (run fn arg t)) now i \<longrightarrow> due (st_queue t) now i
          \<and> sl_deadline (st_queue (run fn arg t) ! i) = sl_deadline (st_queue t ! i)))"

lemma finite_due [simp]: "finite {i. due q now i}"
  by (rule finite_subset [of _ "{..< length q}"]) (auto simp: due_def)

lemma due_disarm:
  assumes "due q now idx"
  shows "due (q[idx := (q ! idx)\<lparr>sl_armed := False\<rparr>]) now i \<longleftrightarrow> due q now i \<and> i \<noteq> idx"
    "i \<noteq> idx \<Longrightarrow> q[idx := (q ! idx)\<lparr>sl_armed := False\<rparr>] ! i = q ! i"
  using assms by (auto simp: due_def nth_list_update)

lemma drain_loop_returns:
  assumes "well_behaved run now" "tracks t"
  shows "\<exists>fired t'. drain_loop run now t = Some (fired, t') \<and> tracks t' \<and> (\<forall>i. \<not> due (st_queue t') now i)
    \<and> sorted (map ex_deadline fired) \<and> distinct (map ex_slot fired)
    \<and> (\<forall>e \<in> set fired. due (st_queue t) now (ex_slot e) \<and> ex_deadline e = sl_deadline (st_queue t ! ex_slot e))"
  using assms(2)
proof (induction "card {i. due (st_queue t) now i}" arbitrary: t rule: less_induct)
  case less
  let ?q = "st_queue t"
  show ?case
  proof (rule pop_expired_cases [of ?q now])
    assume "pop_expired ?q now = None" "\<And>i. \<not> due ?q now i"
    then show ?thesis using less.prems by (subst drain_loop.simps) simp
  next
    fix idx assume p: "pop_expired ?q now = Some (\<lparr>ex_fn = sl_fn (?q ! idx), ex_arg = sl_arg (?q ! idx), ex_slot = idx,
        ex_deadline = sl_deadline (?q ! idx)\<rparr>, ?q[idx := (?q ! idx)\<lparr>sl_armed := False\<rparr>])"
      and d: "due ?q now idx" and min: "\<And>i. due ?q now i \<Longrightarrow> sl_deadline (?q ! idx) \<le> sl_deadline (?q ! i)"
    let ?t0 = "t\<lparr>st_queue := ?q[idx := (?q ! idx)\<lparr>sl_armed := False\<rparr>]\<rparr>"
    let ?t1 = "run (sl_fn (?q ! idx)) (sl_arg (?q ! idx)) ?t0"
    have W: "tracks ?t1" "\<And>i. due (st_queue ?t1) now i \<Longrightarrow> due ?q now i \<and> i \<noteq> idx
        \<and> sl_deadline (st_queue ?t1 ! i) = sl_deadline (?q ! i)"
    proof -
      have "tracks ?t0" using less.prems by (simp add: tracks_def)
      then show "tracks ?t1" using assms(1) by (simp add: well_behaved_def)
      fix i assume "due (st_queue ?t1) now i"
      then have "due (st_queue ?t0) now i" "sl_deadline (st_queue ?t1 ! i) = sl_deadline (st_queue ?t0 ! i)"
        using assms(1) unfolding well_behaved_def by blast+
      then show "due ?q now i \<and> i \<noteq> idx \<and> sl_deadline (st_queue ?t1 ! i) = sl_deadline (?q ! i)"
        using due_disarm [OF d] by simp
    qed
    have "{i. due (st_queue ?t1) now i} \<subset> {i. due ?q now i}" using W(2) d by blast
    then have "card {i. due (st_queue ?t1) now i} < card {i. due ?q now i}" by (intro psubset_card_mono) simp_all
    from less.hyps [OF this W(1)] obtain fired t' where IH: "drain_loop run now ?t1 = Some (fired, t')"
      "tracks t'" "\<forall>i. \<not> due (st_queue t') now i" "sorted (map ex_deadline fired)" "distinct (map ex_slot fired)"
      "\<forall>e \<in> set fired. due (st_queue ?t1) now (ex_slot e) \<and> ex_deadline e = sl_deadline (st_queue ?t1 ! ex_slot e)"
      by blast
    have mem: "\<forall>e \<in> set fired. due ?q now (ex_slot e) \<and> ex_slot e \<noteq> idx \<and> ex_deadline e = sl_deadline (?q ! ex_slot e)"
      using IH(6) W(2) by metis
    let ?e = "\<lparr>ex_fn = sl_fn (?q ! idx), ex_arg = sl_arg (?q ! idx), ex_slot = idx, ex_deadline = sl_deadline (?q ! idx)\<rparr>"
    have run: "drain_loop run now t = Some (?e # fired, t')"
      by (subst drain_loop.simps) (simp add: p IH(1))
    have s: "sorted (map ex_deadline (?e # fired))" using IH(4) mem min by auto
    have u: "distinct (map ex_slot (?e # fired))" using IH(5) mem by auto
    have m: "\<forall>e \<in> set (?e # fired). due ?q now (ex_slot e) \<and> ex_deadline e = sl_deadline (?q ! ex_slot e)"
      using mem d by auto
    show ?thesis by (intro exI [of _ "?e # fired"] exI [of _ t'] conjI run IH(2) IH(3) s u m)
  qed
qed



end
