(* ===== verification/NovaTrap.thy ===== *)
theory NovaTrap
  imports NovaVgic
begin

text \<open>
  \<open>nova/arch/esr.hpp\<close>, \<open>data_abort.hpp\<close>, \<open>sysreg_trap.hpp\<close> and the component
  \<open>trap_handler\<close>: syndrome decoding, the ELR policy and the router of lower-EL
  synchronous exceptions. The services the router fans out to are the fields of
  the record \<open>Services\<close> over a state of their own; a service returns whether it
  claimed the call. The result of the router is the frame the guest resumes
  with, or the panic that ends the machine. Console output is left out except
  for the once-only report of unknown calls.
\<close>

section \<open>Trap frame\<close>

record TrapContext =
  tc_x :: "u64 list"
  tc_sp :: u64
  tc_elr :: u64
  tc_spsr :: u64
  tc_esr :: u64
  tc_far :: u64

definition kNumGpRegs :: nat where "kNumGpRegs = 31"
definition kSrtZeroReg :: nat where "kSrtZeroReg = 31"
definition kSmcccNotSupported :: u64 where "kSmcccNotSupported = - 1"

definition ctx_wf :: "TrapContext \<Rightarrow> bool" where "ctx_wf c \<longleftrightarrow> length (tc_x c) = kNumGpRegs"

definition set_x :: "nat \<Rightarrow> u64 \<Rightarrow> TrapContext \<Rightarrow> TrapContext" where
  "set_x i v c = c\<lparr>tc_x := (tc_x c)[i := v]\<rparr>"

section \<open>Syndrome decoding\<close>

datatype ExceptionClass = EcUnknown | EcWfx | EcFpSimd | EcSvcAa64 | EcHvcAa64 | EcSmcAa64 | EcMsrMrs | EcSve
  | EcInstAbortLower | EcInstAbortCurrent | EcPcAlign | EcDataAbortLower | EcDataAbortCurrent | EcSpAlign | EcSerror
  | EcBrkptLower | EcBrkptCurrent | EcSoftstepLower | EcSoftstepCurrent | EcWatchptLower | EcWatchptCurrent | EcBrk
  | EcOther u8

text \<open>The C++ enumeration holds any byte; a value without an enumerator is \<open>EcOther\<close>.\<close>

definition ec_table :: "(u8 \<times> ExceptionClass) list" where
  "ec_table = [(0x00, EcUnknown), (0x01, EcWfx), (0x07, EcFpSimd), (0x15, EcSvcAa64), (0x16, EcHvcAa64),
     (0x17, EcSmcAa64), (0x18, EcMsrMrs), (0x19, EcSve), (0x20, EcInstAbortLower), (0x21, EcInstAbortCurrent),
     (0x22, EcPcAlign), (0x24, EcDataAbortLower), (0x25, EcDataAbortCurrent), (0x26, EcSpAlign), (0x2F, EcSerror),
     (0x30, EcBrkptLower), (0x31, EcBrkptCurrent), (0x32, EcSoftstepLower), (0x33, EcSoftstepCurrent),
     (0x34, EcWatchptLower), (0x35, EcWatchptCurrent), (0x3C, EcBrk)]"

definition kEcShift :: nat where "kEcShift = 26"
definition kEcMask :: u64 where "kEcMask = 0x3F"
definition kWfxTiWfe :: u64 where "kWfxTiWfe = push_bit 0 1"

definition get_ec :: "u64 \<Rightarrow> ExceptionClass" where
  "get_ec esr = (let v = ucast (drop_bit kEcShift esr AND kEcMask) :: u8 in
     case map_of ec_table v of Some e \<Rightarrow> e | None \<Rightarrow> EcOther v)"

definition is_lower_sync_guest_fault :: "ExceptionClass \<Rightarrow> bool" where
  "is_lower_sync_guest_fault ec =
     (case ec of EcInstAbortCurrent \<Rightarrow> False | EcDataAbortCurrent \<Rightarrow> False | EcBrkptCurrent \<Rightarrow> False
      | EcSoftstepCurrent \<Rightarrow> False | EcWatchptCurrent \<Rightarrow> False | EcSerror \<Rightarrow> False | _ \<Rightarrow> True)"

definition kDaIsvBit :: u64 where "kDaIsvBit = push_bit 24 1"
definition kDaSasShift :: nat where "kDaSasShift = 22"
definition kDaSasMask :: u64 where "kDaSasMask = 0x3"
definition kDaSseBit :: u64 where "kDaSseBit = push_bit 21 1"
definition kDaSrtShift :: nat where "kDaSrtShift = 16"
definition kDaSrtMask :: u64 where "kDaSrtMask = 0x1F"
definition kDaSfBit :: u64 where "kDaSfBit = push_bit 15 1"
definition kDaS1ptwBit :: u64 where "kDaS1ptwBit = push_bit 7 1"
definition kDaWnrBit :: u64 where "kDaWnrBit = push_bit 6 1"
definition kDaDfscMask :: u64 where "kDaDfscMask = 0x3F"
definition kDfscTranslationBase :: u8 where "kDfscTranslationBase = 0x04"

record DataAbort =
  da_isv :: bool
  da_size :: nat
  da_sign_extend :: bool
  da_srt :: nat
  da_sixty_four :: bool
  da_s1ptw :: bool
  da_write :: bool
  da_dfsc :: u8

definition parse_data_abort :: "u64 \<Rightarrow> DataAbort" where
  "parse_data_abort esr = \<lparr>
     da_isv = (esr AND kDaIsvBit \<noteq> 0),
     da_size = 2 ^ unat (drop_bit kDaSasShift esr AND kDaSasMask),
     da_sign_extend = (esr AND kDaSseBit \<noteq> 0),
     da_srt = unat (drop_bit kDaSrtShift esr AND kDaSrtMask),
     da_sixty_four = (esr AND kDaSfBit \<noteq> 0),
     da_s1ptw = (esr AND kDaS1ptwBit \<noteq> 0),
     da_write = (esr AND kDaWnrBit \<noteq> 0),
     da_dfsc = ucast (esr AND kDaDfscMask)\<rparr>"

definition is_translation_fault :: "u8 \<Rightarrow> bool" where
  "is_translation_fault dfsc \<longleftrightarrow> dfsc AND NOT 0x3 = kDfscTranslationBase"

definition kHpfarFipaMask :: u64 where "kHpfarFipaMask = 0x00000FFFFFFFFFF0"
definition kHpfarFipaShift :: nat where "kHpfarFipaShift = 4"
definition kPageOffsetMask :: u64 where "kPageOffsetMask = 0xFFF"
definition kPageShift :: nat where "kPageShift = 12"

definition fault_ipa :: "u64 \<Rightarrow> u64 \<Rightarrow> u64" where
  "fault_ipa hpfar far = push_bit kPageShift (drop_bit kHpfarFipaShift (hpfar AND kHpfarFipaMask))
     OR (far AND kPageOffsetMask)"

definition extend_mmio_read :: "u64 \<Rightarrow> nat \<Rightarrow> bool \<Rightarrow> bool \<Rightarrow> u64" where
  "extend_mmio_read v sz sign_extend sixty_four =
     (let bits = sz * 8;
          m = (if sz \<ge> 8 then - 1 else push_bit bits 1 - 1);
          result = v AND m;
          result = (if sign_extend \<and> sz < 8 \<and> drop_bit (bits - 1) result AND 1 \<noteq> 0 then result OR NOT m else result) in
      if sixty_four then result else result AND 0xFFFFFFFF)"

record SysregTrap =
  sr_op0 :: u8
  sr_op1 :: u8
  sr_crn :: u8
  sr_crm :: u8
  sr_op2 :: u8
  sr_rt :: nat
  sr_write :: bool

definition parse_sysreg_trap :: "u64 \<Rightarrow> SysregTrap" where
  "parse_sysreg_trap esr = \<lparr>
     sr_op0 = ucast (drop_bit 20 esr AND 0x3), sr_op1 = ucast (drop_bit 14 esr AND 0x7),
     sr_crn = ucast (drop_bit 10 esr AND 0xF), sr_crm = ucast (drop_bit 1 esr AND 0xF),
     sr_op2 = ucast (drop_bit 17 esr AND 0x7), sr_rt = unat (drop_bit 5 esr AND 0x1F),
     sr_write = (esr AND 1 = 0)\<rparr>"

definition is_icc_sgi1r :: "SysregTrap \<Rightarrow> bool" where
  "is_icc_sgi1r s \<longleftrightarrow> sr_op0 s = 3 \<and> sr_op1 s = 0 \<and> sr_crn s = 12 \<and> sr_crm s = 11 \<and> sr_op2 s = 5"

definition is_cntp_el1_timer :: "SysregTrap \<Rightarrow> bool" where
  "is_cntp_el1_timer s \<longleftrightarrow> sr_op0 s = 3 \<and> sr_op1 s = 3 \<and> sr_crn s = 14 \<and> sr_crm s = 2"

section \<open>ELR policy\<close>

datatype ElrAdvance = ElrNone | ElrBeforeDispatch | ElrNever | ElrOnClaim | ElrPerHandler | ElrFault

definition elr_policy :: "ExceptionClass \<Rightarrow> ElrAdvance" where
  "elr_policy ec = (case ec of EcHvcAa64 \<Rightarrow> ElrNone | EcSmcAa64 \<Rightarrow> ElrBeforeDispatch | EcWfx \<Rightarrow> ElrBeforeDispatch
     | EcFpSimd \<Rightarrow> ElrNever | EcMsrMrs \<Rightarrow> ElrOnClaim | EcDataAbortLower \<Rightarrow> ElrPerHandler | _ \<Rightarrow> ElrFault)"

section \<open>Router\<close>

record 's Services =
  sv_hvc :: "u32 \<Rightarrow> TrapContext \<Rightarrow> 's \<Rightarrow> bool \<times> TrapContext \<times> 's"
  sv_wfx :: "bool \<Rightarrow> TrapContext \<Rightarrow> 's \<Rightarrow> bool \<times> TrapContext \<times> 's"
  sv_fp_simd :: "TrapContext \<Rightarrow> 's \<Rightarrow> bool \<times> TrapContext \<times> 's"
  sv_sysreg :: "SysregTrap \<Rightarrow> TrapContext \<Rightarrow> 's \<Rightarrow> bool \<times> TrapContext \<times> 's"
  sv_mmio :: "MmioCall \<Rightarrow> 's \<Rightarrow> MmioCall \<times> 's"
  sv_guest_fault :: "TrapContext \<Rightarrow> 's \<Rightarrow> bool \<times> TrapContext \<times> 's"

datatype 's Outcome = Resume TrapContext 's | Panic

definition dispatch_guest_fault :: "'s Services \<Rightarrow> TrapContext \<Rightarrow> 's \<Rightarrow> 's Outcome" where
  "dispatch_guest_fault sv ctx s =
     (let (handled, ctx1, s1) = sv_guest_fault sv ctx s in if handled then Resume ctx1 s1 else Panic)"

text \<open>The table of reported function IDs: eight entries, zero is free. The flag says a line was written.\<close>

definition report_unknown_hvc :: "u32 list \<Rightarrow> u32 \<Rightarrow> u32 list \<times> bool" where
  "report_unknown_hvc reported func_id =
     (if list_ex (\<lambda>seen. seen = func_id) reported then (reported, False)
      else ((case find (\<lambda>i. reported ! i = 0) [0 ..< length reported] of
               Some i \<Rightarrow> reported[i := func_id] | None \<Rightarrow> reported), True))"

definition dispatch_hvc :: "'s Services \<Rightarrow> TrapContext \<Rightarrow> 's \<Rightarrow> 's Outcome" where
  "dispatch_hvc sv ctx s =
     (let (handled, ctx1, s1) = sv_hvc sv (ucast (tc_x ctx ! 0)) ctx s in
      if handled then Resume ctx1 s1
      else Resume (set_x 3 0 (set_x 2 0 (set_x 1 0 (set_x 0 kSmcccNotSupported ctx1)))) s1)"

definition dispatch_wfx :: "'s Services \<Rightarrow> TrapContext \<Rightarrow> 's \<Rightarrow> 's Outcome" where
  "dispatch_wfx sv ctx s =
     (let (handled, ctx1, s1) = sv_wfx sv (tc_esr ctx AND kWfxTiWfe \<noteq> 0) ctx s in Resume ctx1 s1)"

definition dispatch_fp_simd :: "'s Services \<Rightarrow> TrapContext \<Rightarrow> 's \<Rightarrow> 's Outcome" where
  "dispatch_fp_simd sv ctx s =
     (let (handled, ctx1, s1) = sv_fp_simd sv ctx s in
      if handled then Resume ctx1 s1 else dispatch_guest_fault sv ctx1 s1)"

definition dispatch_sysreg :: "'s Services \<Rightarrow> TrapContext \<Rightarrow> 's \<Rightarrow> 's Outcome" where
  "dispatch_sysreg sv ctx s =
     (let (handled, ctx1, s1) = sv_sysreg sv (parse_sysreg_trap (tc_esr ctx)) ctx s in
      if handled then Resume (ctx1\<lparr>tc_elr := tc_elr ctx1 + 4\<rparr>) s1 else dispatch_guest_fault sv ctx1 s1)"

text \<open>\<open>hpfar\<close> is the value of HPFAR_EL2 the handler reads.\<close>

definition dispatch_data_abort :: "'s Services \<Rightarrow> u64 \<Rightarrow> TrapContext \<Rightarrow> 's \<Rightarrow> 's Outcome" where
  "dispatch_data_abort sv hpfar ctx s =
     (let da = parse_data_abort (tc_esr ctx) in
      if \<not> da_isv da \<or> da_s1ptw da \<or> \<not> is_translation_fault (da_dfsc da) then dispatch_guest_fault sv ctx s
      else let call = \<lparr>mc_ipa = fault_ipa hpfar (tc_far ctx), mc_size = da_size da, mc_write = da_write da,
               mc_value = (if da_write da \<and> da_srt da \<noteq> kSrtZeroReg
                           then extend_mmio_read (tc_x ctx ! da_srt da) (da_size da) False True else 0),
               mc_handled = False\<rparr>;
               (call1, s1) = sv_mmio sv call s in
        if \<not> mc_handled call1 then dispatch_guest_fault sv ctx s1
        else let ctx1 = (if \<not> da_write da \<and> da_srt da \<noteq> kSrtZeroReg
               then set_x (da_srt da) (extend_mmio_read (mc_value call1) (da_size da) (da_sign_extend da) (da_sixty_four da)) ctx
               else ctx) in
             Resume (ctx1\<lparr>tc_elr := tc_elr ctx1 + 4\<rparr>) s1)"

definition handle_lower_sync :: "'s Services \<Rightarrow> u64 \<Rightarrow> TrapContext \<Rightarrow> 's \<Rightarrow> 's Outcome" where
  "handle_lower_sync sv hpfar ctx s =
     (let ec = get_ec (tc_esr ctx);
          ctx1 = (if elr_policy ec = ElrBeforeDispatch then ctx\<lparr>tc_elr := tc_elr ctx + 4\<rparr> else ctx) in
      case ec of
        EcHvcAa64 \<Rightarrow> dispatch_hvc sv ctx1 s
      | EcSmcAa64 \<Rightarrow> dispatch_hvc sv ctx1 s
      | EcWfx \<Rightarrow> dispatch_wfx sv ctx1 s
      | EcFpSimd \<Rightarrow> dispatch_fp_simd sv ctx1 s
      | EcMsrMrs \<Rightarrow> dispatch_sysreg sv ctx1 s
      | EcDataAbortLower \<Rightarrow> dispatch_data_abort sv hpfar ctx1 s
      | _ \<Rightarrow> if is_lower_sync_guest_fault ec then dispatch_guest_fault sv ctx1 s else Panic)"

section \<open>MMIO values\<close>

lemma bit_sub_one_mask: "(push_bit n 1 - 1 :: 'a::len word) = mask n"
  by (simp add: mask_eq_exp_minus_1 push_bit_eq_mult)

text \<open>
  C29. The value an emulated load puts into its register is the one the load
  instruction would have produced: the low bytes of the device value, zero- or
  sign-extended as the syndrome says, and cut to 32 bits for a W register.
\<close>

theorem extend_mmio_read_loads:
  assumes "sz \<in> {1, 2, 4, 8}"
  shows "extend_mmio_read v sz se sf =
    (let r = (if se then signed_take_bit (8 * sz - 1) v else take_bit (8 * sz) v) in
     if sf then r else take_bit 32 r)"
proof -
  define n where "n = 8 * sz"
  have n: "0 < n" "n \<le> 64" using assms by (auto simp: n_def)
  have w: "w AND 0xFFFFFFFF = take_bit 32 w" for w :: u64 by (simp add: take_bit_eq_mask mask_eq_exp_minus_1)
  show ?thesis
  proof (cases "sz < 8")
    case True
    have sign: "(drop_bit (n - 1) (v AND mask n) AND 1 \<noteq> 0) = bit v (n - 1)"
    proof -
      have "bit (v AND mask n) (n - 1) \<longleftrightarrow> bit v (n - 1)" using n by (auto simp: bit_simps)
      then show ?thesis unfolding bit_iff_odd_drop_bit by (simp add: and_one_eq mod_2_eq_odd)
    qed
    have se: "signed_take_bit (n - 1) v = (if bit v (n - 1) then v AND mask n OR NOT (mask n) else v AND mask n)"
      using n by (intro bit_eqI) (auto simp: bit_simps min_def le_less Suc_diff_1 dest: bit_imp_le_length)
    have m: "(if 8 \<le> sz then - 1 else push_bit n 1 - 1 :: u64) = mask n" using True by (simp add: mask_eq_exp_minus_1)
    show ?thesis
      using True unfolding extend_mmio_read_def Let_def mult.commute [of sz 8] n_def [symmetric] m w sign se take_bit_eq_mask
      by simp
  next
    case False
    then have sz: "sz = 8" using assms by auto
    have "signed_take_bit 63 v = v"
    proof (rule bit_eqI)
      fix k assume "possible_bit TYPE(64 word) k"
      then have "k = 63 \<or> k < 63" by (auto simp: possible_bit_def)
      then show "bit (signed_take_bit 63 v) k = bit v k" by (auto simp: bit_simps min_def)
    qed
    moreover have "take_bit 64 v = v" by (simp add: take_bit_word_eq_self)
    ultimately show ?thesis by (simp add: extend_mmio_read_def Let_def sz w)
  qed
qed

lemma extend_mmio_read_loads_witness: "extend_mmio_read 0x1FF 1 True False = 0xFFFFFFFF"
  using extend_mmio_read_loads [of 1 "0x1FF" True False] by (simp add: signed_take_bit_eq_if_negative bit_numeral_rec mask_eq_exp_minus_1)

section \<open>The router\<close>

text \<open>A guest can emulate the access of a data abort: the condition of the handler and the claim of the MMIO service.\<close>

definition emulates :: "'s Services \<Rightarrow> u64 \<Rightarrow> TrapContext \<Rightarrow> 's \<Rightarrow> bool" where
  "emulates sv hpfar ctx s \<longleftrightarrow>
     (let da = parse_data_abort (tc_esr ctx) in da_isv da \<and> \<not> da_s1ptw da \<and> is_translation_fault (da_dfsc da) \<and>
        mc_handled (fst (sv_mmio sv \<lparr>mc_ipa = fault_ipa hpfar (tc_far ctx), mc_size = da_size da, mc_write = da_write da,
               mc_value = (if da_write da \<and> da_srt da \<noteq> kSrtZeroReg
                           then extend_mmio_read (tc_x ctx ! da_srt da) (da_size da) False True else 0),
               mc_handled = False\<rparr> s)))"

text \<open>The services neither move the return address nor rewrite the syndrome of the frame they are handed.\<close>

definition keeps_elr :: "'s Services \<Rightarrow> bool" where
  "keeps_elr sv \<longleftrightarrow>
     (\<forall>f c s. tc_elr (fst (snd (sv_hvc sv f c s))) = tc_elr c) \<and> (\<forall>b c s. tc_elr (fst (snd (sv_wfx sv b c s))) = tc_elr c) \<and>
     (\<forall>c s. tc_elr (fst (snd (sv_fp_simd sv c s))) = tc_elr c) \<and> (\<forall>r c s. tc_elr (fst (snd (sv_sysreg sv r c s))) = tc_elr c) \<and>
     (\<forall>c s. tc_elr (fst (snd (sv_guest_fault sv c s))) = tc_elr c)"

text \<open>How far the policy moves the return address, given whether the service claimed the trap.\<close>

definition elr_step :: "'s Services \<Rightarrow> u64 \<Rightarrow> TrapContext \<Rightarrow> 's \<Rightarrow> u64" where
  "elr_step sv hpfar ctx s =
     (case elr_policy (get_ec (tc_esr ctx)) of ElrBeforeDispatch \<Rightarrow> 4
      | ElrOnClaim \<Rightarrow> if fst (sv_sysreg sv (parse_sysreg_trap (tc_esr ctx)) ctx s) then 4 else 0
      | ElrPerHandler \<Rightarrow> if emulates sv hpfar ctx s then 4 else 0
      | _ \<Rightarrow> 0)"

lemma guest_fault_elr:
  "dispatch_guest_fault sv ctx s = Resume ctx' s' \<Longrightarrow> keeps_elr sv \<Longrightarrow> tc_elr ctx' = tc_elr ctx"
  unfolding dispatch_guest_fault_def keeps_elr_def by (auto split: prod.splits if_splits) (metis fst_conv snd_conv)

lemma data_abort_elr:
  "dispatch_data_abort sv hpfar ctx s = Resume ctx' s' \<Longrightarrow> keeps_elr sv \<Longrightarrow>
   tc_elr ctx' = tc_elr ctx + (if emulates sv hpfar ctx s then 4 else 0)"
  unfolding dispatch_data_abort_def emulates_def Let_def set_x_def
  by (auto split: prod.splits if_splits dest: guest_fault_elr)

lemma sysreg_elr:
  "dispatch_sysreg sv ctx s = Resume ctx' s' \<Longrightarrow> keeps_elr sv \<Longrightarrow>
   tc_elr ctx' = tc_elr ctx + (if fst (sv_sysreg sv (parse_sysreg_trap (tc_esr ctx)) ctx s) then 4 else 0)"
  unfolding dispatch_sysreg_def Let_def keeps_elr_def
  by (auto split: prod.splits if_splits dest!: guest_fault_elr [unfolded keeps_elr_def]) (metis fst_conv snd_conv)+

lemma hvc_elr: "dispatch_hvc sv ctx s = Resume ctx' s' \<Longrightarrow> keeps_elr sv \<Longrightarrow> tc_elr ctx' = tc_elr ctx"
  unfolding dispatch_hvc_def keeps_elr_def set_x_def by (auto split: prod.splits if_splits) (metis fst_conv snd_conv)+

lemma wfx_elr: "dispatch_wfx sv ctx s = Resume ctx' s' \<Longrightarrow> keeps_elr sv \<Longrightarrow> tc_elr ctx' = tc_elr ctx"
  unfolding dispatch_wfx_def keeps_elr_def by (auto split: prod.splits if_splits) (metis fst_conv snd_conv)

lemma fp_elr: "dispatch_fp_simd sv ctx s = Resume ctx' s' \<Longrightarrow> keeps_elr sv \<Longrightarrow> tc_elr ctx' = tc_elr ctx"
  unfolding dispatch_fp_simd_def keeps_elr_def
  by (auto split: prod.splits if_splits dest!: guest_fault_elr [unfolded keeps_elr_def]) (metis fst_conv snd_conv)+


text \<open>Services that claim nothing and leave the frame alone.\<close>

definition null_services :: "unit Services" where
  "null_services = \<lparr>sv_hvc = (\<lambda>f c s. (False, c, s)), sv_wfx = (\<lambda>b c s. (False, c, s)), sv_fp_simd = (\<lambda>c s. (False, c, s)),
     sv_sysreg = (\<lambda>r c s. (False, c, s)), sv_mmio = (\<lambda>m s. (m, s)), sv_guest_fault = (\<lambda>c s. (True, c, s))\<rparr>"

definition smc_frame :: TrapContext where
  "smc_frame = \<lparr>tc_x = replicate 31 7, tc_sp = 0, tc_elr = 0x40001000, tc_spsr = 0, tc_esr = 0x5E000000, tc_far = 0\<rparr>"

lemma smc_frame_run:
  "handle_lower_sync null_services 0 smc_frame () =
     Resume (smc_frame\<lparr>tc_elr := 0x40001004, tc_x := [- 1, 0, 0, 0] @ replicate 27 7\<rparr>) ()"
  by code_simp


text \<open>
  C27. No guest can take the hypervisor down through the synchronous vector.
  When the guest-fault service claims every fault, a lower-EL exception ends in
  a panic exactly if its class is one only EL2 itself can raise, whatever the
  other services answer and whatever the syndrome holds.
\<close>

theorem router_contains_guest:
  assumes "\<And>c s. fst (sv_guest_fault sv c s)"
  shows "handle_lower_sync sv hpfar ctx s = Panic \<longleftrightarrow>
    get_ec (tc_esr ctx) \<in> {EcInstAbortCurrent, EcDataAbortCurrent, EcBrkptCurrent, EcSoftstepCurrent, EcWatchptCurrent, EcSerror}"
proof -
  have g: "dispatch_guest_fault sv c t \<noteq> Panic" for c t
    using assms [of c t] by (auto simp: dispatch_guest_fault_def split: prod.splits)
  have f: "dispatch_hvc sv c t \<noteq> Panic" "dispatch_wfx sv c t \<noteq> Panic" "dispatch_fp_simd sv c t \<noteq> Panic"
      "dispatch_sysreg sv c t \<noteq> Panic" "dispatch_data_abort sv hpfar c t \<noteq> Panic" for c t
    using g by (auto simp: dispatch_hvc_def dispatch_wfx_def dispatch_fp_simd_def dispatch_sysreg_def dispatch_data_abort_def
        Let_def split: prod.splits)
  show ?thesis
    by (cases "get_ec (tc_esr ctx)") (simp_all add: handle_lower_sync_def Let_def f g is_lower_sync_guest_fault_def)
qed

lemma router_contains_guest_witness: "handle_lower_sync null_services 0 (smc_frame\<lparr>tc_esr := 0x92000000\<rparr>) () \<noteq> Panic"
  using router_contains_guest [of null_services 0 "smc_frame\<lparr>tc_esr := 0x92000000\<rparr>" "()"]
  by (simp add: null_services_def get_ec_def kEcShift_def kEcMask_def ec_table_def smc_frame_def)

text \<open>
  C28. An unknown SMCCC call, by HVC or SMC, is answered NOT_SUPPORTED: the guest
  resumes past the call with -1 in x0, zero in x1 to x3 and every other register
  as it was.
\<close>

theorem unknown_call_not_supported:
  assumes "get_ec (tc_esr ctx) = EcHvcAa64 \<or> get_ec (tc_esr ctx) = EcSmcAa64" and "ctx_wf ctx"
    and "\<And>f c t. sv_hvc sv f c t = (False, c, t)"
  shows "\<exists>x. handle_lower_sync sv hpfar ctx s =
      Resume (ctx\<lparr>tc_x := x, tc_elr := tc_elr ctx + (if get_ec (tc_esr ctx) = EcSmcAa64 then 4 else 0)\<rparr>) s \<and>
    take 4 x = [- 1, 0, 0, 0] \<and> drop 4 x = drop 4 (tc_x ctx)"
proof -
  obtain a b c d r where x: "tc_x ctx = a # b # c # d # r"
    using assms(2) by (auto simp: ctx_wf_def kNumGpRegs_def numeral_eq_Suc length_Suc_conv)
  show ?thesis
    using assms by (intro exI [of _ "- 1 # 0 # 0 # 0 # r"])
      (auto simp: handle_lower_sync_def elr_policy_def dispatch_hvc_def set_x_def x kSmcccNotSupported_def Let_def numeral_eq_Suc)
qed

lemma smc_frame_class: "get_ec (tc_esr smc_frame) = EcSmcAa64" "ctx_wf smc_frame"
    "tc_elr smc_frame + 4 = 0x40001004" "drop 4 (tc_x smc_frame) = replicate 27 7"
  by code_simp+

lemma unknown_call_not_supported_witness:
  "\<exists>x. handle_lower_sync null_services 0 smc_frame () = Resume (smc_frame\<lparr>tc_x := x, tc_elr := 0x40001004\<rparr>) () \<and>
     take 4 x = [- 1, 0, 0, 0] \<and> drop 4 x = replicate 27 7"
  using unknown_call_not_supported [of smc_frame null_services 0 "()"]
  by (simp add: null_services_def smc_frame_class)

section \<open>Reports of unknown calls\<close>

text \<open>Once eight identifiers are recorded, each further one is written on every call and recorded never.\<close>

lemma report_unknown_hvc_floods:
  assumes "\<forall>seen \<in> set reported. seen \<noteq> 0 \<and> seen \<noteq> func_id"
  shows "report_unknown_hvc reported func_id = (reported, True)"
proof -
  have "find (\<lambda>i. reported ! i = 0) [0 ..< length reported] = None" using assms by (auto simp: find_None_iff)
  then show ?thesis using assms by (auto simp: report_unknown_hvc_def list_ex_iff)
qed

text \<open>A free entry reads as identifier zero, so that identifier is never reported while the table has room.\<close>

lemma report_unknown_hvc_zero: "0 \<in> set reported \<Longrightarrow> report_unknown_hvc reported 0 = (reported, False)"
  by (auto simp: report_unknown_hvc_def list_ex_iff)

end
