(* ===== verification/NovaSchedModel.thy ===== *)
theory NovaSchedModel
  imports NovaMachine
begin

text \<open>
  The pure models of \<open>core_vcpu\<close>: \<open>sched_model.hpp\<close> (run states, round-robin
  choice), \<open>fp_model.hpp\<close> (ownership of the FP register file) and
  \<open>lifecycle_model.hpp\<close> (restart budget). \<open>None\<close> is the index \<open>kNoVcpu\<close>, whose
  successor is slot 0, and the owner \<open>kNoOwner\<close>.
\<close>

section \<open>Run states\<close>

datatype State = StOff | StReady | StRunning | StBlocked

definition ring_at :: "nat option \<Rightarrow> nat \<Rightarrow> nat" where
  "ring_at current step = (case current of None \<Rightarrow> step - 1 | Some c \<Rightarrow> c + step)"

definition pick_next :: "State list \<Rightarrow> nat option \<Rightarrow> nat" where
  "pick_next states current =
     (case find (\<lambda>step. states ! (ring_at current step mod length states) = StReady) [1 ..< length states + 1] of
        Some step \<Rightarrow> ring_at current step mod length states
      | None \<Rightarrow> length states)"

definition shadow_due :: "State \<Rightarrow> u64 \<Rightarrow> u64 \<Rightarrow> bool" where
  "shadow_due state turn taken \<longleftrightarrow> state = StRunning \<and> turn \<noteq> taken"

definition slice_needed :: "State list \<Rightarrow> bool" where
  "slice_needed states \<longleftrightarrow> list_ex (\<lambda>s. s = StReady) states"

section \<open>FP ownership\<close>

type_synonym Ownership = "nat option"

definition claim :: "nat \<Rightarrow> Ownership \<Rightarrow> nat option \<times> Ownership" where
  "claim current owner = (owner, Some current)"

definition trap_needed :: "nat \<Rightarrow> Ownership \<Rightarrow> bool" where
  "trap_needed resident owner \<longleftrightarrow> owner \<noteq> Some resident"

definition invalidate :: "nat \<Rightarrow> Ownership \<Rightarrow> Ownership" where
  "invalidate index owner = (if owner = Some index then None else owner)"

section \<open>Restart budget\<close>

definition kMaxRestarts :: nat where "kMaxRestarts = 3"

definition budget_take :: "nat \<Rightarrow> nat list \<Rightarrow> bool \<times> nat list" where
  "budget_take index counts =
     (if counts ! index \<ge> kMaxRestarts then (False, counts) else (True, counts[index := counts ! index + 1]))"

definition budget_refill :: "nat \<Rightarrow> nat list \<Rightarrow> nat list" where
  "budget_refill index counts = counts[index := 0]"

section \<open>The round-robin choice\<close>

text \<open>Every slot is reached by exactly one step of a scan from anywhere in the ring.\<close>

lemma ring_reaches:
  assumes "i < n" "\<And>c. current = Some c \<Longrightarrow> c < n"
  shows "\<exists>step. 1 \<le> step \<and> step \<le> n \<and> ring_at current step mod n = i"
proof (cases current)
  case None
  then show ?thesis using assms by (intro exI [of _ "i + 1"]) (simp add: ring_at_def)
next
  case (Some c)
  have c: "c < n" using assms(2) Some by simp
  show ?thesis
  proof (cases "c < i")
    case True
    then show ?thesis using assms(1) Some by (intro exI [of _ "i - c"]) (auto simp: ring_at_def)
  next
    case False
    have "(c + (n + i - c)) mod n = i" using False c assms(1) by simp
    then show ?thesis using False c assms(1) Some by (intro exI [of _ "n + i - c"]) (auto simp: ring_at_def)
  qed
qed

lemma pick_next_cases:
  obtains (none) "pick_next states current = length states"
      "\<And>step. 1 \<le> step \<Longrightarrow> step \<le> length states \<Longrightarrow> states ! (ring_at current step mod length states) \<noteq> StReady"
    | (some) k where "1 \<le> k" "k \<le> length states" "pick_next states current = ring_at current k mod length states"
      "states ! (ring_at current k mod length states) = StReady"
      "\<And>j. 1 \<le> j \<Longrightarrow> j < k \<Longrightarrow> states ! (ring_at current j mod length states) \<noteq> StReady"
proof -
  let ?P = "\<lambda>step. states ! (ring_at current step mod length states) = StReady"
  have up: "[1 ..< length states + 1] ! j = 1 + j" if "j < length states" for j using that by (simp del: upt_Suc)
  show thesis
  proof (cases "find ?P [1 ..< length states + 1]")
    case None
    have "pick_next states current = length states" unfolding pick_next_def None by simp
    moreover have "\<not> ?P step" if "1 \<le> step" "step \<le> length states" for step
      using None that by (auto simp: find_None_iff simp del: upt_Suc)
    ultimately show thesis by (rule none)
  next
    case (Some k)
    then obtain i where i: "i < length states" "?P ([1 ..< length states + 1] ! i)" "k = [1 ..< length states + 1] ! i"
        "\<forall>j < i. \<not> ?P ([1 ..< length states + 1] ! j)"
      by (auto simp: find_Some_iff simp del: upt_Suc)
    have k: "k = 1 + i" using i(1,3) up by simp
    have before: "\<not> ?P j" if "1 \<le> j" "j < k" for j
      using i(4) [rule_format, of "j - 1"] up [of "j - 1"] that k i(1) by simp
    have "pick_next states current = ring_at current k mod length states" unfolding pick_next_def Some by simp
    then show thesis using some [of k] i(1,2) k up before by simp
  qed
qed

lemma pick_next_ready:
  assumes "pick_next states current < length states"
  shows "states ! pick_next states current = StReady"
  using assms by (cases rule: pick_next_cases [of states current]) auto

lemma pick_next_le: "pick_next states current \<le> length states"
  by (cases rule: pick_next_cases [of states current]) (auto intro!: less_imp_le mod_less_divisor)

lemma pick_next_finds:
  assumes "i < length states" "states ! i = StReady" "\<And>c. current = Some c \<Longrightarrow> c < length states"
  shows "pick_next states current < length states"
proof (cases rule: pick_next_cases [of states current])
  case none
  obtain step where "1 \<le> step" "step \<le> length states" "ring_at current step mod length states = i"
    using ring_reaches [OF assms(1,3)] by auto
  then show ?thesis using none(2) assms(2) by blast
next
  case (some k)
  then show ?thesis by (auto intro!: mod_less_divisor)
qed

text \<open>How many places ahead of \<open>c\<close> the slot \<open>i\<close> is, at most the whole ring for \<open>c\<close> itself.\<close>

definition ahead :: "nat \<Rightarrow> nat \<Rightarrow> nat \<Rightarrow> nat" where
  "ahead n c i = (if c < i then i - c else n + i - c)"

lemma ahead_bounds: "c < n \<Longrightarrow> i < n \<Longrightarrow> 1 \<le> ahead n c i \<and> ahead n c i \<le> n"
  by (auto simp: ahead_def)

lemma ahead_lands:
  assumes "c < n" "i < n"
  shows "(c + ahead n c i) mod n = i"
  using assms by (auto simp: ahead_def)

lemma ahead_closer:
  assumes "c < n" "i < n" "1 \<le> k" "k < ahead n c i"
  shows "ahead n ((c + k) mod n) i = ahead n c i - k"
proof (cases "c < i")
  case True
  then have "c + k < i" using assms by (simp add: ahead_def)
  then show ?thesis using assms True by (simp add: ahead_def)
next
  case False
  then have a: "ahead n c i = n + i - c" by (simp add: ahead_def)
  show ?thesis
  proof (cases "c + k < n")
    case True
    then show ?thesis using False assms(3) by (simp add: ahead_def)
  next
    case w: False
    then have "(c + k) mod n = c + k - n" using assms a by (simp add: le_mod_geq)
    moreover have "c + k - n < i" "i - (c + k - n) = n + i - c - k" using w assms a False by linarith+
    ultimately show ?thesis using a by (simp add: ahead_def)
  qed
qed

lemma pick_next_closer:
  assumes "c < length states" "i < length states" "states ! i = StReady" "pick_next states (Some c) \<noteq> i"
  shows "ahead (length states) (pick_next states (Some c)) i < ahead (length states) c i"
proof (cases rule: pick_next_cases [of states "Some c"])
  case none
  then show ?thesis using pick_next_finds [OF assms(2,3), of "Some c"] assms(1) by simp
next
  case (some k)
  let ?n = "length states" and ?a = "ahead (length states) c i"
  have a: "1 \<le> ?a" "?a \<le> ?n" "(c + ?a) mod ?n = i"
    using ahead_bounds ahead_lands assms(1,2) by auto
  have "\<not> ?a < k" using some(5) [of ?a] a assms(3) by (auto simp: ring_at_def)
  moreover have "k \<noteq> ?a" using some(3) a(3) assms(4) by (auto simp: ring_at_def)
  ultimately show ?thesis
    using ahead_closer [OF assms(1,2), of k] some(1,3) by (simp add: ring_at_def)
qed

text \<open>
  C32. The scheduler starves nobody. A slot that stays runnable is chosen after at
  most as many switches as there are slots, whatever the other slots do between
  one switch and the next.
\<close>

theorem sched_no_starvation:
  fixes table :: "nat \<Rightarrow> State list" and cur :: "nat \<Rightarrow> nat"
  assumes "\<And>k. length (table k) = n" "cur 0 < n" "i < n"
    and "\<And>k. cur (Suc k) = pick_next (table k) (Some (cur k))"
    and "\<And>k. table k ! i = StReady"
  shows "\<exists>k. 1 \<le> k \<and> k \<le> n \<and> cur k = i"
proof (rule ccontr)
  assume never: "\<not> ?thesis"
  have "k \<le> n \<Longrightarrow> cur k < n \<and> ahead n (cur k) i + k \<le> ahead n (cur 0) i" for k
  proof (induction k)
    case 0
    then show ?case using assms(2) by simp
  next
    case (Suc k)
    have c: "cur k < n" using Suc by simp
    have "cur (Suc k) < n" using pick_next_finds [of i "table k" "Some (cur k)"] assms c by simp
    moreover have "cur (Suc k) \<noteq> i" using never Suc.prems by auto
    ultimately show ?case using pick_next_closer [of "cur k" "table k" i] Suc assms c by simp
  qed
  from this [of n] have "ahead n (cur n) i + n \<le> n" "cur n < n"
    using ahead_bounds [of "cur 0" n i] assms(2,3) by auto
  then show False using ahead_bounds [of "cur n" n i] assms(3) by simp
qed

lemma sched_no_starvation_witness:
  "\<exists>k. 1 \<le> k \<and> k \<le> 3 \<and> ((\<lambda>c. pick_next [StReady, StReady, StReady] (Some c)) ^^ k) 2 = 1"
  using sched_no_starvation [of "\<lambda>_. [StReady, StReady, StReady]" 3 "\<lambda>k. ((\<lambda>c. pick_next [StReady, StReady, StReady] (Some c)) ^^ k) 2" 1]
  by simp

text \<open>A VM that never cold-starts again is reset at most three times.\<close>

lemma budget_take_bound:
  assumes "index < length counts" "counts ! index \<le> kMaxRestarts"
  shows "snd (budget_take index counts) ! index \<le> kMaxRestarts"
    "fst (budget_take index counts) \<longleftrightarrow> snd (budget_take index counts) ! index = counts ! index + 1"
  using assms by (auto simp: budget_take_def)

end
