(* ===== verification/NovaQuiesce.thy ===== *)
theory NovaQuiesce
  imports NovaMachine
begin

text \<open>
  The pure models of \<open>smp\<close>: the quiesce tracker of \<open>quiesce_model.hpp\<close> and the
  outcome rule of \<open>dma_quiesce_model.hpp\<close>. The tracker is a template over the
  number of vCPUs; the parameter is the first argument where the code uses it.
\<close>

section \<open>DMA quiesce vocabulary\<close>

datatype DmaQuiesceOp = DqBegin | DqPoll | DqResume | DqCanStart
datatype DmaQuiesceResult = DqComplete | DqPending | DqFailed

definition dma_quiesce_outcome :: "bool \<Rightarrow> DmaQuiesceResult \<Rightarrow> DmaQuiesceResult" where
  "dma_quiesce_outcome handled result = (if handled then result else DqComplete)"

section \<open>Quiesce tracker\<close>

definition kMaxQuiesceRetries :: nat where "kMaxQuiesceRetries = 3"
definition kUnpublishedEpoch :: u64 where "kUnpublishedEpoch = - 1"

datatype AckResult = AckIgnored | AckPending | AckReady
datatype TimeoutResult = ToIgnored | ToRetry | ToFailed

record QuiescePlan =
  qp_accepted :: bool
  qp_epoch :: u64
  qp_pending_mask :: u32

record QuiesceTracker =
  qt_epoch :: u64
  qt_pending_mask :: u32
  qt_retries :: nat
  qt_active :: bool

definition tracker_init :: QuiesceTracker where
  "tracker_init = \<lparr>qt_epoch = 0, qt_pending_mask = 0, qt_retries = 0, qt_active = False\<rparr>"

definition allowed_mask :: "nat \<Rightarrow> u32" where
  "allowed_mask n = (if n = 32 then NOT 0 else push_bit n 1 - 1)"

definition begin_epoch :: "u64 \<Rightarrow> u64" where
  "begin_epoch epoch = (let n = epoch + 1 in if n = 0 \<or> n = kUnpublishedEpoch then 1 else n)"

definition tracker_begin :: "nat \<Rightarrow> u32 \<Rightarrow> QuiesceTracker \<Rightarrow> QuiescePlan \<times> QuiesceTracker" where
  "tracker_begin n live_mask t =
     (if qt_active t then (\<lparr>qp_accepted = False, qp_epoch = 0, qp_pending_mask = 0\<rparr>, t)
      else let e = begin_epoch (qt_epoch t); m = live_mask AND allowed_mask n in
        (\<lparr>qp_accepted = True, qp_epoch = e, qp_pending_mask = m\<rparr>,
         \<lparr>qt_epoch = e, qt_pending_mask = m, qt_retries = 0, qt_active = True\<rparr>))"

definition tracker_acknowledge :: "nat \<Rightarrow> nat \<Rightarrow> u64 \<Rightarrow> QuiesceTracker \<Rightarrow> AckResult \<times> QuiesceTracker" where
  "tracker_acknowledge n vcpu epoch t =
     (if \<not> qt_active t \<or> epoch \<noteq> qt_epoch t \<or> vcpu \<ge> n then (AckIgnored, t)
      else let b = push_bit vcpu 1 in
        if qt_pending_mask t AND b = 0 then (AckIgnored, t)
        else let m = qt_pending_mask t AND NOT b in
          (if m = 0 then AckReady else AckPending, t\<lparr>qt_pending_mask := m\<rparr>))"

definition tracker_ready :: "QuiesceTracker \<Rightarrow> bool" where
  "tracker_ready t \<longleftrightarrow> qt_active t \<and> qt_pending_mask t = 0"

definition tracker_on_timeout :: "u64 \<Rightarrow> QuiesceTracker \<Rightarrow> TimeoutResult \<times> QuiesceTracker" where
  "tracker_on_timeout epoch t =
     (if \<not> qt_active t \<or> epoch \<noteq> qt_epoch t \<or> tracker_ready t then (ToIgnored, t)
      else if qt_retries t \<ge> kMaxQuiesceRetries then (ToFailed, t)
      else (ToRetry, t\<lparr>qt_retries := qt_retries t + 1\<rparr>))"

definition tracker_finish :: "QuiesceTracker \<Rightarrow> bool \<times> QuiesceTracker" where
  "tracker_finish t = (if \<not> tracker_ready t then (False, t) else (True, t\<lparr>qt_active := False\<rparr>))"

definition tracker_cancel :: "QuiesceTracker \<Rightarrow> QuiesceTracker" where
  "tracker_cancel t = t\<lparr>qt_active := False, qt_pending_mask := 0, qt_retries := 0\<rparr>"

section \<open>Facts\<close>

lemma begin_epoch_live: "begin_epoch e \<noteq> 0" "begin_epoch e \<noteq> kUnpublishedEpoch"
  by (auto simp: begin_epoch_def Let_def kUnpublishedEpoch_def)

lemma bit_allowed_mask: "n \<le> 32 \<Longrightarrow> bit (allowed_mask n) v \<longleftrightarrow> v < n"
  by (auto simp: allowed_mask_def bit_simps mask_eq_exp_minus_1 [symmetric] simp flip: push_bit_eq_mult)

end
