(* ===== verification/NovaVcpu.thy ===== *)
theory NovaVcpu
  imports NovaSchedModel NovaQuiesce NovaTimer NovaTrap NovaGuest
begin

text \<open>
  The component \<open>core_vcpu\<close>, first half: its state (\<open>core_vcpu.hpp\<close>,
  \<open>vcpu_internal.hpp\<close>, the EL1 and FP banks of \<open>hal/arch/aarch64/guest\<close>) and the
  per-core scheduler of \<open>sched.cpp\<close>.

  The state is one record shared by all cores. Arrays per slot, per core and per
  VM are lists; a core is named by its index, which is \<open>cpu::id()\<close> in the code.
  The trap frame a handler gets by pointer is the frame of its core, and the
  registers of a core are fields of its hardware record. What the scheduler reads
  from outside in one call (the guest table, the clock, the telemetry turn, EISR)
  is an environment record; the components it notifies are functions on their own
  state. The caches \<open>g_affinity\<close>, \<open>g_slot_valid\<close> and \<open>g_count\<close> are functions of the
  boot-immutable guest table, as \<open>init\<close> fills them.

  The wait loops are cut at \<open>wfi\<close>: a pass that finds nothing to run leaves the core
  idling, and the pass after the interrupt drain is a call of its own.
\<close>

section \<open>Register banks\<close>

record El1SysregBank =
  e1_vbar :: u64
  e1_elr :: u64
  e1_spsr :: u64
  e1_sp_el0 :: u64
  e1_cntv_ctl :: u64
  e1_cntv_cval :: u64
  e1_cntkctl :: u64
  e1_sctlr :: u64
  e1_tcr :: u64
  e1_ttbr0 :: u64
  e1_ttbr1 :: u64
  e1_mair :: u64
  e1_amair :: u64
  e1_contextidr :: u64
  e1_cpacr :: u64
  e1_tpidr_el0 :: u64
  e1_tpidrro :: u64
  e1_tpidr_el1 :: u64
  e1_esr :: u64
  e1_far :: u64
  e1_afsr0 :: u64
  e1_afsr1 :: u64
  e1_par :: u64
  e1_mdscr :: u64
  e1_csselr :: u64

definition kSctlrEl1Reset :: u64 where "kSctlrEl1Reset = 0x30D00800"

definition el1_reset :: El1SysregBank where
  "el1_reset = \<lparr>e1_vbar = 0, e1_elr = 0, e1_spsr = 0, e1_sp_el0 = 0, e1_cntv_ctl = 0, e1_cntv_cval = 0, e1_cntkctl = 0,
     e1_sctlr = kSctlrEl1Reset, e1_tcr = 0, e1_ttbr0 = 0, e1_ttbr1 = 0, e1_mair = 0, e1_amair = 0, e1_contextidr = 0,
     e1_cpacr = 0, e1_tpidr_el0 = 0, e1_tpidrro = 0, e1_tpidr_el1 = 0, e1_esr = 0, e1_far = 0, e1_afsr0 = 0, e1_afsr1 = 0,
     e1_par = 0, e1_mdscr = 0, e1_csselr = 0\<rparr>"

record FpBank =
  fb_q :: "u64 list"
  fb_fpsr :: u64
  fb_fpcr :: u64

definition fp_reset :: FpBank where "fp_reset = \<lparr>fb_q = replicate 64 0, fb_fpsr = 0, fb_fpcr = 0\<rparr>"

definition ctx_zero :: TrapContext where
  "ctx_zero = \<lparr>tc_x = replicate kNumGpRegs 0, tc_sp = 0, tc_elr = 0, tc_spsr = 0, tc_esr = 0, tc_far = 0\<rparr>"

section \<open>State\<close>

definition kSpsrEl1h :: u64 where "kSpsrEl1h = 0x3C5"
definition kSliceMs :: u64 where "kSliceMs = 10"
definition kSliceSpan :: u64 where "kSliceSpan = 10"
definition kSliceUs :: u64 where "kSliceUs = kSliceMs * 1000"
definition kSliceMinUs :: u64 where "kSliceMinUs = kSliceUs div kSliceSpan"
definition kSliceMaxUs :: u64 where "kSliceMaxUs = kSliceUs * kSliceSpan"
definition kCntCtlEnable :: u64 where "kCntCtlEnable = push_bit 0 1"
definition kCntCtlImask :: u64 where "kCntCtlImask = push_bit 1 1"

definition kSlotSlice :: nat where "kSlotSlice = 0"
definition kSlotLegacyTimer :: nat where "kSlotLegacyTimer = 1"
definition kSlotCntvWake :: nat where "kSlotCntvWake = 2"
definition kSlotWatchdog :: nat where "kSlotWatchdog = kSlotCntvWake + kMaxVcpus"
definition kSlotLifecycle :: nat where "kSlotLifecycle = kSlotWatchdog + kMaxGuests"
definition kSlotDmaDrain :: nat where "kSlotDmaDrain = kSlotLifecycle + kMaxGuests"
definition kSlotCommand :: nat where "kSlotCommand = kSlotDmaDrain + kMaxGuests"
definition kSlotTelemetry :: nat where "kSlotTelemetry = kSlotCommand + 1"
definition kSlotCount :: nat where "kSlotCount = kSlotTelemetry + 1"

text \<open>The callbacks the code arms, by what they run.\<close>

datatype TimerCb = CbSlice | CbCntvWake | CbLegacy | CbWatchdog | CbLifecycle | CbDmaDrain | CbCommand | CbTelemetry

datatype PowerState = PwOff | PwOnPending | PwOn

record Vcpu =
  vc_ctx :: TrapContext
  vc_el1 :: El1SysregBank
  vc_fp :: FpBank
  vc_synced_at :: u64
  vc_state :: State

record CpuSched =
  cs_current :: "nat option"
  cs_since :: u64
  cs_fp :: Ownership
  cs_fp_trap :: bool
  cs_idling :: bool

text \<open>
  The registers of a core the scheduler moves: the live trap frame, the EL1 and
  FP files, the FP trap, the Stage 2 of a VM, VMPIDR, CNTVOFF. \<open>ch_entered\<close> is
  set once the core has left its boot loop for a guest; \<open>ch_halted\<close> once it
  stopped for good. The interrupt dispatcher adds its two per-core fields.
\<close>

record CoreHw =
  ch_frame :: TrapContext
  ch_el1 :: El1SysregBank
  ch_fp :: FpBank
  ch_tfp :: bool
  ch_vm :: "nat option"
  ch_vmpidr :: nat
  ch_cntvoff :: u64
  ch_entered :: bool
  ch_halted :: bool
  ch_dispatching :: bool
  ch_epilogue :: bool

record 'd VcpuWorld =
  w_vcpus :: "Vcpu list"
  w_sched :: "CpuSched list"
  w_published :: "PowerState list"
  w_cntvoff :: "u64 list"
  w_generation :: "u64 list"
  w_budget :: "nat list"
  w_alive :: u64
  w_transitions :: u64
  w_slice_ticks :: u64
  w_started :: bool
  w_halt_announced :: bool
  w_panic :: bool
  w_timers :: "TimerCb SoftTimer list"
  w_vgic :: Vgic
  w_hw :: "CoreHw list"
  w_dev :: 'd

text \<open>
  The peers: subscribers of the VM reset service with the console, the image
  reload of \<open>core_mmu\<close>, the subscribers of virtual EOIs, and the subscriber of
  the DMA quiesce service (whether it claimed the call, its verdict).
\<close>

record 'd Peers =
  pr_vm_reset :: "nat \<Rightarrow> 'd \<Rightarrow> 'd"
  pr_reload :: "nat \<Rightarrow> 'd \<Rightarrow> 'd"
  pr_eoi :: "VgicEvent \<Rightarrow> 'd \<Rightarrow> 'd"
  pr_dma :: "DmaQuiesceOp \<Rightarrow> nat \<Rightarrow> u64 \<Rightarrow> 'd \<Rightarrow> (bool \<times> DmaQuiesceResult) \<times> 'd"

record 'd Env =
  en_guests :: "GuestDescriptor list"
  en_peers :: "'d Peers"
  en_now :: u64
  en_turn :: u64
  en_hz :: u64
  en_eisr :: "Ich \<Rightarrow> u64"
  en_spoken :: bool

definition g_count :: "'d Env \<Rightarrow> nat" where
  "g_count e = min (length (en_guests e)) kMaxGuests * kMaxVcpusPerVm"

definition affinity :: "'d Env \<Rightarrow> nat \<Rightarrow> nat" where
  "affinity e slot = unat (gd_cpu (en_guests e ! vm_of slot) ! vcpu_of slot)"

definition valid_slot :: "'d Env \<Rightarrow> nat \<Rightarrow> bool" where
  "valid_slot e slot \<longleftrightarrow> slot < g_count e \<and> vcpu_of slot < unat (gd_vcpus (en_guests e ! vm_of slot))"

abbreviation guest_vcpus :: "'d Env \<Rightarrow> nat \<Rightarrow> nat" where
  "guest_vcpus e vm \<equiv> unat (gd_vcpus (en_guests e ! vm))"

abbreviation vcpu_table :: "'d Env \<Rightarrow> nat list" where
  "vcpu_table e \<equiv> map (\<lambda>g. unat (gd_vcpus g)) (en_guests e)"

section \<open>Field updates\<close>

definition upd_vcpu :: "nat \<Rightarrow> (Vcpu \<Rightarrow> Vcpu) \<Rightarrow> ('d, 'z) VcpuWorld_scheme \<Rightarrow> ('d, 'z) VcpuWorld_scheme" where
  "upd_vcpu i f w = w\<lparr>w_vcpus := (w_vcpus w)[i := f (w_vcpus w ! i)]\<rparr>"

definition upd_sched :: "nat \<Rightarrow> (CpuSched \<Rightarrow> CpuSched) \<Rightarrow> ('d, 'z) VcpuWorld_scheme \<Rightarrow> ('d, 'z) VcpuWorld_scheme" where
  "upd_sched i f w = w\<lparr>w_sched := (w_sched w)[i := f (w_sched w ! i)]\<rparr>"

definition upd_hw :: "nat \<Rightarrow> (CoreHw \<Rightarrow> CoreHw) \<Rightarrow> ('d, 'z) VcpuWorld_scheme \<Rightarrow> ('d, 'z) VcpuWorld_scheme" where
  "upd_hw i f w = w\<lparr>w_hw := (w_hw w)[i := f (w_hw w ! i)]\<rparr>"

definition set_state :: "nat \<Rightarrow> State \<Rightarrow> ('d, 'z) VcpuWorld_scheme \<Rightarrow> ('d, 'z) VcpuWorld_scheme" where
  "set_state i s = upd_vcpu i (\<lambda>v. v\<lparr>vc_state := s\<rparr>)"

definition arm_timer :: "nat \<Rightarrow> nat \<Rightarrow> u64 \<Rightarrow> TimerCb \<Rightarrow> u64 \<Rightarrow> ('d, 'z) VcpuWorld_scheme \<Rightarrow> ('d, 'z) VcpuWorld_scheme" where
  "arm_timer core s dl cb arg w = w\<lparr>w_timers := (w_timers w)[core := arm s dl cb arg (w_timers w ! core)]\<rparr>"

definition cancel_timer :: "nat \<Rightarrow> nat \<Rightarrow> ('d, 'z) VcpuWorld_scheme \<Rightarrow> ('d, 'z) VcpuWorld_scheme" where
  "cancel_timer core s w = w\<lparr>w_timers := (w_timers w)[core := cancel s (w_timers w ! core)]\<rparr>"

definition publish_power :: "nat \<Rightarrow> PowerState \<Rightarrow> ('d, 'z) VcpuWorld_scheme \<Rightarrow> ('d, 'z) VcpuWorld_scheme" where
  "publish_power slot p w = w\<lparr>w_published := (w_published w)[slot := p]\<rparr>"

definition publish_cntvoff :: "nat \<Rightarrow> u64 \<Rightarrow> ('d, 'z) VcpuWorld_scheme \<Rightarrow> ('d, 'z) VcpuWorld_scheme" where
  "publish_cntvoff vm v w = w\<lparr>w_cntvoff := (w_cntvoff w)[vm := v]\<rparr>"

abbreviation st :: "('d, 'z) VcpuWorld_scheme \<Rightarrow> nat \<Rightarrow> State" where "st w i \<equiv> vc_state (w_vcpus w ! i)"
abbreviation cur :: "('d, 'z) VcpuWorld_scheme \<Rightarrow> nat \<Rightarrow> nat option" where "cur w core \<equiv> cs_current (w_sched w ! core)"

definition deliver_eois :: "'d Env \<Rightarrow> VgicEvent list \<Rightarrow> ('d, 'z) VcpuWorld_scheme \<Rightarrow> ('d, 'z) VcpuWorld_scheme" where
  "deliver_eois e ev w = w\<lparr>w_dev := fold (pr_eoi (en_peers e)) ev (w_dev w)\<rparr>"

section \<open>Scheduler\<close>

definition seed_fp_trap :: "nat \<Rightarrow> bool \<Rightarrow> ('d, 'z) VcpuWorld_scheme \<Rightarrow> ('d, 'z) VcpuWorld_scheme" where
  "seed_fp_trap core trap w = upd_sched core (\<lambda>c. c\<lparr>cs_fp_trap := trap\<rparr>) (upd_hw core (\<lambda>h. h\<lparr>ch_tfp := trap\<rparr>) w)"

definition switch_fp_trap :: "nat \<Rightarrow> bool \<Rightarrow> ('d, 'z) VcpuWorld_scheme \<Rightarrow> ('d, 'z) VcpuWorld_scheme" where
  "switch_fp_trap core trap w = (if cs_fp_trap (w_sched w ! core) \<noteq> trap then seed_fp_trap core trap w else w)"

definition states :: "'d Env \<Rightarrow> nat \<Rightarrow> ('d, 'z) VcpuWorld_scheme \<Rightarrow> State list" where
  "states e core w = map (\<lambda>i. if affinity e i = core then st w i else StOff) [0 ..< g_count e]"

definition pick :: "'d Env \<Rightarrow> nat \<Rightarrow> ('d, 'z) VcpuWorld_scheme \<Rightarrow> nat" where
  "pick e core w = pick_next (states e core w) (cur w core)"

definition reschedule_slice :: "'d Env \<Rightarrow> nat \<Rightarrow> ('d, 'z) VcpuWorld_scheme \<Rightarrow> ('d, 'z) VcpuWorld_scheme" where
  "reschedule_slice e core w =
     (if cur w core \<noteq> None \<and> slice_needed (states e core w)
      then arm_timer core kSlotSlice (en_now e + w_slice_ticks w) CbSlice 0 w
      else cancel_timer core kSlotSlice w)"

definition park :: "'d Env \<Rightarrow> nat \<Rightarrow> nat \<Rightarrow> ('d, 'z) VcpuWorld_scheme \<Rightarrow> ('d, 'z) VcpuWorld_scheme" where
  "park e core c w =
     (let h = w_hw w ! core;
          w1 = upd_vcpu c (\<lambda>v. v\<lparr>vc_ctx := ch_frame h, vc_el1 := ch_el1 h, vc_synced_at := en_turn e\<rparr>) w;
          (g, ev) = cpu_save (en_eisr e) core (en_turn e) c (w_vgic w1);
          w2 = deliver_eois e ev (w1\<lparr>w_vgic := g\<rparr>) in
      if st w2 c = StRunning then set_state c StReady w2 else w2)"

definition load_regs :: "'d Env \<Rightarrow> nat \<Rightarrow> nat \<Rightarrow> ('d, 'z) VcpuWorld_scheme \<Rightarrow> ('d, 'z) VcpuWorld_scheme" where
  "load_regs e core next w =
     (upd_hw core (\<lambda>h. h\<lparr>ch_el1 := vc_el1 (w_vcpus w ! next), ch_vm := Some (vm_of next), ch_vmpidr := vcpu_of next,
        ch_cntvoff := w_cntvoff w ! vm_of next\<rparr>) w)
       \<lparr>w_vgic := cpu_restore (vcpu_table e) core (en_turn e) next (w_vgic w)\<rparr>"

definition make_resident :: "'d Env \<Rightarrow> nat \<Rightarrow> nat \<Rightarrow> ('d, 'z) VcpuWorld_scheme \<Rightarrow> ('d, 'z) VcpuWorld_scheme" where
  "make_resident e core next w =
     reschedule_slice e core (upd_sched core (\<lambda>c. c\<lparr>cs_current := Some next, cs_since := en_now e\<rparr>) (set_state next StRunning w))"

definition switch_to :: "'d Env \<Rightarrow> nat \<Rightarrow> nat \<Rightarrow> ('d, 'z) VcpuWorld_scheme \<Rightarrow> ('d, 'z) VcpuWorld_scheme" where
  "switch_to e core next w =
     (let w1 = (case cur w core of None \<Rightarrow> w | Some c \<Rightarrow> park e core c w);
          w2 = upd_hw core (\<lambda>h. h\<lparr>ch_frame := vc_ctx (w_vcpus w1 ! next)\<rparr>) w1;
          w3 = load_regs e core next w2;
          w4 = switch_fp_trap core (trap_needed next (cs_fp (w_sched w3 ! core))) w3 in
      make_resident e core next w4)"

text \<open>One pass of the loop of \<open>schedule_out\<close>, up to its return, its halt or its \<open>wfi\<close>.\<close>

definition schedule_out :: "'d Env \<Rightarrow> nat \<Rightarrow> ('d, 'z) VcpuWorld_scheme \<Rightarrow> ('d, 'z) VcpuWorld_scheme" where
  "schedule_out e core w =
     (let next = pick e core w in
      if next < g_count e
      then if Some next = cur w core then reschedule_slice e core (set_state next StRunning w)
           else switch_to e core next w
      else if w_alive w = 0 \<and> w_transitions w = 0 \<and> \<not> en_spoken e \<and> \<not> w_halt_announced w
      then upd_hw core (\<lambda>h. h\<lparr>ch_halted := True\<rparr>) (w\<lparr>w_halt_announced := True\<rparr>)
      else upd_sched core (\<lambda>c. c\<lparr>cs_idling := True\<rparr>) w)"

text \<open>After the drain that ended the wait: unwind for a running resident, else pick again.\<close>

definition after_drain :: "'d Env \<Rightarrow> nat \<Rightarrow> ('d, 'z) VcpuWorld_scheme \<Rightarrow> ('d, 'z) VcpuWorld_scheme" where
  "after_drain e core w =
     (let w1 = upd_sched core (\<lambda>c. c\<lparr>cs_idling := False\<rparr>) w in
      case cur w1 core of
        Some c \<Rightarrow> if st w1 c = StRunning then w1 else schedule_out e core w1
      | None \<Rightarrow> schedule_out e core w1)"

text \<open>One pass of the loop of \<open>enter_cpu\<close>: the first entry loads PC, SP, PSTATE and x0, the rest is zero.\<close>

definition enter_cpu :: "'d Env \<Rightarrow> nat \<Rightarrow> ('d, 'z) VcpuWorld_scheme \<Rightarrow> ('d, 'z) VcpuWorld_scheme" where
  "enter_cpu e core w =
     (let w0 = upd_sched core (\<lambda>c. c\<lparr>cs_idling := False\<rparr>) (w\<lparr>w_started := True\<rparr>);
          next = pick e core w0 in
      if next < g_count e
      then let w1 = load_regs e core next w0;
               w2 = seed_fp_trap core (trap_needed next (cs_fp (w_sched w1 ! core))) w1;
               w3 = make_resident e core next w2;
               v = vc_ctx (w_vcpus w3 ! next) in
           upd_hw core (\<lambda>h. h\<lparr>ch_frame := ctx_zero\<lparr>tc_x := (tc_x ctx_zero)[0 := tc_x v ! 0], tc_sp := tc_sp v,
             tc_elr := tc_elr v, tc_spsr := tc_spsr v\<rparr>, ch_entered := True\<rparr>) w3
      else upd_sched core (\<lambda>c. c\<lparr>cs_idling := True\<rparr>) w0)"

definition sync_resident :: "'d Env \<Rightarrow> nat \<Rightarrow> ('d, 'z) VcpuWorld_scheme \<Rightarrow> ('d, 'z) VcpuWorld_scheme" where
  "sync_resident e core w =
     (case cur w core of None \<Rightarrow> w
      | Some c \<Rightarrow>
         (let v = w_vcpus w ! c; h = w_hw w ! core in
          if \<not> shadow_due (vc_state v) (en_turn e) (vc_synced_at v) then w
          else upd_vcpu c (\<lambda>v. v\<lparr>vc_ctx := ch_frame h, vc_el1 := ch_el1 h, vc_synced_at := en_turn e\<rparr>) w))"

definition set_slice_us :: "'d Env \<Rightarrow> nat \<Rightarrow> u64 \<Rightarrow> ('d, 'z) VcpuWorld_scheme \<Rightarrow> bool \<times> ('d, 'z) VcpuWorld_scheme" where
  "set_slice_us e core us w =
     (if us < kSliceMinUs \<or> us > kSliceMaxUs then (False, w)
      else let plan = us_to_ticks (en_hz e) us in
        if \<not> tp_accepted plan then (False, w)
        else (True, reschedule_slice e core (w\<lparr>w_slice_ticks := tp_ticks plan\<rparr>)))"

definition yield_current :: "'d Env \<Rightarrow> nat \<Rightarrow> ('d, 'z) VcpuWorld_scheme \<Rightarrow> ('d, 'z) VcpuWorld_scheme" where
  "yield_current e core w =
     (if cur w core = None then w
      else let next = pick e core w in
        if next < g_count e \<and> Some next \<noteq> cur w core then switch_to e core next w else w)"

definition on_slice :: "'d Env \<Rightarrow> nat \<Rightarrow> ('d, 'z) VcpuWorld_scheme \<Rightarrow> ('d, 'z) VcpuWorld_scheme" where
  "on_slice e core w = reschedule_slice e core (yield_current e core w)"

text \<open>The caller of \<open>block_current\<close> is resident: its slot is \<open>self\<close>.\<close>

definition block_current :: "'d Env \<Rightarrow> nat \<Rightarrow> nat \<Rightarrow> ('d, 'z) VcpuWorld_scheme \<Rightarrow> ('d, 'z) VcpuWorld_scheme" where
  "block_current e core self w =
     (let w1 = set_state self StBlocked w;
          ctl = e1_cntv_ctl (ch_el1 (w_hw w1 ! core));
          w2 = (if ctl AND kCntCtlEnable \<noteq> 0 \<and> ctl AND kCntCtlImask = 0
                then arm_timer core (kSlotCntvWake + self)
                       (e1_cntv_cval (ch_el1 (w_hw w1 ! core)) + w_cntvoff w1 ! vm_of self) CbCntvWake (of_nat self) w1
                else w1) in
      schedule_out e core w2)"

definition wake :: "'d Env \<Rightarrow> nat \<Rightarrow> nat \<Rightarrow> ('d, 'z) VcpuWorld_scheme \<Rightarrow> ('d, 'z) VcpuWorld_scheme" where
  "wake e core index w =
     (if \<not> valid_slot e index \<or> st w index \<noteq> StBlocked then w
      else reschedule_slice e core (cancel_timer core (kSlotCntvWake + index) (set_state index StReady w)))"

text \<open>
  \<open>live\<close> says whether the caller has a frame to switch away from; without one
  outside interrupt dispatch the code panics.
\<close>

definition schedule_after_retire :: "'d Env \<Rightarrow> nat \<Rightarrow> bool \<Rightarrow> ('d, 'z) VcpuWorld_scheme \<Rightarrow> ('d, 'z) VcpuWorld_scheme" where
  "schedule_after_retire e core live w =
     (if cs_idling (w_sched w ! core) then w
      else if ch_dispatching (w_hw w ! core) then upd_hw core (\<lambda>h. h\<lparr>ch_epilogue := True\<rparr>) w
      else if \<not> live then w\<lparr>w_panic := True\<rparr>
      else schedule_out e core w)"

definition handle_fp_simd :: "'d Env \<Rightarrow> nat \<Rightarrow> nat \<Rightarrow> ('d, 'z) VcpuWorld_scheme \<Rightarrow> ('d, 'z) VcpuWorld_scheme" where
  "handle_fp_simd e core self w =
     (let w1 = seed_fp_trap core False w;
          (prev, owner) = claim self (cs_fp (w_sched w1 ! core));
          w2 = upd_sched core (\<lambda>c. c\<lparr>cs_fp := owner\<rparr>) w1 in
      if prev = Some self then w2
      else let w3 = (case prev of None \<Rightarrow> w2 | Some p \<Rightarrow> upd_vcpu p (\<lambda>v. v\<lparr>vc_fp := ch_fp (w_hw w2 ! core)\<rparr>) w2) in
        upd_hw core (\<lambda>h. h\<lparr>ch_fp := vc_fp (w_vcpus w3 ! self)\<rparr>) w3)"

definition handle_wfx :: "'d Env \<Rightarrow> nat \<Rightarrow> nat \<Rightarrow> bool \<Rightarrow> ('d, 'z) VcpuWorld_scheme \<Rightarrow> ('d, 'z) VcpuWorld_scheme" where
  "handle_wfx e core self is_wfe w =
     (if is_wfe then yield_current e core w
      else let (woken, g) = reevaluate (vcpu_table e) core (en_turn e) self (w_vgic w); w1 = w\<lparr>w_vgic := g\<rparr> in
        if woken then w1 else block_current e core self w1)"

text \<open>\<open>HVC_YIELD\<close>: the result is written before the frame is parked.\<close>

definition handle_yield :: "'d Env \<Rightarrow> nat \<Rightarrow> ('d, 'z) VcpuWorld_scheme \<Rightarrow> ('d, 'z) VcpuWorld_scheme" where
  "handle_yield e core w = yield_current e core (upd_hw core (\<lambda>h. h\<lparr>ch_frame := set_x 0 0 (ch_frame h)\<rparr>) w)"

definition power_state :: "'d Env \<Rightarrow> nat \<Rightarrow> ('d, 'z) VcpuWorld_scheme \<Rightarrow> PowerState" where
  "power_state e slot w = (if valid_slot e slot then w_published w ! slot else PwOff)"

definition vcpu_on :: "'d Env \<Rightarrow> nat \<Rightarrow> ('d, 'z) VcpuWorld_scheme \<Rightarrow> bool" where
  "vcpu_on e slot w \<longleftrightarrow> power_state e slot w \<noteq> PwOff"

end
