(* ===== verification/NovaLifecycle.thy ===== *)
theory NovaLifecycle
  imports NovaVcpu
begin

text \<open>
  The component \<open>core_vcpu\<close>, second half: \<open>lifecycle.cpp\<close>, the VM lifecycle on the
  owner core. Starts and resets are split in a prepare and a publish half; the
  published power state is the only view other cores get. The restore report and
  the console lines are output. \<open>sync::next_nonzero\<close> is one atomic step.
\<close>

section \<open>Seeding\<close>

definition next_nonzero :: "u64 \<Rightarrow> u64" where
  "next_nonzero c = (if c + 1 = 0 then 1 else c + 1)"

definition advance_vm_generation :: "nat \<Rightarrow> ('d, 'z) VcpuWorld_scheme \<Rightarrow> ('d, 'z) VcpuWorld_scheme" where
  "advance_vm_generation vm w = w\<lparr>w_generation := (w_generation w)[vm := next_nonzero (w_generation w ! vm)]\<rparr>"

definition seed_context ::
  "'d Env \<Rightarrow> nat \<Rightarrow> u64 \<Rightarrow> u64 \<Rightarrow> u64 \<Rightarrow> ('d, 'z) VcpuWorld_scheme \<Rightarrow> ('d, 'z) VcpuWorld_scheme" where
  "seed_context e slot entry sp arg =
     upd_vcpu slot (\<lambda>v. v\<lparr>vc_ctx := ctx_zero\<lparr>tc_elr := entry, tc_sp := sp, tc_x := (tc_x ctx_zero)[0 := arg], tc_spsr := kSpsrEl1h\<rparr>,
       vc_el1 := el1_reset, vc_fp := fp_reset, vc_synced_at := en_turn e\<rparr>)"

definition reseed_owner_state :: "'d Env \<Rightarrow> nat \<Rightarrow> nat \<Rightarrow> ('d, 'z) VcpuWorld_scheme \<Rightarrow> ('d, 'z) VcpuWorld_scheme" where
  "reseed_owner_state e core slot w =
     (let w1 = upd_sched core (\<lambda>c. c\<lparr>cs_fp := invalidate slot (cs_fp c)\<rparr>) w;
          w2 = w1\<lparr>w_vgic := cpu_reset (en_turn e) slot (w_vgic w1)\<rparr> in
      cancel_timer core (kSlotCntvWake + slot) w2)"

definition seed :: "'d Env \<Rightarrow> nat \<Rightarrow> nat \<Rightarrow> u64 \<Rightarrow> u64 \<Rightarrow> u64 \<Rightarrow> ('d, 'z) VcpuWorld_scheme \<Rightarrow> ('d, 'z) VcpuWorld_scheme" where
  "seed e core slot entry sp arg w = reseed_owner_state e core slot (seed_context e slot entry sp arg w)"

definition seed_boot_context :: "'d Env \<Rightarrow> nat \<Rightarrow> ('d, 'z) VcpuWorld_scheme \<Rightarrow> ('d, 'z) VcpuWorld_scheme" where
  "seed_boot_context e slot =
     (let g = en_guests e ! vm_of slot in
      seed_context e slot (gd_entry_pc g) (gd_stack_top g) (if gd_dtb_size g \<noteq> 0 then gd_dtb_ipa g else 0))"

definition seed_boot :: "'d Env \<Rightarrow> nat \<Rightarrow> nat \<Rightarrow> ('d, 'z) VcpuWorld_scheme \<Rightarrow> ('d, 'z) VcpuWorld_scheme" where
  "seed_boot e core slot w = reseed_owner_state e core slot (seed_boot_context e slot w)"

section \<open>Published state\<close>

definition vm_has_live :: "'d Env \<Rightarrow> nat \<Rightarrow> nat option \<Rightarrow> ('d, 'z) VcpuWorld_scheme \<Rightarrow> bool" where
  "vm_has_live e vm except w \<longleftrightarrow>
     list_ex (\<lambda>v. Some (slot_of vm v) \<noteq> except \<and> w_published w ! slot_of vm v \<noteq> PwOff) [0 ..< guest_vcpus e vm]"

definition vm_on :: "'d Env \<Rightarrow> nat \<Rightarrow> ('d, 'z) VcpuWorld_scheme \<Rightarrow> bool" where
  "vm_on e vm w \<longleftrightarrow> vm < length (en_guests e) \<and> vm_has_live e vm None w"

definition vm_generation :: "'d Env \<Rightarrow> nat \<Rightarrow> ('d, 'z) VcpuWorld_scheme \<Rightarrow> u64" where
  "vm_generation e vm w = (if vm < length (en_guests e) then w_generation w ! vm else 0)"

definition begin_lifecycle_transition :: "('d, 'z) VcpuWorld_scheme \<Rightarrow> ('d, 'z) VcpuWorld_scheme" where
  "begin_lifecycle_transition w = w\<lparr>w_transitions := w_transitions w + 1\<rparr>"

definition end_lifecycle_transition :: "('d, 'z) VcpuWorld_scheme \<Rightarrow> ('d, 'z) VcpuWorld_scheme" where
  "end_lifecycle_transition w = w\<lparr>w_transitions := w_transitions w - 1\<rparr>"

definition add_alive :: "u64 \<Rightarrow> ('d, 'z) VcpuWorld_scheme \<Rightarrow> ('d, 'z) VcpuWorld_scheme" where
  "add_alive n w = w\<lparr>w_alive := w_alive w + n\<rparr>"

definition reset_vm_devices :: "'d Env \<Rightarrow> nat \<Rightarrow> ('d, 'z) VcpuWorld_scheme \<Rightarrow> ('d, 'z) VcpuWorld_scheme" where
  "reset_vm_devices e vm w = w\<lparr>w_vgic := vm_reset vm (w_vgic w), w_dev := pr_vm_reset (en_peers e) vm (w_dev w)\<rparr>"

section \<open>Boot\<close>

text \<open>\<open>init\<close> on the boot core, over the zero-initialized arrays.\<close>

definition vcpu_init :: "'d Env \<Rightarrow> nat \<Rightarrow> ('d, 'z) VcpuWorld_scheme \<Rightarrow> ('d, 'z) VcpuWorld_scheme" where
  "vcpu_init e core w =
     (let w1 = w\<lparr>w_published := replicate kMaxVcpus PwOff, w_cntvoff := replicate kMaxGuests 0,
                 w_generation := replicate kMaxGuests 0\<rparr>;
          w2 = fold (\<lambda>i w. if valid_slot e i then seed_boot_context e i w else w) [0 ..< g_count e] w1;
          w3 = advance_vm_generation 0 (set_state (slot_of 0 0) StReady w2);
          w4 = publish_cntvoff 0 (en_now e) (publish_power (slot_of 0 0) PwOn w3);
          w5 = w4\<lparr>w_alive := 1, w_slice_ticks := tp_ticks (ms_to_ticks (en_hz e) kSliceMs)\<rparr> in
      seed_fp_trap core True w5)"

section \<open>Start\<close>

definition reserve_start :: "'d Env \<Rightarrow> nat \<Rightarrow> ('d, 'z) VcpuWorld_scheme \<Rightarrow> bool \<times> ('d, 'z) VcpuWorld_scheme" where
  "reserve_start e slot w =
     (if \<not> valid_slot e slot then (False, w)
      else let w1 = begin_lifecycle_transition w in
        if w_published w1 ! slot = PwOff then (True, publish_power slot PwOnPending w1)
        else (False, end_lifecycle_transition w1))"

definition cancel_start :: "'d Env \<Rightarrow> nat \<Rightarrow> ('d, 'z) VcpuWorld_scheme \<Rightarrow> ('d, 'z) VcpuWorld_scheme" where
  "cancel_start e slot w =
     (if \<not> valid_slot e slot then w
      else if w_published w ! slot = PwOnPending then end_lifecycle_transition (publish_power slot PwOff w)
      else w)"

definition prepare_start_vm :: "'d Env \<Rightarrow> nat \<Rightarrow> nat \<Rightarrow> ('d, 'z) VcpuWorld_scheme \<Rightarrow> u64 \<times> ('d, 'z) VcpuWorld_scheme" where
  "prepare_start_vm e core vm w =
     (let slot = slot_of vm 0 in
      if vm \<ge> vm_of (g_count e) \<or> affinity e slot \<noteq> core \<or> st w slot \<noteq> StOff \<or> w_published w ! slot \<noteq> PwOnPending
         \<or> vm_has_live e vm (Some slot) w
      then (0, cancel_start e slot w)
      else let w1 = cancel_timer core (kSlotWatchdog + vm) (reset_vm_devices e vm w);
               w2 = seed_boot e core slot (publish_cntvoff vm (en_now e) w1);
               w3 = w2\<lparr>w_budget := budget_refill vm (w_budget w2)\<rparr>;
               w4 = advance_vm_generation vm w3 in
           (vm_generation e vm w4, w4))"

definition publish_start_vm :: "'d Env \<Rightarrow> nat \<Rightarrow> nat \<Rightarrow> u64 \<Rightarrow> ('d, 'z) VcpuWorld_scheme \<Rightarrow> bool \<times> ('d, 'z) VcpuWorld_scheme" where
  "publish_start_vm e core vm generation w =
     (let slot = slot_of vm 0 in
      if vm \<ge> vm_of (g_count e) \<or> generation = 0 \<or> generation \<noteq> vm_generation e vm w \<or> affinity e slot \<noteq> core
         \<or> st w slot \<noteq> StOff \<or> w_published w ! slot \<noteq> PwOnPending \<or> vm_has_live e vm (Some slot) w
      then (False, cancel_start e slot w)
      else (True, reschedule_slice e core (end_lifecycle_transition (add_alive 1
                    (publish_power slot PwOn (set_state slot StReady w))))))"

definition renew_preboot_generation :: "'d Env \<Rightarrow> nat \<Rightarrow> nat \<Rightarrow> ('d, 'z) VcpuWorld_scheme \<Rightarrow> u64 \<times> ('d, 'z) VcpuWorld_scheme" where
  "renew_preboot_generation e core vm w =
     (let slot = slot_of vm 0 in
      if w_started w \<or> vm \<ge> vm_of (g_count e) \<or> affinity e slot \<noteq> core \<or> st w slot \<noteq> StReady
         \<or> w_published w ! slot \<noteq> PwOn \<or> vm_has_live e vm (Some slot) w
      then (0, w)
      else let w1 = publish_cntvoff vm (en_now e) (reset_vm_devices e vm w);
               w2 = advance_vm_generation vm (seed_boot e core slot w1) in
           (vm_generation e vm w2, w2))"

definition start_vcpu :: "'d Env \<Rightarrow> nat \<Rightarrow> nat \<Rightarrow> u64 \<Rightarrow> u64 \<Rightarrow> ('d, 'z) VcpuWorld_scheme \<Rightarrow> bool \<times> ('d, 'z) VcpuWorld_scheme" where
  "start_vcpu e core slot entry context_id w =
     (if \<not> valid_slot e slot then (False, w)
      else if affinity e slot \<noteq> core \<or> st w slot \<noteq> StOff \<or> w_published w ! slot \<noteq> PwOnPending
         \<or> \<not> vm_has_live e (vm_of slot) (Some slot) w
      then (False, cancel_start e slot w)
      else let w1 = set_state slot StReady (seed e core slot entry 0 context_id w);
               w2 = (if vcpu_of slot = 0
                     then advance_vm_generation (vm_of slot) (cancel_timer core (kSlotWatchdog + vm_of slot) w1) else w1);
               w3 = end_lifecycle_transition (add_alive 1 (publish_power slot PwOn w2)) in
           (True, reschedule_slice e core w3))"

section \<open>Retirement and warm reset\<close>

definition retire_vcpu :: "'d Env \<Rightarrow> nat \<Rightarrow> nat \<Rightarrow> ('d, 'z) VcpuWorld_scheme \<Rightarrow> bool \<times> ('d, 'z) VcpuWorld_scheme" where
  "retire_vcpu e core slot w =
     (if \<not> valid_slot e slot \<or> affinity e slot \<noteq> core then (False, w)
      else if st w slot = StOff then (False, cancel_start e slot w)
      else let was_current = (Some slot = cur w core);
               previous = w_published w ! slot;
               w1 = cancel_timer core (kSlotCntvWake + slot) (publish_power slot PwOff (set_state slot StOff w));
               w2 = (if vcpu_of slot = 0 then cancel_timer core (kSlotWatchdog + vm_of slot) w1 else w1);
               w3 = (if previous = PwOn then add_alive (- 1) w2 else w2) in
           if was_current
           then let w4 = upd_sched core (\<lambda>c. c\<lparr>cs_current := None, cs_since := en_now e\<rparr>) w3;
                    w5 = w4\<lparr>w_vgic := vacate core (w_vgic w4)\<rparr> in
                (True, reschedule_slice e core w5)
           else (False, w3))"

definition prepare_reset_quiesced_vm ::
  "'d Env \<Rightarrow> nat \<Rightarrow> nat \<Rightarrow> ('d, 'z) VcpuWorld_scheme \<Rightarrow> u64 \<times> ('d, 'z) VcpuWorld_scheme" where
  "prepare_reset_quiesced_vm e core vm w =
     (let slot = slot_of vm 0 in
      if vm \<ge> vm_of (g_count e) \<or> affinity e slot \<noteq> core \<or> vm_has_live e vm None w then (0, w)
      else let (granted, budget) = budget_take vm (w_budget w); w0 = w\<lparr>w_budget := budget\<rparr> in
        if \<not> granted then (0, cancel_timer core (kSlotWatchdog + vm) w0)
        else let w1 = reset_vm_devices e vm (w0\<lparr>w_dev := pr_reload (en_peers e) vm (w_dev w0)\<rparr>);
                 w2 = seed_boot e core slot (publish_cntvoff vm (en_now e) w1);
                 w3 = advance_vm_generation vm (cancel_timer core (kSlotWatchdog + vm) w2) in
             (vm_generation e vm w3, w3))"

definition publish_reset_vm :: "'d Env \<Rightarrow> nat \<Rightarrow> nat \<Rightarrow> u64 \<Rightarrow> ('d, 'z) VcpuWorld_scheme \<Rightarrow> bool \<times> ('d, 'z) VcpuWorld_scheme" where
  "publish_reset_vm e core vm generation w =
     (let slot = slot_of vm 0 in
      if vm \<ge> vm_of (g_count e) \<or> generation = 0 \<or> generation \<noteq> vm_generation e vm w \<or> affinity e slot \<noteq> core
         \<or> st w slot \<noteq> StOff \<or> vm_has_live e vm None w
      then (False, w)
      else (True, reschedule_slice e core (add_alive 1 (publish_power slot PwOn (set_state slot StReady w)))))"

end
