(* ===== verification/NovaVcpuView.thy ===== *)
theory NovaVcpuView
  imports NovaLifecycle
begin

text \<open>
  The scheduling and power state of the machine as an abstract state, and the
  refinement of every operation of \<open>core_vcpu\<close> to an operation on it. The view
  keeps what cores decide by: run states, residents, published power, the alive
  and transition counters, FP owners. Timers, registers, the virtual GIC and the
  peers are not part of it.
\<close>

section \<open>View\<close>

record Power =
  a_st :: "nat \<Rightarrow> State"
  a_cur :: "nat \<Rightarrow> nat option"
  a_pub :: "nat \<Rightarrow> PowerState"
  a_alive :: u64
  a_trans :: u64
  a_own :: "nat \<Rightarrow> nat option"

definition view :: "('d, 'z) VcpuWorld_scheme \<Rightarrow> Power" where
  "view w = \<lparr>a_st = (\<lambda>i. if i < length (w_vcpus w) then st w i else StOff),
     a_cur = (\<lambda>k. if k < length (w_sched w) then cur w k else None),
     a_pub = (\<lambda>i. if i < length (w_published w) then w_published w ! i else PwOff),
     a_alive = w_alive w, a_trans = w_transitions w,
     a_own = (\<lambda>k. if k < length (w_sched w) then cs_fp (w_sched w ! k) else None)\<rparr>"

definition shape :: "nat \<Rightarrow> ('d, 'z) VcpuWorld_scheme \<Rightarrow> bool" where
  "shape n w \<longleftrightarrow> length (w_vcpus w) = kMaxVcpus \<and> length (w_sched w) = n \<and> length (w_published w) = kMaxVcpus
     \<and> length (w_cntvoff w) = kMaxGuests \<and> length (w_generation w) = kMaxGuests \<and> length (w_budget w) = kMaxGuests
     \<and> length (w_timers w) = n \<and> length (w_hw w) = n"

lemma shapeD:
  assumes "shape n w"
  shows "length (w_vcpus w) = kMaxVcpus" "length (w_sched w) = n" "length (w_published w) = kMaxVcpus"
    "length (w_cntvoff w) = kMaxGuests" "length (w_generation w) = kMaxGuests" "length (w_budget w) = kMaxGuests"
    "length (w_timers w) = n" "length (w_hw w) = n"
  using assms by (simp_all add: shape_def)

lemma view_at:
  assumes "shape n w"
  shows "i < kMaxVcpus \<Longrightarrow> a_st (view w) i = st w i" "k < n \<Longrightarrow> a_cur (view w) k = cur w k"
    "i < kMaxVcpus \<Longrightarrow> a_pub (view w) i = w_published w ! i" "k < n \<Longrightarrow> a_own (view w) k = cs_fp (w_sched w ! k)"
    "a_alive (view w) = w_alive w" "a_trans (view w) = w_transitions w"
  using assms by (simp_all add: view_def shape_def)

section \<open>Single updates\<close>

named_theorems shapes \<open>operations keep the extents of the arrays\<close>
named_theorems views \<open>operations on the world as operations on the view\<close>

lemma shape_upd [shapes, simp]:
  "shape n (upd_vcpu i f w) = shape n w" "shape n (upd_sched i g w) = shape n w" "shape n (upd_hw i h w) = shape n w"
  "shape n (set_state i s w) = shape n w" "shape n (arm_timer k sl dl cb a w) = shape n w"
  "shape n (cancel_timer k sl w) = shape n w" "shape n (publish_power i p w) = shape n w"
  "shape n (publish_cntvoff vm v w) = shape n w" "shape n (deliver_eois e ev w) = shape n w"
  "shape n (seed_fp_trap k b w) = shape n w" "shape n (switch_fp_trap k b w) = shape n w"
  "shape n (advance_vm_generation vm w) = shape n w" "shape n (begin_lifecycle_transition w) = shape n w"
  "shape n (end_lifecycle_transition w) = shape n w" "shape n (add_alive a w) = shape n w"
  "shape n (reset_vm_devices e vm w) = shape n w"
  by (simp_all add: shape_def upd_vcpu_def upd_sched_def upd_hw_def set_state_def arm_timer_def cancel_timer_def
      publish_power_def publish_cntvoff_def deliver_eois_def seed_fp_trap_def switch_fp_trap_def advance_vm_generation_def
      begin_lifecycle_transition_def end_lifecycle_transition_def add_alive_def reset_vm_devices_def)

lemma shape_fields [shapes, simp]:
  "shape n (w\<lparr>w_vgic := g\<rparr>) = shape n w" "shape n (w\<lparr>w_dev := d\<rparr>) = shape n w" "shape n (w\<lparr>w_panic := b\<rparr>) = shape n w"
  "shape n (w\<lparr>w_halt_announced := b\<rparr>) = shape n w" "shape n (w\<lparr>w_started := b\<rparr>) = shape n w"
  "shape n (w\<lparr>w_slice_ticks := t\<rparr>) = shape n w" "shape n (w\<lparr>w_alive := a\<rparr>) = shape n w"
  "shape n (w\<lparr>w_vgic := g, w_dev := d\<rparr>) = shape n w"
  by (simp_all add: shape_def)

text \<open>Updates the view does not see.\<close>

lemma view_same [views, simp]:
  "view (upd_hw k h w) = view w" "view (arm_timer k sl dl cb a w) = view w" "view (cancel_timer k sl w) = view w"
  "view (publish_cntvoff vm v w) = view w" "view (deliver_eois e ev w) = view w"
  "view (advance_vm_generation vm w) = view w" "view (reset_vm_devices e vm w) = view w"
  "view (w\<lparr>w_vgic := g\<rparr>) = view w" "view (w\<lparr>w_dev := d\<rparr>) = view w" "view (w\<lparr>w_panic := b\<rparr>) = view w"
  "view (w\<lparr>w_halt_announced := b\<rparr>) = view w" "view (w\<lparr>w_started := b\<rparr>) = view w" "view (w\<lparr>w_slice_ticks := t\<rparr>) = view w"
  "view (w\<lparr>w_budget := bu\<rparr>) = view w" "view (w\<lparr>w_vgic := g, w_dev := d\<rparr>) = view w"
  by (simp_all add: view_def upd_hw_def arm_timer_def cancel_timer_def publish_cntvoff_def deliver_eois_def
      advance_vm_generation_def reset_vm_devices_def cong: if_cong)

lemma view_upd_vcpu_same [views]:
  assumes "\<And>v. vc_state (f v) = vc_state v"
  shows "view (upd_vcpu i f w) = view w"
  using assms by (auto simp: view_def upd_vcpu_def fun_eq_iff nth_upd)

lemma view_upd_sched_same [views]:
  assumes "\<And>c. cs_current (f c) = cs_current c" "\<And>c. cs_fp (f c) = cs_fp c"
  shows "view (upd_sched k f w) = view w"
  using assms by (auto simp: view_def upd_sched_def fun_eq_iff nth_upd)

lemma view_set_state [views]:
  "shape n w \<Longrightarrow> i < kMaxVcpus \<Longrightarrow> view (set_state i s w) = (view w)\<lparr>a_st := (a_st (view w))(i := s)\<rparr>"
  by (auto simp: view_def set_state_def upd_vcpu_def shape_def fun_eq_iff nth_upd)

lemma view_publish_power [views]:
  "shape n w \<Longrightarrow> i < kMaxVcpus \<Longrightarrow> view (publish_power i p w) = (view w)\<lparr>a_pub := (a_pub (view w))(i := p)\<rparr>"
  by (auto simp: view_def publish_power_def shape_def fun_eq_iff nth_upd)

lemma view_set_current [views]:
  "shape n w \<Longrightarrow> k < n \<Longrightarrow> view (upd_sched k (\<lambda>c. c\<lparr>cs_current := x, cs_since := t\<rparr>) w)
     = (view w)\<lparr>a_cur := (a_cur (view w))(k := x)\<rparr>"
  by (auto simp: view_def upd_sched_def shape_def fun_eq_iff nth_upd)

lemma view_set_owner [views]:
  "shape n w \<Longrightarrow> k < n \<Longrightarrow> view (upd_sched k (\<lambda>c. c\<lparr>cs_fp := x\<rparr>) w) = (view w)\<lparr>a_own := (a_own (view w))(k := x)\<rparr>"
  by (auto simp: view_def upd_sched_def shape_def fun_eq_iff nth_upd)

lemma view_invalidate [views]:
  "shape n w \<Longrightarrow> k < n \<Longrightarrow> view (upd_sched k (\<lambda>c. c\<lparr>cs_fp := invalidate s (cs_fp c)\<rparr>) w)
     = (view w)\<lparr>a_own := (a_own (view w))(k := invalidate s (a_own (view w) k))\<rparr>"
  by (auto simp: view_def upd_sched_def shape_def fun_eq_iff nth_upd)

lemma view_counters [views, simp]:
  "view (begin_lifecycle_transition w) = (view w)\<lparr>a_trans := a_trans (view w) + 1\<rparr>"
  "view (end_lifecycle_transition w) = (view w)\<lparr>a_trans := a_trans (view w) - 1\<rparr>"
  "view (add_alive n w) = (view w)\<lparr>a_alive := a_alive (view w) + n\<rparr>"
  by (simp_all add: view_def begin_lifecycle_transition_def end_lifecycle_transition_def add_alive_def cong: if_cong)

lemma view_traps [views, simp]: "view (seed_fp_trap k b w) = view w" "view (switch_fp_trap k b w) = view w"
  by (simp_all add: seed_fp_trap_def switch_fp_trap_def view_upd_sched_same)

lemma view_idling [views, simp]: "view (upd_sched k (\<lambda>c. c\<lparr>cs_idling := b\<rparr>) w) = view w"
  by (rule view_upd_sched_same) simp_all

section \<open>Scheduler\<close>

lemma shape_reschedule [shapes, simp]: "shape n (reschedule_slice e k w) = shape n w"
  by (simp add: reschedule_slice_def)

lemma view_reschedule [views, simp]: "view (reschedule_slice e k w) = view w"
  by (simp add: reschedule_slice_def)

text \<open>The resident of a core is a slot of the table.\<close>

definition cur_fits :: "nat \<Rightarrow> Power \<Rightarrow> bool" where
  "cur_fits k a \<longleftrightarrow> (\<forall>c. a_cur a k = Some c \<longrightarrow> c < kMaxVcpus)"

lemma cur_fits_upd [simp]: "cur_fits k (a\<lparr>a_st := s\<rparr>) = cur_fits k a" "cur_fits k (a\<lparr>a_pub := p\<rparr>) = cur_fits k a"
  "cur_fits k (a\<lparr>a_alive := v\<rparr>) = cur_fits k a" "cur_fits k (a\<lparr>a_trans := v\<rparr>) = cur_fits k a"
  "cur_fits k (a\<lparr>a_own := f\<rparr>) = cur_fits k a"
  by (simp_all add: cur_fits_def)

definition a_park :: "nat option \<Rightarrow> Power \<Rightarrow> Power" where
  "a_park c a = (case c of None \<Rightarrow> a
     | Some c \<Rightarrow> if a_st a c = StRunning then a\<lparr>a_st := (a_st a)(c := StReady)\<rparr> else a)"

definition a_resident :: "nat \<Rightarrow> nat \<Rightarrow> Power \<Rightarrow> Power" where
  "a_resident k next a = a\<lparr>a_st := (a_st a)(next := StRunning), a_cur := (a_cur a)(k := Some next)\<rparr>"

definition a_switch :: "nat \<Rightarrow> nat \<Rightarrow> Power \<Rightarrow> Power" where
  "a_switch k next a = a_resident k next (a_park (a_cur a k) a)"

lemma shape_park [shapes, simp]: "shape n (park e k c w) = shape n w"
  by (simp add: park_def Let_def split: prod.splits)

lemma view_park [views]:
  assumes "shape n w" "c < kMaxVcpus"
  shows "view (park e k c w) = a_park (Some c) (view w)"
proof -
  have s: "shape n (upd_vcpu c (\<lambda>v. v\<lparr>vc_ctx := x, vc_el1 := y, vc_synced_at := z\<rparr>) w)" for x y z using assms by simp
  obtain g ev where g: "cpu_save (en_eisr e) k (en_turn e) c (w_vgic (upd_vcpu c (\<lambda>v. v\<lparr>vc_ctx := ch_frame (w_hw w ! k),
      vc_el1 := ch_el1 (w_hw w ! k), vc_synced_at := en_turn e\<rparr>) w)) = (g, ev)" by fastforce
  let ?w1 = "upd_vcpu c (\<lambda>v. v\<lparr>vc_ctx := ch_frame (w_hw w ! k), vc_el1 := ch_el1 (w_hw w ! k), vc_synced_at := en_turn e\<rparr>) w"
  let ?w2 = "deliver_eois e ev (?w1\<lparr>w_vgic := g\<rparr>)"
  have v: "view ?w2 = view w" by (simp add: view_upd_vcpu_same)
  have s2: "shape n ?w2" using assms by simp
  have "st ?w2 c = a_st (view w) c" using view_at(1) [OF s2 assms(2)] v by simp
  moreover have "park e k c w = (if st ?w2 c = StRunning then set_state c StReady ?w2 else ?w2)"
    unfolding park_def Let_def by (simp only: g prod.case)
  ultimately show ?thesis using view_set_state [OF s2 assms(2)] v by (simp add: a_park_def)
qed

lemma shape_load [shapes, simp]: "shape n (load_regs e k next w) = shape n w"
  by (simp add: load_regs_def)

lemma view_load [views, simp]: "view (load_regs e k next w) = view w"
  by (simp add: load_regs_def)

lemma shape_resident [shapes, simp]: "shape n (make_resident e k next w) = shape n w"
  by (simp add: make_resident_def)

lemma view_resident [views]:
  assumes "shape n w" "k < n" "next < kMaxVcpus"
  shows "view (make_resident e k next w) = a_resident k next (view w)"
  using assms by (simp add: make_resident_def view_set_current [where n = n] view_set_state [where n = n] a_resident_def)

lemma shape_switch [shapes, simp]: "shape n (switch_to e k next w) = shape n w"
  by (simp add: switch_to_def Let_def split: option.splits)

lemma view_switch [views]:
  assumes "shape n w" "k < n" "next < kMaxVcpus" "cur_fits k (view w)"
  shows "view (switch_to e k next w) = a_switch k next (view w)"
proof -
  let ?w1 = "case cur w k of None \<Rightarrow> w | Some c \<Rightarrow> park e k c w"
  have s: "shape n ?w1" using assms(1) by (simp split: option.splits)
  have v: "view ?w1 = a_park (a_cur (view w) k) (view w)"
    using assms by (auto simp: view_at [OF assms(1)] a_park_def view_park cur_fits_def split: option.splits)
  show ?thesis unfolding switch_to_def Let_def a_switch_def
    by (subst view_resident [where n = n]) (use assms s v in simp_all)
qed

definition a_states :: "'d Env \<Rightarrow> nat \<Rightarrow> Power \<Rightarrow> State list" where
  "a_states e k a = map (\<lambda>i. if affinity e i = k then a_st a i else StOff) [0 ..< g_count e]"

lemma g_count_le: "g_count e \<le> kMaxVcpus"
  by (simp add: g_count_def kMaxVcpus_def)

lemma valid_slot_less: "valid_slot e i \<Longrightarrow> i < kMaxVcpus"
  using g_count_le [of e] by (simp add: valid_slot_def)

lemma states_view: "shape n w \<Longrightarrow> states e k w = a_states e k (view w)"
  using g_count_le [of e] by (auto simp: states_def a_states_def view_at)

definition a_pick :: "'d Env \<Rightarrow> nat \<Rightarrow> Power \<Rightarrow> nat" where
  "a_pick e k a = pick_next (a_states e k a) (a_cur a k)"

lemma pick_view: "shape n w \<Longrightarrow> k < n \<Longrightarrow> pick e k w = a_pick e k (view w)"
  by (simp add: pick_def a_pick_def states_view view_at)

lemma a_pick_ready:
  assumes "a_pick e k a < g_count e"
  shows "a_st a (a_pick e k a) = StReady" "affinity e (a_pick e k a) = k"
proof -
  have "a_states e k a ! a_pick e k a = StReady"
    using pick_next_ready [of "a_states e k a" "a_cur a k"] assms by (simp add: a_pick_def a_states_def)
  then show "a_st a (a_pick e k a) = StReady" "affinity e (a_pick e k a) = k"
    using assms by (simp_all add: a_states_def split: if_splits)
qed

definition a_schedule_out :: "'d Env \<Rightarrow> nat \<Rightarrow> Power \<Rightarrow> Power" where
  "a_schedule_out e k a =
     (let next = a_pick e k a in
      if next < g_count e
      then if Some next = a_cur a k then a\<lparr>a_st := (a_st a)(next := StRunning)\<rparr> else a_switch k next a
      else a)"

lemma shape_schedule_out [shapes, simp]: "shape n (schedule_out e k w) = shape n w"
  by (simp add: schedule_out_def Let_def)

lemma view_schedule_out [views]:
  assumes "shape n w" "k < n" "cur_fits k (view w)"
  shows "view (schedule_out e k w) = a_schedule_out e k (view w)"
proof -
  have p: "pick e k w = a_pick e k (view w)" using pick_view assms by blast
  have c: "cur w k = a_cur (view w) k" using view_at(2) [OF assms(1,2)] by simp
  show ?thesis
  proof (cases "a_pick e k (view w) < g_count e")
    case True
    then have "a_pick e k (view w) < kMaxVcpus" using g_count_le [of e] by simp
    then show ?thesis
      using True assms p c unfolding schedule_out_def a_schedule_out_def Let_def
      by (simp add: view_set_state [where n = n] view_switch [where n = n])
  next
    case False
    then show ?thesis using p unfolding schedule_out_def a_schedule_out_def Let_def by simp
  qed
qed

definition a_yield :: "'d Env \<Rightarrow> nat \<Rightarrow> Power \<Rightarrow> Power" where
  "a_yield e k a =
     (if a_cur a k = None then a
      else let next = a_pick e k a in if next < g_count e \<and> Some next \<noteq> a_cur a k then a_switch k next a else a)"

lemma shape_yield [shapes, simp]: "shape n (yield_current e k w) = shape n w"
  by (simp add: yield_current_def Let_def)

lemma view_yield [views]:
  assumes "shape n w" "k < n" "cur_fits k (view w)"
  shows "view (yield_current e k w) = a_yield e k (view w)"
proof -
  have p: "pick e k w = a_pick e k (view w)" using pick_view assms by blast
  have c: "cur w k = a_cur (view w) k" using view_at(2) [OF assms(1,2)] by simp
  have "a_pick e k (view w) < g_count e \<Longrightarrow> a_pick e k (view w) < kMaxVcpus" using g_count_le [of e] by simp
  then show ?thesis
    using assms p c unfolding yield_current_def a_yield_def Let_def by (simp add: view_switch [where n = n])
qed

lemma shape_sync [shapes, simp]: "shape n (sync_resident e k w) = shape n w"
  by (simp add: sync_resident_def Let_def split: option.splits)

lemma view_sync [views, simp]: "view (sync_resident e k w) = view w"
  by (simp add: sync_resident_def Let_def view_upd_vcpu_same split: option.splits)

lemma shape_block [shapes, simp]: "shape n (block_current e k self w) = shape n w"
  by (simp add: block_current_def Let_def)

lemma view_block [views]:
  assumes "shape n w" "k < n" "self < kMaxVcpus" "cur_fits k (view w)"
  shows "view (block_current e k self w) = a_schedule_out e k ((view w)\<lparr>a_st := (a_st (view w))(self := StBlocked)\<rparr>)"
proof -
  let ?b = "set_state self StBlocked w"
  have b: "shape n ?b" "view ?b = (view w)\<lparr>a_st := (a_st (view w))(self := StBlocked)\<rparr>"
    using assms by (simp_all add: view_set_state)
  then have "cur_fits k (view ?b)" using assms by simp
  then show ?thesis using b assms(2)
    unfolding block_current_def Let_def by (auto simp: view_schedule_out [where n = n])
qed

lemma shape_wake [shapes, simp]: "shape n (wake e k i w) = shape n w"
  by (simp add: wake_def)

lemma view_wake [views]:
  assumes "shape n w"
  shows "view (wake e k i w) =
    (if valid_slot e i \<and> a_st (view w) i = StBlocked then (view w)\<lparr>a_st := (a_st (view w))(i := StReady)\<rparr> else view w)"
  using assms valid_slot_less [of e i] by (auto simp: wake_def view_set_state [where n = n] view_at)

lemma shape_fp [shapes, simp]: "shape n (handle_fp_simd e k self w) = shape n w"
  by (simp add: handle_fp_simd_def Let_def split: prod.splits option.splits)

lemma view_fp [views]:
  assumes "shape n w" "k < n"
  shows "view (handle_fp_simd e k self w) = (view w)\<lparr>a_own := (a_own (view w))(k := Some self)\<rparr>"
  using assms by (simp add: handle_fp_simd_def claim_def Let_def view_set_owner [where n = n] view_upd_vcpu_same
      split: option.splits)

end
