(* ===== verification/NovaPower.thy ===== *)
theory NovaPower
  imports NovaVcpuView
begin

text \<open>
  The lifecycle operations of \<open>core_vcpu\<close> on the abstract view and the power
  invariant: residents belong to their core and are on, a running vCPU is
  resident, the published power says who is on, the alive counter counts them,
  FP owners are at home. Every abstract operation keeps it.
\<close>

section \<open>Lifecycle operations on the view\<close>

definition a_live :: "'d Env \<Rightarrow> nat \<Rightarrow> nat option \<Rightarrow> Power \<Rightarrow> bool" where
  "a_live e vm except a \<longleftrightarrow> (\<exists>v < guest_vcpus e vm. Some (slot_of vm v) \<noteq> except \<and> a_pub a (slot_of vm v) \<noteq> PwOff)"

definition a_seed :: "nat \<Rightarrow> nat \<Rightarrow> Power \<Rightarrow> Power" where
  "a_seed k slot a = a\<lparr>a_own := (a_own a)(k := invalidate slot (a_own a k))\<rparr>"

definition a_reserve :: "nat \<Rightarrow> Power \<Rightarrow> Power" where
  "a_reserve slot a = a\<lparr>a_trans := a_trans a + 1, a_pub := (a_pub a)(slot := PwOnPending)\<rparr>"

definition a_cancel :: "'d Env \<Rightarrow> nat \<Rightarrow> Power \<Rightarrow> Power" where
  "a_cancel e slot a = (if valid_slot e slot \<and> a_pub a slot = PwOnPending
     then a\<lparr>a_pub := (a_pub a)(slot := PwOff), a_trans := a_trans a - 1\<rparr> else a)"

definition a_up :: "nat \<Rightarrow> Power \<Rightarrow> Power" where
  "a_up slot a = a\<lparr>a_st := (a_st a)(slot := StReady), a_pub := (a_pub a)(slot := PwOn), a_alive := a_alive a + 1\<rparr>"

definition a_end :: "Power \<Rightarrow> Power" where "a_end a = a\<lparr>a_trans := a_trans a - 1\<rparr>"

definition a_down :: "nat \<Rightarrow> nat \<Rightarrow> Power \<Rightarrow> Power" where
  "a_down k slot a =
     a\<lparr>a_st := (a_st a)(slot := StOff), a_pub := (a_pub a)(slot := PwOff),
       a_alive := (if a_pub a slot = PwOn then a_alive a - 1 else a_alive a),
       a_cur := (if a_cur a k = Some slot then (a_cur a)(k := None) else a_cur a)\<rparr>"

definition a_retire :: "'d Env \<Rightarrow> nat \<Rightarrow> nat \<Rightarrow> Power \<Rightarrow> Power" where
  "a_retire e k slot a =
     (if \<not> valid_slot e slot \<or> affinity e slot \<noteq> k then a
      else if a_st a slot = StOff then a_cancel e slot a else a_down k slot a)"

definition cfg_ok :: "nat \<Rightarrow> 'd Env \<Rightarrow> bool" where
  "cfg_ok n e \<longleftrightarrow> length (en_guests e) \<le> kMaxGuests
     \<and> (\<forall>vm < length (en_guests e). 1 \<le> guest_vcpus e vm \<and> guest_vcpus e vm \<le> kMaxVcpusPerVm)
     \<and> (\<forall>slot. valid_slot e slot \<longrightarrow> affinity e slot < n)"

lemma cfg_slot:
  assumes "cfg_ok n e" "vm < length (en_guests e)" "v < guest_vcpus e vm"
  shows "valid_slot e (slot_of vm v)" "slot_of vm v < kMaxVcpus" "vm_of (slot_of vm v) = vm" "vcpu_of (slot_of vm v) = v"
proof -
  have v: "v < kMaxVcpusPerVm" using assms by (auto simp: cfg_ok_def intro: less_le_trans)
  show "vm_of (slot_of vm v) = vm" "vcpu_of (slot_of vm v) = v" using v by simp_all
  have "vm < kMaxGuests" using assms by (auto simp: cfg_ok_def)
  then show "slot_of vm v < kMaxVcpus" using slot_of_less v by blast
  have "slot_of vm v < g_count e"
    using assms(1,2) v by (simp add: g_count_def cfg_ok_def slot_of_def min_def kMaxVcpusPerVm_def)
  then show "valid_slot e (slot_of vm v)" using v assms(3) by (simp add: valid_slot_def)
qed

lemma cfg_boot:
  assumes "cfg_ok n e" "vm < length (en_guests e)"
  shows "valid_slot e (slot_of vm 0)" "slot_of vm 0 < kMaxVcpus" "vm_of (slot_of vm 0) = vm" "vcpu_of (slot_of vm 0) = 0"
  using cfg_slot [OF assms, of 0] assms by (auto simp: cfg_ok_def)

lemma g_count_vms: "cfg_ok n e \<Longrightarrow> vm_of (g_count e) = length (en_guests e)"
  by (simp add: vm_of_def g_count_def cfg_ok_def kMaxVcpusPerVm_def)

lemma live_view:
  assumes "shape n w" "cfg_ok m e" "vm < length (en_guests e)"
  shows "vm_has_live e vm ex w = a_live e vm ex (view w)"
  using cfg_slot [OF assms(2,3)] view_at(3) [OF assms(1)]
  by (auto simp: vm_has_live_def a_live_def list_ex_iff)

lemma view_seed_context [views, simp]: "view (seed_context e slot entry sp arg w) = view w"
  by (simp add: seed_context_def view_upd_vcpu_same)

lemma view_seed_boot_context [views, simp]: "view (seed_boot_context e slot w) = view w"
  by (simp add: seed_boot_context_def Let_def)

lemma shape_seed [shapes, simp]:
  "shape n (seed_context e slot entry sp arg w) = shape n w" "shape n (seed_boot_context e slot w) = shape n w"
  "shape n (reseed_owner_state e k slot w) = shape n w" "shape n (seed e k slot entry sp arg w) = shape n w"
  "shape n (seed_boot e k slot w) = shape n w"
  by (simp_all add: seed_context_def seed_boot_context_def reseed_owner_state_def seed_def seed_boot_def Let_def)

lemma view_reseed [views]:
  "shape n w \<Longrightarrow> k < n \<Longrightarrow> view (reseed_owner_state e k slot w) = a_seed k slot (view w)"
  by (simp add: reseed_owner_state_def Let_def view_invalidate [where n = n] a_seed_def)

lemma view_seed [views]:
  assumes "shape n w" "k < n"
  shows "view (seed e k slot entry sp arg w) = a_seed k slot (view w)" "view (seed_boot e k slot w) = a_seed k slot (view w)"
  using assms by (simp_all add: seed_def seed_boot_def view_reseed [where n = n])

lemma shape_reserve [shapes, simp]: "shape n (snd (reserve_start e slot w)) = shape n w"
  by (simp add: reserve_start_def Let_def)

lemma view_reserve [views]:
  assumes "shape n w"
  shows "view (snd (reserve_start e slot w)) =
      (if valid_slot e slot \<and> a_pub (view w) slot = PwOff then a_reserve slot (view w) else view w)"
    "fst (reserve_start e slot w) \<longleftrightarrow> valid_slot e slot \<and> a_pub (view w) slot = PwOff"
proof -
  have s: "shape n (begin_lifecycle_transition w)" using assms by simp
  have "w_published (begin_lifecycle_transition w) ! slot = a_pub (view w) slot" if "valid_slot e slot"
    using view_at(3) [OF s valid_slot_less [OF that]] by simp
  then show "view (snd (reserve_start e slot w)) =
      (if valid_slot e slot \<and> a_pub (view w) slot = PwOff then a_reserve slot (view w) else view w)"
    "fst (reserve_start e slot w) \<longleftrightarrow> valid_slot e slot \<and> a_pub (view w) slot = PwOff"
    using valid_slot_less [of e slot] view_publish_power [OF s]
    by (auto simp: reserve_start_def a_reserve_def Let_def)
qed

lemma shape_cancel [shapes, simp]: "shape n (cancel_start e slot w) = shape n w"
  by (simp add: cancel_start_def)

lemma view_cancel [views]:
  assumes "shape n w"
  shows "view (cancel_start e slot w) = a_cancel e slot (view w)"
  using assms view_at(3) [OF assms, of slot] view_publish_power [OF assms, of slot] valid_slot_less [of e slot]
  by (auto simp: cancel_start_def a_cancel_def)

lemma shape_budget [shapes, simp]:
  "shape n (w\<lparr>w_budget := budget_refill vm (w_budget w)\<rparr>) = shape n w"
  "shape n (w\<lparr>w_budget := snd (budget_take vm (w_budget w))\<rparr>) = shape n w"
  by (simp_all add: shape_def budget_refill_def budget_take_def)

lemma next_nonzero_live: "next_nonzero c \<noteq> 0"
  by (simp add: next_nonzero_def)

lemma generation_advanced:
  assumes "shape n w" "vm < length (en_guests e)" "length (en_guests e) \<le> kMaxGuests"
  shows "vm_generation e vm (advance_vm_generation vm w) = next_nonzero (w_generation w ! vm)"
  using assms by (simp add: vm_generation_def advance_vm_generation_def shape_def)

text \<open>When the prepare half of a start refuses, and what either outcome does.\<close>

definition start_refused :: "'d Env \<Rightarrow> nat \<Rightarrow> nat \<Rightarrow> Power \<Rightarrow> bool" where
  "start_refused e k vm a \<longleftrightarrow> vm \<ge> length (en_guests e) \<or> affinity e (slot_of vm 0) \<noteq> k \<or> a_st a (slot_of vm 0) \<noteq> StOff
     \<or> a_pub a (slot_of vm 0) \<noteq> PwOnPending \<or> a_live e vm (Some (slot_of vm 0)) a"

lemma start_refused_view:
  assumes "shape n w" "cfg_ok m e"
  shows "(vm \<ge> vm_of (g_count e) \<or> affinity e (slot_of vm 0) \<noteq> k \<or> st w (slot_of vm 0) \<noteq> StOff
      \<or> w_published w ! slot_of vm 0 \<noteq> PwOnPending \<or> vm_has_live e vm (Some (slot_of vm 0)) w) = start_refused e k vm (view w)"
  using g_count_vms [OF assms(2)] live_view [OF assms, of vm] cfg_boot [OF assms(2), of vm] view_at [OF assms(1)]
  by (cases "vm < length (en_guests e)") (auto simp: start_refused_def)

lemma shape_prepare_start [shapes, simp]: "shape n (snd (prepare_start_vm e k vm w)) = shape n w"
  unfolding prepare_start_vm_def Let_def by simp

lemma view_prepare_start [views]:
  assumes "shape n w" "cfg_ok n e"
  shows "view (snd (prepare_start_vm e k vm w)) =
      (if start_refused e k vm (view w) then a_cancel e (slot_of vm 0) (view w) else a_seed k (slot_of vm 0) (view w))"
    "fst (prepare_start_vm e k vm w) = 0 \<longleftrightarrow> start_refused e k vm (view w)"
proof -
  note r = start_refused_view [OF assms, of vm k]
  show "view (snd (prepare_start_vm e k vm w)) =
      (if start_refused e k vm (view w) then a_cancel e (slot_of vm 0) (view w) else a_seed k (slot_of vm 0) (view w))"
  proof (cases "start_refused e k vm (view w)")
    case True
    then show ?thesis using assms unfolding prepare_start_vm_def Let_def r by (simp add: view_cancel [where n = n])
  next
    case False
    then have "k < n" using assms(2) cfg_boot(1) [OF assms(2), of vm] by (auto simp: start_refused_def cfg_ok_def)
    then show ?thesis using False assms unfolding prepare_start_vm_def Let_def r by (simp add: view_seed [where n = n])
  qed
  show "fst (prepare_start_vm e k vm w) = 0 \<longleftrightarrow> start_refused e k vm (view w)"
  proof (cases "start_refused e k vm (view w)")
    case False
    then have vm: "vm < length (en_guests e)" by (simp add: start_refused_def)
    show ?thesis using False assms vm unfolding prepare_start_vm_def Let_def r
      by (simp add: generation_advanced [where n = n] next_nonzero_live cfg_ok_def)
  qed (unfold prepare_start_vm_def Let_def r, simp)
qed

lemma shape_publish_start [shapes, simp]: "shape n (snd (publish_start_vm e k vm g w)) = shape n w"
  unfolding publish_start_vm_def Let_def by simp

lemma view_up:
  assumes "shape n w" "slot < kMaxVcpus"
  shows "view (publish_power slot p (set_state slot s w)) =
    (view w)\<lparr>a_st := (a_st (view w))(slot := s), a_pub := (a_pub (view w))(slot := p)\<rparr>"
  using assms by (simp add: view_publish_power [where n = n] view_set_state [where n = n])

lemma view_publish_start [views]:
  assumes "shape n w" "cfg_ok n e"
  shows "view (snd (publish_start_vm e k vm g w)) =
      (if fst (publish_start_vm e k vm g w) then a_end (a_up (slot_of vm 0) (view w)) else a_cancel e (slot_of vm 0) (view w))"
    "fst (publish_start_vm e k vm g w) \<Longrightarrow> \<not> start_refused e k vm (view w)"
proof -
  note r = start_refused_view [OF assms, of vm k]
  show "view (snd (publish_start_vm e k vm g w)) =
      (if fst (publish_start_vm e k vm g w) then a_end (a_up (slot_of vm 0) (view w)) else a_cancel e (slot_of vm 0) (view w))"
    using cfg_boot(2) [OF assms(2), of vm] g_count_vms [OF assms(2)]
    unfolding publish_start_vm_def Let_def
    by (auto simp: view_cancel [OF assms(1)] view_up [OF assms(1)] a_end_def a_up_def)
  show "fst (publish_start_vm e k vm g w) \<Longrightarrow> \<not> start_refused e k vm (view w)"
    unfolding r [symmetric] by (auto simp: publish_start_vm_def Let_def split: if_splits)
qed

lemma shape_start_vcpu [shapes, simp]: "shape n (snd (start_vcpu e k slot entry ctx w)) = shape n w"
  unfolding start_vcpu_def Let_def by simp

definition vcpu_refused :: "'d Env \<Rightarrow> nat \<Rightarrow> nat \<Rightarrow> Power \<Rightarrow> bool" where
  "vcpu_refused e k slot a \<longleftrightarrow> \<not> valid_slot e slot \<or> affinity e slot \<noteq> k \<or> a_st a slot \<noteq> StOff \<or> a_pub a slot \<noteq> PwOnPending
     \<or> \<not> a_live e (vm_of slot) (Some slot) a"

lemma valid_slot_vm: "valid_slot e slot \<Longrightarrow> vm_of slot < length (en_guests e)"
  by (auto simp: valid_slot_def g_count_def vm_of_def kMaxVcpusPerVm_def less_mult_imp_div_less min_def split: if_splits)

lemma view_start_vcpu [views]:
  assumes "shape n w" "cfg_ok n e"
  shows "view (snd (start_vcpu e k slot entry ctx w)) =
      (if vcpu_refused e k slot (view w) then a_cancel e slot (view w) else a_end (a_up slot (a_seed k slot (view w))))"
    "fst (start_vcpu e k slot entry ctx w) \<longleftrightarrow> \<not> vcpu_refused e k slot (view w)"
proof -
  have r: "vcpu_refused e k slot (view w) \<longleftrightarrow> affinity e slot \<noteq> k \<or> st w slot \<noteq> StOff \<or> w_published w ! slot \<noteq> PwOnPending
      \<or> \<not> vm_has_live e (vm_of slot) (Some slot) w" if "valid_slot e slot"
    using that live_view [OF assms valid_slot_vm [OF that], of "Some slot"] view_at [OF assms(1)] valid_slot_less [OF that]
    by (auto simp: vcpu_refused_def)
  show "fst (start_vcpu e k slot entry ctx w) \<longleftrightarrow> \<not> vcpu_refused e k slot (view w)"
  proof (cases "valid_slot e slot")
    case True
    then have "fst (start_vcpu e k slot entry ctx w) \<longleftrightarrow> \<not> (affinity e slot \<noteq> k \<or> st w slot \<noteq> StOff
        \<or> w_published w ! slot \<noteq> PwOnPending \<or> \<not> vm_has_live e (vm_of slot) (Some slot) w)"
      by (simp add: start_vcpu_def Let_def)
    then show ?thesis using r [OF True] by simp
  qed (simp add: start_vcpu_def vcpu_refused_def)
  show "view (snd (start_vcpu e k slot entry ctx w)) =
      (if vcpu_refused e k slot (view w) then a_cancel e slot (view w) else a_end (a_up slot (a_seed k slot (view w))))"
  proof (cases "valid_slot e slot")
    case False
    then show ?thesis by (simp add: start_vcpu_def vcpu_refused_def a_cancel_def)
  next
    case v: True
    show ?thesis
    proof (cases "vcpu_refused e k slot (view w)")
      case True
      then show ?thesis using v r view_cancel [OF assms(1)] by (simp add: start_vcpu_def)
    next
      case False
      then have k: "k < n" using assms(2) v by (auto simp: vcpu_refused_def cfg_ok_def)
      note m = valid_slot_less [OF v]
      have "view (publish_power slot PwOn (if vcpu_of slot = 0 then advance_vm_generation (vm_of slot)
            (cancel_timer k (kSlotWatchdog + vm_of slot) (set_state slot StReady (seed e k slot entry 0 ctx w)))
            else set_state slot StReady (seed e k slot entry 0 ctx w)))
          = (a_seed k slot (view w))\<lparr>a_st := (a_st (a_seed k slot (view w)))(slot := StReady),
              a_pub := (a_pub (a_seed k slot (view w)))(slot := PwOn)\<rparr>"
        using assms(1) k m by (simp add: view_publish_power [where n = n] view_set_state [where n = n] view_seed [where n = n])
      moreover have "\<not> (affinity e slot \<noteq> k \<or> st w slot \<noteq> StOff \<or> w_published w ! slot \<noteq> PwOnPending
          \<or> \<not> vm_has_live e (vm_of slot) (Some slot) w)" using False r v by blast
      ultimately show ?thesis using False v unfolding start_vcpu_def Let_def by (simp add: a_end_def a_up_def)
    qed
  qed
qed

lemma shape_retire [shapes, simp]: "shape n (snd (retire_vcpu e k slot w)) = shape n w"
  unfolding retire_vcpu_def Let_def by simp

lemma view_retire [views]:
  assumes "shape n w" "cfg_ok n e"
  shows "view (snd (retire_vcpu e k slot w)) = a_retire e k slot (view w)"
proof (cases "valid_slot e slot \<and> affinity e slot = k")
  case True
  then have m: "slot < kMaxVcpus" "k < n" using valid_slot_less assms(2) by (auto simp: cfg_ok_def)
  have c: "cur w k = a_cur (view w) k" "st w slot = a_st (view w) slot" "w_published w ! slot = a_pub (view w) slot"
    using view_at [OF assms(1)] m by simp_all
  show ?thesis
  proof (cases "a_st (view w) slot = StOff")
    case True
    then show ?thesis using \<open>valid_slot e slot \<and> affinity e slot = k\<close> c view_cancel [OF assms(1)]
      by (simp add: retire_vcpu_def a_retire_def)
  next
    case False
    have v: "view (publish_power slot PwOff (set_state slot StOff w)) =
        (view w)\<lparr>a_st := (a_st (view w))(slot := StOff), a_pub := (a_pub (view w))(slot := PwOff)\<rparr>"
      using assms(1) m by (simp add: view_publish_power [where n = n] view_set_state [where n = n])
    show ?thesis using False \<open>valid_slot e slot \<and> affinity e slot = k\<close> c v m assms(1)
      unfolding retire_vcpu_def a_retire_def Let_def by (auto simp: a_down_def view_set_current [where n = n])
  qed
next
  case False
  then show ?thesis by (auto simp: retire_vcpu_def a_retire_def)
qed

lemma retire_was_current:
  assumes "shape n w" "cfg_ok n e"
  shows "fst (retire_vcpu e k slot w) \<longleftrightarrow>
    valid_slot e slot \<and> affinity e slot = k \<and> a_st (view w) slot \<noteq> StOff \<and> a_cur (view w) k = Some slot"
proof -
  have "st w slot = a_st (view w) slot" if "valid_slot e slot" using view_at [OF assms(1)] valid_slot_less [OF that] by simp
  moreover have "cur w k = a_cur (view w) k" if "valid_slot e slot" "affinity e slot = k"
    using view_at(2) [OF assms(1)] that assms(2) by (auto simp: cfg_ok_def)
  ultimately show ?thesis by (auto simp: retire_vcpu_def Let_def)
qed

lemma shape_prepare_reset [shapes, simp]: "shape n (snd (prepare_reset_quiesced_vm e k vm w)) = shape n w"
proof -
  have "shape n (w\<lparr>w_budget := snd (budget_take vm (w_budget w)), w_dev := d\<rparr>) = shape n w" for d
    by (simp add: shape_def budget_take_def)
  then show ?thesis unfolding prepare_reset_quiesced_vm_def Let_def by (simp split: prod.splits) (metis shape_budget(2) snd_conv)
qed

lemma view_prepare_reset [views]:
  assumes "shape n w" "cfg_ok n e"
  shows "view (snd (prepare_reset_quiesced_vm e k vm w)) =
      (if fst (prepare_reset_quiesced_vm e k vm w) = 0 then view w else a_seed k (slot_of vm 0) (view w))"
    "fst (prepare_reset_quiesced_vm e k vm w) \<noteq> 0 \<Longrightarrow>
      vm < length (en_guests e) \<and> affinity e (slot_of vm 0) = k \<and> \<not> a_live e vm None (view w)"
proof -
  show *: "fst (prepare_reset_quiesced_vm e k vm w) \<noteq> 0 \<Longrightarrow>
      vm < length (en_guests e) \<and> affinity e (slot_of vm 0) = k \<and> \<not> a_live e vm None (view w)"
    using g_count_vms [OF assms(2)] live_view [OF assms, of vm None]
    by (cases "vm < length (en_guests e)") (auto simp: prepare_reset_quiesced_vm_def Let_def split: if_splits prod.splits)
  obtain granted budget where b: "budget_take vm (w_budget w) = (granted, budget)" by fastforce
  have s: "shape n (w\<lparr>w_budget := budget, w_dev := d\<rparr>)" for d
    using assms(1) b by (auto simp: shape_def budget_take_def split: if_splits)
  show "view (snd (prepare_reset_quiesced_vm e k vm w)) =
      (if fst (prepare_reset_quiesced_vm e k vm w) = 0 then view w else a_seed k (slot_of vm 0) (view w))"
  proof (cases "vm \<ge> vm_of (g_count e) \<or> affinity e (slot_of vm 0) \<noteq> k \<or> vm_has_live e vm None w \<or> \<not> granted")
    case True
    then show ?thesis unfolding prepare_reset_quiesced_vm_def Let_def b by auto
  next
    case False
    then have vm: "vm < length (en_guests e)" "vm < kMaxGuests"
      using g_count_vms [OF assms(2)] assms(2) by (simp_all add: cfg_ok_def)
    have k: "k < n" using False assms(2) cfg_boot(1) [OF assms(2) vm(1)] by (auto simp: cfg_ok_def)
    let ?w = "seed_boot e k (slot_of vm 0) (publish_cntvoff vm (en_now e) (reset_vm_devices e vm
                 (w\<lparr>w_budget := budget, w_dev := pr_reload (en_peers e) vm (w_dev w)\<rparr>)))"
    let ?v = "advance_vm_generation vm (cancel_timer k (kSlotWatchdog + vm) ?w)"
    have "shape n ?w" using s by simp
    then have g: "vm_generation e vm ?v \<noteq> 0"
      using vm assms(2) by (simp add: generation_advanced [where n = n] next_nonzero_live cfg_ok_def)
    have v: "view ?v = a_seed k (slot_of vm 0) (view w)" using s k by (simp add: view_seed [where n = n])
    have "prepare_reset_quiesced_vm e k vm w = (vm_generation e vm ?v, ?v)"
      using False unfolding prepare_reset_quiesced_vm_def Let_def b by simp
    then show ?thesis using g v by simp
  qed
qed

lemma shape_publish_reset [shapes, simp]: "shape n (snd (publish_reset_vm e k vm g w)) = shape n w"
  unfolding publish_reset_vm_def Let_def by simp

lemma view_publish_reset [views]:
  assumes "shape n w" "cfg_ok n e"
  shows "view (snd (publish_reset_vm e k vm g w)) =
      (if fst (publish_reset_vm e k vm g w) then a_up (slot_of vm 0) (view w) else view w)"
    "fst (publish_reset_vm e k vm g w) \<Longrightarrow> vm < length (en_guests e) \<and> affinity e (slot_of vm 0) = k
      \<and> a_st (view w) (slot_of vm 0) = StOff \<and> \<not> a_live e vm None (view w)"
proof -
  show "fst (publish_reset_vm e k vm g w) \<Longrightarrow> vm < length (en_guests e) \<and> affinity e (slot_of vm 0) = k
      \<and> a_st (view w) (slot_of vm 0) = StOff \<and> \<not> a_live e vm None (view w)"
    using g_count_vms [OF assms(2)] live_view [OF assms, of vm None] view_at(1) [OF assms(1)] cfg_boot(2) [OF assms(2), of vm]
    by (cases "vm < length (en_guests e)") (auto simp: publish_reset_vm_def Let_def split: if_splits)
  show "view (snd (publish_reset_vm e k vm g w)) =
      (if fst (publish_reset_vm e k vm g w) then a_up (slot_of vm 0) (view w) else view w)"
    using cfg_boot(2) [OF assms(2), of vm] g_count_vms [OF assms(2)]
    unfolding publish_reset_vm_def Let_def by (auto simp: view_up [OF assms(1)] a_up_def)
qed

section \<open>The power invariant\<close>

definition power_ok :: "'d Env \<Rightarrow> Power \<Rightarrow> bool" where
  "power_ok e a \<longleftrightarrow>
     (\<forall>k c. a_cur a k = Some c \<longrightarrow> valid_slot e c \<and> affinity e c = k \<and> a_st a c \<noteq> StOff)
   \<and> (\<forall>s. a_st a s = StRunning \<longrightarrow> a_cur a (affinity e s) = Some s)
   \<and> (\<forall>s. \<not> valid_slot e s \<longrightarrow> a_st a s = StOff \<and> a_pub a s = PwOff)
   \<and> (\<forall>s. a_pub a s = PwOn \<longleftrightarrow> a_st a s \<noteq> StOff)
   \<and> a_alive a = of_nat (card {s. a_pub a s = PwOn})
   \<and> (\<forall>k s. a_own a k = Some s \<longrightarrow> valid_slot e s \<and> affinity e s = k)"

lemma power_okD:
  assumes "power_ok e a"
  shows "a_cur a k = Some c \<Longrightarrow> valid_slot e c \<and> affinity e c = k \<and> a_st a c \<noteq> StOff"
    "a_st a s = StRunning \<Longrightarrow> a_cur a (affinity e s) = Some s"
    "\<not> valid_slot e s \<Longrightarrow> a_st a s = StOff \<and> a_pub a s = PwOff"
    "a_pub a s = PwOn \<longleftrightarrow> a_st a s \<noteq> StOff"
    "a_alive a = of_nat (card {s. a_pub a s = PwOn})"
    "a_own a k = Some s \<Longrightarrow> valid_slot e s \<and> affinity e s = k"
  using assms unfolding power_ok_def by blast+

lemma power_okI:
  assumes "\<And>k c. a_cur a k = Some c \<Longrightarrow> valid_slot e c \<and> affinity e c = k \<and> a_st a c \<noteq> StOff"
    and "\<And>s. a_st a s = StRunning \<Longrightarrow> a_cur a (affinity e s) = Some s"
    and "\<And>s. \<not> valid_slot e s \<Longrightarrow> a_st a s = StOff \<and> a_pub a s = PwOff"
    and "\<And>s. a_pub a s = PwOn \<longleftrightarrow> a_st a s \<noteq> StOff"
    and "a_alive a = of_nat (card {s. a_pub a s = PwOn})"
    and "\<And>k s. a_own a k = Some s \<Longrightarrow> valid_slot e s \<and> affinity e s = k"
  shows "power_ok e a"
  unfolding power_ok_def using assms by blast

lemma power_fits: "power_ok e a \<Longrightarrow> cur_fits k a"
  using power_okD(1) valid_slot_less by (fastforce simp: cur_fits_def)

lemma on_finite: "power_ok e a \<Longrightarrow> finite {s. a_pub a s = PwOn}"
proof (rule finite_subset)
  show "power_ok e a \<Longrightarrow> {s. a_pub a s = PwOn} \<subseteq> {..< kMaxVcpus}"
    using power_okD(3) valid_slot_less by (metis (mono_tags, lifting) PowerState.distinct(3) lessThan_iff mem_Collect_eq subsetI)
qed simp

lemma power_park:
  assumes "power_ok e a"
  shows "power_ok e (a_park (a_cur a k) a)" "\<And>c. a_cur a k = Some c \<Longrightarrow> a_st (a_park (a_cur a k) a) c \<noteq> StRunning"
    "a_cur (a_park (a_cur a k) a) = a_cur a" "a_st a s = StReady \<Longrightarrow> a_st (a_park (a_cur a k) a) s = StReady"
  using assms unfolding power_ok_def by (auto simp: a_park_def split: option.splits)

lemma power_switch_in:
  assumes "power_ok e a" "valid_slot e next" "affinity e next = k" "a_st a next = StReady"
    and "\<And>c. a_cur a k = Some c \<Longrightarrow> a_st a c \<noteq> StRunning"
  shows "power_ok e (a_resident k next a)"
proof (rule power_okI)
  fix j c assume "a_cur (a_resident k next a) j = Some c"
  then show "valid_slot e c \<and> affinity e c = j \<and> a_st (a_resident k next a) c \<noteq> StOff"
    using assms(2-4) power_okD(1) [OF assms(1), of j c] by (auto simp: a_resident_def split: if_splits)
next
  fix s assume "a_st (a_resident k next a) s = StRunning"
  then show "a_cur (a_resident k next a) (affinity e s) = Some s"
    using assms(3,5) power_okD(2) [OF assms(1), of s] by (auto simp: a_resident_def split: if_splits)
next
  fix s assume "\<not> valid_slot e s"
  then show "a_st (a_resident k next a) s = StOff \<and> a_pub (a_resident k next a) s = PwOff"
    using assms(2) power_okD(3) [OF assms(1), of s] by (auto simp: a_resident_def)
next
  fix s show "(a_pub (a_resident k next a) s = PwOn) = (a_st (a_resident k next a) s \<noteq> StOff)"
    using assms(4) power_okD(4) [OF assms(1), of s] by (auto simp: a_resident_def)
next
  show "a_alive (a_resident k next a) = of_nat (card {s. a_pub (a_resident k next a) s = PwOn})"
    using power_okD(5) [OF assms(1)] by (simp add: a_resident_def)
next
  fix j s assume "a_own (a_resident k next a) j = Some s"
  then show "valid_slot e s \<and> affinity e s = j" using power_okD(6) [OF assms(1), of j s] by (simp add: a_resident_def)
qed

lemma power_resident:
  assumes "power_ok e a" "valid_slot e next" "affinity e next = k" "a_st a next = StReady"
  shows "power_ok e (a_switch k next a)"
  unfolding a_switch_def
proof (rule power_switch_in [OF power_park(1) [OF assms(1)] assms(2,3)])
  show "a_st (a_park (a_cur a k) a) next = StReady" by (rule power_park(4) [OF assms(1,4)])
next
  fix c assume "a_cur (a_park (a_cur a k) a) k = Some c"
  then show "a_st (a_park (a_cur a k) a) c \<noteq> StRunning"
    unfolding power_park(3) [OF assms(1)] by (rule power_park(2) [OF assms(1)])
qed

lemma power_run_self:
  assumes "power_ok e a" "a_cur a k = Some c"
  shows "power_ok e (a\<lparr>a_st := (a_st a)(c := StRunning)\<rparr>)"
  using assms unfolding power_ok_def by auto

lemma power_block:
  assumes "power_ok e a" "a_cur a k = Some c"
  shows "power_ok e (a\<lparr>a_st := (a_st a)(c := StBlocked)\<rparr>)"
  using assms unfolding power_ok_def by auto

lemma power_wake:
  assumes "power_ok e a" "a_st a c = StBlocked"
  shows "power_ok e (a\<lparr>a_st := (a_st a)(c := StReady)\<rparr>)"
  using assms unfolding power_ok_def by auto

lemma power_ready_valid: "power_ok e a \<Longrightarrow> a_st a s \<noteq> StOff \<Longrightarrow> valid_slot e s"
  using power_okD(3) by metis

lemma power_pick:
  assumes "power_ok e a" "a_pick e k a < g_count e"
  shows "valid_slot e (a_pick e k a)" "affinity e (a_pick e k a) = k" "a_st a (a_pick e k a) = StReady"
  using a_pick_ready [OF assms(2)] power_ready_valid [OF assms(1)] by simp_all

lemma power_schedule_out:
  assumes "power_ok e a"
  shows "power_ok e (a_schedule_out e k a)"
proof (cases "a_pick e k a < g_count e")
  case True
  note p = power_pick [OF assms True]
  show ?thesis
  proof (cases "Some (a_pick e k a) = a_cur a k")
    case same: True
    then show ?thesis using True power_run_self [OF assms, of k "a_pick e k a"] by (simp add: a_schedule_out_def Let_def)
  next
    case False
    then show ?thesis using True power_resident [OF assms p] by (simp add: a_schedule_out_def Let_def)
  qed
qed (simp add: a_schedule_out_def Let_def assms)

lemma power_yield: "power_ok e a \<Longrightarrow> power_ok e (a_yield e k a)"
  by (cases "a_pick e k a < g_count e") (simp_all add: a_yield_def Let_def power_resident [OF _ power_pick])

lemma power_seed: "power_ok e a \<Longrightarrow> power_ok e (a_seed k slot a)"
  unfolding power_ok_def a_seed_def invalidate_def by auto

lemma power_own: "power_ok e a \<Longrightarrow> a_cur a k = Some c \<Longrightarrow> power_ok e (a\<lparr>a_own := (a_own a)(k := Some c)\<rparr>)"
  unfolding power_ok_def by auto

lemma power_trans [simp]: "power_ok e (a\<lparr>a_trans := x\<rparr>) = power_ok e a"
  by (simp add: power_ok_def)

lemma power_end [simp]: "power_ok e (a_end a) = power_ok e a"
  by (simp add: a_end_def)

text \<open>Publishing anything but on for a slot that is off leaves the count of slots on alone.\<close>

lemma power_pub:
  assumes "power_ok e a" "valid_slot e slot" "a_st a slot = StOff" "p \<noteq> PwOn"
  shows "power_ok e (a\<lparr>a_pub := (a_pub a)(slot := p)\<rparr>)"
proof -
  have "a_pub a slot \<noteq> PwOn" using power_okD(4) [OF assms(1)] assms(3) by simp
  then have "{s. ((a_pub a)(slot := p)) s = PwOn} = {s. a_pub a s = PwOn}" using assms(4) by auto
  moreover have "\<forall>s. ((a_pub a)(slot := p)) s = PwOn \<longleftrightarrow> a_st a s \<noteq> StOff" using power_okD(4) [OF assms(1)] assms(3,4) by simp
  ultimately show ?thesis using assms(1,2) unfolding power_ok_def by simp
qed

lemma power_trans2: "power_ok e (a\<lparr>a_trans := x, a_pub := p\<rparr>) = power_ok e (a\<lparr>a_pub := p\<rparr>)"
  "power_ok e (a\<lparr>a_pub := p, a_trans := x\<rparr>) = power_ok e (a\<lparr>a_pub := p\<rparr>)"
  by (simp_all add: power_ok_def)

lemma power_reserve:
  assumes "power_ok e a" "valid_slot e slot" "a_pub a slot = PwOff"
  shows "power_ok e (a_reserve slot a)"
proof -
  have "a_st a slot = StOff" using power_okD(4) [OF assms(1), of slot] assms(3) by simp
  then show ?thesis unfolding a_reserve_def power_trans2 by (intro power_pub assms) simp_all
qed

lemma power_cancel:
  assumes "power_ok e a"
  shows "power_ok e (a_cancel e slot a)"
proof (cases "valid_slot e slot \<and> a_pub a slot = PwOnPending")
  case True
  then have "a_st a slot = StOff" using power_okD(4) [OF assms, of slot] by simp
  then have "power_ok e (a\<lparr>a_pub := (a_pub a)(slot := PwOff)\<rparr>)" using True by (intro power_pub assms) simp_all
  then show ?thesis using True by (simp add: a_cancel_def power_trans2)
qed (auto simp: a_cancel_def assms)

lemma power_up:
  assumes "power_ok e a" "valid_slot e slot" "a_st a slot = StOff"
  shows "power_ok e (a_up slot a)"
proof -
  have off: "a_pub a slot \<noteq> PwOn" using power_okD(4) [OF assms(1)] assms(3) by simp
  have "{s. ((a_pub a)(slot := PwOn)) s = PwOn} = insert slot {s. a_pub a s = PwOn}" by auto
  then have "card {s. ((a_pub a)(slot := PwOn)) s = PwOn} = card {s. a_pub a s = PwOn} + 1"
    using off on_finite [OF assms(1)] by simp
  then have alive: "a_alive a + 1 = of_nat (card {s. ((a_pub a)(slot := PwOn)) s = PwOn})" using power_okD(5) [OF assms(1)] by simp
  have st: "\<forall>s. ((a_pub a)(slot := PwOn)) s = PwOn \<longleftrightarrow> ((a_st a)(slot := StReady)) s \<noteq> StOff"
    using power_okD(4) [OF assms(1)] by simp
  show ?thesis
  proof (rule power_okI)
    fix j c assume "a_cur (a_up slot a) j = Some c"
    then show "valid_slot e c \<and> affinity e c = j \<and> a_st (a_up slot a) c \<noteq> StOff"
      using power_okD(1) [OF assms(1), of j c] by (simp add: a_up_def)
  next
    fix s assume "a_st (a_up slot a) s = StRunning"
    then show "a_cur (a_up slot a) (affinity e s) = Some s"
      using power_okD(2) [OF assms(1), of s] by (simp add: a_up_def split: if_splits)
  next
    fix s assume "\<not> valid_slot e s"
    then show "a_st (a_up slot a) s = StOff \<and> a_pub (a_up slot a) s = PwOff"
      using assms(2) power_okD(3) [OF assms(1), of s] by (auto simp: a_up_def)
  next
    fix s show "(a_pub (a_up slot a) s = PwOn) = (a_st (a_up slot a) s \<noteq> StOff)" using st unfolding a_up_def by simp
  next
    show "a_alive (a_up slot a) = of_nat (card {s. a_pub (a_up slot a) s = PwOn})" using alive by (simp add: a_up_def)
  next
    fix j s assume "a_own (a_up slot a) j = Some s"
    then show "valid_slot e s \<and> affinity e s = j" using power_okD(6) [OF assms(1), of j s] by (simp add: a_up_def)
  qed
qed

lemma of_nat_pred: "0 < c \<Longrightarrow> (of_nat (c - 1) :: u64) = of_nat c - 1"
  by (cases c) simp_all

lemma alive_down:
  assumes "power_ok e a" "a_pub a slot = PwOn"
  shows "a_alive a - 1 = of_nat (card {s. ((a_pub a)(slot := PwOff)) s = PwOn})"
proof -
  have set: "{s. ((a_pub a)(slot := PwOff)) s = PwOn} = {s. a_pub a s = PwOn} - {slot}" by auto
  have "0 < card {s. a_pub a s = PwOn}" using assms(2) on_finite [OF assms(1)] by (auto simp: card_gt_0_iff)
  moreover have "card {s. ((a_pub a)(slot := PwOff)) s = PwOn} = card {s. a_pub a s = PwOn} - 1"
    unfolding set using assms(2) by (intro card_Diff_singleton) simp
  ultimately show ?thesis unfolding power_okD(5) [OF assms(1)] by (simp only: of_nat_pred)
qed

lemma power_down:
  assumes "power_ok e a" "valid_slot e slot" "affinity e slot = k" "a_st a slot \<noteq> StOff"
  shows "power_ok e (a_down k slot a)"
proof -
  have on: "a_pub a slot = PwOn" using power_okD(4) [OF assms(1)] assms(4) by simp
  show ?thesis
  proof (rule power_okI)
    fix j c assume "a_cur (a_down k slot a) j = Some c"
    then have c: "a_cur a j = Some c" "c \<noteq> slot"
      using power_okD(1) [OF assms(1), of j slot] assms(3) by (auto simp: a_down_def split: if_splits)
    then show "valid_slot e c \<and> affinity e c = j \<and> a_st (a_down k slot a) c \<noteq> StOff"
      using power_okD(1) [OF assms(1), of j c] by (simp add: a_down_def)
  next
    fix s assume "a_st (a_down k slot a) s = StRunning"
    then have "a_st a s = StRunning" "s \<noteq> slot" by (auto simp: a_down_def split: if_splits)
    then show "a_cur (a_down k slot a) (affinity e s) = Some s"
      using power_okD(2) [OF assms(1), of s] by (auto simp: a_down_def)
  next
    fix s assume "\<not> valid_slot e s"
    then show "a_st (a_down k slot a) s = StOff \<and> a_pub (a_down k slot a) s = PwOff"
      using power_okD(3) [OF assms(1), of s] by (auto simp: a_down_def)
  next
    fix s show "(a_pub (a_down k slot a) s = PwOn) = (a_st (a_down k slot a) s \<noteq> StOff)"
      using power_okD(4) [OF assms(1), of s] by (simp add: a_down_def)
  next
    have "a_alive (a_down k slot a) = a_alive a - 1" using on by (simp add: a_down_def)
    moreover have "a_pub (a_down k slot a) = (a_pub a)(slot := PwOff)" by (simp add: a_down_def)
    ultimately show "a_alive (a_down k slot a) = of_nat (card {s. a_pub (a_down k slot a) s = PwOn})"
      using alive_down [OF assms(1) on] by (simp only:)
  next
    fix j s assume "a_own (a_down k slot a) j = Some s"
    then show "valid_slot e s \<and> affinity e s = j" using power_okD(6) [OF assms(1), of j s] by (simp add: a_down_def)
  qed
qed

lemma power_retire: "power_ok e a \<Longrightarrow> power_ok e (a_retire e k slot a)"
  by (auto simp: a_retire_def intro: power_cancel power_down)

end
