(* ===== verification/NovaPsci.thy ===== *)
theory NovaPsci
  imports NovaMachine
begin

text \<open>
  \<open>nova/arch/cpu_features.hpp\<close>, \<open>psci/smccc_model.hpp\<close> and \<open>psci/psci_model.hpp\<close>:
  the ID-register evidence, the SMCCC Arch service and the PSCI dispatcher, as
  the code has them: one table per service, read by discovery and by dispatch.
  The compile-time self tests are not repeated; the theorems cover them.
\<close>

section \<open>Speculation evidence\<close>

definition pfr0_csv2 :: "u64 \<Rightarrow> u64" where "pfr0_csv2 pfr0 = drop_bit 56 pfr0 AND 0xF"
definition pfr0_csv3 :: "u64 \<Rightarrow> u64" where "pfr0_csv3 pfr0 = drop_bit 60 pfr0 AND 0xF"
definition pfr1_csv2_frac :: "u64 \<Rightarrow> u64" where "pfr1_csv2_frac pfr1 = drop_bit 32 pfr1 AND 0xF"
definition pfr1_ssbs :: "u64 \<Rightarrow> u64" where "pfr1_ssbs pfr1 = drop_bit 4 pfr1 AND 0xF"
definition isar2_clrbhb :: "u64 \<Rightarrow> bool" where "isar2_clrbhb isar2 \<longleftrightarrow> drop_bit 28 isar2 AND 0xF \<noteq> 0"

record SpeculationState =
  sp_csv2 :: u64
  sp_csv2_frac :: u64
  sp_csv3 :: u64
  sp_ssbs :: u64
  sp_clrbhb :: bool

definition read_speculation_state :: "u64 \<Rightarrow> u64 \<Rightarrow> u64 \<Rightarrow> SpeculationState" where
  "read_speculation_state pfr0 pfr1 isar2 =
     \<lparr>sp_csv2 = pfr0_csv2 pfr0, sp_csv2_frac = pfr1_csv2_frac pfr1, sp_csv3 = pfr0_csv3 pfr0,
      sp_ssbs = pfr1_ssbs pfr1, sp_clrbhb = isar2_clrbhb isar2\<rparr>"

datatype Mitigation = MitUnaffected | MitGuestMitigates | MitUnknown

definition branch_target_mitigation :: "SpeculationState \<Rightarrow> Mitigation" where
  "branch_target_mitigation s = (if sp_csv2 s \<ge> 1 then MitUnaffected else MitUnknown)"

definition store_bypass_mitigation :: "SpeculationState \<Rightarrow> Mitigation" where
  "store_bypass_mitigation s = (if sp_ssbs s \<noteq> 0 then MitUnaffected else MitUnknown)"

definition branch_history_mitigation :: "SpeculationState \<Rightarrow> Mitigation" where
  "branch_history_mitigation s =
     (if sp_csv2 s \<ge> 3 \<or> (sp_csv2 s = 1 \<and> sp_csv2_frac s \<ge> 2) then MitUnaffected
      else if sp_clrbhb s then MitGuestMitigates else MitUnknown)"

definition fault_channel_mitigation :: "SpeculationState \<Rightarrow> Mitigation" where
  "fault_channel_mitigation s = (if sp_csv3 s \<ge> 1 then MitUnaffected else MitUnknown)"

section \<open>SMCCC Arch service\<close>

definition SMCCC_FN_VERSION :: u32 where "SMCCC_FN_VERSION = 0x80000000"
definition SMCCC_FN_ARCH_FEATURES :: u32 where "SMCCC_FN_ARCH_FEATURES = 0x80000001"
definition SMCCC_FN_WORKAROUND_1 :: u32 where "SMCCC_FN_WORKAROUND_1 = 0x80008000"
definition SMCCC_FN_WORKAROUND_2 :: u32 where "SMCCC_FN_WORKAROUND_2 = 0x80007FFF"
definition SMCCC_FN_WORKAROUND_3 :: u32 where "SMCCC_FN_WORKAROUND_3 = 0x80003FFF"
definition SMCCC_VERSION_1_1 :: u64 where "SMCCC_VERSION_1_1 = 0x10001"
definition SMCCC_SUCCESS :: u64 where "SMCCC_SUCCESS = 0"
definition SMCCC_NOT_SUPPORTED :: u64 where "SMCCC_NOT_SUPPORTED = - 1"
definition SMCCC_NOT_REQUIRED :: u64 where "SMCCC_NOT_REQUIRED = - 2"

record SmcccVerdict =
  sv_claimed :: bool
  sv_ret :: u64

record SmcccEntry =
  se_fid :: u32
  se_query :: "(SpeculationState \<Rightarrow> Mitigation) option"
  se_ret :: u64

definition smccc_in_range :: "u32 \<Rightarrow> bool" where
  "smccc_in_range fid \<longleftrightarrow> fid AND 0xFFFF0000 = 0x80000000"

definition smccc_table :: "SmcccEntry list" where
  "smccc_table =
     [\<lparr>se_fid = SMCCC_FN_VERSION, se_query = None, se_ret = SMCCC_VERSION_1_1\<rparr>,
      \<lparr>se_fid = SMCCC_FN_ARCH_FEATURES, se_query = None, se_ret = 0\<rparr>,
      \<lparr>se_fid = SMCCC_FN_WORKAROUND_1, se_query = Some branch_target_mitigation, se_ret = 0\<rparr>,
      \<lparr>se_fid = SMCCC_FN_WORKAROUND_2, se_query = Some store_bypass_mitigation, se_ret = 0\<rparr>,
      \<lparr>se_fid = SMCCC_FN_WORKAROUND_3, se_query = Some branch_history_mitigation, se_ret = 0\<rparr>]"

definition smccc_find :: "u32 \<Rightarrow> SmcccEntry option" where
  "smccc_find fid = find (\<lambda>e. se_fid e = fid) smccc_table"

definition smccc_is_implemented :: "u32 \<Rightarrow> bool" where
  "smccc_is_implemented fid \<longleftrightarrow> smccc_find fid \<noteq> None"

definition entry_answer :: "SmcccEntry \<Rightarrow> SpeculationState \<Rightarrow> u64" where
  "entry_answer e spec =
     (case se_query e of None \<Rightarrow> SMCCC_SUCCESS
      | Some q \<Rightarrow> if q spec = MitUnaffected then SMCCC_NOT_REQUIRED else SMCCC_NOT_SUPPORTED)"

definition feature_answer :: "u32 \<Rightarrow> SpeculationState \<Rightarrow> u64" where
  "feature_answer fid spec =
     (case smccc_find fid of None \<Rightarrow> SMCCC_NOT_SUPPORTED | Some e \<Rightarrow> entry_answer e spec)"

definition smccc_dispatch :: "u32 \<Rightarrow> u64 \<Rightarrow> SpeculationState \<Rightarrow> SmcccVerdict" where
  "smccc_dispatch fid arg spec =
     (if \<not> smccc_in_range fid then \<lparr>sv_claimed = False, sv_ret = 0\<rparr>
      else case smccc_find fid of
          None \<Rightarrow> \<lparr>sv_claimed = True, sv_ret = SMCCC_NOT_SUPPORTED\<rparr>
        | Some e \<Rightarrow>
            if se_fid e = SMCCC_FN_ARCH_FEATURES then \<lparr>sv_claimed = True, sv_ret = feature_answer (ucast arg) spec\<rparr>
            else \<lparr>sv_claimed = True, sv_ret = (if se_query e \<noteq> None then entry_answer e spec else se_ret e)\<rparr>)"

section \<open>PSCI dispatch\<close>

definition PSCI_FN_SMC64 :: u32 where "PSCI_FN_SMC64 = 0x40000000"
definition PSCI_FN_VERSION :: u32 where "PSCI_FN_VERSION = 0x84000000"
definition PSCI_FN_CPU_SUSPEND :: u32 where "PSCI_FN_CPU_SUSPEND = 0x84000001"
definition PSCI_FN_CPU_OFF :: u32 where "PSCI_FN_CPU_OFF = 0x84000002"
definition PSCI_FN_CPU_ON :: u32 where "PSCI_FN_CPU_ON = 0x84000003"
definition PSCI_FN_AFFINITY_INFO :: u32 where "PSCI_FN_AFFINITY_INFO = 0x84000004"
definition PSCI_FN_MIGRATE_INFO_TYPE :: u32 where "PSCI_FN_MIGRATE_INFO_TYPE = 0x84000006"
definition PSCI_FN_SYSTEM_OFF :: u32 where "PSCI_FN_SYSTEM_OFF = 0x84000008"
definition PSCI_FN_SYSTEM_RESET :: u32 where "PSCI_FN_SYSTEM_RESET = 0x84000009"
definition PSCI_FN_FEATURES :: u32 where "PSCI_FN_FEATURES = 0x8400000A"
definition PSCI_VERSION_1_1 :: u64 where "PSCI_VERSION_1_1 = 0x10001"
definition PSCI_TOS_NOT_PRESENT_MP :: u64 where "PSCI_TOS_NOT_PRESENT_MP = 2"
definition PSCI_SUCCESS :: u64 where "PSCI_SUCCESS = 0"
definition PSCI_NOT_SUPPORTED :: u64 where "PSCI_NOT_SUPPORTED = - 1"
definition PSCI_INVALID_PARAMETERS :: u64 where "PSCI_INVALID_PARAMETERS = - 2"
definition PSCI_ALREADY_ON :: u64 where "PSCI_ALREADY_ON = - 4"
definition PSCI_ON_PENDING :: u64 where "PSCI_ON_PENDING = - 5"
definition PSCI_INTERNAL_FAILURE :: u64 where "PSCI_INTERNAL_FAILURE = - 6"
definition PSCI_AFFINITY_ON :: u64 where "PSCI_AFFINITY_ON = 0"
definition PSCI_AFFINITY_OFF :: u64 where "PSCI_AFFINITY_OFF = 1"
definition PSCI_AFFINITY_ON_PENDING :: u64 where "PSCI_AFFINITY_ON_PENDING = 2"

datatype Action = ActNone | ActSystemOff | ActSystemReset | ActCpuOn | ActCpuOff | ActCpuSuspend | ActAffinityInfo

record PsciVerdict =
  pv_claimed :: bool
  pv_action :: Action
  pv_ret :: u64

record PsciEntry =
  pe_fid :: u32
  pe_action :: Action
  pe_ret :: u64

definition psci_in_range :: "u32 \<Rightarrow> bool" where
  "psci_in_range fid \<longleftrightarrow> fid AND NOT (PSCI_FN_SMC64 OR 0x1F) = PSCI_FN_VERSION"

definition strip_smc64 :: "u32 \<Rightarrow> u32" where "strip_smc64 fid = fid AND NOT PSCI_FN_SMC64"

definition psci_table :: "PsciEntry list" where
  "psci_table =
     [\<lparr>pe_fid = PSCI_FN_VERSION, pe_action = ActNone, pe_ret = PSCI_VERSION_1_1\<rparr>,
      \<lparr>pe_fid = PSCI_FN_CPU_SUSPEND, pe_action = ActCpuSuspend, pe_ret = PSCI_SUCCESS\<rparr>,
      \<lparr>pe_fid = PSCI_FN_CPU_OFF, pe_action = ActCpuOff, pe_ret = 0\<rparr>,
      \<lparr>pe_fid = PSCI_FN_CPU_ON, pe_action = ActCpuOn, pe_ret = 0\<rparr>,
      \<lparr>pe_fid = PSCI_FN_AFFINITY_INFO, pe_action = ActAffinityInfo, pe_ret = 0\<rparr>,
      \<lparr>pe_fid = PSCI_FN_MIGRATE_INFO_TYPE, pe_action = ActNone, pe_ret = PSCI_TOS_NOT_PRESENT_MP\<rparr>,
      \<lparr>pe_fid = PSCI_FN_SYSTEM_OFF, pe_action = ActSystemOff, pe_ret = 0\<rparr>,
      \<lparr>pe_fid = PSCI_FN_SYSTEM_RESET, pe_action = ActSystemReset, pe_ret = 0\<rparr>,
      \<lparr>pe_fid = PSCI_FN_FEATURES, pe_action = ActNone, pe_ret = 0\<rparr>]"

definition psci_find :: "u32 \<Rightarrow> PsciEntry option" where
  "psci_find fid = find (\<lambda>e. pe_fid e = strip_smc64 fid) psci_table"

definition psci_is_implemented :: "u32 \<Rightarrow> bool" where
  "psci_is_implemented fid \<longleftrightarrow> psci_find fid \<noteq> None"

definition kInvalidTarget :: u64 where "kInvalidTarget = - 1"

definition target_vcpu :: "u64 \<Rightarrow> u64" where
  "target_vcpu mpidr = (if mpidr AND 0xFF00FFFF00 \<noteq> 0 then kInvalidTarget else mpidr AND 0xFF)"

definition psci_dispatch :: "u32 \<Rightarrow> u64 \<Rightarrow> PsciVerdict" where
  "psci_dispatch fid arg =
     (if \<not> psci_in_range fid then \<lparr>pv_claimed = False, pv_action = ActNone, pv_ret = 0\<rparr>
      else case psci_find fid of
          None \<Rightarrow> \<lparr>pv_claimed = True, pv_action = ActNone, pv_ret = PSCI_NOT_SUPPORTED\<rparr>
        | Some e \<Rightarrow>
            if pe_fid e = PSCI_FN_FEATURES
            then let queried = ucast arg :: u32;
                     present = (psci_in_range queried \<and> psci_is_implemented queried
                                \<or> smccc_in_range queried \<and> smccc_is_implemented queried) in
              \<lparr>pv_claimed = True, pv_action = ActNone, pv_ret = (if present then PSCI_SUCCESS else PSCI_NOT_SUPPORTED)\<rparr>
            else \<lparr>pv_claimed = True, pv_action = pe_action e, pv_ret = pe_ret e\<rparr>)"

lemmas psci_ids = PSCI_FN_VERSION_def PSCI_FN_CPU_SUSPEND_def PSCI_FN_CPU_OFF_def PSCI_FN_CPU_ON_def
  PSCI_FN_AFFINITY_INFO_def PSCI_FN_MIGRATE_INFO_TYPE_def PSCI_FN_SYSTEM_OFF_def PSCI_FN_SYSTEM_RESET_def
  PSCI_FN_FEATURES_def

lemmas psci_rets = PSCI_VERSION_1_1_def PSCI_TOS_NOT_PRESENT_MP_def PSCI_SUCCESS_def PSCI_NOT_SUPPORTED_def

lemmas smccc_ids = SMCCC_FN_VERSION_def SMCCC_FN_ARCH_FEATURES_def SMCCC_FN_WORKAROUND_1_def
  SMCCC_FN_WORKAROUND_2_def SMCCC_FN_WORKAROUND_3_def

lemmas smccc_rets = SMCCC_VERSION_1_1_def SMCCC_SUCCESS_def SMCCC_NOT_SUPPORTED_def SMCCC_NOT_REQUIRED_def

section \<open>Discovery and dispatch\<close>

lemma strip_smc64_twin: "strip_smc64 (fid OR PSCI_FN_SMC64) = strip_smc64 fid"
  by (rule bit_word_eqI) (auto simp: strip_smc64_def PSCI_FN_SMC64_def bit_simps)

lemma psci_in_range_twin: "psci_in_range (fid OR PSCI_FN_SMC64) = psci_in_range fid"
proof -
  have "(fid OR PSCI_FN_SMC64) AND NOT (PSCI_FN_SMC64 OR 0x1F) = fid AND NOT (PSCI_FN_SMC64 OR 0x1F)"
    by (rule bit_word_eqI) (auto simp: bit_simps)
  then show ?thesis by (simp add: psci_in_range_def)
qed

lemma psci_dispatch_twin: "psci_dispatch (fid OR PSCI_FN_SMC64) arg = psci_dispatch fid arg"
  by (simp add: psci_dispatch_def psci_in_range_twin psci_find_def strip_smc64_twin)

lemma psci_find_cases:
  assumes "psci_find fid = Some e"
  shows "e \<in> set psci_table" "pe_fid e = strip_smc64 fid"
  using assms by (auto simp: psci_find_def find_Some_iff)

lemma psci_row_silent:
  "e \<in> set psci_table \<Longrightarrow> pe_action e = ActNone \<Longrightarrow> pe_ret e \<noteq> PSCI_NOT_SUPPORTED"
  by (auto simp: psci_table_def psci_rets)

text \<open>
  C30. Discovery and dispatch agree in both calling conventions. For every function
  ID of the PSCI range PSCI_FEATURES answers SUCCESS exactly when a call of it is
  carried out, NOT_SUPPORTED exactly when the call answers NOT_SUPPORTED whatever
  its argument, and the SMC32 and SMC64 forms of an ID are the same call.
\<close>

theorem psci_discovery_exact:
  assumes "psci_in_range q"
  shows "pv_ret (psci_dispatch PSCI_FN_FEATURES (ucast q)) = (if psci_is_implemented q then PSCI_SUCCESS else PSCI_NOT_SUPPORTED)
    \<and> (psci_is_implemented q \<longleftrightarrow> (\<exists>arg. \<not> (pv_action (psci_dispatch q arg) = ActNone \<and> pv_ret (psci_dispatch q arg) = PSCI_NOT_SUPPORTED)))
    \<and> psci_dispatch (q OR PSCI_FN_SMC64) = psci_dispatch q \<and> pv_claimed (psci_dispatch q arg)"
proof (intro conjI)
  have F: "psci_in_range PSCI_FN_FEATURES" "psci_find PSCI_FN_FEATURES = Some \<lparr>pe_fid = PSCI_FN_FEATURES, pe_action = ActNone, pe_ret = 0\<rparr>"
    by code_simp+
  have q: "ucast (ucast q :: u64) = q" by (rule bit_word_eqI) (auto simp: bit_simps)
  have smc: "\<not> smccc_in_range q"
  proof
    assume "smccc_in_range q"
    then have "bit (q AND 0xFFFF0000) 26 = bit (0x80000000 :: u32) 26" by (simp only: smccc_in_range_def)
    moreover have "bit (q AND NOT (PSCI_FN_SMC64 OR 0x1F)) 26 = bit PSCI_FN_VERSION 26"
      using assms by (simp only: psci_in_range_def)
    ultimately show False by (simp add: PSCI_FN_SMC64_def PSCI_FN_VERSION_def bit_simps)
  qed
  show "pv_ret (psci_dispatch PSCI_FN_FEATURES (ucast q)) = (if psci_is_implemented q then PSCI_SUCCESS else PSCI_NOT_SUPPORTED)"
    using assms smc by (simp add: psci_dispatch_def F q)
  show "psci_is_implemented q \<longleftrightarrow> (\<exists>arg. \<not> (pv_action (psci_dispatch q arg) = ActNone \<and> pv_ret (psci_dispatch q arg) = PSCI_NOT_SUPPORTED))"
  proof (cases "psci_find q")
    case None
    then show ?thesis using assms by (simp add: psci_is_implemented_def psci_dispatch_def)
  next
    case (Some e)
    show ?thesis
    proof (cases "pe_fid e = PSCI_FN_FEATURES")
      case True
      have "pv_ret (psci_dispatch q (ucast PSCI_FN_VERSION)) = PSCI_SUCCESS"
        using assms Some True by (simp add: psci_dispatch_def) code_simp
      then show ?thesis using Some by (auto simp: psci_is_implemented_def psci_rets intro!: exI [of _ "ucast PSCI_FN_VERSION"])
    next
      case False
      then show ?thesis
        using assms Some psci_row_silent [OF psci_find_cases(1) [OF Some]] by (simp add: psci_is_implemented_def psci_dispatch_def)
    qed
  qed
  show "psci_dispatch (q OR PSCI_FN_SMC64) = psci_dispatch q" by (rule ext) (rule psci_dispatch_twin)
  show "pv_claimed (psci_dispatch q arg)" using assms by (auto simp: psci_dispatch_def Let_def split: option.splits)
qed

lemma psci_discovery_exact_witness: "pv_ret (psci_dispatch PSCI_FN_FEATURES (ucast (0xC4000003 :: u32))) = PSCI_SUCCESS"
proof -
  have "psci_in_range 0xC4000003" "psci_is_implemented 0xC4000003" by code_simp+
  then show ?thesis using psci_discovery_exact [of "0xC4000003"] by simp
qed

text \<open>What the architecture lets one conclude from CSV2, CSV2_frac and SSBS.\<close>

definition workaround_evidence :: "u32 \<Rightarrow> u64 \<Rightarrow> u64 \<Rightarrow> bool" where
  "workaround_evidence fid pfr0 pfr1 \<longleftrightarrow>
     fid = 0x80008000 \<and> 1 \<le> drop_bit 56 pfr0 AND 0xF
     \<or> fid = 0x80007FFF \<and> 1 \<le> drop_bit 4 pfr1 AND 0xF
     \<or> fid = 0x80003FFF \<and> (3 \<le> drop_bit 56 pfr0 AND 0xF \<or> drop_bit 56 pfr0 AND 0xF = 1 \<and> 2 \<le> drop_bit 32 pfr1 AND 0xF)"

text \<open>
  C31. The hypervisor claims a mitigation NOT_REQUIRED only on evidence: a call of
  the SMCCC Arch service answers NOT_REQUIRED exactly when the workaround it names,
  or asks ARCH_FEATURES about, is one the ID registers prove the PE does not need.
\<close>

theorem not_required_on_evidence:
  "sv_ret (smccc_dispatch fid arg (read_speculation_state pfr0 pfr1 isar2)) = SMCCC_NOT_REQUIRED \<longleftrightarrow>
     workaround_evidence (if fid = SMCCC_FN_ARCH_FEATURES then ucast arg else fid) pfr0 pfr1"
proof -
  have r: "smccc_in_range SMCCC_FN_VERSION" "smccc_in_range SMCCC_FN_ARCH_FEATURES" "smccc_in_range SMCCC_FN_WORKAROUND_1"
      "smccc_in_range SMCCC_FN_WORKAROUND_2" "smccc_in_range SMCCC_FN_WORKAROUND_3"
    by code_simp+
  have one: "(x = 0) = (\<not> 1 \<le> x)" for x :: u64 by (simp add: word_le_nat_alt Suc_le_eq unat_gt_0)
  have f: "feature_answer q (read_speculation_state pfr0 pfr1 isar2) = SMCCC_NOT_REQUIRED \<longleftrightarrow> workaround_evidence q pfr0 pfr1" for q
    unfolding feature_answer_def smccc_find_def smccc_table_def workaround_evidence_def
    by (simp add: entry_answer_def smccc_rets smccc_ids branch_target_mitigation_def store_bypass_mitigation_def
        branch_history_mitigation_def read_speculation_state_def pfr0_csv2_def pfr1_ssbs_def pfr1_csv2_frac_def one)
  show ?thesis
  proof (cases "fid \<in> se_fid ` set smccc_table")
    case True
    then consider "fid = SMCCC_FN_VERSION" | "fid = SMCCC_FN_ARCH_FEATURES" | "fid = SMCCC_FN_WORKAROUND_1"
      | "fid = SMCCC_FN_WORKAROUND_2" | "fid = SMCCC_FN_WORKAROUND_3" by (auto simp: smccc_table_def)
    then show ?thesis
    proof cases
      case 1
      then show ?thesis using r
        by (simp add: smccc_dispatch_def smccc_find_def smccc_table_def smccc_ids smccc_rets workaround_evidence_def)
    next
      case 2
      then show ?thesis using r f
        by (simp add: smccc_dispatch_def smccc_find_def smccc_table_def smccc_ids)
    next
      case 3
      then show ?thesis using r f [of fid]
        by (simp add: smccc_dispatch_def feature_answer_def smccc_find_def smccc_table_def smccc_ids)
    next
      case 4
      then show ?thesis using r f [of fid]
        by (simp add: smccc_dispatch_def feature_answer_def smccc_find_def smccc_table_def smccc_ids)
    next
      case 5
      then show ?thesis using r f [of fid]
        by (simp add: smccc_dispatch_def feature_answer_def smccc_find_def smccc_table_def smccc_ids)
    qed
  next
    case False
    then have n: "smccc_find fid = None" by (auto simp: smccc_find_def find_None_iff)
    moreover have "\<not> workaround_evidence fid pfr0 pfr1" "fid \<noteq> SMCCC_FN_ARCH_FEATURES"
      using False by (auto simp: workaround_evidence_def smccc_table_def smccc_ids)
    ultimately show ?thesis by (simp add: smccc_dispatch_def smccc_rets)
  qed
qed

end
