(* ===== verification/NovaSmp.thy ===== *)
theory NovaSmp
  imports NovaLifecycle NovaPsci
begin

text \<open>
  The component \<open>smp\<close>: \<open>smp_internal.hpp\<close>, \<open>cross_call.cpp\<close> and
  \<open>vm_lifecycle.cpp\<close>, with the two components that ride on its routing, the
  watchdog (\<open>watchdog.cpp\<close>, \<open>watchdog_model.hpp\<close>) and the legacy timer slot of
  \<open>core_timer\<close>, and the virtual interrupt entry points of \<open>sched.cpp\<close>, which call
  into it. The world of \<open>core_vcpu\<close> is extended with the mailboxes, the coordinator
  state and the pending cross-call interrupts. Sending an SGI raises the pending
  flag of the target core. Trace records and console lines are output.
\<close>

section \<open>State\<close>

definition kCrossCallSgi :: u32 where "kCrossCallSgi = 0"
definition kMailboxCapacity :: nat where "kMailboxCapacity = 16"
definition kLifecycleReserve :: nat where "kLifecycleReserve = 2 * kMaxGuests * (kMaxVcpusPerVm - 1)"
definition kLifecycleInactive :: u64 where "kLifecycleInactive = 0"
definition kLifecycleReserved :: u64 where "kLifecycleReserved = kUnpublishedEpoch"
definition kQuiesceTimeoutMs :: u64 where "kQuiesceTimeoutMs = 100"
definition kDmaPollMs :: u64 where "kDmaPollMs = 1"
definition kGuestTimerVintid :: nat where "kGuestTimerVintid = 27"
definition PSCI_DENIED :: u64 where "PSCI_DENIED = - 3"

datatype OwnerCall = RecoverDmaFault | ApplyLocal

datatype Op = OpStartVm | OpPostVirq | OpCpuOn | OpVmOwnerCall | OpBeginReset | OpBeginStop | OpQuiesceVcpu | OpQuiesceAck

record Request =
  rq_op :: Op
  rq_idx :: nat
  rq_a :: u64
  rq_b :: u64
  rq_c :: u64
  rq_callback :: "OwnerCall option"

datatype LifecycleMode = LmNone | LmReset | LmStop

record BeginLifecycleResult =
  bl_accepted :: bool
  bl_schedule_required :: bool

record LegacySlot =
  lg_owner :: nat
  lg_armed :: bool

record 'd SmpWorld = "'d VcpuWorld" +
  w_mail :: "Request list list"
  w_reevaluate :: "u32 list"
  w_online :: "bool list"
  w_sgi :: "bool list"
  w_lifecycle :: "QuiesceTracker list"
  w_token :: "u64 list"
  w_mode :: "LifecycleMode list"
  w_dma_pending :: "bool list"
  w_dma_failed :: "bool list"
  w_armed_generation :: "u64 list"
  w_armed_sequence :: "u64 list"
  w_update_sequence :: "u64 list"
  w_legacy :: "LegacySlot list"

definition slot_cpu :: "'d Env \<Rightarrow> nat \<Rightarrow> nat" where
  "slot_cpu e slot = unat (gd_cpu (en_guests e ! vm_of slot) ! vcpu_of slot)"

definition smp_valid_slot :: "'d Env \<Rightarrow> nat \<Rightarrow> bool" where
  "smp_valid_slot e slot \<longleftrightarrow> vm_of slot < length (en_guests e) \<and> vcpu_of slot < guest_vcpus e (vm_of slot)"

definition req :: "Op \<Rightarrow> nat \<Rightarrow> u64 \<Rightarrow> u64 \<Rightarrow> Request" where
  "req op idx a b = \<lparr>rq_op = op, rq_idx = idx, rq_a = a, rq_b = b, rq_c = 0, rq_callback = None\<rparr>"

section \<open>Mailbox transport\<close>

definition send_sgi :: "nat \<Rightarrow> ('d, 'z) SmpWorld_scheme \<Rightarrow> ('d, 'z) SmpWorld_scheme" where
  "send_sgi target w = w\<lparr>w_sgi := (w_sgi w)[target := True]\<rparr>"

definition enqueue :: "nat \<Rightarrow> Request \<Rightarrow> bool \<Rightarrow> ('d, 'z) SmpWorld_scheme \<Rightarrow> bool \<times> ('d, 'z) SmpWorld_scheme" where
  "enqueue target r lifecycle w =
     (if target \<ge> length (w_online w) \<or> \<not> w_online w ! target then (False, w)
      else let box = w_mail w ! target;
               limit = (if lifecycle then kMailboxCapacity else kMailboxCapacity - kLifecycleReserve) in
        if length box \<ge> limit then (False, w)
        else (True, send_sgi target (w\<lparr>w_mail := (w_mail w)[target := box @ [r]]\<rparr>)))"

section \<open>Virtual interrupts\<close>

definition vcpu_reevaluate_virq :: "'d Env \<Rightarrow> nat \<Rightarrow> nat \<Rightarrow> ('d, 'z) VcpuWorld_scheme \<Rightarrow> ('d, 'z) VcpuWorld_scheme" where
  "vcpu_reevaluate_virq e core slot w =
     (if \<not> valid_slot e slot \<or> affinity e slot \<noteq> core \<or> st w slot = StOff then w
      else let (woken, g) = reevaluate (vcpu_table e) core (en_turn e) slot (w_vgic w); w1 = w\<lparr>w_vgic := g\<rparr> in
        if woken \<and> st w1 slot = StBlocked then wake e core slot w1 else w1)"

definition reevaluate_virq :: "'d Env \<Rightarrow> nat \<Rightarrow> nat \<Rightarrow> ('d, 'z) SmpWorld_scheme \<Rightarrow> ('d, 'z) SmpWorld_scheme" where
  "reevaluate_virq e core slot w =
     (if \<not> smp_valid_slot e slot \<or> \<not> vcpu_on e slot w then w
      else let owner = slot_cpu e slot in
        if owner = core then vcpu_reevaluate_virq e core slot w
        else if owner \<ge> length (w_online w) \<or> \<not> w_online w ! owner then w
        else let old = w_reevaluate w ! owner;
                 w1 = w\<lparr>w_reevaluate := (w_reevaluate w)[owner := old OR push_bit slot 1]\<rparr> in
             if old = 0 then send_sgi owner w1 else w1)"

text \<open>The subscriber of the re-evaluation requests of the virtual GIC.\<close>

definition handle_virq_reevaluate :: "'d Env \<Rightarrow> nat \<Rightarrow> VgicEvent list \<Rightarrow> ('d, 'z) SmpWorld_scheme \<Rightarrow> ('d, 'z) SmpWorld_scheme" where
  "handle_virq_reevaluate e core ev w =
     fold (\<lambda>v w. case v of VirqReevaluate s \<Rightarrow> reevaluate_virq e core s w | _ \<Rightarrow> deliver_eois e [v] w) ev w"

definition vcpu_post_virq :: "'d Env \<Rightarrow> nat \<Rightarrow> nat \<Rightarrow> nat \<Rightarrow> ('d, 'z) SmpWorld_scheme \<Rightarrow> bool \<times> ('d, 'z) SmpWorld_scheme" where
  "vcpu_post_virq e core slot vintid w =
     (if slot \<ge> g_count e \<or> affinity e slot \<noteq> core then (False, w)
      else if vintid \<ge> kNumPrivate
      then let (ok, g, ev) = post_spi (vcpu_table e) (vm_of slot) vintid (w_vgic w) in
           (ok, handle_virq_reevaluate e core ev (w\<lparr>w_vgic := g\<rparr>))
      else if st w slot = StOff then (False, w)
      else let (ok, g) = post_private (vcpu_table e) core (en_turn e) slot vintid (w_vgic w); w1 = w\<lparr>w_vgic := g\<rparr> in
        if \<not> ok then (False, w1)
        else if st w1 slot = StBlocked
        then let (d, g2) = has_deliverable (vcpu_table e) core (en_turn e) slot (w_vgic w1); w2 = w1\<lparr>w_vgic := g2\<rparr> in
             (True, if d then wake e core slot w2 else w2)
        else (True, w1))"

definition post_virq :: "'d Env \<Rightarrow> nat \<Rightarrow> nat \<Rightarrow> nat \<Rightarrow> ('d, 'z) SmpWorld_scheme \<Rightarrow> bool \<times> ('d, 'z) SmpWorld_scheme" where
  "post_virq e core slot vintid w =
     (if \<not> smp_valid_slot e slot then (False, w)
      else if slot_cpu e slot = core then vcpu_post_virq e core slot vintid w
      else enqueue (slot_cpu e slot) (req OpPostVirq slot (of_nat vintid) 0) False w)"

section \<open>DMA half of VM power\<close>

definition dma_quiesce :: "'d Env \<Rightarrow> DmaQuiesceOp \<Rightarrow> nat \<Rightarrow> u64 \<Rightarrow> ('d, 'z) SmpWorld_scheme \<Rightarrow> DmaQuiesceResult \<times> ('d, 'z) SmpWorld_scheme" where
  "dma_quiesce e op vm generation w =
     (let ((handled, result), d) = pr_dma (en_peers e) op vm generation (w_dev w) in
      (dma_quiesce_outcome handled result, w\<lparr>w_dev := d\<rparr>))"

definition dma_begin_quiesce :: "'d Env \<Rightarrow> nat \<Rightarrow> ('d, 'z) SmpWorld_scheme \<Rightarrow> DmaQuiesceResult \<times> ('d, 'z) SmpWorld_scheme" where
  "dma_begin_quiesce e vm w = dma_quiesce e DqBegin vm 0 w"

definition dma_poll_quiesce :: "'d Env \<Rightarrow> nat \<Rightarrow> ('d, 'z) SmpWorld_scheme \<Rightarrow> DmaQuiesceResult \<times> ('d, 'z) SmpWorld_scheme" where
  "dma_poll_quiesce e vm w = dma_quiesce e DqPoll vm 0 w"

definition dma_resume_vm :: "'d Env \<Rightarrow> nat \<Rightarrow> u64 \<Rightarrow> ('d, 'z) SmpWorld_scheme \<Rightarrow> bool \<times> ('d, 'z) SmpWorld_scheme" where
  "dma_resume_vm e vm generation w =
     (let (r, w1) = dma_quiesce e DqResume vm generation w in (r = DqComplete, w1))"

definition dma_can_start :: "'d Env \<Rightarrow> nat \<Rightarrow> ('d, 'z) SmpWorld_scheme \<Rightarrow> bool \<times> ('d, 'z) SmpWorld_scheme" where
  "dma_can_start e vm w = (let (r, w1) = dma_quiesce e DqCanStart vm 0 w in (r = DqComplete, w1))"

section \<open>Coordinator\<close>

definition set_token :: "nat \<Rightarrow> u64 \<Rightarrow> ('d, 'z) SmpWorld_scheme \<Rightarrow> ('d, 'z) SmpWorld_scheme" where
  "set_token vm t w = w\<lparr>w_token := (w_token w)[vm := t]\<rparr>"

definition set_tracker :: "nat \<Rightarrow> QuiesceTracker \<Rightarrow> ('d, 'z) SmpWorld_scheme \<Rightarrow> ('d, 'z) SmpWorld_scheme" where
  "set_tracker vm t w = w\<lparr>w_lifecycle := (w_lifecycle w)[vm := t]\<rparr>"

definition set_mode :: "nat \<Rightarrow> LifecycleMode \<Rightarrow> ('d, 'z) SmpWorld_scheme \<Rightarrow> ('d, 'z) SmpWorld_scheme" where
  "set_mode vm m w = w\<lparr>w_mode := (w_mode w)[vm := m]\<rparr>"

definition set_dma_pending :: "nat \<Rightarrow> bool \<Rightarrow> ('d, 'z) SmpWorld_scheme \<Rightarrow> ('d, 'z) SmpWorld_scheme" where
  "set_dma_pending vm b w = w\<lparr>w_dma_pending := (w_dma_pending w)[vm := b]\<rparr>"

definition set_dma_failed :: "nat \<Rightarrow> bool \<Rightarrow> ('d, 'z) SmpWorld_scheme \<Rightarrow> ('d, 'z) SmpWorld_scheme" where
  "set_dma_failed vm b w = w\<lparr>w_dma_failed := (w_dma_failed w)[vm := b]\<rparr>"

definition lifecycle_token :: "nat \<Rightarrow> ('d, 'z) SmpWorld_scheme \<Rightarrow> u64" where
  "lifecycle_token vm w = w_token w ! vm"

definition lifecycle_blocks_start :: "nat \<Rightarrow> ('d, 'z) SmpWorld_scheme \<Rightarrow> bool" where
  "lifecycle_blocks_start vm w \<longleftrightarrow> vm < length (w_token w) \<and> lifecycle_token vm w \<noteq> kLifecycleInactive"

definition release_lifecycle :: "nat \<Rightarrow> ('d, 'z) SmpWorld_scheme \<Rightarrow> ('d, 'z) SmpWorld_scheme" where
  "release_lifecycle vm w =
     end_lifecycle_transition (if vm < length (w_token w) then set_token vm kLifecycleInactive w else w)"

definition deadline_in :: "'d Env \<Rightarrow> u64 \<Rightarrow> u64" where
  "deadline_in e ms = en_now e + tp_ticks (ms_to_ticks (en_hz e) ms)"

definition arm_lifecycle_timeout :: "'d Env \<Rightarrow> nat \<Rightarrow> nat \<Rightarrow> ('d, 'z) SmpWorld_scheme \<Rightarrow> ('d, 'z) SmpWorld_scheme" where
  "arm_lifecycle_timeout e core vm = arm_timer core (kSlotLifecycle + vm) (deadline_in e kQuiesceTimeoutMs) CbLifecycle (of_nat vm)"

definition arm_dma_poll :: "'d Env \<Rightarrow> nat \<Rightarrow> nat \<Rightarrow> ('d, 'z) SmpWorld_scheme \<Rightarrow> ('d, 'z) SmpWorld_scheme" where
  "arm_dma_poll e core vm = arm_timer core (kSlotDmaDrain + vm) (deadline_in e kDmaPollMs) CbDmaDrain (of_nat vm)"

text \<open>The restore half of \<open>finish_lifecycle\<close>: whether the VM was restarted.\<close>

definition restore_and_restart :: "'d Env \<Rightarrow> nat \<Rightarrow> nat \<Rightarrow> ('d, 'z) SmpWorld_scheme \<Rightarrow> ('d, 'z) SmpWorld_scheme" where
  "restore_and_restart e core vm w =
     (let (generation, w1) = prepare_reset_quiesced_vm e core vm w in
      if generation = 0 then w1
      else let (attached, w2) = dma_resume_vm e vm generation w1 in
        if \<not> attached then w2
        else let (restarted, w3) = publish_reset_vm e core vm generation w2 in
          if restarted then w3 else snd (dma_begin_quiesce e vm w3))"

definition finish_tracker :: "nat \<Rightarrow> ('d, 'z) SmpWorld_scheme \<Rightarrow> ('d, 'z) SmpWorld_scheme" where
  "finish_tracker vm w = set_mode vm LmNone (set_tracker vm (snd (tracker_finish (w_lifecycle w ! vm))) w)"

definition finish_lifecycle :: "'d Env \<Rightarrow> nat \<Rightarrow> nat \<Rightarrow> ('d, 'z) SmpWorld_scheme \<Rightarrow> ('d, 'z) SmpWorld_scheme" where
  "finish_lifecycle e core vm w =
     (if \<not> tracker_ready (w_lifecycle w ! vm) \<or> w_dma_pending w ! vm then w
      else let w1 = cancel_timer core (kSlotDmaDrain + vm) (cancel_timer core (kSlotLifecycle + vm) w) in
        if w_dma_failed w1 ! vm then end_lifecycle_transition (finish_tracker vm w1)
        else if w_mode w1 ! vm = LmStop then release_lifecycle vm (finish_tracker vm w1)
        else release_lifecycle vm (finish_tracker vm (restore_and_restart e core vm w1)))"

definition acknowledge_quiesce :: "'d Env \<Rightarrow> nat \<Rightarrow> nat \<Rightarrow> u64 \<Rightarrow> ('d, 'z) SmpWorld_scheme \<Rightarrow> ('d, 'z) SmpWorld_scheme" where
  "acknowledge_quiesce e core slot epoch w =
     (let vm = vm_of slot in
      if vm \<ge> length (en_guests e) \<or> lifecycle_token vm w \<noteq> epoch then w
      else let (result, t) = tracker_acknowledge kMaxVcpusPerVm (vcpu_of slot) epoch (w_lifecycle w ! vm);
               w1 = set_tracker vm t w in
        if result = AckReady then finish_lifecycle e core vm w1 else w1)"

definition on_dma_drain :: "'d Env \<Rightarrow> nat \<Rightarrow> nat \<Rightarrow> ('d, 'z) SmpWorld_scheme \<Rightarrow> ('d, 'z) SmpWorld_scheme" where
  "on_dma_drain e core vm w =
     (if vm \<ge> length (en_guests e) \<or> \<not> w_dma_pending w ! vm \<or> lifecycle_token vm w = kLifecycleInactive then w
      else let (r, w1) = dma_poll_quiesce e vm w in
        case r of
          DqPending \<Rightarrow> arm_dma_poll e core vm w1
        | DqComplete \<Rightarrow> finish_lifecycle e core vm (set_dma_pending vm False w1)
        | DqFailed \<Rightarrow> finish_lifecycle e core vm (set_dma_failed vm True (set_dma_pending vm False w1)))"

text \<open>The resend loop over the vCPUs still pending when the timeout struck.\<close>

definition resend_quiesce :: "'d Env \<Rightarrow> nat \<Rightarrow> nat \<Rightarrow> u64 \<Rightarrow> u32 \<Rightarrow> nat \<Rightarrow> ('d, 'z) SmpWorld_scheme \<Rightarrow> ('d, 'z) SmpWorld_scheme" where
  "resend_quiesce e core vm epoch pending v w =
     (if pending AND push_bit v 1 = 0 then w
      else let slot = slot_of vm v in
        if slot_cpu e slot = core then acknowledge_quiesce e core slot epoch (snd (retire_vcpu e core slot w))
        else snd (enqueue (slot_cpu e slot) (req OpQuiesceVcpu slot epoch 0) True w))"

definition on_lifecycle_timeout :: "'d Env \<Rightarrow> nat \<Rightarrow> nat \<Rightarrow> ('d, 'z) SmpWorld_scheme \<Rightarrow> ('d, 'z) SmpWorld_scheme" where
  "on_lifecycle_timeout e core vm w =
     (if vm \<ge> length (en_guests e) then w
      else let epoch = lifecycle_token vm w; (r, t) = tracker_on_timeout epoch (w_lifecycle w ! vm);
               w1 = set_tracker vm t w; pending = qt_pending_mask t in
        case r of
          ToIgnored \<Rightarrow> w1
        | ToRetry \<Rightarrow>
            let w2 = fold (resend_quiesce e core vm epoch pending) [0 ..< guest_vcpus e vm] w1 in
            if lifecycle_token vm w2 = epoch \<and> qt_active (w_lifecycle w2 ! vm) then arm_lifecycle_timeout e core vm w2 else w2
        | ToFailed \<Rightarrow>
            let w2 = fold (\<lambda>v w. if pending AND push_bit v 1 \<noteq> 0 then cancel_start e (slot_of vm v) w else w)
                       [0 ..< guest_vcpus e vm] w1 in
            end_lifecycle_transition (set_tracker vm (tracker_cancel (w_lifecycle w2 ! vm)) w2))"

definition live_mask :: "'d Env \<Rightarrow> nat \<Rightarrow> ('d, 'z) SmpWorld_scheme \<Rightarrow> u32" where
  "live_mask e vm w = foldl (\<lambda>m v. if vcpu_on e (slot_of vm v) w then m OR push_bit v 1 else m) 0 [0 ..< guest_vcpus e vm]"

text \<open>The two quiesce loops of \<open>begin_lifecycle_local\<close>: commands to foreign owners, then the local slots.\<close>

definition quiesce_remote :: "'d Env \<Rightarrow> nat \<Rightarrow> nat \<Rightarrow> u64 \<Rightarrow> u32 \<Rightarrow> nat \<Rightarrow> ('d, 'z) SmpWorld_scheme \<Rightarrow> ('d, 'z) SmpWorld_scheme" where
  "quiesce_remote e core vm epoch live v w =
     (let slot = slot_of vm v; owner = slot_cpu e slot in
      if live AND push_bit v 1 = 0 \<or> owner = core then w
      else snd (enqueue owner (req OpQuiesceVcpu slot epoch 0) True w))"

definition quiesce_local ::
  "'d Env \<Rightarrow> nat \<Rightarrow> nat \<Rightarrow> u64 \<Rightarrow> u32 \<Rightarrow> nat \<Rightarrow> bool \<times> ('d, 'z) SmpWorld_scheme \<Rightarrow> bool \<times> ('d, 'z) SmpWorld_scheme" where
  "quiesce_local e core vm epoch live v sw =
     (case sw of (sched, w) \<Rightarrow>
      let slot = slot_of vm v in
      if live AND push_bit v 1 = 0 \<or> slot_cpu e slot \<noteq> core then (sched, w)
      else let (was_current, w1) = retire_vcpu e core slot w in
        (was_current \<or> sched, acknowledge_quiesce e core slot epoch w1))"

definition owner_offline :: "'d Env \<Rightarrow> nat \<Rightarrow> nat \<Rightarrow> u32 \<Rightarrow> ('d, 'z) SmpWorld_scheme \<Rightarrow> bool" where
  "owner_offline e core vm live w \<longleftrightarrow>
     list_ex (\<lambda>v. live AND push_bit v 1 \<noteq> 0 \<and>
        (let owner = slot_cpu e (slot_of vm v) in owner \<noteq> core \<and> (owner \<ge> length (w_online w) \<or> \<not> w_online w ! owner)))
       [0 ..< guest_vcpus e vm]"

definition begin_lifecycle_local ::
  "'d Env \<Rightarrow> nat \<Rightarrow> nat \<Rightarrow> LifecycleMode \<Rightarrow> ('d, 'z) SmpWorld_scheme \<Rightarrow> BeginLifecycleResult \<times> ('d, 'z) SmpWorld_scheme" where
  "begin_lifecycle_local e core vm mode w =
     (let refused = \<lparr>bl_accepted = False, bl_schedule_required = False\<rparr> in
      if vm \<ge> length (en_guests e) \<or> lifecycle_token vm w \<noteq> kLifecycleReserved then (refused, w)
      else if slot_cpu e (slot_of vm 0) \<noteq> core then (refused, release_lifecycle vm w)
      else let live = live_mask e vm w; (plan, t) = tracker_begin kMaxVcpusPerVm live (w_lifecycle w ! vm) in
        if \<not> qp_accepted plan then (refused, release_lifecycle vm (set_tracker vm (tracker_cancel t) w))
        else let epoch = qp_epoch plan;
                 w1 = set_mode vm mode (set_token vm epoch (set_tracker vm t w));
                 w2 = set_dma_failed vm False (set_dma_pending vm False w1) in
          if owner_offline e core vm live w2
          then (refused, release_lifecycle vm (set_tracker vm (tracker_cancel (w_lifecycle w2 ! vm)) w2))
          else let (r, w3) = dma_begin_quiesce e vm w2;
                   w4 = (case r of DqComplete \<Rightarrow> w3
                         | DqPending \<Rightarrow> arm_dma_poll e core vm (set_dma_pending vm True w3)
                         | DqFailed \<Rightarrow> set_dma_failed vm True w3);
                   w5 = fold (quiesce_remote e core vm epoch live) [0 ..< guest_vcpus e vm] (arm_lifecycle_timeout e core vm w4);
                   (sched, w6) = fold (quiesce_local e core vm epoch live) [0 ..< guest_vcpus e vm] (False, w5);
                   w7 = (if tracker_ready (w_lifecycle w6 ! vm) then finish_lifecycle e core vm w6 else w6) in
               (\<lparr>bl_accepted = True, bl_schedule_required = sched\<rparr>, w7))"

section \<open>Start\<close>

definition start_vm_local :: "'d Env \<Rightarrow> nat \<Rightarrow> nat \<Rightarrow> ('d, 'z) SmpWorld_scheme \<Rightarrow> bool \<times> ('d, 'z) SmpWorld_scheme" where
  "start_vm_local e core vm w =
     (let (generation, w1) = prepare_start_vm e core vm w in
      if generation = 0 then (False, w1)
      else let (attached, w2) = dma_resume_vm e vm generation w1 in
        if \<not> attached then (False, cancel_start e (slot_of vm 0) w2)
        else let (started, w3) = publish_start_vm e core vm generation w2 in
          if started then (True, w3) else (False, snd (dma_begin_quiesce e vm w3)))"

definition start_vm :: "'d Env \<Rightarrow> nat \<Rightarrow> nat \<Rightarrow> ('d, 'z) SmpWorld_scheme \<Rightarrow> bool \<times> ('d, 'z) SmpWorld_scheme" where
  "start_vm e core vm w =
     (if vm \<ge> length (en_guests e) \<or> lifecycle_blocks_start vm w \<or> vm_on e vm w then (False, w)
      else let (ready, w1) = dma_can_start e vm w in
        if \<not> ready then (False, w1)
        else let boot = slot_of vm 0; (reserved, w2) = reserve_start e boot w1 in
          if \<not> reserved then (False, w2)
          else if lifecycle_blocks_start vm w2 then (False, cancel_start e boot w2)
          else if slot_cpu e boot = core then start_vm_local e core vm w2
          else let (sent, w3) = enqueue (slot_cpu e boot) (req OpStartVm vm 0 0) False w2 in
            if sent then (True, w3) else (False, cancel_start e boot w3))"

definition cpu_on :: "'d Env \<Rightarrow> nat \<Rightarrow> nat \<Rightarrow> u64 \<Rightarrow> u64 \<Rightarrow> ('d, 'z) SmpWorld_scheme \<Rightarrow> u64 \<times> ('d, 'z) SmpWorld_scheme" where
  "cpu_on e core slot entry context_id w =
     (if \<not> smp_valid_slot e slot then (PSCI_INVALID_PARAMETERS, w)
      else let vm = vm_of slot in
        if lifecycle_blocks_start vm w then (PSCI_DENIED, w)
        else let (reserved, w1) = reserve_start e slot w in
          if \<not> reserved
          then (case power_state e slot w1 of PwOn \<Rightarrow> PSCI_ALREADY_ON | PwOnPending \<Rightarrow> PSCI_ON_PENDING
                | PwOff \<Rightarrow> PSCI_INTERNAL_FAILURE, w1)
          else if lifecycle_blocks_start vm w1 then (PSCI_DENIED, cancel_start e slot w1)
          else if slot_cpu e slot = core
          then let (ok, w2) = start_vcpu e core slot entry context_id w1 in
               (if ok then PSCI_SUCCESS else PSCI_INVALID_PARAMETERS, w2)
          else let (sent, w2) = enqueue (slot_cpu e slot) (req OpCpuOn slot entry context_id) False w1 in
               if sent then (PSCI_SUCCESS, w2) else (PSCI_INTERNAL_FAILURE, cancel_start e slot w2))"

section \<open>Stop and reset\<close>

text \<open>Retire the caller's own vCPU when it belongs to \<open>vm\<close>: the condition with its side effect.\<close>

definition retire_self :: "'d Env \<Rightarrow> nat \<Rightarrow> nat \<Rightarrow> ('d, 'z) SmpWorld_scheme \<Rightarrow> bool \<times> ('d, 'z) SmpWorld_scheme" where
  "retire_self e core vm w =
     (case cur w core of None \<Rightarrow> (False, w)
      | Some self \<Rightarrow> if self < kMaxVcpus \<and> vm_of self = vm then retire_vcpu e core self w else (False, w))"

definition schedule_if :: "bool \<Rightarrow> 'd Env \<Rightarrow> nat \<Rightarrow> bool \<Rightarrow> ('d, 'z) SmpWorld_scheme \<Rightarrow> ('d, 'z) SmpWorld_scheme" where
  "schedule_if b e core live w = (if b then schedule_after_retire e core live w else w)"

definition request_stop :: "'d Env \<Rightarrow> nat \<Rightarrow> nat \<Rightarrow> bool \<Rightarrow> bool \<Rightarrow> ('d, 'z) SmpWorld_scheme \<Rightarrow> bool \<times> ('d, 'z) SmpWorld_scheme" where
  "request_stop e core vm live self_retired w =
     (if lifecycle_token vm w \<noteq> kLifecycleInactive then (False, schedule_if self_retired e core live w)
      else let w1 = begin_lifecycle_transition (set_token vm kLifecycleReserved w); boot = slot_of vm 0 in
        if slot_cpu e boot = core
        then let (r, w2) = begin_lifecycle_local e core vm LmStop w1 in
             (bl_accepted r, schedule_if (bl_schedule_required r \<or> self_retired) e core live w2)
        else let (sent, w2) = enqueue (slot_cpu e boot) (req OpBeginStop vm 0 0) True w1 in
          if \<not> sent then (False, schedule_if self_retired e core live (release_lifecycle vm w2))
          else if self_retired then (True, schedule_after_retire e core live w2)
          else let (retired, w3) = retire_self e core vm w2 in (True, schedule_if retired e core live w3))"

definition stop_vm :: "'d Env \<Rightarrow> nat \<Rightarrow> nat \<Rightarrow> bool \<Rightarrow> ('d, 'z) SmpWorld_scheme \<Rightarrow> bool \<times> ('d, 'z) SmpWorld_scheme" where
  "stop_vm e core vm live w =
     (if vm \<ge> length (en_guests e) \<or> \<not> vm_on e vm w then (False, w) else request_stop e core vm live False w)"

definition cpu_off :: "'d Env \<Rightarrow> nat \<Rightarrow> nat \<Rightarrow> bool \<Rightarrow> ('d, 'z) SmpWorld_scheme \<Rightarrow> ('d, 'z) SmpWorld_scheme" where
  "cpu_off e core slot live w =
     (if \<not> smp_valid_slot e slot then w
      else let vm = vm_of slot; (retired, w1) = retire_vcpu e core slot w in
        if \<not> vm_on e vm w1 then snd (request_stop e core vm live retired w1)
        else schedule_if retired e core live w1)"

definition reset_vm :: "'d Env \<Rightarrow> nat \<Rightarrow> nat \<Rightarrow> bool \<Rightarrow> ('d, 'z) SmpWorld_scheme \<Rightarrow> bool \<times> ('d, 'z) SmpWorld_scheme" where
  "reset_vm e core vm live w =
     (if vm \<ge> length (en_guests e) \<or> \<not> vm_on e vm w then (False, w)
      else if lifecycle_token vm w \<noteq> kLifecycleInactive then (False, w)
      else let w1 = begin_lifecycle_transition (set_token vm kLifecycleReserved w); boot = slot_of vm 0 in
        if slot_cpu e boot = core
        then let (r, w2) = begin_lifecycle_local e core vm LmReset w1 in
             (bl_accepted r, schedule_if (bl_schedule_required r) e core live w2)
        else let (sent, w2) = enqueue (slot_cpu e boot) (req OpBeginReset vm 0 0) True w1 in
          if \<not> sent then (False, release_lifecycle vm w2)
          else let (retired, w3) = retire_self e core vm w2 in (True, schedule_if retired e core live w3))"

definition recover_dma_fault :: "'d Env \<Rightarrow> nat \<Rightarrow> nat \<Rightarrow> u64 \<Rightarrow> ('d, 'z) SmpWorld_scheme \<Rightarrow> ('d, 'z) SmpWorld_scheme" where
  "recover_dma_fault e core vm generation w =
     (if vm \<ge> length (en_guests e) \<or> vm_generation e vm w \<noteq> generation \<or> \<not> vm_on e vm w then w
      else snd (reset_vm e core vm False w))"

definition handle_guest_fault :: "'d Env \<Rightarrow> nat \<Rightarrow> nat \<Rightarrow> ('d, 'z) SmpWorld_scheme \<Rightarrow> ('d, 'z) SmpWorld_scheme" where
  "handle_guest_fault e core self w =
     (let (accepted, w1) = reset_vm e core (vm_of self) True w in
      if accepted then w1 else snd (stop_vm e core (vm_of self) True w1))"

end
