(* ===== verification/NovaCommand.thy ===== *)
theory NovaCommand
  imports NovaTimebase NovaMachine
begin

text \<open>
  \<open>src/nova/command.hpp\<close> over \<open>nova/abi/command_ring.h\<close>, and the service
  \<open>components/service/command\<close>: the host's command ring, the table of operations and the
  drain that executes them. First the functions as wholes, then push and drain split at
  each atomic access. The handlers of a build are values of the table; they act on a
  state of their own. Index words are 64 bits and wrap.
\<close>

section \<open>Page and table\<close>

definition NOVA_CMD_MAGIC :: u64 where "NOVA_CMD_MAGIC = 0x000000444D43564E"
definition NOVA_CMD_VERSION :: u32 where "NOVA_CMD_VERSION = 3"
definition NOVA_CMD_OPS_CAP :: nat where "NOVA_CMD_OPS_CAP = 16"
definition NOVA_CMD_OPS_ROW :: u32 where "NOVA_CMD_OPS_ROW = 32"
definition NOVA_CMD_REC_SIZE :: u32 where "NOVA_CMD_REC_SIZE = 24"
definition NOVA_CMD_SLOTS :: nat where "NOVA_CMD_SLOTS = 128"
definition NOVA_CMD_ARG_PLAIN :: u8 where "NOVA_CMD_ARG_PLAIN = 0"
definition NOVA_CMD_ARG_VM :: u8 where "NOVA_CMD_ARG_VM = 1"
definition NOVA_CMD_ARG_MICROS :: u8 where "NOVA_CMD_ARG_MICROS = 2"
definition NOVA_CMD_OP_MARK :: u16 where "NOVA_CMD_OP_MARK = 1"
definition NOVA_CMD_OP_SPI :: u16 where "NOVA_CMD_OP_SPI = 2"
definition NOVA_CMD_OP_SLICE :: u16 where "NOVA_CMD_OP_SLICE = 3"
definition NOVA_CMD_OP_STOP :: u16 where "NOVA_CMD_OP_STOP = 4"
definition NOVA_CMD_OP_RESET :: u16 where "NOVA_CMD_OP_RESET = 5"
definition NOVA_CMD_OP_START :: u16 where "NOVA_CMD_OP_START = 6"
definition NOVA_CMD_ANSWER_SHIFT :: nat where "NOVA_CMD_ANSWER_SHIFT = 16"
definition NOVA_CMD_ANSWER_MASK :: u64 where "NOVA_CMD_ANSWER_MASK = 0xFFFF"
definition NOVA_CMD_RESULT_OK :: u64 where "NOVA_CMD_RESULT_OK = 0"
definition NOVA_CMD_RESULT_UNKNOWN :: u64 where "NOVA_CMD_RESULT_UNKNOWN = 1"
definition NOVA_CMD_RESULT_RANGE :: u64 where "NOVA_CMD_RESULT_RANGE = 2"
definition NOVA_CMD_RESULT_STATE :: u64 where "NOVA_CMD_RESULT_STATE = 3"

record CmdRecord =
  cr_op :: u64
  cr_a :: u64
  cr_b :: u64

record CmdArg =
  ca_kind :: u8
  ca_lo :: u32
  ca_hi :: u32
  ca_def :: u32

record 's Op =
  op_op :: u16
  op_words :: u8
  op_a :: CmdArg
  op_b :: CmdArg
  op_run :: "(CmdRecord \<Rightarrow> 's \<Rightarrow> u64 \<times> 's) option"

record Row =
  rw_op :: u16
  rw_words :: u8
  rw_a_kind :: u8
  rw_b_kind :: u8
  rw_a_lo :: u32
  rw_a_hi :: u32
  rw_a_def :: u32
  rw_b_lo :: u32
  rw_b_hi :: u32
  rw_b_def :: u32

type_synonym 's OpTable = "'s Op list"

definition find_op :: "'s OpTable \<Rightarrow> u16 \<Rightarrow> 's Op option" where
  "find_op table op = find (\<lambda>e. op_op e = op) table"

definition declare_op :: "'s Op \<Rightarrow> 's OpTable \<Rightarrow> bool \<times> 's OpTable" where
  "declare_op entry table =
     (if length table = NOVA_CMD_OPS_CAP \<or> op_op entry = 0 \<or> op_run entry = None \<or> find_op table (op_op entry) \<noteq> None
      then (False, table) else (True, table @ [entry]))"

definition dispatch :: "'s OpTable \<Rightarrow> CmdRecord \<Rightarrow> 's \<Rightarrow> u64 \<times> 's" where
  "dispatch table command s =
     (if cr_op command > NOVA_CMD_ANSWER_MASK then (NOVA_CMD_RESULT_UNKNOWN, s)
      else case find_op table (ucast (cr_op command)) of
        None \<Rightarrow> (NOVA_CMD_RESULT_UNKNOWN, s)
      | Some e \<Rightarrow> the (op_run e) command s)"

text \<open>The collection of the operations a build declares, counting the refused ones.\<close>

definition collect_ops :: "'s Op list \<Rightarrow> 's OpTable \<times> nat" where
  "collect_ops entries = fold (\<lambda>e (table, refused). let (ok, table) = declare_op e table in
     (table, if ok then refused else Suc refused)) entries ([], 0)"

record CmdPage =
  cp_magic :: u64
  cp_version :: u32
  cp_record_size :: u32
  cp_slots :: u32
  cp_period_us :: u32
  cp_rows :: u32
  cp_row_size :: u32
  cp_row :: "Row list"
  cp_widx :: u64
  cp_ridx :: u64
  cp_records :: "CmdRecord list"

definition row_of :: "'s Op \<Rightarrow> Row" where
  "row_of e = \<lparr>rw_op = op_op e, rw_words = op_words e, rw_a_kind = ca_kind (op_a e), rw_b_kind = ca_kind (op_b e),
     rw_a_lo = ca_lo (op_a e), rw_a_hi = ca_hi (op_a e), rw_a_def = ca_def (op_a e),
     rw_b_lo = ca_lo (op_b e), rw_b_hi = ca_hi (op_b e), rw_b_def = ca_def (op_b e)\<rparr>"

definition format_page :: "u32 \<Rightarrow> 's OpTable \<Rightarrow> CmdPage \<Rightarrow> CmdPage" where
  "format_page period_us ops p = p\<lparr>cp_version := NOVA_CMD_VERSION, cp_record_size := NOVA_CMD_REC_SIZE,
     cp_slots := of_nat NOVA_CMD_SLOTS, cp_period_us := period_us, cp_row_size := NOVA_CMD_OPS_ROW,
     cp_row := map row_of ops @ drop (length ops) (cp_row p), cp_rows := of_nat (length ops), cp_widx := 0, cp_ridx := 0\<rparr>"

definition publish_page :: "CmdPage \<Rightarrow> CmdPage" where
  "publish_page p = p\<lparr>cp_magic := NOVA_CMD_MAGIC\<rparr>"

text \<open>The page and whether the ring of EL2 is bound to it.\<close>

definition place_page :: "u32 \<Rightarrow> 's OpTable \<Rightarrow> CmdPage \<Rightarrow> bool \<times> CmdPage" where
  "place_page period_us ops p = (True, publish_page (format_page period_us ops p))"

section \<open>The ring\<close>

definition cmd_slot :: "u64 \<Rightarrow> nat" where
  "cmd_slot index = unat index mod NOVA_CMD_SLOTS"

definition cmd_push :: "bool \<Rightarrow> CmdRecord \<Rightarrow> CmdPage \<Rightarrow> bool \<times> CmdPage" where
  "cmd_push placed command p =
     (if \<not> placed then (False, p)
      else if cp_widx p - cp_ridx p \<ge> of_nat NOVA_CMD_SLOTS then (False, p)
      else (True, p\<lparr>cp_records := (cp_records p)[cmd_slot (cp_widx p) := command], cp_widx := cp_widx p + 1\<rparr>))"

definition spoken_to :: "bool \<Rightarrow> CmdPage \<Rightarrow> bool" where
  "spoken_to placed p \<longleftrightarrow> placed \<and> cp_widx p \<noteq> 0"

text \<open>The loop of \<open>drain\<close> from \<open>index\<close>; the number of rounds is the distance to \<open>write\<close>.\<close>

fun drain_records :: "(CmdRecord \<Rightarrow> 's \<Rightarrow> 's) \<Rightarrow> CmdRecord list \<Rightarrow> u64 \<Rightarrow> nat \<Rightarrow> 's \<Rightarrow> 's" where
  "drain_records consume records index 0 s = s"
| "drain_records consume records index (Suc left) s =
     drain_records consume records (index + 1) left (consume (records ! cmd_slot index) s)"

definition cmd_drain :: "bool \<Rightarrow> (CmdRecord \<Rightarrow> 's \<Rightarrow> 's) \<Rightarrow> CmdPage \<Rightarrow> 's \<Rightarrow> (nat \<times> CmdPage) \<times> 's" where
  "cmd_drain placed consume p s =
     (if \<not> placed then ((0, p), s)
      else let read = cp_ridx p; write = cp_widx p; ahead = sint (write - read) in
        if ahead < 0 \<or> ahead > int NOVA_CMD_SLOTS then ((0, p\<lparr>cp_ridx := write\<rparr>), s)
        else ((nat ahead, if write \<noteq> read then p\<lparr>cp_ridx := write\<rparr> else p),
              drain_records consume (cp_records p) read (nat ahead) s))"

section \<open>The service\<close>

text \<open>The answering trace record: its three words.\<close>

definition answer_word :: "CmdRecord \<Rightarrow> u64 \<Rightarrow> u32" where
  "answer_word command result =
     ucast ((if cr_op command \<le> NOVA_CMD_ANSWER_MASK then cr_op command else 0) OR push_bit NOVA_CMD_ANSWER_SHIFT result)"

definition execute :: "'s OpTable \<Rightarrow> CmdRecord \<Rightarrow> 's \<times> (u32 \<times> u64 \<times> u64) list \<Rightarrow> 's \<times> (u32 \<times> u64 \<times> u64) list" where
  "execute table command = (\<lambda>(s, answers). let (result, s) = dispatch table command s in
     (s, answers @ [(answer_word command result, cr_a command, cr_b command)]))"

definition kPeriodUs :: u64 where "kPeriodUs = 10000"

definition cmd_mark :: "CmdRecord \<Rightarrow> 's \<Rightarrow> u64 \<times> 's" where
  "cmd_mark command s = (NOVA_CMD_RESULT_OK, s)"

definition mark_op :: "'s Op" where
  "mark_op = \<lparr>op_op = NOVA_CMD_OP_MARK, op_words = 1, op_a = \<lparr>ca_kind = NOVA_CMD_ARG_PLAIN, ca_lo = 1, ca_hi = 0, ca_def = 0\<rparr>,
     op_b = \<lparr>ca_kind = NOVA_CMD_ARG_PLAIN, ca_lo = 1, ca_hi = 0, ca_def = 0\<rparr>, op_run = Some cmd_mark\<rparr>"

record 's CmdWorld =
  cw_placed :: bool
  cw_page :: CmdPage
  cw_ops :: "'s OpTable"
  cw_period_ticks :: u64
  cw_deadline :: "u64 option"
  cw_state :: 's
  cw_answers :: "(u32 \<times> u64 \<times> u64) list"

text \<open>The slot of the soft timer, armed at \<open>now\<close> plus the period.\<close>

definition cmd_arm :: "u64 \<Rightarrow> 's CmdWorld \<Rightarrow> 's CmdWorld" where
  "cmd_arm now w = w\<lparr>cw_deadline := Some (now + cw_period_ticks w)\<rparr>"

definition cmd_on_tick :: "u64 \<Rightarrow> 's CmdWorld \<Rightarrow> 's CmdWorld" where
  "cmd_on_tick now w =
     (let ((n, p), (s, answers)) = cmd_drain (cw_placed w) (execute (cw_ops w)) (cw_page w) (cw_state w, cw_answers w) in
      cmd_arm now (w\<lparr>cw_page := p, cw_state := s, cw_answers := answers\<rparr>))"

definition cmd_start :: "u64 \<Rightarrow> u64 \<Rightarrow> 's Op list \<Rightarrow> 's CmdWorld \<Rightarrow> 's CmdWorld" where
  "cmd_start hz now declared w =
     (let plan = us_to_ticks hz kPeriodUs in
      if \<not> tp_accepted plan then w
      else let (ops, refused) = collect_ops declared; (placed, p) = place_page (ucast kPeriodUs) ops (cw_page w) in
        cmd_arm now (w\<lparr>cw_period_ticks := tp_ticks plan, cw_ops := ops, cw_placed := placed, cw_page := p\<rparr>))"

section \<open>A drain is bounded whatever the host wrote\<close>

lemma drain_records_fold:
  "drain_records consume records index n s = fold consume (map (\<lambda>i. records ! cmd_slot (index + of_nat i)) [0 ..< n]) s"
  by (induction n arbitrary: index s) (simp_all add: upt_conv_Cons map_Suc_upt [symmetric] comp_def algebra_simps del: upt_Suc)

lemma cmd_slot_less: "cmd_slot i < 128"
  by (simp add: cmd_slot_def NOVA_CMD_SLOTS_def)

lemma cmd_drain_bounded:
  assumes "cmd_drain placed consume p s = ((n, p'), s')"
  shows "n \<le> 128 \<and> s' = fold consume (map (\<lambda>i. cp_records p ! cmd_slot (cp_ridx p + of_nat i)) [0 ..< n]) s
    \<and> (placed \<longrightarrow> cp_ridx p' = cp_widx p)"
  using assms by (auto simp: cmd_drain_def Let_def drain_records_fold NOVA_CMD_SLOTS_def split: if_splits)

section \<open>The answer names the command\<close>

lemma below_16_bits:
  assumes "unat (x :: u64) < 2 ^ 16" "bit x k"
  shows "k < 16"
proof -
  have "take_bit 16 x = x" using assms(1) by (simp add: word_unat_eq_iff unsigned_take_bit_eq take_bit_nat_eq_self)
  then show ?thesis using assms(2) by (metis bit_take_bit_iff)
qed

lemma answer_word_reads:
  assumes "result \<le> 4"
  shows "ucast (answer_word command result) AND NOVA_CMD_ANSWER_MASK = (if cr_op command \<le> NOVA_CMD_ANSWER_MASK then cr_op command else 0)"
    and "drop_bit NOVA_CMD_ANSWER_SHIFT (answer_word command result) = ucast result"
proof -
  define n where "n = (if cr_op command \<le> NOVA_CMD_ANSWER_MASK then cr_op command else 0)"
  have r: "unat result < 2 ^ 16" using assms by (simp add: word_le_nat_alt)
  have n: "unat n < 2 ^ 16" by (simp add: n_def NOVA_CMD_ANSWER_MASK_def word_le_nat_alt)
  have m: "NOVA_CMD_ANSWER_MASK = mask 16" by (simp add: NOVA_CMD_ANSWER_MASK_def mask_eq_exp_minus_1)
  have a: "answer_word command result = ucast (n OR push_bit 16 result)"
    by (simp add: answer_word_def n_def NOVA_CMD_ANSWER_SHIFT_def)
  note b = below_16_bits [OF n] below_16_bits [OF r]
  have c: "k < 32" if "bit n k" for k using b(1) [OF that] by simp
  have "ucast (answer_word command result) AND mask 16 = n"
    unfolding a by (rule bit_eqI) (use b(1) c in \<open>auto simp: bit_simps\<close>)
  then show "ucast (answer_word command result) AND NOVA_CMD_ANSWER_MASK = (if cr_op command \<le> NOVA_CMD_ANSWER_MASK then cr_op command else 0)"
    by (simp add: m n_def)
  show "drop_bit NOVA_CMD_ANSWER_SHIFT (answer_word command result) = ucast result"
    unfolding a NOVA_CMD_ANSWER_SHIFT_def by (rule bit_eqI) (use b c in \<open>auto simp: bit_simps\<close>)
qed

section \<open>Host and drain interleaved\<close>

text \<open>
  The host in \<open>push\<close>: after the load of its own index, after the load of the other one,
  after each field store. EL2 in \<open>drain\<close>: after the load of its own index, and in the
  loop with the bound it read on entry; each round executes one record.
\<close>

datatype HostPc = HoIdle | HoW CmdRecord u64 | HoR CmdRecord u64 u64 | HoOp CmdRecord u64 | HoA CmdRecord u64 | HoB CmdRecord u64
datatype DrainPc = DrIdle | DrR u64 | DrLoop u64 u64 u64

record CmdState =
  cs_page :: CmdPage
  cs_host :: HostPc
  cs_drain :: DrainPc
  cs_sent :: "CmdRecord list"
  cs_done :: "CmdRecord list"

text \<open>\<open>cs_sent\<close> and \<open>cs_done\<close> are history: the commands \<open>push\<close> took, and those executed.\<close>

definition store_field :: "(CmdRecord \<Rightarrow> CmdRecord) \<Rightarrow> u64 \<Rightarrow> CmdPage \<Rightarrow> CmdPage" where
  "store_field f w p = p\<lparr>cp_records := (cp_records p)[cmd_slot w := f (cp_records p ! cmd_slot w)]\<rparr>"

inductive cmd_step :: "CmdState \<Rightarrow> CmdState \<Rightarrow> bool" where
  host_load_w: "cs_host s = HoIdle \<Longrightarrow> cmd_step s (s\<lparr>cs_host := HoW c (cp_widx (cs_page s))\<rparr>)"
| host_load_r: "cs_host s = HoW c w \<Longrightarrow> cmd_step s (s\<lparr>cs_host := HoR c w (cp_ridx (cs_page s))\<rparr>)"
| host_full: "cs_host s = HoR c w r \<Longrightarrow> w - r \<ge> of_nat NOVA_CMD_SLOTS \<Longrightarrow> cmd_step s (s\<lparr>cs_host := HoIdle\<rparr>)"
| host_op: "cs_host s = HoR c w r \<Longrightarrow> w - r < of_nat NOVA_CMD_SLOTS \<Longrightarrow>
    cmd_step s (s\<lparr>cs_page := store_field (\<lambda>x. x\<lparr>cr_op := cr_op c\<rparr>) w (cs_page s), cs_host := HoOp c w\<rparr>)"
| host_a: "cs_host s = HoOp c w \<Longrightarrow>
    cmd_step s (s\<lparr>cs_page := store_field (\<lambda>x. x\<lparr>cr_a := cr_a c\<rparr>) w (cs_page s), cs_host := HoA c w\<rparr>)"
| host_b: "cs_host s = HoA c w \<Longrightarrow>
    cmd_step s (s\<lparr>cs_page := store_field (\<lambda>x. x\<lparr>cr_b := cr_b c\<rparr>) w (cs_page s), cs_host := HoB c w\<rparr>)"
| host_publish: "cs_host s = HoB c w \<Longrightarrow>
    cmd_step s (s\<lparr>cs_page := (cs_page s)\<lparr>cp_widx := w + 1\<rparr>, cs_host := HoIdle, cs_sent := cs_sent s @ [c]\<rparr>)"
| drain_load_r: "cs_drain s = DrIdle \<Longrightarrow> cmd_step s (s\<lparr>cs_drain := DrR (cp_ridx (cs_page s))\<rparr>)"
| drain_resync: "cs_drain s = DrR r \<Longrightarrow> w = cp_widx (cs_page s) \<Longrightarrow> sint (w - r) < 0 \<or> sint (w - r) > int NOVA_CMD_SLOTS \<Longrightarrow>
    cmd_step s (s\<lparr>cs_page := (cs_page s)\<lparr>cp_ridx := w\<rparr>, cs_drain := DrIdle\<rparr>)"
| drain_enter: "cs_drain s = DrR r \<Longrightarrow> w = cp_widx (cs_page s) \<Longrightarrow> 0 \<le> sint (w - r) \<Longrightarrow> sint (w - r) \<le> int NOVA_CMD_SLOTS \<Longrightarrow>
    cmd_step s (s\<lparr>cs_drain := DrLoop r w r\<rparr>)"
| drain_one: "cs_drain s = DrLoop r w i \<Longrightarrow> i \<noteq> w \<Longrightarrow>
    cmd_step s (s\<lparr>cs_done := cs_done s @ [cp_records (cs_page s) ! cmd_slot i], cs_drain := DrLoop r w (i + 1)\<rparr>)"
| drain_leave: "cs_drain s = DrLoop r w i \<Longrightarrow> i = w \<Longrightarrow>
    cmd_step s (s\<lparr>cs_page := (if w \<noteq> r then (cs_page s)\<lparr>cp_ridx := w\<rparr> else cs_page s), cs_drain := DrIdle\<rparr>)"

definition cmd_init :: "CmdState \<Rightarrow> bool" where
  "cmd_init s \<longleftrightarrow> cp_widx (cs_page s) = 0 \<and> cp_ridx (cs_page s) = 0 \<and> length (cp_records (cs_page s)) = NOVA_CMD_SLOTS
     \<and> cs_host s = HoIdle \<and> cs_drain s = DrIdle \<and> cs_sent s = [] \<and> cs_done s = []"

text \<open>How far the freed slots reach: the executed commands, less those of a drain in progress.\<close>

fun freed_ok :: "CmdState \<Rightarrow> nat \<Rightarrow> DrainPc \<Rightarrow> bool" where
  "freed_ok s R DrIdle \<longleftrightarrow> R = length (cs_done s)"
| "freed_ok s R (DrR r) \<longleftrightarrow> R = length (cs_done s) \<and> r = of_nat R"
| "freed_ok s R (DrLoop r w i) \<longleftrightarrow> r = of_nat R \<and> i = of_nat (length (cs_done s))
     \<and> (\<exists>W. w = of_nat W \<and> length (cs_done s) \<le> W \<and> W \<le> length (cs_sent s))"

fun host_ok :: "CmdState \<Rightarrow> nat \<Rightarrow> HostPc \<Rightarrow> bool" where
  "host_ok s R HoIdle \<longleftrightarrow> True"
| "host_ok s R (HoW c w) \<longleftrightarrow> w = of_nat (length (cs_sent s))"
| "host_ok s R (HoR c w r) \<longleftrightarrow> w = of_nat (length (cs_sent s)) \<and> (\<exists>n \<le> R. r = of_nat n \<and> length (cs_sent s) \<le> n + 128)"
| "host_ok s R (HoOp c w) \<longleftrightarrow> w = of_nat (length (cs_sent s)) \<and> length (cs_sent s) < R + 128
     \<and> cr_op (cp_records (cs_page s) ! cmd_slot w) = cr_op c"
| "host_ok s R (HoA c w) \<longleftrightarrow> w = of_nat (length (cs_sent s)) \<and> length (cs_sent s) < R + 128
     \<and> cr_op (cp_records (cs_page s) ! cmd_slot w) = cr_op c \<and> cr_a (cp_records (cs_page s) ! cmd_slot w) = cr_a c"
| "host_ok s R (HoB c w) \<longleftrightarrow> w = of_nat (length (cs_sent s)) \<and> length (cs_sent s) < R + 128
     \<and> cp_records (cs_page s) ! cmd_slot w = c"

definition cmd_ring_ok :: "CmdState \<Rightarrow> nat \<Rightarrow> bool" where
  "cmd_ring_ok s R \<longleftrightarrow> cp_widx (cs_page s) = of_nat (length (cs_sent s)) \<and> cp_ridx (cs_page s) = of_nat R
     \<and> length (cp_records (cs_page s)) = 128 \<and> R \<le> length (cs_done s) \<and> length (cs_done s) \<le> length (cs_sent s)
     \<and> length (cs_sent s) \<le> R + 128 \<and> cs_done s = take (length (cs_done s)) (cs_sent s)
     \<and> (\<forall>j. R \<le> j \<longrightarrow> j < length (cs_sent s) \<longrightarrow> cp_records (cs_page s) ! (j mod 128) = cs_sent s ! j)"

definition cmd_inv :: "CmdState \<Rightarrow> bool" where
  "cmd_inv s \<longleftrightarrow> (\<exists>R. cmd_ring_ok s R \<and> freed_ok s R (cs_drain s) \<and> host_ok s R (cs_host s))"

lemma cmd_slot_of_nat: "cmd_slot (of_nat n) = n mod 128"
proof -
  have "(128 :: nat) dvd 2 ^ 64" by simp
  then show ?thesis by (simp add: cmd_slot_def NOVA_CMD_SLOTS_def unat_of_nat take_bit_eq_mod mod_mod_cancel)
qed

text \<open>The distance of two counters at most a ring apart survives the wrap.\<close>

lemma index_distance:
  assumes "n \<le> m" "m \<le> n + 128"
  shows "unat (of_nat m - of_nat n :: u64) = m - n" "sint (of_nat m - of_nat n :: u64) = int (m - n)"
proof -
  have d: "of_nat m - of_nat n = (of_nat (m - n) :: u64)" using assms(1) by (simp add: of_nat_diff)
  show u: "unat (of_nat m - of_nat n :: u64) = m - n"
    unfolding d using assms(2) by (simp add: unat_of_nat take_bit_nat_eq_self)
  show "sint (of_nat m - of_nat n :: u64) = int (m - n)"
    using u assms(2) by (simp add: sint_uint uint_nat signed_take_bit_int_eq_self)
qed

lemma host_store:
  assumes "cmd_ring_ok s R" "freed_ok s R (cs_drain s)" "length (cs_sent s) < R + 128" "w = of_nat (length (cs_sent s))"
    and "s' = s\<lparr>cs_page := store_field f w (cs_page s), cs_host := h\<rparr>"
  shows "cmd_ring_ok s' R" "freed_ok s' R (cs_drain s')"
    "cp_records (cs_page s') ! cmd_slot w = f (cp_records (cs_page s) ! cmd_slot w)"
proof -
  have w: "cmd_slot w = length (cs_sent s) mod 128" by (simp add: assms(4) cmd_slot_of_nat)
  have o: "length (cs_sent s) mod 128 \<noteq> j mod 128" if "R \<le> j" "j < length (cs_sent s)" for j
    using mod_distinct_window [of j "length (cs_sent s)" 128] that assms(3) by simp
  show "cmd_ring_ok s' R" using assms(1) o unfolding assms(5) cmd_ring_ok_def by (simp add: store_field_def w)
  show "freed_ok s' R (cs_drain s')" using assms(2) unfolding assms(5) by (cases "cs_drain s") simp_all
  show "cp_records (cs_page s') ! cmd_slot w = f (cp_records (cs_page s) ! cmd_slot w)"
    using assms(1) unfolding assms(5) by (simp add: store_field_def cmd_ring_ok_def cmd_slot_less)
qed

lemma room_ahead:
  assumes "n \<le> R" "R \<le> m" "m \<le> n + 128" "(of_nat m - of_nat n :: u64) < of_nat NOVA_CMD_SLOTS"
  shows "m < R + 128"
proof -
  have "unat (of_nat m - of_nat n :: u64) < 128" using assms(4) by (simp add: word_less_nat_alt NOVA_CMD_SLOTS_def)
  then show ?thesis using index_distance(1) [of n m] assms(1-3) by simp
qed

lemma same_index:
  assumes "n \<le> m" "m \<le> n + 128"
  shows "(of_nat n :: u64) = of_nat m \<longleftrightarrow> n = m"
  using index_distance(1) [OF assms] by (metis cancel_comm_monoid_add_class.diff_cancel diff_is_0_eq le_antisym assms(1) unat_0)

lemma cmd_inv_step:
  assumes "cmd_inv s" "cmd_step s s'"
  shows "cmd_inv s'"
proof -
  obtain R where ring: "cmd_ring_ok s R" and fr: "freed_ok s R (cs_drain s)" and ho: "host_ok s R (cs_host s)"
    using assms(1) by (auto simp: cmd_inv_def)
  have R: "cmd_inv s'" if "cmd_ring_ok s' R" "freed_ok s' R (cs_drain s')" "host_ok s' R (cs_host s')" for R
    using that by (auto simp: cmd_inv_def)
  have hk: "host_ok s' R h" if "cs_page s' = cs_page s" "cs_sent s' = cs_sent s" "host_ok s R h" for h
    using that by (cases h) simp_all
  have rk: "cmd_ring_ok s' R" if "cs_page s' = cs_page s" "cs_sent s' = cs_sent s" "cs_done s' = cs_done s"
    using that ring by (simp add: cmd_ring_ok_def)
  have fk: "freed_ok s' R d" if "cs_sent s' = cs_sent s" "cs_done s' = cs_done s" "freed_ok s R d" for d
    using that by (cases d) simp_all
  show ?thesis using assms(2)
  proof cases
    case (host_load_w c)
    have "host_ok s' R (cs_host s')" using ring by (simp add: host_load_w cmd_ring_ok_def)
    then show ?thesis by (intro R [of R] rk fk) (use fr in \<open>simp_all add: host_load_w\<close>)
  next
    case (host_load_r c w)
    have "host_ok s' R (HoR c w (cp_ridx (cs_page s)))"
      using ring ho by (auto simp: host_load_r cmd_ring_ok_def)
    then show ?thesis by (intro R [of R] rk fk) (use fr in \<open>simp_all add: host_load_r\<close>)
  next
    case (host_full c w r)
    show ?thesis by (intro R [of R] rk fk) (use fr in \<open>simp_all add: host_full\<close>)
  next
    case (host_op c w r)
    obtain n where n: "n \<le> R" "r = of_nat n" "length (cs_sent s) \<le> n + 128" "w = of_nat (length (cs_sent s))"
      using ho host_op by auto
    have "length (cs_sent s) < R + 128"
      by (rule room_ahead [of n]) (use n host_op ring in \<open>auto simp: cmd_ring_ok_def\<close>)
    note st = host_store [OF ring fr this n(4) host_op(1)]
    show ?thesis by (rule R [of R]) (use st \<open>length (cs_sent s) < R + 128\<close> n(4) in \<open>simp_all add: host_op\<close>)
  next
    case (host_a c w)
    have l: "length (cs_sent s) < R + 128" "w = of_nat (length (cs_sent s))" using ho host_a by simp_all
    note st = host_store [OF ring fr l host_a(1)]
    show ?thesis by (rule R [of R]) (use st l ho in \<open>simp_all add: host_a\<close>)
  next
    case (host_b c w)
    have l: "length (cs_sent s) < R + 128" "w = of_nat (length (cs_sent s))" using ho host_b by simp_all
    note st = host_store [OF ring fr l host_b(1)]
    show ?thesis by (rule R [of R]) (use st l ho in \<open>simp_all add: host_b\<close>)
  next
    case (host_publish c w)
    have l: "length (cs_sent s) < R + 128" "w = of_nat (length (cs_sent s))" "cp_records (cs_page s) ! cmd_slot w = c"
      using ho unfolding host_publish(2) host_ok.simps by blast+
    have "cmd_ring_ok s' R"
      using ring l by (auto simp: host_publish cmd_ring_ok_def nth_append less_Suc_eq cmd_slot_of_nat)
    moreover have "freed_ok s' R (cs_drain s')" using fr by (cases "cs_drain s") (auto simp: host_publish intro: le_SucI)
    ultimately show ?thesis by (intro R [of R]) (simp_all add: host_publish)
  next
    case drain_load_r
    have "freed_ok s' R (cs_drain s')" using fr ring by (simp add: drain_load_r cmd_ring_ok_def)
    then show ?thesis by (intro R [of R] rk hk) (use ho in \<open>simp_all add: drain_load_r\<close>)
  next
    case (drain_resync r w)
    have "sint (w - r) = int (length (cs_sent s) - R)"
      using ring fr index_distance(2) [of R "length (cs_sent s)"] by (simp add: drain_resync cmd_ring_ok_def)
    then have False using drain_resync(4) ring by (auto simp: cmd_ring_ok_def NOVA_CMD_SLOTS_def)
    then show ?thesis ..
  next
    case (drain_enter r w)
    have "freed_ok s' R (cs_drain s')" using fr ring by (auto simp: drain_enter cmd_ring_ok_def)
    moreover have "cmd_ring_ok s' R" by (rule rk) (simp_all add: drain_enter)
    moreover have "host_ok s' R (cs_host s')" using hk ho by (simp add: drain_enter)
    ultimately show ?thesis by (intro R [of R])
  next
    case (drain_one r w i)
    let ?d = "length (cs_done s)"
    obtain W where W: "w = of_nat W" "?d \<le> W" "W \<le> length (cs_sent s)" "i = of_nat ?d" "r = of_nat R"
      using fr drain_one by auto
    have lt: "?d < W" using W drain_one(3) by (cases "?d = W") auto
    have "cp_records (cs_page s) ! cmd_slot i = cs_sent s ! ?d"
      using ring lt W(3) by (simp add: W(4) cmd_slot_of_nat cmd_ring_ok_def)
    then have "cmd_ring_ok s' R"
      using ring lt W(3) by (simp add: drain_one cmd_ring_ok_def take_Suc_conv_app_nth)
    moreover have "freed_ok s' R (cs_drain s')" using W lt by (auto simp: drain_one)
    ultimately show ?thesis by (intro R [of R] hk) (use ho in \<open>simp_all add: drain_one\<close>)
  next
    case (drain_leave r w i)
    let ?d = "length (cs_done s)"
    obtain W where W: "w = of_nat W" "?d \<le> W" "W \<le> length (cs_sent s)" "i = of_nat ?d" "r = of_nat R"
      using fr drain_leave by auto
    have "length (cs_sent s) \<le> R + 128" "R \<le> ?d" using ring by (simp_all add: cmd_ring_ok_def)
    then have "W \<le> ?d + 128" using W(3) by linarith
    then have "W = ?d" using same_index [OF W(2)] W(1,4) drain_leave(3) by metis
    then have p: "cs_page s' = (cs_page s)\<lparr>cp_ridx := of_nat ?d\<rparr>"
      using ring W by (simp add: drain_leave cmd_ring_ok_def)
    have "cmd_ring_ok s' ?d" using ring unfolding cmd_ring_ok_def p by (simp add: drain_leave)
    moreover have "host_ok s' ?d (cs_host s')"
    proof -
      have "R \<le> ?d" using ring by (simp add: cmd_ring_ok_def)
      then show ?thesis using ho p by (cases "cs_host s") (auto simp: drain_leave intro: order_trans)
    qed
    ultimately show ?thesis by (intro R [of ?d]) (simp_all add: drain_leave)
  qed
qed

interpretation cmdm: invariant_machine cmd_init cmd_step cmd_inv
proof
  show "cmd_inv s" if "cmd_init s" for s
    using that unfolding cmd_inv_def
    by (intro exI [of _ 0]) (simp add: cmd_init_def cmd_ring_ok_def NOVA_CMD_SLOTS_def)
qed (rule cmd_inv_step)

text \<open>
  C37. A command is executed once, in order, as the host wrote it. Under every
  interleaving of the field stores and index accesses of \<open>push\<close> with a drain, the
  commands executed are a prefix of those \<open>push\<close> accepted, no accepted command is
  overwritten or lost to a resynchronisation, and between drains at most one ring of
  them waits.
\<close>

theorem command_exactly_once:
  assumes "cmd_init s0" "cmd_step\<^sup>*\<^sup>* s0 s"
  shows "cs_done s = take (length (cs_done s)) (cs_sent s) \<and> length (cs_done s) \<le> length (cs_sent s)
    \<and> (cs_drain s = DrIdle \<longrightarrow> length (cs_sent s) - length (cs_done s) \<le> NOVA_CMD_SLOTS
        \<and> cp_widx (cs_page s) - cp_ridx (cs_page s) = of_nat (length (cs_sent s) - length (cs_done s)))"
proof -
  obtain R where ring: "cmd_ring_ok s R" and fr: "freed_ok s R (cs_drain s)"
    using cmdm.reachable_inv [OF assms] by (auto simp: cmd_inv_def)
  have "R = length (cs_done s)" if "cs_drain s = DrIdle" using fr that by simp
  then show ?thesis using ring by (auto simp: cmd_ring_ok_def NOVA_CMD_SLOTS_def of_nat_diff)
qed

definition wit_page :: CmdPage where
  "wit_page = \<lparr>cp_magic = NOVA_CMD_MAGIC, cp_version = NOVA_CMD_VERSION, cp_record_size = NOVA_CMD_REC_SIZE,
     cp_slots = of_nat NOVA_CMD_SLOTS, cp_period_us = 10000, cp_rows = 0, cp_row_size = NOVA_CMD_OPS_ROW, cp_row = [],
     cp_widx = 0, cp_ridx = 0, cp_records = replicate NOVA_CMD_SLOTS \<lparr>cr_op = 0, cr_a = 0, cr_b = 0\<rparr>\<rparr>"

definition wit_cmd0 :: CmdState where
  "wit_cmd0 = \<lparr>cs_page = wit_page, cs_host = HoIdle, cs_drain = DrIdle, cs_sent = [], cs_done = []\<rparr>"

text \<open>The drain starts while the host is in the middle of its stores.\<close>

lemma wit_cmd_steps:
  "\<exists>s. cmd_step\<^sup>*\<^sup>* wit_cmd0 s \<and> cs_done s = [\<lparr>cr_op = 1, cr_a = 7, cr_b = 9\<rparr>] \<and> cs_sent s = [\<lparr>cr_op = 1, cr_a = 7, cr_b = 9\<rparr>]"
proof -
  note c = converse_rtranclp_into_rtranclp [of cmd_step]
  have slot: "cmd_slot 0 = 0" by (simp add: cmd_slot_def)
  show ?thesis unfolding wit_cmd0_def wit_page_def
    apply (rule exI, rule conjI)
     apply (rule c, rule host_load_w [where c = "\<lparr>cr_op = 1, cr_a = 7, cr_b = 9\<rparr>"], simp, simp)
     apply (rule c, rule host_load_r, simp, simp)
     apply (rule c, rule host_op, simp, simp add: NOVA_CMD_SLOTS_def, simp add: store_field_def slot NOVA_CMD_SLOTS_def)
     apply (rule c, rule drain_load_r, simp, simp)
     apply (rule c, rule host_a, simp, simp add: store_field_def slot NOVA_CMD_SLOTS_def)
     apply (rule c, rule host_b, simp, simp add: store_field_def slot NOVA_CMD_SLOTS_def)
     apply (rule c, rule host_publish, simp, simp)
     apply (rule c, rule drain_enter, simp, simp, simp, simp add: NOVA_CMD_SLOTS_def, simp)
     apply (rule c, rule drain_one, simp, simp, simp add: slot)
     apply (rule c, rule drain_leave, simp, simp, simp)
     apply (rule rtranclp.rtrancl_refl)
    apply simp
    done
qed

lemma command_exactly_once_witness:
  "cmd_init wit_cmd0 \<and> (\<exists>s. cmd_step\<^sup>*\<^sup>* wit_cmd0 s \<and> cs_done s = take 1 (cs_sent s) \<and> length (cs_sent s) = 1)"
proof -
  have i: "cmd_init wit_cmd0" by (simp add: cmd_init_def wit_cmd0_def wit_page_def)
  obtain s where s: "cmd_step\<^sup>*\<^sup>* wit_cmd0 s" "length (cs_done s) = 1" "length (cs_sent s) = 1" using wit_cmd_steps by auto
  then show ?thesis using command_exactly_once [OF i s(1)] i by auto
qed

section \<open>The record is read where the host can still write it\<close>

text \<open>
  \<open>drain\<close> hands the handlers a reference into the page. For a host that keeps the
  protocol that is one value (above). \<open>command_spi\<close> of \<open>core_vcpu\<close> with its accesses to
  the record apart: \<open>fetch k\<close> is the record at the \<open>k\<close>-th of them. The posted VM index is
  a later fetch than the checked one.
\<close>

definition spi_fetched ::
  "nat \<Rightarrow> (u64 \<Rightarrow> 's \<Rightarrow> bool) \<Rightarrow> (u64 \<Rightarrow> u32 \<Rightarrow> 's \<Rightarrow> bool \<times> 's) \<Rightarrow> (nat \<Rightarrow> CmdRecord) \<Rightarrow> 's \<Rightarrow> u64 \<times> 's" where
  "spi_fetched guests vm_on post fetch s =
     (if unat (cr_a (fetch 0)) \<ge> guests \<or> cr_b (fetch 1) > 0xFFFFFFFF then (NOVA_CMD_RESULT_RANGE, s)
      else if \<not> vm_on (cr_a (fetch 2)) s then (NOVA_CMD_RESULT_STATE, s)
      else let (ok, s) = post (cr_a (fetch 3)) (ucast (cr_b (fetch 4))) s in
        (if ok then NOVA_CMD_RESULT_OK else NOVA_CMD_RESULT_RANGE, s))"

lemma spi_fetched_in_range:
  assumes "\<And>k. fetch k = c" "snd (spi_fetched guests vm_on (\<lambda>vm i s. (ok, s @ [vm])) fetch s) = s @ [vm]"
  shows "unat vm < guests"
  using assms by (auto simp: spi_fetched_def Let_def split: if_splits)

lemma spi_double_fetch:
  "\<exists>fetch. snd (spi_fetched 2 (\<lambda>_ _. True) (\<lambda>vm i s. (True, s @ [vm])) fetch []) = [99]"
  by (rule exI [of _ "\<lambda>k. \<lparr>cr_op = 2, cr_a = (if k = 0 then 0 else 99), cr_b = 40\<rparr>"])
     (simp add: spi_fetched_def)

end
