(* ===== verification/NovaSmpRun.thy ===== *)
theory NovaSmpRun
  imports NovaSmp NovaCommand
begin

text \<open>
  The handlers that drive the machine: the cross-call interrupt, the guest SGI
  write and the service claims of \<open>smp\<close> (\<open>cross_call.cpp\<close>, \<open>vm_lifecycle.cpp\<close>),
  the soft-timer callbacks, the guest firmware calls of \<open>psci.cpp\<close>, the doorbell of
  \<open>ivc.cpp\<close>, the heartbeat of \<open>watchdog.cpp\<close>, the calls of \<open>core_timer.cpp\<close> and the
  dispatch bracket of \<open>core_gic.cpp\<close>; and the transition relation of the machine.
\<close>

section \<open>Watchdog\<close>

definition watchdog_deadline :: "u64 \<Rightarrow> u64 \<Rightarrow> u64 \<Rightarrow> DeadlinePlan" where
  "watchdog_deadline now freq window_ms =
     (if window_ms = 0 then \<lparr>dp_accepted = True, dp_deadline = 0\<rparr> else deadline_after_ms now freq window_ms)"

definition accepts_generation :: "u64 \<Rightarrow> u64 \<Rightarrow> bool \<Rightarrow> bool" where
  "accepts_generation request current boot_vcpu_on \<longleftrightarrow> request \<noteq> 0 \<and> request = current \<and> boot_vcpu_on"

definition accepts_update :: "u64 \<Rightarrow> u64 \<Rightarrow> u64 \<Rightarrow> u64 \<Rightarrow> bool \<Rightarrow> bool" where
  "accepts_update request_generation current_generation request_sequence current_sequence boot_vcpu_on \<longleftrightarrow>
     accepts_generation request_generation current_generation boot_vcpu_on \<and> request_sequence \<noteq> 0
     \<and> request_sequence = current_sequence"

definition apply_local :: "'d Env \<Rightarrow> nat \<Rightarrow> nat \<Rightarrow> u64 \<Rightarrow> u64 \<Rightarrow> u64 \<Rightarrow> ('d, 'z) SmpWorld_scheme \<Rightarrow> ('d, 'z) SmpWorld_scheme" where
  "apply_local e core vm deadline generation seqno w =
     (if vm \<ge> length (en_guests e) \<or> \<not> accepts_update generation (vm_generation e vm w) seqno (w_update_sequence w ! vm)
           (power_state e (slot_of vm 0) w = PwOn)
      then w
      else let w1 = w\<lparr>w_armed_generation := (w_armed_generation w)[vm := generation],
                      w_armed_sequence := (w_armed_sequence w)[vm := seqno]\<rparr> in
        if deadline = 0 then cancel_timer core (kSlotWatchdog + vm) w1
        else arm_timer core (kSlotWatchdog + vm) deadline CbWatchdog (of_nat vm) w1)"

definition watchdog_expiry :: "'d Env \<Rightarrow> nat \<Rightarrow> nat \<Rightarrow> ('d, 'z) SmpWorld_scheme \<Rightarrow> ('d, 'z) SmpWorld_scheme" where
  "watchdog_expiry e core vm w =
     (if vm \<ge> length (en_guests e) \<or> \<not> accepts_update (w_armed_generation w ! vm) (vm_generation e vm w)
           (w_armed_sequence w ! vm) (w_update_sequence w ! vm) (power_state e (slot_of vm 0) w = PwOn)
      then w
      else snd (reset_vm e core vm True (w\<lparr>w_armed_generation := (w_armed_generation w)[vm := 0],
                                           w_armed_sequence := (w_armed_sequence w)[vm := 0]\<rparr>)))"

section \<open>Work routed to a VM's owner core\<close>

definition run_owner_call :: "'d Env \<Rightarrow> nat \<Rightarrow> OwnerCall \<Rightarrow> nat \<Rightarrow> u64 \<Rightarrow> u64 \<Rightarrow> u64 \<Rightarrow> ('d, 'z) SmpWorld_scheme \<Rightarrow> ('d, 'z) SmpWorld_scheme" where
  "run_owner_call e core fn vm a b c w =
     (case fn of RecoverDmaFault \<Rightarrow> recover_dma_fault e core vm b w | ApplyLocal \<Rightarrow> apply_local e core vm a b c w)"

definition invoke_vm_owner ::
  "'d Env \<Rightarrow> nat \<Rightarrow> nat \<Rightarrow> OwnerCall \<Rightarrow> u64 \<Rightarrow> u64 \<Rightarrow> u64 \<Rightarrow> ('d, 'z) SmpWorld_scheme \<Rightarrow> bool \<times> ('d, 'z) SmpWorld_scheme" where
  "invoke_vm_owner e core vm fn a b c w =
     (if vm \<ge> length (en_guests e) then (False, w)
      else let owner = slot_cpu e (slot_of vm 0) in
        if owner = core then (True, run_owner_call e core fn vm a b c w)
        else enqueue owner \<lparr>rq_op = OpVmOwnerCall, rq_idx = vm, rq_a = a, rq_b = b, rq_c = c, rq_callback = Some fn\<rparr> False w)"

definition handle_dma_fault :: "'d Env \<Rightarrow> nat \<Rightarrow> bool \<Rightarrow> nat \<Rightarrow> u64 \<Rightarrow> u64 \<Rightarrow> ('d, 'z) SmpWorld_scheme \<Rightarrow> ('d, 'z) SmpWorld_scheme" where
  "handle_dma_fault e core notice_valid vm stream_id generation w =
     (if \<not> notice_valid \<or> vm \<ge> length (en_guests e) \<or> \<not> w_online w ! 0 then w
      else let owner = slot_cpu e (slot_of vm 0) in
        if owner = core then recover_dma_fault e core vm generation w
        else snd (enqueue owner \<lparr>rq_op = OpVmOwnerCall, rq_idx = vm, rq_a = stream_id, rq_b = generation, rq_c = 0,
                    rq_callback = Some RecoverDmaFault\<rparr> True w))"

section \<open>The cross-call interrupt\<close>

definition run_request :: "'d Env \<Rightarrow> nat \<Rightarrow> Request \<Rightarrow> bool \<times> ('d, 'z) SmpWorld_scheme \<Rightarrow> bool \<times> ('d, 'z) SmpWorld_scheme" where
  "run_request e core r sw =
     (case sw of (sched, w) \<Rightarrow>
      case rq_op r of
        OpStartVm \<Rightarrow>
          if lifecycle_blocks_start (rq_idx r) w then (sched, cancel_start e (slot_of (rq_idx r) 0) w)
          else let (started, w1) = start_vm_local e core (rq_idx r) w in
            (sched, if started then w1 else cancel_start e (slot_of (rq_idx r) 0) w1)
      | OpPostVirq \<Rightarrow> (sched, snd (vcpu_post_virq e core (rq_idx r) (unat (ucast (rq_a r) :: u32)) w))
      | OpCpuOn \<Rightarrow>
          if lifecycle_blocks_start (vm_of (rq_idx r)) w then (sched, cancel_start e (rq_idx r) w)
          else let (started, w1) = start_vcpu e core (rq_idx r) (rq_a r) (rq_b r) w in
            (sched, if started then w1 else cancel_start e (rq_idx r) w1)
      | OpVmOwnerCall \<Rightarrow>
          (sched, case rq_callback r of None \<Rightarrow> w
             | Some fn \<Rightarrow> run_owner_call e core fn (rq_idx r) (rq_a r) (rq_b r) (rq_c r) w)
      | OpBeginReset \<Rightarrow>
          let (b, w1) = begin_lifecycle_local e core (rq_idx r) LmReset w in (bl_schedule_required b \<or> sched, w1)
      | OpBeginStop \<Rightarrow>
          let (b, w1) = begin_lifecycle_local e core (rq_idx r) LmStop w in (bl_schedule_required b \<or> sched, w1)
      | OpQuiesceVcpu \<Rightarrow>
          let vm = vm_of (rq_idx r) in
          if lifecycle_token vm w \<noteq> rq_a r then (sched, w)
          else let (was_current, w1) = retire_vcpu e core (rq_idx r) w in
            (was_current \<or> sched, snd (enqueue (slot_cpu e (slot_of vm 0)) (req OpQuiesceAck (rq_idx r) (rq_a r) 0) True w1))
      | OpQuiesceAck \<Rightarrow> (sched, acknowledge_quiesce e core (rq_idx r) (rq_a r) w))"

text \<open>One round of the re-evaluation drain; nobody else writes the word inside an atomic step.\<close>

definition drain_reevaluate :: "'d Env \<Rightarrow> nat \<Rightarrow> ('d, 'z) SmpWorld_scheme \<Rightarrow> ('d, 'z) SmpWorld_scheme" where
  "drain_reevaluate e core w =
     (let dirty = w_reevaluate w ! core in
      fold (\<lambda>slot w. if bit dirty slot then vcpu_reevaluate_virq e core slot w else w) [0 ..< 32]
        (w\<lparr>w_reevaluate := (w_reevaluate w)[core := 0]\<rparr>))"

definition cross_call_irq :: "'d Env \<Rightarrow> nat \<Rightarrow> ('d, 'z) SmpWorld_scheme \<Rightarrow> ('d, 'z) SmpWorld_scheme" where
  "cross_call_irq e core w =
     (let batch = w_mail w ! core;
          w1 = w\<lparr>w_mail := (w_mail w)[core := []]\<rparr>;
          (sched, w2) = fold (run_request e core) batch (False, w1);
          w3 = drain_reevaluate e core w2 in
      schedule_if sched e core True w3)"

definition smp_handle_irq :: "'d Env \<Rightarrow> nat \<Rightarrow> u32 \<Rightarrow> bool \<Rightarrow> ('d, 'z) SmpWorld_scheme \<Rightarrow> bool \<times> ('d, 'z) SmpWorld_scheme" where
  "smp_handle_irq e core intid handled w =
     (if handled then (handled, w)
      else if intid \<noteq> kCrossCallSgi then (handled, w)
      else (True, cross_call_irq e core w))"

section \<open>Guest calls\<close>

abbreviation frame :: "('d, 'z) VcpuWorld_scheme \<Rightarrow> nat \<Rightarrow> TrapContext" where "frame w core \<equiv> ch_frame (w_hw w ! core)"
abbreviation arg_of :: "('d, 'z) VcpuWorld_scheme \<Rightarrow> nat \<Rightarrow> nat \<Rightarrow> u64" where "arg_of w core i \<equiv> tc_x (frame w core) ! i"

definition ret :: "nat \<Rightarrow> u64 \<Rightarrow> ('d, 'z) VcpuWorld_scheme \<Rightarrow> ('d, 'z) VcpuWorld_scheme" where
  "ret core v = upd_hw core (\<lambda>h. h\<lparr>ch_frame := set_x 0 v (ch_frame h)\<rparr>)"

text \<open>The guest's write of \<open>ICC_SGI1R_EL1\<close>: every named sibling gets the interrupt.\<close>

definition smp_handle_sysreg :: "'d Env \<Rightarrow> nat \<Rightarrow> nat \<Rightarrow> SysregTrap \<Rightarrow> ('d, 'z) SmpWorld_scheme \<Rightarrow> bool \<times> ('d, 'z) SmpWorld_scheme" where
  "smp_handle_sysreg e core self sr w =
     (if \<not> sr_write sr \<or> \<not> is_icc_sgi1r sr then (False, w)
      else let v = (if sr_rt sr = kSrtZeroReg then 0 else arg_of w core (sr_rt sr));
               vm = vm_of self; intid = unat (sgi1r_intid v);
               targets = sgi1r_targets v (vcpu_of self) (guest_vcpus e vm) in
        (True, fold (\<lambda>t w. if bit targets t then snd (post_virq e core (slot_of vm t) intid w) else w) [0 ..< 32] w))"

definition psci_handle_hvc :: "'d Env \<Rightarrow> SpeculationState \<Rightarrow> nat \<Rightarrow> nat \<Rightarrow> u32 \<Rightarrow> ('d, 'z) SmpWorld_scheme \<Rightarrow> bool \<times> ('d, 'z) SmpWorld_scheme" where
  "psci_handle_hvc e spec core self func_id w =
     (let a = smccc_dispatch func_id (arg_of w core 1) spec in
      if sv_claimed a then (True, ret core (sv_ret a) w)
      else let v = psci_dispatch func_id (arg_of w core 1) in
        if \<not> pv_claimed v then (False, w)
        else (True,
          let vm = vm_of self; t = target_vcpu (arg_of w core 1) in
          case pv_action v of
            ActSystemOff \<Rightarrow> snd (stop_vm e core vm True w)
          | ActSystemReset \<Rightarrow> (let (ok, w1) = reset_vm e core vm True w in if ok then w1 else ret core PSCI_INTERNAL_FAILURE w1)
          | ActCpuOn \<Rightarrow>
              if t = kInvalidTarget \<or> t \<ge> of_nat (guest_vcpus e vm) then ret core PSCI_INVALID_PARAMETERS w
              else (let (r, w1) = cpu_on e core (slot_of vm (unat t)) (arg_of w core 2) (arg_of w core 3) w in ret core r w1)
          | ActCpuOff \<Rightarrow> cpu_off e core self True w
          | ActCpuSuspend \<Rightarrow>
              (let w1 = ret core (pv_ret v) w;
                   (d, g) = has_deliverable (vcpu_table e) core (en_turn e) self (w_vgic w1);
                   w2 = w1\<lparr>w_vgic := g\<rparr> in
               if d then w2 else block_current e core self w2)
          | ActAffinityInfo \<Rightarrow>
              if t = kInvalidTarget \<or> t \<ge> of_nat (guest_vcpus e vm) then ret core PSCI_INVALID_PARAMETERS w
              else ret core (case power_state e (slot_of vm (unat t)) w of PwOff \<Rightarrow> PSCI_AFFINITY_OFF
                     | PwOnPending \<Rightarrow> PSCI_AFFINITY_ON_PENDING | PwOn \<Rightarrow> PSCI_AFFINITY_ON) w
          | ActNone \<Rightarrow> ret core (pv_ret v) w))"

definition NOVA_HVC_FN_HEARTBEAT :: u32 where "NOVA_HVC_FN_HEARTBEAT = 0x1004"
definition NOVA_HVC_FN_YIELD :: u32 where "NOVA_HVC_FN_YIELD = 0x1003"
definition NOVA_HVC_FN_VM_START :: u32 where "NOVA_HVC_FN_VM_START = 0x1005"
definition NOVA_HVC_FN_IVC_DOORBELL :: u32 where "NOVA_HVC_FN_IVC_DOORBELL = 0x1100"
definition NOVA_HVC_FN_TIMER_SET :: u32 where "NOVA_HVC_FN_TIMER_SET = 0x1200"
definition NOVA_IVC_DOORBELL_VINTID :: nat where "NOVA_IVC_DOORBELL_VINTID = 0"

text \<open>\<open>HVC_VM_START\<close>: \<open>std::size_t\<close> is 64 bits wide, so the whole of x1 names the VM.\<close>

definition hvc_vm_start :: "'d Env \<Rightarrow> nat \<Rightarrow> ('d, 'z) SmpWorld_scheme \<Rightarrow> ('d, 'z) SmpWorld_scheme" where
  "hvc_vm_start e core w =
     (let (ok, w1) = start_vm e core (unat (arg_of w core 1)) w in ret core (if ok then 0 else kSmcccNotSupported) w1)"

definition hvc_ivc_doorbell :: "'d Env \<Rightarrow> nat \<Rightarrow> ('d, 'z) SmpWorld_scheme \<Rightarrow> ('d, 'z) SmpWorld_scheme" where
  "hvc_ivc_doorbell e core w =
     (let target = unat (arg_of w core 1) in
      if target \<ge> length (en_guests e) then ret core kSmcccNotSupported w
      else let (ok, w1) = post_virq e core (slot_of target 0) NOVA_IVC_DOORBELL_VINTID w in
        ret core (if ok then 0 else kSmcccNotSupported) w1)"

definition hvc_heartbeat :: "'d Env \<Rightarrow> nat \<Rightarrow> nat \<Rightarrow> ('d, 'z) SmpWorld_scheme \<Rightarrow> ('d, 'z) SmpWorld_scheme" where
  "hvc_heartbeat e core self w =
     (let vm = vm_of self; plan = watchdog_deadline (en_now e) (en_hz e) (arg_of w core 1); generation = vm_generation e vm w in
      if \<not> dp_accepted plan \<or> power_state e (slot_of vm 0) w \<noteq> PwOn then ret core kSmcccNotSupported w
      else let seqno = next_nonzero (w_update_sequence w ! vm);
               w1 = w\<lparr>w_update_sequence := (w_update_sequence w)[vm := seqno]\<rparr>;
               (ok, w2) = invoke_vm_owner e core vm ApplyLocal (dp_deadline plan) generation seqno w1 in
           ret core (if ok then 0 else kSmcccNotSupported) w2)"

section \<open>Legacy timer slot\<close>

definition try_claim :: "LegacySlot \<Rightarrow> nat \<Rightarrow> bool \<times> LegacySlot" where
  "try_claim s caller =
     (if lg_armed s \<and> lg_owner s \<noteq> caller then (False, s) else (True, s\<lparr>lg_owner := caller, lg_armed := True\<rparr>))"

definition release :: "LegacySlot \<Rightarrow> LegacySlot" where "release s = s\<lparr>lg_armed := False\<rparr>"

definition hvc_timer_set :: "'d Env \<Rightarrow> nat \<Rightarrow> nat \<Rightarrow> ('d, 'z) SmpWorld_scheme \<Rightarrow> ('d, 'z) SmpWorld_scheme" where
  "hvc_timer_set e core self w =
     (let (ok, s) = try_claim (w_legacy w ! core) self in
      if \<not> ok then ret core kSmcccNotSupported w
      else ret core 0 (arm_timer core kSlotLegacyTimer (en_now e + arg_of w core 1) CbLegacy (of_nat (lg_owner s))
                         (w\<lparr>w_legacy := (w_legacy w)[core := s]\<rparr>)))"

definition on_timer_set_expiry :: "'d Env \<Rightarrow> nat \<Rightarrow> nat \<Rightarrow> ('d, 'z) SmpWorld_scheme \<Rightarrow> ('d, 'z) SmpWorld_scheme" where
  "on_timer_set_expiry e core owner w =
     snd (vcpu_post_virq e core owner kGuestTimerVintid (w\<lparr>w_legacy := (w_legacy w)[core := release (w_legacy w ! core)]\<rparr>))"

text \<open>RAZ/WI of the EL1 physical timer bank.\<close>

definition timer_handle_sysreg :: "nat \<Rightarrow> SysregTrap \<Rightarrow> ('d, 'z) VcpuWorld_scheme \<Rightarrow> bool \<times> ('d, 'z) VcpuWorld_scheme" where
  "timer_handle_sysreg core sr w =
     (if \<not> is_cntp_el1_timer sr then (False, w)
      else (True, if \<not> sr_write sr \<and> sr_rt sr \<noteq> kSrtZeroReg
                  then upd_hw core (\<lambda>h. h\<lparr>ch_frame := set_x (sr_rt sr) 0 (ch_frame h)\<rparr>) w else w))"

text \<open>The native virtual timer fired: mask it and reflect it into the resident vCPU.\<close>

definition cntv_irq :: "'d Env \<Rightarrow> nat \<Rightarrow> ('d, 'z) SmpWorld_scheme \<Rightarrow> ('d, 'z) SmpWorld_scheme" where
  "cntv_irq e core w =
     (let w1 = upd_hw core (\<lambda>h. h\<lparr>ch_el1 := (ch_el1 h)\<lparr>e1_cntv_ctl := e1_cntv_ctl (ch_el1 h) OR kCntCtlImask\<rparr>\<rparr>) w in
      case cur w1 core of None \<Rightarrow> w1 | Some c \<Rightarrow> snd (vcpu_post_virq e core c kGuestTimerVintid w1))"

section \<open>Host commands\<close>

text \<open>
  The handlers the scheduler and the coordinator offer to the command ring, on the
  argument words of the record. The wider argument of \<open>command_spi\<close> is checked before
  it is narrowed.
\<close>

definition command_spi :: "'d Env \<Rightarrow> nat \<Rightarrow> u64 \<Rightarrow> u64 \<Rightarrow> ('d, 'z) SmpWorld_scheme \<Rightarrow> u64 \<times> ('d, 'z) SmpWorld_scheme" where
  "command_spi e core a b w =
     (if a \<ge> of_nat (length (en_guests e)) \<or> b > 0xFFFFFFFF then (NOVA_CMD_RESULT_RANGE, w)
      else if \<not> vm_on e (unat a) w then (NOVA_CMD_RESULT_STATE, w)
      else let (ok, g, ev) = post_spi (vcpu_table e) (unat a) (unat (ucast b :: u32)) (w_vgic w) in
        (if ok then NOVA_CMD_RESULT_OK else NOVA_CMD_RESULT_RANGE, handle_virq_reevaluate e core ev (w\<lparr>w_vgic := g\<rparr>)))"

definition command_slice :: "'d Env \<Rightarrow> nat \<Rightarrow> u64 \<Rightarrow> ('d, 'z) SmpWorld_scheme \<Rightarrow> u64 \<times> ('d, 'z) SmpWorld_scheme" where
  "command_slice e core a w =
     (let (ok, w1) = set_slice_us e core a w in (if ok then NOVA_CMD_RESULT_OK else NOVA_CMD_RESULT_RANGE, w1))"

definition command_stop :: "'d Env \<Rightarrow> nat \<Rightarrow> u64 \<Rightarrow> ('d, 'z) SmpWorld_scheme \<Rightarrow> u64 \<times> ('d, 'z) SmpWorld_scheme" where
  "command_stop e core a w =
     (if a \<ge> of_nat (length (en_guests e)) then (NOVA_CMD_RESULT_RANGE, w)
      else let (ok, w1) = stop_vm e core (unat a) True w in (if ok then NOVA_CMD_RESULT_OK else NOVA_CMD_RESULT_STATE, w1))"

definition command_reset :: "'d Env \<Rightarrow> nat \<Rightarrow> u64 \<Rightarrow> ('d, 'z) SmpWorld_scheme \<Rightarrow> u64 \<times> ('d, 'z) SmpWorld_scheme" where
  "command_reset e core a w =
     (if a \<ge> of_nat (length (en_guests e)) then (NOVA_CMD_RESULT_RANGE, w)
      else let (ok, w1) = reset_vm e core (unat a) True w in (if ok then NOVA_CMD_RESULT_OK else NOVA_CMD_RESULT_STATE, w1))"

definition command_start :: "'d Env \<Rightarrow> nat \<Rightarrow> u64 \<Rightarrow> ('d, 'z) SmpWorld_scheme \<Rightarrow> u64 \<times> ('d, 'z) SmpWorld_scheme" where
  "command_start e core a w =
     (if a \<ge> of_nat (length (en_guests e)) then (NOVA_CMD_RESULT_RANGE, w)
      else let (ok, w1) = start_vm e core (unat a) w in (if ok then NOVA_CMD_RESULT_OK else NOVA_CMD_RESULT_STATE, w1))"

section \<open>Timer callbacks and the dispatch bracket\<close>

definition run_callback :: "'d Env \<Rightarrow> nat \<Rightarrow> TimerCb \<Rightarrow> nat \<Rightarrow> ('d, 'z) SmpWorld_scheme \<Rightarrow> ('d, 'z) SmpWorld_scheme" where
  "run_callback e core cb arg w =
     (case cb of
        CbSlice \<Rightarrow> on_slice e core w
      | CbCntvWake \<Rightarrow> wake e core arg w
      | CbLegacy \<Rightarrow> on_timer_set_expiry e core arg w
      | CbWatchdog \<Rightarrow> watchdog_expiry e core arg w
      | CbLifecycle \<Rightarrow> on_lifecycle_timeout e core arg w
      | CbDmaDrain \<Rightarrow> on_dma_drain e core arg w
      | CbCommand \<Rightarrow> w
      | CbTelemetry \<Rightarrow> w)"

text \<open>One turn of the expiry drain: the due slot is disarmed before its callback runs, and the last turn reprograms the one-shot.\<close>

definition fire_timer :: "'d Env \<Rightarrow> nat \<Rightarrow> ('d, 'z) SmpWorld_scheme \<Rightarrow> ('d, 'z) SmpWorld_scheme" where
  "fire_timer e core w =
     (case pop_expired (st_queue (w_timers w ! core)) (en_now e) of
        None \<Rightarrow> w\<lparr>w_timers := (w_timers w)[core := reprogram (w_timers w ! core)]\<rparr>
      | Some (hit, q) \<Rightarrow>
         (let w1 = w\<lparr>w_timers := (w_timers w)[core := (w_timers w ! core)\<lparr>st_queue := q\<rparr>]\<rparr> in
          case ex_fn hit of None \<Rightarrow> w1 | Some cb \<Rightarrow> run_callback e core cb (unat (ex_arg hit)) w1))"

definition irq_enter :: "nat \<Rightarrow> ('d, 'z) VcpuWorld_scheme \<Rightarrow> ('d, 'z) VcpuWorld_scheme" where
  "irq_enter core = upd_hw core (\<lambda>h. h\<lparr>ch_dispatching := True\<rparr>)"

definition irq_leave :: "'d Env \<Rightarrow> nat \<Rightarrow> ('d, 'z) VcpuWorld_scheme \<Rightarrow> ('d, 'z) VcpuWorld_scheme" where
  "irq_leave e core w =
     (let deferred = ch_epilogue (w_hw w ! core);
          w1 = upd_hw core (\<lambda>h. h\<lparr>ch_dispatching := False, ch_epilogue := False\<rparr>) w in
      if deferred then schedule_after_retire e core True w1 else w1)"


end
