(* ===== verification/NovaSmpInv.thy ===== *)
theory NovaSmpInv
  imports NovaPower NovaSmpRun
begin

text \<open>
  What the operations of the machine may do to the state the lifecycle protocol
  rests on, as one relation: \<open>evolves V w w'\<close> says that \<open>w'\<close> keeps the shape, the
  power invariant and the coordinator's state, sends no quiesce traffic, and that
  only the VMs of \<open>V\<close> may have a vCPU come up or lose their DMA quiescence. Every
  operation of the scheduler, the virtual interrupt paths and the starts is an
  instance; the protocol invariant is kept by all of them.
\<close>

section \<open>Frame of the vCPU operations\<close>

named_theorems mores \<open>operations of \<open>core_vcpu\<close> leave the coordinator's part of the world alone\<close>

lemma more_upd [mores, simp]:
  "VcpuWorld.more (upd_vcpu i f w) = VcpuWorld.more w" "VcpuWorld.more (upd_sched i g w) = VcpuWorld.more w"
  "VcpuWorld.more (upd_hw i h w) = VcpuWorld.more w" "VcpuWorld.more (set_state i s w) = VcpuWorld.more w"
  "VcpuWorld.more (arm_timer k sl dl cb a w) = VcpuWorld.more w" "VcpuWorld.more (cancel_timer k sl w) = VcpuWorld.more w"
  "VcpuWorld.more (publish_power i p w) = VcpuWorld.more w" "VcpuWorld.more (publish_cntvoff vm v w) = VcpuWorld.more w"
  "VcpuWorld.more (deliver_eois e ev w) = VcpuWorld.more w" "VcpuWorld.more (seed_fp_trap k b w) = VcpuWorld.more w"
  "VcpuWorld.more (switch_fp_trap k b w) = VcpuWorld.more w" "VcpuWorld.more (advance_vm_generation vm w) = VcpuWorld.more w"
  "VcpuWorld.more (begin_lifecycle_transition w) = VcpuWorld.more w" "VcpuWorld.more (end_lifecycle_transition w) = VcpuWorld.more w"
  "VcpuWorld.more (add_alive a w) = VcpuWorld.more w" "VcpuWorld.more (reset_vm_devices e vm w) = VcpuWorld.more w"
  by (simp_all add: upd_vcpu_def upd_sched_def upd_hw_def set_state_def arm_timer_def cancel_timer_def
      publish_power_def publish_cntvoff_def deliver_eois_def seed_fp_trap_def switch_fp_trap_def advance_vm_generation_def
      begin_lifecycle_transition_def end_lifecycle_transition_def add_alive_def reset_vm_devices_def)

lemma more_ops [mores, simp]:
  "VcpuWorld.more (reschedule_slice e k w) = VcpuWorld.more w" "VcpuWorld.more (load_regs e k i w) = VcpuWorld.more w"
  "VcpuWorld.more (seed_context e i en sp ar w) = VcpuWorld.more w" "VcpuWorld.more (sync_resident e k w) = VcpuWorld.more w"
  by (simp_all add: reschedule_slice_def load_regs_def seed_context_def sync_resident_def Let_def split: option.splits)

lemma more_sched [mores, simp]:
  "VcpuWorld.more (park e k c w) = VcpuWorld.more w" "VcpuWorld.more (make_resident e k c w) = VcpuWorld.more w"
  by (simp_all add: park_def make_resident_def Let_def split: prod.splits)

lemma more_switch [mores, simp]: "VcpuWorld.more (switch_to e k c w) = VcpuWorld.more w"
  by (simp add: switch_to_def Let_def split: option.splits)

lemma more_out [mores, simp]:
  "VcpuWorld.more (schedule_out e k w) = VcpuWorld.more w" "VcpuWorld.more (yield_current e k w) = VcpuWorld.more w"
  by (simp_all add: schedule_out_def yield_current_def Let_def)

lemma more_blocks [mores, simp]:
  "VcpuWorld.more (block_current e k c w) = VcpuWorld.more w" "VcpuWorld.more (wake e k c w) = VcpuWorld.more w"
  "VcpuWorld.more (on_slice e k w) = VcpuWorld.more w" "VcpuWorld.more (schedule_after_retire e k b w) = VcpuWorld.more w"
  "VcpuWorld.more (handle_fp_simd e k c w) = VcpuWorld.more w"
  by (simp_all add: block_current_def wake_def on_slice_def schedule_after_retire_def handle_fp_simd_def Let_def
      split: prod.splits option.splits)

lemma more_seeds [mores, simp]:
  "VcpuWorld.more (seed_boot_context e i w) = VcpuWorld.more w" "VcpuWorld.more (reseed_owner_state e k i w) = VcpuWorld.more w"
  "VcpuWorld.more (seed e k i en sp ar w) = VcpuWorld.more w" "VcpuWorld.more (seed_boot e k i w) = VcpuWorld.more w"
  "VcpuWorld.more (cancel_start e i w) = VcpuWorld.more w"
  by (simp_all add: seed_boot_context_def reseed_owner_state_def seed_def seed_boot_def cancel_start_def Let_def)

lemma more_lifecycle [mores, simp]:
  "VcpuWorld.more (snd (reserve_start e i w)) = VcpuWorld.more w" "VcpuWorld.more (snd (prepare_start_vm e k vm w)) = VcpuWorld.more w"
  "VcpuWorld.more (snd (publish_start_vm e k vm g w)) = VcpuWorld.more w"
  "VcpuWorld.more (snd (start_vcpu e k i en ct w)) = VcpuWorld.more w" "VcpuWorld.more (snd (retire_vcpu e k i w)) = VcpuWorld.more w"
  "VcpuWorld.more (snd (prepare_reset_quiesced_vm e k vm w)) = VcpuWorld.more w"
  "VcpuWorld.more (snd (publish_reset_vm e k vm g w)) = VcpuWorld.more w"
  by (simp_all add: reserve_start_def prepare_start_vm_def publish_start_vm_def start_vcpu_def retire_vcpu_def
      prepare_reset_quiesced_vm_def publish_reset_vm_def Let_def split: prod.splits)

text \<open>The coordinator state the protocol invariant reads.\<close>

definition coord :: "('d, 'z) SmpWorld_scheme \<Rightarrow> QuiesceTracker list \<times> u64 list \<times> bool list \<times> bool list \<times> bool list" where
  "coord w = (w_lifecycle w, w_token w, w_dma_pending w, w_dma_failed w, w_online w)"

lemma more_coord:
  assumes "VcpuWorld.more w' = VcpuWorld.more w"
  shows "coord w' = coord w" "w_mail w' = w_mail w"
  using assms by (cases w, cases w', simp add: coord_def)+

section \<open>Evolution\<close>

definition quiesce_msg :: "Request \<Rightarrow> bool" where
  "quiesce_msg m \<longleftrightarrow> rq_op m = OpQuiesceVcpu \<or> rq_op m = OpQuiesceAck"

text \<open>The messages in flight, each with the core it is addressed to.\<close>

definition msgs :: "('d, 'z) SmpWorld_scheme \<Rightarrow> (nat \<times> Request) set" where
  "msgs w = {(k, m). k < length (w_mail w) \<and> m \<in> set (w_mail w ! k)}"

definition boxes_ok :: "nat \<Rightarrow> ('d, 'z) SmpWorld_scheme \<Rightarrow> bool" where
  "boxes_ok n w \<longleftrightarrow> length (w_mail w) = n \<and> length (w_online w) = n \<and> length (w_lifecycle w) = kMaxGuests
     \<and> length (w_token w) = kMaxGuests \<and> length (w_dma_pending w) = kMaxGuests \<and> length (w_dma_failed w) = kMaxGuests
     \<and> (\<forall>k < n. length (w_mail w ! k) \<le> kMailboxCapacity)"

text \<open>
  What the protocol needs of the peers: a completed drain is a quiet VM, and quiet
  lasts until that VM is resumed. \<open>good\<close> stands for any property of the peers'
  state that a restore keeps when the VM is quiet.
\<close>

definition peers_ok :: "'d Peers \<Rightarrow> (nat \<Rightarrow> 'd \<Rightarrow> bool) \<Rightarrow> ('d \<Rightarrow> bool) \<Rightarrow> bool" where
  "peers_ok p quiet good \<longleftrightarrow>
     (\<forall>v vm d. good d \<and> quiet vm d \<longrightarrow> quiet vm (pr_eoi p v d)) \<and> (\<forall>x vm d. good d \<and> quiet vm d \<longrightarrow> quiet vm (pr_vm_reset p x d))
   \<and> (\<forall>x vm d. good d \<and> quiet vm d \<longrightarrow> quiet vm (pr_reload p x d))
   \<and> (\<forall>op x vm g d. good d \<and> quiet vm d \<and> (x \<noteq> vm \<or> op \<noteq> DqResume) \<longrightarrow> quiet vm (snd (pr_dma p op x g d)))
   \<and> (\<forall>op vm g d. good d \<and> (op = DqBegin \<or> op = DqPoll)
        \<and> dma_quiesce_outcome (fst (fst (pr_dma p op vm g d))) (snd (fst (pr_dma p op vm g d))) = DqComplete
        \<longrightarrow> quiet vm (snd (pr_dma p op vm g d)))
   \<and> (\<forall>v d. good d \<longrightarrow> good (pr_eoi p v d)) \<and> (\<forall>x d. good d \<longrightarrow> good (pr_vm_reset p x d))
   \<and> (\<forall>op x g d. good d \<longrightarrow> good (snd (pr_dma p op x g d)))
   \<and> (\<forall>vm d. good d \<and> quiet vm d \<longrightarrow> good (pr_reload p vm d))"

definition base :: "nat \<Rightarrow> 'd Env \<Rightarrow> ('d \<Rightarrow> bool) \<Rightarrow> ('d, 'z) SmpWorld_scheme \<Rightarrow> bool" where
  "base n e good w \<longleftrightarrow> shape n w \<and> power_ok e (view w) \<and> boxes_ok n w \<and> good (w_dev w)"

definition evolves ::
  "nat \<Rightarrow> 'd Env \<Rightarrow> (nat \<Rightarrow> 'd \<Rightarrow> bool) \<Rightarrow> ('d \<Rightarrow> bool) \<Rightarrow> nat set \<Rightarrow> ('d, 'z) SmpWorld_scheme \<Rightarrow> ('d, 'z) SmpWorld_scheme \<Rightarrow> bool" where
  "evolves n e quiet good V w w' \<longleftrightarrow> base n e good w' \<and> coord w' = coord w
     \<and> (\<forall>m \<in> msgs w'. m \<in> msgs w \<or> \<not> quiesce_msg (snd m))
     \<and> (\<forall>s. vm_of s \<notin> V \<longrightarrow> a_pub (view w) s = PwOff \<longrightarrow> a_pub (view w') s = PwOff)
     \<and> (\<forall>vm. vm \<notin> V \<longrightarrow> quiet vm (w_dev w) \<longrightarrow> quiet vm (w_dev w'))"

lemma evolves_refl: "base n e good w \<Longrightarrow> evolves n e quiet good V w w"
  by (simp add: evolves_def)

lemma evolves_trans:
  "evolves n e quiet good V w w' \<Longrightarrow> evolves n e quiet good V w' w'' \<Longrightarrow> evolves n e quiet good V w w''"
  unfolding evolves_def by (metis)

lemma evolves_mono: "evolves n e quiet good V w w' \<Longrightarrow> V \<subseteq> U \<Longrightarrow> evolves n e quiet good U w w'"
  unfolding evolves_def by blast

lemma evolves_base: "evolves n e quiet good V w w' \<Longrightarrow> base n e good w'"
  by (simp add: evolves_def)

lemma boxes_cong: "coord w' = coord w \<Longrightarrow> w_mail w' = w_mail w \<Longrightarrow> boxes_ok n w' = boxes_ok n w"
  by (simp add: boxes_ok_def coord_def)

text \<open>An operation of \<open>core_vcpu\<close> evolves by what it does to the view and to the peers.\<close>

lemma evolves_vcpu:
  assumes "base n e good w" "VcpuWorld.more w' = VcpuWorld.more w" "shape n w'" "power_ok e (view w')"
    and "\<And>s. vm_of s \<notin> V \<Longrightarrow> a_pub (view w) s = PwOff \<Longrightarrow> a_pub (view w') s = PwOff"
    and "good (w_dev w')" "\<And>vm. vm \<notin> V \<Longrightarrow> quiet vm (w_dev w) \<Longrightarrow> quiet vm (w_dev w')"
  shows "evolves n e quiet good V w w'"
  using assms more_coord [OF assms(2)] boxes_cong [of w' w n] unfolding evolves_def base_def msgs_def by auto

lemma evolves_dev_same:
  assumes "base n e good w" "VcpuWorld.more w' = VcpuWorld.more w" "shape n w'" "power_ok e (view w')"
    and "\<And>s. vm_of s \<notin> V \<Longrightarrow> a_pub (view w) s = PwOff \<Longrightarrow> a_pub (view w') s = PwOff" "w_dev w' = w_dev w"
  shows "evolves n e quiet good V w w'"
  by (rule evolves_vcpu [OF assms(1-5)]) (use assms in \<open>simp_all add: base_def\<close>)

section \<open>The peers under the vCPU operations\<close>

text \<open>The only change the scheduler makes to the peers is the delivery of virtual EOIs.\<close>

definition eoi_closed :: "'d Env \<Rightarrow> ('d \<Rightarrow> bool) \<Rightarrow> bool" where
  "eoi_closed e P \<longleftrightarrow> (\<forall>v d. P d \<longrightarrow> P (pr_eoi (en_peers e) v d))"

lemma eoi_fold: "eoi_closed e P \<Longrightarrow> P d \<Longrightarrow> P (fold (pr_eoi (en_peers e)) ev d)"
  by (induction ev arbitrary: d) (auto simp: eoi_closed_def)

lemma dev_upd [simp]:
  "w_dev (upd_vcpu i f w) = w_dev w" "w_dev (upd_sched i g w) = w_dev w" "w_dev (upd_hw i h w) = w_dev w"
  "w_dev (set_state i s w) = w_dev w" "w_dev (arm_timer k sl dl cb a w) = w_dev w" "w_dev (cancel_timer k sl w) = w_dev w"
  "w_dev (publish_power i p w) = w_dev w" "w_dev (publish_cntvoff vm v w) = w_dev w"
  "w_dev (seed_fp_trap k b w) = w_dev w" "w_dev (switch_fp_trap k b w) = w_dev w"
  "w_dev (advance_vm_generation vm w) = w_dev w" "w_dev (begin_lifecycle_transition w) = w_dev w"
  "w_dev (end_lifecycle_transition w) = w_dev w" "w_dev (add_alive a w) = w_dev w"
  "w_dev (reschedule_slice e k w) = w_dev w" "w_dev (load_regs e k i w) = w_dev w" "w_dev (make_resident e k c w) = w_dev w"
  "w_dev (sync_resident e k w) = w_dev w" "w_dev (seed_context e i en sp ar w) = w_dev w"
  by (simp_all add: upd_vcpu_def upd_sched_def upd_hw_def set_state_def arm_timer_def cancel_timer_def
      publish_power_def publish_cntvoff_def seed_fp_trap_def switch_fp_trap_def advance_vm_generation_def
      begin_lifecycle_transition_def end_lifecycle_transition_def add_alive_def reschedule_slice_def load_regs_def
      make_resident_def sync_resident_def seed_context_def Let_def split: option.splits)

lemma dev_seeds [simp]:
  "w_dev (seed_boot_context e i w) = w_dev w" "w_dev (reseed_owner_state e k i w) = w_dev w"
  "w_dev (seed e k i en sp ar w) = w_dev w" "w_dev (seed_boot e k i w) = w_dev w" "w_dev (cancel_start e i w) = w_dev w"
  "w_dev (snd (reserve_start e i w)) = w_dev w" "w_dev (snd (publish_start_vm e k vm g w)) = w_dev w"
  "w_dev (snd (start_vcpu e k i en ct w)) = w_dev w" "w_dev (snd (retire_vcpu e k i w)) = w_dev w"
  "w_dev (snd (publish_reset_vm e k vm g w)) = w_dev w" "w_dev (wake e k c w) = w_dev w" "w_dev (handle_fp_simd e k c w) = w_dev w"
  by (simp_all add: seed_boot_context_def reseed_owner_state_def seed_def seed_boot_def cancel_start_def reserve_start_def
      publish_start_vm_def start_vcpu_def retire_vcpu_def publish_reset_vm_def wake_def handle_fp_simd_def Let_def
      split: prod.splits option.splits)

lemma dev_deliver: "eoi_closed e P \<Longrightarrow> P (w_dev w) \<Longrightarrow> P (w_dev (deliver_eois e ev w))"
  using eoi_fold by (simp add: deliver_eois_def)

lemma dev_park: "eoi_closed e P \<Longrightarrow> P (w_dev w) \<Longrightarrow> P (w_dev (park e k c w))"
  using eoi_fold [of e P "w_dev w"] by (auto simp: park_def deliver_eois_def Let_def split: prod.splits)

lemma dev_switch: "eoi_closed e P \<Longrightarrow> P (w_dev w) \<Longrightarrow> P (w_dev (switch_to e k c w))"
  using dev_park by (auto simp: switch_to_def Let_def split: option.splits)

lemma dev_out:
  assumes "eoi_closed e P" "P (w_dev w)"
  shows "P (w_dev (schedule_out e k w))" "P (w_dev (yield_current e k w))"
  unfolding schedule_out_def yield_current_def Let_def
  by (intro if_both [where P = "\<lambda>w. P (w_dev w)"]; simp add: assms dev_switch [OF assms(1)])+

lemma dev_sched:
  assumes "eoi_closed e P" "P (w_dev w)"
  shows "P (w_dev (block_current e k c w))" "P (w_dev (schedule_after_retire e k b w))" "P (w_dev (on_slice e k w))"
proof -
  show "P (w_dev (block_current e k c w))"
    unfolding block_current_def Let_def by (rule dev_out(1) [OF assms(1)]) (simp add: assms(2))
  show "P (w_dev (schedule_after_retire e k b w))"
    unfolding schedule_after_retire_def
    by (intro if_both [where P = "\<lambda>w. P (w_dev w)"]; simp add: assms dev_out(1) [OF assms(1)])
  show "P (w_dev (on_slice e k w))" unfolding on_slice_def using dev_out(2) [OF assms] by simp
qed

lemma peers_okD:
  assumes "peers_ok p quiet good"
  shows "good d \<Longrightarrow> quiet vm d \<Longrightarrow> quiet vm (pr_eoi p v d)" "good d \<Longrightarrow> quiet vm d \<Longrightarrow> quiet vm (pr_vm_reset p x d)"
    "good d \<Longrightarrow> quiet vm d \<Longrightarrow> quiet vm (pr_reload p x d)"
    "good d \<Longrightarrow> quiet vm d \<Longrightarrow> x \<noteq> vm \<or> op \<noteq> DqResume \<Longrightarrow> quiet vm (snd (pr_dma p op x g d))"
    "good d \<Longrightarrow> op = DqBegin \<or> op = DqPoll \<Longrightarrow>
      dma_quiesce_outcome (fst (fst (pr_dma p op vm g d))) (snd (fst (pr_dma p op vm g d))) = DqComplete \<Longrightarrow>
      quiet vm (snd (pr_dma p op vm g d))"
    "good d \<Longrightarrow> good (pr_eoi p v d)" "good d \<Longrightarrow> good (pr_vm_reset p x d)" "good d \<Longrightarrow> good (snd (pr_dma p op x g d))"
    "good d \<Longrightarrow> quiet vm d \<Longrightarrow> good (pr_reload p vm d)"
  using assms unfolding peers_ok_def by (elim conjE, metis)+

lemma peers_closed:
  assumes "peers_ok (en_peers e) quiet good"
  shows "eoi_closed e good" "eoi_closed e (\<lambda>d. good d \<and> quiet vm d)"
  using peers_okD(1,6) [OF assms] by (simp_all add: eoi_closed_def)

end
