(* ===== verification/NovaSmpEvolve.thy ===== *)
theory NovaSmpEvolve
  imports NovaSmpInv
begin

text \<open>
  Every operation outside the lifecycle coordinator as an instance of \<open>evolves\<close>:
  the scheduler, retirement, the virtual interrupt paths, the mailbox, the DMA
  calls and the three ways a vCPU comes up.
\<close>

definition setting :: "nat \<Rightarrow> 'd Env \<Rightarrow> (nat \<Rightarrow> 'd \<Rightarrow> bool) \<Rightarrow> ('d \<Rightarrow> bool) \<Rightarrow> bool" where
  "setting n e quiet good \<longleftrightarrow> cfg_ok n e \<and> peers_ok (en_peers e) quiet good"

lemma settingD: "setting n e quiet good \<Longrightarrow> cfg_ok n e" "setting n e quiet good \<Longrightarrow> peers_ok (en_peers e) quiet good"
  by (simp_all add: setting_def)

lemma baseD:
  assumes "base n e good w"
  shows "shape n w" "power_ok e (view w)" "boxes_ok n w" "good (w_dev w)" "cur_fits k (view w)"
  using assms power_fits [of e "view w"] by (simp_all add: base_def)

named_theorems evs \<open>operations as evolutions\<close>

section \<open>Scheduler\<close>

lemma a_pub_ops [simp]:
  "a_pub (a_park c a) = a_pub a" "a_pub (a_resident k i a) = a_pub a" "a_pub (a_switch k i a) = a_pub a"
  "a_pub (a_schedule_out e k a) = a_pub a" "a_pub (a_yield e k a) = a_pub a" "a_pub (a_seed k i a) = a_pub a"
  "a_pub (a_end a) = a_pub a"
  by (simp_all add: a_park_def a_resident_def a_switch_def a_schedule_out_def a_yield_def a_seed_def a_end_def Let_def
      split: option.splits)

text \<open>The common shape: an operation that leaves the published power alone.\<close>

lemma evolves_silent:
  assumes "setting n e quiet good" "base n e good w" "VcpuWorld.more w' = VcpuWorld.more w" "shape n w' = shape n w"
    and "power_ok e (view w')" "a_pub (view w') = a_pub (view w)"
    and "\<And>P. eoi_closed e P \<Longrightarrow> P (w_dev w) \<Longrightarrow> P (w_dev w')"
  shows "evolves n e quiet good V w w'"
proof (rule evolves_vcpu [OF assms(2,3)])
  note c = peers_closed [OF settingD(2) [OF assms(1)]]
  show "good (w_dev w')" by (rule assms(7) [OF c(1)]) (rule baseD(4) [OF assms(2)])
  show "quiet vm (w_dev w')" if "quiet vm (w_dev w)" for vm using assms(7) [of "\<lambda>d. good d \<and> quiet vm d", OF c(2)] baseD(4) [OF assms(2)] that by blast
qed (use assms baseD(1) [OF assms(2)] in simp_all)

lemma ev_out [evs]:
  assumes "setting n e quiet good" "base n e good w" "k < n"
  shows "evolves n e quiet good V w (schedule_out e k w)"
  by (rule evolves_silent [OF assms(1,2)])
    (use baseD [OF assms(2)] assms(3) in \<open>simp_all add: view_schedule_out [where n = n] power_schedule_out dev_out\<close>)

lemma ev_yield [evs]:
  assumes "setting n e quiet good" "base n e good w" "k < n"
  shows "evolves n e quiet good V w (yield_current e k w)"
  by (rule evolves_silent [OF assms(1,2)])
    (use baseD [OF assms(2)] assms(3) in \<open>simp_all add: view_yield [where n = n] power_yield dev_out\<close>)

lemma ev_block [evs]:
  assumes "setting n e quiet good" "base n e good w" "k < n" "cur w k = Some c"
  shows "evolves n e quiet good V w (block_current e k c w)"
proof -
  note b = baseD [OF assms(2)]
  have c: "a_cur (view w) k = Some c" using view_at(2) [OF b(1) assms(3)] assms(4) by simp
  have m: "c < kMaxVcpus" using power_okD(1) [OF b(2) c] valid_slot_less by blast
  show ?thesis
    by (rule evolves_silent [OF assms(1,2)])
      (use b assms(3) c m power_block [OF b(2) c] in \<open>simp_all add: view_block [where n = n] power_schedule_out dev_sched\<close>)
qed

lemma ev_wake [evs]:
  assumes "setting n e quiet good" "base n e good w"
  shows "evolves n e quiet good V w (wake e k c w)"
  by (rule evolves_silent [OF assms]) (use baseD [OF assms(2)] in \<open>simp_all add: view_wake [where n = n] power_wake\<close>)

lemma ev_resched [evs]:
  assumes "setting n e quiet good" "base n e good w"
  shows "evolves n e quiet good V w (reschedule_slice e k w)" "evolves n e quiet good V w (sync_resident e k w)"
    "evolves n e quiet good V w (arm_timer j sl dl cb a w)" "evolves n e quiet good V w (cancel_timer j sl w)"
    "evolves n e quiet good V w (upd_hw j h w)" "evolves n e quiet good V w (w\<lparr>w_panic := b\<rparr>)"
    "evolves n e quiet good V w (w\<lparr>w_vgic := g\<rparr>)"
  by (rule evolves_silent [OF assms]; use baseD [OF assms(2)] in simp)+

lemma power_alive_trans: "power_ok e (a\<lparr>a_trans := x\<rparr>) = power_ok e a"
  by simp

lemma ev_counters [evs]:
  assumes "setting n e quiet good" "base n e good w"
  shows "evolves n e quiet good V w (begin_lifecycle_transition w)" "evolves n e quiet good V w (end_lifecycle_transition w)"
  by (rule evolves_silent [OF assms]; use baseD [OF assms(2)] in simp)+

lemma ev_retire_sched [evs]:
  assumes "setting n e quiet good" "base n e good w" "k < n"
  shows "evolves n e quiet good V w (schedule_after_retire e k b w)"
  unfolding schedule_after_retire_def
  by (intro if_both [where P = "evolves n e quiet good V w"] evolves_refl [OF assms(2)] ev_resched [OF assms(1,2)] ev_out [OF assms])

lemma ev_if [evs]:
  assumes "setting n e quiet good" "base n e good w" "k < n"
  shows "evolves n e quiet good V w (schedule_if b e k l w)"
  unfolding schedule_if_def
  by (intro if_both [where P = "evolves n e quiet good V w"] evolves_refl [OF assms(2)] ev_retire_sched [OF assms])

lemma ev_slice [evs]:
  assumes "setting n e quiet good" "base n e good w" "k < n"
  shows "evolves n e quiet good V w (on_slice e k w)"
  unfolding on_slice_def
  by (rule evolves_trans [OF ev_yield [OF assms]]) (rule ev_resched(1) [OF assms(1) evolves_base [OF ev_yield [OF assms]]])

lemma ev_fp [evs]:
  assumes "setting n e quiet good" "base n e good w" "k < n" "cur w k = Some c"
  shows "evolves n e quiet good V w (handle_fp_simd e k c w)"
proof -
  note b = baseD [OF assms(2)]
  have c: "a_cur (view w) k = Some c" using view_at(2) [OF b(1) assms(3)] assms(4) by simp
  show ?thesis
    by (rule evolves_silent [OF assms(1,2)]) (use b assms(3) power_own [OF b(2) c] in \<open>simp_all add: view_fp [where n = n]\<close>)
qed

section \<open>Power\<close>

text \<open>The common shape of a power operation: it acts on the view and may publish vCPUs of the VMs of \<open>V\<close> only.\<close>

lemma evolves_power:
  assumes "base n e good w" "VcpuWorld.more w' = VcpuWorld.more w" "shape n w'" "w_dev w' = w_dev w"
    and "view w' = a" "power_ok e a" "\<And>s. vm_of s \<notin> V \<Longrightarrow> a_pub (view w) s = PwOff \<Longrightarrow> a_pub a s = PwOff"
  shows "evolves n e quiet good V w w'"
  by (rule evolves_dev_same) (use assms in simp_all)

lemma off_cancel: "a_pub a s = PwOff \<Longrightarrow> a_pub (a_cancel e i a) s = PwOff"
  by (simp add: a_cancel_def)

lemma off_retire: "a_pub a s = PwOff \<Longrightarrow> a_pub (a_retire e k i a) s = PwOff"
  by (auto simp: a_retire_def a_cancel_def a_down_def)

lemma off_others: "i \<noteq> s \<Longrightarrow> a_pub (a_reserve i a) s = a_pub a s" "i \<noteq> s \<Longrightarrow> a_pub (a_up i a) s = a_pub a s"
  by (simp_all add: a_reserve_def a_up_def)

lemma st_seed [simp]: "a_st (a_seed k i a) = a_st a"
  by (simp add: a_seed_def)

lemma power_vcpu_up: "power_ok e a \<Longrightarrow> \<not> vcpu_refused e k i a \<Longrightarrow> power_ok e (a_end (a_up i (a_seed k i a)))"
  unfolding power_end by (rule power_up [OF power_seed]) (simp_all add: vcpu_refused_def)

lemma ev_cancel [evs]:
  assumes "setting n e quiet good" "base n e good w"
  shows "evolves n e quiet good V w (cancel_start e i w)"
  by (rule evolves_power [OF assms(2) _ _ _ view_cancel power_cancel off_cancel]) (use baseD [OF assms(2)] in simp_all)

lemma ev_retire [evs]:
  assumes "setting n e quiet good" "base n e good w"
  shows "evolves n e quiet good V w (snd (retire_vcpu e k i w))"
  by (rule evolves_power [OF assms(2) _ _ _ view_retire power_retire off_retire])
    (use baseD [OF assms(2)] settingD(1) [OF assms(1)] in simp_all)

lemma ev_reserve [evs]:
  assumes "setting n e quiet good" "base n e good w" "vm_of i \<in> V"
  shows "evolves n e quiet good V w (snd (reserve_start e i w))"
proof (rule evolves_power [OF assms(2) _ _ _ view_reserve(1)])
  note b = baseD [OF assms(2)]
  show "power_ok e (if valid_slot e i \<and> a_pub (view w) i = PwOff then a_reserve i (view w) else view w)"
    using b(2) power_reserve [OF b(2), of i] by (simp split: if_split)
  show "a_pub (if valid_slot e i \<and> a_pub (view w) i = PwOff then a_reserve i (view w) else view w) s = PwOff"
    if "vm_of s \<notin> V" "a_pub (view w) s = PwOff" for s
    using that assms(3) off_others(1) [of i s "view w"] by (cases "i = s") simp_all
qed (use baseD [OF assms(2)] in simp_all)

lemma ev_start_vcpu [evs]:
  assumes "setting n e quiet good" "base n e good w" "vm_of i \<in> V"
  shows "evolves n e quiet good V w (snd (start_vcpu e k i en ct w))"
proof (rule evolves_power [OF assms(2) _ _ _ view_start_vcpu(1)])
  note b = baseD [OF assms(2)]
  let ?a = "view w"
  show "power_ok e (if vcpu_refused e k i ?a then a_cancel e i ?a else a_end (a_up i (a_seed k i ?a)))"
    by (cases "vcpu_refused e k i ?a") (simp_all only: if_True if_False power_cancel [OF b(2)] power_vcpu_up [OF b(2)] simp_thms)
  show "a_pub (if vcpu_refused e k i ?a then a_cancel e i ?a else a_end (a_up i (a_seed k i ?a))) s = PwOff"
    if "vm_of s \<notin> V" "a_pub ?a s = PwOff" for s
    using that assms(3) off_others(2) [of i s "a_seed k i ?a"] off_cancel [of ?a s e i] by (cases "i = s") simp_all
qed (use baseD [OF assms(2)] settingD(1) [OF assms(1)] in simp_all)

section \<open>Mailbox and virtual interrupts\<close>

lemma view_smp [simp]:
  "view (w\<lparr>w_mail := m\<rparr>) = view w" "view (w\<lparr>w_reevaluate := r\<rparr>) = view w" "view (w\<lparr>w_sgi := g\<rparr>) = view w"
  "view (w\<lparr>w_lifecycle := l\<rparr>) = view w" "view (w\<lparr>w_token := t\<rparr>) = view w" "view (w\<lparr>w_mode := md\<rparr>) = view w"
  "view (w\<lparr>w_dma_pending := p\<rparr>) = view w" "view (w\<lparr>w_dma_failed := p\<rparr>) = view w"
  "view (w\<lparr>w_armed_generation := x\<rparr>) = view w" "view (w\<lparr>w_armed_sequence := x\<rparr>) = view w"
  "view (w\<lparr>w_update_sequence := x\<rparr>) = view w" "view (w\<lparr>w_legacy := y\<rparr>) = view w"
  by (simp_all add: view_def cong: if_cong)

lemma shape_smp [simp]:
  "shape n (w\<lparr>w_mail := m\<rparr>) = shape n w" "shape n (w\<lparr>w_reevaluate := r\<rparr>) = shape n w" "shape n (w\<lparr>w_sgi := g\<rparr>) = shape n w"
  "shape n (w\<lparr>w_lifecycle := l\<rparr>) = shape n w" "shape n (w\<lparr>w_token := t\<rparr>) = shape n w" "shape n (w\<lparr>w_mode := md\<rparr>) = shape n w"
  "shape n (w\<lparr>w_dma_pending := p\<rparr>) = shape n w" "shape n (w\<lparr>w_dma_failed := p\<rparr>) = shape n w"
  "shape n (w\<lparr>w_armed_generation := x\<rparr>) = shape n w" "shape n (w\<lparr>w_armed_sequence := x\<rparr>) = shape n w"
  "shape n (w\<lparr>w_update_sequence := x\<rparr>) = shape n w" "shape n (w\<lparr>w_legacy := y\<rparr>) = shape n w"
  by (simp_all add: shape_def)

text \<open>Fields nobody's protocol reads.\<close>

lemma ev_fields [evs]:
  assumes "base n e good w"
  shows "evolves n e quiet good V w (w\<lparr>w_reevaluate := r\<rparr>)" "evolves n e quiet good V w (w\<lparr>w_sgi := g\<rparr>)"
    "evolves n e quiet good V w (w\<lparr>w_mode := md\<rparr>)" "evolves n e quiet good V w (w\<lparr>w_armed_generation := x\<rparr>)"
    "evolves n e quiet good V w (w\<lparr>w_armed_sequence := x\<rparr>)" "evolves n e quiet good V w (w\<lparr>w_update_sequence := x\<rparr>)"
    "evolves n e quiet good V w (w\<lparr>w_legacy := y\<rparr>)"
  using assms by (simp_all add: evolves_def base_def boxes_ok_def coord_def msgs_def)

lemma enqueue_cases:
  obtains (refused) "enqueue t r l w = (False, w)"
  | (sent) "t < length (w_online w)" "w_online w ! t" "length (w_mail w ! t) < kMailboxCapacity"
      "enqueue t r l w = (True, w\<lparr>w_mail := (w_mail w)[t := w_mail w ! t @ [r]], w_sgi := (w_sgi w)[t := True]\<rparr>)"
proof (cases "fst (enqueue t r l w)")
  case True
  then have "t < length (w_online w)" "w_online w ! t" "length (w_mail w ! t) < kMailboxCapacity"
      "enqueue t r l w = (True, w\<lparr>w_mail := (w_mail w)[t := w_mail w ! t @ [r]], w_sgi := (w_sgi w)[t := True]\<rparr>)"
    by (auto simp: enqueue_def Let_def send_sgi_def kMailboxCapacity_def split: if_splits)
  then show ?thesis by (rule sent)
next
  case False
  then have "enqueue t r l w = (False, w)" by (auto simp: enqueue_def Let_def split: if_splits)
  then show ?thesis by (rule refused)
qed

lemma base_mail:
  assumes "base n e good w" "t < n" "length (w_mail w ! t) < kMailboxCapacity"
  shows "base n e good (w\<lparr>w_mail := (w_mail w)[t := w_mail w ! t @ [r]], w_sgi := g\<rparr>)"
  using assms by (simp add: base_def boxes_ok_def nth_list_update)

lemma msgs_mail: "t < length (w_mail w) \<Longrightarrow>
    msgs (w\<lparr>w_mail := (w_mail w)[t := w_mail w ! t @ [r]], w_sgi := g\<rparr>) = insert (t, r) (msgs w)"
  by (auto simp: msgs_def nth_list_update split: if_splits)

lemma ev_enqueue [evs]:
  assumes "base n e good w" "\<not> quiesce_msg r"
  shows "evolves n e quiet good V w (snd (enqueue t r l w))"
proof (cases rule: enqueue_cases [of t r l w])
  case sent
  then have t: "t < n" "t < length (w_mail w)" using assms(1) by (simp_all add: base_def boxes_ok_def)
  show ?thesis unfolding sent(4) snd_conv evolves_def msgs_mail [OF t(2)]
    using base_mail [OF assms(1) t(1) sent(3)] assms(2) by (auto simp: coord_def)
qed (simp add: evolves_refl assms(1))

lemma ev_deliver [evs]:
  assumes "setting n e quiet good" "base n e good w"
  shows "evolves n e quiet good V w (deliver_eois e ev w)"
  by (rule evolves_silent [OF assms]) (use baseD [OF assms(2)] in \<open>simp_all add: dev_deliver\<close>)

text \<open>Setting the virtual GIC aside, then possibly waking a vCPU.\<close>

lemma ev_vgic_wake:
  assumes "setting n e quiet good" "base n e good w"
  shows "evolves n e quiet good V w (if b then wake e k c (w\<lparr>w_vgic := g\<rparr>) else w\<lparr>w_vgic := g\<rparr>)"
proof -
  note g = ev_resched(7) [OF assms, where g = g]
  show ?thesis by (simp add: g evolves_trans [OF g ev_wake [OF assms(1) evolves_base [OF g]]])
qed

lemma ev_vcpu_reevaluate [evs]:
  assumes "setting n e quiet good" "base n e good w"
  shows "evolves n e quiet good V w (vcpu_reevaluate_virq e k i w)"
  using evolves_refl [OF assms(2)] ev_vgic_wake [OF assms] unfolding vcpu_reevaluate_virq_def Let_def
  by (simp split: prod.split)

lemma ev_reevaluate [evs]:
  assumes "setting n e quiet good" "base n e good w"
  shows "evolves n e quiet good V w (reevaluate_virq e k i w)"
proof -
  have r: "evolves n e quiet good V w (w\<lparr>w_reevaluate := r\<rparr>)" for r by (rule ev_fields [OF assms(2)])
  have s: "evolves n e quiet good V w (send_sgi o' (w\<lparr>w_reevaluate := r\<rparr>))" for o' r
    unfolding send_sgi_def by (rule evolves_trans [OF r ev_fields(2) [OF evolves_base [OF r]]])
  show ?thesis using evolves_refl [OF assms(2)] ev_vcpu_reevaluate [OF assms] r s
    unfolding reevaluate_virq_def Let_def by (simp split: if_split)
qed

lemma evolves_fold:
  assumes "base n e good w" "\<And>x w. x \<in> set xs \<Longrightarrow> base n e good w \<Longrightarrow> evolves n e quiet good V w (f x w)"
  shows "evolves n e quiet good V w (fold f xs w)"
  using assms
proof (induction xs arbitrary: w)
  case (Cons x xs)
  have f: "evolves n e quiet good V w (f x w)" using Cons.prems by simp
  have "evolves n e quiet good V (f x w) (fold f xs (f x w))"
    by (rule Cons.IH [OF evolves_base [OF f]]) (use Cons.prems(2) in simp)
  then show ?case using evolves_trans [OF f] by simp
qed (simp add: evolves_refl)

lemma ev_events [evs]:
  assumes "setting n e quiet good" "base n e good w"
  shows "evolves n e quiet good V w (handle_virq_reevaluate e k ev w)"
  unfolding handle_virq_reevaluate_def
  by (rule evolves_fold [OF assms(2)]) (simp split: VgicEvent.split add: ev_reevaluate [OF assms(1)] ev_deliver [OF assms(1)])

lemma ev_vcpu_post [evs]:
  assumes "setting n e quiet good" "base n e good w"
  shows "evolves n e quiet good V w (snd (vcpu_post_virq e k i v w))"
proof -
  have g: "evolves n e quiet good V w (w\<lparr>w_vgic := g\<rparr>)" for g by (rule ev_resched(7) [OF assms])
  have h: "evolves n e quiet good V w (handle_virq_reevaluate e k ev (w\<lparr>w_vgic := g\<rparr>))" for ev g
    by (rule evolves_trans [OF g ev_events [OF assms(1) evolves_base [OF g]]])
  have k: "evolves n e quiet good V w (wake e k c (w\<lparr>w_vgic := g2\<rparr>))" for c g2
    using ev_vgic_wake [OF assms, where b = True and g = g2] by simp
  show ?thesis using evolves_refl [OF assms(2)] g h k unfolding vcpu_post_virq_def Let_def
    by (simp split: prod.split if_split)
qed

lemma ev_post [evs]:
  assumes "setting n e quiet good" "base n e good w"
  shows "evolves n e quiet good V w (snd (post_virq e k i v w))"
  unfolding post_virq_def
  using evolves_refl [OF assms(2)] ev_vcpu_post [OF assms] ev_enqueue [OF assms(2), of "req OpPostVirq i (of_nat v) 0"]
  by (simp add: quiesce_msg_def req_def)

section \<open>DMA calls\<close>

lemma evolves_dev:
  assumes "base n e good w" "good d" "\<And>vm. vm \<notin> V \<Longrightarrow> quiet vm (w_dev w) \<Longrightarrow> quiet vm d"
  shows "evolves n e quiet good V w (w\<lparr>w_dev := d\<rparr>)"
proof (rule evolves_vcpu [OF assms(1)])
  have v: "view (w\<lparr>w_dev := d\<rparr>) = view w" "shape n (w\<lparr>w_dev := d\<rparr>) = shape n w"
    by (simp_all add: view_def shape_def cong: if_cong)
  show "shape n (w\<lparr>w_dev := d\<rparr>)" "power_ok e (view (w\<lparr>w_dev := d\<rparr>))" using baseD [OF assms(1)] v by simp_all
  show "a_pub (view (w\<lparr>w_dev := d\<rparr>)) s = PwOff" if "a_pub (view w) s = PwOff" for s using that v by simp
qed (use assms in simp_all)

lemma ev_dma:
  assumes "setting n e quiet good" "base n e good w" "op = DqResume \<longrightarrow> vm \<in> V"
  shows "evolves n e quiet good V w (snd (dma_quiesce e op vm g w))"
proof -
  note p = peers_okD(8,4) [OF settingD(2) [OF assms(1)]]
  have "snd (dma_quiesce e op vm g w) = w\<lparr>w_dev := snd (pr_dma (en_peers e) op vm g (w_dev w))\<rparr>"
    by (simp add: dma_quiesce_def split: prod.split)
  moreover have "evolves n e quiet good V w (w\<lparr>w_dev := snd (pr_dma (en_peers e) op vm g (w_dev w))\<rparr>)"
  proof (rule evolves_dev [OF assms(2)])
    show "good (snd (pr_dma (en_peers e) op vm g (w_dev w)))" by (rule p(1) [OF baseD(4) [OF assms(2)]])
    show "quiet x (snd (pr_dma (en_peers e) op vm g (w_dev w)))" if "x \<notin> V" "quiet x (w_dev w)" for x
      by (rule p(2) [OF baseD(4) [OF assms(2)] that(2)]) (use that(1) assms(3) in auto)
  qed
  ultimately show ?thesis by simp
qed

lemma ev_dmas [evs]:
  assumes "setting n e quiet good" "base n e good w"
  shows "evolves n e quiet good V w (snd (dma_begin_quiesce e vm w))" "evolves n e quiet good V w (snd (dma_poll_quiesce e vm w))"
    "evolves n e quiet good V w (snd (dma_can_start e vm w))"
    "vm \<in> V \<Longrightarrow> evolves n e quiet good V w (snd (dma_resume_vm e vm g w))"
  unfolding dma_begin_quiesce_def dma_poll_quiesce_def dma_can_start_def dma_resume_vm_def
  using ev_dma [OF assms, of DqBegin] ev_dma [OF assms, of DqPoll] ev_dma [OF assms, of DqCanStart] ev_dma [OF assms, of DqResume]
  by (simp_all add: case_prod_unfold Let_def)

text \<open>A drain reported complete leaves the VM quiet.\<close>

lemma dma_complete:
  assumes "setting n e quiet good" "good (w_dev w)"
  shows "fst (dma_begin_quiesce e vm w) = DqComplete \<Longrightarrow> quiet vm (w_dev (snd (dma_begin_quiesce e vm w)))"
    "fst (dma_poll_quiesce e vm w) = DqComplete \<Longrightarrow> quiet vm (w_dev (snd (dma_poll_quiesce e vm w)))"
  using peers_okD(5) [OF settingD(2) [OF assms(1)] assms(2), of DqBegin vm 0]
    peers_okD(5) [OF settingD(2) [OF assms(1)] assms(2), of DqPoll vm 0]
  by (auto simp: dma_begin_quiesce_def dma_poll_quiesce_def dma_quiesce_def split: prod.splits)

section \<open>Starts\<close>

lemma vm_of_boot [simp]: "vm_of (slot_of vm 0) = vm"
  by (simp add: vm_of_def slot_of_def kMaxVcpusPerVm_def)

lemma pub_seed [simp]: "a_pub (a_seed k i a) = a_pub a"
  by (simp add: a_seed_def)

lemma ev_prepare_start [evs]:
  assumes "setting n e quiet good" "base n e good w"
  shows "evolves n e quiet good V w (snd (prepare_start_vm e k vm w))"
proof (rule evolves_vcpu [OF assms(2)])
  note b = baseD [OF assms(2)] and c = settingD(1) [OF assms(1)] and p = peers_okD [OF settingD(2) [OF assms(1)]]
  have d: "w_dev (snd (prepare_start_vm e k vm w)) = w_dev w
      \<or> w_dev (snd (prepare_start_vm e k vm w)) = pr_vm_reset (en_peers e) vm (w_dev w)"
    by (simp add: prepare_start_vm_def Let_def reset_vm_devices_def)
  show "good (w_dev (snd (prepare_start_vm e k vm w)))" using d b(4) p(7) by metis
  show "quiet x (w_dev (snd (prepare_start_vm e k vm w)))" if "quiet x (w_dev w)" for x using d that p(2) [OF b(4)] by metis
  show "power_ok e (view (snd (prepare_start_vm e k vm w)))"
    unfolding view_prepare_start(1) [OF b(1) c] by (rule if_both) (rule power_cancel [OF b(2)], rule power_seed [OF b(2)])
  show "a_pub (view (snd (prepare_start_vm e k vm w))) s = PwOff" if "a_pub (view w) s = PwOff" for s
    unfolding view_prepare_start(1) [OF b(1) c] using that off_cancel [OF that, of e "slot_of vm 0"] by simp
qed (use baseD [OF assms(2)] in simp_all)

lemma ev_publish_start [evs]:
  assumes "setting n e quiet good" "base n e good w" "vm \<in> V"
  shows "evolves n e quiet good V w (snd (publish_start_vm e k vm g w))"
proof (rule evolves_power [OF assms(2) _ _ _ view_publish_start(1)])
  note b = baseD [OF assms(2)] and c = settingD(1) [OF assms(1)]
  let ?ok = "fst (publish_start_vm e k vm g w)"
  have u: "?ok \<Longrightarrow> valid_slot e (slot_of vm 0) \<and> a_st (view w) (slot_of vm 0) = StOff"
    using view_publish_start(2) [OF b(1) c, of k vm g] cfg_boot(1) [OF c, of vm] by (simp add: start_refused_def)
  show "power_ok e (if ?ok then a_end (a_up (slot_of vm 0) (view w)) else a_cancel e (slot_of vm 0) (view w))"
    using u power_cancel [OF b(2)] by (simp add: power_up [OF b(2)])
  show "a_pub (if ?ok then a_end (a_up (slot_of vm 0) (view w)) else a_cancel e (slot_of vm 0) (view w)) s = PwOff"
    if "vm_of s \<notin> V" "a_pub (view w) s = PwOff" for s
    using that assms(3) off_others(2) [of "slot_of vm 0" s "view w"] off_cancel [OF that(2), of e "slot_of vm 0"]
    by (cases "slot_of vm 0 = s") auto
qed (use baseD [OF assms(2)] settingD(1) [OF assms(1)] in simp_all)

lemma ev_start_local [evs]:
  assumes "setting n e quiet good" "base n e good w" "vm \<in> V"
  shows "evolves n e quiet good V w (snd (start_vm_local e k vm w))"
proof -
  let ?p = "prepare_start_vm e k vm w" let ?d = "dma_resume_vm e vm (fst ?p) (snd ?p)"
  let ?s = "publish_start_vm e k vm (fst ?p) (snd ?d)"
  note 1 = ev_prepare_start [OF assms(1,2), where V = V]
  note 2 = evolves_trans [OF 1 ev_dmas(4) [OF assms(1) evolves_base [OF 1] assms(3)]]
  note 3 = evolves_trans [OF 2 ev_publish_start [OF assms(1) evolves_base [OF 2] assms(3)]]
  note c = evolves_trans [OF 2 ev_cancel [OF assms(1) evolves_base [OF 2]]]
  note q = evolves_trans [OF 3 ev_dmas(1) [OF assms(1) evolves_base [OF 3]]]
  show ?thesis unfolding start_vm_local_def by (simp add: case_prod_unfold Let_def 1 3 c q)
qed

lemma ev_start [evs]:
  assumes "setting n e quiet good" "base n e good w" "vm \<in> V"
  shows "evolves n e quiet good V w (snd (start_vm e k vm w))"
proof -
  let ?a = "snd (dma_can_start e vm w)" let ?r = "snd (reserve_start e (slot_of vm 0) ?a)"
  note 1 = ev_dmas(3) [OF assms(1,2), where V = V and vm = vm]
  note 2 = evolves_trans [OF 1 ev_reserve [OF assms(1) evolves_base [OF 1], where i = "slot_of vm 0", simplified, OF assms(3)]]
  note c = evolves_trans [OF 2 ev_cancel [OF assms(1) evolves_base [OF 2]]]
  note l = evolves_trans [OF 2 ev_start_local [OF assms(1) evolves_base [OF 2] assms(3)]]
  have m: "evolves n e quiet good V w (snd (enqueue t (req OpStartVm vm 0 0) False ?r))" for t
    by (rule evolves_trans [OF 2 ev_enqueue [OF evolves_base [OF 2]]]) (simp add: quiesce_msg_def req_def)
  note mc = evolves_trans [OF m ev_cancel [OF assms(1) evolves_base [OF m]]]
  show ?thesis unfolding start_vm_def by (simp add: case_prod_unfold Let_def evolves_refl [OF assms(2)] 1 2 c l m mc)
qed

lemma ev_cpu_on [evs]:
  assumes "setting n e quiet good" "base n e good w" "vm_of i \<in> V"
  shows "evolves n e quiet good V w (snd (cpu_on e k i en ct w))"
proof -
  let ?r = "snd (reserve_start e i w)"
  note 1 = ev_reserve [OF assms]
  note c = evolves_trans [OF 1 ev_cancel [OF assms(1) evolves_base [OF 1]]]
  note s = evolves_trans [OF 1 ev_start_vcpu [OF assms(1) evolves_base [OF 1] assms(3)]]
  have m: "evolves n e quiet good V w (snd (enqueue t (req OpCpuOn i en ct) False ?r))" for t
    by (rule evolves_trans [OF 1 ev_enqueue [OF evolves_base [OF 1]]]) (simp add: quiesce_msg_def req_def)
  note mc = evolves_trans [OF m ev_cancel [OF assms(1) evolves_base [OF m]]]
  show ?thesis unfolding cpu_on_def by (simp add: case_prod_unfold Let_def evolves_refl [OF assms(2)] 1 c s m mc)
qed

section \<open>The restore of a quiet VM\<close>

lemma ev_prepare_reset:
  assumes "setting n e quiet good" "base n e good w" "quiet vm (w_dev w)"
  shows "evolves n e quiet good V w (snd (prepare_reset_quiesced_vm e k vm w))"
proof (rule evolves_vcpu [OF assms(2)])
  note b = baseD [OF assms(2)] and c = settingD(1) [OF assms(1)] and p = peers_okD [OF settingD(2) [OF assms(1)]]
  let ?w = "snd (prepare_reset_quiesced_vm e k vm w)"
  have d: "w_dev ?w = w_dev w \<or> w_dev ?w = pr_vm_reset (en_peers e) vm (pr_reload (en_peers e) vm (w_dev w))"
    by (simp add: prepare_reset_quiesced_vm_def Let_def reset_vm_devices_def split: prod.split)
  show "good (w_dev ?w)" using d b(4) p(7) p(9) [OF b(4) assms(3)] by metis
  show "quiet x (w_dev ?w)" if "quiet x (w_dev w)" for x using d that p(2) p(3) [OF b(4)] p(7) p(9) [OF b(4) assms(3)] by metis
  show "power_ok e (view ?w)"
    unfolding view_prepare_reset(1) [OF b(1) c] by (rule if_both) (rule b(2), rule power_seed [OF b(2)])
  show "a_pub (view ?w) s = PwOff" if "a_pub (view w) s = PwOff" for s
    unfolding view_prepare_reset(1) [OF b(1) c] using that by (simp add: if_distrib)
qed (use baseD [OF assms(2)] in simp_all)

lemma ev_publish_reset:
  assumes "setting n e quiet good" "base n e good w" "vm \<in> V"
  shows "evolves n e quiet good V w (snd (publish_reset_vm e k vm g w))"
proof (rule evolves_power [OF assms(2) _ _ _ view_publish_reset(1)])
  note b = baseD [OF assms(2)] and c = settingD(1) [OF assms(1)]
  let ?ok = "fst (publish_reset_vm e k vm g w)"
  have u: "?ok \<Longrightarrow> valid_slot e (slot_of vm 0) \<and> a_st (view w) (slot_of vm 0) = StOff"
    using view_publish_reset(2) [OF b(1) c, of k vm g] cfg_boot(1) [OF c, of vm] by simp
  show "power_ok e (if ?ok then a_up (slot_of vm 0) (view w) else view w)"
    using u b(2) by (simp add: power_up [OF b(2)])
  show "a_pub (if ?ok then a_up (slot_of vm 0) (view w) else view w) s = PwOff"
    if "vm_of s \<notin> V" "a_pub (view w) s = PwOff" for s
    using that assms(3) off_others(2) [of "slot_of vm 0" s "view w"] by (cases "slot_of vm 0 = s") auto
qed (use baseD [OF assms(2)] settingD(1) [OF assms(1)] in simp_all)

lemma ev_restore:
  assumes "setting n e quiet good" "base n e good w" "quiet vm (w_dev w)" "vm \<in> V"
  shows "evolves n e quiet good V w (restore_and_restart e k vm w)"
proof -
  let ?p = "prepare_reset_quiesced_vm e k vm w" let ?d = "dma_resume_vm e vm (fst ?p) (snd ?p)"
  note 1 = ev_prepare_reset [OF assms(1-3), where V = V]
  note 2 = evolves_trans [OF 1 ev_dmas(4) [OF assms(1) evolves_base [OF 1] assms(4)]]
  note 3 = evolves_trans [OF 2 ev_publish_reset [OF assms(1) evolves_base [OF 2] assms(4)]]
  note q = evolves_trans [OF 3 ev_dmas(1) [OF assms(1) evolves_base [OF 3]]]
  show ?thesis unfolding restore_and_restart_def by (simp add: case_prod_unfold Let_def 1 2 3 q)
qed

end
