(* ===== verification/NovaSmpProto.thy ===== *)
theory NovaSmpProto
  imports NovaSmpEvolve NovaSmpRun
begin

text \<open>
  The protocol invariant of the lifecycle coordinator: while the tracker of a VM is
  active its token is the epoch, every vCPU that is not off still has its pending
  bit, an acknowledgement of the epoch in flight names a vCPU that is off, and once
  the drain is neither pending nor failed the VM's DMA is quiet. Every operation of
  the coordinator and every message handler keeps it.
\<close>

section \<open>The invariant\<close>

definition vm_proto :: "'d Env \<Rightarrow> (nat \<Rightarrow> 'd \<Rightarrow> bool) \<Rightarrow> (nat \<times> Request) set \<Rightarrow> nat \<Rightarrow> ('d, 'z) SmpWorld_scheme \<Rightarrow> bool" where
  "vm_proto e quiet M vm w \<longleftrightarrow> (let t = w_lifecycle w ! vm; tok = lifecycle_token vm w in
     (qt_active t \<longrightarrow> tok = qt_epoch t \<and> qt_epoch t \<noteq> 0) \<and> qt_epoch t \<noteq> kUnpublishedEpoch
   \<and> (tok = kLifecycleInactive \<or> tok = kLifecycleReserved \<or> tok = qt_epoch t)
   \<and> (qt_active t \<longrightarrow> (\<forall>v < guest_vcpus e vm. a_pub (view w) (slot_of vm v) \<noteq> PwOff \<longrightarrow> bit (qt_pending_mask t) v))
   \<and> (qt_active t \<and> \<not> w_dma_pending w ! vm \<and> \<not> w_dma_failed w ! vm \<longrightarrow> quiet vm (w_dev w))
   \<and> (\<forall>k m. (k, m) \<in> M \<and> quiesce_msg m \<and> vm_of (rq_idx m) = vm \<longrightarrow> unat (rq_a m) \<le> unat (qt_epoch t)
        \<and> (rq_op m = OpQuiesceAck \<and> qt_active t \<and> rq_a m = qt_epoch t \<longrightarrow> a_pub (view w) (rq_idx m) = PwOff)))"

definition msgs_ok :: "'d Env \<Rightarrow> (nat \<times> Request) set \<Rightarrow> bool" where
  "msgs_ok e M \<longleftrightarrow> (\<forall>k m. (k, m) \<in> M \<and> quiesce_msg m \<longrightarrow> valid_slot e (rq_idx m)
     \<and> (rq_op m = OpQuiesceVcpu \<longrightarrow> affinity e (rq_idx m) = k))"

text \<open>\<open>B\<close> holds messages taken out of a mailbox and not yet run.\<close>

definition proto :: "'d Env \<Rightarrow> (nat \<Rightarrow> 'd \<Rightarrow> bool) \<Rightarrow> (nat \<times> Request) set \<Rightarrow> ('d, 'z) SmpWorld_scheme \<Rightarrow> bool" where
  "proto e quiet B w \<longleftrightarrow> msgs_ok e (msgs w \<union> B) \<and> (\<forall>vm < length (en_guests e). vm_proto e quiet (msgs w \<union> B) vm w)"

definition safe ::
  "nat \<Rightarrow> 'd Env \<Rightarrow> (nat \<Rightarrow> 'd \<Rightarrow> bool) \<Rightarrow> ('d \<Rightarrow> bool) \<Rightarrow> (nat \<times> Request) set \<Rightarrow> ('d, 'z) SmpWorld_scheme \<Rightarrow> bool" where
  "safe n e quiet good B w \<longleftrightarrow> base n e good w \<and> proto e quiet B w"

lemma safeD: "safe n e quiet good B w \<Longrightarrow> base n e good w" "safe n e quiet good B w \<Longrightarrow> proto e quiet B w"
  by (simp_all add: safe_def)

lemma vm_protoD:
  assumes "vm_proto e quiet M vm w"
  shows "qt_active (w_lifecycle w ! vm) \<Longrightarrow> lifecycle_token vm w = qt_epoch (w_lifecycle w ! vm)"
    "qt_active (w_lifecycle w ! vm) \<Longrightarrow> qt_epoch (w_lifecycle w ! vm) \<noteq> 0"
    "qt_epoch (w_lifecycle w ! vm) \<noteq> kUnpublishedEpoch"
    "lifecycle_token vm w = kLifecycleInactive \<or> lifecycle_token vm w = kLifecycleReserved \<or> lifecycle_token vm w = qt_epoch (w_lifecycle w ! vm)"
    "qt_active (w_lifecycle w ! vm) \<Longrightarrow> v < guest_vcpus e vm \<Longrightarrow> a_pub (view w) (slot_of vm v) \<noteq> PwOff \<Longrightarrow>
       bit (qt_pending_mask (w_lifecycle w ! vm)) v"
    "qt_active (w_lifecycle w ! vm) \<Longrightarrow> \<not> w_dma_pending w ! vm \<Longrightarrow> \<not> w_dma_failed w ! vm \<Longrightarrow> quiet vm (w_dev w)"
    "(k, m) \<in> M \<Longrightarrow> quiesce_msg m \<Longrightarrow> vm_of (rq_idx m) = vm \<Longrightarrow> unat (rq_a m) \<le> unat (qt_epoch (w_lifecycle w ! vm))"
    "(k, m) \<in> M \<Longrightarrow> vm_of (rq_idx m) = vm \<Longrightarrow> rq_op m = OpQuiesceAck \<Longrightarrow> qt_active (w_lifecycle w ! vm) \<Longrightarrow>
       rq_a m = qt_epoch (w_lifecycle w ! vm) \<Longrightarrow> a_pub (view w) (rq_idx m) = PwOff"
  using assms unfolding vm_proto_def Let_def quiesce_msg_def by blast+

lemma vm_protoI:
  assumes "qt_active (w_lifecycle w ! vm) \<Longrightarrow> lifecycle_token vm w = qt_epoch (w_lifecycle w ! vm) \<and> qt_epoch (w_lifecycle w ! vm) \<noteq> 0"
    and "qt_epoch (w_lifecycle w ! vm) \<noteq> kUnpublishedEpoch"
    and "lifecycle_token vm w = kLifecycleInactive \<or> lifecycle_token vm w = kLifecycleReserved \<or> lifecycle_token vm w = qt_epoch (w_lifecycle w ! vm)"
    and "\<And>v. qt_active (w_lifecycle w ! vm) \<Longrightarrow> v < guest_vcpus e vm \<Longrightarrow> a_pub (view w) (slot_of vm v) \<noteq> PwOff \<Longrightarrow>
       bit (qt_pending_mask (w_lifecycle w ! vm)) v"
    and "qt_active (w_lifecycle w ! vm) \<Longrightarrow> \<not> w_dma_pending w ! vm \<Longrightarrow> \<not> w_dma_failed w ! vm \<Longrightarrow> quiet vm (w_dev w)"
    and "\<And>k m. (k, m) \<in> M \<Longrightarrow> quiesce_msg m \<Longrightarrow> vm_of (rq_idx m) = vm \<Longrightarrow> unat (rq_a m) \<le> unat (qt_epoch (w_lifecycle w ! vm))"
    and "\<And>k m. (k, m) \<in> M \<Longrightarrow> vm_of (rq_idx m) = vm \<Longrightarrow> rq_op m = OpQuiesceAck \<Longrightarrow> qt_active (w_lifecycle w ! vm) \<Longrightarrow>
       rq_a m = qt_epoch (w_lifecycle w ! vm) \<Longrightarrow> a_pub (view w) (rq_idx m) = PwOff"
  shows "vm_proto e quiet M vm w"
  unfolding vm_proto_def Let_def using assms by blast

lemma protoD:
  assumes "proto e quiet B w"
  shows "vm < length (en_guests e) \<Longrightarrow> vm_proto e quiet (msgs w \<union> B) vm w" "msgs_ok e (msgs w \<union> B)"
  using assms by (simp_all add: proto_def)

lemma msgs_okD:
  assumes "msgs_ok e M" "(k, m) \<in> M"
  shows "quiesce_msg m \<Longrightarrow> valid_slot e (rq_idx m)" "rq_op m = OpQuiesceVcpu \<Longrightarrow> affinity e (rq_idx m) = k"
    "rq_op m = OpQuiesceVcpu \<Longrightarrow> valid_slot e (rq_idx m)" "rq_op m = OpQuiesceAck \<Longrightarrow> valid_slot e (rq_idx m)"
  using assms unfolding msgs_ok_def quiesce_msg_def by blast+

text \<open>A VM whose token is free has no active tracker.\<close>

lemma free_inactive: "vm_proto e quiet M vm w \<Longrightarrow> lifecycle_token vm w = kLifecycleInactive \<Longrightarrow> \<not> qt_active (w_lifecycle w ! vm)"
  using vm_protoD(1,2) [of e quiet M vm w] by (auto simp: kLifecycleInactive_def)

lemma reserved_inactive: "vm_proto e quiet M vm w \<Longrightarrow> lifecycle_token vm w = kLifecycleReserved \<Longrightarrow> \<not> qt_active (w_lifecycle w ! vm)"
  using vm_protoD(1,3) [of e quiet M vm w] by (auto simp: kLifecycleReserved_def)

text \<open>With an inactive tracker only the bounds on the epoch remain.\<close>

lemma idle_proto:
  assumes "vm_proto e quiet M vm w" "\<not> qt_active (w_lifecycle w' ! vm)"
    and "qt_epoch (w_lifecycle w' ! vm) = qt_epoch (w_lifecycle w ! vm)"
    and "lifecycle_token vm w' = kLifecycleInactive \<or> lifecycle_token vm w' = kLifecycleReserved
      \<or> lifecycle_token vm w' = qt_epoch (w_lifecycle w ! vm)"
    and "\<And>k m. (k, m) \<in> M' \<Longrightarrow> quiesce_msg m \<Longrightarrow> (k, m) \<in> M"
  shows "vm_proto e quiet M' vm w'"
proof (rule vm_protoI)
  show "qt_epoch (w_lifecycle w' ! vm) \<noteq> kUnpublishedEpoch" using vm_protoD(3) [OF assms(1)] assms(3) by simp
  show "lifecycle_token vm w' = kLifecycleInactive \<or> lifecycle_token vm w' = kLifecycleReserved
      \<or> lifecycle_token vm w' = qt_epoch (w_lifecycle w' ! vm)" using assms(3,4) by simp
  show "unat (rq_a m) \<le> unat (qt_epoch (w_lifecycle w' ! vm))" if "(k, m) \<in> M'" "quiesce_msg m" "vm_of (rq_idx m) = vm" for k m
    unfolding assms(3) by (rule vm_protoD(7) [OF assms(1) assms(5) [OF that(1,2)] that(2,3)])
qed (use assms(2) in simp_all)

section \<open>Evolution keeps it\<close>

lemma coord_at:
  assumes "coord w' = coord w"
  shows "w_lifecycle w' = w_lifecycle w" "lifecycle_token vm w' = lifecycle_token vm w" "w_dma_pending w' = w_dma_pending w"
    "w_dma_failed w' = w_dma_failed w" "w_online w' = w_online w"
  using assms by (simp_all add: coord_def lifecycle_token_def)

lemma vm_of_slot: "cfg_ok n e \<Longrightarrow> vm < length (en_guests e) \<Longrightarrow> v < guest_vcpus e vm \<Longrightarrow> vm_of (slot_of vm v) = vm"
  unfolding cfg_ok_def vm_of_def slot_of_def kMaxVcpusPerVm_def by (auto dest!: spec [of _ vm])

lemma proto_evolves:
  assumes c: "cfg_ok n e" and p: "proto e quiet B w" and ev: "evolves n e quiet good V w w'"
    and free: "\<And>vm. vm \<in> V \<Longrightarrow> vm < length (en_guests e) \<Longrightarrow> \<not> qt_active (w_lifecycle w ! vm)"
  shows "proto e quiet B w'"
proof -
  have co: "coord w' = coord w" and ms: "\<And>m. m \<in> msgs w' \<Longrightarrow> m \<in> msgs w \<or> \<not> quiesce_msg (snd m)"
    and off: "\<And>s. vm_of s \<notin> V \<Longrightarrow> a_pub (view w) s = PwOff \<Longrightarrow> a_pub (view w') s = PwOff"
    and qu: "\<And>vm. vm \<notin> V \<Longrightarrow> quiet vm (w_dev w) \<Longrightarrow> quiet vm (w_dev w')"
    using ev by (simp_all add: evolves_def)
  note co = coord_at [OF co]
  have M: "(k, m) \<in> msgs w \<union> B" if "(k, m) \<in> msgs w' \<union> B" "quiesce_msg m" for k m
    using that ms [of "(k, m)"] by auto
  show ?thesis unfolding proto_def
  proof (intro conjI allI impI)
    show "msgs_ok e (msgs w' \<union> B)" unfolding msgs_ok_def using msgs_okD [OF protoD(2) [OF p] M] by auto
    fix vm assume vm: "vm < length (en_guests e)"
    note q = protoD(1) [OF p vm]
    show "vm_proto e quiet (msgs w' \<union> B) vm w'"
    proof (cases "vm \<in> V")
      case True
      show ?thesis
        by (rule idle_proto [OF q]) (use M free [OF True vm] vm_protoD(4) [OF q] in \<open>simp_all add: co\<close>)
    next
      case False
      show ?thesis
      proof (rule vm_protoI, unfold co)
        fix v assume v: "qt_active (w_lifecycle w ! vm)" "v < guest_vcpus e vm" "a_pub (view w') (slot_of vm v) \<noteq> PwOff"
        then have "a_pub (view w) (slot_of vm v) \<noteq> PwOff" using off [of "slot_of vm v"] False vm_of_slot [OF c vm] by auto
        then show "bit (qt_pending_mask (w_lifecycle w ! vm)) v" using vm_protoD(5) [OF q] v by blast
      next
        fix k m assume m: "(k, m) \<in> msgs w' \<union> B" "vm_of (rq_idx m) = vm" "rq_op m = OpQuiesceAck" "qt_active (w_lifecycle w ! vm)"
          "rq_a m = qt_epoch (w_lifecycle w ! vm)"
        then have "a_pub (view w) (rq_idx m) = PwOff" using vm_protoD(8) [OF q M] by (simp add: quiesce_msg_def)
        then show "a_pub (view w') (rq_idx m) = PwOff" using off [of "rq_idx m"] False m(2) by simp
      next
        fix k m assume "(k, m) \<in> msgs w' \<union> B" "quiesce_msg m" "vm_of (rq_idx m) = vm"
        then show "unat (rq_a m) \<le> unat (qt_epoch (w_lifecycle w ! vm))" using vm_protoD(7) [OF q M] by blast
      next
        assume "qt_active (w_lifecycle w ! vm)" "\<not> w_dma_pending w ! vm" "\<not> w_dma_failed w ! vm"
        then show "quiet vm (w_dev w')" using qu [OF False] vm_protoD(6) [OF q] by blast
      qed (use vm_protoD [OF q] in \<open>simp_all\<close>)
    qed
  qed
qed

lemma safe_evolves:
  assumes "setting n e quiet good" "safe n e quiet good B w" "evolves n e quiet good V w w'"
    and "\<And>vm. vm \<in> V \<Longrightarrow> vm < length (en_guests e) \<Longrightarrow> \<not> qt_active (w_lifecycle w ! vm)"
  shows "safe n e quiet good B w'"
  using proto_evolves [OF settingD(1) [OF assms(1)] safeD(2) [OF assms(2)] assms(3,4)] evolves_base [OF assms(3)]
  by (simp add: safe_def)

lemma safe_quiet:
  assumes "setting n e quiet good" "safe n e quiet good B w" "evolves n e quiet good {} w w'"
  shows "safe n e quiet good B w'"
  by (rule safe_evolves [OF assms]) simp

lemma safe_mono: "safe n e quiet good B w \<Longrightarrow> B' \<subseteq> B \<Longrightarrow> safe n e quiet good B' w"
  unfolding safe_def proto_def msgs_ok_def vm_proto_def Let_def by blast

section \<open>Changes of the coordinator's own state\<close>

lemma affinity_cpu: "slot_cpu e i = affinity e i"
  by (simp add: slot_cpu_def affinity_def)

lemma base_boxes: "base n e good w \<Longrightarrow> boxes_ok n w"
  by (simp add: base_def)

lemma setters [simp]:
  "view (set_token vm t w) = view w" "view (set_tracker vm q w) = view w" "view (set_mode vm m w) = view w"
  "view (set_dma_pending vm b w) = view w" "view (set_dma_failed vm b w) = view w"
  "w_dev (set_token vm t w) = w_dev w" "w_dev (set_tracker vm q w) = w_dev w" "w_dev (set_mode vm m w) = w_dev w"
  "w_dev (set_dma_pending vm b w) = w_dev w" "w_dev (set_dma_failed vm b w) = w_dev w"
  "msgs (set_token vm t w) = msgs w" "msgs (set_tracker vm q w) = msgs w" "msgs (set_mode vm m w) = msgs w"
  "msgs (set_dma_pending vm b w) = msgs w" "msgs (set_dma_failed vm b w) = msgs w"
  "base n e good (set_token vm t w) = base n e good w" "base n e good (set_tracker vm q w) = base n e good w"
  "base n e good (set_mode vm m w) = base n e good w" "base n e good (set_dma_pending vm b w) = base n e good w"
  "base n e good (set_dma_failed vm b w) = base n e good w"
  "w_mode (set_tracker vm q w) = w_mode w" "w_mode (set_token vm t w) = w_mode w"
  by (simp_all add: set_token_def set_tracker_def set_mode_def set_dma_pending_def set_dma_failed_def msgs_def base_def boxes_ok_def)

lemma getters [simp]:
  "w_lifecycle (set_token vm t w) = w_lifecycle w" "w_lifecycle (set_mode vm m w) = w_lifecycle w"
  "w_lifecycle (set_dma_pending vm b w) = w_lifecycle w" "w_lifecycle (set_dma_failed vm b w) = w_lifecycle w"
  "w_lifecycle (set_tracker vm q w) = (w_lifecycle w)[vm := q]"
  "lifecycle_token x (set_tracker vm q w) = lifecycle_token x w" "lifecycle_token x (set_mode vm m w) = lifecycle_token x w"
  "lifecycle_token x (set_dma_pending vm b w) = lifecycle_token x w" "lifecycle_token x (set_dma_failed vm b w) = lifecycle_token x w"
  "lifecycle_token x (set_token vm t w) = (w_token w)[vm := t] ! x"
  "w_dma_pending (set_token vm t w) = w_dma_pending w" "w_dma_pending (set_tracker vm q w) = w_dma_pending w"
  "w_dma_pending (set_mode vm m w) = w_dma_pending w" "w_dma_pending (set_dma_failed vm b w) = w_dma_pending w"
  "w_dma_pending (set_dma_pending vm b w) = (w_dma_pending w)[vm := b]"
  "w_dma_failed (set_token vm t w) = w_dma_failed w" "w_dma_failed (set_tracker vm q w) = w_dma_failed w"
  "w_dma_failed (set_mode vm m w) = w_dma_failed w" "w_dma_failed (set_dma_pending vm b w) = w_dma_failed w"
  "w_dma_failed (set_dma_failed vm b w) = (w_dma_failed w)[vm := b]"
  "w_token (set_tracker vm q w) = w_token w" "w_token (set_mode vm m w) = w_token w"
  "w_token (set_dma_pending vm b w) = w_token w" "w_token (set_dma_failed vm b w) = w_token w"
  "w_token (set_token vm t w) = (w_token w)[vm := t]"
  by (simp_all add: set_token_def set_tracker_def set_mode_def set_dma_pending_def set_dma_failed_def lifecycle_token_def)

lemma safe_vm:
  assumes "cfg_ok n e" "base n e good w" "vm < length (en_guests e)"
  shows "vm < length (w_lifecycle w)" "vm < length (w_token w)" "vm < length (w_dma_pending w)" "vm < length (w_dma_failed w)"
    "vm < kMaxGuests"
  using assms by (simp_all add: base_def boxes_ok_def cfg_ok_def)

text \<open>A change of one VM's coordinator state needs only that VM checked.\<close>

lemma safe_at:
  assumes "safe n e quiet good B w" "base n e good w'" "msgs w' = msgs w" "view w' = view w" "w_dev w' = w_dev w"
    and "\<And>x. x \<noteq> vm \<Longrightarrow> w_lifecycle w' ! x = w_lifecycle w ! x \<and> lifecycle_token x w' = lifecycle_token x w
      \<and> w_dma_pending w' ! x = w_dma_pending w ! x \<and> w_dma_failed w' ! x = w_dma_failed w ! x"
    and "vm < length (en_guests e) \<Longrightarrow> vm_proto e quiet (msgs w \<union> B) vm w'"
  shows "safe n e quiet good B w'"
  unfolding safe_def proto_def assms(3)
proof (intro conjI allI impI)
  show "msgs_ok e (msgs w \<union> B)" by (rule protoD(2) [OF safeD(2) [OF assms(1)]])
  fix x assume x: "x < length (en_guests e)"
  show "vm_proto e quiet (msgs w \<union> B) x w'"
  proof (cases "x = vm")
    case True
    then show ?thesis using x assms(7) by simp
  next
    case False
    then have "w_lifecycle w' ! x = w_lifecycle w ! x" "lifecycle_token x w' = lifecycle_token x w"
        "w_dma_pending w' ! x = w_dma_pending w ! x" "w_dma_failed w' ! x = w_dma_failed w ! x" using assms(6) by simp_all
    then have "vm_proto e quiet (msgs w \<union> B) x w' = vm_proto e quiet (msgs w \<union> B) x w"
      by (simp only: vm_proto_def Let_def assms(4,5))
    then show ?thesis using protoD(1) [OF safeD(2) [OF assms(1)] x] by simp
  qed
qed (rule assms(2))

lemma safe_mode: "safe n e quiet good B w \<Longrightarrow> safe n e quiet good B (set_mode vm m w)"
  by (simp add: safe_def proto_def vm_proto_def)

lemma safe_reserve_token:
  assumes "setting n e quiet good" "safe n e quiet good B w" "lifecycle_token vm w = kLifecycleInactive"
  shows "safe n e quiet good B (set_token vm kLifecycleReserved w)"
proof (rule safe_at [OF assms(2)])
  assume vm: "vm < length (en_guests e)"
  note p = protoD(1) [OF safeD(2) [OF assms(2)] vm] and l = safe_vm [OF settingD(1) [OF assms(1)] safeD(1) [OF assms(2)] vm]
  show "vm_proto e quiet (msgs w \<union> B) vm (set_token vm kLifecycleReserved w)"
    by (rule idle_proto [OF p]) (use free_inactive [OF p assms(3)] l in simp_all)
qed (use safeD(1) [OF assms(2)] in \<open>simp_all add: lifecycle_token_def\<close>)

lemma safe_free_token:
  assumes "setting n e quiet good" "safe n e quiet good B w"
    and "vm < length (en_guests e) \<Longrightarrow> \<not> qt_active (w_lifecycle w ! vm)"
  shows "safe n e quiet good B (set_token vm kLifecycleInactive w)"
proof (rule safe_at [OF assms(2)])
  assume vm: "vm < length (en_guests e)"
  note p = protoD(1) [OF safeD(2) [OF assms(2)] vm] and l = safe_vm [OF settingD(1) [OF assms(1)] safeD(1) [OF assms(2)] vm]
  show "vm_proto e quiet (msgs w \<union> B) vm (set_token vm kLifecycleInactive w)"
    by (rule idle_proto [OF p]) (use assms(3) [OF vm] l in simp_all)
qed (use safeD(1) [OF assms(2)] in \<open>simp_all add: lifecycle_token_def\<close>)

lemma safe_release:
  assumes "setting n e quiet good" "safe n e quiet good B w"
    and "vm < length (en_guests e) \<Longrightarrow> \<not> qt_active (w_lifecycle w ! vm)"
  shows "safe n e quiet good B (release_lifecycle vm w)"
proof -
  have t: "safe n e quiet good B (if vm < length (w_token w) then set_token vm kLifecycleInactive w else w)"
    using safe_free_token [OF assms] assms(2) by simp
  show ?thesis unfolding release_lifecycle_def
    by (rule safe_quiet [OF assms(1) t ev_counters(2) [OF assms(1) safeD(1) [OF t]]])
qed

text \<open>Deactivating a tracker, by \<open>finish\<close> or \<open>cancel\<close>.\<close>

lemma safe_deactivate:
  assumes "setting n e quiet good" "safe n e quiet good B w" "\<not> qt_active q" "qt_epoch q = qt_epoch (w_lifecycle w ! vm)"
  shows "safe n e quiet good B (set_tracker vm q w)"
proof (rule safe_at [OF assms(2)])
  assume vm: "vm < length (en_guests e)"
  note p = protoD(1) [OF safeD(2) [OF assms(2)] vm] and l = safe_vm [OF settingD(1) [OF assms(1)] safeD(1) [OF assms(2)] vm]
  show "vm_proto e quiet (msgs w \<union> B) vm (set_tracker vm q w)"
    by (rule idle_proto [OF p]) (use assms(3,4) vm_protoD(4) [OF p] l in simp_all)
qed (use safeD(1) [OF assms(2)] in simp_all)

lemma cancel_fields [simp]:
  "\<not> qt_active (tracker_cancel t)" "qt_epoch (tracker_cancel t) = qt_epoch t" "qt_pending_mask (tracker_cancel t) = 0"
  by (simp_all add: tracker_cancel_def)

lemma finish_fields:
  "qt_epoch (snd (tracker_finish t)) = qt_epoch t" "tracker_ready t \<Longrightarrow> \<not> qt_active (snd (tracker_finish t))"
  by (simp_all add: tracker_finish_def)

section \<open>Operations that leave the epochs alone\<close>

definition kept ::
  "nat \<Rightarrow> 'd Env \<Rightarrow> (nat \<Rightarrow> 'd \<Rightarrow> bool) \<Rightarrow> ('d \<Rightarrow> bool) \<Rightarrow> (nat \<times> Request) set \<Rightarrow> ('d, 'z) SmpWorld_scheme \<Rightarrow> ('d, 'z) SmpWorld_scheme \<Rightarrow> bool" where
  "kept n e quiet good B w w' \<longleftrightarrow> safe n e quiet good B w'
     \<and> (\<forall>x. qt_epoch (w_lifecycle w' ! x) = qt_epoch (w_lifecycle w ! x))"

lemma kept_refl: "safe n e quiet good B w \<Longrightarrow> kept n e quiet good B w w"
  by (simp add: kept_def)

lemma kept_trans: "kept n e quiet good B w w' \<Longrightarrow> kept n e quiet good B w' w'' \<Longrightarrow> kept n e quiet good B w w''"
  by (simp add: kept_def)

lemma keptD: "kept n e quiet good B w w' \<Longrightarrow> safe n e quiet good B w'"
    "kept n e quiet good B w w' \<Longrightarrow> qt_epoch (w_lifecycle w' ! x) = qt_epoch (w_lifecycle w ! x)"
  by (simp_all add: kept_def)

lemma kept_evolves:
  assumes "setting n e quiet good" "safe n e quiet good B w" "evolves n e quiet good V w w'"
    and "\<And>vm. vm \<in> V \<Longrightarrow> vm < length (en_guests e) \<Longrightarrow> \<not> qt_active (w_lifecycle w ! vm)"
  shows "kept n e quiet good B w w'"
  using safe_evolves [OF assms] coord_at(1) [of w' w] assms(3) by (simp add: kept_def evolves_def)

lemma kept_quiet:
  assumes "setting n e quiet good" "safe n e quiet good B w" "evolves n e quiet good {} w w'"
  shows "kept n e quiet good B w w'"
  by (rule kept_evolves [OF assms]) simp

text \<open>A VM whose token is free may be started.\<close>

lemma kept_start:
  assumes "setting n e quiet good" "safe n e quiet good B w" "evolves n e quiet good {vm} w w'"
    and "\<not> lifecycle_blocks_start vm w"
  shows "kept n e quiet good B w w'"
proof (rule kept_evolves [OF assms(1-3)])
  fix x assume x: "x \<in> {vm}" "x < length (en_guests e)"
  have "lifecycle_token vm w = kLifecycleInactive"
    using assms(4) safe_vm(2) [OF settingD(1) [OF assms(1)] safeD(1) [OF assms(2)] x(2)] x(1) by (simp add: lifecycle_blocks_start_def)
  then show "\<not> qt_active (w_lifecycle w ! x)"
    using free_inactive [OF protoD(1) [OF safeD(2) [OF assms(2)] x(2)]] x(1) by simp
qed

lemma kept_fold:
  assumes "safe n e quiet good B w" "\<And>x w. x \<in> set xs \<Longrightarrow> safe n e quiet good B w \<Longrightarrow> kept n e quiet good B w (f x w)"
  shows "kept n e quiet good B w (fold f xs w)"
  using assms
proof (induction xs arbitrary: w)
  case (Cons x xs)
  have f: "kept n e quiet good B w (f x w)" using Cons.prems by simp
  have "kept n e quiet good B (f x w) (fold f xs (f x w))"
    by (rule Cons.IH [OF keptD(1) [OF f]]) (use Cons.prems(2) in simp)
  then show ?case using kept_trans [OF f] by simp
qed (simp add: kept_refl)

lemma coord_tracker: "coord w' = coord w \<Longrightarrow> coord (set_tracker vm q w') = coord (set_tracker vm q w)"
  by (simp add: coord_def set_tracker_def)

lemma evolves_tracker:
  assumes "evolves n e quiet good V w w'"
  shows "evolves n e quiet good V (set_tracker vm q w) (set_tracker vm q w')"
  using assms coord_tracker [of w' w] by (simp add: evolves_def)

lemma epoch_upd: "qt_epoch q = qt_epoch (xs ! i) \<Longrightarrow> qt_epoch (xs[i := q] ! x) = qt_epoch (xs ! x)"
  by (cases "i = x"; cases "i < length xs") (simp_all add: list_update_beyond)

lemma kept_finish_tracker:
  assumes "setting n e quiet good" "safe n e quiet good B w" "tracker_ready (w_lifecycle w ! vm)"
  shows "kept n e quiet good B w (finish_tracker vm w)"
proof -
  have "safe n e quiet good B (set_tracker vm (snd (tracker_finish (w_lifecycle w ! vm))) w)"
    by (rule safe_deactivate [OF assms(1,2)]) (use finish_fields assms(3) in simp_all)
  from safe_mode [OF this] show ?thesis by (simp add: kept_def finish_tracker_def finish_fields epoch_upd)
qed

lemma kept_release:
  assumes "setting n e quiet good" "safe n e quiet good B w"
    and "vm < length (en_guests e) \<Longrightarrow> \<not> qt_active (w_lifecycle w ! vm)"
  shows "kept n e quiet good B w (release_lifecycle vm w)"
  using safe_release [OF assms] by (simp add: kept_def release_lifecycle_def end_lifecycle_transition_def)

section \<open>Finishing and acknowledging\<close>

lemma kept_timer:
  assumes "setting n e quiet good" "safe n e quiet good B w"
  shows "kept n e quiet good B w (cancel_timer j sl w)" "kept n e quiet good B w (arm_timer j sl dl cb a w)"
    "kept n e quiet good B w (end_lifecycle_transition w)" "kept n e quiet good B w (begin_lifecycle_transition w)"
proof -
  note b = safeD(1) [OF assms(2)]
  show "kept n e quiet good B w (cancel_timer j sl w)" by (rule kept_quiet [OF assms ev_resched(4) [OF assms(1) b]])
  show "kept n e quiet good B w (arm_timer j sl dl cb a w)" by (rule kept_quiet [OF assms ev_resched(3) [OF assms(1) b]])
  show "kept n e quiet good B w (end_lifecycle_transition w)" by (rule kept_quiet [OF assms ev_counters(2) [OF assms(1) b]])
  show "kept n e quiet good B w (begin_lifecycle_transition w)" by (rule kept_quiet [OF assms ev_counters(1) [OF assms(1) b]])
qed

lemma ready_quiet:
  assumes "vm_proto e quiet M vm w" "tracker_ready (w_lifecycle w ! vm)" "\<not> w_dma_pending w ! vm" "\<not> w_dma_failed w ! vm"
  shows "quiet vm (w_dev w)"
  using vm_protoD(6) [OF assms(1)] assms by (simp add: tracker_ready_def)

text \<open>The restore itself, with the tracker closed right after it.\<close>

lemma kept_restore:
  assumes s: "setting n e quiet good" and w: "safe n e quiet good B w" and vm: "vm < length (en_guests e)"
    and r: "tracker_ready (w_lifecycle w ! vm)" "\<not> w_dma_pending w ! vm" "\<not> w_dma_failed w ! vm"
  shows "kept n e quiet good B w (release_lifecycle vm (finish_tracker vm (restore_and_restart e k vm w)))"
proof -
  let ?r = "restore_and_restart e k vm w" let ?q = "snd (tracker_finish (w_lifecycle w ! vm))"
  have q: "quiet vm (w_dev w)" by (rule ready_quiet [OF protoD(1) [OF safeD(2) [OF w] vm] r])
  have ev: "evolves n e quiet good {vm} w ?r" by (rule ev_restore [OF s safeD(1) [OF w] q]) simp
  then have "coord ?r = coord w" by (simp add: evolves_def)
  note l = coord_at(1) [OF this]
  have 1: "safe n e quiet good B (set_tracker vm ?q w)"
    by (rule safe_deactivate [OF s w]) (use finish_fields r(1) in simp_all)
  have len: "vm < length (w_lifecycle w)" by (rule safe_vm(1) [OF settingD(1) [OF s] safeD(1) [OF w] vm])
  have k: "kept n e quiet good B (set_tracker vm ?q w) (set_tracker vm ?q ?r)"
    by (rule kept_evolves [OF s 1 evolves_tracker [OF ev]]) (use len finish_fields(2) [OF r(1)] in simp)
  have f: "finish_tracker vm ?r = set_mode vm LmNone (set_tracker vm ?q ?r)" by (simp add: finish_tracker_def l)
  have m: "safe n e quiet good B (finish_tracker vm ?r)" unfolding f by (rule safe_mode [OF keptD(1) [OF k]])
  have ina: "\<not> qt_active (w_lifecycle (finish_tracker vm ?r) ! vm)"
    using len finish_fields(2) [OF r(1)] by (simp add: f l)
  have "kept n e quiet good B (finish_tracker vm ?r) (release_lifecycle vm (finish_tracker vm ?r))"
    by (rule kept_release [OF s m]) (rule ina)
  then show ?thesis by (simp add: kept_def f l finish_fields epoch_upd)
qed

lemma kept_finish:
  assumes s: "setting n e quiet good" and w: "safe n e quiet good B w" and vm: "vm < length (en_guests e)"
  shows "kept n e quiet good B w (finish_lifecycle e k vm w)"
proof (cases "\<not> tracker_ready (w_lifecycle w ! vm) \<or> w_dma_pending w ! vm")
  case True
  then show ?thesis using kept_refl [OF w] by (simp add: finish_lifecycle_def)
next
  case False
  let ?w = "cancel_timer k (kSlotDmaDrain + vm) (cancel_timer k (kSlotLifecycle + vm) w)"
  have k: "kept n e quiet good B w ?w"
    by (rule kept_trans [OF kept_timer(1) [OF s w]], rule kept_timer(1) [OF s keptD(1) [OF kept_timer(1) [OF s w]]])
  have eq: "w_lifecycle ?w = w_lifecycle w" "w_dma_pending ?w = w_dma_pending w" "w_dma_failed ?w = w_dma_failed w"
    by (simp_all add: cancel_timer_def)
  have r: "tracker_ready (w_lifecycle ?w ! vm)" "\<not> w_dma_pending ?w ! vm" using False by (simp_all add: eq)
  note f = kept_finish_tracker [OF s keptD(1) [OF k] r(1)]
  have len: "vm < length (w_lifecycle w)" by (rule safe_vm(1) [OF settingD(1) [OF s] safeD(1) [OF w] vm])
  have ina: "\<not> qt_active (w_lifecycle (finish_tracker vm ?w) ! vm)"
    using len finish_fields(2) [OF r(1)] by (simp add: finish_tracker_def eq)
  note rel = kept_trans [OF f kept_release [OF s keptD(1) [OF f] ina]]
  note en = kept_trans [OF f kept_timer(3) [OF s keptD(1) [OF f]]]
  have res: "kept n e quiet good B ?w (release_lifecycle vm (finish_tracker vm (restore_and_restart e k vm ?w)))"
    if "\<not> w_dma_failed ?w ! vm" by (rule kept_restore [OF s keptD(1) [OF k] vm r that])
  show ?thesis unfolding finish_lifecycle_def using False
    by (simp add: Let_def kept_trans [OF k en] kept_trans [OF k rel] kept_trans [OF k res])
qed

lemma ack_cases:
  obtains (ignored) "tracker_acknowledge m v ep t = (AckIgnored, t)"
  | (counted) "qt_active t" "ep = qt_epoch t" "fst (tracker_acknowledge m v ep t) \<noteq> AckIgnored"
      "snd (tracker_acknowledge m v ep t) = t\<lparr>qt_pending_mask := qt_pending_mask t AND NOT (push_bit v 1)\<rparr>"
  unfolding tracker_acknowledge_def Let_def by (cases "qt_active t"; cases "ep = qt_epoch t"; cases "v < m";
    cases "qt_pending_mask t AND push_bit v 1 = 0") (simp_all split: if_splits)

lemma tracker_self: "set_tracker vm (w_lifecycle w ! vm) w = w"
  by (simp add: set_tracker_def)

lemma safe_ack_tracker:
  assumes "setting n e quiet good" "safe n e quiet good B w"
    and "lifecycle_token (vm_of i) w = ep" "qt_active (w_lifecycle w ! vm_of i) \<Longrightarrow> a_pub (view w) i = PwOff"
  shows "kept n e quiet good B w
    (set_tracker (vm_of i) (snd (tracker_acknowledge kMaxVcpusPerVm (vcpu_of i) ep (w_lifecycle w ! vm_of i))) w)"
proof (cases rule: ack_cases [of kMaxVcpusPerVm "vcpu_of i" ep "w_lifecycle w ! vm_of i"])
  case ignored
  then show ?thesis using kept_refl [OF assms(2)] by (simp add: tracker_self)
next
  case counted
  let ?t = "w_lifecycle w ! vm_of i" let ?q = "?t\<lparr>qt_pending_mask := qt_pending_mask ?t AND NOT (push_bit (vcpu_of i) 1)\<rparr>"
  have "safe n e quiet good B (set_tracker (vm_of i) ?q w)"
  proof (rule safe_at [OF assms(2)])
    assume vm: "vm_of i < length (en_guests e)"
    note p = protoD(1) [OF safeD(2) [OF assms(2)] vm]
    have t: "w_lifecycle (set_tracker (vm_of i) ?q w) ! vm_of i = ?q"
      using safe_vm(1) [OF settingD(1) [OF assms(1)] safeD(1) [OF assms(2)] vm] by simp
    show "vm_proto e quiet (msgs w \<union> B) (vm_of i) (set_tracker (vm_of i) ?q w)"
    proof (rule vm_protoI, unfold t)
      fix v assume v: "v < guest_vcpus e (vm_of i)" "a_pub (view (set_tracker (vm_of i) ?q w)) (slot_of (vm_of i) v) \<noteq> PwOff"
      have "bit (qt_pending_mask ?t) v" using vm_protoD(5) [OF p counted(1) v(1)] v(2) by simp
      moreover have "v \<noteq> vcpu_of i" using assms(4) [OF counted(1)] v(2) by auto
      ultimately show "bit (qt_pending_mask ?q) v" by (auto simp: bit_simps dest: bit_imp_le_length)
    next
      fix k m assume "(k, m) \<in> msgs w \<union> B" "quiesce_msg m" "vm_of (rq_idx m) = vm_of i"
      from vm_protoD(7) [OF p this] show "unat (rq_a m) \<le> unat (qt_epoch ?q)" by simp
    next
      fix k m assume "(k, m) \<in> msgs w \<union> B" "vm_of (rq_idx m) = vm_of i" "rq_op m = OpQuiesceAck" "rq_a m = qt_epoch ?q"
      then show "a_pub (view (set_tracker (vm_of i) ?q w)) (rq_idx m) = PwOff"
        using vm_protoD(8) [OF p _ _ _ counted(1)] by simp
    qed (use vm_protoD(1-4) [OF p] vm_protoD(6) [OF p] in simp_all)
  qed (use safeD(1) [OF assms(2)] in simp_all)
  then show ?thesis unfolding counted(4) by (simp add: kept_def epoch_upd)
qed

lemma kept_acknowledge:
  assumes s: "setting n e quiet good" and w: "safe n e quiet good B w"
    and off: "lifecycle_token (vm_of i) w = ep \<Longrightarrow> qt_active (w_lifecycle w ! vm_of i) \<Longrightarrow> a_pub (view w) i = PwOff"
  shows "kept n e quiet good B w (acknowledge_quiesce e k i ep w)"
proof (cases "vm_of i \<ge> length (en_guests e) \<or> lifecycle_token (vm_of i) w \<noteq> ep")
  case True
  then show ?thesis using kept_refl [OF w] by (auto simp: acknowledge_quiesce_def)
next
  case False
  then have t: "lifecycle_token (vm_of i) w = ep" and vm: "vm_of i < length (en_guests e)" by auto
  note a = safe_ack_tracker [OF s w t off [OF t]]
  note f = kept_trans [OF a kept_finish [OF s keptD(1) [OF a] vm]]
  show ?thesis unfolding acknowledge_quiesce_def using False by (simp add: Let_def case_prod_unfold a f)
qed

section \<open>Quiesce messages\<close>

lemma safe_enqueue:
  assumes s: "setting n e quiet good" and w: "safe n e quiet good B w"
    and r: "valid_slot e (rq_idx r)" "rq_op r = OpQuiesceVcpu \<Longrightarrow> affinity e (rq_idx r) = t"
      "unat (rq_a r) \<le> unat (qt_epoch (w_lifecycle w ! vm_of (rq_idx r)))"
      "rq_op r = OpQuiesceAck \<Longrightarrow> a_pub (view w) (rq_idx r) = PwOff"
  shows "kept n e quiet good B w (snd (enqueue t r l w))"
proof (cases rule: enqueue_cases [of t r l w])
  case refused
  then show ?thesis using kept_refl [OF w] by simp
next
  case sent
  let ?w = "w\<lparr>w_mail := (w_mail w)[t := w_mail w ! t @ [r]], w_sgi := (w_sgi w)[t := True]\<rparr>"
  have t: "t < n" "t < length (w_mail w)" using base_boxes [OF safeD(1) [OF w]] sent(1) by (simp_all add: boxes_ok_def)
  have M: "msgs ?w \<union> B = insert (t, r) (msgs w \<union> B)" by (simp add: msgs_mail [OF t(2)])
  have v: "view ?w = view w" by simp
  have "proto e quiet B ?w" unfolding proto_def M
  proof (intro conjI allI impI)
    show "msgs_ok e (insert (t, r) (msgs w \<union> B))"
      using protoD(2) [OF safeD(2) [OF w]] r(1,2) unfolding msgs_ok_def by blast
    fix vm assume vm: "vm < length (en_guests e)"
    note p = protoD(1) [OF safeD(2) [OF w] vm]
    show "vm_proto e quiet (insert (t, r) (msgs w \<union> B)) vm ?w"
    proof (rule vm_protoI, unfold v)
      fix k m assume "(k, m) \<in> insert (t, r) (msgs w \<union> B)" "quiesce_msg m" "vm_of (rq_idx m) = vm"
      then show "unat (rq_a m) \<le> unat (qt_epoch (w_lifecycle ?w ! vm))" using vm_protoD(7) [OF p] r(3) by auto
    next
      fix k m assume "(k, m) \<in> insert (t, r) (msgs w \<union> B)" "vm_of (rq_idx m) = vm" "rq_op m = OpQuiesceAck"
        "qt_active (w_lifecycle ?w ! vm)" "rq_a m = qt_epoch (w_lifecycle ?w ! vm)"
      then show "a_pub (view w) (rq_idx m) = PwOff" using vm_protoD(8) [OF p] r(4) by auto
    qed (use vm_protoD(1-4) [OF p] vm_protoD(5,6) [OF p] in \<open>simp_all add: lifecycle_token_def\<close>)
  qed
  then show ?thesis using base_mail [OF safeD(1) [OF w] t(1) sent(3)] by (simp add: kept_def safe_def sent(4))
qed

lemma kept_plain_enqueue:
  assumes "setting n e quiet good" "safe n e quiet good B w" "\<not> quiesce_msg r"
  shows "kept n e quiet good B w (snd (enqueue t r l w))"
  by (rule kept_quiet [OF assms(1,2) ev_enqueue [OF safeD(1) [OF assms(2)] assms(3)]])

text \<open>A vCPU its owner core has just retired is off.\<close>

lemma retired_off:
  assumes "setting n e quiet good" "base n e good w" "valid_slot e i" "affinity e i = k"
  shows "a_pub (view (snd (retire_vcpu e k i w))) i = PwOff"
proof -
  note b = baseD [OF assms(2)] and c = settingD(1) [OF assms(1)]
  have "a_pub (view w) i = PwOn \<longleftrightarrow> a_st (view w) i \<noteq> StOff" by (rule power_okD(4) [OF b(2)])
  then show ?thesis unfolding view_retire [OF b(1) c] using assms(3,4)
    by (cases "a_pub (view w) i") (auto simp: a_retire_def a_cancel_def a_down_def)
qed

lemma kept_retire:
  assumes "setting n e quiet good" "safe n e quiet good B w"
  shows "kept n e quiet good B w (snd (retire_vcpu e k i w))"
  by (rule kept_quiet [OF assms ev_retire [OF assms(1) safeD(1) [OF assms(2)]]])

text \<open>Retire a local vCPU and acknowledge it on the spot.\<close>

lemma kept_retire_ack:
  assumes s: "setting n e quiet good" and w: "safe n e quiet good B w" and i: "valid_slot e i" "affinity e i = k"
  shows "kept n e quiet good B w (acknowledge_quiesce e k i ep (snd (retire_vcpu e k i w)))"
  by (rule kept_trans [OF kept_retire [OF s w] kept_acknowledge [OF s keptD(1) [OF kept_retire [OF s w]]]])
    (rule retired_off [OF s safeD(1) [OF w] i])

section \<open>Timers of the coordinator\<close>

lemma safe_dma_pending:
  assumes "setting n e quiet good" "safe n e quiet good B w"
    and "vm < length (en_guests e) \<Longrightarrow> qt_active (w_lifecycle w ! vm) \<Longrightarrow> \<not> b \<Longrightarrow> \<not> w_dma_failed w ! vm \<Longrightarrow> quiet vm (w_dev w)"
  shows "kept n e quiet good B w (set_dma_pending vm b w)"
proof -
  have "safe n e quiet good B (set_dma_pending vm b w)"
  proof (rule safe_at [OF assms(2)])
    assume vm: "vm < length (en_guests e)"
    note p = protoD(1) [OF safeD(2) [OF assms(2)] vm] and l = safe_vm [OF settingD(1) [OF assms(1)] safeD(1) [OF assms(2)] vm]
    show "vm_proto e quiet (msgs w \<union> B) vm (set_dma_pending vm b w)"
      by (rule vm_protoI) (use vm_protoD(1-4) [OF p] vm_protoD(5) [OF p] vm_protoD(7,8) [OF p] assms(3) [OF vm] l in \<open>simp_all\<close>)
  qed (use safeD(1) [OF assms(2)] in simp_all)
  then show ?thesis by (simp add: kept_def)
qed

lemma safe_dma_failed:
  assumes "setting n e quiet good" "safe n e quiet good B w"
    and "vm < length (en_guests e) \<Longrightarrow> qt_active (w_lifecycle w ! vm) \<Longrightarrow> \<not> b \<Longrightarrow> \<not> w_dma_pending w ! vm \<Longrightarrow> quiet vm (w_dev w)"
  shows "kept n e quiet good B w (set_dma_failed vm b w)"
proof -
  have "safe n e quiet good B (set_dma_failed vm b w)"
  proof (rule safe_at [OF assms(2)])
    assume vm: "vm < length (en_guests e)"
    note p = protoD(1) [OF safeD(2) [OF assms(2)] vm] and l = safe_vm [OF settingD(1) [OF assms(1)] safeD(1) [OF assms(2)] vm]
    show "vm_proto e quiet (msgs w \<union> B) vm (set_dma_failed vm b w)"
      by (rule vm_protoI) (use vm_protoD(1-4) [OF p] vm_protoD(5) [OF p] vm_protoD(7,8) [OF p] assms(3) [OF vm] l in \<open>simp_all\<close>)
  qed (use safeD(1) [OF assms(2)] in simp_all)
  then show ?thesis by (simp add: kept_def)
qed

lemma kept_dma:
  assumes "setting n e quiet good" "safe n e quiet good B w"
  shows "kept n e quiet good B w (snd (dma_begin_quiesce e vm w))" "kept n e quiet good B w (snd (dma_poll_quiesce e vm w))"
  using kept_quiet [OF assms ev_dmas(1) [OF assms(1) safeD(1) [OF assms(2)]]]
    kept_quiet [OF assms ev_dmas(2) [OF assms(1) safeD(1) [OF assms(2)]]] by simp_all

lemma kept_dma_drain:
  assumes s: "setting n e quiet good" and w: "safe n e quiet good B w"
  shows "kept n e quiet good B w (on_dma_drain e k vm w)"
proof (cases "vm \<ge> length (en_guests e) \<or> \<not> w_dma_pending w ! vm \<or> lifecycle_token vm w = kLifecycleInactive")
  case True
  then show ?thesis using kept_refl [OF w] by (auto simp: on_dma_drain_def)
next
  case False
  then have vm: "vm < length (en_guests e)" by simp
  let ?p = "dma_poll_quiesce e vm w"
  note 1 = kept_dma(2) [OF s w, where vm = vm]
  note arm = kept_trans [OF 1 kept_timer(2) [OF s keptD(1) [OF 1]]]
  have done': "kept n e quiet good B w (finish_lifecycle e k vm (set_dma_pending vm False (snd ?p)))" if "fst ?p = DqComplete"
  proof -
    have 2: "kept n e quiet good B (snd ?p) (set_dma_pending vm False (snd ?p))"
      by (rule safe_dma_pending [OF s keptD(1) [OF 1]]) (rule dma_complete(2) [OF s baseD(4) [OF safeD(1) [OF w]] that])
    show ?thesis by (rule kept_trans [OF kept_trans [OF 1 2] kept_finish [OF s keptD(1) [OF 2] vm]])
  qed
  have fail: "kept n e quiet good B w (finish_lifecycle e k vm (set_dma_failed vm True (set_dma_pending vm False (snd ?p))))"
  proof -
    let ?f = "set_dma_failed vm True (snd ?p)"
    have 2: "kept n e quiet good B (snd ?p) ?f" by (rule safe_dma_failed [OF s keptD(1) [OF 1]]) simp
    have l: "vm < length (w_dma_failed (snd ?p))" by (rule safe_vm(4) [OF settingD(1) [OF s] safeD(1) [OF keptD(1) [OF 1]] vm])
    have 3: "kept n e quiet good B ?f (set_dma_pending vm False ?f)"
      by (rule safe_dma_pending [OF s keptD(1) [OF 2]]) (use l in simp)
    have c: "set_dma_pending vm False ?f = set_dma_failed vm True (set_dma_pending vm False (snd ?p))"
      by (simp add: set_dma_pending_def set_dma_failed_def)
    note 4 = kept_trans [OF 1 kept_trans [OF 2 3]]
    show ?thesis using kept_trans [OF 4 kept_finish [OF s keptD(1) [OF 4] vm]] unfolding c .
  qed
  show ?thesis unfolding on_dma_drain_def arm_dma_poll_def using False arm done' fail
    by (simp add: Let_def case_prod_unfold split: DmaQuiesceResult.split)
qed

lemma timeout_epoch:
  assumes "tracker_on_timeout ep t = (r, t')"
  shows "r \<noteq> ToIgnored \<Longrightarrow> qt_active t \<and> ep = qt_epoch t" "qt_epoch t' = qt_epoch t" "qt_active t' = qt_active t"
    "qt_pending_mask t' = qt_pending_mask t"
  using assms by (auto simp: tracker_on_timeout_def split: if_splits)

lemma safe_retries:
  assumes "setting n e quiet good" "safe n e quiet good B w"
    and "qt_epoch q = qt_epoch (w_lifecycle w ! vm)" "qt_active q = qt_active (w_lifecycle w ! vm)"
      "qt_pending_mask q = qt_pending_mask (w_lifecycle w ! vm)"
  shows "kept n e quiet good B w (set_tracker vm q w)"
proof -
  have "safe n e quiet good B (set_tracker vm q w)"
  proof (rule safe_at [OF assms(2)])
    assume vm: "vm < length (en_guests e)"
    note p = protoD(1) [OF safeD(2) [OF assms(2)] vm] and l = safe_vm [OF settingD(1) [OF assms(1)] safeD(1) [OF assms(2)] vm]
    have t: "w_lifecycle (set_tracker vm q w) ! vm = q" using l(1) by simp
    show "vm_proto e quiet (msgs w \<union> B) vm (set_tracker vm q w)"
      by (rule vm_protoI, unfold t assms(3-5))
        (use vm_protoD(1-4) [OF p] vm_protoD(5,6) [OF p] vm_protoD(7,8) [OF p] in \<open>simp_all\<close>)
  qed (use safeD(1) [OF assms(2)] in simp_all)
  then show ?thesis using assms(3) by (simp add: kept_def epoch_upd)
qed

lemma kept_resend:
  assumes s: "setting n e quiet good" and w: "safe n e quiet good B w" and vm: "vm < length (en_guests e)" "v < guest_vcpus e vm"
    and ep: "qt_epoch (w_lifecycle w ! vm) = ep"
  shows "kept n e quiet good B w (resend_quiesce e k vm ep pending v w)"
proof -
  note c = cfg_slot [OF settingD(1) [OF s] vm]
  have 1: "kept n e quiet good B w (acknowledge_quiesce e k (slot_of vm v) ep (snd (retire_vcpu e k (slot_of vm v) w)))"
    if "affinity e (slot_of vm v) = k"
    by (rule kept_retire_ack [OF s w c(1) that])
  have 2: "kept n e quiet good B w (snd (enqueue (slot_cpu e (slot_of vm v)) (req OpQuiesceVcpu (slot_of vm v) ep 0) True w))"
    by (rule safe_enqueue [OF s w]) (use c ep in \<open>simp_all add: req_def affinity_cpu\<close>)
  show ?thesis unfolding resend_quiesce_def Let_def using kept_refl [OF w] 1 2 by (simp add: affinity_cpu)
qed

lemma kept_fold_epoch:
  assumes "safe n e quiet good B w" "qt_epoch (w_lifecycle w ! vm) = ep"
    and "\<And>x w. x \<in> set xs \<Longrightarrow> safe n e quiet good B w \<Longrightarrow> qt_epoch (w_lifecycle w ! vm) = ep \<Longrightarrow> kept n e quiet good B w (f x w)"
  shows "kept n e quiet good B w (fold f xs w)"
  using assms
proof (induction xs arbitrary: w)
  case (Cons x xs)
  have f: "kept n e quiet good B w (f x w)" using Cons.prems by simp
  have "kept n e quiet good B (f x w) (fold f xs (f x w))"
    by (rule Cons.IH [OF keptD(1) [OF f]]) (use Cons.prems keptD(2) [OF f] in simp_all)
  then show ?case using kept_trans [OF f] by simp
qed (simp add: kept_refl)

lemma kept_timeout:
  assumes s: "setting n e quiet good" and w: "safe n e quiet good B w"
  shows "kept n e quiet good B w (on_lifecycle_timeout e k vm w)"
proof (cases "vm \<ge> length (en_guests e)")
  case True
  then show ?thesis using kept_refl [OF w] by (simp add: on_lifecycle_timeout_def)
next
  case False
  then have vm: "vm < length (en_guests e)" by simp
  let ?ep = "lifecycle_token vm w"
  obtain r t where rt: "tracker_on_timeout ?ep (w_lifecycle w ! vm) = (r, t)" by fastforce
  note q = timeout_epoch [OF rt]
  let ?w = "set_tracker vm t w"
  have 1: "kept n e quiet good B w ?w" by (rule safe_retries [OF s w q(2-4)])
  note sw = keptD(1) [OF 1]
  have l: "vm < length (w_lifecycle w)" by (rule safe_vm(1) [OF settingD(1) [OF s] safeD(1) [OF w] vm])
  let ?re = "fold (resend_quiesce e k vm ?ep (qt_pending_mask t)) [0 ..< guest_vcpus e vm] ?w"
  have retry: "kept n e quiet good B ?w ?re" if "r = ToRetry"
  proof (rule kept_fold_epoch [OF sw])
    show "qt_epoch (w_lifecycle ?w ! vm) = ?ep" using q(1,2) that l by simp
    show "kept n e quiet good B w' (resend_quiesce e k vm ?ep (qt_pending_mask t) v w')"
      if "v \<in> set [0 ..< guest_vcpus e vm]" "safe n e quiet good B w'" "qt_epoch (w_lifecycle w' ! vm) = ?ep" for v w'
      by (rule kept_resend [OF s that(2) vm _ that(3)]) (use that(1) in simp)
  qed
  let ?ca = "fold (\<lambda>v w. if qt_pending_mask t AND push_bit v 1 \<noteq> 0 then cancel_start e (slot_of vm v) w else w)
      [0 ..< guest_vcpus e vm] ?w"
  have ca: "kept n e quiet good B ?w ?ca"
    by (rule kept_fold [OF sw])
      (simp add: kept_refl kept_quiet [OF s _ ev_cancel [OF s safeD(1)]])
  have can: "safe n e quiet good B (set_tracker vm (tracker_cancel (w_lifecycle ?ca ! vm)) ?ca)"
    by (rule safe_deactivate [OF s keptD(1) [OF ca]]) simp_all
  then have can': "kept n e quiet good B ?ca (set_tracker vm (tracker_cancel (w_lifecycle ?ca ! vm)) ?ca)"
    by (simp add: kept_def epoch_upd)
  note 2 = kept_trans [OF 1 kept_trans [OF ca kept_trans [OF can' kept_timer(3) [OF s can]]]]
  have 3: "kept n e quiet good B w (if lifecycle_token vm ?re = ?ep \<and> qt_active (w_lifecycle ?re ! vm)
      then arm_lifecycle_timeout e k vm ?re else ?re)" if "r = ToRetry"
    using kept_trans [OF 1 retry [OF that]] kept_trans [OF kept_trans [OF 1 retry [OF that]] kept_timer(2) [OF s keptD(1) [OF retry [OF that]]]]
    by (simp add: arm_lifecycle_timeout_def)
  show ?thesis unfolding on_lifecycle_timeout_def rt Let_def using vm 1 2 3 by (cases r) simp_all
qed

section \<open>Opening a lifecycle\<close>

lemma bit_live_mask:
  assumes "setting n e quiet good" "base n e good w" "vm < length (en_guests e)" "v < guest_vcpus e vm"
  shows "bit (live_mask e vm w) v \<longleftrightarrow> a_pub (view w) (slot_of vm v) \<noteq> PwOff"
proof -
  note c = cfg_slot [OF settingD(1) [OF assms(1)] assms(3,4)]
  have v: "v < 32" using assms settingD(1) [OF assms(1)] by (auto simp: cfg_ok_def kMaxVcpusPerVm_def dest!: spec [of _ vm])
  have "bit (live_mask e vm w) v \<longleftrightarrow> vcpu_on e (slot_of vm v) w"
    unfolding live_mask_def bit_or_loop [where f = "\<lambda>v. v"] using v assms(4) by auto
  then show ?thesis using c view_at(3) [OF baseD(1) [OF assms(2)] c(2)] by (simp add: vcpu_on_def power_state_def)
qed

lemma bit_plan:
  assumes "setting n e quiet good" "base n e good w" "vm < length (en_guests e)" "v < guest_vcpus e vm" "a_pub (view w) (slot_of vm v) \<noteq> PwOff"
  shows "bit (live_mask e vm w AND allowed_mask kMaxVcpusPerVm) v"
proof -
  have "v < kMaxVcpusPerVm" using assms settingD(1) [OF assms(1)] by (auto simp: cfg_ok_def dest!: spec [of _ vm])
  then show ?thesis using bit_live_mask [OF assms(1-4)] assms(5) bit_allowed_mask [of kMaxVcpusPerVm v]
    by (simp add: bit_and_iff kMaxVcpusPerVm_def)
qed

lemma begin_epoch_next:
  assumes "unat ep < 2 ^ 64 - 2"
  shows "unat (begin_epoch ep) = unat ep + 1"
proof -
  have e1: "unat (ep + 1) = unat ep + 1" using assms by (simp add: unat_word_ariths)
  then have "ep + 1 \<noteq> 0" by (metis add_is_0 one_neq_zero unat_0)
  moreover have "ep + 1 \<noteq> kUnpublishedEpoch"
  proof
    assume "ep + 1 = kUnpublishedEpoch"
    then have "unat ep + 1 = unat kUnpublishedEpoch" using e1 by simp
    moreover have "unat kUnpublishedEpoch = 2 ^ 64 - 1" by (simp add: kUnpublishedEpoch_def unsigned_minus_1_eq_mask mask_eq_exp_minus_1)
    ultimately show False using assms by simp
  qed
  ultimately show ?thesis using e1 by (simp add: begin_epoch_def Let_def)
qed

text \<open>The state in which a new epoch is published, the drain still counted as pending.\<close>

definition opened :: "'d Env \<Rightarrow> nat \<Rightarrow> LifecycleMode \<Rightarrow> ('d, 'z) SmpWorld_scheme \<Rightarrow> ('d, 'z) SmpWorld_scheme" where
  "opened e vm mode w =
     set_dma_failed vm False (set_dma_pending vm True (set_mode vm mode
       (set_token vm (begin_epoch (qt_epoch (w_lifecycle w ! vm)))
         (set_tracker vm (snd (tracker_begin kMaxVcpusPerVm (live_mask e vm w) (w_lifecycle w ! vm))) w))))"

lemma begin_fields:
  assumes "\<not> qt_active t"
  shows "tracker_begin m lv t = (\<lparr>qp_accepted = True, qp_epoch = begin_epoch (qt_epoch t), qp_pending_mask = lv AND allowed_mask m\<rparr>,
    \<lparr>qt_epoch = begin_epoch (qt_epoch t), qt_pending_mask = lv AND allowed_mask m, qt_retries = 0, qt_active = True\<rparr>)"
  using assms by (simp add: tracker_begin_def Let_def)

lemma safe_opened:
  assumes s: "setting n e quiet good" and w: "safe n e quiet good B w" and vm: "vm < length (en_guests e)"
    and r: "lifecycle_token vm w = kLifecycleReserved" and fresh: "unat (qt_epoch (w_lifecycle w ! vm)) < 2 ^ 64 - 2"
  shows "safe n e quiet good B (opened e vm mode w)" "qt_epoch (w_lifecycle (opened e vm mode w) ! vm) = begin_epoch (qt_epoch (w_lifecycle w ! vm))"
proof -
  note p = protoD(1) [OF safeD(2) [OF w] vm] and l = safe_vm [OF settingD(1) [OF s] safeD(1) [OF w] vm]
  note b = begin_fields [OF reserved_inactive [OF p r]]
  let ?w = "opened e vm mode w"
  have t: "w_lifecycle ?w ! vm = \<lparr>qt_epoch = begin_epoch (qt_epoch (w_lifecycle w ! vm)),
      qt_pending_mask = live_mask e vm w AND allowed_mask kMaxVcpusPerVm, qt_retries = 0, qt_active = True\<rparr>"
    using l(1) by (simp add: opened_def b)
  have o: "lifecycle_token vm ?w = begin_epoch (qt_epoch (w_lifecycle w ! vm))" "w_dma_pending ?w ! vm" "view ?w = view w"
    using l by (simp_all add: opened_def)
  note n = begin_epoch_next [OF fresh]
  show "qt_epoch (w_lifecycle ?w ! vm) = begin_epoch (qt_epoch (w_lifecycle w ! vm))" by (simp add: t)
  show "safe n e quiet good B ?w"
  proof (rule safe_at [OF w])
    show "vm_proto e quiet (msgs w \<union> B) vm ?w"
    proof (rule vm_protoI, unfold t o(3))
      fix v assume "v < guest_vcpus e vm" "a_pub (view w) (slot_of vm v) \<noteq> PwOff"
      from bit_plan [OF s safeD(1) [OF w] vm this] show "bit (qt_pending_mask \<lparr>qt_epoch = begin_epoch (qt_epoch (w_lifecycle w ! vm)),
          qt_pending_mask = live_mask e vm w AND allowed_mask kMaxVcpusPerVm, qt_retries = 0, qt_active = True\<rparr>) v" by simp
    next
      fix k m assume m: "(k, m) \<in> msgs w \<union> B" "quiesce_msg m" "vm_of (rq_idx m) = vm"
      have "unat (rq_a m) \<le> unat (begin_epoch (qt_epoch (w_lifecycle w ! vm)))" using vm_protoD(7) [OF p m] n by simp
      then show "unat (rq_a m) \<le> unat (qt_epoch \<lparr>qt_epoch = begin_epoch (qt_epoch (w_lifecycle w ! vm)),
          qt_pending_mask = live_mask e vm w AND allowed_mask kMaxVcpusPerVm, qt_retries = 0, qt_active = True\<rparr>)" by simp
    next
      fix k m assume m: "(k, m) \<in> msgs w \<union> B" "vm_of (rq_idx m) = vm" "rq_op m = OpQuiesceAck"
        "rq_a m = qt_epoch \<lparr>qt_epoch = begin_epoch (qt_epoch (w_lifecycle w ! vm)),
          qt_pending_mask = live_mask e vm w AND allowed_mask kMaxVcpusPerVm, qt_retries = 0, qt_active = True\<rparr>"
      have "unat (rq_a m) \<le> unat (qt_epoch (w_lifecycle w ! vm))" using vm_protoD(7) [OF p m(1) _ m(2)] m(3) by (simp add: quiesce_msg_def)
      then have False using m(4) n by simp
      then show "a_pub (view w) (rq_idx m) = PwOff" by simp
    qed (use begin_epoch_live o in simp_all)
  qed (use safeD(1) [OF w] in \<open>simp_all add: opened_def lifecycle_token_def\<close>)
qed

lemma dma_begin_flags:
  "fst (dma_begin_quiesce e vm (set_dma_pending x b w)) = fst (dma_begin_quiesce e vm w)"
  "snd (dma_begin_quiesce e vm (set_dma_pending x b w)) = set_dma_pending x b (snd (dma_begin_quiesce e vm w))"
  by (simp_all add: dma_begin_quiesce_def dma_quiesce_def set_dma_pending_def case_prod_unfold Let_def)

lemma pending_twice: "set_dma_pending x b (set_dma_pending x c w) = set_dma_pending x b w"
  by (simp add: set_dma_pending_def)

lemma pending_failed: "set_dma_failed x b (set_dma_pending x c w) = set_dma_pending x c (set_dma_failed x b w)"
  by (simp add: set_dma_pending_def set_dma_failed_def)

text \<open>The drain request, with the flags it sets.\<close>

lemma kept_drain_request:
  assumes s: "setting n e quiet good" and w: "safe n e quiet good B w" and vm: "vm < length (en_guests e)"
  shows "kept n e quiet good B w (let (r, w3) = dma_begin_quiesce e vm (set_dma_pending vm False w) in
     case r of DqComplete \<Rightarrow> w3 | DqPending \<Rightarrow> arm_dma_poll e k vm (set_dma_pending vm True w3) | DqFailed \<Rightarrow> set_dma_failed vm True w3)"
proof -
  let ?x = "snd (dma_begin_quiesce e vm w)"
  note 1 = kept_dma(1) [OF s w, where vm = vm] note sx = keptD(1) [OF 1]
  have complete: "kept n e quiet good B w (set_dma_pending vm False ?x)" if "fst (dma_begin_quiesce e vm w) = DqComplete"
    by (rule kept_trans [OF 1 safe_dma_pending [OF s sx]]) (rule dma_complete(1) [OF s baseD(4) [OF safeD(1) [OF w]] that])
  have t: "kept n e quiet good B ?x (set_dma_pending vm True ?x)" by (rule safe_dma_pending [OF s sx]) simp
  note pending = kept_trans [OF 1 kept_trans [OF t kept_timer(2) [OF s keptD(1) [OF t]]]]
  have f: "kept n e quiet good B ?x (set_dma_failed vm True ?x)" by (rule safe_dma_failed [OF s sx]) simp
  have l: "vm < length (w_dma_failed ?x)" by (rule safe_vm(4) [OF settingD(1) [OF s] safeD(1) [OF sx] vm])
  have fp: "kept n e quiet good B (set_dma_failed vm True ?x) (set_dma_pending vm False (set_dma_failed vm True ?x))"
    by (rule safe_dma_pending [OF s keptD(1) [OF f]]) (use l in simp)
  note failed = kept_trans [OF 1 kept_trans [OF f fp]]
  show ?thesis using complete pending failed
    by (simp add: case_prod_unfold Let_def dma_begin_flags pending_twice pending_failed arm_dma_poll_def split: DmaQuiesceResult.split)
qed

lemma kept_quiesce_remote:
  assumes s: "setting n e quiet good" and w: "safe n e quiet good B w" and vm: "vm < length (en_guests e)" "v < guest_vcpus e vm"
    and ep: "qt_epoch (w_lifecycle w ! vm) = ep"
  shows "kept n e quiet good B w (quiesce_remote e k vm ep live v w)"
proof -
  note c = cfg_slot [OF settingD(1) [OF s] vm]
  have "kept n e quiet good B w (snd (enqueue (slot_cpu e (slot_of vm v)) (req OpQuiesceVcpu (slot_of vm v) ep 0) True w))"
    by (rule safe_enqueue [OF s w]) (use c ep in \<open>simp_all add: req_def affinity_cpu\<close>)
  then show ?thesis unfolding quiesce_remote_def Let_def using kept_refl [OF w] by simp
qed

lemma kept_quiesce_local:
  assumes s: "setting n e quiet good" and w: "safe n e quiet good B (snd sw)" and vm: "vm < length (en_guests e)" "v < guest_vcpus e vm"
  shows "kept n e quiet good B (snd sw) (snd (quiesce_local e k vm ep live v sw))"
proof -
  note c = cfg_slot [OF settingD(1) [OF s] vm]
  have "kept n e quiet good B (snd sw) (acknowledge_quiesce e k (slot_of vm v) ep (snd (retire_vcpu e k (slot_of vm v) (snd sw))))"
    if "slot_cpu e (slot_of vm v) = k" by (rule kept_retire_ack [OF s w c(1)]) (use that in \<open>simp add: affinity_cpu\<close>)
  then show ?thesis unfolding quiesce_local_def Let_def using kept_refl [OF w] by (cases sw) (simp add: case_prod_unfold)
qed

lemma kept_fold_snd:
  assumes "safe n e quiet good B (snd sw)"
    and "\<And>x sw. x \<in> set xs \<Longrightarrow> safe n e quiet good B (snd sw) \<Longrightarrow> kept n e quiet good B (snd sw) (snd (f x sw))"
  shows "kept n e quiet good B (snd sw) (snd (fold f xs sw))"
  using assms
proof (induction xs arbitrary: sw)
  case (Cons x xs)
  have f: "kept n e quiet good B (snd sw) (snd (f x sw))" using Cons.prems by simp
  have "kept n e quiet good B (snd (f x sw)) (snd (fold f xs (f x sw)))"
    by (rule Cons.IH [OF keptD(1) [OF f]]) (use Cons.prems(2) in simp)
  then show ?case using kept_trans [OF f] by simp
qed (simp add: kept_refl)

text \<open>Room left before the epoch of a VM wraps, and operations that open at most \<open>m\<close> lifecycles.\<close>

definition fresh :: "nat \<Rightarrow> nat \<Rightarrow> ('d, 'z) SmpWorld_scheme \<Rightarrow> bool" where
  "fresh j vm w \<longleftrightarrow> unat (qt_epoch (w_lifecycle w ! vm)) + j < 2 ^ 64 - 2"

definition moved ::
  "nat \<Rightarrow> 'd Env \<Rightarrow> (nat \<Rightarrow> 'd \<Rightarrow> bool) \<Rightarrow> ('d \<Rightarrow> bool) \<Rightarrow> (nat \<times> Request) set \<Rightarrow> nat \<Rightarrow> ('d, 'z) SmpWorld_scheme \<Rightarrow> ('d, 'z) SmpWorld_scheme \<Rightarrow> bool" where
  "moved n e quiet good B m w w' \<longleftrightarrow> safe n e quiet good B w'
     \<and> (\<forall>x. unat (qt_epoch (w_lifecycle w' ! x)) \<le> unat (qt_epoch (w_lifecycle w ! x)) + m)"

lemma movedD: "moved n e quiet good B m w w' \<Longrightarrow> safe n e quiet good B w'"
  by (simp add: moved_def)

lemma moved_kept: "kept n e quiet good B w w' \<Longrightarrow> moved n e quiet good B m w w'"
  by (simp add: moved_def kept_def)

lemma moved_trans:
  assumes "moved n e quiet good B a w w'" "moved n e quiet good B b w' w''"
  shows "moved n e quiet good B (a + b) w w''"
  unfolding moved_def
proof (intro conjI allI)
  show "unat (qt_epoch (w_lifecycle w'' ! x)) \<le> unat (qt_epoch (w_lifecycle w ! x)) + (a + b)" for x
  proof -
    have "unat (qt_epoch (w_lifecycle w'' ! x)) \<le> unat (qt_epoch (w_lifecycle w' ! x)) + b"
      "unat (qt_epoch (w_lifecycle w' ! x)) \<le> unat (qt_epoch (w_lifecycle w ! x)) + a" using assms by (simp_all add: moved_def)
    then show ?thesis by linarith
  qed
qed (rule movedD [OF assms(2)])

lemma moved_then: "moved n e quiet good B m w w' \<Longrightarrow> kept n e quiet good B w' w'' \<Longrightarrow> moved n e quiet good B m w w''"
  using moved_trans [OF _ moved_kept, where b = 0] by fastforce

lemma then_moved: "kept n e quiet good B w w' \<Longrightarrow> moved n e quiet good B m w' w'' \<Longrightarrow> moved n e quiet good B m w w''"
  using moved_trans [OF moved_kept, where a = 0] by fastforce

lemma fresh_moved:
  assumes "moved n e quiet good B m w w'" "fresh (m + j) vm w"
  shows "fresh j vm w'"
proof -
  have "unat (qt_epoch (w_lifecycle w' ! vm)) \<le> unat (qt_epoch (w_lifecycle w ! vm)) + m" using assms(1) by (simp add: moved_def)
  then show ?thesis using assms(2) unfolding fresh_def by linarith
qed

lemma moved_begin:
  assumes s: "setting n e quiet good" and w: "safe n e quiet good B w" and fr: "vm < length (en_guests e) \<Longrightarrow> fresh 0 vm w"
  shows "moved n e quiet good B 1 w (snd (begin_lifecycle_local e k vm mode w))"
proof (cases "vm \<ge> length (en_guests e) \<or> lifecycle_token vm w \<noteq> kLifecycleReserved")
  case True
  then show ?thesis using moved_kept [OF kept_refl [OF w]] by (auto simp: begin_lifecycle_local_def)
next
  case False
  then have vm: "vm < length (en_guests e)" and r: "lifecycle_token vm w = kLifecycleReserved" by auto
  note p = protoD(1) [OF safeD(2) [OF w] vm] and l = safe_vm [OF settingD(1) [OF s] safeD(1) [OF w] vm]
  note ina = reserved_inactive [OF p r]
  note o = safe_opened [OF s w vm r, where mode = mode] and o1 = safe_opened(1) [OF s w vm r, where mode = mode]
  have fresh: "unat (qt_epoch (w_lifecycle w ! vm)) < 2 ^ 64 - 2" using fr [OF vm] by (simp add: fresh_def)
  note so = o(1) [OF fresh] and eo = o(2) [OF fresh]
  let ?o = "opened e vm mode w" let ?ep = "begin_epoch (qt_epoch (w_lifecycle w ! vm))" let ?lv = "live_mask e vm w"
  let ?w2 = "set_dma_pending vm False ?o"
  have w2: "set_dma_failed vm False (set_dma_pending vm False (set_mode vm mode (set_token vm ?ep (set_tracker vm
      \<lparr>qt_epoch = ?ep, qt_pending_mask = ?lv AND allowed_mask kMaxVcpusPerVm, qt_retries = 0, qt_active = True\<rparr> w)))) = ?w2"
    by (simp add: opened_def begin_fields [OF ina] pending_failed pending_twice)
  have lo: "vm < length (w_lifecycle ?o)" "w_lifecycle ?w2 = w_lifecycle ?o"
    using l by (simp_all add: opened_def)
  have up: "moved n e quiet good B 1 w ?o"
  proof -
    have "unat (qt_epoch (w_lifecycle ?o ! x)) \<le> unat (qt_epoch (w_lifecycle w ! x)) + 1" for x
    proof (cases "x = vm")
      case True
      then show ?thesis using eo begin_epoch_next [OF fresh] by simp
    next
      case False
      then show ?thesis by (simp add: opened_def)
    qed
    then show ?thesis using so by (simp add: moved_def)
  qed
  have off: "kept n e quiet good B ?o (release_lifecycle vm (set_tracker vm (tracker_cancel (w_lifecycle ?w2 ! vm)) ?w2))"
  proof -
    let ?c = "set_tracker vm (tracker_cancel (w_lifecycle ?o ! vm)) ?o"
    have c: "safe n e quiet good B ?c" by (rule safe_deactivate [OF s so]) simp_all
    have c': "kept n e quiet good B ?o ?c" using c by (simp add: kept_def epoch_upd)
    have d: "kept n e quiet good B ?c (set_dma_pending vm False ?c)"
      by (rule safe_dma_pending [OF s c]) (use lo in simp)
    have e: "set_dma_pending vm False ?c = set_tracker vm (tracker_cancel (w_lifecycle ?w2 ! vm)) ?w2"
      by (simp add: lo set_tracker_def set_dma_pending_def)
    show ?thesis unfolding e [symmetric]
      by (rule kept_trans [OF kept_trans [OF c' d] kept_release [OF s keptD(1) [OF d]]]) (use lo in simp)
  qed
  let ?w4 = "let (r, w3) = dma_begin_quiesce e vm ?w2 in
     case r of DqComplete \<Rightarrow> w3 | DqPending \<Rightarrow> arm_dma_poll e k vm (set_dma_pending vm True w3) | DqFailed \<Rightarrow> set_dma_failed vm True w3"
  have 4: "kept n e quiet good B ?o ?w4" by (rule kept_drain_request [OF s so vm])
  let ?w5 = "fold (quiesce_remote e k vm ?ep ?lv) [0 ..< guest_vcpus e vm] (arm_lifecycle_timeout e k vm ?w4)"
  have a: "kept n e quiet good B ?w4 (arm_lifecycle_timeout e k vm ?w4)"
    unfolding arm_lifecycle_timeout_def by (rule kept_timer(2) [OF s keptD(1) [OF 4]])
  note four = kept_trans [OF 4 a]
  have 5: "kept n e quiet good B (arm_lifecycle_timeout e k vm ?w4) ?w5"
    by (rule kept_fold_epoch [OF keptD(1) [OF a], where vm = vm and ep = ?ep])
      (use keptD(2) [OF four] eo kept_quiesce_remote [OF s _ vm] in auto)
  let ?w6 = "fold (quiesce_local e k vm ?ep ?lv) [0 ..< guest_vcpus e vm] (False, ?w5)"
  have "kept n e quiet good B (snd (False, ?w5)) (snd ?w6)"
  proof (rule kept_fold_snd)
    show "safe n e quiet good B (snd (False, ?w5))" using keptD(1) [OF 5] by simp
    show "kept n e quiet good B (snd sw) (snd (quiesce_local e k vm ?ep ?lv v sw))"
      if "v \<in> set [0 ..< guest_vcpus e vm]" "safe n e quiet good B (snd sw)" for v sw
      by (rule kept_quiesce_local [OF s that(2) vm]) (use that(1) in simp)
  qed
  then have 6: "kept n e quiet good B ?w5 (snd ?w6)" by simp
  note f = kept_finish [OF s keptD(1) [OF 6] vm]
  note t6 = kept_trans [OF four kept_trans [OF 5 6]]
  note t7 = kept_trans [OF t6 f]
  have rel: "moved n e quiet good B 1 w (release_lifecycle vm w)" by (rule moved_kept [OF kept_release [OF s w ina]])
  show ?thesis
    unfolding begin_lifecycle_local_def Let_def begin_fields [OF ina]
    using False rel moved_then [OF up off] moved_then [OF up t6] moved_then [OF up t7]
    by (simp add: w2 case_prod_unfold Let_def)
qed

end
