(* ===== verification/NovaSmpSteps.thy ===== *)
theory NovaSmpSteps
  imports NovaSmpProto
begin

text \<open>
  The requests, the message handlers, the guest calls, the timer callbacks and the
  interrupt handlers of the machine keep the protocol invariant, and the transition
  system they form: one handler of one core per step, the cross-call batch one
  message per step, the guests, the clock and the devices moving in between.
\<close>

section \<open>Stop and reset requests\<close>

definition all_fresh :: "nat \<Rightarrow> 'd Env \<Rightarrow> ('d, 'z) SmpWorld_scheme \<Rightarrow> bool" where
  "all_fresh m e w \<longleftrightarrow> (\<forall>vm < length (en_guests e). fresh m vm w)"

lemma all_fresh_moved:
  assumes "moved n e quiet good B m w w'" "all_fresh (m + j) e w"
  shows "all_fresh j e w'"
  using fresh_moved [OF assms(1)] assms(2) by (auto simp: all_fresh_def)

lemma all_fresh_kept: "kept n e quiet good B w w' \<Longrightarrow> all_fresh j e w \<Longrightarrow> all_fresh j e w'"
  using all_fresh_moved [OF moved_kept, where m = 0] by fastforce

lemma all_fresh_less: "all_fresh m e w \<Longrightarrow> j \<le> m \<Longrightarrow> all_fresh j e w"
  by (force simp: all_fresh_def fresh_def)

lemma kept_if:
  assumes "setting n e quiet good" "safe n e quiet good B w" "k < n"
  shows "kept n e quiet good B w (schedule_if b e k l w)"
  by (rule kept_quiet [OF assms(1,2) ev_if [OF assms(1) safeD(1) [OF assms(2)] assms(3)]])

lemma kept_retire_self:
  assumes "setting n e quiet good" "safe n e quiet good B w"
  shows "kept n e quiet good B w (snd (retire_self e k vm w))"
  using kept_refl [OF assms(2)] kept_retire [OF assms] by (simp add: retire_self_def split: option.split)

lemma enqueue_lifecycle [simp]: "w_lifecycle (snd (enqueue t r l w)) = w_lifecycle w"
  by (cases rule: enqueue_cases [of t r l w]) simp_all

text \<open>Claiming a free token.\<close>

lemma kept_claim:
  assumes s: "setting n e quiet good" and w: "safe n e quiet good B w" and t: "lifecycle_token vm w = kLifecycleInactive"
  shows "kept n e quiet good B w (begin_lifecycle_transition (set_token vm kLifecycleReserved w))"
proof -
  have 1: "safe n e quiet good B (set_token vm kLifecycleReserved w)" by (rule safe_reserve_token [OF s w t])
  have "kept n e quiet good B w (set_token vm kLifecycleReserved w)" using 1 by (simp add: kept_def)
  then show ?thesis by (rule kept_trans) (rule kept_timer(4) [OF s 1])
qed

text \<open>The common body of a stop and a reset once the token is claimed.\<close>

lemma kept_claim_sent:
  assumes s: "setting n e quiet good" and w: "safe n e quiet good B w" and t: "lifecycle_token vm w = kLifecycleInactive"
    and r: "\<not> quiesce_msg r"
  shows "kept n e quiet good B w (snd (enqueue c r True (begin_lifecycle_transition (set_token vm kLifecycleReserved w))))"
    "kept n e quiet good B w (release_lifecycle vm (snd (enqueue c r True (begin_lifecycle_transition (set_token vm kLifecycleReserved w)))))"
proof -
  let ?w = "begin_lifecycle_transition (set_token vm kLifecycleReserved w)"
  note 1 = kept_claim [OF s w t]
  have 2: "kept n e quiet good B w (snd (enqueue c r True ?w))"
    by (rule kept_trans [OF 1 kept_plain_enqueue [OF s keptD(1) [OF 1] r]])
  show "kept n e quiet good B w (snd (enqueue c r True ?w))" by (rule 2)
  have "\<not> qt_active (w_lifecycle (snd (enqueue c r True ?w)) ! vm)" if "vm < length (en_guests e)"
    using free_inactive [OF protoD(1) [OF safeD(2) [OF w] that] t] by (simp add: begin_lifecycle_transition_def)
  then show "kept n e quiet good B w (release_lifecycle vm (snd (enqueue c r True ?w)))"
    by (intro kept_trans [OF 2] kept_release [OF s keptD(1) [OF 2]])
qed

text \<open>Both requests, with the token claimed and the VM's boot core here or elsewhere.\<close>

lemma moved_lifecycle:
  assumes s: "setting n e quiet good" and w: "safe n e quiet good B w" and fr: "all_fresh 0 e w" and k: "k < n"
    and t: "lifecycle_token vm w = kLifecycleInactive"
  shows "moved n e quiet good B 1 w (schedule_if b e k live (snd (begin_lifecycle_local e k vm mode
      (begin_lifecycle_transition (set_token vm kLifecycleReserved w)))))"
proof -
  let ?w = "begin_lifecycle_transition (set_token vm kLifecycleReserved w)"
  note 1 = kept_claim [OF s w t]
  have b: "moved n e quiet good B 1 ?w (snd (begin_lifecycle_local e k vm mode ?w))"
    by (rule moved_begin [OF s keptD(1) [OF 1]]) (use all_fresh_kept [OF 1 fr] in \<open>simp add: all_fresh_def\<close>)
  show ?thesis by (rule moved_then [OF then_moved [OF 1 b] kept_if [OF s movedD [OF b] k]])
qed

lemma moved_request_stop:
  assumes s: "setting n e quiet good" and w: "safe n e quiet good B w" and fr: "all_fresh 0 e w" and k: "k < n"
  shows "moved n e quiet good B 1 w (snd (request_stop e k vm live sr w))"
proof (cases "lifecycle_token vm w = kLifecycleInactive")
  case True
  let ?m = "snd (enqueue (slot_cpu e (slot_of vm 0)) (req OpBeginStop vm 0 0) True (begin_lifecycle_transition (set_token vm kLifecycleReserved w)))"
  have q: "\<not> quiesce_msg (req OpBeginStop vm 0 0)" by (simp add: quiesce_msg_def req_def)
  note m = kept_claim_sent [OF s w True q, where c = "slot_cpu e (slot_of vm 0)"]
  note i = kept_if [OF s _ k]
  have y: "moved n e quiet good B 1 w (schedule_if b e k live (release_lifecycle vm ?m))" for b
    by (rule moved_kept [OF kept_trans [OF m(2) i [OF keptD(1) [OF m(2)]]]])
  have z: "moved n e quiet good B 1 w (schedule_after_retire e k live ?m)"
    using moved_kept [OF kept_trans [OF m(1) i [OF keptD(1) [OF m(1)], of True live]]] by (simp add: schedule_if_def)
  note r = kept_retire_self [OF s keptD(1) [OF m(1)], where k = k and vm = vm]
  have v: "moved n e quiet good B 1 w (schedule_if b e k live (snd (retire_self e k vm ?m)))" for b
    by (rule moved_kept [OF kept_trans [OF kept_trans [OF m(1) r] i [OF keptD(1) [OF r]]]])
  show ?thesis unfolding request_stop_def using True moved_lifecycle [OF s w fr k True] y z v
    by (simp add: Let_def case_prod_unfold)
next
  case False
  then show ?thesis using moved_kept [OF kept_if [OF s w k]] by (simp add: request_stop_def)
qed

lemma moved_stop:
  assumes "setting n e quiet good" "safe n e quiet good B w" "all_fresh 0 e w" "k < n"
  shows "moved n e quiet good B 1 w (snd (stop_vm e k vm live w))"
  using moved_request_stop [OF assms] moved_kept [OF kept_refl [OF assms(2)]] by (simp add: stop_vm_def)

lemma moved_cpu_off:
  assumes "setting n e quiet good" "safe n e quiet good B w" "all_fresh 0 e w" "k < n"
  shows "moved n e quiet good B 1 w (cpu_off e k i live w)"
proof -
  note r = kept_retire [OF assms(1,2), where k = k and i = i]
  have a: "moved n e quiet good B 1 w (snd (request_stop e k vm live b (snd (retire_vcpu e k i w))))" for vm b
    by (rule then_moved [OF r moved_request_stop [OF assms(1) keptD(1) [OF r] all_fresh_kept [OF r assms(3)] assms(4)]])
  have b: "moved n e quiet good B 1 w (schedule_if b e k live (snd (retire_vcpu e k i w)))" for b
    by (rule moved_kept [OF kept_trans [OF r kept_if [OF assms(1) keptD(1) [OF r] assms(4)]]])
  show ?thesis unfolding cpu_off_def using a b moved_kept [OF kept_refl [OF assms(2)]] by (simp add: Let_def case_prod_unfold)
qed

lemma moved_reset:
  assumes s: "setting n e quiet good" and w: "safe n e quiet good B w" and fr: "all_fresh 0 e w" and k: "k < n"
  shows "moved n e quiet good B 1 w (snd (reset_vm e k vm live w))"
proof (cases "lifecycle_token vm w = kLifecycleInactive")
  case True
  let ?m = "snd (enqueue (slot_cpu e (slot_of vm 0)) (req OpBeginReset vm 0 0) True (begin_lifecycle_transition (set_token vm kLifecycleReserved w)))"
  have q: "\<not> quiesce_msg (req OpBeginReset vm 0 0)" by (simp add: quiesce_msg_def req_def)
  note m = kept_claim_sent [OF s w True q, where c = "slot_cpu e (slot_of vm 0)"]
  note r = kept_retire_self [OF s keptD(1) [OF m(1)], where k = k and vm = vm]
  have v: "moved n e quiet good B 1 w (schedule_if b e k live (snd (retire_self e k vm ?m)))" for b
    by (rule moved_kept [OF kept_trans [OF kept_trans [OF m(1) r] kept_if [OF s keptD(1) [OF r] k]]])
  show ?thesis unfolding reset_vm_def
    using True moved_lifecycle [OF s w fr k True] v moved_kept [OF kept_refl [OF w]] moved_kept [OF m(2)]
    by (simp add: Let_def case_prod_unfold)
next
  case False
  then show ?thesis using moved_kept [OF kept_refl [OF w]] by (simp add: reset_vm_def)
qed

lemma moved_recover:
  assumes "setting n e quiet good" "safe n e quiet good B w" "all_fresh 0 e w" "k < n"
  shows "moved n e quiet good B 1 w (recover_dma_fault e k vm g w)"
  using moved_reset [OF assms] moved_kept [OF kept_refl [OF assms(2)]] by (simp add: recover_dma_fault_def)

lemma moved_more: "moved n e quiet good B a w w' \<Longrightarrow> a \<le> b \<Longrightarrow> moved n e quiet good B b w w'"
  unfolding moved_def by (meson add_left_mono le_trans)

lemma moved_guest_fault:
  assumes s: "setting n e quiet good" and w: "safe n e quiet good B w" and fr: "all_fresh 1 e w" and k: "k < n"
  shows "moved n e quiet good B 2 w (handle_guest_fault e k self w)"
proof -
  let ?r = "snd (reset_vm e k (vm_of self) True w)"
  have r: "moved n e quiet good B 1 w ?r" by (rule moved_reset [OF s w all_fresh_less [OF fr] k]) simp
  have f: "all_fresh 0 e ?r" by (rule all_fresh_moved [OF r]) (use fr in simp)
  have "moved n e quiet good B 2 w (snd (stop_vm e k (vm_of self) True ?r))"
    using moved_trans [OF r moved_stop [OF s movedD [OF r] f k, where vm = "vm_of self" and live = True]] by (simp add: numeral_2_eq_2)
  then show ?thesis unfolding handle_guest_fault_def using moved_more [OF r, of 2] by (simp add: case_prod_unfold Let_def)
qed

section \<open>Watchdog, owner calls and messages\<close>

lemma kept_apply_local:
  assumes s: "setting n e quiet good" and w: "safe n e quiet good B w"
  shows "kept n e quiet good B w (apply_local e k vm dl g q w)"
proof -
  have 1: "kept n e quiet good B w (w\<lparr>w_armed_generation := a, w_armed_sequence := b\<rparr>)" for a b
  proof -
    note x = ev_fields(4) [OF safeD(1) [OF w], where x = a]
    note y = evolves_trans [OF x ev_fields(5) [OF evolves_base [OF x], where x = b]]
    show ?thesis by (rule kept_quiet [OF s w y])
  qed
  note c = kept_trans [OF 1 kept_timer(1) [OF s keptD(1) [OF 1]]]
  note a = kept_trans [OF 1 kept_timer(2) [OF s keptD(1) [OF 1]]]
  show ?thesis unfolding apply_local_def Let_def using kept_refl [OF w] a c by simp
qed

lemma moved_expiry:
  assumes s: "setting n e quiet good" and w: "safe n e quiet good B w" and fr: "all_fresh 0 e w" and k: "k < n"
  shows "moved n e quiet good B 1 w (watchdog_expiry e k vm w)"
proof -
  have 1: "kept n e quiet good B w (w\<lparr>w_armed_generation := a, w_armed_sequence := b\<rparr>)" for a b
  proof -
    note x = ev_fields(4) [OF safeD(1) [OF w], where x = a]
    note y = evolves_trans [OF x ev_fields(5) [OF evolves_base [OF x], where x = b]]
    show ?thesis by (rule kept_quiet [OF s w y])
  qed
  have "moved n e quiet good B 1 w (snd (reset_vm e k vm True (w\<lparr>w_armed_generation := a, w_armed_sequence := b\<rparr>)))" for a b
    by (rule then_moved [OF 1 moved_reset [OF s keptD(1) [OF 1] all_fresh_kept [OF 1 fr] k]])
  then show ?thesis unfolding watchdog_expiry_def using moved_kept [OF kept_refl [OF w]] by simp
qed

lemma moved_owner_call:
  assumes "setting n e quiet good" "safe n e quiet good B w" "all_fresh 0 e w" "k < n"
  shows "moved n e quiet good B 1 w (run_owner_call e k fn vm a b c w)"
  unfolding run_owner_call_def using moved_recover [OF assms] moved_kept [OF kept_apply_local [OF assms(1,2)]]
  by (simp split: OwnerCall.split)

lemma moved_invoke:
  assumes "setting n e quiet good" "safe n e quiet good B w" "all_fresh 0 e w" "k < n"
  shows "moved n e quiet good B 1 w (snd (invoke_vm_owner e k vm fn a b c w))"
  unfolding invoke_vm_owner_def Let_def
  using moved_kept [OF kept_refl [OF assms(2)]] moved_owner_call [OF assms]
    moved_kept [OF kept_plain_enqueue [OF assms(1,2)], of "\<lparr>rq_op = OpVmOwnerCall, rq_idx = vm, rq_a = a, rq_b = b, rq_c = c, rq_callback = Some fn\<rparr>"]
  by (simp add: quiesce_msg_def)

lemma moved_dma_fault:
  assumes "setting n e quiet good" "safe n e quiet good B w" "all_fresh 0 e w" "k < n"
  shows "moved n e quiet good B 1 w (handle_dma_fault e k valid vm sid g w)"
  unfolding handle_dma_fault_def Let_def
  using moved_kept [OF kept_refl [OF assms(2)]] moved_recover [OF assms]
    moved_kept [OF kept_plain_enqueue [OF assms(1,2)], of "\<lparr>rq_op = OpVmOwnerCall, rq_idx = vm, rq_a = sid, rq_b = g, rq_c = 0, rq_callback = Some RecoverDmaFault\<rparr>"]
  by (simp add: quiesce_msg_def)

lemma kept_cancel:
  assumes "setting n e quiet good" "safe n e quiet good B w"
  shows "kept n e quiet good B w (cancel_start e i w)"
  by (rule kept_quiet [OF assms ev_cancel [OF assms(1) safeD(1) [OF assms(2)]]])

lemma kept_vcpu_post:
  assumes "setting n e quiet good" "safe n e quiet good B w"
  shows "kept n e quiet good B w (snd (vcpu_post_virq e k i v w))"
  by (rule kept_quiet [OF assms ev_vcpu_post [OF assms(1) safeD(1) [OF assms(2)]]])

lemma kept_start_local:
  assumes s: "setting n e quiet good" and w: "safe n e quiet good B w" and f: "\<not> lifecycle_blocks_start vm w"
  shows "kept n e quiet good B w (snd (start_vm_local e k vm w))"
  by (rule kept_start [OF s w ev_start_local [OF s safeD(1) [OF w]] f]) simp

lemma kept_start_vcpu:
  assumes s: "setting n e quiet good" and w: "safe n e quiet good B w" and f: "\<not> lifecycle_blocks_start (vm_of i) w"
  shows "kept n e quiet good B w (snd (start_vcpu e k i en ct w))"
  by (rule kept_start [OF s w ev_start_vcpu [OF s safeD(1) [OF w]] f]) simp

lemma kept_start_vm:
  assumes s: "setting n e quiet good" and w: "safe n e quiet good B w"
  shows "kept n e quiet good B w (snd (start_vm e k vm w))"
proof (cases "lifecycle_blocks_start vm w")
  case True
  then show ?thesis using kept_refl [OF w] by (simp add: start_vm_def)
next
  case False
  show ?thesis by (rule kept_start [OF s w ev_start [OF s safeD(1) [OF w]] False]) simp
qed

lemma kept_cpu_on:
  assumes s: "setting n e quiet good" and w: "safe n e quiet good B w"
  shows "kept n e quiet good B w (snd (cpu_on e k i en ct w))"
proof (cases "lifecycle_blocks_start (vm_of i) w")
  case True
  then show ?thesis using kept_refl [OF w] by (simp add: cpu_on_def)
next
  case False
  show ?thesis by (rule kept_start [OF s w ev_cpu_on [OF s safeD(1) [OF w]] False]) simp
qed

text \<open>A quiesce command on its target core, answered by the acknowledgement.\<close>

lemma kept_quiesce_request:
  assumes s: "setting n e quiet good" and w: "safe n e quiet good B w" and r: "(k, r) \<in> B" "rq_op r = OpQuiesceVcpu"
  shows "kept n e quiet good B w (snd (enqueue c (req OpQuiesceAck (rq_idx r) (rq_a r) 0) True (snd (retire_vcpu e k (rq_idx r) w))))"
proof -
  have m: "(k, r) \<in> msgs w \<union> B" using r(1) by simp
  note ok = msgs_okD(2,3) [OF protoD(2) [OF safeD(2) [OF w]] m r(2)]
  note vm = valid_slot_vm [OF ok(2)]
  have e: "unat (rq_a r) \<le> unat (qt_epoch (w_lifecycle w ! vm_of (rq_idx r)))"
    by (rule vm_protoD(7) [OF protoD(1) [OF safeD(2) [OF w] vm] m]) (simp_all add: quiesce_msg_def r(2))
  note t = kept_retire [OF s w, where k = k and i = "rq_idx r"]
  have "kept n e quiet good B (snd (retire_vcpu e k (rq_idx r) w))
      (snd (enqueue c (req OpQuiesceAck (rq_idx r) (rq_a r) 0) True (snd (retire_vcpu e k (rq_idx r) w))))"
    by (rule safe_enqueue [OF s keptD(1) [OF t]])
      (use ok e keptD(2) [OF t] retired_off [OF s safeD(1) [OF w] ok(2,1)] in \<open>simp_all add: req_def\<close>)
  then show ?thesis by (rule kept_trans [OF t])
qed

lemma kept_ack_request:
  assumes s: "setting n e quiet good" and w: "safe n e quiet good B w" and r: "(k, r) \<in> B" "rq_op r = OpQuiesceAck"
  shows "kept n e quiet good B w (acknowledge_quiesce e k (rq_idx r) (rq_a r) w)"
proof (rule kept_acknowledge [OF s w])
  have m: "(k, r) \<in> msgs w \<union> B" using r(1) by simp
  note vm = valid_slot_vm [OF msgs_okD(4) [OF protoD(2) [OF safeD(2) [OF w]] m r(2)]]
  note p = protoD(1) [OF safeD(2) [OF w] vm]
  assume "lifecycle_token (vm_of (rq_idx r)) w = rq_a r" "qt_active (w_lifecycle w ! vm_of (rq_idx r))"
  then show "a_pub (view w) (rq_idx r) = PwOff" using vm_protoD(8) [OF p m] vm_protoD(1) [OF p] r(2) by simp
qed

lemma moved_request:
  assumes s: "setting n e quiet good" and w: "safe n e quiet good B w" and fr: "all_fresh 0 e w" and k: "k < n" and r: "(k, r) \<in> B"
  shows "moved n e quiet good B 1 w (snd (run_request e k r (sched, w)))"
proof -
  note c = kept_cancel [OF s] and refl = kept_refl [OF w]
  have b: "moved n e quiet good B 1 w (snd (begin_lifecycle_local e k vm mode w))" for vm mode
    by (rule moved_begin [OF s w]) (use fr in \<open>simp add: all_fresh_def\<close>)
  have 1: "kept n e quiet good B w (if fst (start_vm_local e k vm w) then snd (start_vm_local e k vm w)
      else cancel_start e i (snd (start_vm_local e k vm w)))" if "\<not> lifecycle_blocks_start vm w" for vm i
    using kept_start_local [OF s w that] kept_trans [OF kept_start_local [OF s w that] c [OF keptD(1) [OF kept_start_local [OF s w that]]]]
    by simp
  have 2: "kept n e quiet good B w (if fst (start_vcpu e k i en ct w) then snd (start_vcpu e k i en ct w)
      else cancel_start e i (snd (start_vcpu e k i en ct w)))" if "\<not> lifecycle_blocks_start (vm_of i) w" for i en ct
    using kept_start_vcpu [OF s w that] kept_trans [OF kept_start_vcpu [OF s w that] c [OF keptD(1) [OF kept_start_vcpu [OF s w that]]]]
    by simp
  show ?thesis
  proof (cases "rq_op r")
    case OpStartVm
    then show ?thesis using moved_kept [OF c [OF w]] moved_kept [OF 1] by (simp add: run_request_def case_prod_unfold Let_def)
  next
    case OpPostVirq
    then show ?thesis using moved_kept [OF kept_vcpu_post [OF s w]] by (simp add: run_request_def)
  next
    case OpCpuOn
    then show ?thesis using moved_kept [OF c [OF w]] moved_kept [OF 2] by (simp add: run_request_def case_prod_unfold Let_def)
  next
    case OpVmOwnerCall
    then show ?thesis using moved_kept [OF refl] moved_owner_call [OF s w fr k] by (simp add: run_request_def split: option.split)
  next
    case OpBeginReset
    then show ?thesis using b by (simp add: run_request_def case_prod_unfold Let_def)
  next
    case OpBeginStop
    then show ?thesis using b by (simp add: run_request_def case_prod_unfold Let_def)
  next
    case OpQuiesceVcpu
    then show ?thesis using moved_kept [OF refl] moved_kept [OF kept_quiesce_request [OF s w r OpQuiesceVcpu]]
      by (simp add: run_request_def case_prod_unfold Let_def)
  next
    case OpQuiesceAck
    then show ?thesis using moved_kept [OF kept_ack_request [OF s w r OpQuiesceAck]] by (simp add: run_request_def)
  qed
qed

lemma kept_drain:
  assumes s: "setting n e quiet good" and w: "safe n e quiet good B w"
  shows "kept n e quiet good B w (drain_reevaluate e k w)"
proof (rule kept_quiet [OF s w])
  note 1 = ev_fields(1) [OF safeD(1) [OF w], where V = "{}" and r = "(w_reevaluate w)[k := 0]"]
  show "evolves n e quiet good {} w (drain_reevaluate e k w)"
    unfolding drain_reevaluate_def Let_def
    by (rule evolves_trans [OF 1 evolves_fold [OF evolves_base [OF 1]]])
      (simp add: evolves_refl ev_vcpu_reevaluate [OF s])
qed

section \<open>Guest calls\<close>

lemma kept_hw:
  assumes "setting n e quiet good" "safe n e quiet good B w"
  shows "kept n e quiet good B w (upd_hw j h w)"
  by (rule kept_quiet [OF assms ev_resched(5) [OF assms(1) safeD(1) [OF assms(2)]]])

lemma kept_ret:
  assumes "setting n e quiet good" "safe n e quiet good B w"
  shows "kept n e quiet good B w (ret j v w)"
  unfolding ret_def by (rule kept_hw [OF assms])

lemma kept_vgic:
  assumes "setting n e quiet good" "safe n e quiet good B w"
  shows "kept n e quiet good B w (w\<lparr>w_vgic := g\<rparr>)"
  by (rule kept_quiet [OF assms ev_resched(7) [OF assms(1) safeD(1) [OF assms(2)]]])

lemma kept_events:
  assumes s: "setting n e quiet good" and w: "safe n e quiet good B w"
  shows "kept n e quiet good B w (handle_virq_reevaluate e k ev (w\<lparr>w_vgic := g\<rparr>))"
  by (rule kept_trans [OF kept_vgic [OF s w] kept_quiet [OF s keptD(1) [OF kept_vgic [OF s w]] ev_events [OF s safeD(1) [OF keptD(1) [OF kept_vgic [OF s w]]]]]])

lemma kept_post:
  assumes s: "setting n e quiet good" and w: "safe n e quiet good B w"
  shows "kept n e quiet good B w (snd (post_virq e k i v w))"
  by (rule kept_quiet [OF s w ev_post [OF s safeD(1) [OF w]]])

lemma kept_sgi:
  assumes s: "setting n e quiet good" and w: "safe n e quiet good B w"
  shows "kept n e quiet good B w (snd (smp_handle_sysreg e k self sr w))"
  unfolding smp_handle_sysreg_def Let_def
  by (simp add: kept_refl [OF w] kept_fold [OF w] kept_refl kept_post [OF s])

lemma cur_same [simp]: "cur (ret j v w) k = cur w k" "cur (w\<lparr>w_vgic := g\<rparr>) k = cur w k"
  by (simp_all add: ret_def upd_hw_def)

lemma kept_block:
  assumes s: "setting n e quiet good" and w: "safe n e quiet good B w" and k: "k < n" "cur w k = Some c"
  shows "kept n e quiet good B w (block_current e k c w)"
  by (rule kept_quiet [OF s w ev_block [OF s safeD(1) [OF w] k]])

lemma moved_psci:
  assumes s: "setting n e quiet good" and w: "safe n e quiet good B w" and fr: "all_fresh 0 e w" and k: "k < n" "cur w k = Some self"
  shows "moved n e quiet good B 1 w (snd (psci_handle_hvc e spec k self f w))"
proof -
  note refl = moved_kept [OF kept_refl [OF w]] and r = moved_kept [OF kept_ret [OF s w]]
  note st = moved_stop [OF s w fr k(1)] and rs = moved_reset [OF s w fr k(1)] and co = moved_cpu_off [OF s w fr k(1)]
  have rs': "moved n e quiet good B 1 w (ret k v (snd (reset_vm e k vm True w)))" for v vm
    by (rule moved_then [OF rs kept_ret [OF s movedD [OF rs]]])
  have on: "moved n e quiet good B 1 w (ret k (fst (cpu_on e k i en ct w)) (snd (cpu_on e k i en ct w)))" for i en ct
    by (rule moved_kept [OF kept_trans [OF kept_cpu_on [OF s w] kept_ret [OF s keptD(1) [OF kept_cpu_on [OF s w]]]]])
  have g: "kept n e quiet good B w ((ret k v w)\<lparr>w_vgic := g\<rparr>)" for v g
    by (rule kept_trans [OF kept_ret [OF s w] kept_vgic [OF s keptD(1) [OF kept_ret [OF s w]]]])
  have b: "kept n e quiet good B w (block_current e k self ((ret k v w)\<lparr>w_vgic := g\<rparr>))" for v g
    by (rule kept_trans [OF g kept_block [OF s keptD(1) [OF g] k(1)]]) (simp add: k(2))
  show ?thesis unfolding psci_handle_hvc_def Let_def
    using refl r st rs rs' on co moved_kept [OF g] moved_kept [OF b]
    by (simp add: case_prod_unfold Let_def split: Action.split if_split)
qed

lemma kept_hvcs:
  assumes s: "setting n e quiet good" and w: "safe n e quiet good B w"
  shows "kept n e quiet good B w (hvc_vm_start e k w)" "kept n e quiet good B w (hvc_ivc_doorbell e k w)"
    "kept n e quiet good B w (hvc_timer_set e k self w)" "kept n e quiet good B w (snd (timer_handle_sysreg k sr w))"
proof -
  note r = kept_ret [OF s] and rw = kept_ret [OF s w]
  show "kept n e quiet good B w (hvc_vm_start e k w)"
    using kept_trans [OF kept_start_vm [OF s w] r [OF keptD(1) [OF kept_start_vm [OF s w]]]]
    by (simp add: hvc_vm_start_def case_prod_unfold Let_def)
  show "kept n e quiet good B w (hvc_ivc_doorbell e k w)"
    using rw kept_trans [OF kept_post [OF s w] r [OF keptD(1) [OF kept_post [OF s w]]]]
    by (simp add: hvc_ivc_doorbell_def case_prod_unfold Let_def)
  show "kept n e quiet good B w (hvc_timer_set e k self w)"
  proof -
    have l: "kept n e quiet good B w (w\<lparr>w_legacy := y\<rparr>)" for y by (rule kept_quiet [OF s w ev_fields(7) [OF safeD(1) [OF w]]])
    note a = kept_trans [OF l kept_timer(2) [OF s keptD(1) [OF l]]]
    show ?thesis using rw kept_trans [OF a r [OF keptD(1) [OF a]]] by (simp add: hvc_timer_set_def case_prod_unfold Let_def)
  qed
  show "kept n e quiet good B w (snd (timer_handle_sysreg k sr w))"
    using kept_hw [OF s w] kept_refl [OF w] by (simp add: timer_handle_sysreg_def)
qed

lemma moved_heartbeat:
  assumes s: "setting n e quiet good" and w: "safe n e quiet good B w" and fr: "all_fresh 0 e w" and k: "k < n"
  shows "moved n e quiet good B 1 w (hvc_heartbeat e k self w)"
proof -
  have u: "kept n e quiet good B w (w\<lparr>w_update_sequence := x\<rparr>)" for x by (rule kept_quiet [OF s w ev_fields(6) [OF safeD(1) [OF w]]])
  note i = then_moved [OF u moved_invoke [OF s keptD(1) [OF u] all_fresh_kept [OF u fr] k]]
  show ?thesis unfolding hvc_heartbeat_def Let_def
    using moved_kept [OF kept_ret [OF s w]] moved_then [OF i kept_ret [OF s movedD [OF i]]] by (simp add: case_prod_unfold)
qed

section \<open>Timers and interrupts\<close>

lemma kept_cntv:
  assumes s: "setting n e quiet good" and w: "safe n e quiet good B w"
  shows "kept n e quiet good B w (cntv_irq e k w)"
proof -
  note h = kept_hw [OF s w]
  note p = kept_trans [OF h kept_vcpu_post [OF s keptD(1) [OF h]]]
  show ?thesis unfolding cntv_irq_def Let_def using h p by (simp split: option.split)
qed

lemma moved_callback:
  assumes s: "setting n e quiet good" and w: "safe n e quiet good B w" and fr: "all_fresh 0 e w" and k: "k < n"
  shows "moved n e quiet good B 1 w (run_callback e k cb a w)"
proof -
  have l: "kept n e quiet good B w (w\<lparr>w_legacy := y\<rparr>)" for y by (rule kept_quiet [OF s w ev_fields(7) [OF safeD(1) [OF w]]])
  have x: "kept n e quiet good B w (on_timer_set_expiry e k a w)"
    unfolding on_timer_set_expiry_def by (rule kept_trans [OF l kept_vcpu_post [OF s keptD(1) [OF l]]])
  have sl: "kept n e quiet good B w (on_slice e k w)" by (rule kept_quiet [OF s w ev_slice [OF s safeD(1) [OF w] k]])
  have wk: "kept n e quiet good B w (wake e k a w)" by (rule kept_quiet [OF s w ev_wake [OF s safeD(1) [OF w]]])
  show ?thesis unfolding run_callback_def
    using moved_kept [OF x] moved_kept [OF sl] moved_kept [OF wk] moved_expiry [OF s w fr k] moved_kept [OF kept_timeout [OF s w]]
      moved_kept [OF kept_dma_drain [OF s w]] moved_kept [OF kept_refl [OF w]]
    by (simp split: TimerCb.split)
qed

lemma ev_timer_queue:
  assumes "setting n e quiet good" "base n e good w"
  shows "evolves n e quiet good V w (w\<lparr>w_timers := (w_timers w)[j := q]\<rparr>)"
  by (rule evolves_silent [OF assms])
    (use baseD [OF assms(2)] in \<open>simp_all add: view_def shape_def cong: if_cong\<close>)

lemma moved_fire:
  assumes s: "setting n e quiet good" and w: "safe n e quiet good B w" and fr: "all_fresh 0 e w" and k: "k < n"
  shows "moved n e quiet good B 1 w (fire_timer e k w)"
proof -
  have t: "kept n e quiet good B w (w\<lparr>w_timers := (w_timers w)[k := q]\<rparr>)" for q
    by (rule kept_quiet [OF s w ev_timer_queue [OF s safeD(1) [OF w]]])
  note c = then_moved [OF t moved_callback [OF s keptD(1) [OF t] all_fresh_kept [OF t fr] k]]
  show ?thesis unfolding fire_timer_def Let_def using moved_kept [OF t] c by (simp split: option.split prod.split)
qed

lemma kept_bracket:
  assumes s: "setting n e quiet good" and w: "safe n e quiet good B w" and k: "k < n"
  shows "kept n e quiet good B w (irq_enter k w)" "kept n e quiet good B w (irq_leave e k w)"
proof -
  show "kept n e quiet good B w (irq_enter k w)" unfolding irq_enter_def by (rule kept_hw [OF s w])
  note h = kept_hw [OF s w]
  have "kept n e quiet good B w (schedule_after_retire e k True (upd_hw k f w))" for f
    using kept_trans [OF h kept_if [OF s keptD(1) [OF h] k, where b = True and l = True]] by (simp add: schedule_if_def)
  then show "kept n e quiet good B w (irq_leave e k w)" unfolding irq_leave_def Let_def using h by simp
qed

section \<open>The scheduler's own steps\<close>

lemma kept_sched:
  assumes s: "setting n e quiet good" and w: "safe n e quiet good B w" and k: "k < n"
  shows "kept n e quiet good B w (yield_current e k w)" "kept n e quiet good B w (schedule_out e k w)"
    "kept n e quiet good B w (sync_resident e k w)" "kept n e quiet good B w (reschedule_slice e k w)"
  using kept_quiet [OF s w ev_yield [OF s safeD(1) [OF w] k]] kept_quiet [OF s w ev_out [OF s safeD(1) [OF w] k]]
    kept_quiet [OF s w ev_resched(2) [OF s safeD(1) [OF w]]] kept_quiet [OF s w ev_resched(1) [OF s safeD(1) [OF w]]]
  by blast+

lemma kept_yield_call:
  assumes s: "setting n e quiet good" and w: "safe n e quiet good B w" and k: "k < n"
  shows "kept n e quiet good B w (handle_yield e k w)"
  unfolding handle_yield_def by (rule kept_trans [OF kept_hw [OF s w] kept_sched(1) [OF s keptD(1) [OF kept_hw [OF s w]] k]])

lemma kept_wfx:
  assumes s: "setting n e quiet good" and w: "safe n e quiet good B w" and k: "k < n" "cur w k = Some c"
  shows "kept n e quiet good B w (handle_wfx e k c wfe w)"
proof -
  note g = kept_vgic [OF s w]
  have b: "kept n e quiet good B w (block_current e k c (w\<lparr>w_vgic := x\<rparr>))" for x
    by (rule kept_trans [OF g kept_block [OF s keptD(1) [OF g] k(1)]]) (simp add: k(2))
  show ?thesis unfolding handle_wfx_def Let_def using kept_sched(1) [OF s w k(1)] g b by (simp split: prod.split)
qed

lemma kept_fp:
  assumes s: "setting n e quiet good" and w: "safe n e quiet good B w" and k: "k < n" "cur w k = Some c"
  shows "kept n e quiet good B w (handle_fp_simd e k c w)"
  by (rule kept_quiet [OF s w ev_fp [OF s safeD(1) [OF w] k]])

lemma dev_idling [simp]: "w_dev (w\<lparr>w_started := b\<rparr>) = w_dev w" "w_dev (w\<lparr>w_slice_ticks := t\<rparr>) = w_dev w"
  by simp_all

lemma kept_idling:
  assumes s: "setting n e quiet good" and w: "safe n e quiet good B w"
  shows "kept n e quiet good B w (upd_sched k (\<lambda>c. c\<lparr>cs_idling := b\<rparr>) w)" "kept n e quiet good B w (w\<lparr>w_started := b\<rparr>)"
    "kept n e quiet good B w (w\<lparr>w_slice_ticks := t\<rparr>)"
  by (rule kept_quiet [OF s w]; rule evolves_silent [OF s safeD(1) [OF w]];
      use baseD [OF safeD(1) [OF w]] in \<open>simp\<close>)+

lemma kept_after_drain:
  assumes s: "setting n e quiet good" and w: "safe n e quiet good B w" and k: "k < n"
  shows "kept n e quiet good B w (after_drain e k w)"
proof -
  note i = kept_idling(1) [OF s w]
  note o = kept_trans [OF i kept_sched(2) [OF s keptD(1) [OF i] k]]
  show ?thesis unfolding after_drain_def Let_def using i o by (simp split: option.split)
qed

text \<open>The first entry of a core, from its boot loop with nobody resident.\<close>

lemma kept_make_resident:
  assumes s: "setting n e quiet good" and w: "safe n e quiet good B w" and k: "k < n" "cur w k = None"
    and i: "i = pick e k w" "i < g_count e"
  shows "kept n e quiet good B w (make_resident e k i (seed_fp_trap k b (load_regs e k i w)))"
proof (rule kept_quiet [OF s w])
  note b = baseD [OF safeD(1) [OF w]]
  have i': "i = a_pick e k (view w)" using i(1) pick_view [OF b(1) k(1)] by simp
  have m: "i < kMaxVcpus" using i(2) g_count_le [of e] by simp
  have c: "a_cur (view w) k = None" using view_at(2) [OF b(1) k(1)] k(2) by simp
  have v: "view (make_resident e k i (seed_fp_trap k b (load_regs e k i w))) = a_switch k i (view w)"
    using b(1) k m c by (simp add: view_resident [where n = n] a_switch_def a_park_def)
  show "evolves n e quiet good {} w (make_resident e k i (seed_fp_trap k b (load_regs e k i w)))"
  proof (rule evolves_silent [OF s safeD(1) [OF w]], unfold v)
    show "power_ok e (a_switch k i (view w))"
      using power_resident [OF b(2) power_pick [OF b(2)]] i(2) unfolding i' by blast
  qed simp_all
qed

lemma kept_enter:
  assumes s: "setting n e quiet good" and w: "safe n e quiet good B w" and k: "k < n" "cur w k = None"
  shows "kept n e quiet good B w (enter_cpu e k w)"
proof -
  let ?w0 = "upd_sched k (\<lambda>c. c\<lparr>cs_idling := False\<rparr>) (w\<lparr>w_started := True\<rparr>)"
  note a = kept_idling(2) [OF s w, where b = True]
  have z: "kept n e quiet good B w ?w0" by (rule kept_trans [OF a kept_idling(1) [OF s keptD(1) [OF a]]])
  have c: "cur ?w0 k = None" using k baseD(1) [OF safeD(1) [OF w]] by (simp add: upd_sched_def shape_def)
  have r: "kept n e quiet good B w (upd_hw k h (make_resident e k (pick e k ?w0) (seed_fp_trap k b (load_regs e k (pick e k ?w0) ?w0))))"
    if "pick e k ?w0 < g_count e" for h b
  proof -
    note m = kept_make_resident [OF s keptD(1) [OF z] k(1) c refl that]
    show ?thesis by (rule kept_trans [OF kept_trans [OF z m] kept_hw [OF s keptD(1) [OF m]]])
  qed
  note i = kept_trans [OF z kept_idling(1) [OF s keptD(1) [OF z]]]
  show ?thesis unfolding enter_cpu_def Let_def using r i by simp
qed

section \<open>Host commands\<close>

lemma kept_slice_command:
  assumes s: "setting n e quiet good" and w: "safe n e quiet good B w" and k: "k < n"
  shows "kept n e quiet good B w (snd (command_slice e k a w))"
proof -
  note t = kept_idling(3) [OF s w]
  note r = kept_trans [OF t kept_sched(4) [OF s keptD(1) [OF t] k]]
  show ?thesis unfolding command_slice_def set_slice_us_def Let_def using r kept_refl [OF w] by (simp add: case_prod_unfold)
qed

lemma moved_commands:
  assumes s: "setting n e quiet good" and w: "safe n e quiet good B w" and fr: "all_fresh 0 e w" and k: "k < n"
  shows "moved n e quiet good B 1 w (snd (command_stop e k a w))" "moved n e quiet good B 1 w (snd (command_reset e k a w))"
    "moved n e quiet good B 1 w (snd (command_start e k a w))" "moved n e quiet good B 1 w (snd (command_spi e k a b w))"
    "moved n e quiet good B 1 w (snd (command_slice e k a w))"
  unfolding command_stop_def command_reset_def command_start_def command_spi_def Let_def
  using moved_stop [OF s w fr k] moved_reset [OF s w fr k] moved_kept [OF kept_start_vm [OF s w]] moved_kept [OF kept_events [OF s w]]
    moved_kept [OF kept_refl [OF w]] moved_kept [OF kept_slice_command [OF s w k]]
  by (simp_all add: case_prod_unfold Let_def)

end
