(* ===== verification/NovaSmpMachine.thy ===== *)
theory NovaSmpMachine
  imports NovaSmpSteps
begin

text \<open>
  The machine as a transition system. A step is one handler of one core, run as a
  whole; the cross-call interrupt is split into taking the batch, running one
  message at a time and finishing, so the drains of different cores interleave.
  Guests change their own registers, the clock advances and the devices act between
  any two steps. The state adds to the world the batch each core has taken out of
  its mailbox and whether it owes a pass of the scheduler.
\<close>

section \<open>Machine\<close>

record 'd Machine =
  mc_w :: "'d SmpWorld"
  mc_batch :: "Request list list"
  mc_sched :: "bool list"

definition batch_msgs :: "'d Machine \<Rightarrow> (nat \<times> Request) set" where
  "batch_msgs m = {(k, r). k < length (mc_batch m) \<and> r \<in> set (mc_batch m ! k)}"

text \<open>A guest runs on core \<open>k\<close>; a handler of an interrupt runs on core \<open>k\<close>.\<close>

definition in_guest :: "nat \<Rightarrow> nat \<Rightarrow> ('d, 'z) VcpuWorld_scheme \<Rightarrow> bool" where
  "in_guest k c w \<longleftrightarrow> cur w k = Some c \<and> \<not> ch_dispatching (w_hw w ! k) \<and> \<not> cs_idling (w_sched w ! k)"

definition in_irq :: "nat \<Rightarrow> ('d, 'z) VcpuWorld_scheme \<Rightarrow> bool" where
  "in_irq k w \<longleftrightarrow> ch_dispatching (w_hw w ! k)"

text \<open>One handler of core \<open>k\<close>, from world to world.\<close>

inductive cpu_step :: "'d Env \<Rightarrow> nat \<Rightarrow> 'd SmpWorld \<Rightarrow> 'd SmpWorld \<Rightarrow> bool" for e k where
  guest_runs: "in_guest k c w \<Longrightarrow> cpu_step e k w (upd_hw k (\<lambda>h. h\<lparr>ch_frame := f, ch_el1 := b, ch_fp := q\<rparr>) w)"
| psci: "in_guest k c w \<Longrightarrow> cpu_step e k w (snd (psci_handle_hvc e spec k c f w))"
| vm_start: "in_guest k c w \<Longrightarrow> cpu_step e k w (hvc_vm_start e k w)"
| doorbell: "in_guest k c w \<Longrightarrow> cpu_step e k w (hvc_ivc_doorbell e k w)"
| heartbeat: "in_guest k c w \<Longrightarrow> cpu_step e k w (hvc_heartbeat e k c w)"
| timer_set: "in_guest k c w \<Longrightarrow> cpu_step e k w (hvc_timer_set e k c w)"
| yield: "in_guest k c w \<Longrightarrow> cpu_step e k w (handle_yield e k w)"
| wfx: "in_guest k c w \<Longrightarrow> cpu_step e k w (handle_wfx e k c wfe w)"
| fp_simd: "in_guest k c w \<Longrightarrow> cpu_step e k w (handle_fp_simd e k c w)"
| sgi: "in_guest k c w \<Longrightarrow> cpu_step e k w (snd (smp_handle_sysreg e k c sr w))"
| cntp: "in_guest k c w \<Longrightarrow> cpu_step e k w (snd (timer_handle_sysreg k sr w))"
| gic_mmio: "in_guest k c w \<Longrightarrow> handle_mmio (vcpu_table e) k call (w_vgic w) = (call', g, ev) \<Longrightarrow>
    cpu_step e k w (handle_virq_reevaluate e k ev (w\<lparr>w_vgic := g\<rparr>))"
| guest_fault: "in_guest k c w \<Longrightarrow> cpu_step e k w (handle_guest_fault e k c w)"
| sync: "cpu_step e k w (sync_resident e k w)"
| irq: "\<not> in_irq k w \<Longrightarrow> cpu_step e k w (irq_enter k w)"
| cntv: "in_irq k w \<Longrightarrow> cpu_step e k w (cntv_irq e k w)"
| soft_timer: "in_irq k w \<Longrightarrow> cpu_step e k w (fire_timer e k w)"
| maintenance: "in_irq k w \<Longrightarrow> handle_irq (en_eisr e) (vcpu_table e) k (en_turn e) kMaintenanceIntid False (w_vgic w) = Some (b, g, ev) \<Longrightarrow>
    cpu_step e k w (handle_virq_reevaluate e k ev (w\<lparr>w_vgic := g\<rparr>))"
| dma_fault: "in_irq k w \<Longrightarrow> cpu_step e k w (handle_dma_fault e k valid vm sid gen w)"
| host_stop: "in_irq k w \<Longrightarrow> cpu_step e k w (snd (command_stop e k a w))"
| host_reset: "in_irq k w \<Longrightarrow> cpu_step e k w (snd (command_reset e k a w))"
| host_start: "in_irq k w \<Longrightarrow> cpu_step e k w (snd (command_start e k a w))"
| host_spi: "in_irq k w \<Longrightarrow> cpu_step e k w (snd (command_spi e k a b w))"
| host_slice: "in_irq k w \<Longrightarrow> cpu_step e k w (snd (command_slice e k a w))"
| drained: "cs_idling (w_sched w ! k) \<Longrightarrow> \<not> in_irq k w \<Longrightarrow> ch_entered (w_hw w ! k) \<Longrightarrow> cpu_step e k w (after_drain e k w)"
| boot_loop: "\<not> ch_entered (w_hw w ! k) \<Longrightarrow> \<not> in_irq k w \<Longrightarrow> cur w k = None \<Longrightarrow> cpu_step e k w (enter_cpu e k w)"

text \<open>
  A step of the machine. \<open>D\<close> is what the devices do by themselves. A step needs room
  for two more lifecycles of every VM before its 64-bit epoch wraps.
\<close>

inductive smp_step :: "nat \<Rightarrow> 'd Env \<Rightarrow> ('d \<Rightarrow> 'd \<Rightarrow> bool) \<Rightarrow> 'd Machine \<Rightarrow> 'd Machine \<Rightarrow> bool" for n e0 D where
  core: "k < n \<Longrightarrow> en_guests e = en_guests e0 \<Longrightarrow> en_peers e = en_peers e0 \<Longrightarrow> all_fresh 2 e0 (mc_w m) \<Longrightarrow>
    cpu_step e k (mc_w m) w' \<Longrightarrow> smp_step n e0 D m (m\<lparr>mc_w := w'\<rparr>)"
| take: "k < n \<Longrightarrow> in_irq k (mc_w m) \<Longrightarrow> mc_batch m ! k = [] \<Longrightarrow>
    smp_step n e0 D m (m\<lparr>mc_w := (mc_w m)\<lparr>w_mail := (w_mail (mc_w m))[k := []]\<rparr>,
      mc_batch := (mc_batch m)[k := w_mail (mc_w m) ! k]\<rparr>)"
| run: "k < n \<Longrightarrow> en_guests e = en_guests e0 \<Longrightarrow> en_peers e = en_peers e0 \<Longrightarrow> all_fresh 2 e0 (mc_w m) \<Longrightarrow>
    in_irq k (mc_w m) \<Longrightarrow> mc_batch m ! k = r # rest \<Longrightarrow> run_request e k r (mc_sched m ! k, mc_w m) = (b, w') \<Longrightarrow>
    smp_step n e0 D m (m\<lparr>mc_w := w', mc_batch := (mc_batch m)[k := rest], mc_sched := (mc_sched m)[k := b]\<rparr>)"
| finish: "k < n \<Longrightarrow> en_guests e = en_guests e0 \<Longrightarrow> en_peers e = en_peers e0 \<Longrightarrow> in_irq k (mc_w m) \<Longrightarrow> mc_batch m ! k = [] \<Longrightarrow>
    smp_step n e0 D m (m\<lparr>mc_w := schedule_if (mc_sched m ! k) e k True (drain_reevaluate e k (mc_w m)),
      mc_sched := (mc_sched m)[k := False]\<rparr>)"
| leave: "k < n \<Longrightarrow> en_guests e = en_guests e0 \<Longrightarrow> en_peers e = en_peers e0 \<Longrightarrow> in_irq k (mc_w m) \<Longrightarrow>
    mc_batch m ! k = [] \<Longrightarrow> \<not> mc_sched m ! k \<Longrightarrow> smp_step n e0 D m (m\<lparr>mc_w := irq_leave e k (mc_w m)\<rparr>)"
| device: "D (w_dev (mc_w m)) d \<Longrightarrow> smp_step n e0 D m (m\<lparr>mc_w := (mc_w m)\<lparr>w_dev := d\<rparr>\<rparr>)"

inductive_cases cpu_stepE: "cpu_step e k w w'"
inductive_cases smp_stepE: "smp_step n e0 D m m'"

section \<open>Every step keeps the invariant\<close>

text \<open>What devices may do by themselves: a quiet VM's devices do nothing, and no device rewrites memory.\<close>

definition devices_ok :: "('d \<Rightarrow> 'd \<Rightarrow> bool) \<Rightarrow> (nat \<Rightarrow> 'd \<Rightarrow> bool) \<Rightarrow> ('d \<Rightarrow> bool) \<Rightarrow> bool" where
  "devices_ok D quiet good \<longleftrightarrow> (\<forall>d d'. good d \<longrightarrow> D d d' \<longrightarrow> good d' \<and> (\<forall>vm. quiet vm d \<longrightarrow> quiet vm d'))"

definition smp_inv ::
  "nat \<Rightarrow> 'd Env \<Rightarrow> ('d \<Rightarrow> 'd \<Rightarrow> bool) \<Rightarrow> (nat \<Rightarrow> 'd \<Rightarrow> bool) \<Rightarrow> ('d \<Rightarrow> bool) \<Rightarrow> 'd Machine \<Rightarrow> bool" where
  "smp_inv n e D quiet good m \<longleftrightarrow> setting n e quiet good \<and> devices_ok D quiet good
     \<and> length (mc_batch m) = n \<and> length (mc_sched m) = n \<and> safe n e quiet good (batch_msgs m) (mc_w m)"

lemma same_slot:
  assumes "en_guests e = en_guests e0"
  shows "affinity e = affinity e0" "valid_slot e = valid_slot e0" "g_count e = g_count e0"
  using assms by (auto simp: affinity_def valid_slot_def g_count_def fun_eq_iff)

text \<open>The invariant reads only the guests and the peers of the environment.\<close>

lemma same_env:
  assumes "en_guests e = en_guests e0" "en_peers e = en_peers e0"
  shows "setting n e quiet good = setting n e0 quiet good" "safe n e quiet good B w = safe n e0 quiet good B w"
    "all_fresh j e w = all_fresh j e0 w"
  using assms same_slot [OF assms(1)]
  by (simp_all add: setting_def cfg_ok_def safe_def base_def power_ok_def proto_def msgs_ok_def vm_proto_def all_fresh_def)

lemma cpu_step_moved:
  assumes s: "setting n e quiet good" and w: "safe n e quiet good B w" and fr: "all_fresh 2 e w" and k: "k < n"
    and st: "cpu_step e k w w'"
  shows "safe n e quiet good B w'"
proof -
  have f0: "all_fresh 0 e w" and f1: "all_fresh 1 e w" by (rule all_fresh_less [OF fr]; simp)+
  note c = keptD(1) and m = movedD
  show ?thesis using st
  proof cases
    case guest_runs
    then show ?thesis using c [OF kept_hw [OF s w]] by blast
  next
    case (psci i spec f)
    then show ?thesis using m [OF moved_psci [OF s w f0 k]] by (auto simp: in_guest_def)
  next
    case (heartbeat i)
    then show ?thesis using m [OF moved_heartbeat [OF s w f0 k]] by blast
  next
    case yield
    then show ?thesis using c [OF kept_yield_call [OF s w k]] by blast
  next
    case (wfx i wfe)
    then show ?thesis using c [OF kept_wfx [OF s w k]] by (auto simp: in_guest_def)
  next
    case (fp_simd i)
    then show ?thesis using c [OF kept_fp [OF s w k]] by (auto simp: in_guest_def)
  next
    case sgi
    then show ?thesis using c [OF kept_sgi [OF s w]] by blast
  next
    case gic_mmio
    then show ?thesis using c [OF kept_events [OF s w]] by blast
  next
    case guest_fault
    then show ?thesis using m [OF moved_guest_fault [OF s w f1 k]] by blast
  next
    case sync
    then show ?thesis using c [OF kept_sched(3) [OF s w k]] by blast
  next
    case irq
    then show ?thesis using c [OF kept_bracket(1) [OF s w k]] by blast
  next
    case cntv
    then show ?thesis using c [OF kept_cntv [OF s w]] by blast
  next
    case soft_timer
    then show ?thesis using m [OF moved_fire [OF s w f0 k]] by blast
  next
    case maintenance
    then show ?thesis using c [OF kept_events [OF s w]] by blast
  next
    case dma_fault
    then show ?thesis using m [OF moved_dma_fault [OF s w f0 k]] by blast
  next
    case drained
    then show ?thesis using c [OF kept_after_drain [OF s w k]] by blast
  next
    case boot_loop
    then show ?thesis using c [OF kept_enter [OF s w k]] by blast
  qed (use c [OF kept_hvcs(1) [OF s w]] c [OF kept_hvcs(2) [OF s w]] c [OF kept_hvcs(3) [OF s w]] c [OF kept_hvcs(4) [OF s w]]
      m [OF moved_commands(1) [OF s w f0 k]] m [OF moved_commands(2) [OF s w f0 k]] m [OF moved_commands(3) [OF s w f0 k]]
      m [OF moved_commands(4) [OF s w f0 k]] m [OF moved_commands(5) [OF s w f0 k]] in blast)+
qed

text \<open>Moving messages between the mailboxes and the batches.\<close>

lemma safe_messages:
  assumes "safe n e quiet good B w" "base n e good w'" "msgs w' \<union> B' \<subseteq> msgs w \<union> B" "coord w' = coord w"
    "view w' = view w" "w_dev w' = w_dev w"
  shows "safe n e quiet good B' w'"
  unfolding safe_def proto_def
proof (intro conjI allI impI)
  show "msgs_ok e (msgs w' \<union> B')" using protoD(2) [OF safeD(2) [OF assms(1)]] assms(3) unfolding msgs_ok_def by blast
  fix vm assume vm: "vm < length (en_guests e)"
  note p = protoD(1) [OF safeD(2) [OF assms(1)] vm] and c = coord_at [OF assms(4)]
  show "vm_proto e quiet (msgs w' \<union> B') vm w'"
  proof (rule vm_protoI, unfold c assms(5,6))
    fix k m assume "(k, m) \<in> msgs w' \<union> B'" "quiesce_msg m" "vm_of (rq_idx m) = vm"
    then show "unat (rq_a m) \<le> unat (qt_epoch (w_lifecycle w ! vm))" using vm_protoD(7) [OF p] assms(3) by blast
  next
    fix k m assume "(k, m) \<in> msgs w' \<union> B'" "vm_of (rq_idx m) = vm" "rq_op m = OpQuiesceAck" "qt_active (w_lifecycle w ! vm)"
      "rq_a m = qt_epoch (w_lifecycle w ! vm)"
    then show "a_pub (view w) (rq_idx m) = PwOff" using vm_protoD(8) [OF p] assms(3) by blast
  qed (use vm_protoD(1-4) [OF p] vm_protoD(5,6) [OF p] in simp_all)
qed (rule assms(2))

lemma safe_take:
  assumes s: "setting n e quiet good" and w: "safe n e quiet good (batch_msgs m) (mc_w m)" and k: "k < n"
    and l: "length (mc_batch m) = n" "mc_batch m ! k = []"
  shows "safe n e quiet good (batch_msgs (m\<lparr>mc_w := (mc_w m)\<lparr>w_mail := (w_mail (mc_w m))[k := []]\<rparr>,
      mc_batch := (mc_batch m)[k := w_mail (mc_w m) ! k]\<rparr>)) ((mc_w m)\<lparr>w_mail := (w_mail (mc_w m))[k := []]\<rparr>)"
proof (rule safe_messages [OF w])
  have b: "length (w_mail (mc_w m)) = n" using base_boxes [OF safeD(1) [OF w]] by (simp add: boxes_ok_def)
  show "base n e good ((mc_w m)\<lparr>w_mail := (w_mail (mc_w m))[k := []]\<rparr>)"
    using safeD(1) [OF w] by (auto simp: base_def boxes_ok_def nth_upd)
  show "msgs ((mc_w m)\<lparr>w_mail := (w_mail (mc_w m))[k := []]\<rparr>) \<union> batch_msgs (m\<lparr>mc_w := (mc_w m)\<lparr>w_mail := (w_mail (mc_w m))[k := []]\<rparr>,
      mc_batch := (mc_batch m)[k := w_mail (mc_w m) ! k]\<rparr>) \<subseteq> msgs (mc_w m) \<union> batch_msgs m"
    using b l k by (auto simp: msgs_def batch_msgs_def nth_list_update split: if_splits)
qed (simp_all add: coord_def)

lemma inv_step:
  assumes i: "smp_inv n e0 D quiet good m" and st: "smp_step n e0 D m m'"
  shows "smp_inv n e0 D quiet good m'"
proof -
  have s0: "setting n e0 quiet good" and d: "devices_ok D quiet good" and l: "length (mc_batch m) = n" "length (mc_sched m) = n"
    and w0: "safe n e0 quiet good (batch_msgs m) (mc_w m)"
    using i by (simp_all add: smp_inv_def)
  have inv: "smp_inv n e0 D quiet good m'" if "length (mc_batch m') = n" "length (mc_sched m') = n"
      "safe n e0 quiet good (batch_msgs m') (mc_w m')"
    using s0 d that by (simp add: smp_inv_def)
  show ?thesis using st
  proof cases
    case (core k e w')
    note en = same_env [OF core(3,4)]
    have "safe n e quiet good (batch_msgs m) w'"
      by (rule cpu_step_moved [OF _ _ _ core(2) core(6)]) (use s0 w0 core(5) in \<open>simp_all add: en\<close>)
    then show ?thesis using l by (intro inv) (simp_all add: core(1) en batch_msgs_def)
  next
    case (take k)
    show ?thesis using safe_take [OF s0 w0 take(2) l(1) take(4)] l by (intro inv) (simp_all add: take(1))
  next
    case (run k e r rest b w')
    note en = same_env [OF run(3,4)]
    have s: "setting n e quiet good" and w: "safe n e quiet good (batch_msgs m) (mc_w m)" and f: "all_fresh 0 e (mc_w m)"
      using s0 w0 all_fresh_less [OF run(5)] by (simp_all add: en)
    have r: "(k, r) \<in> batch_msgs m" using run(2,7) l by (simp add: batch_msgs_def)
    have "safe n e quiet good (batch_msgs m) w'"
      using movedD [OF moved_request [OF s w f run(2) r, where sched = "mc_sched m ! k"]] run(8) by simp
    moreover have "batch_msgs m' \<subseteq> batch_msgs m"
      using run(2,7) l by (auto simp: run(1) batch_msgs_def nth_list_update split: if_splits)
    ultimately have "safe n e quiet good (batch_msgs m') w'" by (rule safe_mono)
    then show ?thesis using l by (intro inv) (simp_all add: run(1) en)
  next
    case (finish k e)
    note en = same_env [OF finish(3,4)]
    have s: "setting n e quiet good" and w: "safe n e quiet good (batch_msgs m) (mc_w m)" using s0 w0 by (simp_all add: en)
    note dr = kept_drain [OF s w, where k = k]
    have "safe n e quiet good (batch_msgs m) (schedule_if (mc_sched m ! k) e k True (drain_reevaluate e k (mc_w m)))"
      by (rule keptD(1) [OF kept_if [OF s keptD(1) [OF dr] finish(2)]])
    then show ?thesis using l by (intro inv) (simp_all add: finish(1) en batch_msgs_def)
  next
    case (leave k e)
    note en = same_env [OF leave(3,4)]
    have s: "setting n e quiet good" and w: "safe n e quiet good (batch_msgs m) (mc_w m)" using s0 w0 by (simp_all add: en)
    show ?thesis using keptD(1) [OF kept_bracket(2) [OF s w leave(2)]] l by (intro inv) (simp_all add: leave(1) en batch_msgs_def)
  next
    case (device d')
    have "evolves n e0 quiet good {} (mc_w m) ((mc_w m)\<lparr>w_dev := d'\<rparr>)"
      by (rule evolves_dev [OF safeD(1) [OF w0]]) (use d device(2) baseD(4) [OF safeD(1) [OF w0]] in \<open>auto simp: devices_ok_def\<close>)
    then show ?thesis using keptD(1) [OF kept_quiet [OF s0 w0]] l by (intro inv) (simp_all add: device(1) batch_msgs_def)
  qed
qed

section \<open>Boot\<close>

text \<open>Zero-initialized static storage; the arrays of cores have an entry per core.\<close>

definition vcpu_zero :: Vcpu where
  "vcpu_zero = \<lparr>vc_ctx = ctx_zero, vc_el1 = el1_reset, vc_fp = fp_reset, vc_synced_at = 0, vc_state = StOff\<rparr>"

definition smp_zero :: "nat \<Rightarrow> bool list \<Rightarrow> TimerCb SoftTimer list \<Rightarrow> CoreHw list \<Rightarrow> Vgic \<Rightarrow> 'd \<Rightarrow> 'd SmpWorld" where
  "smp_zero n online timers hw g d =
     \<lparr>w_vcpus = replicate kMaxVcpus vcpu_zero,
      w_sched = replicate n \<lparr>cs_current = None, cs_since = 0, cs_fp = None, cs_fp_trap = False, cs_idling = False\<rparr>,
      w_published = replicate kMaxVcpus PwOff, w_cntvoff = replicate kMaxGuests 0, w_generation = replicate kMaxGuests 0,
      w_budget = replicate kMaxGuests 0, w_alive = 0, w_transitions = 0, w_slice_ticks = 0, w_started = False,
      w_halt_announced = False, w_panic = False, w_timers = timers, w_vgic = g, w_hw = hw, w_dev = d,
      w_mail = replicate n [], w_reevaluate = replicate n 0, w_online = online, w_sgi = replicate n False,
      w_lifecycle = replicate kMaxGuests tracker_init, w_token = replicate kMaxGuests 0, w_mode = replicate kMaxGuests LmNone,
      w_dma_pending = replicate kMaxGuests False, w_dma_failed = replicate kMaxGuests False,
      w_armed_generation = replicate kMaxGuests 0, w_armed_sequence = replicate kMaxGuests 0,
      w_update_sequence = replicate kMaxGuests 0, w_legacy = replicate n \<lparr>lg_owner = 0, lg_armed = False\<rparr>\<rparr>"

definition smp_boot :: "nat \<Rightarrow> 'd Env \<Rightarrow> ('d \<Rightarrow> 'd \<Rightarrow> bool) \<Rightarrow> (nat \<Rightarrow> 'd \<Rightarrow> bool) \<Rightarrow> ('d \<Rightarrow> bool) \<Rightarrow> 'd Machine \<Rightarrow> bool" where
  "smp_boot n e D quiet good m \<longleftrightarrow> setting n e quiet good \<and> devices_ok D quiet good \<and> en_guests e \<noteq> []
     \<and> (\<exists>online timers hw g d. good d \<and> length online = n \<and> length timers = n \<and> length hw = n
        \<and> m = \<lparr>mc_w = vcpu_init e 0 (smp_zero n online timers hw g d), mc_batch = replicate n [], mc_sched = replicate n False\<rparr>)"

lemma shape_zero: "length timers = n \<Longrightarrow> length hw = n \<Longrightarrow> shape n (smp_zero n online timers hw g d)"
  by (simp add: shape_def smp_zero_def)

text \<open>\<open>init\<close> leaves one vCPU on: the boot vCPU of VM 0.\<close>

definition a_boot :: Power where
  "a_boot = \<lparr>a_st = (\<lambda>_. StOff)(0 := StReady), a_cur = (\<lambda>_. None), a_pub = (\<lambda>_. PwOff)(0 := PwOn), a_alive = 1, a_trans = 0, a_own = (\<lambda>_. None)\<rparr>"

lemma view_zero: "view (smp_zero n online timers hw g d) =
    \<lparr>a_st = (\<lambda>_. StOff), a_cur = (\<lambda>_. None), a_pub = (\<lambda>_. PwOff), a_alive = 0, a_trans = 0, a_own = (\<lambda>_. None)\<rparr>"
  by (auto simp: view_def smp_zero_def vcpu_zero_def fun_eq_iff)

lemma shape_seed_boot_context [simp]: "view (seed_boot_context e i w) = view w" "shape n (seed_boot_context e i w) = shape n w"
  by (simp_all add: seed_boot_context_def Let_def)

lemma fold_seed:
  "view (fold (\<lambda>i w. if valid_slot e i then seed_boot_context e i w else w) xs w) = view w"
  "shape n (fold (\<lambda>i w. if valid_slot e i then seed_boot_context e i w else w) xs w) = shape n w"
  "VcpuWorld.more (fold (\<lambda>i w. if valid_slot e i then seed_boot_context e i w else w) xs w) = VcpuWorld.more w"
  "w_dev (fold (\<lambda>i w. if valid_slot e i then seed_boot_context e i w else w) xs w) = w_dev w"
  by (induction xs arbitrary: w) (simp_all add: Let_def)

lemma view_alive [simp]: "view (w\<lparr>w_alive := a\<rparr>) = (view w)\<lparr>a_alive := a\<rparr>"
  by (simp add: view_def cong: if_cong)

lemma boot_view:
  assumes "length timers = n" "length hw = n"
  shows "view (vcpu_init e 0 (smp_zero n online timers hw g d)) = a_boot" "shape n (vcpu_init e 0 (smp_zero n online timers hw g d))"
    "VcpuWorld.more (vcpu_init e 0 (smp_zero n online timers hw g d)) = VcpuWorld.more (smp_zero n online timers hw g d)"
    "w_dev (vcpu_init e 0 (smp_zero n online timers hw g d)) = d"
proof -
  let ?z = "smp_zero n online timers hw g d"
  let ?z1 = "?z\<lparr>w_published := replicate kMaxVcpus PwOff, w_cntvoff := replicate kMaxGuests 0, w_generation := replicate kMaxGuests 0\<rparr>"
  let ?f = "fold (\<lambda>i w. if valid_slot e i then seed_boot_context e i w else w) [0 ..< g_count e] ?z1"
  have z: "?z1 = ?z" by (simp add: smp_zero_def)
  have s: "shape n ?f" "view ?f = view ?z" "w_dev ?f = d"
  proof -
    show "shape n ?f" "view ?f = view ?z" using shape_zero [OF assms] unfolding z by (simp_all add: fold_seed)
    show "w_dev ?f = d" unfolding z fold_seed by (simp add: smp_zero_def)
  qed
  have m: "slot_of 0 0 = 0" "(0 :: nat) < kMaxVcpus" by (simp_all add: slot_of_def kMaxVcpus_def kMaxGuests_def kMaxVcpusPerVm_def)
  show "view (vcpu_init e 0 ?z) = a_boot"
    using s(1) unfolding vcpu_init_def Let_def
    by (simp add: view_publish_power [where n = n] view_set_state [where n = n] s(2) view_zero m a_boot_def view_upd_sched_same
        fun_eq_iff)
  show "shape n (vcpu_init e 0 ?z)" using s(1) unfolding vcpu_init_def Let_def by simp
  show "VcpuWorld.more (vcpu_init e 0 ?z) = VcpuWorld.more ?z" unfolding vcpu_init_def Let_def by (simp add: fold_seed)
  show "w_dev (vcpu_init e 0 ?z) = d" unfolding vcpu_init_def Let_def using s(3) by simp
qed

lemma boot_power:
  assumes "cfg_ok n e" "en_guests e \<noteq> []"
  shows "power_ok e a_boot"
proof (rule power_okI)
  have b: "valid_slot e (slot_of 0 0)" by (rule cfg_boot(1) [OF assms(1)]) (use assms(2) in simp)
  have "slot_of 0 0 = 0" by (simp add: slot_of_def)
  then have v: "valid_slot e 0" using b by simp
  show "a_st a_boot s = StOff \<and> a_pub a_boot s = PwOff" if "\<not> valid_slot e s" for s
    using that v by (cases "s = 0") (simp_all add: a_boot_def)
  have "{s. a_pub a_boot s = PwOn} = {0}" by (auto simp: a_boot_def)
  then show "a_alive a_boot = of_nat (card {s. a_pub a_boot s = PwOn})" by (simp add: a_boot_def)
qed (auto simp: a_boot_def split: if_splits)

lemma boot_inv:
  assumes "smp_boot n e D quiet good m"
  shows "smp_inv n e D quiet good m"
proof -
  obtain online timers hw g d where
    s: "setting n e quiet good" "devices_ok D quiet good" "en_guests e \<noteq> []" "good d" and
    l: "length online = n" "length timers = n" "length hw = n" and
    m: "m = \<lparr>mc_w = vcpu_init e 0 (smp_zero n online timers hw g d), mc_batch = replicate n [], mc_sched = replicate n False\<rparr>"
    using assms unfolding smp_boot_def by blast
  let ?w = "vcpu_init e 0 (smp_zero n online timers hw g d)"
  note v = boot_view [OF l(2,3), of e online g d]
  note c = more_coord [OF v(3)]
  have mail: "w_mail ?w = replicate n []" "w_lifecycle ?w = replicate kMaxGuests tracker_init" "w_token ?w = replicate kMaxGuests 0"
      "w_online ?w = online" "w_dma_pending ?w = replicate kMaxGuests False" "w_dma_failed ?w = replicate kMaxGuests False"
    using c by (simp_all add: coord_def smp_zero_def)
  have none: "msgs ?w \<union> batch_msgs m = {}" by (auto simp: msgs_def mail batch_msgs_def m)
  have b: "base n e good ?w"
    using v boot_power [OF settingD(1) [OF s(1)] s(3)] s(4) l mail by (simp add: base_def boxes_ok_def)
  have t: "vm < kMaxGuests" if "vm < length (en_guests e)" for vm using settingD(1) [OF s(1)] that by (simp add: cfg_ok_def)
  have "proto e quiet (batch_msgs m) ?w" unfolding proto_def none
  proof (intro conjI allI impI)
    show "vm_proto e quiet {} vm ?w" if "vm < length (en_guests e)" for vm
      by (rule vm_protoI) (use t [OF that] in \<open>simp_all add: mail lifecycle_token_def tracker_init_def kUnpublishedEpoch_def kLifecycleInactive_def\<close>)
  qed (simp add: msgs_ok_def)
  then show ?thesis using s b by (simp add: smp_inv_def safe_def m)
qed

interpretation smp: invariant_machine "smp_boot n e D quiet good" "smp_step n e D" "smp_inv n e D quiet good"
  by unfold_locales (rule boot_inv, assumption, rule inv_step)

lemma reachable_safe:
  assumes "smp_boot n e D quiet good m0" "(smp_step n e D)\<^sup>*\<^sup>* m0 m"
  shows "setting n e quiet good" "safe n e quiet good (batch_msgs m) (mc_w m)"
  using smp.reachable_inv [OF assms] by (simp_all add: smp_inv_def)

end
