(* ===== verification/NovaSmpThms.thy ===== *)
theory NovaSmpThms
  imports NovaSmpMachine
begin

text \<open>
  The properties of the coordinator over every interleaving of the machine, and a
  concrete machine of one core, one VM and one DMA device on which they apply.
\<close>

section \<open>A small machine\<close>

text \<open>A device state: is the device attached, has an image been rewritten under it.\<close>

type_synonym wit_dev = "bool \<times> bool"

definition wit_peers :: "wit_dev Peers" where
  "wit_peers = \<lparr>pr_vm_reset = (\<lambda>_ d. d), pr_reload = (\<lambda>vm d. (fst d, snd d \<or> vm = 0 \<and> fst d)), pr_eoi = (\<lambda>_ d. d),
     pr_dma = (\<lambda>op vm _ d. if vm \<noteq> 0 then ((False, DqComplete), d)
       else case op of DqBegin \<Rightarrow> ((True, DqPending), d) | DqPoll \<Rightarrow> ((True, DqComplete), (False, snd d))
       | DqResume \<Rightarrow> ((True, DqComplete), (True, snd d)) | DqCanStart \<Rightarrow> ((True, DqComplete), d))\<rparr>"

definition wit_quiet :: "nat \<Rightarrow> wit_dev \<Rightarrow> bool" where "wit_quiet vm d \<longleftrightarrow> vm = 0 \<longrightarrow> \<not> fst d"
definition wit_good :: "wit_dev \<Rightarrow> bool" where "wit_good d \<longleftrightarrow> \<not> snd d"
definition wit_moves :: "wit_dev \<Rightarrow> wit_dev \<Rightarrow> bool" where "wit_moves d d' \<longleftrightarrow> d = d'"

definition wit_guest :: GuestDescriptor where
  "wit_guest = \<lparr>gd_ipa_base = 0, gd_ipa_size = 0, gd_load_pa = 0, gd_entry_pc = 0, gd_stack_top = 0, gd_vmid = 1, gd_vcpus = 1,
     gd_cpu = [0, 0, 0, 0], gd_uart = UartNone, gd_auto_start = True, gd_dtb = 0, gd_dtb_size = 0, gd_dtb_ipa = 0,
     gd_payload = 0, gd_payload_size = 0, gd_payload_checksum = 0\<rparr>"

definition wit_env :: "wit_dev Env" where
  "wit_env = \<lparr>en_guests = [wit_guest], en_peers = wit_peers, en_now = 0, en_turn = 0, en_hz = 62500000, en_eisr = (\<lambda>_. 0), en_spoken = False\<rparr>"

definition wit_vgic :: Vgic where
  "wit_vgic = \<lparr>vg_cpu = [], vg_hw = [], vg_resident = [None], vg_lr_count = 0, vg_vtr = 0, vg_vmcr_reset = 0, vg_dist = [], vg_tokens = [], vg_ich = []\<rparr>"

definition wit_hw :: CoreHw where
  "wit_hw = \<lparr>ch_frame = ctx_zero, ch_el1 = el1_reset, ch_fp = fp_reset, ch_tfp = False, ch_vm = None, ch_vmpidr = 0, ch_cntvoff = 0,
     ch_entered = False, ch_halted = False, ch_dispatching = False, ch_epilogue = False\<rparr>"

definition wit_m0 :: "wit_dev Machine" where
  "wit_m0 = \<lparr>mc_w = vcpu_init wit_env 0 (smp_zero 1 [True] [\<lparr>st_queue = queue_init kSlotCount, st_programmed = 0, st_cnthp = None\<rparr>] [wit_hw] wit_vgic (True, False)),
     mc_batch = [[]], mc_sched = [False]\<rparr>"

definition wit_m1 :: "wit_dev Machine" where "wit_m1 = wit_m0\<lparr>mc_w := irq_enter 0 (mc_w wit_m0)\<rparr>"
definition wit_m2 :: "wit_dev Machine" where "wit_m2 = wit_m1\<lparr>mc_w := snd (command_stop wit_env 0 0 (mc_w wit_m1))\<rparr>"

lemma wit_eval:
  "tracker_ready (w_lifecycle (mc_w wit_m2) ! 0) \<and> \<not> in_irq 0 (mc_w wit_m0) \<and> in_irq 0 (mc_w wit_m1)
     \<and> w_lifecycle (mc_w wit_m0) = [tracker_init, tracker_init, tracker_init, tracker_init]
     \<and> w_lifecycle (mc_w wit_m1) = [tracker_init, tracker_init, tracker_init, tracker_init]"
  by code_simp

lemma wit_cfg: "cfg_ok 1 wit_env"
proof -
  have "affinity wit_env slot < 1" if "valid_slot wit_env slot" for slot
  proof -
    have "slot < 2" using that by (simp add: valid_slot_def g_count_def wit_env_def kMaxGuests_def kMaxVcpusPerVm_def)
    then have "slot = 0 \<or> slot = 1" by linarith
    then show ?thesis by (auto simp: affinity_def wit_env_def wit_guest_def vm_of_def vcpu_of_def kMaxVcpusPerVm_def)
  qed
  then show ?thesis by (simp add: cfg_ok_def wit_env_def wit_guest_def kMaxGuests_def kMaxVcpusPerVm_def)
qed

lemma wit_peers_ok: "peers_ok wit_peers wit_quiet wit_good"
  by (auto simp: peers_ok_def wit_peers_def wit_quiet_def wit_good_def dma_quiesce_outcome_def split: DmaQuiesceOp.splits)

lemma wit_setting: "setting 1 wit_env wit_quiet wit_good"
  using wit_cfg wit_peers_ok unfolding setting_def by (simp add: wit_env_def)

lemma wit_boot: "smp_boot 1 wit_env wit_moves wit_quiet wit_good wit_m0"
  unfolding smp_boot_def
proof (intro conjI exI)
  show "setting 1 wit_env wit_quiet wit_good" by (rule wit_setting)
  show "devices_ok wit_moves wit_quiet wit_good" by (simp add: devices_ok_def wit_moves_def)
  show "en_guests wit_env \<noteq> []" by (simp add: wit_env_def)
  show "wit_m0 = \<lparr>mc_w = vcpu_init wit_env 0 (smp_zero 1 [True] [\<lparr>st_queue = queue_init kSlotCount, st_programmed = 0, st_cnthp = None\<rparr>]
      [wit_hw] wit_vgic (True, False)), mc_batch = replicate 1 [], mc_sched = replicate 1 False\<rparr>"
    by (simp add: wit_m0_def)
qed (simp_all add: wit_good_def)

lemma wit_fresh: "all_fresh 2 wit_env (mc_w wit_m0)" "all_fresh 2 wit_env (mc_w wit_m1)"
  using wit_eval by (simp_all add: all_fresh_def fresh_def wit_env_def tracker_init_def)

lemma wit_steps: "(smp_step 1 wit_env wit_moves)\<^sup>*\<^sup>* wit_m0 wit_m2"
proof -
  have "smp_step 1 wit_env wit_moves wit_m0 wit_m1"
    unfolding wit_m1_def by (rule smp_step.core [OF _ _ _ _ cpu_step.irq]) (use wit_eval wit_fresh in simp_all)
  moreover have "smp_step 1 wit_env wit_moves wit_m1 wit_m2"
    unfolding wit_m2_def by (rule smp_step.core [OF _ _ _ _ cpu_step.host_stop]) (use wit_eval wit_fresh in simp_all)
  ultimately show ?thesis by (meson converse_rtranclp_into_rtranclp rtranclp.rtrancl_refl)
qed

section \<open>The quiesce protocol\<close>



text \<open>
  C6. Memory is never rewritten under a running device. Whatever property of memory
  and devices a restore of a drained VM keeps, and the other calls of the peers keep,
  holds in every reachable state: a VM image is copied back only while its DMA is
  quiet.
\<close>

theorem restore_only_when_quiet:
  assumes "smp_boot n e D quiet good m0" "(smp_step n e D)\<^sup>*\<^sup>* m0 m"
  shows "good (w_dev (mc_w m))"
  by (rule baseD(4) [OF safeD(1) [OF reachable_safe(2) [OF assms]]])

lemma restore_only_when_quiet_witness: "wit_good (w_dev (mc_w wit_m2))"
  by (rule restore_only_when_quiet [OF wit_boot wit_steps])



section \<open>The power state\<close>

text \<open>
  C5. The power state of the machine is consistent in every reachable state: a core's
  resident belongs to that core, is powered on and not off for the scheduler; a
  running vCPU is the resident of its core; a vCPU is published on exactly when the
  scheduler has not retired it; and the count of live vCPUs is the number published.
\<close>

theorem power_consistent:
  assumes "smp_boot n e D quiet good m0" "(smp_step n e D)\<^sup>*\<^sup>* m0 m"
    and "k < n" "c < kMaxVcpus"
  shows "(cur (mc_w m) k = Some c \<longrightarrow> valid_slot e c \<and> affinity e c = k \<and> w_published (mc_w m) ! c = PwOn)
    \<and> (st (mc_w m) c = StRunning \<longrightarrow> cur (mc_w m) (affinity e c) = Some c)
    \<and> (w_published (mc_w m) ! c = PwOn \<longleftrightarrow> st (mc_w m) c \<noteq> StOff)
    \<and> w_alive (mc_w m) = of_nat (card {s. s < kMaxVcpus \<and> w_published (mc_w m) ! s = PwOn})"
proof -
  note r = reachable_safe [OF assms(1,2)]
  note b = baseD [OF safeD(1) [OF r(2)]]
  let ?a = "view (mc_w m)"
  note at = view_at [OF b(1)] and p = power_okD [OF b(2)]
  have "{s. s < kMaxVcpus \<and> w_published (mc_w m) ! s = PwOn} = {s. a_pub ?a s = PwOn}"
    using at(3) p(3) valid_slot_less [of e] by (metis (no_types, lifting) PowerState.distinct(4))
  then have al: "w_alive (mc_w m) = of_nat (card {s. s < kMaxVcpus \<and> w_published (mc_w m) ! s = PwOn})"
    using p(5) at(5) by simp
  have run: "cur (mc_w m) (affinity e c) = Some c" if "st (mc_w m) c = StRunning"
  proof -
    have a: "a_st ?a c = StRunning" using that at(1) [OF assms(4)] by simp
    have "valid_slot e c" using p(3) [of c] a by (metis State.distinct(3))
    then have "affinity e c < n" using settingD(1) [OF r(1)] by (simp add: cfg_ok_def)
    then show ?thesis using p(2) [OF a] at(2) by simp
  qed
  show ?thesis
    using al run p(1) [of k c] p(4) [of c] at(1,3) [OF assms(4)] at(2) [OF assms(3)] by auto
qed

lemma power_consistent_witness: "w_alive (mc_w wit_m2) = of_nat (card {s. s < kMaxVcpus \<and> w_published (mc_w wit_m2) ! s = PwOn})"
  using power_consistent [OF wit_boot wit_steps, of 0 0] by (simp add: kMaxVcpus_def kMaxGuests_def kMaxVcpusPerVm_def)

end
