(* ===== verification/NovaSmmuModel.thy ===== *)
theory NovaSmmuModel
  imports NovaCoreMmu NovaRing
begin

text \<open>
  The pure models of the SMMUv3 driver: the register map (\<open>nova/arch/smmuv3/regs.hpp\<close>),
  the queue phases, the command words, the stream table entry, the event records, the
  stream ownership and the capability checks (\<open>smmu/*_model.hpp\<close>). A stream table
  entry is a list of eight words, a command one of two, an event record one of four.
  \<open>size_t\<close> and the queue depth are naturals; unnamed values of an enumeration read from
  the device are kept.
\<close>

section \<open>Register map\<close>

definition kIdr0 :: u32 where "kIdr0 = 0x0000"
definition kIdr1 :: u32 where "kIdr1 = 0x0004"
definition kIdr5 :: u32 where "kIdr5 = 0x0014"
definition kCr0 :: u32 where "kCr0 = 0x0020"
definition kCr0Ack :: u32 where "kCr0Ack = 0x0024"
definition kCr1 :: u32 where "kCr1 = 0x0028"
definition kCr2 :: u32 where "kCr2 = 0x002C"
definition kGbpa :: u32 where "kGbpa = 0x0044"
definition kIrqCtrl :: u32 where "kIrqCtrl = 0x0050"
definition kIrqAck :: u32 where "kIrqAck = 0x0054"
definition kGerror :: u32 where "kGerror = 0x0060"
definition kGerrorN :: u32 where "kGerrorN = 0x0064"
definition kStrtabBase :: u32 where "kStrtabBase = 0x0080"
definition kStrtabBaseCfg :: u32 where "kStrtabBaseCfg = 0x0088"
definition kCmdqBase :: u32 where "kCmdqBase = 0x0090"
definition kCmdqProd :: u32 where "kCmdqProd = 0x0098"
definition kCmdqCons :: u32 where "kCmdqCons = 0x009C"
definition kEvtqBase :: u32 where "kEvtqBase = 0x00A0"
definition kEvtqProd :: u32 where "kEvtqProd = 0x00A8"
definition kEvtqCons :: u32 where "kEvtqCons = 0x00AC"
definition kIdr0S2p :: u32 where "kIdr0S2p = 1"
definition kIdr0TtfMask :: u32 where "kIdr0TtfMask = 0xC"
definition kIdr0TtfAarch64 :: u32 where "kIdr0TtfAarch64 = 8"
definition kIdr0Coherent :: u32 where "kIdr0Coherent = 0x10"
definition kIdr0Vmid16 :: u32 where "kIdr0Vmid16 = 0x40000"
definition kIdr1SidSizeMask :: u32 where "kIdr1SidSizeMask = 0x3F"
definition kIdr1EvtqsShift :: nat where "kIdr1EvtqsShift = 16"
definition kIdr1CmdqsShift :: nat where "kIdr1CmdqsShift = 21"
definition kIdr1QsizeMask :: u32 where "kIdr1QsizeMask = 0x1F"
definition kIdr1QueuePreset :: u32 where "kIdr1QueuePreset = 0x20000000"
definition kIdr1TablePreset :: u32 where "kIdr1TablePreset = 0x40000000"
definition kIdr5OasMask :: u32 where "kIdr5OasMask = 7"
definition kIdr5Granule4k :: u32 where "kIdr5Granule4k = 0x10"
definition kCr0SmmuEnable :: u32 where "kCr0SmmuEnable = 1"
definition kCr0EvtqEnable :: u32 where "kCr0EvtqEnable = 4"
definition kCr0CmdqEnable :: u32 where "kCr0CmdqEnable = 8"
definition kCr2RecordSid :: u32 where "kCr2RecordSid = 2"
definition kCr2PrivateTlb :: u32 where "kCr2PrivateTlb = 4"
definition kGbpaAbort :: u32 where "kGbpaAbort = 0x100000"
definition kGbpaUpdate :: u32 where "kGbpaUpdate = 0x80000000"
definition kCr1WriteBack :: u32 where "kCr1WriteBack = 1"
definition kCr1InnerShareable :: u32 where "kCr1InnerShareable = 3"
definition kIrqGerror :: u32 where "kIrqGerror = 1"
definition kIrqEvent :: u32 where "kIrqEvent = 4"
definition kCmdqConsErrorMask :: u32 where "kCmdqConsErrorMask = 0x7F000000"
definition kStrtabBaseRa :: u64 where "kStrtabBaseRa = 0x4000000000000000"
definition kStrtabAddrMask :: u64 where "kStrtabAddrMask = 0x000FFFFFFFFFFFC0"
definition kQueueBaseRwa :: u64 where "kQueueBaseRwa = 0x4000000000000000"
definition kQueueAddrMask :: u64 where "kQueueAddrMask = 0x000FFFFFFFFFFFE0"
definition kPhysicalMask :: u64 where "kPhysicalMask = 0x000FFFFFFFFFFFFF"

section \<open>Queue phases\<close>

definition kMaxQueueLog2Entries :: nat where "kMaxQueueLog2Entries = 19"
definition kEventQueueOverflow :: u32 where "kEventQueueOverflow = 0x80000000"

record QueueState =
  qs_log2_entries :: nat
  qs_producer :: u32
  qs_consumer :: u32

definition qs_valid :: "QueueState \<Rightarrow> bool" where
  "qs_valid q \<longleftrightarrow> qs_log2_entries q \<le> kMaxQueueLog2Entries"

definition qs_capacity :: "QueueState \<Rightarrow> u32" where
  "qs_capacity q = (if qs_valid q then push_bit (qs_log2_entries q) 1 else 0)"

definition qs_index_mask :: "QueueState \<Rightarrow> u32" where
  "qs_index_mask q = (if qs_valid q then qs_capacity q - 1 else 0)"

definition qs_wrap_mask :: "QueueState \<Rightarrow> u32" where
  "qs_wrap_mask q = (if qs_valid q then qs_capacity q else 0)"

definition qs_pointer_mask :: "QueueState \<Rightarrow> u32" where
  "qs_pointer_mask q = (if qs_valid q then push_bit 1 (qs_wrap_mask q) - 1 else 0)"

definition qs_producer_index :: "QueueState \<Rightarrow> u32" where
  "qs_producer_index q = qs_producer q AND qs_index_mask q"

definition qs_consumer_index :: "QueueState \<Rightarrow> u32" where
  "qs_consumer_index q = qs_consumer q AND qs_index_mask q"

definition qs_used :: "QueueState \<Rightarrow> u32" where
  "qs_used q = (if qs_valid q then (qs_producer q - qs_consumer q) AND qs_pointer_mask q else 0)"

definition qs_consistent :: "QueueState \<Rightarrow> bool" where
  "qs_consistent q \<longleftrightarrow> qs_valid q \<and> qs_used q \<le> qs_capacity q"

definition qs_empty :: "QueueState \<Rightarrow> bool" where
  "qs_empty q \<longleftrightarrow> qs_consistent q \<and> qs_used q = 0"

definition qs_full :: "QueueState \<Rightarrow> bool" where
  "qs_full q \<longleftrightarrow> qs_consistent q \<and> qs_used q = qs_capacity q"

definition qs_advance :: "QueueState \<Rightarrow> u32 \<Rightarrow> u32" where
  "qs_advance q v = (v AND NOT (qs_pointer_mask q)) OR ((v + 1) AND qs_pointer_mask q)"

definition try_produce :: "QueueState \<Rightarrow> bool \<times> QueueState" where
  "try_produce q = (if \<not> qs_consistent q \<or> qs_full q then (False, q)
     else (True, q\<lparr>qs_producer := qs_advance q (qs_producer q)\<rparr>))"

definition try_consume :: "QueueState \<Rightarrow> bool \<times> QueueState" where
  "try_consume q = (if \<not> qs_consistent q \<or> qs_empty q then (False, q)
     else (True, q\<lparr>qs_consumer := qs_advance q (qs_consumer q)\<rparr>))"

definition event_overflow_pending :: "QueueState \<Rightarrow> bool" where
  "event_overflow_pending q \<longleftrightarrow> (qs_producer q XOR qs_consumer q) AND kEventQueueOverflow \<noteq> 0"

definition mark_event_overflow :: "QueueState \<Rightarrow> QueueState" where
  "mark_event_overflow q = (if \<not> event_overflow_pending q then q\<lparr>qs_producer := qs_producer q XOR kEventQueueOverflow\<rparr> else q)"

definition acknowledge_event_overflow :: "QueueState \<Rightarrow> QueueState" where
  "acknowledge_event_overflow q =
     q\<lparr>qs_consumer := (qs_consumer q AND NOT kEventQueueOverflow) OR (qs_producer q AND kEventQueueOverflow)\<rparr>"

definition try_record_event :: "QueueState \<Rightarrow> bool \<times> QueueState" where
  "try_record_event q =
     (if \<not> qs_consistent q then (False, q)
      else if qs_full q then (False, mark_event_overflow q)
      else try_produce q)"

section \<open>Commands\<close>

type_synonym CommandEntry = "u64 list"

definition kCfgiSte :: u64 where "kCfgiSte = 0x03"
definition kTlbiS12Vmall :: u64 where "kTlbiS12Vmall = 0x28"
definition kTlbiNsnhAll :: u64 where "kTlbiNsnhAll = 0x30"
definition kSync :: u64 where "kSync = 0x46"
definition kSidShift :: nat where "kSidShift = 32"
definition kVmidShift :: nat where "kVmidShift = 32"
definition kCfgiLeaf :: u64 where "kCfgiLeaf = 1"
definition kSyncInnerShareableWriteBack :: u64 where "kSyncInnerShareableWriteBack = 0x0FC00000"

definition make_cfgi_ste :: "u32 \<Rightarrow> CommandEntry" where
  "make_cfgi_ste stream_id = [kCfgiSte OR push_bit kSidShift (ucast stream_id), kCfgiLeaf]"

definition make_tlbi_s12_vmall :: "u16 \<Rightarrow> CommandEntry" where
  "make_tlbi_s12_vmall vmid = [kTlbiS12Vmall OR push_bit kVmidShift (ucast vmid), 0]"

definition make_tlbi_nsnh_all :: CommandEntry where "make_tlbi_nsnh_all = [kTlbiNsnhAll, 0]"

definition make_command_sync :: CommandEntry where
  "make_command_sync = [kSync OR kSyncInnerShareableWriteBack, 0]"

section \<open>Stream table entries\<close>

type_synonym StreamTableEntry = "u64 list"

definition kSteValid :: u64 where "kSteValid = 1"
definition kConfigShift :: nat where "kConfigShift = 1"
definition kConfigMask :: u64 where "kConfigMask = 0xE"
definition kStage2Only :: u64 where "kStage2Only = 6"
definition kVmidMask :: u64 where "kVmidMask = 0xFFFF"
definition kT0szShift :: nat where "kT0szShift = 32"
definition kSl0Shift :: nat where "kSl0Shift = 38"
definition kIrgn0Shift :: nat where "kIrgn0Shift = 40"
definition kOrgn0Shift :: nat where "kOrgn0Shift = 42"
definition kSh0Shift :: nat where "kSh0Shift = 44"
definition kTg0Shift :: nat where "kTg0Shift = 46"
definition kPsShift :: nat where "kPsShift = 48"
definition kAa64 :: u64 where "kAa64 = 0x8000000000000"
definition kProtectedTableWalk :: u64 where "kProtectedTableWalk = 0x40000000000000"
definition kRecordFault :: u64 where "kRecordFault = 0x400000000000000"
definition kS2ttbMask :: u64 where "kS2ttbMask = 0x000FFFFFFFFFFFF0"
definition kPa40Mask :: u64 where "kPa40Mask = 0xFFFFFFFFFF"
definition kStage2T0sz :: u64 where "kStage2T0sz = 25"
definition kStage2Sl0 :: u64 where "kStage2Sl0 = 1"
definition kStage2Granule4k :: u64 where "kStage2Granule4k = 0"
definition kStage2Pa40 :: u64 where "kStage2Pa40 = 2"
definition kWriteBack :: u64 where "kWriteBack = 3"
definition kInnerShareable :: u64 where "kInnerShareable = 3"

datatype SteError = SteNone | SteUnalignedRoot | SteRootOutOfRange

record SteEncoding =
  se_entry :: StreamTableEntry
  se_error :: SteError

definition se_ok :: "SteEncoding \<Rightarrow> bool" where "se_ok s \<longleftrightarrow> se_error s = SteNone"

definition make_abort_ste :: StreamTableEntry where
  "make_abort_ste = (replicate 8 0)[0 := kSteValid]"

definition ste_config :: "u16 \<Rightarrow> u64" where
  "ste_config vmid = (ucast vmid AND kVmidMask) OR push_bit kT0szShift kStage2T0sz OR push_bit kSl0Shift kStage2Sl0
     OR push_bit kIrgn0Shift kWriteBack OR push_bit kOrgn0Shift kWriteBack OR push_bit kSh0Shift kInnerShareable
     OR push_bit kTg0Shift kStage2Granule4k OR push_bit kPsShift kStage2Pa40 OR kAa64 OR kProtectedTableWalk OR kRecordFault"

definition make_stage2_ste :: "u64 \<Rightarrow> u16 \<Rightarrow> SteEncoding" where
  "make_stage2_ste root_pa vmid =
     (if root_pa AND 0xFFF \<noteq> 0 then \<lparr>se_entry = replicate 8 0, se_error = SteUnalignedRoot\<rparr>
      else if root_pa AND NOT kPa40Mask \<noteq> 0 then \<lparr>se_entry = replicate 8 0, se_error = SteRootOutOfRange\<rparr>
      else \<lparr>se_entry = (replicate 8 0)[0 := kSteValid OR push_bit kConfigShift kStage2Only, 2 := ste_config vmid,
              3 := root_pa AND kS2ttbMask], se_error = SteNone\<rparr>)"

section \<open>Event records\<close>

datatype EventType = EtNone | EtBadStreamId | EtSteFetch | EtBadSte | EtCdFetch | EtTranslationFault | EtAddressSizeFault
  | EtAccessFault | EtPermissionFault | EtUnnamed u8

type_synonym EventRecord = "u64 list"

definition kEventTypeMask :: u64 where "kEventTypeMask = 0xFF"
definition kEventSsidValid :: u64 where "kEventSsidValid = 0x800"
definition kEventSsidShift :: nat where "kEventSsidShift = 12"
definition kEventSsidMask :: u64 where "kEventSsidMask = 0xFFFFF000"
definition kEventSidShift :: nat where "kEventSidShift = 32"
definition kEventIpaMask :: u64 where "kEventIpaMask = 0x000FFFFFFFFFF000"
definition kEventFetchMask :: u64 where "kEventFetchMask = 0x000FFFFFFFFFFFF8"

definition event_type_of :: "u8 \<Rightarrow> EventType" where
  "event_type_of b =
     (if b = 0x00 then EtNone else if b = 0x02 then EtBadStreamId else if b = 0x03 then EtSteFetch
      else if b = 0x04 then EtBadSte else if b = 0x09 then EtCdFetch else if b = 0x10 then EtTranslationFault
      else if b = 0x11 then EtAddressSizeFault else if b = 0x12 then EtAccessFault else if b = 0x13 then EtPermissionFault
      else EtUnnamed b)"

definition event_type :: "EventRecord \<Rightarrow> EventType" where
  "event_type event = event_type_of (ucast (event ! 0 AND kEventTypeMask))"

definition event_stream_id :: "EventRecord \<Rightarrow> u32" where
  "event_stream_id event = ucast (drop_bit kEventSidShift (event ! 0))"

record DecodedEvent =
  de_raw :: EventRecord
  de_type :: EventType
  de_stream_id :: u32
  de_known :: bool
  de_has_substream_id :: bool
  de_substream_id :: u32
  de_has_input_address :: bool
  de_input_address :: u64
  de_has_ipa :: bool
  de_ipa :: u64
  de_has_fetch_address :: bool
  de_fetch_address :: u64

definition decode_event :: "EventRecord \<Rightarrow> DecodedEvent" where
  "decode_event raw =
     (let has = (raw ! 0 AND kEventSsidValid) \<noteq> 0;
          d = \<lparr>de_raw = raw, de_type = event_type raw, de_stream_id = event_stream_id raw, de_known = False,
            de_has_substream_id = has,
            de_substream_id = (if has then ucast (drop_bit kEventSsidShift (raw ! 0 AND kEventSsidMask)) else 0),
            de_has_input_address = False, de_input_address = 0, de_has_ipa = False, de_ipa = 0,
            de_has_fetch_address = False, de_fetch_address = 0\<rparr>
      in case de_type d of
           EtNone \<Rightarrow> d\<lparr>de_known := True\<rparr> | EtBadStreamId \<Rightarrow> d\<lparr>de_known := True\<rparr> | EtBadSte \<Rightarrow> d\<lparr>de_known := True\<rparr>
         | EtSteFetch \<Rightarrow> d\<lparr>de_known := True, de_has_fetch_address := True, de_fetch_address := raw ! 3 AND kEventFetchMask\<rparr>
         | EtCdFetch \<Rightarrow> d\<lparr>de_known := True, de_has_input_address := True, de_input_address := raw ! 2\<rparr>
         | EtUnnamed _ \<Rightarrow> d
         | _ \<Rightarrow> d\<lparr>de_known := True, de_has_input_address := True, de_input_address := raw ! 2,
                  de_has_ipa := True, de_ipa := raw ! 3 AND kEventIpaMask\<rparr>)"

definition requires_quarantine :: "DecodedEvent \<Rightarrow> bool" where
  "requires_quarantine event = (case de_type event of
     EtTranslationFault \<Rightarrow> True | EtAddressSizeFault \<Rightarrow> True | EtAccessFault \<Rightarrow> True | EtPermissionFault \<Rightarrow> True
   | _ \<Rightarrow> False)"

section \<open>Stream ownership\<close>

datatype DomainState = DsDetached | DsAttached | DsQuarantined

record TranslationContext =
  tc_owner_vm :: nat
  tc_vmid :: u16
  tc_root_pa :: u64

definition context_none :: TranslationContext where
  "context_none = \<lparr>tc_owner_vm = kNoVm, tc_vmid = 0, tc_root_pa = 0\<rparr>"

datatype ContextError = CeNone | CeInvalidOwner | CeInvalidVmid | CeDuplicateVmid | CeUnalignedRoot | CeRootOutOfRange
  | CeGuestPaOutOfRange | CeDuplicateRoot

record StreamBinding =
  sb_owner_vm :: nat
  sb_generation :: u64
  sb_state :: DomainState

definition binding_none :: StreamBinding where
  "binding_none = \<lparr>sb_owner_vm = kNoVm, sb_generation = 0, sb_state = DsDetached\<rparr>"

definition sb_configured :: "StreamBinding \<Rightarrow> bool" where
  "sb_configured b \<longleftrightarrow> sb_owner_vm b \<noteq> kNoVm"

text \<open>
  The index is the list of stream lists, one per VM slot; the counts of the code are
  their lengths.
\<close>

type_synonym StreamIndex = "nat list list"

definition streams_of :: "StreamIndex \<Rightarrow> nat \<Rightarrow> nat list" where
  "streams_of ix vm = (if vm \<ge> kMaxGuests then [] else ix ! vm)"

definition index_stream :: "nat \<Rightarrow> StreamBinding list \<Rightarrow> nat \<Rightarrow> StreamIndex \<Rightarrow> StreamIndex" where
  "index_stream cap bs sid ix =
     (let vm = sb_owner_vm (bs ! sid) in
      if \<not> sb_configured (bs ! sid) \<or> vm \<ge> kMaxGuests \<or> length (ix ! vm) \<ge> cap then ix
      else ix[vm := ix ! vm @ [sid]])"

definition build_stream_index :: "nat \<Rightarrow> StreamBinding list \<Rightarrow> StreamIndex" where
  "build_stream_index cap bs = fold (index_stream cap bs) [0 ..< length bs] (replicate kMaxGuests [])"

definition notice_none :: FaultNotice where
  "notice_none = \<lparr>fn_owner_vm = kNoVm, fn_stream_id = 0, fn_generation = 0\<rparr>"

definition snapshot_fault :: "StreamBinding \<Rightarrow> u32 \<Rightarrow> FaultNotice" where
  "snapshot_fault b stream_id =
     (if \<not> sb_configured b \<or> sb_state b \<noteq> DsAttached \<or> sb_generation b = 0 then notice_none
      else \<lparr>fn_owner_vm = sb_owner_vm b, fn_stream_id = stream_id, fn_generation = sb_generation b\<rparr>)"

definition kOutputAddressLimit :: u64 where "kOutputAddressLimit = 0x10000000000"

definition context_error :: "TranslationContext list \<Rightarrow> GuestDescriptor list \<Rightarrow> bool \<Rightarrow> nat \<Rightarrow> ContextError option" where
  "context_error contexts guests vmid16 i =
     (let c = contexts ! i; g = guests ! i in
      if tc_owner_vm c \<noteq> i then Some CeInvalidOwner
      else if tc_vmid c = 0 \<or> tc_vmid c \<noteq> gd_vmid g \<or> (\<not> vmid16 \<and> tc_vmid c > 0xFF) then Some CeInvalidVmid
      else if tc_root_pa c AND 0xFFF \<noteq> 0 then Some CeUnalignedRoot
      else if tc_root_pa c \<ge> kOutputAddressLimit then Some CeRootOutOfRange
      else if \<not> range_well_formed (gd_load_pa g) (gd_ipa_size g)
           \<or> \<not> range_contains 0 kOutputAddressLimit (gd_load_pa g) (gd_ipa_size g) then Some CeGuestPaOutOfRange
      else first_some (\<lambda>j. if tc_vmid c = tc_vmid (contexts ! j) then Some CeDuplicateVmid
             else if tc_root_pa c = tc_root_pa (contexts ! j) then Some CeDuplicateRoot else None) [0 ..< i])"

definition validate_contexts :: "TranslationContext list \<Rightarrow> GuestDescriptor list \<Rightarrow> bool \<Rightarrow> ContextError" where
  "validate_contexts contexts guests vmid16 =
     (if length contexts \<noteq> length guests then CeInvalidOwner
      else case first_some (context_error contexts guests vmid16) [0 ..< length contexts] of Some er \<Rightarrow> er | None \<Rightarrow> CeNone)"

definition configure_binding :: "StreamBinding \<Rightarrow> nat \<Rightarrow> nat \<Rightarrow> bool \<times> StreamBinding" where
  "configure_binding b owner_vm guest_count =
     (if owner_vm \<ge> guest_count \<or> sb_configured b then (False, b)
      else (True, b\<lparr>sb_owner_vm := owner_vm, sb_state := DsDetached\<rparr>))"

definition can_attach :: "StreamBinding \<Rightarrow> u64 \<Rightarrow> bool" where
  "can_attach b generation \<longleftrightarrow> sb_configured b \<and> sb_state b \<noteq> DsAttached \<and> generation > sb_generation b"

definition attachment_matches :: "StreamBinding \<Rightarrow> u64 \<Rightarrow> bool" where
  "attachment_matches b generation \<longleftrightarrow> sb_configured b \<and> sb_state b = DsAttached \<and> sb_generation b = generation"

definition can_attach_vm :: "StreamBinding list \<Rightarrow> nat list \<Rightarrow> u64 \<Rightarrow> bool" where
  "can_attach_vm bs sids generation \<longleftrightarrow>
     (\<forall>sid \<in> set sids. if sb_state (bs ! sid) = DsAttached then attachment_matches (bs ! sid) generation
        else can_attach (bs ! sid) generation)"

definition mark_attached :: "StreamBinding \<Rightarrow> u64 \<Rightarrow> bool \<times> StreamBinding" where
  "mark_attached b generation =
     (if \<not> can_attach b generation then (False, b) else (True, b\<lparr>sb_generation := generation, sb_state := DsAttached\<rparr>))"

definition mark_detached :: "StreamBinding \<Rightarrow> bool \<times> StreamBinding" where
  "mark_detached b = (if \<not> sb_configured b \<or> sb_state b \<noteq> DsAttached then (False, b) else (True, b\<lparr>sb_state := DsDetached\<rparr>))"

definition mark_quarantined :: "StreamBinding \<Rightarrow> bool \<times> StreamBinding" where
  "mark_quarantined b = (if \<not> sb_configured b then (False, b) else (True, b\<lparr>sb_state := DsQuarantined\<rparr>))"

section \<open>Capabilities and base registers\<close>

record Capabilities =
  cp_stage2 :: bool
  cp_aarch64_tables :: bool
  cp_coherent_access :: bool
  cp_vmid16 :: bool
  cp_queues_preset :: bool
  cp_tables_preset :: bool
  cp_granule4k :: bool
  cp_sid_bits :: u8
  cp_cmdq_max_log2 :: u8
  cp_eventq_max_log2 :: u8
  cp_output_size :: u8

datatype RuntimeError = ReNone | ReMissingStage2 | ReMissingAarch64 | ReNonCoherent | RePresetStructures | ReMissingGranule4k
  | ReInsufficientOutputSize | ReInsufficientSidBits | ReInsufficientQueues | ReInvalidAddress | ReInvalidAlignment

fun runtime_error_name :: "RuntimeError \<Rightarrow> string" where
  "runtime_error_name ReNone = ''none''"
| "runtime_error_name ReMissingStage2 = ''missing-stage2''"
| "runtime_error_name ReMissingAarch64 = ''missing-aarch64''"
| "runtime_error_name ReNonCoherent = ''non-coherent''"
| "runtime_error_name RePresetStructures = ''preset-structures''"
| "runtime_error_name ReMissingGranule4k = ''missing-4k-granule''"
| "runtime_error_name ReInsufficientOutputSize = ''insufficient-output-size''"
| "runtime_error_name ReInsufficientSidBits = ''insufficient-sid-bits''"
| "runtime_error_name ReInsufficientQueues = ''insufficient-queues''"
| "runtime_error_name ReInvalidAddress = ''invalid-address''"
| "runtime_error_name ReInvalidAlignment = ''invalid-alignment''"

record RuntimeLayout =
  rl_stream_table_pa :: u64
  rl_command_queue_pa :: u64
  rl_event_queue_pa :: u64
  rl_sid_bits :: u8
  rl_command_log2 :: u8
  rl_event_log2 :: u8

definition kCr1Cacheable :: u32 where
  "kCr1Cacheable = kCr1WriteBack OR push_bit 2 kCr1WriteBack OR push_bit 4 kCr1InnerShareable
     OR push_bit 6 kCr1WriteBack OR push_bit 8 kCr1WriteBack OR push_bit 10 kCr1InnerShareable"

definition kCr2Protected :: u32 where "kCr2Protected = kCr2PrivateTlb OR kCr2RecordSid"
definition kFaultIrqs :: u32 where "kFaultIrqs = kIrqEvent OR kIrqGerror"
definition kEnabledCr0 :: u32 where "kEnabledCr0 = kCr0CmdqEnable OR kCr0EvtqEnable OR kCr0SmmuEnable"

definition decode_capabilities :: "u32 \<Rightarrow> u32 \<Rightarrow> u32 \<Rightarrow> Capabilities" where
  "decode_capabilities idr0 idr1 idr5 =
     \<lparr>cp_stage2 = (idr0 AND kIdr0S2p) \<noteq> 0, cp_aarch64_tables = (idr0 AND kIdr0TtfMask) \<ge> kIdr0TtfAarch64,
      cp_coherent_access = (idr0 AND kIdr0Coherent) \<noteq> 0, cp_vmid16 = (idr0 AND kIdr0Vmid16) \<noteq> 0,
      cp_queues_preset = (idr1 AND kIdr1QueuePreset) \<noteq> 0, cp_tables_preset = (idr1 AND kIdr1TablePreset) \<noteq> 0,
      cp_granule4k = (idr5 AND kIdr5Granule4k) \<noteq> 0, cp_sid_bits = ucast (idr1 AND kIdr1SidSizeMask),
      cp_cmdq_max_log2 = ucast (drop_bit kIdr1CmdqsShift idr1 AND kIdr1QsizeMask),
      cp_eventq_max_log2 = ucast (drop_bit kIdr1EvtqsShift idr1 AND kIdr1QsizeMask),
      cp_output_size = ucast (idr5 AND kIdr5OasMask)\<rparr>"

definition validate_capabilities :: "Capabilities \<Rightarrow> RuntimeLayout \<Rightarrow> RuntimeError" where
  "validate_capabilities caps layout =
     (let misaligned = (\<lambda>pa log2. pa AND (push_bit log2 1 - 1) \<noteq> (0 :: u64)) in
      if \<not> cp_stage2 caps then ReMissingStage2
      else if \<not> cp_aarch64_tables caps then ReMissingAarch64
      else if \<not> cp_coherent_access caps then ReNonCoherent
      else if cp_queues_preset caps \<or> cp_tables_preset caps then RePresetStructures
      else if \<not> cp_granule4k caps then ReMissingGranule4k
      else if cp_output_size caps < 2 then ReInsufficientOutputSize
      else if rl_sid_bits layout = 0 \<or> rl_sid_bits layout \<ge> 32 \<or> cp_sid_bits caps < rl_sid_bits layout then ReInsufficientSidBits
      else if rl_command_log2 layout = 0 \<or> rl_event_log2 layout = 0 \<or> cp_cmdq_max_log2 caps < rl_command_log2 layout
           \<or> cp_eventq_max_log2 caps < rl_event_log2 layout then ReInsufficientQueues
      else if rl_stream_table_pa layout AND NOT kPhysicalMask \<noteq> 0 \<or> rl_command_queue_pa layout AND NOT kPhysicalMask \<noteq> 0
           \<or> rl_event_queue_pa layout AND NOT kPhysicalMask \<noteq> 0 then ReInvalidAddress
      else if misaligned (rl_stream_table_pa layout) (unat (rl_sid_bits layout) + 6)
           \<or> misaligned (rl_command_queue_pa layout) (unat (rl_command_log2 layout) + 4)
           \<or> misaligned (rl_event_queue_pa layout) (unat (rl_event_log2 layout) + 5) then ReInvalidAlignment
      else ReNone)"

definition stream_table_base :: "u64 \<Rightarrow> u64" where
  "stream_table_base pa = (pa AND kStrtabAddrMask) OR kStrtabBaseRa"

definition queue_base :: "u64 \<Rightarrow> u8 \<Rightarrow> u64" where
  "queue_base pa log2_entries = (pa AND kQueueAddrMask) OR kQueueBaseRwa OR ucast log2_entries"

definition stream_table_config :: "u8 \<Rightarrow> u32" where
  "stream_table_config sid_bits = ucast sid_bits"

end
