(* ===== verification/NovaSmmuQueue.thy ===== *)
theory NovaSmmuQueue
  imports NovaSmmuModel
begin

text \<open>
  The SMMU queue phases against counters that never wrap, and the first-in first-out
  contract of a queue with its memory. The producer stores an entry at its index and
  then advances, the consumer reads at its own index and then advances.
\<close>

section \<open>Masks\<close>

lemma mask_words:
  assumes "qs_valid q"
  shows "qs_capacity q = 2 ^ qs_log2_entries q" "qs_index_mask q = mask (qs_log2_entries q)"
    "qs_pointer_mask q = mask (Suc (qs_log2_entries q))"
  using assms by (simp_all add: qs_capacity_def qs_index_mask_def qs_pointer_mask_def qs_wrap_mask_def mask_eq_exp_minus_1
      push_bit_eq_mult)

lemma exp_small:
  assumes "qs_valid q"
  shows "unat (2 ^ qs_log2_entries q :: u32) = 2 ^ qs_log2_entries q" "qs_log2_entries q < 32" "Suc (qs_log2_entries q) < 32"
proof -
  show l: "qs_log2_entries q < 32" "Suc (qs_log2_entries q) < 32"
    using assms by (simp_all add: qs_valid_def kMaxQueueLog2Entries_def)
  show "unat (2 ^ qs_log2_entries q :: u32) = 2 ^ qs_log2_entries q"
    using l(1) unat_of_nat [of "2 ^ qs_log2_entries q", where 'a = 32] power_strict_increasing [OF l(1), of "2 :: nat"] by simp
qed

lemma used_take_bit:
  assumes "qs_valid q"
  shows "qs_used q = take_bit (Suc (qs_log2_entries q)) (qs_producer q - qs_consumer q)"
  using assms by (simp add: qs_used_def mask_words take_bit_eq_mask)

lemma advance_take_bit:
  assumes "qs_valid q" "n \<le> Suc (qs_log2_entries q)"
  shows "take_bit n (qs_advance q v) = take_bit n (v + 1)"
  using assms(2) by (intro bit_eqI) (auto simp: qs_advance_def mask_words [OF assms(1)] bit_simps)

lemma take_bit_word:
  fixes a b :: "'a::len word"
  shows "take_bit n (take_bit n a + take_bit n b) = take_bit n (a + b)"
    "take_bit n (take_bit n a - take_bit n b) = take_bit n (a - b)"
  by (transfer; simp add: take_bit_add take_bit_diff; fail)+

lemma take_bit_word_add2:
  fixes a b :: "'a::len word"
  shows "take_bit n (a + take_bit n b) = take_bit n (a + b)"
  using take_bit_word(1) [of n a "take_bit n b"] take_bit_word(1) [of n a b] by (simp add: take_bit_take_bit)

lemma unat_take_of_nat:
  assumes "n \<le> 32"
  shows "unat (take_bit n (of_nat m :: u32)) = m mod 2 ^ n"
proof -
  have "unat (take_bit n (of_nat m :: u32)) = unat (of_nat m :: u32) mod 2 ^ n"
    by (simp only: unsigned_take_bit_eq) (simp only: take_bit_eq_mod)
  also have "\<dots> = m mod 2 ^ n" by (rule unat_of_nat_mod_dvd) (use assms in \<open>simp add: le_imp_power_dvd del: power_numeral\<close>)
  finally show ?thesis .
qed

lemma mask_upd [simp]:
  "qs_valid (q\<lparr>qs_producer := x\<rparr>) = qs_valid q" "qs_valid (q\<lparr>qs_consumer := x\<rparr>) = qs_valid q"
  by (simp_all add: qs_valid_def)

section \<open>Phases as counters\<close>

text \<open>
  A queue stands for two counters, the entries ever produced and ever consumed. The
  bits above the wrap bit of either pointer (the overflow flag of the event queue) are
  free.
\<close>

definition qs_rep :: "QueueState \<Rightarrow> nat \<Rightarrow> nat \<Rightarrow> bool" where
  "qs_rep q p c \<longleftrightarrow> qs_valid q \<and> c \<le> p \<and> p - c \<le> 2 ^ qs_log2_entries q
     \<and> take_bit (Suc (qs_log2_entries q)) (qs_producer q) = take_bit (Suc (qs_log2_entries q)) (of_nat p)
     \<and> take_bit (Suc (qs_log2_entries q)) (qs_consumer q) = take_bit (Suc (qs_log2_entries q)) (of_nat c)"

lemma rep_used:
  assumes "qs_rep q p c"
  shows "unat (qs_used q) = p - c"
proof -
  let ?n = "Suc (qs_log2_entries q)"
  have v: "qs_valid q" and le: "c \<le> p" "p - c \<le> 2 ^ qs_log2_entries q" using assms by (simp_all add: qs_rep_def)
  have "qs_used q = take_bit ?n (take_bit ?n (qs_producer q) - take_bit ?n (qs_consumer q))"
    by (simp only: used_take_bit [OF v] take_bit_word)
  also have "\<dots> = take_bit ?n (of_nat p - of_nat c)" using assms by (simp only: qs_rep_def take_bit_word)
  also have "\<dots> = take_bit ?n (of_nat (p - c))" using le(1) by (simp add: of_nat_diff)
  finally have "unat (qs_used q) = (p - c) mod 2 ^ ?n" using exp_small(3) [OF v] by (simp only: unat_take_of_nat less_imp_le)
  moreover have "p - c < 2 ^ ?n" using le(2) by (simp add: le_less_trans)
  ultimately show ?thesis by simp
qed

lemma rep_consistent: "qs_rep q p c \<Longrightarrow> qs_consistent q"
  using rep_used [of q p c] exp_small(1) [of q] mask_words(1) [of q]
  by (simp add: qs_consistent_def word_le_nat_alt qs_rep_def)

lemma rep_tests:
  assumes "qs_rep q p c"
  shows "qs_empty q \<longleftrightarrow> p = c" "qs_full q \<longleftrightarrow> p - c = 2 ^ qs_log2_entries q"
  using assms rep_used [OF assms] rep_consistent [OF assms] exp_small(1) [of q] mask_words(1) [of q]
  by (auto simp: qs_empty_def qs_full_def qs_rep_def word_unat_eq_iff)

lemma rep_index:
  assumes "qs_rep q p c"
  shows "unat (qs_producer_index q) = p mod 2 ^ qs_log2_entries q" "unat (qs_consumer_index q) = c mod 2 ^ qs_log2_entries q"
proof -
  let ?k = "qs_log2_entries q"
  have v: "qs_valid q" using assms by (simp add: qs_rep_def)
  have low: "unat (x AND mask ?k) = n mod 2 ^ ?k" if "take_bit (Suc ?k) x = take_bit (Suc ?k) (of_nat n)" for x :: u32 and n
  proof -
    have "take_bit ?k x = take_bit ?k (of_nat n)"
      using arg_cong [OF that, of "take_bit ?k"] by (simp add: take_bit_take_bit)
    then have "unat (take_bit ?k x) = n mod 2 ^ ?k" using exp_small(2) [OF v] by (simp only: unat_take_of_nat less_imp_le)
    then show ?thesis by (simp only: take_bit_eq_mask)
  qed
  show "unat (qs_producer_index q) = p mod 2 ^ ?k" "unat (qs_consumer_index q) = c mod 2 ^ ?k"
    using low [of "qs_producer q" p] low [of "qs_consumer q" c] assms
    by (simp_all add: qs_producer_index_def qs_consumer_index_def mask_words(2) [OF v] qs_rep_def)
qed

lemma take_bit_Suc_counter:
  assumes "qs_valid q" "take_bit (Suc (qs_log2_entries q)) v = take_bit (Suc (qs_log2_entries q)) (of_nat n :: u32)"
  shows "take_bit (Suc (qs_log2_entries q)) (qs_advance q v) = take_bit (Suc (qs_log2_entries q)) (of_nat (Suc n))"
proof -
  have "take_bit (Suc (qs_log2_entries q)) (v + 1) = take_bit (Suc (qs_log2_entries q)) (of_nat n + 1)"
    by (metis assms(2) take_bit_word(1))
  then show ?thesis using advance_take_bit [OF assms(1) order_refl] by (simp add: add.commute)
qed

lemma rep_produce:
  assumes "qs_rep q p c"
  shows "fst (try_produce q) \<longleftrightarrow> p - c < 2 ^ qs_log2_entries q"
    "fst (try_produce q) \<Longrightarrow> qs_rep (snd (try_produce q)) (Suc p) c"
    "\<not> fst (try_produce q) \<Longrightarrow> snd (try_produce q) = q"
  using assms rep_consistent [OF assms] rep_tests(2) [OF assms] take_bit_Suc_counter [of q "qs_producer q" p]
  by (auto simp: try_produce_def qs_rep_def le_neq_implies_less)

lemma rep_consume:
  assumes "qs_rep q p c"
  shows "fst (try_consume q) \<longleftrightarrow> c < p"
    "fst (try_consume q) \<Longrightarrow> qs_rep (snd (try_consume q)) p (Suc c)"
    "\<not> fst (try_consume q) \<Longrightarrow> snd (try_consume q) = q"
  using assms rep_consistent [OF assms] rep_tests(1) [OF assms] take_bit_Suc_counter [of q "qs_consumer q" c]
  by (auto simp: try_consume_def qs_rep_def)

text \<open>Every queue whose fill is within its depth stands for some counters.\<close>

lemma consistent_rep:
  assumes "qs_consistent q"
  shows "qs_rep q (unat (qs_consumer q) + unat (qs_used q)) (unat (qs_consumer q))"
proof -
  let ?n = "Suc (qs_log2_entries q)"
  have v: "qs_valid q" and u: "qs_used q \<le> qs_capacity q" using assms by (simp_all add: qs_consistent_def)
  have "take_bit ?n (qs_consumer q + qs_used q) = take_bit ?n (qs_consumer q + (qs_producer q - qs_consumer q))"
    unfolding used_take_bit [OF v] by (rule take_bit_word_add2)
  then show ?thesis using v u exp_small(1) [OF v] mask_words(1) [OF v] by (simp add: qs_rep_def word_le_nat_alt)
qed

section \<open>A queue with its memory\<close>

text \<open>
  \<open>submit\<close> stores a command at the producer index and then advances; \<open>drain_events\<close>
  reads at the consumer index and then advances.
\<close>

definition queue_store :: "'a \<Rightarrow> QueueState \<Rightarrow> 'a list \<Rightarrow> bool \<times> QueueState \<times> 'a list" where
  "queue_store x q mem = (let m = mem[unat (qs_producer_index q) := x]; (ok, q') = try_produce q in (ok, q', m))"

definition queue_load :: "QueueState \<Rightarrow> 'a list \<Rightarrow> 'a \<times> bool \<times> QueueState" where
  "queue_load q mem = (mem ! unat (qs_consumer_index q), try_consume q)"

definition sq_push :: "QueueState \<times> 'a list \<Rightarrow> 'a \<Rightarrow> (QueueState \<times> 'a list) option" where
  "sq_push r x = (let (ok, r') = queue_store x (fst r) (snd r) in if ok then Some r' else None)"

definition sq_pop :: "QueueState \<times> 'a list \<Rightarrow> ('a \<times> QueueState \<times> 'a list) option" where
  "sq_pop r = (if qs_empty (fst r) then None
     else let (x, ok, q) = queue_load (fst r) (snd r) in if ok then Some (x, q, snd r) else None)"

definition sq_inv :: "nat \<Rightarrow> QueueState \<times> 'a list \<Rightarrow> bool" where
  "sq_inv k r \<longleftrightarrow> qs_consistent (fst r) \<and> qs_log2_entries (fst r) = k \<and> length (snd r) = 2 ^ k"

definition sq_content :: "QueueState \<times> 'a list \<Rightarrow> 'a list" where
  "sq_content r = map (\<lambda>i. snd r ! ((unat (qs_consumer_index (fst r)) + i) mod 2 ^ qs_log2_entries (fst r))) [0 ..< unat (qs_used (fst r))]"

lemma log2_kept [simp]:
  "qs_log2_entries (snd (try_produce q)) = qs_log2_entries q" "qs_log2_entries (snd (try_consume q)) = qs_log2_entries q"
  by (simp_all add: try_produce_def try_consume_def)

lemma sq_content_rep:
  assumes "qs_rep q p c"
  shows "sq_content (q, mem) = map (\<lambda>i. mem ! (i mod 2 ^ qs_log2_entries q)) [c ..< p]"
proof (rule nth_equalityI)
  have le: "c \<le> p" using assms by (simp add: qs_rep_def)
  show "length (sq_content (q, mem)) = length (map (\<lambda>i. mem ! (i mod 2 ^ qs_log2_entries q)) [c ..< p])"
    by (simp add: sq_content_def rep_used [OF assms])
  fix i assume "i < length (sq_content (q, mem))"
  then have "i < p - c" by (simp add: sq_content_def rep_used [OF assms])
  then show "sq_content (q, mem) ! i = map (\<lambda>i. mem ! (i mod 2 ^ qs_log2_entries q)) [c ..< p] ! i"
    by (simp add: sq_content_def rep_used [OF assms] rep_index [OF assms] mod_simps)
qed

lemma sq_push_rep:
  assumes "sq_inv k (q, mem)" "qs_rep q p c" "p - c < 2 ^ k"
  shows "\<exists>r'. sq_push (q, mem) x = Some r' \<and> sq_inv k r' \<and> sq_content r' = sq_content (q, mem) @ [x]"
proof -
  have k: "qs_log2_entries q = k" and l: "length mem = 2 ^ k" and le: "c \<le> p" using assms by (simp_all add: sq_inv_def qs_rep_def)
  obtain q' where q': "try_produce q = (True, q')" using rep_produce(1) [OF assms(2)] assms(3) k by (metis prod.collapse)
  then have r: "qs_rep q' (Suc p) c" using rep_produce(2) [OF assms(2)] by simp
  have k': "qs_log2_entries q' = k" using log2_kept(1) [of q] q' k by simp
  let ?m = "mem[p mod 2 ^ k := x]"
  have "sq_content (q', ?m) = map (\<lambda>i. ?m ! (i mod 2 ^ k)) [c ..< p] @ [?m ! (p mod 2 ^ k)]"
    using sq_content_rep [OF r, of ?m] le k' by simp
  moreover have "?m ! (i mod 2 ^ k) = mem ! (i mod 2 ^ k)" if "c \<le> i" "i < p" for i
    using mod_distinct_window [of i p "2 ^ k"] that less_diff_conv2 [OF le] assms(3) by simp
  ultimately have c: "sq_content (q', ?m) = sq_content (q, mem) @ [x]"
    using sq_content_rep [OF assms(2), of mem] k l by simp
  have "sq_push (q, mem) x = Some (q', ?m)"
    by (simp add: sq_push_def queue_store_def q' rep_index [OF assms(2)] k)
  then show ?thesis using c k' l rep_consistent [OF r] by (simp add: sq_inv_def)
qed

lemma sq_pop_rep:
  assumes "sq_inv k (q, mem)" "qs_rep q p c" "c < p"
  shows "\<exists>r'. sq_pop (q, mem) = Some (mem ! (c mod 2 ^ k), r') \<and> sq_inv k r' \<and> sq_content (q, mem) = mem ! (c mod 2 ^ k) # sq_content r'"
proof -
  have k: "qs_log2_entries q = k" and l: "length mem = 2 ^ k" using assms by (simp_all add: sq_inv_def)
  obtain q' where q': "try_consume q = (True, q')" using rep_consume(1) [OF assms(2)] assms(3) by (metis prod.collapse)
  then have r: "qs_rep q' p (Suc c)" using rep_consume(2) [OF assms(2)] by simp
  have k': "qs_log2_entries q' = k" using log2_kept(2) [of q] q' k by simp
  have "sq_content (q, mem) = mem ! (c mod 2 ^ k) # sq_content (q', mem)"
    using sq_content_rep [OF assms(2), of mem] sq_content_rep [OF r, of mem] assms(3) k k' by (simp add: upt_conv_Cons)
  moreover have "sq_pop (q, mem) = Some (mem ! (c mod 2 ^ k), q', mem)"
    using rep_tests(1) [OF assms(2)] assms(3) by (simp add: sq_pop_def queue_load_def q' rep_index [OF assms(2)] k)
  ultimately show ?thesis using k' l rep_consistent [OF r] by (simp add: sq_inv_def)
qed

lemma sq_content_length: "length (sq_content r) = unat (qs_used (fst r))"
  by (simp add: sq_content_def)

interpretation smmuq: fifo_ring sq_push sq_pop sq_content "2 ^ k" "sq_inv k" for k
proof
  fix r :: "QueueState \<times> 'a list" and x xs
  assume i: "sq_inv k r"
  obtain q mem where r: "r = (q, mem)" by (cases r)
  have k: "qs_log2_entries q = k" and cons: "qs_consistent q" using i r by (simp_all add: sq_inv_def)
  note rep = consistent_rep [OF cons]
  have len: "length (sq_content r) = unat (qs_used q)" using r by (simp add: sq_content_length)
  show "length (sq_content r) \<le> 2 ^ k" using rep k len by (simp add: qs_rep_def)
  show "sq_push r x = None" if "length (sq_content r) = 2 ^ k"
    using rep_produce(1) [OF rep] that len k r by (simp add: sq_push_def queue_store_def case_prod_unfold)
  show "\<exists>r'. sq_push r x = Some r' \<and> sq_inv k r' \<and> sq_content r' = sq_content r @ [x]" if "length (sq_content r) < 2 ^ k"
    using sq_push_rep [of k q mem, OF _ rep, of x] i that len r by simp
  show "sq_pop r = None" if "sq_content r = []"
    using rep_tests(1) [OF rep] that len r by (simp add: sq_pop_def)
  show "\<exists>r'. sq_pop r = Some (x, r') \<and> sq_inv k r' \<and> sq_content r' = xs" if "sq_content r = x # xs"
  proof -
    have "unat (qs_consumer q) < unat (qs_consumer q) + unat (qs_used q)" using that len by simp
    from sq_pop_rep [of k q mem, OF _ rep this] show ?thesis using i that r by auto
  qed
qed

text \<open>
  C14. The phase arithmetic of the command and event queues is a bounded queue. From an
  empty queue of any depth the pointers can represent, whatever the values of its
  32-bit pointers and however often they wrap, a run of stores and loads delivers the
  stored entries once and in order, never overwrites one in flight, and \<open>used\<close> is the
  number in flight.
\<close>

theorem smmu_queue_refines:
  assumes "qs_empty q" "length mem = 2 ^ qs_log2_entries q" "ring_run sq_push sq_pop ops (q, mem) = (r', ins, outs)"
  shows "ins = outs @ sq_content r' \<and> unat (qs_used (fst r')) = length ins - length outs \<and> length (sq_content r') \<le> 2 ^ qs_log2_entries q"
proof -
  have i: "sq_inv (qs_log2_entries q) (q, mem)" using assms(1,2) by (simp add: sq_inv_def qs_empty_def)
  have "sq_content (q, mem) = []" using assms(1) by (simp add: sq_content_def qs_empty_def)
  then show ?thesis using smmuq.run_from_empty [OF i _ assms(3)] by (auto simp: sq_content_length [symmetric])
qed

lemma smmu_queue_refines_witness:
  "let q = \<lparr>qs_log2_entries = 1, qs_producer = 3, qs_consumer = 3\<rparr>;
       (r, ins, outs) = ring_run sq_push sq_pop [RPush 7, RPush 8, RPush 9, RPop, RPush 5] (q, [0, 0 :: nat])
   in ins = [7, 8, 5] \<and> outs = [7] \<and> qs_used (fst r) = 2 \<and> ins = outs @ sq_content r"
proof -
  define q where "q = \<lparr>qs_log2_entries = 1, qs_producer = 3, qs_consumer = 3\<rparr>"
  have e: "qs_empty q" by (simp add: q_def qs_empty_def qs_consistent_def qs_used_def qs_valid_def kMaxQueueLog2Entries_def)
  obtain r ins outs where r: "ring_run sq_push sq_pop [RPush 7, RPush 8, RPush 9, RPop, RPush 5] (q, [0, 0 :: nat]) = (r, ins, outs)"
    by (metis prod.collapse)
  have "ring_run sq_push sq_pop [RPush 7, RPush 8, RPush 9, RPop, RPush 5] (q, [0, 0 :: nat])
      = ((\<lparr>qs_log2_entries = 1, qs_producer = 2, qs_consumer = 0\<rparr>, [8, 5]), [7, 8, 5], [7])"
    unfolding q_def by code_simp
  with smmu_queue_refines [OF e _ r] r show ?thesis by (simp add: q_def [symmetric]) (code_simp?)
qed

end
