(* ===== verification/NovaSmmu.thy ===== *)
theory NovaSmmu
  imports NovaSmmuQueue
begin

text \<open>
  The SMMUv3 driver: the register protocol of \<open>smmu/hw_driver.hpp\<close> and the component
  \<open>smmu.cpp\<close>. The device is a parameter: functions of a hardware state for each
  register access, for the memory the driver publishes to it and for the event records
  it writes. Barriers are the points where the driver's writes to the stream table and
  the command queue become visible to the device. A handler runs under the domain or
  event lock of the code and is one step.

  A panic of the code does not return; such a call returns no value here. Log lines
  are left out, but for the count that limits them.
\<close>

section \<open>The device and the board\<close>

text \<open>The trigger modes of \<open>gicv3/spi.hpp\<close>.\<close>

datatype SpiTrigger = SpiLevel | SpiEdge

record SmmuMem =
  mm_streams :: "StreamTableEntry list"
  mm_commands :: "CommandEntry list"

record 'h Board =
  bd_read32 :: "u32 \<Rightarrow> 'h \<Rightarrow> u32 \<times> 'h"
  bd_write32 :: "u32 \<Rightarrow> u32 \<Rightarrow> 'h \<Rightarrow> 'h"
  bd_write64 :: "u32 \<Rightarrow> u64 \<Rightarrow> 'h \<Rightarrow> 'h"
  bd_publish :: "SmmuMem \<Rightarrow> 'h \<Rightarrow> 'h"
  bd_event :: "nat \<Rightarrow> 'h \<Rightarrow> EventRecord"
  bd_now :: "'h \<Rightarrow> u64"
  bd_hz :: u64
  bd_enable_spi :: "u32 \<Rightarrow> nat \<Rightarrow> SpiTrigger \<Rightarrow> 'h \<Rightarrow> bool \<times> 'h"
  bd_configure_spi :: "u32 \<Rightarrow> nat \<Rightarrow> SpiTrigger \<Rightarrow> 'h \<Rightarrow> bool \<times> 'h"
  bd_mask_spi :: "u32 \<Rightarrow> 'h \<Rightarrow> bool \<times> 'h"
  bd_unmask_spi :: "u32 \<Rightarrow> 'h \<Rightarrow> bool \<times> 'h"
  bd_clear_pending_spi :: "u32 \<Rightarrow> 'h \<Rightarrow> bool \<times> 'h"
  bd_event_intid :: u32
  bd_command_intid :: u32
  bd_error_intid :: u32
  bd_guests :: "GuestDescriptor list"
  bd_assignments :: "Assignment list"
  bd_devices :: "DeviceStream list"
  bd_protected :: "PhysicalRange list"
  bd_stream_table_pa :: u64
  bd_command_queue_pa :: u64
  bd_event_queue_pa :: u64
  bd_l1_pa :: "nat \<Rightarrow> u64"
  bd_l2_pa :: "nat \<Rightarrow> u64"
  bd_l3_pa :: "nat \<Rightarrow> nat \<Rightarrow> u64"

section \<open>Register handshakes\<close>

definition kMaxCommandBatch :: nat where "kMaxCommandBatch = 32"

fun wait_for :: "'h Board \<Rightarrow> u32 \<Rightarrow> u32 \<Rightarrow> nat \<Rightarrow> 'h \<Rightarrow> bool \<times> 'h" where
  "wait_for b off expected polls h =
     (if polls = 0 then (False, h)
      else let (v, h) = bd_read32 b off h in if v = expected then (True, h) else wait_for b off expected (polls - 1) h)"

definition write_synced :: "'h Board \<Rightarrow> u32 \<Rightarrow> u32 \<Rightarrow> u32 \<Rightarrow> nat \<Rightarrow> 'h \<Rightarrow> bool \<times> 'h" where
  "write_synced b off ack_off v poll_limit h = wait_for b ack_off v poll_limit (bd_write32 b off v h)"

fun wait_update :: "'h Board \<Rightarrow> nat \<Rightarrow> 'h \<Rightarrow> bool \<times> 'h" where
  "wait_update b polls h =
     (if polls = 0 then (False, h)
      else let (v, h) = bd_read32 b kGbpa h in if v AND kGbpaUpdate = 0 then (True, h) else wait_update b (polls - 1) h)"

fun block_bypass :: "'h Board \<Rightarrow> nat \<Rightarrow> nat \<Rightarrow> 'h \<Rightarrow> bool \<times> 'h" where
  "block_bypass b poll_limit polls h =
     (if polls = 0 then (False, h)
      else let (current, h) = bd_read32 b kGbpa h in
        if current AND kGbpaUpdate = 0
        then wait_update b poll_limit (bd_write32 b kGbpa (current OR kGbpaUpdate OR kGbpaAbort) h)
        else block_bypass b poll_limit (polls - 1) h)"

declare wait_for.simps [simp del] wait_update.simps [simp del] block_bypass.simps [simp del]

section \<open>State\<close>

record CommandRing =
  cr_entries :: "CommandEntry list"
  cr_queue :: QueueState
  cr_poll_limit :: nat
  cr_ready :: bool

record 'h SmmuWorld =
  sw_hw :: 'h
  sw_stream_table :: "StreamTableEntry list"
  sw_commands :: CommandRing
  sw_tables :: "Stage2Tables list"
  sw_contexts :: "TranslationContext list"
  sw_bindings :: "StreamBinding list"
  sw_vm_streams :: StreamIndex
  sw_context_count :: nat
  sw_enabled :: bool
  sw_event_cons :: u32
  sw_audit_events :: u32
  sw_notices :: "FaultNotice list"

definition upd_hw_smmu :: "('h \<Rightarrow> 'h) \<Rightarrow> ('h, 'z) SmmuWorld_scheme \<Rightarrow> ('h, 'z) SmmuWorld_scheme" where
  "upd_hw_smmu f w = w\<lparr>sw_hw := f (sw_hw w)\<rparr>"

text \<open>An access that returns a value, as a step of the world.\<close>

definition on_hw :: "('h \<Rightarrow> 'a \<times> 'h) \<Rightarrow> ('h, 'z) SmmuWorld_scheme \<Rightarrow> 'a \<times> ('h, 'z) SmmuWorld_scheme" where
  "on_hw f w = (fst (f (sw_hw w)), w\<lparr>sw_hw := snd (f (sw_hw w))\<rparr>)"

definition publish_memory :: "'h Board \<Rightarrow> ('h, 'z) SmmuWorld_scheme \<Rightarrow> ('h, 'z) SmmuWorld_scheme" where
  "publish_memory b w = w\<lparr>sw_hw := bd_publish b \<lparr>mm_streams = sw_stream_table w, mm_commands = cr_entries (sw_commands w)\<rparr> (sw_hw w)\<rparr>"

definition upd_ring :: "(CommandRing \<Rightarrow> CommandRing) \<Rightarrow> ('h, 'z) SmmuWorld_scheme \<Rightarrow> ('h, 'z) SmmuWorld_scheme" where
  "upd_ring f w = w\<lparr>sw_commands := f (sw_commands w)\<rparr>"

definition set_ste :: "nat \<Rightarrow> nat \<Rightarrow> u64 \<Rightarrow> ('h, 'z) SmmuWorld_scheme \<Rightarrow> ('h, 'z) SmmuWorld_scheme" where
  "set_ste sid i v w = w\<lparr>sw_stream_table := (sw_stream_table w)[sid := (sw_stream_table w ! sid)[i := v]]\<rparr>"

definition set_binding :: "nat \<Rightarrow> StreamBinding \<Rightarrow> ('h, 'z) SmmuWorld_scheme \<Rightarrow> ('h, 'z) SmmuWorld_scheme" where
  "set_binding sid x w = w\<lparr>sw_bindings := (sw_bindings w)[sid := x]\<rparr>"

section \<open>Command queue\<close>

fun wait_idle_polls :: "'h Board \<Rightarrow> u32 \<Rightarrow> u32 \<Rightarrow> nat \<Rightarrow> 'h \<Rightarrow> bool \<times> 'h" where
  "wait_idle_polls b m producer polls h =
     (if polls = 0 then (False, h)
      else let (consumer, h) = bd_read32 b kCmdqCons h in
        if consumer AND kCmdqConsErrorMask \<noteq> 0 then (False, h)
        else if consumer AND m = producer then (True, h)
        else wait_idle_polls b m producer (polls - 1) h)"

declare wait_idle_polls.simps [simp del]

definition wait_idle :: "'h Board \<Rightarrow> ('h, 'z) SmmuWorld_scheme \<Rightarrow> bool \<times> ('h, 'z) SmmuWorld_scheme" where
  "wait_idle b w = (let r = sw_commands w in
     on_hw (wait_idle_polls b (qs_pointer_mask (cr_queue r)) (qs_producer (cr_queue r)) (cr_poll_limit r)) w)"

text \<open>The staging loop; a refused store leaves the entries written so far.\<close>

fun stage_commands :: "CommandEntry list \<Rightarrow> QueueState \<Rightarrow> CommandEntry list \<Rightarrow> bool \<times> QueueState \<times> CommandEntry list" where
  "stage_commands [] staged entries = (True, staged, entries)"
| "stage_commands (c # cs) staged entries =
     (let (ok, staged, entries) = queue_store c staged entries in
      if ok then stage_commands cs staged entries else (False, staged, entries))"

definition submit :: "'h Board \<Rightarrow> CommandEntry list \<Rightarrow> ('h, 'z) SmmuWorld_scheme \<Rightarrow> bool \<times> ('h, 'z) SmmuWorld_scheme" where
  "submit b commands w =
     (let r = sw_commands w in
      if \<not> cr_ready r \<or> length commands + 1 > length (cr_entries r) then (False, w)
      else let (idle, w) = wait_idle b w in
        if \<not> idle then (False, w)
        else let (cons, w) = on_hw (bd_read32 b kCmdqCons) w;
                 staged = (cr_queue r)\<lparr>qs_consumer := cons AND qs_pointer_mask (cr_queue r)\<rparr>;
                 (ok, staged, entries) = stage_commands (commands @ [make_command_sync]) staged (cr_entries r);
                 w = upd_ring (\<lambda>r. r\<lparr>cr_entries := entries\<rparr>) w in
          if \<not> ok then (False, w)
          else let w = publish_memory b w;
                   w = upd_ring (\<lambda>r. r\<lparr>cr_queue := staged\<rparr>) w;
                   w = upd_hw_smmu (bd_write32 b kCmdqProd (qs_producer staged)) w in
            wait_idle b w)"

section \<open>Bring-up\<close>

datatype BringUpStep = BsNone | BsGbpa | BsDisable | BsCommandQueue | BsStreamInvalidation | BsTlbInvalidation | BsEventQueue
  | BsIrqEnable | BsEnable

definition shut_down :: "'h Board \<Rightarrow> nat \<Rightarrow> 'h \<Rightarrow> BringUpStep \<times> 'h" where
  "shut_down b poll_limit h =
     (let (ok, h) = block_bypass b poll_limit poll_limit h in
      if \<not> ok then (BsGbpa, h)
      else let (ok, h) = write_synced b kIrqCtrl kIrqAck 0 poll_limit h in
        if \<not> ok then (BsDisable, h)
        else let (ok, h) = write_synced b kCr0 kCr0Ack 0 poll_limit h in
          if \<not> ok then (BsDisable, h) else (BsNone, h))"

text \<open>The invalidation batches; the ring of the driver has more than one entry.\<close>

fun chunks :: "nat \<Rightarrow> 'a list \<Rightarrow> 'a list list" where
  "chunks n xs = (if xs = [] \<or> n = 0 then [] else take n xs # chunks n (drop n xs))"

declare chunks.simps [simp del]

fun submit_all :: "'h Board \<Rightarrow> CommandEntry list list \<Rightarrow> ('h, 'z) SmmuWorld_scheme \<Rightarrow> bool \<times> ('h, 'z) SmmuWorld_scheme" where
  "submit_all b [] w = (True, w)"
| "submit_all b (cs # rest) w = (let (ok, w) = submit b cs w in if ok then submit_all b rest w else (False, w))"

definition bring_up_translation ::
  "'h Board \<Rightarrow> RuntimeLayout \<Rightarrow> nat \<Rightarrow> ('h, 'z) SmmuWorld_scheme \<Rightarrow> BringUpStep \<times> ('h, 'z) SmmuWorld_scheme" where
  "bring_up_translation b layout stream_count w =
     (let limit = cr_poll_limit (sw_commands w);
          w = upd_hw_smmu (\<lambda>h. bd_write32 b kCmdqCons 0 (bd_write32 b kCmdqProd 0
                (bd_write64 b kCmdqBase (queue_base (rl_command_queue_pa layout) (rl_command_log2 layout))
                (bd_write32 b kStrtabBaseCfg (stream_table_config (rl_sid_bits layout))
                (bd_write64 b kStrtabBase (stream_table_base (rl_stream_table_pa layout))
                (bd_write32 b kCr2 kCr2Protected (bd_write32 b kCr1 kCr1Cacheable h))))))) w;
          (ok, w) = on_hw (write_synced b kCr0 kCr0Ack kCr0CmdqEnable limit) w in
      if \<not> ok then (BsCommandQueue, w)
      else let w = upd_ring (\<lambda>r. r\<lparr>cr_ready := True\<rparr>) w;
               batch_limit = min kMaxCommandBatch (length (cr_entries (sw_commands w)) - 1);
               (ok, w) = submit_all b (chunks batch_limit (map (\<lambda>sid. make_cfgi_ste (of_nat sid)) [0 ..< stream_count])) w in
        if \<not> ok then (BsStreamInvalidation, w)
        else let (ok, w) = submit b [make_tlbi_nsnh_all] w in
          if \<not> ok then (BsTlbInvalidation, w)
          else let w = upd_hw_smmu (\<lambda>h. bd_write32 b kEvtqCons 0 (bd_write32 b kEvtqProd 0
                     (bd_write64 b kEvtqBase (queue_base (rl_event_queue_pa layout) (rl_event_log2 layout)) h))) w;
                   (ok, w) = on_hw (write_synced b kCr0 kCr0Ack (kCr0CmdqEnable OR kCr0EvtqEnable) limit) w in
            if \<not> ok then (BsEventQueue, w)
            else let (ok, w) = on_hw (write_synced b kIrqCtrl kIrqAck 0 limit) w in
              if \<not> ok then (BsEventQueue, w)
              else let (stale, w) = on_hw (bd_read32 b kGerror) w in
                (BsNone, upd_hw_smmu (bd_write32 b kGerrorN stale) w))"

definition enable_faults :: "'h Board \<Rightarrow> nat \<Rightarrow> 'h \<Rightarrow> BringUpStep \<times> 'h" where
  "enable_faults b poll_limit h =
     (let (ok, h) = write_synced b kIrqCtrl kIrqAck kFaultIrqs poll_limit h in
      if \<not> ok then (BsIrqEnable, h)
      else let (ok, h) = write_synced b kCr0 kCr0Ack kEnabledCr0 poll_limit h in
        if \<not> ok then (BsEnable, h) else (BsNone, h))"

section \<open>Event queue\<close>

text \<open>The drain loop hands each record to \<open>f\<close>; it ends because every round consumes one.\<close>

lemma consume_used:
  assumes "fst (try_consume q)"
  shows "unat (qs_used (snd (try_consume q))) < unat (qs_used q)"
proof -
  have c: "qs_consistent q" using assms by (auto simp: try_consume_def split: if_splits)
  note r = consistent_rep [OF c]
  have "unat (qs_consumer q) < unat (qs_consumer q) + unat (qs_used q)" using rep_consume(1) [OF r] assms by blast
  then show ?thesis using rep_used [OF rep_consume(2) [OF r assms]] rep_used [OF r] by simp
qed

function drain_loop :: "(nat \<Rightarrow> EventRecord) \<Rightarrow> (EventRecord \<Rightarrow> 's \<Rightarrow> 's) \<Rightarrow> QueueState \<Rightarrow> nat \<Rightarrow> 's \<Rightarrow> nat \<times> QueueState \<times> 's" where
  "drain_loop event f q n s =
     (if qs_empty q then (n, q, s)
      else let s = f (event (unat (qs_consumer_index q))) s in
        if fst (try_consume q) then drain_loop event f (snd (try_consume q)) (Suc n) s else (Suc n, q, s))"
  by pat_completeness auto
termination by (relation "measure (\<lambda>(event, f, q, n, s). unat (qs_used q))") (simp_all add: consume_used)

declare drain_loop.simps [simp del]

record DrainStats =
  dn_processed :: nat
  dn_corrupt :: bool
  dn_overflow :: bool

definition drain_events ::
  "'h Board \<Rightarrow> nat \<Rightarrow> (EventRecord \<Rightarrow> 's \<Rightarrow> 's) \<Rightarrow> 's \<Rightarrow> ('h, 'z) SmmuWorld_scheme \<Rightarrow> (DrainStats \<times> 's) \<times> ('h, 'z) SmmuWorld_scheme" where
  "drain_events b log2_entries on_event s w =
     (let (prod, w) = on_hw (bd_read32 b kEvtqProd) w;
          q = \<lparr>qs_log2_entries = log2_entries, qs_producer = prod, qs_consumer = sw_event_cons w\<rparr> in
      if \<not> qs_consistent q then ((\<lparr>dn_processed = 0, dn_corrupt = True, dn_overflow = False\<rparr>, s), w)
      else let (n, q, s) = drain_loop (\<lambda>i. bd_event b i (sw_hw w)) on_event q 0 s;
               over = event_overflow_pending q;
               q = (if over then acknowledge_event_overflow q else q);
               w = publish_memory b (w\<lparr>sw_event_cons := qs_consumer q\<rparr>);
               w = upd_hw_smmu (bd_write32 b kEvtqCons (qs_consumer q)) w in
        ((\<lparr>dn_processed = n, dn_corrupt = False, dn_overflow = over\<rparr>, s), w))"

section \<open>The component\<close>

definition kSidBits :: u8 where "kSidBits = 5"
definition kCommandQueueLog2 :: nat where "kCommandQueueLog2 = 4"
definition kEventQueueLog2 :: nat where "kEventQueueLog2 = 4"
definition kStreamCount :: nat where "kStreamCount = 32"
definition kCommandCount :: nat where "kCommandCount = 16"
definition kEventCount :: nat where "kEventCount = 16"
definition kDmaL3PoolSize :: nat where "kDmaL3PoolSize = 2"
definition kPollLimit :: nat where "kPollLimit = 1000000"
definition kFaultAuditBurst :: u32 where "kFaultAuditBurst = 4"

record FaultBatch =
  fb_stream_ids :: "u32 list"
  fb_processed :: nat

datatype InitFailure = IfUnavailable | IfStep BringUpStep | IfCapabilities RuntimeError | IfContexts | IfRouting

definition tables_of :: "'h Board \<Rightarrow> nat \<Rightarrow> Stage2Tables" where
  "tables_of b vm = \<lparr>s2_l1_set = True, s2_l1 = (\<lambda>_. kInvalid), s2_l2_pool = [\<lambda>_. kInvalid], s2_l2_pas = [bd_l2_pa b vm],
     s2_l3_pool = replicate kDmaL3PoolSize (\<lambda>_. kInvalid), s2_l3_pas = map (bd_l3_pa b vm) [0 ..< kDmaL3PoolSize],
     s2_l2_used = 0, s2_l3_used = 0\<rparr>"

text \<open>The table loop; a refused window, or a build that gave no result, ends it.\<close>

fun build_contexts ::
  "'h Board \<Rightarrow> nat list \<Rightarrow> ('h, 'z) SmmuWorld_scheme \<Rightarrow> bool \<times> ('h, 'z) SmmuWorld_scheme" where
  "build_contexts b [] w = (True, w)"
| "build_contexts b (vm # vms) w =
     (case build_dma_table (tables_of b vm) (bd_guests b ! vm) of
        Some (True, t) \<Rightarrow> build_contexts b vms
          (w\<lparr>sw_tables := (sw_tables w)[vm := t],
             sw_contexts := (sw_contexts w)[vm := \<lparr>tc_owner_vm = vm, tc_vmid = gd_vmid (bd_guests b ! vm), tc_root_pa = bd_l1_pa b vm\<rparr>]\<rparr>)
      | _ \<Rightarrow> (False, w))"

fun configure_streams :: "nat \<Rightarrow> Assignment list \<Rightarrow> ('h, 'z) SmmuWorld_scheme \<Rightarrow> bool \<times> ('h, 'z) SmmuWorld_scheme" where
  "configure_streams guest_count [] w = (True, w)"
| "configure_streams guest_count (a # as) w =
     (let sid = unat (as_stream_id a) in
      if sid \<ge> length (sw_bindings w) then (False, w)
      else let (ok, x) = configure_binding (sw_bindings w ! sid) (as_vm a) guest_count in
        if \<not> ok then (False, w)
        else configure_streams guest_count as
          ((set_binding sid x w)\<lparr>sw_stream_table := (sw_stream_table w)[sid := make_abort_ste]\<rparr>))"

definition build_dma_contexts :: "'h Board \<Rightarrow> Capabilities \<Rightarrow> ('h, 'z) SmmuWorld_scheme \<Rightarrow> bool \<times> ('h, 'z) SmmuWorld_scheme" where
  "build_dma_contexts b caps w =
     (let guests = bd_guests b in
      if guests = [] \<or> length guests > kMaxGuests then (False, w)
      else if \<not> pc_ok (validate_full_policy (bd_assignments b) (bd_devices b) guests
             \<lparr>pl_sid_bits = kSidBits, pl_protected_pa = bd_protected b\<rparr>) then (False, w)
      else let w = w\<lparr>sw_contexts := replicate kMaxGuests context_none, sw_bindings := replicate kStreamCount binding_none,
                      sw_vm_streams := replicate kMaxGuests []\<rparr>;
               (ok, w) = build_contexts b [0 ..< length guests] w in
        if \<not> ok then (False, w)
        else let w = w\<lparr>sw_context_count := length guests\<rparr> in
          if validate_contexts (take (length guests) (sw_contexts w)) guests (cp_vmid16 caps) \<noteq> CeNone then (False, w)
          else let (ok, w) = configure_streams (length guests) (bd_assignments b) w in
            if \<not> ok then (False, w)
            else (True, publish_memory b (w\<lparr>sw_vm_streams := build_stream_index kStreamCount (sw_bindings w)\<rparr>)))"

definition abort_stream :: "'h Board \<Rightarrow> nat \<Rightarrow> u16 \<Rightarrow> ('h, 'z) SmmuWorld_scheme \<Rightarrow> bool \<times> ('h, 'z) SmmuWorld_scheme" where
  "abort_stream b sid vmid w =
     submit b [make_cfgi_ste (of_nat sid), make_tlbi_s12_vmall vmid] (publish_memory b (set_ste sid 0 (make_abort_ste ! 0) w))"

definition install_stream :: "'h Board \<Rightarrow> nat \<Rightarrow> TranslationContext \<Rightarrow> ('h, 'z) SmmuWorld_scheme \<Rightarrow> bool \<times> ('h, 'z) SmmuWorld_scheme" where
  "install_stream b sid context w =
     (let encoding = make_stage2_ste (tc_root_pa context) (tc_vmid context) in
      if \<not> se_ok encoding then (False, w)
      else let (ok, w) = submit b [make_cfgi_ste (of_nat sid)] (publish_memory b (set_ste sid 0 0 w)) in
        if \<not> ok then (False, w)
        else let w = publish_memory b (fold (\<lambda>i. set_ste sid i (se_entry encoding ! i)) [1 ..< length (se_entry encoding)] w);
                 w = publish_memory b (set_ste sid 0 (se_entry encoding ! 0) w) in
          submit b [make_cfgi_ste (of_nat sid), make_tlbi_s12_vmall (tc_vmid context)] w)"

fun quarantine_streams :: "'h Board \<Rightarrow> nat \<Rightarrow> nat list \<Rightarrow> ('h, 'z) SmmuWorld_scheme \<Rightarrow> bool \<times> ('h, 'z) SmmuWorld_scheme" where
  "quarantine_streams b vm [] w = (True, w)"
| "quarantine_streams b vm (sid # sids) w =
     (let x = sw_bindings w ! sid in
      if sb_state x = DsQuarantined then quarantine_streams b vm sids w
      else let (ok, w) = (if sb_state x = DsAttached then abort_stream b sid (tc_vmid (sw_contexts w ! vm)) w else (True, w)) in
        if \<not> ok then (False, w)
        else let (ok, x) = mark_quarantined x in
          if \<not> ok then (False, w) else quarantine_streams b vm sids (set_binding sid x w))"

definition quarantine_vm_locked :: "'h Board \<Rightarrow> nat \<Rightarrow> ('h, 'z) SmmuWorld_scheme \<Rightarrow> bool \<times> ('h, 'z) SmmuWorld_scheme" where
  "quarantine_vm_locked b vm w = quarantine_streams b vm (streams_of (sw_vm_streams w) vm) w"

text \<open>No value is a panic: a fault whose VM could not be quarantined.\<close>

definition quarantine_fault_stream ::
  "'h Board \<Rightarrow> u32 \<Rightarrow> ('h, 'z) SmmuWorld_scheme \<Rightarrow> FaultNotice option \<times> ('h, 'z) SmmuWorld_scheme" where
  "quarantine_fault_stream b stream_id w =
     (let sid = unat stream_id in
      if sid \<ge> length (sw_bindings w) \<or> sb_state (sw_bindings w ! sid) \<noteq> DsAttached then (Some notice_none, w)
      else let notice = snapshot_fault (sw_bindings w ! sid) stream_id in
        if \<not> fn_valid notice then (None, w)
        else let (ok, w) = quarantine_vm_locked b (fn_owner_vm notice) w in
          if ok then (Some notice, w) else (None, w))"

text \<open>\<open>collect_fault_notices\<close> over the streams of a batch, cut short by a panic.\<close>

fun collect_notices ::
  "'h Board \<Rightarrow> u32 list \<Rightarrow> FaultNotice list \<Rightarrow> ('h, 'z) SmmuWorld_scheme \<Rightarrow> FaultNotice list option \<times> ('h, 'z) SmmuWorld_scheme" where
  "collect_notices b [] ns w = (Some ns, w)"
| "collect_notices b (sid # sids) ns w =
     (case quarantine_fault_stream b sid w of
        (None, w) \<Rightarrow> (None, w)
      | (Some n, w) \<Rightarrow> collect_notices b sids (if fn_valid n \<and> length ns < kEventCount then ns @ [n] else ns) w)"

definition log_fault :: "u32 \<Rightarrow> u32" where
  "log_fault audit = (if audit \<ge> kFaultAuditBurst then (if audit \<noteq> - 1 then audit + 1 else audit) else audit + 1)"

definition drain_event_queue :: "'h Board \<Rightarrow> ('h, 'z) SmmuWorld_scheme \<Rightarrow> FaultBatch \<times> ('h, 'z) SmmuWorld_scheme" where
  "drain_event_queue b w =
     (let on_event = (\<lambda>record (ids, audit). let event = decode_event record in
            (if requires_quarantine event \<and> length ids < kEventCount then ids @ [de_stream_id event] else ids, log_fault audit));
          ((stats, ids, audit), w) = drain_events b kEventQueueLog2 on_event ([], sw_audit_events w) w;
          w = w\<lparr>sw_audit_events := audit\<rparr> in
      (\<lparr>fb_stream_ids = ids, fb_processed = (if dn_corrupt stats then 0 else dn_processed stats)\<rparr>, w))"

text \<open>The calls of the DMA fault service, in order, are \<open>sw_notices\<close>.\<close>

definition dispatch_faults :: "'h Board \<Rightarrow> FaultBatch \<Rightarrow> ('h, 'z) SmmuWorld_scheme \<Rightarrow> bool \<times> ('h, 'z) SmmuWorld_scheme" where
  "dispatch_faults b batch w =
     (case collect_notices b (fb_stream_ids batch) [] w of
        (None, w) \<Rightarrow> (False, w)
      | (Some ns, w) \<Rightarrow> (True, w\<lparr>sw_notices := sw_notices w @ ns\<rparr>))"

definition acknowledge_global_error :: "'h Board \<Rightarrow> ('h, 'z) SmmuWorld_scheme \<Rightarrow> ('h, 'z) SmmuWorld_scheme" where
  "acknowledge_global_error b w =
     (let (er, w) = on_hw (bd_read32 b kGerror) w; (_, w) = on_hw (bd_read32 b kGerrorN) w in
      upd_hw_smmu (bd_write32 b kGerrorN er) w)"

definition layout_of :: "'h Board \<Rightarrow> RuntimeLayout" where
  "layout_of b = \<lparr>rl_stream_table_pa = bd_stream_table_pa b, rl_command_queue_pa = bd_command_queue_pa b,
     rl_event_queue_pa = bd_event_queue_pa b, rl_sid_bits = kSidBits, rl_command_log2 = of_nat kCommandQueueLog2,
     rl_event_log2 = of_nat kEventQueueLog2\<rparr>"

definition smmu_clear :: "('h, 'z) SmmuWorld_scheme \<Rightarrow> ('h, 'z) SmmuWorld_scheme" where
  "smmu_clear w = w\<lparr>sw_stream_table := replicate kStreamCount (replicate 8 0),
     sw_commands := (sw_commands w)\<lparr>cr_entries := replicate kCommandCount [0, 0], cr_ready := False,
       cr_queue := (cr_queue (sw_commands w))\<lparr>qs_producer := 0\<rparr>\<rparr>,
     sw_enabled := False, sw_event_cons := 0, sw_audit_events := 0\<rparr>"

definition smmu_init :: "'h Board \<Rightarrow> ('h, 'z) SmmuWorld_scheme \<Rightarrow> InitFailure option \<times> ('h, 'z) SmmuWorld_scheme" where
  "smmu_init b w =
     (let (idr0, w) = on_hw (bd_read32 b kIdr0) w; (idr1, w) = on_hw (bd_read32 b kIdr1) w;
          (idr5, w) = on_hw (bd_read32 b kIdr5) w in
      if idr0 = 0 \<and> idr1 = 0 \<and> idr5 = 0 then (Some IfUnavailable, w)
      else let (s, w) = on_hw (shut_down b kPollLimit) w in
        if s \<noteq> BsNone then (Some (IfStep s), w)
        else let caps = decode_capabilities idr0 idr1 idr5; er = validate_capabilities caps (layout_of b) in
          if er \<noteq> ReNone then (Some (IfCapabilities er), w)
          else let (ok, w) = build_dma_contexts b caps (smmu_clear w) in
            if \<not> ok then (Some IfContexts, w)
            else let (s, w) = bring_up_translation b (layout_of b) kStreamCount (publish_memory b w) in
              if s \<noteq> BsNone then (Some (IfStep s), w)
              else let (e1, w) = on_hw (bd_enable_spi b (bd_event_intid b) 0 SpiEdge) w in
                if \<not> e1 then (Some IfRouting, w)
                else let (e2, w) = on_hw (bd_enable_spi b (bd_command_intid b) 0 SpiEdge) w in
                  if \<not> e2 then (Some IfRouting, w)
                  else let (e3, w) = on_hw (bd_enable_spi b (bd_error_intid b) 0 SpiEdge) w in
                    if \<not> e3 then (Some IfRouting, w)
                    else let (s, w) = on_hw (enable_faults b kPollLimit) w in
                      if s \<noteq> BsNone then (Some (IfStep s), w) else (None, w\<lparr>sw_enabled := True\<rparr>))"

text \<open>The domain operations answer a verdict, or nothing when they panic.\<close>

fun attach_streams :: "'h Board \<Rightarrow> nat \<Rightarrow> u64 \<Rightarrow> nat list \<Rightarrow> ('h, 'z) SmmuWorld_scheme \<Rightarrow> bool option \<times> ('h, 'z) SmmuWorld_scheme" where
  "attach_streams b vm generation [] w = (Some True, w)"
| "attach_streams b vm generation (sid # sids) w =
     (if sb_state (sw_bindings w ! sid) = DsAttached then attach_streams b vm generation sids w
      else let (ok, w) = install_stream b sid (sw_contexts w ! vm) w in
        if \<not> ok then (None, w)
        else let (ok, x) = mark_attached (sw_bindings w ! sid) generation in
          if \<not> ok then (None, w) else attach_streams b vm generation sids (set_binding sid x w))"

definition attach_vm :: "'h Board \<Rightarrow> nat \<Rightarrow> u64 \<Rightarrow> ('h, 'z) SmmuWorld_scheme \<Rightarrow> bool option \<times> ('h, 'z) SmmuWorld_scheme" where
  "attach_vm b vm generation w =
     (if \<not> cr_ready (sw_commands w) \<or> vm \<ge> sw_context_count w \<or> generation = 0 then (Some False, w)
      else if \<not> can_attach_vm (sw_bindings w) (streams_of (sw_vm_streams w) vm) generation then (Some False, w)
      else attach_streams b vm generation (streams_of (sw_vm_streams w) vm) w)"

fun detach_streams :: "'h Board \<Rightarrow> nat \<Rightarrow> nat list \<Rightarrow> ('h, 'z) SmmuWorld_scheme \<Rightarrow> bool option \<times> ('h, 'z) SmmuWorld_scheme" where
  "detach_streams b vm [] w = (Some True, w)"
| "detach_streams b vm (sid # sids) w =
     (if sb_state (sw_bindings w ! sid) \<noteq> DsAttached then detach_streams b vm sids w
      else let (ok, w) = abort_stream b sid (tc_vmid (sw_contexts w ! vm)) w in
        if \<not> ok then (None, w)
        else let (ok, x) = mark_detached (sw_bindings w ! sid) in
          if \<not> ok then (None, w) else detach_streams b vm sids (set_binding sid x w))"

definition detach_vm :: "'h Board \<Rightarrow> nat \<Rightarrow> ('h, 'z) SmmuWorld_scheme \<Rightarrow> bool option \<times> ('h, 'z) SmmuWorld_scheme" where
  "detach_vm b vm w =
     (if \<not> cr_ready (sw_commands w) \<or> vm \<ge> sw_context_count w then (Some False, w)
      else detach_streams b vm (streams_of (sw_vm_streams w) vm) w)"

definition quarantine_vm :: "'h Board \<Rightarrow> nat \<Rightarrow> ('h, 'z) SmmuWorld_scheme \<Rightarrow> bool option \<times> ('h, 'z) SmmuWorld_scheme" where
  "quarantine_vm b vm w =
     (if \<not> cr_ready (sw_commands w) \<or> vm \<ge> sw_context_count w then (Some False, w)
      else let (ok, w) = quarantine_vm_locked b vm w in (if ok then Some True else None, w))"

definition poll_events :: "'h Board \<Rightarrow> ('h, 'z) SmmuWorld_scheme \<Rightarrow> nat option \<times> ('h, 'z) SmmuWorld_scheme" where
  "poll_events b w =
     (if \<not> sw_enabled w then (Some 0, w)
      else let (batch, w) = drain_event_queue b w; (ok, w) = dispatch_faults b batch w in
        (if ok then Some (fb_processed batch) else None, w))"

definition smmu_handle_irq :: "'h Board \<Rightarrow> u32 \<Rightarrow> bool \<Rightarrow> ('h, 'z) SmmuWorld_scheme \<Rightarrow> bool option \<times> ('h, 'z) SmmuWorld_scheme" where
  "smmu_handle_irq b intid handled w =
     (if handled \<or> \<not> sw_enabled w then (Some handled, w)
      else if intid = bd_event_intid b then
        (let (batch, w) = drain_event_queue b w; (ok, w) = dispatch_faults b batch w in (if ok then Some True else None, w))
      else if intid = bd_command_intid b then (Some True, w)
      else if intid = bd_error_intid b then (Some True, acknowledge_global_error b w)
      else (Some handled, w))"

end
