(* ===== verification/NovaSmmuIso.thy ===== *)
theory NovaSmmuIso
  imports NovaSmmu
begin

text \<open>
  What every operation of the SMMU component keeps: the streams of a VM are those its
  assignments name, an entry that translates is the Stage 2 entry of its owner's
  context, and a stream that is not attached does not translate.
\<close>

section \<open>What the register protocol leaves alone\<close>

lemmas smmu_steps = upd_hw_smmu_def on_hw_def publish_memory_def upd_ring_def set_ste_def set_binding_def

lemma frame_steps [simp]:
  "sw_stream_table (upd_hw_smmu f w) = sw_stream_table w" "sw_tables (upd_hw_smmu f w) = sw_tables w"
  "sw_contexts (upd_hw_smmu f w) = sw_contexts w" "sw_bindings (upd_hw_smmu f w) = sw_bindings w"
  "sw_vm_streams (upd_hw_smmu f w) = sw_vm_streams w" "sw_context_count (upd_hw_smmu f w) = sw_context_count w"
  "sw_commands (upd_hw_smmu f w) = sw_commands w" "sw_notices (upd_hw_smmu f w) = sw_notices w"
  "SmmuWorld.more (upd_hw_smmu f w) = SmmuWorld.more w"
  "sw_stream_table (snd (on_hw g w)) = sw_stream_table w" "sw_tables (snd (on_hw g w)) = sw_tables w"
  "sw_contexts (snd (on_hw g w)) = sw_contexts w" "sw_bindings (snd (on_hw g w)) = sw_bindings w"
  "sw_vm_streams (snd (on_hw g w)) = sw_vm_streams w" "sw_context_count (snd (on_hw g w)) = sw_context_count w"
  "sw_commands (snd (on_hw g w)) = sw_commands w" "sw_notices (snd (on_hw g w)) = sw_notices w"
  "SmmuWorld.more (snd (on_hw g w)) = SmmuWorld.more w"
  "sw_stream_table (publish_memory b w) = sw_stream_table w" "sw_tables (publish_memory b w) = sw_tables w"
  "sw_contexts (publish_memory b w) = sw_contexts w" "sw_bindings (publish_memory b w) = sw_bindings w"
  "sw_vm_streams (publish_memory b w) = sw_vm_streams w" "sw_context_count (publish_memory b w) = sw_context_count w"
  "sw_commands (publish_memory b w) = sw_commands w" "sw_notices (publish_memory b w) = sw_notices w"
  "SmmuWorld.more (publish_memory b w) = SmmuWorld.more w"
  "sw_stream_table (upd_ring r w) = sw_stream_table w" "sw_tables (upd_ring r w) = sw_tables w"
  "sw_contexts (upd_ring r w) = sw_contexts w" "sw_bindings (upd_ring r w) = sw_bindings w"
  "sw_vm_streams (upd_ring r w) = sw_vm_streams w" "sw_context_count (upd_ring r w) = sw_context_count w"
  "sw_commands (upd_ring r w) = r (sw_commands w)" "sw_notices (upd_ring r w) = sw_notices w"
  "SmmuWorld.more (upd_ring r w) = SmmuWorld.more w"
  by (simp_all add: smmu_steps)

text \<open>The part of the component that decides who reaches what.\<close>

record Domains =
  dm_table :: "StreamTableEntry list"
  dm_tables :: "Stage2Tables list"
  dm_contexts :: "TranslationContext list"
  dm_bindings :: "StreamBinding list"
  dm_streams :: StreamIndex
  dm_count :: nat

definition domains :: "('h, 'z) SmmuWorld_scheme \<Rightarrow> Domains" where
  "domains w = \<lparr>dm_table = sw_stream_table w, dm_tables = sw_tables w, dm_contexts = sw_contexts w,
     dm_bindings = sw_bindings w, dm_streams = sw_vm_streams w, dm_count = sw_context_count w\<rparr>"

definition same_smmu :: "('h, 'z) SmmuWorld_scheme \<Rightarrow> ('h, 'z) SmmuWorld_scheme \<Rightarrow> bool" where
  "same_smmu w w' \<longleftrightarrow> domains w' = domains w \<and> cr_ready (sw_commands w') = cr_ready (sw_commands w)
     \<and> SmmuWorld.more w' = SmmuWorld.more w"

lemma same_refl [simp]: "same_smmu w w" by (simp add: same_smmu_def)

lemma same_trans: "same_smmu w w' \<Longrightarrow> same_smmu w' w'' \<Longrightarrow> same_smmu w w''"
  by (simp add: same_smmu_def)

lemma same_steps:
  "same_smmu w (upd_hw_smmu f w)" "same_smmu w (snd (on_hw g w))" "same_smmu w (publish_memory b w)"
  "cr_ready (r (sw_commands w)) = cr_ready (sw_commands w) \<Longrightarrow> same_smmu w (upd_ring r w)"
  "same_smmu w (w\<lparr>sw_notices := ns\<rparr>)" "same_smmu w (w\<lparr>sw_event_cons := c\<rparr>)" "same_smmu w (w\<lparr>sw_audit_events := a\<rparr>)"
  by (simp_all add: same_smmu_def domains_def)

lemma same_wait_idle: "same_smmu w (snd (wait_idle b w))"
  by (simp add: wait_idle_def Let_def same_steps)

lemma same_submit: "same_smmu w (snd (submit b cs w))"
proof -
  let ?i = "snd (wait_idle b w)" let ?c = "snd (on_hw (bd_read32 b kCmdqCons) ?i)"
  have 1: "same_smmu w ?c" by (rule same_trans [OF same_wait_idle same_steps(2)])
  have e: "same_smmu w (upd_ring (\<lambda>r. r\<lparr>cr_entries := x\<rparr>) ?c)" for x
    by (rule same_trans [OF 1 same_steps(4)]) simp
  have p: "same_smmu w (publish_memory b (upd_ring (\<lambda>r. r\<lparr>cr_entries := x\<rparr>) ?c))" for x
    by (rule same_trans [OF e same_steps(3)])
  have u: "same_smmu w (upd_ring (\<lambda>r. r\<lparr>cr_queue := q\<rparr>) (publish_memory b (upd_ring (\<lambda>r. r\<lparr>cr_entries := x\<rparr>) ?c)))" for x q
    by (rule same_trans [OF p same_steps(4)]) simp
  note f = same_trans [OF same_trans [OF u same_steps(1)] same_wait_idle]
  show ?thesis unfolding submit_def Let_def case_prod_unfold
    by (intro if_both [where P = "\<lambda>x. same_smmu w (snd x)"]; simp add: same_wait_idle e f)
qed

lemma same_submit_all: "same_smmu w (snd (submit_all b css w))"
proof (induction css arbitrary: w)
  case (Cons cs css)
  show ?case using same_submit [of w b cs] same_trans [OF same_submit Cons.IH] by (simp add: case_prod_unfold Let_def)
qed simp

lemma same_drain_events: "same_smmu w (snd (drain_events b l f s w))"
proof -
  let ?r = "snd (on_hw (bd_read32 b kEvtqProd) w)"
  have "same_smmu w (upd_hw_smmu g (publish_memory b (?r\<lparr>sw_event_cons := c\<rparr>)))" for g c
    by (rule same_trans [OF same_trans [OF same_trans [OF same_steps(2) same_steps(6)] same_steps(3)] same_steps(1)])
  then show ?thesis unfolding drain_events_def Let_def case_prod_unfold
    by (intro if_both [where P = "\<lambda>x. same_smmu w (snd x)"]; simp add: same_steps)
qed

lemma same_drain_queue: "same_smmu w (snd (drain_event_queue b w))"
  unfolding drain_event_queue_def Let_def case_prod_unfold snd_conv
  by (rule same_trans [OF same_drain_events same_steps(7)])

lemma same_global_error: "same_smmu w (acknowledge_global_error b w)"
  unfolding acknowledge_global_error_def Let_def case_prod_unfold
  by (rule same_trans [OF same_trans [OF same_steps(2) same_steps(2)] same_steps(1)])

section \<open>The invariant\<close>

text \<open>An entry the device does not refuse: valid, with a configuration other than abort.\<close>

definition ste_open :: "StreamTableEntry \<Rightarrow> bool" where
  "ste_open s \<longleftrightarrow> s ! 0 AND kSteValid \<noteq> 0 \<and> s ! 0 AND kConfigMask \<noteq> 0"

abbreviation owner :: "Domains \<Rightarrow> nat \<Rightarrow> nat" where "owner d sid \<equiv> sb_owner_vm (dm_bindings d ! sid)"
abbreviation attached :: "Domains \<Rightarrow> nat \<Rightarrow> bool" where "attached d sid \<equiv> sb_state (dm_bindings d ! sid) = DsAttached"

definition sizes_ok :: "Domains \<Rightarrow> bool" where
  "sizes_ok d \<longleftrightarrow> length (dm_table d) = kStreamCount \<and> length (dm_bindings d) = kStreamCount \<and> length (dm_streams d) = kMaxGuests
     \<and> length (dm_contexts d) = kMaxGuests \<and> length (dm_tables d) = kMaxGuests \<and> dm_count d \<le> kMaxGuests
     \<and> (\<forall>sid < kStreamCount. length (dm_table d ! sid) = 8)"

definition owners_ok :: "Domains \<Rightarrow> bool" where
  "owners_ok d \<longleftrightarrow> (\<forall>sid < kStreamCount. owner d sid = kNoVm \<or> owner d sid < dm_count d)
     \<and> (\<forall>vm < kMaxGuests. \<forall>sid. sid \<in> set (dm_streams d ! vm) \<longleftrightarrow> sid < kStreamCount \<and> owner d sid = vm)"

definition contexts_ok :: "'h Board \<Rightarrow> Domains \<Rightarrow> bool" where
  "contexts_ok b d \<longleftrightarrow> dm_count d = length (bd_guests b)
     \<and> (\<forall>vm < dm_count d. dm_contexts d ! vm = \<lparr>tc_owner_vm = vm, tc_vmid = gd_vmid (bd_guests b ! vm), tc_root_pa = bd_l1_pa b vm\<rparr>
          \<and> build_dma_table (tables_of b vm) (bd_guests b ! vm) = Some (True, dm_tables d ! vm))"

definition entries_ok :: "Domains \<Rightarrow> bool" where
  "entries_ok d \<longleftrightarrow> (\<forall>sid < kStreamCount. ste_open (dm_table d ! sid) \<longrightarrow> owner d sid < dm_count d
     \<and> (let c = dm_contexts d ! owner d sid; s = make_stage2_ste (tc_root_pa c) (tc_vmid c) in
          se_ok s \<and> dm_table d ! sid = se_entry s))"

definition domains_ok :: "'h Board \<Rightarrow> Domains \<Rightarrow> bool" where
  "domains_ok b d \<longleftrightarrow> sizes_ok d \<and> owners_ok d \<and> contexts_ok b d \<and> entries_ok d"

definition tied :: "Domains \<Rightarrow> bool" where
  "tied d \<longleftrightarrow> (\<forall>sid < kStreamCount. ste_open (dm_table d ! sid) \<longrightarrow> attached d sid)"

lemma open_owner:
  assumes "domains_ok b d" "sid < kStreamCount" "ste_open (dm_table d ! sid)" "vm = owner d sid"
  shows "vm < length (bd_guests b)" "build_dma_table (tables_of b vm) (bd_guests b ! vm) = Some (True, dm_tables d ! vm)"
    "dm_table d ! sid = se_entry (make_stage2_ste (bd_l1_pa b vm) (gd_vmid (bd_guests b ! vm)))"
  using assms unfolding domains_ok_def contexts_ok_def entries_ok_def by (auto simp: Let_def)

definition closed_vm :: "nat \<Rightarrow> Domains \<Rightarrow> bool" where
  "closed_vm vm d \<longleftrightarrow> (\<forall>sid < kStreamCount. owner d sid = vm \<longrightarrow> \<not> ste_open (dm_table d ! sid))"

definition idle_vm :: "nat \<Rightarrow> Domains \<Rightarrow> bool" where
  "idle_vm vm d \<longleftrightarrow> (\<forall>sid < kStreamCount. owner d sid = vm \<longrightarrow> \<not> attached d sid)"

lemma idle_closed: "tied d \<Longrightarrow> idle_vm vm d \<Longrightarrow> closed_vm vm d"
  by (auto simp: tied_def idle_vm_def closed_vm_def)

text \<open>
  A step that changes only entries and bindings of streams owned by the VMs of \<open>V\<close>, and
  neither owners nor anything fixed at init. \<open>closes\<close> adds that it opens no entry and
  attaches no stream.
\<close>

definition touches :: "nat set \<Rightarrow> Domains \<Rightarrow> Domains \<Rightarrow> bool" where
  "touches V d d' \<longleftrightarrow> dm_tables d' = dm_tables d \<and> dm_contexts d' = dm_contexts d \<and> dm_streams d' = dm_streams d
     \<and> dm_count d' = dm_count d \<and> (\<forall>sid < kStreamCount. owner d' sid = owner d sid)
     \<and> (\<forall>sid < kStreamCount. owner d sid \<notin> V \<longrightarrow> dm_table d' ! sid = dm_table d ! sid \<and> dm_bindings d' ! sid = dm_bindings d ! sid)"

definition closes :: "Domains \<Rightarrow> Domains \<Rightarrow> bool" where
  "closes d d' \<longleftrightarrow> (\<forall>sid < kStreamCount. (ste_open (dm_table d' ! sid) \<longrightarrow> ste_open (dm_table d ! sid)) \<and> (attached d' sid \<longrightarrow> attached d sid))"

lemma touches_refl [simp]: "touches V d d" by (simp add: touches_def)
lemma closes_refl [simp]: "closes d d" by (simp add: closes_def)

lemma touches_trans: "touches V d d' \<Longrightarrow> touches V d' d'' \<Longrightarrow> touches V d d''"
  by (auto simp: touches_def)

lemma touches_mono: "touches V d d' \<Longrightarrow> V \<subseteq> W \<Longrightarrow> touches W d d'"
  by (auto simp: touches_def)

lemma closes_trans: "closes d d' \<Longrightarrow> closes d' d'' \<Longrightarrow> closes d d''"
  by (auto simp: closes_def)

lemma touches_other:
  assumes "touches V d d'" "vm \<notin> V"
  shows "closed_vm vm d' \<longleftrightarrow> closed_vm vm d" "idle_vm vm d' \<longleftrightarrow> idle_vm vm d"
  using assms by (auto simp: touches_def closed_vm_def idle_vm_def)

lemma closes_keep:
  assumes "closes d d'" "touches V d d'"
  shows "closed_vm vm d \<Longrightarrow> closed_vm vm d'" "idle_vm vm d \<Longrightarrow> idle_vm vm d'"
  using assms by (auto simp: closes_def touches_def closed_vm_def idle_vm_def)

lemma domains_okD:
  assumes "domains_ok b d"
  shows "sizes_ok d" "owners_ok d" "contexts_ok b d" "entries_ok d"
  using assms by (simp_all add: domains_ok_def)

lemma stream_of_vm:
  assumes "domains_ok b d" "vm < dm_count d" "sid \<in> set (streams_of (dm_streams d) vm)"
  shows "sid < kStreamCount" "owner d sid = vm"
proof -
  have "vm < kMaxGuests" using domains_okD(1) [OF assms(1)] assms(2) by (simp add: sizes_ok_def)
  then show "sid < kStreamCount" "owner d sid = vm"
    using domains_okD(2) [OF assms(1)] assms(3) by (simp_all add: owners_ok_def streams_of_def)
qed

lemma streams_complete:
  assumes "domains_ok b d" "sid < kStreamCount" "owner d sid = vm" "vm < dm_count d"
  shows "sid \<in> set (streams_of (dm_streams d) vm)"
proof -
  have "vm < kMaxGuests" using domains_okD(1) [OF assms(1)] assms(4) by (simp add: sizes_ok_def)
  then show ?thesis using domains_okD(2) [OF assms(1)] assms(2,3) by (simp add: owners_ok_def streams_of_def)
qed

section \<open>Single changes\<close>

lemma domains_set [simp]:
  "domains (set_ste sid i v w) = (domains w)\<lparr>dm_table := (dm_table (domains w))[sid := (dm_table (domains w) ! sid)[i := v]]\<rparr>"
  "domains (set_binding sid x w) = (domains w)\<lparr>dm_bindings := (dm_bindings (domains w))[sid := x]\<rparr>"
  by (simp_all add: smmu_steps domains_def)

lemma ok_upd [simp]:
  "owners_ok (d\<lparr>dm_table := t\<rparr>) = owners_ok d" "contexts_ok b (d\<lparr>dm_table := t\<rparr>) = contexts_ok b d"
  "contexts_ok b (d\<lparr>dm_bindings := x\<rparr>) = contexts_ok b d"
  by (simp_all add: owners_ok_def contexts_ok_def)

lemma kept_entry:
  assumes "domains_ok b d" "sid < kStreamCount" "length s = 8"
    and "ste_open s \<longrightarrow> owner d sid < dm_count d
      \<and> (let c = dm_contexts d ! owner d sid; x = make_stage2_ste (tc_root_pa c) (tc_vmid c) in se_ok x \<and> s = se_entry x)"
  shows "domains_ok b (d\<lparr>dm_table := (dm_table d)[sid := s]\<rparr>)"
proof -
  note z = domains_okD [OF assms(1)]
  have l: "length (dm_table d) = kStreamCount" using z(1) by (simp add: sizes_ok_def)
  have "entries_ok (d\<lparr>dm_table := (dm_table d)[sid := s]\<rparr>)"
    using z(4) assms(2,4) l unfolding entries_ok_def by (simp add: nth_upd)
  moreover have "sizes_ok (d\<lparr>dm_table := (dm_table d)[sid := s]\<rparr>)" using z(1) assms(3) l by (simp add: sizes_ok_def nth_upd)
  ultimately show ?thesis using z by (simp add: domains_ok_def)
qed

lemma kept_binding:
  assumes "domains_ok b d" "sid < kStreamCount" "sb_owner_vm x = owner d sid"
  shows "domains_ok b (d\<lparr>dm_bindings := (dm_bindings d)[sid := x]\<rparr>)"
proof -
  note z = domains_okD [OF assms(1)]
  have l: "length (dm_bindings d) = kStreamCount" using z(1) by (simp add: sizes_ok_def)
  have o: "sb_owner_vm ((dm_bindings d)[sid := x] ! i) = owner d i" if "i < kStreamCount" for i
    using assms(3) that l by (simp add: nth_upd)
  have "entries_ok (d\<lparr>dm_bindings := (dm_bindings d)[sid := x]\<rparr>)" using z(4) o unfolding entries_ok_def by simp
  moreover have "owners_ok (d\<lparr>dm_bindings := (dm_bindings d)[sid := x]\<rparr>)" using z(2) o unfolding owners_ok_def by auto
  moreover have "sizes_ok (d\<lparr>dm_bindings := (dm_bindings d)[sid := x]\<rparr>)" using z(1) by (simp add: sizes_ok_def)
  ultimately show ?thesis using z by (simp add: domains_ok_def)
qed

lemma open_entry:
  "\<not> ste_open s" if "s ! 0 = 0 \<or> s ! 0 = kSteValid"
  using that by (auto simp: ste_open_def kSteValid_def kConfigMask_def)

section \<open>Operations as steps\<close>

definition smmu_op :: "'h Board \<Rightarrow> nat set \<Rightarrow> ('h, 'z) SmmuWorld_scheme \<Rightarrow> ('h, 'z) SmmuWorld_scheme \<Rightarrow> bool" where
  "smmu_op b V w w' \<longleftrightarrow> domains_ok b (domains w') \<and> touches V (domains w) (domains w')
     \<and> cr_ready (sw_commands w') = cr_ready (sw_commands w) \<and> SmmuWorld.more w' = SmmuWorld.more w"

definition smmu_close :: "'h Board \<Rightarrow> nat set \<Rightarrow> ('h, 'z) SmmuWorld_scheme \<Rightarrow> ('h, 'z) SmmuWorld_scheme \<Rightarrow> bool" where
  "smmu_close b V w w' \<longleftrightarrow> smmu_op b V w w' \<and> closes (domains w) (domains w')
     \<and> (tied (domains w) \<longrightarrow> tied (domains w'))"

lemma smmu_opD:
  assumes "smmu_op b V w w'"
  shows "domains_ok b (domains w')" "touches V (domains w) (domains w')" "cr_ready (sw_commands w') = cr_ready (sw_commands w)"
    "SmmuWorld.more w' = SmmuWorld.more w"
  using assms by (simp_all add: smmu_op_def)

lemma smmu_closeD:
  assumes "smmu_close b V w w'"
  shows "smmu_op b V w w'" "closes (domains w) (domains w')" "tied (domains w) \<Longrightarrow> tied (domains w')"
  using assms by (simp_all add: smmu_close_def)

lemma op_trans: "smmu_op b V w w' \<Longrightarrow> smmu_op b V w' w'' \<Longrightarrow> smmu_op b V w w''"
  unfolding smmu_op_def using touches_trans by auto

lemma close_trans: "smmu_close b V w w' \<Longrightarrow> smmu_close b V w' w'' \<Longrightarrow> smmu_close b V w w''"
  unfolding smmu_close_def using op_trans closes_trans by blast

lemma close_mono: "smmu_close b V w w' \<Longrightarrow> V \<subseteq> W \<Longrightarrow> smmu_close b W w w'"
  unfolding smmu_close_def smmu_op_def using touches_mono by blast

lemma close_same: "domains_ok b (domains w) \<Longrightarrow> same_smmu w w' \<Longrightarrow> smmu_close b V w w'"
  by (simp add: smmu_close_def smmu_op_def same_smmu_def)

lemma close_refl: "domains_ok b (domains w) \<Longrightarrow> smmu_close b V w w"
  by (rule close_same) simp_all

lemma same_dom: "same_smmu w w' \<Longrightarrow> domains w' = domains w" by (simp add: same_smmu_def)

lemma abort_stream_domains:
  "domains (snd (abort_stream b sid v w)) = (domains w)\<lparr>dm_table := (dm_table (domains w))[sid := (dm_table (domains w) ! sid)[0 := kSteValid]]\<rparr>"
  "cr_ready (sw_commands (snd (abort_stream b sid v w))) = cr_ready (sw_commands w)"
  "SmmuWorld.more (snd (abort_stream b sid v w)) = SmmuWorld.more w"
proof -
  have s: "same_smmu (set_ste sid 0 (make_abort_ste ! 0) w) (snd (abort_stream b sid v w))"
    unfolding abort_stream_def by (rule same_trans [OF same_steps(3) same_submit])
  show "domains (snd (abort_stream b sid v w)) = (domains w)\<lparr>dm_table := (dm_table (domains w))[sid := (dm_table (domains w) ! sid)[0 := kSteValid]]\<rparr>"
    using same_dom [OF s] by (simp add: make_abort_ste_def)
  show "cr_ready (sw_commands (snd (abort_stream b sid v w))) = cr_ready (sw_commands w)"
    "SmmuWorld.more (snd (abort_stream b sid v w)) = SmmuWorld.more w"
    using s by (simp_all add: same_smmu_def set_ste_def)
qed

lemma entry_size: "domains_ok b d \<Longrightarrow> sid < kStreamCount \<Longrightarrow> length (dm_table d ! sid) = 8"
  "domains_ok b d \<Longrightarrow> length (dm_table d) = kStreamCount" "domains_ok b d \<Longrightarrow> length (dm_bindings d) = kStreamCount"
  using domains_okD(1) by (auto simp: sizes_ok_def)

lemma abort_close:
  assumes ok: "domains_ok b (domains w)" and s: "sid < kStreamCount" and v: "owner (domains w) sid \<in> V"
  shows "smmu_close b V w (snd (abort_stream b sid v w))" "\<not> ste_open (dm_table (domains (snd (abort_stream b sid v w))) ! sid)"
    "dm_bindings (domains (snd (abort_stream b sid v w))) = dm_bindings (domains w)"
proof -
  let ?d = "domains w" let ?s = "(dm_table ?d ! sid)[0 := kSteValid]"
  note l = entry_size [OF ok] and e = abort_stream_domains [of b sid v w]
  have n: "\<not> ste_open ?s" by (rule open_entry) (simp add: l(1) [OF s])
  have k: "domains_ok b (?d\<lparr>dm_table := (dm_table ?d)[sid := ?s]\<rparr>)" by (rule kept_entry [OF ok s]) (simp_all add: l(1) [OF s] n)
  show "\<not> ste_open (dm_table (domains (snd (abort_stream b sid v w))) ! sid)" using n l s by (simp add: e(1))
  show "dm_bindings (domains (snd (abort_stream b sid v w))) = dm_bindings (domains w)" by (simp add: e(1))
  show "smmu_close b V w (snd (abort_stream b sid v w))"
    unfolding smmu_close_def smmu_op_def e using k n v l by (auto simp: touches_def closes_def tied_def nth_upd)
qed

lemma binding_close:
  assumes ok: "domains_ok b (domains w)" and s: "sid < kStreamCount" and v: "owner (domains w) sid \<in> V"
    and x: "sb_owner_vm x = owner (domains w) sid" "sb_state x \<noteq> DsAttached" and n: "\<not> ste_open (dm_table (domains w) ! sid)"
  shows "smmu_close b V w (set_binding sid x w)" "\<not> attached (domains (set_binding sid x w)) sid"
proof -
  note l = entry_size [OF ok]
  show "smmu_close b V w (set_binding sid x w)"
    unfolding smmu_close_def smmu_op_def using kept_binding [OF ok s x(1)] v n l x
    by (auto simp: touches_def closes_def tied_def nth_upd set_binding_def domains_def)
  show "\<not> attached (domains (set_binding sid x w)) sid" using l x(2) s by simp
qed

lemma mark_kept:
  "sb_owner_vm (snd (mark_quarantined x)) = sb_owner_vm x" "sb_owner_vm (snd (mark_detached x)) = sb_owner_vm x"
  "sb_owner_vm (snd (mark_attached x g)) = sb_owner_vm x"
  "fst (mark_quarantined x) \<Longrightarrow> sb_state (snd (mark_quarantined x)) = DsQuarantined"
  "fst (mark_detached x) \<Longrightarrow> sb_state (snd (mark_detached x)) = DsDetached"
  "fst (mark_attached x g) \<Longrightarrow> sb_state (snd (mark_attached x g)) = DsAttached"
  by (auto simp: mark_quarantined_def mark_detached_def mark_attached_def split: if_splits)

text \<open>Close one stream and mark its binding.\<close>

lemma retire_stream:
  assumes ok: "domains_ok b (domains w)" and s: "sid < kStreamCount" and v: "owner (domains w) sid = vm" and t: "tied (domains w)"
    and x: "sb_owner_vm x = vm" "sb_state x \<noteq> DsAttached"
  shows "smmu_close b {vm} w (set_binding sid x (if attached (domains w) sid then snd (abort_stream b sid m w) else w))"
    "\<not> attached (domains (set_binding sid x (if attached (domains w) sid then snd (abort_stream b sid m w) else w))) sid"
proof -
  let ?w = "if attached (domains w) sid then snd (abort_stream b sid m w) else w"
  have V: "owner (domains w) sid \<in> {vm}" using v by simp
  note a = abort_close [OF ok s V, of m]
  have c: "smmu_close b {vm} w ?w" using a(1) close_refl [OF ok] by simp
  have n: "\<not> ste_open (dm_table (domains ?w) ! sid)" using a(2) t s by (auto simp: tied_def)
  have o: "owner (domains ?w) sid = vm" using a(3) v by simp
  have k: "domains_ok b (domains ?w)" using smmu_opD(1) [OF smmu_closeD(1) [OF c]] .
  note r = binding_close [OF k s, of "{vm}" x] 
  show "smmu_close b {vm} w (set_binding sid x ?w)" by (rule close_trans [OF c]) (use r o n x in simp)
  show "\<not> attached (domains (set_binding sid x ?w)) sid" using r(2) o n x by simp
qed

section \<open>Quarantine, detach and faults\<close>

definition of_vm :: "('h, 'z) SmmuWorld_scheme \<Rightarrow> nat \<Rightarrow> nat list \<Rightarrow> bool" where
  "of_vm w vm sids \<longleftrightarrow> (\<forall>sid \<in> set sids. sid < kStreamCount \<and> owner (domains w) sid = vm)"

lemma of_vm_step: "of_vm w vm sids \<Longrightarrow> smmu_op b V w w' \<Longrightarrow> of_vm w' vm sids"
  by (auto simp: of_vm_def smmu_op_def touches_def)

lemma sw_domains: "sw_bindings w = dm_bindings (domains w)" "sw_contexts w = dm_contexts (domains w)"
  "sw_vm_streams w = dm_streams (domains w)" "sw_context_count w = dm_count (domains w)"
  by (simp_all add: domains_def)

lemma quarantine_streams_ok:
  assumes "domains_ok b (domains w)" "tied (domains w)" "of_vm w vm sids" "quarantine_streams b vm sids w = (ok, w')"
  shows "smmu_close b {vm} w w' \<and> (ok \<longrightarrow> (\<forall>sid \<in> set sids. \<not> attached (domains w') sid))"
  using assms
proof (induction sids arbitrary: w)
  case Nil
  then show ?case by (simp add: close_refl)
next
  case (Cons sid sids)
  let ?x = "sw_bindings w ! sid"
  have s: "sid < kStreamCount" "owner (domains w) sid = vm" and rest: "of_vm w vm sids" using Cons.prems(3) by (simp_all add: of_vm_def)
  have keep: "\<not> attached (domains w1) sid \<Longrightarrow> closes (domains w1) (domains w2) \<Longrightarrow> \<not> attached (domains w2) sid"
    for w1 w2 :: "('a, 'b) SmmuWorld_scheme" using s(1) by (auto simp: closes_def)
  show ?case
  proof (cases "sb_state ?x = DsQuarantined")
    case True
    then have q: "quarantine_streams b vm sids w = (ok, w')" using Cons.prems(4) by simp
    have "\<not> attached (domains w) sid" using True by (simp add: domains_def)
    then show ?thesis using Cons.IH [OF Cons.prems(1,2) rest q] keep [of w w'] smmu_closeD(2) by auto
  next
    case False
    let ?a = "if sb_state ?x = DsAttached then abort_stream b sid (tc_vmid (sw_contexts w ! vm)) w else (True, w)"
    have a: "snd ?a = (if attached (domains w) sid then snd (abort_stream b sid (tc_vmid (sw_contexts w ! vm)) w) else w)"
      by (simp add: domains_def)
    note ab = abort_close(1) [OF Cons.prems(1) s(1), of "{vm}" "tc_vmid (sw_contexts w ! vm)"]
    have ca: "smmu_close b {vm} w (snd ?a)" using ab s(2) close_refl [OF Cons.prems(1)] by simp
    show ?thesis
    proof (cases "fst ?a \<and> fst (mark_quarantined ?x)")
      case bad: False
      then have "w' = snd ?a" "\<not> ok" using Cons.prems(4) False by (auto simp: case_prod_unfold Let_def split: if_splits)
      then show ?thesis using ca by simp
    next
      case good: True
      let ?w = "set_binding sid (snd (mark_quarantined ?x)) (snd ?a)"
      have q: "quarantine_streams b vm sids ?w = (ok, w')" using Cons.prems(4) False good by (simp add: case_prod_unfold Let_def)
      have x: "sb_owner_vm (snd (mark_quarantined ?x)) = vm" "sb_state (snd (mark_quarantined ?x)) \<noteq> DsAttached"
        using mark_kept(1,4) [of ?x] good s(2) by (simp_all add: sw_domains)
      note r = retire_stream [OF Cons.prems(1) s Cons.prems(2) x, of "tc_vmid (sw_contexts w ! vm)"]
      have c: "smmu_close b {vm} w ?w" and n: "\<not> attached (domains ?w) sid" using r unfolding a by blast+
      note op = smmu_closeD(1) [OF c]
      note ih = Cons.IH [OF smmu_opD(1) [OF op] smmu_closeD(3) [OF c Cons.prems(2)] of_vm_step [OF rest op] q]
      show ?thesis using close_trans [OF c conjunct1 [OF ih]] conjunct2 [OF ih] keep [OF n smmu_closeD(2) [OF conjunct1 [OF ih]]] by simp
    qed
  qed
qed

lemma of_vm_streams: "domains_ok b (domains w) \<Longrightarrow> vm < dm_count (domains w) \<Longrightarrow> of_vm w vm (streams_of (sw_vm_streams w) vm)"
  using stream_of_vm [of b "domains w" vm] by (simp add: of_vm_def sw_domains)

lemma idle_from_streams:
  assumes "domains_ok b (domains w)" "vm < dm_count (domains w)" "smmu_op b V w w'"
    "\<forall>sid \<in> set (streams_of (sw_vm_streams w) vm). \<not> attached (domains w') sid"
  shows "idle_vm vm (domains w')"
  using assms(4) streams_complete [OF assms(1) _ _ assms(2)] smmu_opD(2) [OF assms(3)]
  by (auto simp: idle_vm_def touches_def sw_domains)

lemma quarantine_locked_ok:
  assumes "domains_ok b (domains w)" "tied (domains w)" "vm < dm_count (domains w)" "quarantine_vm_locked b vm w = (ok, w')"
  shows "smmu_close b {vm} w w'" "ok \<Longrightarrow> idle_vm vm (domains w')"
proof -
  note q = quarantine_streams_ok [OF assms(1,2) of_vm_streams [OF assms(1,3)] assms(4) [unfolded quarantine_vm_locked_def]]
  show "smmu_close b {vm} w w'" using q by simp
  show "idle_vm vm (domains w')" if ok
    by (rule idle_from_streams [OF assms(1,3) smmu_closeD(1)]) (use q that in blast)+
qed

lemma detach_streams_ok:
  assumes "domains_ok b (domains w)" "tied (domains w)" "of_vm w vm sids" "detach_streams b vm sids w = (r, w')"
  shows "smmu_close b {vm} w w' \<and> (r \<noteq> None \<longrightarrow> (\<forall>sid \<in> set sids. \<not> attached (domains w') sid))"
  using assms
proof (induction sids arbitrary: w)
  case Nil
  then show ?case by (simp add: close_refl)
next
  case (Cons sid sids)
  let ?x = "sw_bindings w ! sid"
  have s: "sid < kStreamCount" "owner (domains w) sid = vm" and rest: "of_vm w vm sids" using Cons.prems(3) by (simp_all add: of_vm_def)
  have keep: "\<not> attached (domains w1) sid \<Longrightarrow> closes (domains w1) (domains w2) \<Longrightarrow> \<not> attached (domains w2) sid"
    for w1 w2 :: "('a, 'b) SmmuWorld_scheme" using s(1) by (auto simp: closes_def)
  show ?case
  proof (cases "sb_state ?x = DsAttached")
    case False
    then have q: "detach_streams b vm sids w = (r, w')" using Cons.prems(4) by simp
    have "\<not> attached (domains w) sid" using False by (simp add: domains_def)
    then show ?thesis using Cons.IH [OF Cons.prems(1,2) rest q] keep [of w w'] smmu_closeD(2) by auto
  next
    case True
    let ?a = "abort_stream b sid (tc_vmid (sw_contexts w ! vm)) w"
    have att: "attached (domains w) sid" using True by (simp add: sw_domains)
    have bi: "sw_bindings (snd ?a) = sw_bindings w" using abort_close(3) [OF Cons.prems(1) s(1), of "{vm}"] s(2) by (simp add: sw_domains)
    have ca: "smmu_close b {vm} w (snd ?a)" using abort_close(1) [OF Cons.prems(1) s(1)] s(2) by simp
    show ?thesis
    proof (cases "fst ?a \<and> fst (mark_detached ?x)")
      case bad: False
      then have "w' = snd ?a" "r = None" using Cons.prems(4) True bi by (auto simp: case_prod_unfold Let_def split: if_splits)
      then show ?thesis using ca by simp
    next
      case good: True
      let ?w = "set_binding sid (snd (mark_detached ?x)) (snd ?a)"
      have q: "detach_streams b vm sids ?w = (r, w')" using Cons.prems(4) True good bi by (simp add: case_prod_unfold Let_def)
      have x: "sb_owner_vm (snd (mark_detached ?x)) = vm" "sb_state (snd (mark_detached ?x)) \<noteq> DsAttached"
        using mark_kept(2,5) [of ?x] good s(2) by (simp_all add: sw_domains)
      note r = retire_stream [OF Cons.prems(1) s Cons.prems(2) x, of "tc_vmid (sw_contexts w ! vm)"]
      have c: "smmu_close b {vm} w ?w" and n: "\<not> attached (domains ?w) sid" using r att by simp_all
      note op = smmu_closeD(1) [OF c]
      note ih = Cons.IH [OF smmu_opD(1) [OF op] smmu_closeD(3) [OF c Cons.prems(2)] of_vm_step [OF rest op] q]
      show ?thesis using close_trans [OF c conjunct1 [OF ih]] conjunct2 [OF ih] keep [OF n smmu_closeD(2) [OF conjunct1 [OF ih]]] by simp
    qed
  qed
qed

lemma outside_idle: "domains_ok b d \<Longrightarrow> dm_count d \<le> vm \<Longrightarrow> vm \<noteq> kNoVm \<Longrightarrow> idle_vm vm d"
  by (auto simp: domains_ok_def owners_ok_def idle_vm_def)

lemma detach_vm_ok:
  assumes "domains_ok b (domains w)" "tied (domains w)" "detach_vm b vm w = (r, w')"
  shows "smmu_close b {vm} w w'" "r = Some True \<Longrightarrow> idle_vm vm (domains w')"
proof -
  consider "r = Some False" "w' = w" | "vm < dm_count (domains w)" "detach_streams b vm (streams_of (sw_vm_streams w) vm) w = (r, w')"
    using assms(3) by (auto simp: detach_vm_def sw_domains split: if_splits)
  then show "smmu_close b {vm} w w'" "r = Some True \<Longrightarrow> idle_vm vm (domains w')"
  proof (atomize (full), cases)
    case 2
    note q = detach_streams_ok [OF assms(1,2) of_vm_streams [OF assms(1) 2(1)] 2(2)]
    then show "smmu_close b {vm} w w' \<and> (r = Some True \<longrightarrow> idle_vm vm (domains w'))"
      using idle_from_streams [OF assms(1) 2(1) smmu_closeD(1) [OF conjunct1 [OF q]]] by blast
  qed (simp add: close_refl assms(1))
qed

lemma quarantine_vm_ok:
  assumes "domains_ok b (domains w)" "tied (domains w)" "cr_ready (sw_commands w)" "vm \<noteq> kNoVm" "quarantine_vm b vm w = (r, w')"
  shows "smmu_close b {vm} w w'" "r \<noteq> None \<Longrightarrow> idle_vm vm (domains w')"
proof -
  consider "dm_count (domains w) \<le> vm" "w' = w"
    | "vm < dm_count (domains w)" "quarantine_vm_locked b vm w = (r \<noteq> None, w')"
    using assms(3,5) by (cases "quarantine_vm_locked b vm w") (auto simp: quarantine_vm_def sw_domains split: if_splits)
  then show "smmu_close b {vm} w w'" "r \<noteq> None \<Longrightarrow> idle_vm vm (domains w')"
  proof (atomize (full), cases)
    case 1
    then show "smmu_close b {vm} w w' \<and> (r \<noteq> None \<longrightarrow> idle_vm vm (domains w'))"
      using outside_idle [OF assms(1) 1(1) assms(4)] close_refl [OF assms(1)] by simp
  next
    case 2
    then show "smmu_close b {vm} w w' \<and> (r \<noteq> None \<longrightarrow> idle_vm vm (domains w'))"
      using quarantine_locked_ok [OF assms(1,2) 2(1,2)] by simp
  qed
qed

text \<open>Fault handling closes entries of any VM.\<close>

lemma notice_owner:
  assumes "domains_ok b d" "sid < kStreamCount" "fn_valid (snapshot_fault (dm_bindings d ! sid) s)"
  shows "fn_owner_vm (snapshot_fault (dm_bindings d ! sid) s) < dm_count d"
  using assms domains_okD(2) [OF assms(1)]
  by (auto simp: snapshot_fault_def notice_none_def fn_valid_def sb_configured_def owners_ok_def split: if_splits)

lemma quarantine_fault_ok:
  assumes "domains_ok b (domains w)" "tied (domains w)"
  shows "smmu_close b UNIV w (snd (quarantine_fault_stream b sid w))"
proof -
  let ?n = "snapshot_fault (sw_bindings w ! unat sid) sid"
  have "smmu_close b UNIV w (snd (quarantine_vm_locked b (fn_owner_vm ?n) w))" if "unat sid < length (sw_bindings w)" "fn_valid ?n"
  proof -
    have "fn_owner_vm ?n < dm_count (domains w)"
      using notice_owner [OF assms(1), of "unat sid" sid] that entry_size(3) [OF assms(1)] by (simp add: sw_domains)
    then show ?thesis
      using close_mono [OF quarantine_locked_ok(1) [OF assms]] by (metis prod.collapse subset_UNIV)
  qed
  then show ?thesis
    using close_refl [OF assms(1)] by (auto simp: quarantine_fault_stream_def Let_def case_prod_unfold)
qed

lemma collect_notices_ok:
  assumes "domains_ok b (domains w)" "tied (domains w)"
  shows "smmu_close b UNIV w (snd (collect_notices b sids ns w))"
  using assms
proof (induction sids arbitrary: ns w)
  case Nil
  then show ?case by (simp add: close_refl)
next
  case (Cons sid sids)
  let ?q = "quarantine_fault_stream b sid w"
  note c = quarantine_fault_ok [OF Cons.prems, of sid]
  note ih = Cons.IH [OF smmu_opD(1) [OF smmu_closeD(1) [OF c]] smmu_closeD(3) [OF c Cons.prems(2)]]
  show ?case using c close_trans [OF c ih] by (cases ?q; cases "fst ?q") auto
qed

lemma faults_ok:
  assumes "domains_ok b (domains w)" "tied (domains w)"
  shows "smmu_close b UNIV w (snd (poll_events b w))" "smmu_close b UNIV w (snd (smmu_handle_irq b i h w))"
proof -
  have d: "smmu_close b UNIV w (snd (dispatch_faults b batch (snd (drain_event_queue b w))))" for batch
  proof -
    let ?w = "snd (drain_event_queue b w)"
    note c = close_same [OF assms(1) same_drain_queue, of UNIV b]
    note k = collect_notices_ok [OF smmu_opD(1) [OF smmu_closeD(1) [OF c]] smmu_closeD(3) [OF c assms(2)], of "fb_stream_ids batch" "[]"]
    note ck = close_trans [OF c k]
    have "smmu_close b UNIV w (v\<lparr>sw_notices := ns\<rparr>)" if "v = snd (collect_notices b (fb_stream_ids batch) [] ?w)" for v ns
      by (rule close_trans [OF ck [folded that] close_same [OF _ same_steps(5)]])
        (use smmu_opD(1) [OF smmu_closeD(1) [OF ck]] that in simp)
    then show ?thesis using ck
      by (cases "collect_notices b (fb_stream_ids batch) [] ?w"; cases "fst (collect_notices b (fb_stream_ids batch) [] ?w)")
        (auto simp: dispatch_faults_def)
  qed
  show "smmu_close b UNIV w (snd (poll_events b w))"
    using d close_refl [OF assms(1)] by (simp add: poll_events_def case_prod_unfold Let_def)
  show "smmu_close b UNIV w (snd (smmu_handle_irq b i h w))"
    using d close_refl [OF assms(1)] close_same [OF assms(1) same_global_error]
    by (simp add: smmu_handle_irq_def case_prod_unfold Let_def)
qed

section \<open>Attach\<close>

lemma set_ste_kept [simp]:
  "cr_ready (sw_commands (set_ste sid i v w)) = cr_ready (sw_commands w)" "SmmuWorld.more (set_ste sid i v w) = SmmuWorld.more w"
  by (simp_all add: set_ste_def)

lemma fold_set_ste:
  assumes "sid < length (dm_table (domains w))"
  shows "domains (fold (\<lambda>i. set_ste sid i (f i)) is w)
      = (domains w)\<lparr>dm_table := (dm_table (domains w))[sid := fold (\<lambda>i s. s[i := f i]) is (dm_table (domains w) ! sid)]\<rparr>
    \<and> cr_ready (sw_commands (fold (\<lambda>i. set_ste sid i (f i)) is w)) = cr_ready (sw_commands w)
    \<and> SmmuWorld.more (fold (\<lambda>i. set_ste sid i (f i)) is w) = SmmuWorld.more w"
  using assms
proof (induction "is" arbitrary: w)
  case (Cons i "is")
  have "sid < length (dm_table (domains (set_ste sid i (f i) w)))" using Cons.prems by simp
  from Cons.IH [OF this] show ?case using Cons.prems by simp
qed simp

lemma fold_update_upt:
  assumes "n \<le> length s"
  shows "length (fold (\<lambda>i s. s[i := f i]) [a ..< n] s) = length s"
    "j < length s \<Longrightarrow> fold (\<lambda>i s. s[i := f i]) [a ..< n] s ! j = (if a \<le> j \<and> j < n then f j else s ! j)"
  using assms
proof (induction n)
  case (Suc n)
  { case 1 then show ?case using Suc by (cases "a \<le> n") simp_all }
  { case 2 then show ?case using Suc by (cases "a \<le> n") (auto simp: nth_list_update less_Suc_eq) }
qed simp_all

lemma entry_words:
  assumes "length e = 8" "length s = 8" "s ! 0 = 0"
  shows "(fold (\<lambda>i s. s[i := e ! i]) [1 ..< length e] s)[0 := e ! 0] = e"
    "fold (\<lambda>i s. s[i := e ! i]) [1 ..< length e] s ! 0 = 0"
  by (rule nth_equalityI; use assms in \<open>simp add: fold_update_upt nth_list_update\<close>)
    (use assms in \<open>simp add: fold_update_upt\<close>)

lemma stage2_entry_length: "length (se_entry (make_stage2_ste root vmid)) = 8"
  by (simp add: make_stage2_ste_def)

text \<open>An install whose first command is taken leaves the complete entry, whatever becomes of the last.\<close>

lemma install_stream_entry:
  assumes l: "length (dm_table (domains w)) = kStreamCount" "length (dm_table (domains w) ! sid) = 8" and s: "sid < kStreamCount"
    and e: "se_ok (make_stage2_ste (tc_root_pa c) (tc_vmid c))"
    and sub: "fst (submit b [make_cfgi_ste (of_nat sid)] (publish_memory b (set_ste sid 0 0 w)))"
  shows "domains (snd (install_stream b sid c w))
      = (domains w)\<lparr>dm_table := (dm_table (domains w))[sid := se_entry (make_stage2_ste (tc_root_pa c) (tc_vmid c))]\<rparr>"
    "cr_ready (sw_commands (snd (install_stream b sid c w))) = cr_ready (sw_commands w)"
    "SmmuWorld.more (snd (install_stream b sid c w)) = SmmuWorld.more w"
proof -
  let ?d = "domains w" let ?r = "snd (install_stream b sid c w)" let ?n = "se_entry (make_stage2_ste (tc_root_pa c) (tc_vmid c))"
  let ?w1 = "publish_memory b (set_ste sid 0 0 w)" let ?s1 = "(dm_table ?d ! sid)[0 := 0]"
  let ?w2 = "snd (submit b [make_cfgi_ste (of_nat sid)] ?w1)"
  have i2: "same_smmu (set_ste sid 0 0 w) ?w2" by (rule same_trans [OF same_steps(3) same_submit])
  have d2: "domains ?w2 = ?d\<lparr>dm_table := (dm_table ?d)[sid := ?s1]\<rparr>" "cr_ready (sw_commands ?w2) = cr_ready (sw_commands w)"
    "SmmuWorld.more ?w2 = SmmuWorld.more w"
    using i2 by (simp_all add: same_smmu_def)
  define w3 where "w3 = fold (\<lambda>i. set_ste sid i (?n ! i)) [1 ..< length ?n] ?w2"
  define y where "y = fold (\<lambda>i s. s[i := ?n ! i]) [1 ..< length ?n] ?s1"
  let ?w4 = "publish_memory b (set_ste sid 0 (?n ! 0) (publish_memory b w3))"
  have r: "?r = snd (submit b [make_cfgi_ste (of_nat sid), make_tlbi_s12_vmall (tc_vmid c)] ?w4)"
    using e sub unfolding w3_def by (simp add: install_stream_def case_prod_unfold Let_def)
  have sl: "sid < length (dm_table (domains ?w2))" using l s by (simp add: d2)
  have f: "domains w3 = ?d\<lparr>dm_table := (dm_table ?d)[sid := y]\<rparr>" "cr_ready (sw_commands w3) = cr_ready (sw_commands w)"
    "SmmuWorld.more w3 = SmmuWorld.more w"
    using fold_set_ste [OF sl, of "\<lambda>i. ?n ! i" "[1 ..< length ?n]", folded w3_def] d2 l s unfolding y_def by simp_all
  have y: "y[0 := ?n ! 0] = ?n" unfolding y_def
    by (rule entry_words(1) [OF stage2_entry_length]) (simp_all add: l)
  have i4: "same_smmu (set_ste sid 0 (?n ! 0) (publish_memory b w3)) ?r"
    unfolding r by (rule same_trans [OF same_steps(3) same_submit])
  have p3: "domains (publish_memory b w3) = domains w3" "cr_ready (sw_commands (publish_memory b w3)) = cr_ready (sw_commands w3)"
    "SmmuWorld.more (publish_memory b w3) = SmmuWorld.more w3"
    using same_steps(3) [of w3 b] by (simp_all add: same_smmu_def)
  show "domains ?r = ?d\<lparr>dm_table := (dm_table ?d)[sid := ?n]\<rparr>"
    using same_dom [OF i4] l s by (simp add: p3 f y)
  show "cr_ready (sw_commands ?r) = cr_ready (sw_commands w)" "SmmuWorld.more ?r = SmmuWorld.more w"
    using i4 f p3 by (simp_all add: same_smmu_def)
qed

lemma install_stream_ok:
  assumes ok: "domains_ok b (domains w)" and s: "sid < kStreamCount" and v: "owner (domains w) sid = vm" "vm < dm_count (domains w)"
  shows "smmu_op b {vm} w (snd (install_stream b sid (sw_contexts w ! vm) w))"
    "dm_bindings (domains (snd (install_stream b sid (sw_contexts w ! vm) w))) = dm_bindings (domains w)"
    "\<forall>i < kStreamCount. i \<noteq> sid \<longrightarrow> dm_table (domains (snd (install_stream b sid (sw_contexts w ! vm) w))) ! i = dm_table (domains w) ! i"
proof -
  let ?c = "sw_contexts w ! vm" let ?d = "domains w" let ?r = "snd (install_stream b sid ?c w)"
  let ?e = "make_stage2_ste (tc_root_pa ?c) (tc_vmid ?c)"
  note l = entry_size [OF ok]
  have shape: "\<exists>x. domains ?r = ?d\<lparr>dm_table := (dm_table ?d)[sid := x]\<rparr> \<and> cr_ready (sw_commands ?r) = cr_ready (sw_commands w)
      \<and> SmmuWorld.more ?r = SmmuWorld.more w \<and> length x = 8 \<and> (\<not> ste_open x \<or> se_ok ?e \<and> x = se_entry ?e)"
  proof (cases "se_ok ?e")
    case False
    then have "?r = w" by (simp add: install_stream_def)
    moreover have "?d\<lparr>dm_table := (dm_table ?d)[sid := dm_table ?d ! sid]\<rparr> = ?d" by simp
    moreover have "\<not> ste_open (dm_table ?d ! sid)"
      using domains_okD(4) [OF ok] s v False by (auto simp: entries_ok_def Let_def sw_domains)
    ultimately show ?thesis using l(1) [OF s] by metis
  next
    case e: True
    let ?w1 = "publish_memory b (set_ste sid 0 0 w)" let ?s1 = "(dm_table ?d ! sid)[0 := 0]"
    let ?w2 = "snd (submit b [make_cfgi_ste (of_nat sid)] ?w1)"
    have i2: "same_smmu (set_ste sid 0 0 w) ?w2" by (rule same_trans [OF same_steps(3) same_submit])
    have d2: "domains ?w2 = ?d\<lparr>dm_table := (dm_table ?d)[sid := ?s1]\<rparr>" "cr_ready (sw_commands ?w2) = cr_ready (sw_commands w)"
      "SmmuWorld.more ?w2 = SmmuWorld.more w"
      using i2 by (simp_all add: same_smmu_def)
    have n1: "\<not> ste_open ?s1" by (rule open_entry) (simp add: l(1) [OF s])
    show ?thesis
    proof (cases "fst (submit b [make_cfgi_ste (of_nat sid)] ?w1)")
      case False
      then have "?r = ?w2" using e by (simp add: install_stream_def case_prod_unfold Let_def)
      then show ?thesis using d2 n1 l(1) [OF s] by (intro exI [of _ ?s1]) simp
    next
      case True
      note en = install_stream_entry [OF l(2) l(1) [OF s] s e True]
      show ?thesis using e by (intro exI [of _ "se_entry ?e"]) (simp add: en stage2_entry_length)
    qed
  qed
  then obtain x where x: "domains ?r = ?d\<lparr>dm_table := (dm_table ?d)[sid := x]\<rparr>" "cr_ready (sw_commands ?r) = cr_ready (sw_commands w)"
    "SmmuWorld.more ?r = SmmuWorld.more w" "length x = 8" "\<not> ste_open x \<or> se_ok ?e \<and> x = se_entry ?e" by blast
  have k: "domains_ok b (domains ?r)" unfolding x(1)
    by (rule kept_entry [OF ok s x(4)]) (use x(5) v in \<open>auto simp: Let_def sw_domains\<close>)
  have "touches {vm} ?d (domains ?r)" using l s v by (auto simp: x(1) touches_def nth_upd)
  then show "smmu_op b {vm} w ?r" using k x(2,3) by (simp add: smmu_op_def)
  show "dm_bindings (domains ?r) = dm_bindings ?d" by (simp add: x(1))
  show "\<forall>i < kStreamCount. i \<noteq> sid \<longrightarrow> dm_table (domains ?r) ! i = dm_table ?d ! i" using l by (simp add: x(1) nth_upd)
qed

lemma attach_streams_ok:
  assumes "domains_ok b (domains w)" "tied (domains w)" "vm < dm_count (domains w)" "of_vm w vm sids"
    "attach_streams b vm g sids w = (r, w')"
  shows "smmu_op b {vm} w w' \<and> (r \<noteq> None \<longrightarrow> tied (domains w'))"
  using assms
proof (induction sids arbitrary: w)
  case Nil
  then show ?case by (simp add: smmu_op_def)
next
  case (Cons sid sids)
  let ?x = "sw_bindings w ! sid"
  have s: "sid < kStreamCount" "owner (domains w) sid = vm" and rest: "of_vm w vm sids" using Cons.prems(4) by (simp_all add: of_vm_def)
  show ?case
  proof (cases "sb_state ?x = DsAttached")
    case True
    then show ?thesis using Cons.IH [OF Cons.prems(1-3) rest] Cons.prems(5) by simp
  next
    case False
    let ?i = "install_stream b sid (sw_contexts w ! vm) w"
    note i = install_stream_ok [OF Cons.prems(1) s Cons.prems(3)]
    have bi: "sw_bindings (snd ?i) = sw_bindings w" using i(2) by (simp add: sw_domains)
    show ?thesis
    proof (cases "fst ?i \<and> fst (mark_attached ?x g)")
      case bad: False
      then have "w' = snd ?i" "r = None" using Cons.prems(5) False bi by (auto simp: case_prod_unfold Let_def split: if_splits)
      then show ?thesis using i(1) by simp
    next
      case good: True
      let ?y = "snd (mark_attached ?x g)" let ?w = "set_binding sid ?y (snd ?i)"
      have q: "attach_streams b vm g sids ?w = (r, w')" using Cons.prems(5) False good bi by (simp add: case_prod_unfold Let_def)
      have y: "sb_owner_vm ?y = owner (domains (snd ?i)) sid" using i(2) by (simp add: mark_kept sw_domains)
      note ok = smmu_opD(1) [OF i(1)] and l = entry_size [OF smmu_opD(1) [OF i(1)]]
      have t: "touches {vm} (domains (snd ?i)) (domains ?w)" using y i(2) s l by (auto simp: touches_def nth_upd)
      have op: "smmu_op b {vm} w ?w"
        by (rule op_trans [OF i(1)]) (use kept_binding [OF ok s(1) y] t in \<open>simp add: smmu_op_def set_binding_def domains_def\<close>)
      have "tied (domains ?w)"
        using Cons.prems(2) i(2,3) good mark_kept(6) [of ?x g] l s by (auto simp: tied_def nth_upd)
      then show ?thesis
        using Cons.IH [OF smmu_opD(1) [OF op] _ _ of_vm_step [OF rest op] q] Cons.prems(3) op_trans [OF op] smmu_opD(2) [OF op]
        by (auto simp: touches_def)
    qed
  qed
qed

lemma attach_vm_ok:
  assumes "domains_ok b (domains w)" "tied (domains w)" "attach_vm b vm g w = (r, w')"
  shows "smmu_op b {vm} w w' \<and> (r \<noteq> None \<longrightarrow> tied (domains w'))"
proof (cases "(\<not> cr_ready (sw_commands w) \<or> vm \<ge> sw_context_count w \<or> g = 0) \<or> \<not> can_attach_vm (sw_bindings w) (streams_of (sw_vm_streams w) vm) g")
  case True
  then have "w' = w" using assms(3) unfolding attach_vm_def by (simp split: if_split_asm)
  then show ?thesis using assms(1,2) by (simp add: smmu_op_def)
next
  case False
  then have vm: "vm < dm_count (domains w)" and a: "attach_streams b vm g (streams_of (sw_vm_streams w) vm) w = (r, w')"
    using assms(3) by (simp_all add: attach_vm_def domains_def)
  show ?thesis by (rule attach_streams_ok [OF assms(1,2) vm of_vm_streams [OF assms(1) vm] a])
qed

section \<open>After a successful init\<close>

lemma build_contexts_ok:
  assumes "build_contexts b vms w = (True, w')" "length (sw_tables w) = kMaxGuests" "length (sw_contexts w) = kMaxGuests"
    "\<forall>vm \<in> set vms. vm < kMaxGuests" "distinct vms"
  shows "(\<exists>ts cs. w' = w\<lparr>sw_tables := ts, sw_contexts := cs\<rparr> \<and> length ts = kMaxGuests \<and> length cs = kMaxGuests
      \<and> (\<forall>vm. vm \<notin> set vms \<longrightarrow> ts ! vm = sw_tables w ! vm \<and> cs ! vm = sw_contexts w ! vm)
      \<and> (\<forall>vm \<in> set vms. cs ! vm = \<lparr>tc_owner_vm = vm, tc_vmid = gd_vmid (bd_guests b ! vm), tc_root_pa = bd_l1_pa b vm\<rparr>
          \<and> build_dma_table (tables_of b vm) (bd_guests b ! vm) = Some (True, ts ! vm)))"
  using assms
proof (induction vms arbitrary: w)
  case Nil
  then have "w' = w\<lparr>sw_tables := sw_tables w, sw_contexts := sw_contexts w\<rparr>" by simp
  then show ?case by (intro exI [of _ "sw_tables w"] exI [of _ "sw_contexts w"] conjI) (use Nil in simp_all)
next
  case (Cons vm vms)
  obtain t where t: "build_dma_table (tables_of b vm) (bd_guests b ! vm) = Some (True, t)"
    using Cons.prems(1) by (cases "build_dma_table (tables_of b vm) (bd_guests b ! vm)") (auto split: prod.splits bool.splits)
  let ?c = "\<lparr>tc_owner_vm = vm, tc_vmid = gd_vmid (bd_guests b ! vm), tc_root_pa = bd_l1_pa b vm\<rparr>"
  let ?w = "w\<lparr>sw_tables := (sw_tables w)[vm := t], sw_contexts := (sw_contexts w)[vm := ?c]\<rparr>"
  have "build_contexts b vms ?w = (True, w')" using Cons.prems(1) t by simp
  note ih = Cons.IH [OF this]
  have sz: "length (sw_tables ?w) = kMaxGuests" "length (sw_contexts ?w) = kMaxGuests" "\<forall>vm \<in> set vms. vm < kMaxGuests" "distinct vms"
    "vm < kMaxGuests" "vm \<notin> set vms" using Cons.prems by simp_all
  obtain ts cs where r: "w' = ?w\<lparr>sw_tables := ts, sw_contexts := cs\<rparr>" "length ts = kMaxGuests" "length cs = kMaxGuests"
      "\<forall>v. v \<notin> set vms \<longrightarrow> ts ! v = sw_tables ?w ! v \<and> cs ! v = sw_contexts ?w ! v"
      "\<forall>v \<in> set vms. cs ! v = \<lparr>tc_owner_vm = v, tc_vmid = gd_vmid (bd_guests b ! v), tc_root_pa = bd_l1_pa b v\<rparr>
          \<and> build_dma_table (tables_of b v) (bd_guests b ! v) = Some (True, ts ! v)"
    using ih [OF sz(1-4)] by (elim exE conjE) (rule that)
  show ?case
  proof (intro exI [of _ ts] exI [of _ cs] conjI)
    show "w' = w\<lparr>sw_tables := ts, sw_contexts := cs\<rparr>" using r(1) by simp
    show "\<forall>v. v \<notin> set (vm # vms) \<longrightarrow> ts ! v = sw_tables w ! v \<and> cs ! v = sw_contexts w ! v" using r(4) by simp
    have "ts ! vm = t" "cs ! vm = ?c" using r(4) sz Cons.prems(2,3) by simp_all
    then show "\<forall>v \<in> set (vm # vms). cs ! v = \<lparr>tc_owner_vm = v, tc_vmid = gd_vmid (bd_guests b ! v), tc_root_pa = bd_l1_pa b v\<rparr>
          \<and> build_dma_table (tables_of b v) (bd_guests b ! v) = Some (True, ts ! v)" using r(5) t by simp
  qed (use r in simp_all)
qed

lemma stream_index_ok:
  assumes "length bs \<le> cap"
  shows "length (build_stream_index cap bs) = kMaxGuests \<and>
    (\<forall>vm < kMaxGuests. \<forall>sid. sid \<in> set (build_stream_index cap bs ! vm) \<longleftrightarrow> sid < length bs \<and> sb_owner_vm (bs ! sid) = vm)"
proof -
  let ?ix = "\<lambda>n. fold (index_stream cap bs) [0 ..< n] (replicate kMaxGuests [])"
  have "length (?ix n) = kMaxGuests \<and> (\<forall>vm < kMaxGuests. length (?ix n ! vm) \<le> n
      \<and> (\<forall>sid. sid \<in> set (?ix n ! vm) \<longleftrightarrow> sid < n \<and> sb_owner_vm (bs ! sid) = vm))" if "n \<le> length bs" for n
    using that
  proof (induction n)
    case (Suc n)
    note ih = Suc.IH [OF Suc_leD [OF Suc.prems]]
    let ?o = "sb_owner_vm (bs ! n)"
    have "length (?ix n ! ?o) < cap" if "?o < kMaxGuests" using ih that Suc.prems assms by (auto simp: le_less_trans less_le_trans)
    then have step: "?ix (Suc n) = (if ?o < kMaxGuests then (?ix n)[?o := ?ix n ! ?o @ [n]] else ?ix n)"
      by (auto simp: index_stream_def Let_def sb_configured_def kNoVm_def kMaxGuests_def)
    show ?case unfolding step using ih by (auto simp: nth_upd less_Suc_eq le_SucI)
  qed simp
  from this [OF order_refl] show ?thesis by (simp add: build_stream_index_def)
qed

definition fresh_streams :: "nat \<Rightarrow> ('h, 'z) SmmuWorld_scheme \<Rightarrow> bool" where
  "fresh_streams n w \<longleftrightarrow> length (sw_stream_table w) = kStreamCount \<and> length (sw_bindings w) = kStreamCount
     \<and> (\<forall>sid < kStreamCount. length (sw_stream_table w ! sid) = 8 \<and> \<not> ste_open (sw_stream_table w ! sid)
          \<and> (sb_owner_vm (sw_bindings w ! sid) = kNoVm \<or> sb_owner_vm (sw_bindings w ! sid) < n)
          \<and> sb_state (sw_bindings w ! sid) = DsDetached)"

lemma configure_streams_ok:
  assumes "configure_streams n as w = (True, w')" "fresh_streams n w"
  shows "fresh_streams n w' \<and> (\<exists>ts bs. w' = w\<lparr>sw_stream_table := ts, sw_bindings := bs\<rparr>)"
  using assms
proof (induction "as" arbitrary: w)
  case Nil
  then show ?case by (intro conjI exI [of _ "sw_stream_table w"] exI [of _ "sw_bindings w"]) simp_all
next
  case (Cons a "as")
  let ?s = "unat (as_stream_id a)" let ?x = "configure_binding (sw_bindings w ! ?s) (as_vm a) n"
  let ?w = "(set_binding ?s (snd ?x) w)\<lparr>sw_stream_table := (sw_stream_table w)[?s := make_abort_ste]\<rparr>"
  have c: "configure_streams n as ?w = (True, w')" "fst ?x"
    using Cons.prems(1) by (auto simp: Let_def case_prod_unfold split: if_splits)
  have "\<not> ste_open make_abort_ste" by (rule open_entry) (simp add: make_abort_ste_def)
  then have "fresh_streams n ?w"
    using Cons.prems(2) c(2) by (auto simp: fresh_streams_def set_binding_def nth_upd configure_binding_def make_abort_ste_def split: if_splits)
  from Cons.IH [OF c(1) this] show ?case by (auto simp: set_binding_def)
qed

lemma build_dma_contexts_ok:
  assumes "build_dma_contexts b caps w = (True, w')" "length (sw_tables w) = kMaxGuests"
    "length (sw_stream_table w) = kStreamCount" "\<forall>sid < kStreamCount. sw_stream_table w ! sid = replicate 8 0"
  shows "domains_ok b (domains w') \<and> tied (domains w') \<and> (\<forall>vm. idle_vm vm (domains w')) \<and> SmmuWorld.more w' = SmmuWorld.more w"
proof -
  let ?g = "bd_guests b" let ?n = "length (bd_guests b)"
  let ?w1 = "w\<lparr>sw_contexts := replicate kMaxGuests context_none, sw_bindings := replicate kStreamCount binding_none,
                sw_vm_streams := replicate kMaxGuests []\<rparr>"
  obtain w2 where w2: "build_contexts b [0 ..< ?n] ?w1 = (True, w2)"
    using assms(1) by (cases "build_contexts b [0 ..< ?n] ?w1") (auto simp: build_dma_contexts_def Let_def split: if_splits)
  let ?w3 = "w2\<lparr>sw_context_count := ?n\<rparr>"
  obtain w4 where w4: "configure_streams ?n (bd_assignments b) ?w3 = (True, w4)"
    using assms(1) w2 by (cases "configure_streams ?n (bd_assignments b) ?w3") (auto simp: build_dma_contexts_def Let_def split: if_splits)
  have n: "?n \<le> kMaxGuests" and w': "w' = publish_memory b (w4\<lparr>sw_vm_streams := build_stream_index kStreamCount (sw_bindings w4)\<rparr>)"
    using assms(1) w2 w4 by (auto simp: build_dma_contexts_def Let_def split: if_splits)
  have sz: "length (sw_tables ?w1) = kMaxGuests" "length (sw_contexts ?w1) = kMaxGuests" "\<forall>vm \<in> set [0 ..< ?n]. vm < kMaxGuests"
    using assms(2) n by simp_all
  from build_contexts_ok [OF w2 sz distinct_upt] obtain ts cs where
    c: "w2 = ?w1\<lparr>sw_tables := ts, sw_contexts := cs\<rparr>" "length ts = kMaxGuests" "length cs = kMaxGuests"
      "\<forall>vm \<in> set [0 ..< ?n]. cs ! vm = \<lparr>tc_owner_vm = vm, tc_vmid = gd_vmid (?g ! vm), tc_root_pa = bd_l1_pa b vm\<rparr>
          \<and> build_dma_table (tables_of b vm) (?g ! vm) = Some (True, ts ! vm)"
    by (elim exE conjE) (rule that)
  have f3: "fresh_streams ?n ?w3" unfolding fresh_streams_def c(1)
    using assms(3,4) by (simp add: binding_none_def open_entry)
  obtain tb bs where f4: "fresh_streams ?n w4" and w4': "w4 = ?w3\<lparr>sw_stream_table := tb, sw_bindings := bs\<rparr>"
    using configure_streams_ok [OF w4 f3] by blast
  have lb: "length bs = kStreamCount" using f4 w4' by (simp add: fresh_streams_def)
  note ix = stream_index_ok [of bs kStreamCount, unfolded lb, OF order_refl]
  have d: "domains w' = \<lparr>dm_table = tb, dm_tables = ts, dm_contexts = cs, dm_bindings = bs,
      dm_streams = build_stream_index kStreamCount bs, dm_count = ?n\<rparr>"
    unfolding w' w4' c(1) by (simp add: domains_def)
  have fr: "length tb = kStreamCount" "\<forall>sid < kStreamCount. length (tb ! sid) = 8 \<and> \<not> ste_open (tb ! sid)
      \<and> (sb_owner_vm (bs ! sid) = kNoVm \<or> sb_owner_vm (bs ! sid) < ?n) \<and> sb_state (bs ! sid) = DsDetached"
    using f4 w4' by (simp_all add: fresh_streams_def)
  have "domains_ok b (domains w')" unfolding d domains_ok_def
    using fr ix c n lb by (simp add: sizes_ok_def owners_ok_def contexts_ok_def entries_ok_def)
  moreover have "tied (domains w')" "\<forall>vm. idle_vm vm (domains w')" unfolding d using fr(2) by (simp_all add: tied_def idle_vm_def)
  moreover have "SmmuWorld.more w' = SmmuWorld.more w" unfolding w' w4' c(1) by simp
  ultimately show ?thesis by simp
qed

lemma bring_up_ok:
  shows "domains (snd (bring_up_translation b l n w)) = domains w"
    "SmmuWorld.more (snd (bring_up_translation b l n w)) = SmmuWorld.more w"
    "fst (bring_up_translation b l n w) = BsNone \<Longrightarrow> cr_ready (sw_commands (snd (bring_up_translation b l n w)))"
proof -
  let ?P = "\<lambda>x. (fst x = BsNone \<longrightarrow> cr_ready (sw_commands (snd x))) \<and> domains (snd x) = domains w \<and> SmmuWorld.more (snd x) = SmmuWorld.more w"
  have r: "domains (upd_ring f v) = domains v" "SmmuWorld.more (upd_ring f v) = SmmuWorld.more v" for f and v :: "('a, 'b) SmmuWorld_scheme"
    by (simp_all add: domains_def upd_ring_def)
  have h: "domains (upd_hw_smmu f v) = domains v" "domains (snd (on_hw g v)) = domains v" for f g and v :: "('a, 'b) SmmuWorld_scheme"
    by (simp_all add: domains_def)
  have s: "domains (snd (submit b cs v)) = domains v" "SmmuWorld.more (snd (submit b cs v)) = SmmuWorld.more v"
    "cr_ready (sw_commands (snd (submit b cs v))) = cr_ready (sw_commands v)"
    "domains (snd (submit_all b css v)) = domains v" "SmmuWorld.more (snd (submit_all b css v)) = SmmuWorld.more v"
    "cr_ready (sw_commands (snd (submit_all b css v))) = cr_ready (sw_commands v)" for cs css and v :: "('a, 'b) SmmuWorld_scheme"
    using same_submit [of v b cs] same_submit_all [of v b css] by (simp_all add: same_smmu_def)
  have "?P (bring_up_translation b l n w)"
    unfolding bring_up_translation_def Let_def case_prod_unfold
    by (intro if_both [where P = ?P]; simp add: r h s)
  then show "domains (snd (bring_up_translation b l n w)) = domains w"
    "SmmuWorld.more (snd (bring_up_translation b l n w)) = SmmuWorld.more w"
    "fst (bring_up_translation b l n w) = BsNone \<Longrightarrow> cr_ready (sw_commands (snd (bring_up_translation b l n w)))" by simp_all
qed

lemma domains_hw [simp]: "domains (upd_hw_smmu f v) = domains v" "domains (snd (on_hw g v)) = domains v"
  "domains (publish_memory b v) = domains v" "domains (v\<lparr>sw_enabled := x\<rparr>) = domains v"
  by (simp_all add: domains_def)

lemma smmu_init_ok:
  assumes "smmu_init b w = (None, w')" "length (sw_tables w) = kMaxGuests"
  shows "domains_ok b (domains w') \<and> tied (domains w') \<and> (\<forall>vm. idle_vm vm (domains w')) \<and> cr_ready (sw_commands w')
    \<and> SmmuWorld.more w' = SmmuWorld.more w"
proof -
  let ?c = "\<lambda>v. SmmuWorld.more (smmu_clear v) = SmmuWorld.more v \<and> sw_tables (smmu_clear v) = sw_tables v"
  obtain caps v u where v: "build_dma_contexts b caps (smmu_clear v) = (True, u)" "sw_tables v = sw_tables w" "SmmuWorld.more v = SmmuWorld.more w"
    and bu: "fst (bring_up_translation b (layout_of b) kStreamCount (publish_memory b u)) = BsNone"
      "domains w' = domains (snd (bring_up_translation b (layout_of b) kStreamCount (publish_memory b u)))"
      "sw_commands w' = sw_commands (snd (bring_up_translation b (layout_of b) kStreamCount (publish_memory b u)))"
      "SmmuWorld.more w' = SmmuWorld.more (snd (bring_up_translation b (layout_of b) kStreamCount (publish_memory b u)))"
  proof -
    let ?v1 = "snd (on_hw (bd_read32 b kIdr0) w)" let ?v2 = "snd (on_hw (bd_read32 b kIdr1) ?v1)" let ?v3 = "snd (on_hw (bd_read32 b kIdr5) ?v2)"
    let ?v4 = "snd (on_hw (shut_down b kPollLimit) ?v3)"
    let ?caps = "decode_capabilities (fst (on_hw (bd_read32 b kIdr0) w)) (fst (on_hw (bd_read32 b kIdr1) ?v1)) (fst (on_hw (bd_read32 b kIdr5) ?v2))"
    let ?B = "build_dma_contexts b ?caps (smmu_clear ?v4)"
    have ok: "fst ?B" using assms(1) unfolding smmu_init_def Let_def case_prod_unfold by (simp split: if_split_asm)
    then have 1: "?B = (True, snd ?B)" by (metis prod.collapse)
    have "fst (bring_up_translation b (layout_of b) kStreamCount (publish_memory b (snd ?B))) = BsNone
      \<and> domains w' = domains (snd (bring_up_translation b (layout_of b) kStreamCount (publish_memory b (snd ?B))))
      \<and> sw_commands w' = sw_commands (snd (bring_up_translation b (layout_of b) kStreamCount (publish_memory b (snd ?B))))
      \<and> SmmuWorld.more w' = SmmuWorld.more (snd (bring_up_translation b (layout_of b) kStreamCount (publish_memory b (snd ?B))))"
      using assms(1) unfolding smmu_init_def Let_def case_prod_unfold by (auto split: if_split_asm)
    then show ?thesis using that [OF 1] by simp
  qed
  have c: "length (sw_tables (smmu_clear v)) = kMaxGuests" "length (sw_stream_table (smmu_clear v)) = kStreamCount"
    "\<forall>sid < kStreamCount. sw_stream_table (smmu_clear v) ! sid = replicate 8 0"
    using v(2) assms(2) by (simp_all add: smmu_clear_def)
  have "SmmuWorld.more (smmu_clear v) = SmmuWorld.more v" by (simp add: smmu_clear_def)
  then show ?thesis
    using build_dma_contexts_ok [OF v(1) c] bring_up_ok [of b "layout_of b" kStreamCount "publish_memory b u"] bu v(3) by simp
qed

section \<open>The entry encodes its context\<close>

text \<open>The fields of an entry, as the device reads them.\<close>

definition ste_root :: "StreamTableEntry \<Rightarrow> u64" where "ste_root s = s ! 3 AND kS2ttbMask"
definition ste_vmid :: "StreamTableEntry \<Rightarrow> u16" where "ste_vmid s = ucast (s ! 2 AND kVmidMask)"
definition ste_translates :: "StreamTableEntry \<Rightarrow> bool" where
  "ste_translates s \<longleftrightarrow> s ! 0 AND kSteValid \<noteq> 0 \<and> drop_bit kConfigShift (s ! 0 AND kConfigMask) = kStage2Only"

lemma below_40: "root AND NOT kPa40Mask = 0 \<longleftrightarrow> unat (root :: u64) < 2 ^ 40"
proof -
  have m: "kPa40Mask = mask 40" by (simp add: kPa40Mask_def mask_eq_exp_minus_1)
  have s: "(root AND mask 40) OR (root AND NOT (mask 40)) = root" by (simp only: bit.conj_disj_distrib [symmetric]) simp
  have c: "(root AND mask 40) AND NOT (mask 40) = 0" by (simp only: and.assoc) simp
  have "root AND NOT (mask 40) = 0 \<longleftrightarrow> take_bit 40 root = root"
    unfolding take_bit_eq_mask using s c by (metis or.right_neutral)
  also have "\<dots> \<longleftrightarrow> unat root < 2 ^ 40"
    by (simp add: word_unat_eq_iff unsigned_take_bit_eq take_bit_nat_eq_self_iff)
  finally show ?thesis unfolding m .
qed

lemma aligned_low: "root AND 0xFFF = 0 \<Longrightarrow> bit (root :: u64) n \<Longrightarrow> 12 \<le> n"
proof -
  assume a: "root AND 0xFFF = 0" and b: "bit root n"
  have "(0xFFF :: u64) = mask 12" by (simp add: mask_eq_exp_minus_1)
  then have "take_bit 12 root = 0" using a by (simp add: take_bit_eq_mask)
  then show "12 \<le> n" using b by (metis bit_0_eq bit_take_bit_iff bot_apply bot_bool_def not_less)
qed

lemma root_field:
  assumes "root AND 0xFFF = 0" "unat (root :: u64) < 2 ^ 40"
  shows "root AND kS2ttbMask = root"
proof (rule bit_word_eqI)
  fix n assume n: "n < LENGTH(64)"
  have t: "take_bit 40 root = root" using assms(2) by (simp add: word_unat_eq_iff unsigned_take_bit_eq take_bit_nat_eq_self_iff)
  have k: "kS2ttbMask = push_bit 4 (mask 48)" by (simp add: kS2ttbMask_def mask_eq_exp_minus_1 push_bit_eq_mult)
  have "n < 40" if "bit root n" using t that by (metis bit_take_bit_iff)
  then show "bit (root AND kS2ttbMask) n = bit root n"
    using aligned_low [OF assms(1), of n] n by (auto simp: bit_and_iff k bit_push_bit_iff bit_mask_iff)
qed

lemma vmid_field: "ucast (ste_config vmid AND kVmidMask) = vmid"
proof -
  let ?k = "push_bit kT0szShift kStage2T0sz OR push_bit kSl0Shift kStage2Sl0
     OR push_bit kIrgn0Shift kWriteBack OR push_bit kOrgn0Shift kWriteBack OR push_bit kSh0Shift kInnerShareable
     OR push_bit kTg0Shift kStage2Granule4k OR push_bit kPsShift kStage2Pa40 OR kAa64 OR kProtectedTableWalk OR kRecordFault"
  have z: "?k AND kVmidMask = 0"
    by (simp add: kVmidMask_def kT0szShift_def kStage2T0sz_def kSl0Shift_def kStage2Sl0_def kIrgn0Shift_def kWriteBack_def kOrgn0Shift_def
        kSh0Shift_def kInnerShareable_def kTg0Shift_def kStage2Granule4k_def kPsShift_def kStage2Pa40_def kAa64_def kProtectedTableWalk_def
        kRecordFault_def push_bit_eq_mult)
  have m: "kVmidMask = mask 16" by (simp add: kVmidMask_def mask_eq_exp_minus_1)
  have "ste_config vmid AND kVmidMask = (ucast vmid AND kVmidMask) AND kVmidMask OR (?k AND kVmidMask)"
    unfolding ste_config_def by (simp only: bit.conj_disj_distrib2)
  also have "\<dots> = ucast vmid AND kVmidMask" unfolding z by (simp add: and.assoc)
  also have "\<dots> = ucast vmid" by (rule bit_word_eqI) (auto simp: m bit_and_iff bit_mask_iff bit_ucast_iff dest: bit_imp_le_length)
  finally have c: "ste_config vmid AND kVmidMask = ucast vmid" .
  show ?thesis unfolding c by (rule bit_word_eqI) (simp add: bit_ucast_iff)
qed

text \<open>
  C33. A stream table entry says what its context says. The encoder accepts exactly the
  roots that are 4 KiB aligned and below 2^40, and the entry of an accepted root reads
  back as a Stage 2 translation through that root under that VMID, nothing lost.
\<close>

theorem ste_roundtrip:
  "(se_ok (make_stage2_ste root vmid) \<longleftrightarrow> root AND 0xFFF = 0 \<and> unat root < 2 ^ 40)
   \<and> (se_ok (make_stage2_ste root vmid) \<longrightarrow> ste_root (se_entry (make_stage2_ste root vmid)) = root
        \<and> ste_vmid (se_entry (make_stage2_ste root vmid)) = vmid \<and> ste_translates (se_entry (make_stage2_ste root vmid)))"
proof -
  have ok: "se_ok (make_stage2_ste root vmid) \<longleftrightarrow> root AND 0xFFF = 0 \<and> unat root < 2 ^ 40"
    using below_40 [of root] by (simp add: make_stage2_ste_def se_ok_def)
  moreover have "ste_root (se_entry (make_stage2_ste root vmid)) = root \<and> ste_vmid (se_entry (make_stage2_ste root vmid)) = vmid
      \<and> ste_translates (se_entry (make_stage2_ste root vmid))" if "root AND 0xFFF = 0" "unat root < 2 ^ 40"
    using that below_40 [of root] root_field [OF that] vmid_field [of vmid]
    by (simp add: make_stage2_ste_def ste_root_def ste_vmid_def ste_translates_def kSteValid_def kConfigShift_def kStage2Only_def kConfigMask_def and.assoc)
  ultimately show ?thesis by blast
qed

lemma ste_roundtrip_witness:
  "ste_root (se_entry (make_stage2_ste 0x40400000 7)) = 0x40400000 \<and> ste_vmid (se_entry (make_stage2_ste 0x40400000 7)) = 7"
  using ste_roundtrip [of "0x40400000" 7] by simp

end
