(* ===== verification/NovaDmaDevice.thy ===== *)
theory NovaDmaDevice
  imports NovaSmmuIso NovaVgic NovaQuiesce
begin

text \<open>
  The component \<open>dma_device\<close>: the backend policy (\<open>backend_model.hpp\<close>), the device
  registry and its transition table (\<open>lifecycle_model.hpp\<close>), and the quiesce and
  resume walks with the interrupt handlers of \<open>dma_device.cpp\<close>. A backend is a record
  of functions on the hardware state, absent where the code has a null pointer; the
  registry is the list of its entries in use. A call that panics answers nothing.
  Log lines and trace records are left out.
\<close>

section \<open>Static tables\<close>

datatype ResetCapability = RcNone | RcQuiesce | RcFunction
datatype InterruptTrigger = TrLevel | TrEdge

record DeviceCapability =
  dc_device_id :: DeviceId
  dc_reset :: ResetCapability
  dc_coherent :: bool

record DeviceInterrupt =
  di_device_id :: DeviceId
  di_physical_intid :: u32
  di_virtual_intid :: u32
  di_trigger :: InterruptTrigger

section \<open>Backend policy\<close>

record 'h Backend =
  bk_device_id :: DeviceId
  bk_reset_capability :: ResetCapability
  bk_present :: "('h \<Rightarrow> bool \<times> 'h) option"
  bk_configure :: "('h \<Rightarrow> bool \<times> 'h) option"
  bk_quiesce :: "('h \<Rightarrow> bool \<times> 'h) option"
  bk_drained :: "('h \<Rightarrow> bool \<times> 'h) option"
  bk_reset :: "('h \<Rightarrow> bool \<times> 'h) option"
  bk_resume :: "('h \<Rightarrow> bool \<times> 'h) option"
  bk_start_dma :: "(u64 \<Rightarrow> u64 \<Rightarrow> u64 \<Rightarrow> bool \<Rightarrow> 'h \<Rightarrow> bool \<times> 'h) option"
  bk_clear_interrupts :: "('h \<Rightarrow> 'h) option"

datatype BackendPolicyError = BpNone | BpCapacity | BpInvalidBackend | BpDuplicateBackend | BpMissingCapability
  | BpMissingBackend | BpResetMismatch

record BackendPolicyCheck =
  bp_error :: BackendPolicyError
  bp_index :: nat

definition bp_ok :: "BackendPolicyCheck \<Rightarrow> bool" where "bp_ok c \<longleftrightarrow> bp_error c = BpNone"

definition backend_well_formed :: "'h Backend \<Rightarrow> bool" where
  "backend_well_formed k \<longleftrightarrow> bk_device_id k \<noteq> kNoDevice \<and> bk_present k \<noteq> None \<and> bk_configure k \<noteq> None
     \<and> bk_quiesce k \<noteq> None \<and> bk_drained k \<noteq> None \<and> (bk_reset_capability k \<noteq> RcFunction \<or> bk_reset k \<noteq> None)
     \<and> bk_resume k \<noteq> None \<and> bk_start_dma k \<noteq> None \<and> bk_clear_interrupts k \<noteq> None"

definition find_backend :: "'h Backend list \<Rightarrow> DeviceId \<Rightarrow> 'h Backend option" where
  "find_backend ks device_id = find (\<lambda>k. bk_device_id k = device_id) ks"

definition find_capability :: "DeviceCapability list \<Rightarrow> DeviceId \<Rightarrow> DeviceCapability option" where
  "find_capability cs device_id = find (\<lambda>c. dc_device_id c = device_id) cs"

definition backend_error :: "'h Backend list \<Rightarrow> nat \<Rightarrow> BackendPolicyCheck option" where
  "backend_error ks i =
     (if \<not> backend_well_formed (ks ! i) then Some \<lparr>bp_error = BpInvalidBackend, bp_index = i\<rparr>
      else first_some (\<lambda>j. if bk_device_id (ks ! i) = bk_device_id (ks ! j) then Some \<lparr>bp_error = BpDuplicateBackend, bp_index = i\<rparr>
             else None) [0 ..< i])"

definition backend_assignment_error :: "Assignment list \<Rightarrow> DeviceCapability list \<Rightarrow> 'h Backend list \<Rightarrow> nat \<Rightarrow> BackendPolicyCheck option" where
  "backend_assignment_error as cs ks i =
     (case find_capability cs (as_device_id (as ! i)) of
        None \<Rightarrow> Some \<lparr>bp_error = BpMissingCapability, bp_index = i\<rparr>
      | Some c \<Rightarrow> (case find_backend ks (as_device_id (as ! i)) of
          None \<Rightarrow> Some \<lparr>bp_error = BpMissingBackend, bp_index = i\<rparr>
        | Some k \<Rightarrow> if bk_reset_capability k \<noteq> dc_reset c then Some \<lparr>bp_error = BpResetMismatch, bp_index = i\<rparr> else None))"

definition validate_backend_policy :: "Assignment list \<Rightarrow> DeviceCapability list \<Rightarrow> 'h Backend list \<Rightarrow> nat \<Rightarrow> BackendPolicyCheck" where
  "validate_backend_policy as cs ks capacity =
     (if length cs > capacity then \<lparr>bp_error = BpCapacity, bp_index = 0\<rparr>
      else case first_some (backend_error ks) [0 ..< length ks] of Some e \<Rightarrow> e
      | None \<Rightarrow> (case first_some (backend_assignment_error as cs ks) [0 ..< length as] of Some e \<Rightarrow> e
        | None \<Rightarrow> \<lparr>bp_error = BpNone, bp_index = 0\<rparr>))"

section \<open>Registry and transition table\<close>

datatype DevState = DvUnavailable | DvQuiesced | DvQuiescing | DvDetaching | DvResuming | DvActive | DvFailed

record Entry =
  ey_device_id :: DeviceId
  ey_owner_vm :: nat
  ey_state :: DevState
  ey_generation :: u64
  ey_deadline :: u64
  ey_bus_master_blocked :: bool

datatype ScanAction = SaSkip | SaFail | SaPending | SaCollect

fun classify_begin_quiesce :: "DevState \<Rightarrow> ScanAction" where
  "classify_begin_quiesce DvUnavailable = SaSkip"
| "classify_begin_quiesce DvQuiesced = SaSkip"
| "classify_begin_quiesce DvQuiescing = SaPending"
| "classify_begin_quiesce DvDetaching = SaPending"
| "classify_begin_quiesce DvActive = SaCollect"
| "classify_begin_quiesce DvFailed = SaFail"
| "classify_begin_quiesce DvResuming = SaFail"

fun classify_quiescing :: "DevState \<Rightarrow> bool \<Rightarrow> ScanAction" where
  "classify_quiescing DvUnavailable blocked = SaSkip"
| "classify_quiescing DvQuiesced blocked = SaSkip"
| "classify_quiescing DvQuiescing blocked = (if blocked then SaCollect else SaPending)"
| "classify_quiescing DvDetaching blocked = SaPending"
| "classify_quiescing DvResuming blocked = SaPending"
| "classify_quiescing DvActive blocked = SaPending"
| "classify_quiescing DvFailed blocked = SaFail"

fun classify_resume :: "DevState \<Rightarrow> ScanAction" where
  "classify_resume DvUnavailable = SaSkip"
| "classify_resume DvQuiesced = SaCollect"
| "classify_resume DvQuiescing = SaFail"
| "classify_resume DvDetaching = SaFail"
| "classify_resume DvResuming = SaFail"
| "classify_resume DvActive = SaFail"
| "classify_resume DvFailed = SaFail"

definition entry_new :: "DeviceId \<Rightarrow> nat \<Rightarrow> Entry" where
  "entry_new device_id owner_vm = \<lparr>ey_device_id = device_id, ey_owner_vm = owner_vm, ey_state = DvUnavailable, ey_generation = 0,
     ey_deadline = 0, ey_bus_master_blocked = True\<rparr>"

definition registry_find :: "Entry list \<Rightarrow> DeviceId \<Rightarrow> Entry option" where
  "registry_find es device_id = find (\<lambda>x. ey_device_id x = device_id) es"

definition registry_add :: "nat \<Rightarrow> DeviceId \<Rightarrow> nat \<Rightarrow> Entry list \<Rightarrow> bool \<times> Entry list" where
  "registry_add capacity device_id owner_vm es =
     (case registry_find es device_id of
        Some x \<Rightarrow> (ey_owner_vm x = owner_vm, es)
      | None \<Rightarrow> if device_id = kNoDevice \<or> owner_vm = kNoVm \<or> length es = capacity then (False, es)
          else (True, es @ [entry_new device_id owner_vm]))"

fun registry_load_from :: "nat \<Rightarrow> Assignment list \<Rightarrow> Entry list \<Rightarrow> bool \<times> Entry list" where
  "registry_load_from capacity [] es = (True, es)"
| "registry_load_from capacity (a # as) es =
     (let (ok, es) = registry_add capacity (as_device_id a) (as_vm a) es in
      if ok then registry_load_from capacity as es else (False, []))"

definition registry_load :: "nat \<Rightarrow> Assignment list \<Rightarrow> bool \<times> Entry list" where
  "registry_load capacity as = registry_load_from capacity as []"

definition owner_active :: "Entry list \<Rightarrow> nat \<Rightarrow> u64 \<Rightarrow> bool" where
  "owner_active es vm generation =
     (let mine = filter (\<lambda>x. ey_owner_vm x = vm \<and> ey_state x \<noteq> DvUnavailable) es in
      mine \<noteq> [] \<and> (\<forall>x \<in> set mine. ey_state x = DvActive \<and> generation \<noteq> 0 \<and> ey_generation x = generation))"

definition owner_failed :: "Entry list \<Rightarrow> nat \<Rightarrow> bool" where
  "owner_failed es vm \<longleftrightarrow> (\<exists>x \<in> set es. ey_owner_vm x = vm \<and> ey_state x = DvFailed)"

definition fail_owner :: "nat \<Rightarrow> Entry list \<Rightarrow> Entry list" where
  "fail_owner vm = map (\<lambda>x. if ey_owner_vm x = vm \<and> ey_state x \<noteq> DvUnavailable
     then x\<lparr>ey_state := DvFailed, ey_generation := 0, ey_bus_master_blocked := True\<rparr> else x)"

text \<open>
  The walk over a VM's entries: it stops at the first entry it cannot act on and
  otherwise collects. The verdict \<open>SaSkip\<close> is a completed walk.
\<close>

fun scan_owned :: "(Entry \<Rightarrow> ScanAction) \<Rightarrow> (Entry \<Rightarrow> Entry) \<Rightarrow> nat \<Rightarrow> Entry list \<Rightarrow> (ScanAction \<times> Entry list) \<times> Entry list" where
  "scan_owned classify act vm [] = ((SaSkip, []), [])"
| "scan_owned classify act vm (x # xs) =
     (if ey_owner_vm x \<noteq> vm then let ((v, ds), ys) = scan_owned classify act vm xs in ((v, ds), x # ys)
      else case classify x of
        SaSkip \<Rightarrow> let ((v, ds), ys) = scan_owned classify act vm xs in ((v, ds), x # ys)
      | SaFail \<Rightarrow> ((SaFail, []), x # xs)
      | SaPending \<Rightarrow> ((SaPending, []), x # xs)
      | SaCollect \<Rightarrow> let ((v, ds), ys) = scan_owned classify act vm xs in ((v, act x # ds), act x # ys))"

definition quiescing_action :: "Entry \<Rightarrow> ScanAction" where
  "quiescing_action x = classify_quiescing (ey_state x) (ey_bus_master_blocked x)"

definition quiesce_result :: "ScanAction \<Rightarrow> DmaQuiesceResult" where
  "quiesce_result v = (if v = SaFail then DqFailed else DqPending)"

section \<open>The component's state\<close>

record 'h DmaBoard =
  db_board :: "'h Board"
  db_backends :: "'h Backend list"
  db_capabilities :: "DeviceCapability list"
  db_interrupts :: "DeviceInterrupt list"

record 'h DmaWorld = "'h SmmuWorld" +
  dw_entries :: "Entry list"
  dw_valid :: bool
  dw_panic :: bool

definition kTimeoutMs :: u64 where "kTimeoutMs = 2000"

definition to_spi_trigger :: "InterruptTrigger \<Rightarrow> SpiTrigger" where
  "to_spi_trigger t = (if t = TrLevel then SpiLevel else SpiEdge)"

text \<open>A hardware operation on each device in turn, up to the first refusal.\<close>

fun each_device :: "(DeviceId \<Rightarrow> 'h \<Rightarrow> bool \<times> 'h) \<Rightarrow> DeviceId list \<Rightarrow> 'h \<Rightarrow> bool \<times> 'h" where
  "each_device f [] h = (True, h)"
| "each_device f (d # ds) h = (let (ok, h) = f d h in if ok then each_device f ds h else (False, h))"

section \<open>Backends\<close>

definition backend_for :: "'h DmaBoard \<Rightarrow> DeviceId \<Rightarrow> 'h Backend option" where
  "backend_for b device_id = find_backend (db_backends b) device_id"

definition call_backend :: "'h DmaBoard \<Rightarrow> ('h Backend \<Rightarrow> ('h \<Rightarrow> bool \<times> 'h) option) \<Rightarrow> DeviceId \<Rightarrow> 'h \<Rightarrow> bool \<times> 'h" where
  "call_backend b f device_id h = (case backend_for b device_id of None \<Rightarrow> (False, h) | Some k \<Rightarrow> the (f k) h)"

definition backend_known :: "'h DmaBoard \<Rightarrow> DeviceId \<Rightarrow> bool" where
  "backend_known b device_id \<longleftrightarrow> backend_for b device_id \<noteq> None"

definition backend_present :: "'h DmaBoard \<Rightarrow> DeviceId \<Rightarrow> 'h \<Rightarrow> bool \<times> 'h" where "backend_present b = call_backend b bk_present"
definition backend_configure :: "'h DmaBoard \<Rightarrow> DeviceId \<Rightarrow> 'h \<Rightarrow> bool \<times> 'h" where "backend_configure b = call_backend b bk_configure"
definition backend_quiesce :: "'h DmaBoard \<Rightarrow> DeviceId \<Rightarrow> 'h \<Rightarrow> bool \<times> 'h" where "backend_quiesce b = call_backend b bk_quiesce"
definition backend_drained :: "'h DmaBoard \<Rightarrow> DeviceId \<Rightarrow> 'h \<Rightarrow> bool \<times> 'h" where "backend_drained b = call_backend b bk_drained"
definition backend_resume :: "'h DmaBoard \<Rightarrow> DeviceId \<Rightarrow> 'h \<Rightarrow> bool \<times> 'h" where "backend_resume b = call_backend b bk_resume"

definition backend_reset :: "'h DmaBoard \<Rightarrow> DeviceId \<Rightarrow> 'h \<Rightarrow> bool \<times> 'h" where
  "backend_reset b device_id h = (case backend_for b device_id of
     None \<Rightarrow> (False, h)
   | Some k \<Rightarrow> (case bk_reset_capability k of
       RcNone \<Rightarrow> (False, h)
     | RcQuiesce \<Rightarrow> (True, h)
     | RcFunction \<Rightarrow> (case bk_reset k of None \<Rightarrow> (False, h) | Some f \<Rightarrow> f h)))"

definition backend_start :: "'h DmaBoard \<Rightarrow> DeviceId \<Rightarrow> u64 \<Rightarrow> u64 \<Rightarrow> u64 \<Rightarrow> bool \<Rightarrow> 'h \<Rightarrow> bool \<times> 'h" where
  "backend_start b device_id source destination n to_ram h = (case backend_for b device_id of
     None \<Rightarrow> (False, h) | Some k \<Rightarrow> the (bk_start_dma k) source destination n to_ram h)"

definition backend_clear_interrupts :: "'h DmaBoard \<Rightarrow> DeviceId \<Rightarrow> 'h \<Rightarrow> 'h" where
  "backend_clear_interrupts b device_id h = (case backend_for b device_id of None \<Rightarrow> h | Some k \<Rightarrow> the (bk_clear_interrupts k) h)"

section \<open>Physical interrupts\<close>

definition interrupt_for_device :: "'h DmaBoard \<Rightarrow> DeviceId \<Rightarrow> DeviceInterrupt option" where
  "interrupt_for_device b device_id = find (\<lambda>i. di_device_id i = device_id) (db_interrupts b)"

definition interrupt_for_physical :: "'h DmaBoard \<Rightarrow> u32 \<Rightarrow> DeviceInterrupt option" where
  "interrupt_for_physical b intid = find (\<lambda>i. di_physical_intid i = intid) (db_interrupts b)"

definition mask_interrupt :: "'h DmaBoard \<Rightarrow> DeviceId \<Rightarrow> 'h \<Rightarrow> 'h" where
  "mask_interrupt b device_id h = (case interrupt_for_device b device_id of
     None \<Rightarrow> h | Some i \<Rightarrow> snd (bd_mask_spi (db_board b) (di_physical_intid i) h))"

definition reset_interrupt :: "'h DmaBoard \<Rightarrow> DeviceId \<Rightarrow> 'h \<Rightarrow> 'h" where
  "reset_interrupt b device_id h = (case interrupt_for_device b device_id of
     None \<Rightarrow> h
   | Some i \<Rightarrow> snd (bd_clear_pending_spi (db_board b) (di_physical_intid i)
       (backend_clear_interrupts b device_id (snd (bd_mask_spi (db_board b) (di_physical_intid i) h)))))"

definition prepare_interrupt :: "'h DmaBoard \<Rightarrow> nat \<Rightarrow> DeviceId \<Rightarrow> 'h \<Rightarrow> bool \<times> 'h" where
  "prepare_interrupt b vm device_id h = (case interrupt_for_device b device_id of
     None \<Rightarrow> (True, h)
   | Some i \<Rightarrow> let h = reset_interrupt b device_id h; guests = bd_guests (db_board b) in
       if vm < length guests
       then bd_configure_spi (db_board b) (di_physical_intid i) (unat (gd_cpu (guests ! vm) ! 0)) (to_spi_trigger (di_trigger i)) h
       else (False, h))"

section \<open>Failing a VM closed\<close>

text \<open>The devices the VM still holds are those the walk of \<open>fail_vm\<close> collects.\<close>

definition fail_vm :: "'h DmaBoard \<Rightarrow> nat \<Rightarrow> ('h, 'z) DmaWorld_scheme \<Rightarrow> unit option \<times> ('h, 'z) DmaWorld_scheme" where
  "fail_vm b vm w =
     (let ((v, ds), _) = scan_owned (\<lambda>x. if ey_state x = DvUnavailable then SaSkip else SaCollect) id vm (dw_entries w);
          w = w\<lparr>dw_entries := fail_owner vm (dw_entries w)\<rparr>;
          w = upd_hw_smmu (fold (\<lambda>d h. snd (backend_quiesce b d (reset_interrupt b d h))) (map ey_device_id ds)) w;
          (r, w) = quarantine_vm (db_board b) vm w in
      (map_option (\<lambda>_. ()) r, w))"

text \<open>Fail the VM, then answer.\<close>

definition fail_with :: "'h DmaBoard \<Rightarrow> nat \<Rightarrow> 'r \<Rightarrow> ('h, 'z) DmaWorld_scheme \<Rightarrow> 'r option \<times> ('h, 'z) DmaWorld_scheme" where
  "fail_with b vm r w = (let (x, w) = fail_vm b vm w in (map_option (\<lambda>_. r) x, w))"

section \<open>Quiesce\<close>

definition complete_quiesce :: "'h DmaBoard \<Rightarrow> nat \<Rightarrow> ('h, 'z) DmaWorld_scheme \<Rightarrow> DmaQuiesceResult option \<times> ('h, 'z) DmaWorld_scheme" where
  "complete_quiesce b vm w =
     (let ((v, ds), _) = scan_owned quiescing_action id vm (dw_entries w); ids = map ey_device_id ds in
      if v \<noteq> SaSkip then (Some (quiesce_result v), w)
      else let (drained, w) = on_hw (each_device (backend_drained b) ids) w in
        if \<not> drained then (Some DqPending, w)
        else let (was_reset, w) = on_hw (each_device (backend_reset b) ids) w in
          if \<not> was_reset then fail_with b vm DqFailed w
          else let ((v, ds), es) = scan_owned quiescing_action (\<lambda>x. x\<lparr>ey_state := DvDetaching\<rparr>) vm (dw_entries w);
                   w = w\<lparr>dw_entries := es\<rparr> in
            if v \<noteq> SaSkip then (Some (quiesce_result v), w)
            else if ds = [] then (Some DqComplete, w)
            else case detach_vm (db_board b) vm w of
              (None, w) \<Rightarrow> (None, w)
            | (Some False, w) \<Rightarrow> fail_with b vm DqFailed w
            | (Some True, w) \<Rightarrow> (case poll_events (db_board b) w of
                (None, w) \<Rightarrow> (None, w)
              | (Some _, w) \<Rightarrow> (Some DqComplete,
                  w\<lparr>dw_entries := map (\<lambda>x. if ey_owner_vm x = vm \<and> ey_state x = DvDetaching
                      then x\<lparr>ey_state := DvQuiesced, ey_generation := 0\<rparr> else x) (dw_entries w)\<rparr>)))"

text \<open>The loop of \<open>begin_quiesce\<close> over the collected devices, up to the first that keeps mastering the bus.\<close>

fun block_devices :: "'h DmaBoard \<Rightarrow> DeviceId list \<Rightarrow> ('h, 'z) DmaWorld_scheme \<Rightarrow> bool \<times> ('h, 'z) DmaWorld_scheme" where
  "block_devices b [] w = (True, w)"
| "block_devices b (d # ds) w =
     (let (ok, w) = on_hw (\<lambda>h. backend_quiesce b d (reset_interrupt b d h)) w in
      if \<not> ok then (False, w)
      else block_devices b ds (w\<lparr>dw_entries := map (\<lambda>x. if ey_device_id x = d \<and> ey_state x = DvQuiescing
             then x\<lparr>ey_bus_master_blocked := True\<rparr> else x) (dw_entries w)\<rparr>))"

definition begin_quiesce :: "'h DmaBoard \<Rightarrow> nat \<Rightarrow> ('h, 'z) DmaWorld_scheme \<Rightarrow> DmaQuiesceResult option \<times> ('h, 'z) DmaWorld_scheme" where
  "begin_quiesce b vm w =
     (let w = upd_hw_smmu (fold (\<lambda>a h. if as_vm a = vm then mask_interrupt b (as_device_id a) h else h) (bd_assignments (db_board b))) w in
      if \<not> dw_valid w then (Some DqFailed, w)
      else let deadline = bd_now (db_board b) (sw_hw w) + tp_ticks (ms_to_ticks (bd_hz (db_board b)) kTimeoutMs);
               pending = (\<exists>x \<in> set (dw_entries w). ey_owner_vm x = vm \<and> classify_begin_quiesce (ey_state x) = SaPending);
               ((v, ds), es) = scan_owned (\<lambda>x. let a = classify_begin_quiesce (ey_state x) in if a = SaPending then SaSkip else a)
                 (\<lambda>x. x\<lparr>ey_state := DvQuiescing, ey_deadline := deadline, ey_bus_master_blocked := False\<rparr>) vm (dw_entries w);
               w = w\<lparr>dw_entries := es\<rparr> in
        if v \<noteq> SaSkip then (Some DqFailed, w)
        else let (ok, w) = block_devices b (map ey_device_id ds) w in
          if \<not> ok then fail_with b vm DqFailed w
          else if pending \<or> ds \<noteq> [] then complete_quiesce b vm w else (Some DqComplete, w))"

definition poll_quiesce :: "'h DmaBoard \<Rightarrow> nat \<Rightarrow> ('h, 'z) DmaWorld_scheme \<Rightarrow> DmaQuiesceResult option \<times> ('h, 'z) DmaWorld_scheme" where
  "poll_quiesce b vm w =
     (if \<not> dw_valid w then (Some DqFailed, w)
      else let ((v, ds), _) = scan_owned quiescing_action id vm (dw_entries w) in
        if v \<noteq> SaSkip then (Some (quiesce_result v), w)
        else if ds = [] then (Some DqComplete, w)
        else let (drained, w) = on_hw (each_device (backend_drained b) (map ey_device_id ds)) w in
          if \<not> drained then
            (if bd_now (db_board b) (sw_hw w) < fold min (map ey_deadline ds) (- 1) then (Some DqPending, w)
             else fail_with b vm DqFailed w)
          else complete_quiesce b vm w)"

section \<open>Resume\<close>

fun ready_devices :: "'h DmaBoard \<Rightarrow> nat \<Rightarrow> DeviceId list \<Rightarrow> 'h \<Rightarrow> bool \<times> 'h" where
  "ready_devices b vm [] h = (True, h)"
| "ready_devices b vm (d # ds) h =
     (let (ok, h) = prepare_interrupt b vm d h in
      if \<not> ok then (False, h)
      else let (ok, h) = backend_resume b d h in if ok then ready_devices b vm ds h else (False, h))"

definition unmask_device :: "'h DmaBoard \<Rightarrow> DeviceId \<Rightarrow> 'h \<Rightarrow> bool \<times> 'h" where
  "unmask_device b d h = (case interrupt_for_device b d of None \<Rightarrow> (True, h) | Some i \<Rightarrow> bd_unmask_spi (db_board b) (di_physical_intid i) h)"

definition resume_vm :: "'h DmaBoard \<Rightarrow> nat \<Rightarrow> u64 \<Rightarrow> ('h, 'z) DmaWorld_scheme \<Rightarrow> bool option \<times> ('h, 'z) DmaWorld_scheme" where
  "resume_vm b vm generation w =
     (if \<not> dw_valid w \<or> generation = 0 \<or> owner_failed (dw_entries w) vm then (Some False, w)
      else if owner_active (dw_entries w) vm generation then (Some True, w)
      else let ((v, ds), es) = scan_owned (\<lambda>x. classify_resume (ey_state x)) (\<lambda>x. x\<lparr>ey_state := DvResuming\<rparr>) vm (dw_entries w);
               w = w\<lparr>dw_entries := es\<rparr>; ids = map ey_device_id ds in
        if v \<noteq> SaSkip then (Some False, w)
        else if ds = [] then (Some True, w)
        else case poll_events (db_board b) w of
          (None, w) \<Rightarrow> (None, w)
        | (Some _, w) \<Rightarrow> (case attach_vm (db_board b) vm generation w of
            (None, w) \<Rightarrow> (None, w)
          | (Some False, w) \<Rightarrow> fail_with b vm False w
          | (Some True, w) \<Rightarrow>
              (let (ok, w) = on_hw (ready_devices b vm ids) w in
               if \<not> ok then fail_with b vm False w
               else let w = w\<lparr>dw_entries := map (\<lambda>x. if ey_owner_vm x = vm \<and> ey_state x = DvResuming
                          then x\<lparr>ey_generation := generation, ey_state := DvActive, ey_bus_master_blocked := False\<rparr> else x) (dw_entries w)\<rparr>;
                        (ok, w) = on_hw (each_device (unmask_device b) ids) w in
                 if \<not> ok then fail_with b vm False w else (Some True, w))))"

section \<open>The remaining calls\<close>

definition dma_can_start_vm :: "nat \<Rightarrow> ('h, 'z) DmaWorld_scheme \<Rightarrow> bool" where
  "dma_can_start_vm vm w \<longleftrightarrow> dw_valid w \<and> \<not> owner_failed (dw_entries w) vm"

definition dma_is_active :: "nat \<Rightarrow> u64 \<Rightarrow> ('h, 'z) DmaWorld_scheme \<Rightarrow> bool" where
  "dma_is_active vm generation w \<longleftrightarrow> dw_valid w \<and> owner_active (dw_entries w) vm generation"

definition start_dma ::
  "'h DmaBoard \<Rightarrow> DeviceId \<Rightarrow> nat \<Rightarrow> u64 \<Rightarrow> u64 \<Rightarrow> u64 \<Rightarrow> u64 \<Rightarrow> bool \<Rightarrow> ('h, 'z) DmaWorld_scheme \<Rightarrow> bool \<times> ('h, 'z) DmaWorld_scheme" where
  "start_dma b device_id vm generation source destination n to_ram w =
     (case registry_find (dw_entries w) device_id of
        None \<Rightarrow> (False, w)
      | Some x \<Rightarrow> if dw_valid w \<and> ey_owner_vm x = vm \<and> ey_state x = DvActive \<and> generation \<noteq> 0 \<and> ey_generation x = generation
          then on_hw (backend_start b device_id source destination n to_ram) w else (False, w))"

definition probe_device :: "'h DmaBoard \<Rightarrow> Entry \<Rightarrow> 'h \<Rightarrow> DevState \<times> 'h" where
  "probe_device b x h =
     (let d = ey_device_id x; (present, h) = backend_present b d h in
      if \<not> present then (if backend_known b d then DvUnavailable else DvFailed, h)
      else if bk_reset_capability (the (backend_for b d)) = RcNone then (DvFailed, h)
      else let (ok, h) = backend_configure b d h in
        if \<not> ok then (DvFailed, h)
        else let (ok, h) = prepare_interrupt b (ey_owner_vm x) d h in
          (if ok then DvQuiesced else DvFailed, h))"

fun probe_entries :: "'h DmaBoard \<Rightarrow> Entry list \<Rightarrow> 'h \<Rightarrow> Entry list \<times> 'h" where
  "probe_entries b [] h = ([], h)"
| "probe_entries b (x # xs) h =
     (let (s, h) = probe_device b x h; (ys, h) = probe_entries b xs h in
      (x\<lparr>ey_state := s, ey_bus_master_blocked := (s = DvQuiesced)\<rparr> # ys, h))"

definition dma_init :: "'h DmaBoard \<Rightarrow> ('h, 'z) DmaWorld_scheme \<Rightarrow> ('h, 'z) DmaWorld_scheme" where
  "dma_init b w =
     (let policy = validate_backend_policy (bd_assignments (db_board b)) (db_capabilities b) (db_backends b) kMaxDevices;
          (loaded, es) = (if bp_ok policy then registry_load kMaxDevices (bd_assignments (db_board b)) else (False, dw_entries w));
          w = w\<lparr>dw_entries := es, dw_valid := bp_ok policy \<and> loaded\<rparr> in
      if \<not> (bp_ok policy \<and> loaded) then w
      else let (es, h) = probe_entries b es (sw_hw w) in w\<lparr>dw_entries := es, sw_hw := h\<rparr>)"

text \<open>
  The physical interrupt: masked, then posted to the owner while it is active. \<open>post\<close>
  is \<open>vgic::post_spi_tracked\<close>, whether it took the interrupt.
\<close>

definition dma_handle_irq ::
  "'h DmaBoard \<Rightarrow> (nat \<Rightarrow> u32 \<Rightarrow> u32 \<Rightarrow> u64 \<Rightarrow> bool) \<Rightarrow> u32 \<Rightarrow> bool \<Rightarrow> ('h, 'z) DmaWorld_scheme \<Rightarrow> bool option \<times> ('h, 'z) DmaWorld_scheme" where
  "dma_handle_irq b post intid handled w =
     (if handled then (Some True, w)
      else case interrupt_for_physical b intid of
        None \<Rightarrow> (Some False, w)
      | Some i \<Rightarrow>
          (let w = upd_hw_smmu (\<lambda>h. snd (bd_mask_spi (db_board b) (di_physical_intid i) h)) w in
           case registry_find (dw_entries w) (di_device_id i) of
             None \<Rightarrow> (Some True, w)
           | Some x \<Rightarrow>
               if \<not> (dw_valid w \<and> ey_state x = DvActive) \<or> ey_owner_vm x = kNoVm then (Some True, w)
               else if post (ey_owner_vm x) (di_virtual_intid i) (di_physical_intid i) (ey_generation x) then (Some True, w)
               else fail_with b (ey_owner_vm x) True w))"

text \<open>The guest's EOI of a tracked interrupt rearms the device of the current generation.\<close>

definition dma_handle_virtual_eoi ::
  "'h DmaBoard \<Rightarrow> nat \<Rightarrow> u32 \<Rightarrow> EoiToken \<Rightarrow> ('h, 'z) DmaWorld_scheme \<Rightarrow> bool option \<times> ('h, 'z) DmaWorld_scheme" where
  "dma_handle_virtual_eoi b slot virtual_intid token w =
     (case find (\<lambda>i. di_physical_intid i = et_physical token \<and> di_virtual_intid i = virtual_intid) (db_interrupts b) of
        None \<Rightarrow> (Some False, w)
      | Some i \<Rightarrow>
          (let vm = vm_of slot;
               current = (case registry_find (dw_entries w) (di_device_id i) of None \<Rightarrow> False
                 | Some x \<Rightarrow> dw_valid w \<and> ey_owner_vm x = vm \<and> ey_state x = DvActive \<and> ey_generation x = et_generation token) in
           if \<not> current then (Some True, w)
           else let w = upd_hw_smmu (\<lambda>h. snd (bd_clear_pending_spi (db_board b) (di_physical_intid i) h)) w;
                    (ok, w) = on_hw (bd_unmask_spi (db_board b) (di_physical_intid i)) w in
             if ok then (Some True, w) else fail_with b vm True w))"

definition dma_handle_quiesce ::
  "'h DmaBoard \<Rightarrow> DmaQuiesceOp \<Rightarrow> nat \<Rightarrow> u64 \<Rightarrow> ('h, 'z) DmaWorld_scheme \<Rightarrow> DmaQuiesceResult option \<times> ('h, 'z) DmaWorld_scheme" where
  "dma_handle_quiesce b op vm generation w = (case op of
     DqBegin \<Rightarrow> begin_quiesce b vm w
   | DqPoll \<Rightarrow> poll_quiesce b vm w
   | DqResume \<Rightarrow> (let (r, w) = resume_vm b vm generation w in (map_option (\<lambda>ok. if ok then DqComplete else DqFailed) r, w))
   | DqCanStart \<Rightarrow> (Some (if dma_can_start_vm vm w then DqComplete else DqFailed), w))"

end
