(* ===== verification/NovaDmaSafe.thy ===== *)
theory NovaDmaSafe
  imports NovaDmaDevice
begin

text \<open>
  The device component keeps the SMMU and its registry together: a stream is attached
  only while the registry holds a device of its VM, a drain that reports completion
  leaves every stream of the VM closed, and only a resume opens one.
\<close>

section \<open>What the registry holds\<close>

definition dev_live :: "DevState \<Rightarrow> bool" where
  "dev_live s \<longleftrightarrow> s = DvQuiescing \<or> s = DvDetaching \<or> s = DvResuming \<or> s = DvActive"

definition held :: "Entry list \<Rightarrow> nat \<Rightarrow> bool" where
  "held es vm \<longleftrightarrow> (\<exists>x \<in> set es. ey_owner_vm x = vm \<and> dev_live (ey_state x))"

definition live_ok :: "'h Board \<Rightarrow> ('h, 'z) DmaWorld_scheme \<Rightarrow> bool" where
  "live_ok b w \<longleftrightarrow> domains_ok b (domains w) \<and> tied (domains w) \<and> cr_ready (sw_commands w)
     \<and> (\<forall>sid < kStreamCount. attached (domains w) sid \<longrightarrow> owner (domains w) sid \<noteq> kNoVm \<and> held (dw_entries w) (owner (domains w) sid))"

lemma live_okD:
  assumes "live_ok b w"
  shows "domains_ok b (domains w)" "tied (domains w)" "cr_ready (sw_commands w)"
    "sid < kStreamCount \<Longrightarrow> attached (domains w) sid \<Longrightarrow> owner (domains w) sid \<noteq> kNoVm \<and> held (dw_entries w) (owner (domains w) sid)"
  using assms by (simp_all add: live_ok_def)

lemma not_held_idle: "live_ok b w \<Longrightarrow> \<not> held (dw_entries w) vm \<Longrightarrow> idle_vm vm (domains w)"
  using live_okD(4) by (auto simp: idle_vm_def)

text \<open>
  A call with its answer: the domains stay sound, a VM outside \<open>V\<close> that is closed stays
  closed, and unless the call panicked the whole invariant holds after it.
\<close>

definition dma_res :: "'h Board \<Rightarrow> nat set \<Rightarrow> ('h, 'z) DmaWorld_scheme \<Rightarrow> 'r option \<times> ('h, 'z) DmaWorld_scheme \<Rightarrow> bool" where
  "dma_res b V w p \<longleftrightarrow> domains_ok b (domains (snd p)) \<and> (\<forall>v. v \<notin> V \<longrightarrow> closed_vm v (domains w) \<longrightarrow> closed_vm v (domains (snd p)))
     \<and> DmaWorld.more (snd p) = DmaWorld.more w \<and> dw_panic (snd p) = dw_panic w \<and> (fst p \<noteq> None \<longrightarrow> live_ok b (snd p))"

lemma dma_resI:
  assumes "domains_ok b (domains w')" "\<And>v. v \<notin> V \<Longrightarrow> closed_vm v (domains w) \<Longrightarrow> closed_vm v (domains w')"
    "DmaWorld.more w' = DmaWorld.more w" "dw_panic w' = dw_panic w" "r \<noteq> None \<Longrightarrow> live_ok b w'"
  shows "dma_res b V w (r, w')"
  using assms by (simp add: dma_res_def)

lemma dma_res_from:
  assumes "dma_res b V w' p" "\<And>v. v \<notin> V \<Longrightarrow> closed_vm v (domains w) \<Longrightarrow> closed_vm v (domains w')"
    "DmaWorld.more w' = DmaWorld.more w" "dw_panic w' = dw_panic w"
  shows "dma_res b V w p"
  using assms by (simp add: dma_res_def)

lemma dma_res_live: "live_ok b w \<Longrightarrow> dma_res b V w (r, w)"
  by (simp add: dma_res_def live_ok_def)

lemma more_fields:
  assumes "SmmuWorld.more w' = SmmuWorld.more (w :: ('h, 'z) DmaWorld_scheme)"
  shows "dw_entries w' = dw_entries w" "dw_valid w' = dw_valid w" "dw_panic w' = dw_panic w" "DmaWorld.more w' = DmaWorld.more w"
  using assms by (cases w, cases w', simp)+

lemma live_close:
  assumes "live_ok b w" "smmu_close b V w w'" "dw_entries w' = dw_entries w"
  shows "live_ok b w'"
proof -
  note op = smmu_closeD(1) [OF assms(2)]
  have "attached (domains w) sid \<and> owner (domains w') sid = owner (domains w) sid" if "sid < kStreamCount" "attached (domains w') sid" for sid
    using that smmu_closeD(2) [OF assms(2)] smmu_opD(2) [OF op] by (auto simp: closes_def touches_def)
  then show ?thesis
    using smmu_opD(1,3) [OF op] smmu_closeD(3) [OF assms(2)] live_okD [OF assms(1)] assms(3) unfolding live_ok_def by auto
qed

lemma close_closed: "smmu_close b V w w' \<Longrightarrow> closed_vm v (domains w) \<Longrightarrow> closed_vm v (domains w')"
  using closes_keep(1) smmu_closeD(1,2) smmu_opD(2) by blast

text \<open>Hardware accesses and registry updates.\<close>

lemma dw_hw [simp]:
  "dw_entries (upd_hw_smmu f w) = dw_entries w" "dw_entries (snd (on_hw g w)) = dw_entries w"
  "dw_valid (upd_hw_smmu f w) = dw_valid w" "dw_valid (snd (on_hw g w)) = dw_valid w"
  "dw_panic (upd_hw_smmu f w) = dw_panic w" "dw_panic (snd (on_hw g w)) = dw_panic w"
  "DmaWorld.more (upd_hw_smmu f w) = DmaWorld.more w" "DmaWorld.more (snd (on_hw g w)) = DmaWorld.more w"
  by (simp_all add: smmu_steps)

lemma live_hw [simp]: "live_ok b (upd_hw_smmu f w) = live_ok b w" "live_ok b (snd (on_hw g w)) = live_ok b w"
  by (simp_all add: live_ok_def)

lemma domains_entries [simp]: "domains (w\<lparr>dw_entries := es\<rparr>) = domains w"
  by (simp add: domains_def)

lemma live_entries:
  assumes "live_ok b w" "\<And>vm. held (dw_entries w) vm \<Longrightarrow> idle_vm vm (domains w) \<or> held es vm"
  shows "live_ok b (w\<lparr>dw_entries := es\<rparr>)"
  using assms live_okD [OF assms(1)] unfolding live_ok_def by (auto simp: idle_vm_def)

section \<open>The walk\<close>

lemma scan_cases:
  obtains v ds es' where "scan_owned classify act vm es = ((v, ds), es')"
  by (cases "scan_owned classify act vm es"; cases "fst (scan_owned classify act vm es)") auto

lemma held_simps [simp]: "\<not> held [] u" "held (x # xs) u \<longleftrightarrow> ey_owner_vm x = u \<and> dev_live (ey_state x) \<or> held xs u"
  by (auto simp: held_def)

lemma scan_entries:
  assumes "scan_owned classify act vm es = ((v, ds), es')" "\<And>x. ey_owner_vm (act x) = ey_owner_vm x \<and> dev_live (ey_state (act x))"
  shows "held es u \<Longrightarrow> held es' u" "ds \<noteq> [] \<Longrightarrow> held es' vm"
proof -
  have "(held es u \<longrightarrow> held es' u) \<and> (ds \<noteq> [] \<longrightarrow> held es' vm)"
    using assms(1)
  proof (induction es arbitrary: v ds es')
    case (Cons x xs)
    obtain v' ds' ys where r: "scan_owned classify act vm xs = ((v', ds'), ys)" by (rule scan_cases)
    show ?case using Cons.prems Cons.IH [OF r] assms(2) [of x] by (auto simp: r split: if_splits ScanAction.splits)
  qed simp
  then show "held es u \<Longrightarrow> held es' u" "ds \<noteq> [] \<Longrightarrow> held es' vm" by simp_all
qed

lemma scan_none:
  assumes "scan_owned classify act vm es = ((SaSkip, []), es')"
  shows "es' = es \<and> (\<forall>x \<in> set es. ey_owner_vm x = vm \<longrightarrow> classify x = SaSkip)"
  using assms by (induction es arbitrary: es') (auto simp: Let_def split: if_splits ScanAction.splits prod.splits)

lemma skip_states: "quiescing_action x = SaSkip \<Longrightarrow> \<not> dev_live (ey_state x)"
  "classify_begin_quiesce s = SaSkip \<Longrightarrow> \<not> dev_live s"
  by (cases "ey_state x"; simp add: quiescing_action_def dev_live_def split: if_splits) (cases s; simp add: dev_live_def)

lemma scan_none_idle:
  assumes "scan_owned quiescing_action act vm (dw_entries w) = ((SaSkip, []), es')" "live_ok b w"
  shows "es' = dw_entries w" "closed_vm vm (domains w)"
proof -
  note s = scan_none [OF assms(1)]
  then show "es' = dw_entries w" by simp
  have "\<not> held (dw_entries w) vm" using s skip_states(1) by (auto simp: held_def)
  then show "closed_vm vm (domains w)" by (rule idle_closed [OF live_okD(2) [OF assms(2)] not_held_idle [OF assms(2)]])
qed

section \<open>Failing closed\<close>

lemma held_fail: "u \<noteq> vm \<Longrightarrow> held es u \<Longrightarrow> held (fail_owner vm es) u"
  unfolding held_def fail_owner_def by force

lemma fail_vm_ok:
  assumes "live_ok (db_board b) w"
  shows "dma_res (db_board b) {} w (fail_vm b vm w)" "fst (fail_vm b vm w) \<noteq> None \<Longrightarrow> closed_vm vm (domains (snd (fail_vm b vm w)))"
proof -
  let ?b = "db_board b"
  define w1 where "w1 = upd_hw_smmu (fold (\<lambda>d h. snd (backend_quiesce b d (reset_interrupt b d h)))
      (map ey_device_id (snd (fst (scan_owned (\<lambda>x. if ey_state x = DvUnavailable then SaSkip else SaCollect) id vm (dw_entries w))))))
      (w\<lparr>dw_entries := fail_owner vm (dw_entries w)\<rparr>)"
  have d1: "domains w1 = domains w" "sw_commands w1 = sw_commands w" "dw_entries w1 = fail_owner vm (dw_entries w)"
    "dw_panic w1 = dw_panic w" "DmaWorld.more w1 = DmaWorld.more w" by (simp_all add: w1_def)
  have f: "fail_vm b vm w = (let (r, w) = quarantine_vm ?b vm w1 in (map_option (\<lambda>_. ()) r, w))"
    by (simp add: fail_vm_def w1_def case_prod_unfold Let_def)
  obtain r w2 where q: "quarantine_vm ?b vm w1 = (r, w2)" by fastforce
  note l = live_okD [OF assms]
  have c: "smmu_close ?b {vm} w1 w2 \<and> (r \<noteq> None \<longrightarrow> idle_vm vm (domains w2))"
  proof (cases "vm = kNoVm")
    case True
    have "dm_count (domains w) \<le> vm" using domains_okD(1) [OF l(1)] by (simp add: True sizes_ok_def kNoVm_def kMaxGuests_def)
    then have "w2 = w1" using q by (simp add: quarantine_vm_def sw_domains d1)
    moreover have "idle_vm vm (domains w)" using l(4) by (auto simp: idle_vm_def True)
    ultimately show ?thesis using close_refl [of ?b w1] l(1) by (simp add: d1)
  next
    case False
    show ?thesis using quarantine_vm_ok [of ?b w1 vm r w2] l q False by (simp add: d1)
  qed
  note op = smmu_closeD(1) [OF conjunct1 [OF c]]
  note mf = more_fields [OF smmu_opD(4) [OF op]]
  have "live_ok ?b w2" if "r \<noteq> None"
  proof -
    have i: "idle_vm vm (domains w2)" using c that by simp
    have "owner (domains w2) sid \<noteq> kNoVm \<and> held (dw_entries w2) (owner (domains w2) sid)"
      if s: "sid < kStreamCount" "attached (domains w2) sid" for sid
    proof -
      have a: "attached (domains w) sid" "owner (domains w2) sid = owner (domains w) sid"
        using s smmu_closeD(2) [OF conjunct1 [OF c]] smmu_opD(2) [OF op] by (auto simp: closes_def touches_def d1)
      have "owner (domains w) sid \<noteq> vm" using i s a(2) by (auto simp: idle_vm_def)
      then show ?thesis using l(4) [OF s(1) a(1)] held_fail a(2) mf(1) by (simp add: d1)
    qed
    then show ?thesis using smmu_opD(1,3) [OF op] smmu_closeD(3) [OF conjunct1 [OF c]] l(2,3) by (simp add: live_ok_def d1)
  qed
  then show "dma_res ?b {} w (fail_vm b vm w)"
    unfolding f using smmu_opD(1) [OF op] close_closed [OF conjunct1 [OF c]] mf(3,4)
    by (auto simp: dma_res_def q d1)
  show "closed_vm vm (domains (snd (fail_vm b vm w)))" if "fst (fail_vm b vm w) \<noteq> None"
    using that idle_closed [OF smmu_closeD(3) [OF conjunct1 [OF c]]] c l(2) unfolding f by (simp add: q d1)
qed

lemma fail_with_ok:
  assumes "live_ok (db_board b) w"
  shows "dma_res (db_board b) V w (fail_with b vm r w)" "fst (fail_with b vm r w) = Some r \<or> fst (fail_with b vm r w) = None"
  using fail_vm_ok(1) [OF assms, of vm] by (auto simp: fail_with_def dma_res_def case_prod_unfold Let_def)

section \<open>Quiesce\<close>

lemma dma_res_step:
  assumes "dma_res b V w' p" "domains w' = domains w" "DmaWorld.more w' = DmaWorld.more w" "dw_panic w' = dw_panic w"
  shows "dma_res b V w p"
  by (rule dma_res_from [OF assms(1)]) (simp_all add: assms)

lemma poll_ok:
  assumes "live_ok b w" "poll_events b w = (r, w')"
  shows "smmu_close b UNIV w w'" "live_ok b w'" "dw_entries w' = dw_entries w" "dw_valid w' = dw_valid w" "dw_panic w' = dw_panic w"
    "DmaWorld.more w' = DmaWorld.more w"
proof -
  show c: "smmu_close b UNIV w w'" using faults_ok(1) [OF live_okD(1,2) [OF assms(1)]] assms(2) by (metis snd_conv)
  show e: "dw_entries w' = dw_entries w" "dw_valid w' = dw_valid w" "dw_panic w' = dw_panic w" "DmaWorld.more w' = DmaWorld.more w"
    using more_fields [OF smmu_opD(4) [OF smmu_closeD(1) [OF c]]] by simp_all
  show "live_ok b w'" by (rule live_close [OF assms(1) c e(1)])
qed

lemma detach_ok:
  assumes "live_ok b w" "detach_vm b vm w = (r, w')"
  shows "smmu_close b {vm} w w'" "live_ok b w'" "dw_entries w' = dw_entries w" "dw_panic w' = dw_panic w"
    "DmaWorld.more w' = DmaWorld.more w" "r = Some True \<Longrightarrow> idle_vm vm (domains w')"
proof -
  note d = detach_vm_ok [OF live_okD(1,2) [OF assms(1)] assms(2)]
  show c: "smmu_close b {vm} w w'" by (rule d(1))
  show e: "dw_entries w' = dw_entries w" "dw_panic w' = dw_panic w" "DmaWorld.more w' = DmaWorld.more w"
    using more_fields [OF smmu_opD(4) [OF smmu_closeD(1) [OF c]]] by simp_all
  show "live_ok b w'" by (rule live_close [OF assms(1) c e(1)])
  show "r = Some True \<Longrightarrow> idle_vm vm (domains w')" by (rule d(2))
qed

definition drained_vm :: "nat \<Rightarrow> DmaQuiesceResult option \<times> ('h, 'z) DmaWorld_scheme \<Rightarrow> bool" where
  "drained_vm vm p \<longleftrightarrow> (fst p = Some DqComplete \<longrightarrow> closed_vm vm (domains (snd p)))"

lemma drained_simps [simp]:
  "drained_vm vm (None, w)" "drained_vm vm (Some DqPending, w)" "drained_vm vm (Some DqFailed, w)"
  "drained_vm vm (Some DqComplete, w) \<longleftrightarrow> closed_vm vm (domains w)"
  by (simp_all add: drained_vm_def)

lemma fail_not_drained [simp]: "drained_vm vm (fail_with b vm DqFailed w)"
  by (simp add: drained_vm_def fail_with_def case_prod_unfold Let_def)

lemma quiesce_not_complete [simp]: "drained_vm vm (Some (quiesce_result v), w)"
  by (simp add: drained_vm_def quiesce_result_def)

lemma complete_quiesce_ok:
  assumes l: "live_ok (db_board b) w"
  shows "dma_res (db_board b) {} w (complete_quiesce b vm w) \<and> drained_vm vm (complete_quiesce b vm w)"
proof -
  let ?b = "db_board b"
  obtain v ds es0 where s0: "scan_owned quiescing_action id vm (dw_entries w) = ((v, ds), es0)"  by (rule scan_cases)
  let ?ids = "map ey_device_id ds"
  let ?d = "on_hw (each_device (backend_drained b) ?ids) w" let ?r = "on_hw (each_device (backend_reset b) ?ids) (snd ?d)"
  obtain v' ds' es where s1: "scan_owned quiescing_action (\<lambda>x. x\<lparr>ey_state := DvDetaching\<rparr>) vm (dw_entries w) = ((v', ds'), es)" by (rule scan_cases)
  let ?w = "(snd ?r)\<lparr>dw_entries := es\<rparr>"
  have act: "ey_owner_vm (x\<lparr>ey_state := DvDetaching\<rparr>) = ey_owner_vm x \<and> dev_live (ey_state (x\<lparr>ey_state := DvDetaching\<rparr>))" for x
    by (simp add: dev_live_def)
  have lw: "live_ok ?b ?w" by (rule live_entries) (use l scan_entries(1) [OF s1 act] in simp_all)
  have at: "domains ?w = domains w" "DmaWorld.more ?w = DmaWorld.more w" "dw_panic ?w = dw_panic w" by simp_all
  note ret = dma_res_step [OF _ at]
  have fails: "dma_res ?b {} w (fail_with b vm DqFailed u)" if "live_ok ?b u" "domains u = domains w" "DmaWorld.more u = DmaWorld.more w" "dw_panic u = dw_panic w"
    for u :: "('a, 'b) DmaWorld_scheme" by (rule dma_res_step [OF fail_with_ok(1) [OF that(1)] that(2-4)])
  show ?thesis
  proof (cases "v \<noteq> SaSkip \<or> \<not> fst ?d \<or> \<not> fst ?r")
    case True
    then have "complete_quiesce b vm w = (Some (quiesce_result v), w) \<or> complete_quiesce b vm w = (Some DqPending, snd ?d)
        \<or> complete_quiesce b vm w = fail_with b vm DqFailed (snd ?r)"
      by (simp add: complete_quiesce_def s0 case_prod_unfold Let_def)
    moreover have "dma_res ?b {} w (Some DqPending, snd ?d)" by (rule dma_res_step [OF dma_res_live]) (simp_all add: l)
    ultimately show ?thesis
      using fails [of "snd ?r"] l dma_res_live [OF l] by auto
  next
    case False
    then have c: "complete_quiesce b vm w = (if v' \<noteq> SaSkip then (Some (quiesce_result v'), ?w) else if ds' = [] then (Some DqComplete, ?w)
        else case detach_vm ?b vm ?w of (None, w) \<Rightarrow> (None, w) | (Some False, w) \<Rightarrow> fail_with b vm DqFailed w
        | (Some True, w) \<Rightarrow> (case poll_events ?b w of (None, w) \<Rightarrow> (None, w) | (Some _, w) \<Rightarrow> (Some DqComplete,
            w\<lparr>dw_entries := map (\<lambda>x. if ey_owner_vm x = vm \<and> ey_state x = DvDetaching
               then x\<lparr>ey_state := DvQuiesced, ey_generation := 0\<rparr> else x) (dw_entries w)\<rparr>)))"
      by (simp add: complete_quiesce_def s0 s1 case_prod_unfold Let_def)
    show ?thesis
    proof (cases "v' \<noteq> SaSkip")
      case True
      then show ?thesis using c ret [OF dma_res_live [OF lw]] by simp
    next
      case skip: False
      show ?thesis
      proof (cases "ds' = []")
        case True
        have "closed_vm vm (domains w)" by (rule scan_none_idle(2) [OF _ l]) (use s1 skip True in simp)
        then show ?thesis using c skip True ret [OF dma_res_live [OF lw]] by simp
      next
        case ne: False
        obtain r wd where d: "detach_vm ?b vm ?w = (r, wd)" by (metis prod.collapse)
        note dt = detach_ok [OF lw d]
        have dclose: "closed_vm u (domains wd)" if "closed_vm u (domains w)" for u using close_closed [OF dt(1), of u] that by simp
        consider "r = None" | "r = Some False" | "r = Some True" by (cases r) auto
        then show ?thesis
        proof cases
          case 1
          have "dma_res ?b {} w (None :: DmaQuiesceResult option, wd)"
            by (rule dma_resI) (use smmu_opD(1) [OF smmu_closeD(1) [OF dt(1)]] dclose dt(4,5) in simp_all)
          then show ?thesis using c skip ne d 1 by simp
        next
          case 2
          have "dma_res ?b {} w (fail_with b vm DqFailed wd)"
            by (rule dma_res_from [OF fail_with_ok(1) [OF dt(2)]]) (use dclose dt(4,5) in simp_all)
          then show ?thesis using c skip ne d 2 by simp
        next
          case 3
          obtain p wp where pl: "poll_events ?b wd = (p, wp)" by (metis prod.collapse)
          note po = poll_ok [OF dt(2) pl]
          have pclose: "closed_vm u (domains wp)" if "closed_vm u (domains w)" for u using close_closed [OF po(1) dclose [OF that]] .
          show ?thesis
          proof (cases p)
            case None
            have "dma_res ?b {} w (None :: DmaQuiesceResult option, wp)"
              by (rule dma_resI) (use live_okD(1) [OF po(2)] pclose dt(4,5) po(5,6) in simp_all)
            then show ?thesis using c skip ne d 3 pl None by simp
          next
            case (Some k)
            let ?e = "map (\<lambda>x. if ey_owner_vm x = vm \<and> ey_state x = DvDetaching then x\<lparr>ey_state := DvQuiesced, ey_generation := 0\<rparr> else x) (dw_entries wp)"
            have i: "idle_vm vm (domains wp)"
              using closes_keep(2) [OF smmu_closeD(2) [OF po(1)] smmu_opD(2) [OF smmu_closeD(1) [OF po(1)]]] dt(6) 3 by simp
            have "held ?e u" if "held (dw_entries wp) u" "u \<noteq> vm" for u using that unfolding held_def by force
            then have "live_ok ?b (wp\<lparr>dw_entries := ?e\<rparr>)" by (intro live_entries [OF po(2)]) (use i in blast)
            then have "dma_res ?b {} w (Some DqComplete, wp\<lparr>dw_entries := ?e\<rparr>)"
              by (intro dma_resI) (use live_okD(1) [OF po(2)] pclose dt(4,5) po(5,6) in simp_all)
            moreover have "closed_vm vm (domains wp)" by (rule idle_closed [OF live_okD(2) [OF po(2)] i])
            ultimately show ?thesis using c skip ne d 3 pl Some by simp
          qed
        qed
      qed
    qed
  qed
qed

definition same_dma :: "('h, 'z) DmaWorld_scheme \<Rightarrow> ('h, 'z) DmaWorld_scheme \<Rightarrow> bool" where
  "same_dma w w' \<longleftrightarrow> domains w' = domains w \<and> DmaWorld.more w' = DmaWorld.more w \<and> dw_panic w' = dw_panic w"

lemma dma_res_same: "same_dma w w' \<Longrightarrow> dma_res b V w' p \<Longrightarrow> dma_res b V w p"
  unfolding same_dma_def by (elim conjE) (rule dma_res_step)

lemma if_cases: "(b \<Longrightarrow> P x) \<Longrightarrow> (\<not> b \<Longrightarrow> P y) \<Longrightarrow> P (if b then x else y)"
  by simp

lemma held_map:
  assumes "held es u" "\<And>x. ey_owner_vm x = u \<Longrightarrow> dev_live (ey_state x) \<Longrightarrow> ey_owner_vm (f x) = u \<and> dev_live (ey_state (f x))"
  shows "held (map f es) u"
  using assms by (auto simp: held_def)

lemma same_dma_trans: "same_dma w w' \<Longrightarrow> same_dma w' w'' \<Longrightarrow> same_dma w w''"
  by (simp add: same_dma_def)

lemma same_dma_simps [simp]: "same_dma w w" "same_dma w (upd_hw_smmu f w)" "same_dma w (snd (on_hw g w))" "same_dma w (w\<lparr>dw_entries := es\<rparr>)"
  by (simp_all add: same_dma_def)

lemma block_devices_ok:
  assumes "live_ok b w"
  shows "live_ok b (snd (block_devices c ds w)) \<and> same_dma w (snd (block_devices c ds w))"
  using assms
proof (induction ds arbitrary: w)
  case (Cons d ds)
  let ?r = "on_hw (\<lambda>h. backend_quiesce c d (reset_interrupt c d h)) w"
  let ?e = "map (\<lambda>x. if ey_device_id x = d \<and> ey_state x = DvQuiescing then x\<lparr>ey_bus_master_blocked := True\<rparr> else x) (dw_entries w)"
  have "held ?e u" if "held (dw_entries w) u" for u by (rule held_map [OF that]) (simp add: dev_live_def)
  then have l: "live_ok b ((snd ?r)\<lparr>dw_entries := ?e\<rparr>)" by (intro live_entries) (simp_all add: Cons.prems)
  have s: "same_dma w ((snd ?r)\<lparr>dw_entries := ?e\<rparr>)" by (rule same_dma_trans [OF same_dma_simps(3) same_dma_simps(4)])
  show ?case using Cons.IH [OF l] same_dma_trans [OF s] Cons.prems by (simp add: case_prod_unfold Let_def)
qed simp

lemma begin_quiesce_ok:
  assumes l: "live_ok (db_board b) w"
  shows "dma_res (db_board b) {} w (begin_quiesce b vm w) \<and> drained_vm vm (begin_quiesce b vm w)"
proof -
  let ?b = "db_board b"
  define w1 where "w1 = upd_hw_smmu (fold (\<lambda>a h. if as_vm a = vm then mask_interrupt b (as_device_id a) h else h) (bd_assignments ?b)) w"
  define dl where "dl = bd_now ?b (sw_hw w1) + tp_ticks (ms_to_ticks (bd_hz ?b) kTimeoutMs)"
  have s1: "same_dma w w1" "live_ok ?b w1" "dw_entries w1 = dw_entries w" "dw_valid w1 = dw_valid w"
    using l by (simp_all add: w1_def)
  let ?p = "\<exists>x \<in> set (dw_entries w). ey_owner_vm x = vm \<and> classify_begin_quiesce (ey_state x) = SaPending"
  let ?cl = "\<lambda>x. let a = classify_begin_quiesce (ey_state x) in if a = SaPending then SaSkip else a"
  let ?act = "\<lambda>x. x\<lparr>ey_state := DvQuiescing, ey_deadline := dl, ey_bus_master_blocked := False\<rparr>"
  obtain v ds es where s: "scan_owned ?cl ?act vm (dw_entries w) = ((v, ds), es)"
    by (rule scan_cases)
  have act: "ey_owner_vm (?act x) = ey_owner_vm x \<and> dev_live (ey_state (?act x))" for x by (simp add: dev_live_def)
  define w2 where "w2 = w1\<lparr>dw_entries := es\<rparr>"
  have l2: "live_ok ?b w2" unfolding w2_def by (rule live_entries) (use s1 scan_entries(1) [OF s act] in simp_all)
  have s2: "same_dma w w2" unfolding w2_def by (rule same_dma_trans [OF s1(1) same_dma_simps(4)])
  obtain ok w3 where bl: "block_devices b (map ey_device_id ds) w2 = (ok, w3)" by (metis prod.collapse)
  note bo = block_devices_ok [OF l2, of b "map ey_device_id ds", unfolded bl snd_conv]
  have l3: "live_ok ?b w3" by (rule conjunct1 [OF bo])
  have s3: "same_dma w w3" by (rule same_dma_trans [OF s2 conjunct2 [OF bo]])
  have eq: "begin_quiesce b vm w = (if \<not> dw_valid w then (Some DqFailed, w1)
      else if v \<noteq> SaSkip then (Some DqFailed, w2) else if \<not> ok then fail_with b vm DqFailed w3
      else if ?p \<or> ds \<noteq> [] then complete_quiesce b vm w3 else (Some DqComplete, w3))"
    unfolding begin_quiesce_def w1_def [symmetric] Let_def dl_def [symmetric] s1(3,4) s [unfolded Let_def] prod.case w2_def [symmetric] bl by (rule refl)
  have closed: "closed_vm vm (domains w3)" if v: "v = SaSkip" "ds = []" "\<not> ?p"
  proof -
    have "\<forall>x \<in> set (dw_entries w). ey_owner_vm x = vm \<longrightarrow> ?cl x = SaSkip"
      using scan_none [of ?cl ?act vm "dw_entries w" es] s v(1,2) by blast
    then have "\<forall>x \<in> set (dw_entries w). ey_owner_vm x = vm \<longrightarrow> classify_begin_quiesce (ey_state x) = SaSkip"
      using v(3) by (auto simp: Let_def split: if_splits)
    then have "\<not> held (dw_entries w) vm" using skip_states(2) by (auto simp: held_def)
    then show ?thesis using idle_closed [OF live_okD(2) [OF l] not_held_idle [OF l]] s3 by (simp add: same_dma_def)
  qed
  have r1: "dma_res ?b {} w (Some DqFailed, w1)" by (rule dma_res_same [OF s1(1) dma_res_live [OF s1(2)]])
  have r2: "dma_res ?b {} w (Some DqFailed, w2)" by (rule dma_res_same [OF s2 dma_res_live [OF l2]])
  have r3: "dma_res ?b {} w (fail_with b vm DqFailed w3)" by (rule dma_res_same [OF s3 fail_with_ok(1) [OF l3]])
  have r4: "dma_res ?b {} w (complete_quiesce b vm w3)" "drained_vm vm (complete_quiesce b vm w3)"
    by (rule dma_res_same [OF s3 conjunct1 [OF complete_quiesce_ok [OF l3]]]) (rule conjunct2 [OF complete_quiesce_ok [OF l3]])
  have r5: "dma_res ?b {} w (Some DqComplete, w3)" by (rule dma_res_same [OF s3 dma_res_live [OF l3]])
  show ?thesis unfolding eq
    by (intro if_cases [where P = "\<lambda>q. dma_res ?b {} w q \<and> drained_vm vm q"]) (use r1 r2 r3 r4 r5 closed in simp_all)
qed

lemma poll_quiesce_ok:
  assumes l: "live_ok (db_board b) w"
  shows "dma_res (db_board b) {} w (poll_quiesce b vm w) \<and> drained_vm vm (poll_quiesce b vm w)"
proof -
  let ?b = "db_board b"
  obtain v ds es where s: "scan_owned quiescing_action id vm (dw_entries w) = ((v, ds), es)"  by (rule scan_cases)
  let ?d = "on_hw (each_device (backend_drained b) (map ey_device_id ds)) w" let ?w = "snd ?d"
  have lw: "live_ok ?b ?w" using l by simp
  have eq: "poll_quiesce b vm w = (if \<not> dw_valid w then (Some DqFailed, w) else if v \<noteq> SaSkip then (Some (quiesce_result v), w)
      else if ds = [] then (Some DqComplete, w)
      else if \<not> fst ?d then (if bd_now ?b (sw_hw ?w) < fold min (map ey_deadline ds) (- 1) then (Some DqPending, ?w) else fail_with b vm DqFailed ?w)
      else complete_quiesce b vm ?w)"
    by (simp add: poll_quiesce_def s case_prod_unfold Let_def)
  have closed: "closed_vm vm (domains w)" if "v = SaSkip" "ds = []"
    by (rule scan_none_idle(2) [OF _ l]) (use s that in simp)
  have r1: "dma_res ?b {} w (Some DqPending, ?w)" by (rule dma_res_same [OF same_dma_simps(3) dma_res_live [OF lw]])
  have r2: "dma_res ?b {} w (fail_with b vm DqFailed ?w)" by (rule dma_res_same [OF same_dma_simps(3) fail_with_ok(1) [OF lw]])
  have r3: "dma_res ?b {} w (complete_quiesce b vm ?w)" by (rule dma_res_same [OF same_dma_simps(3) conjunct1 [OF complete_quiesce_ok [OF lw]]])
  note r4 = conjunct2 [OF complete_quiesce_ok [OF lw, of vm]]
  show ?thesis unfolding eq
    by (intro if_cases [where P = "\<lambda>q. dma_res ?b {} w q \<and> drained_vm vm q"])
      (use r1 r2 r3 r4 dma_res_live [OF l] closed in simp_all)
qed

section \<open>Resume\<close>

lemma attach_live:
  assumes "live_ok b w" "held (dw_entries w) vm" "attach_vm b vm g w = (r, w')"
  shows "smmu_op b {vm} w w'" "r \<noteq> None \<Longrightarrow> live_ok b w'" "dw_entries w' = dw_entries w" "dw_panic w' = dw_panic w"
    "DmaWorld.more w' = DmaWorld.more w"
proof -
  note a = attach_vm_ok [OF live_okD(1,2) [OF assms(1)] assms(3)]
  show op: "smmu_op b {vm} w w'" using a by simp
  show e: "dw_entries w' = dw_entries w" "dw_panic w' = dw_panic w" "DmaWorld.more w' = DmaWorld.more w"
    using more_fields [OF smmu_opD(4) [OF op]] by simp_all
  show "live_ok b w'" if "r \<noteq> None"
  proof -
    have "owner (domains w') sid \<noteq> kNoVm \<and> held (dw_entries w') (owner (domains w') sid)"
      if s: "sid < kStreamCount" "attached (domains w') sid" for sid
    proof -
      have o: "owner (domains w') sid = owner (domains w) sid" using smmu_opD(2) [OF op] s(1) by (simp add: touches_def)
      show ?thesis
      proof (cases "owner (domains w) sid = vm")
        case True
        show ?thesis
        proof (cases "vm = kNoVm")
          case none: True
          have "dm_count (domains w) \<le> vm"
            using domains_okD(1) [OF live_okD(1) [OF assms(1)]] by (simp add: none sizes_ok_def kNoVm_def kMaxGuests_def)
          then have "w' = w" using assms(3) by (simp add: attach_vm_def sw_domains)
          then show ?thesis using live_okD(4) [OF assms(1) s(1)] s(2) by simp
        next
          case False
          then show ?thesis using True o assms(2) e(1) by simp
        qed
      next
        case False
        then have "attached (domains w) sid" using smmu_opD(2) [OF op] s by (simp add: touches_def)
        then show ?thesis using live_okD(4) [OF assms(1) s(1)] o e(1) by simp
      qed
    qed
    then show ?thesis using a that smmu_opD(1,3) [OF op] live_okD(3) [OF assms(1)] by (simp add: live_ok_def)
  qed
qed

lemma resume_vm_ok:
  assumes l: "live_ok (db_board b) w"
  shows "dma_res (db_board b) {vm} w (resume_vm b vm g w)"
proof -
  let ?b = "db_board b"
  obtain v ds es where s: "scan_owned (\<lambda>x. classify_resume (ey_state x)) (\<lambda>x. x\<lparr>ey_state := DvResuming\<rparr>) vm (dw_entries w) = ((v, ds), es)" by (rule scan_cases)
  have act: "ey_owner_vm (x\<lparr>ey_state := DvResuming\<rparr>) = ey_owner_vm x \<and> dev_live (ey_state (x\<lparr>ey_state := DvResuming\<rparr>))" for x
    by (simp add: dev_live_def)
  let ?w = "w\<lparr>dw_entries := es\<rparr>"
  have lw: "live_ok ?b ?w" by (rule live_entries) (use l scan_entries(1) [OF s act] in simp_all)
  have early: "dma_res ?b {vm} w (r, w)" "dma_res ?b {vm} w (r, ?w)" for r :: "bool option"
    using dma_res_live [OF l] dma_res_same [OF same_dma_simps(4) dma_res_live [OF lw]] by blast+
  show ?thesis
  proof (cases "(\<not> dw_valid w \<or> g = 0 \<or> owner_failed (dw_entries w) vm) \<or> owner_active (dw_entries w) vm g \<or> v \<noteq> SaSkip \<or> ds = []")
    case True
    then have "\<exists>r. resume_vm b vm g w = (r, w) \<or> resume_vm b vm g w = (r, ?w)" by (auto simp: resume_vm_def s Let_def)
    then show ?thesis using early by metis
  next
    case False
    obtain p wp where pl: "poll_events ?b ?w = (p, wp)" by (metis prod.collapse)
    note po = poll_ok [OF lw pl]
    have pc: "closed_vm u (domains wp)" if "closed_vm u (domains w)" for u using close_closed [OF po(1), of u] that by simp
    have hp: "held (dw_entries wp) vm" using scan_entries(2) [OF s act] False po(3) by simp
    obtain r wa where at: "attach_vm ?b vm g wp = (r, wa)" by (metis prod.collapse)
    note a = attach_live [OF po(2) hp at]
    have ac: "closed_vm u (domains wa)" if "u \<notin> {vm}" "closed_vm u (domains w)" for u
      using touches_other(1) [OF smmu_opD(2) [OF a(1)] that(1)] pc [OF that(2)] by simp
    have m: "DmaWorld.more wa = DmaWorld.more w" "dw_panic wa = dw_panic w" "DmaWorld.more wp = DmaWorld.more w" "dw_panic wp = dw_panic w"
      using a(4,5) po(5,6) by simp_all
    let ?r1 = "on_hw (ready_devices b vm (map ey_device_id ds)) wa"
    let ?e = "map (\<lambda>x. if ey_owner_vm x = vm \<and> ey_state x = DvResuming
        then x\<lparr>ey_generation := g, ey_state := DvActive, ey_bus_master_blocked := False\<rparr> else x) (dw_entries wa)"
    let ?w4 = "(snd ?r1)\<lparr>dw_entries := ?e\<rparr>" let ?r2 = "on_hw (each_device (unmask_device b) (map ey_device_id ds)) ?w4"
    have eq: "resume_vm b vm g w = (case p of None \<Rightarrow> (None, wp) | Some _ \<Rightarrow> (case r of None \<Rightarrow> (None, wa)
        | Some False \<Rightarrow> fail_with b vm False wa
        | Some True \<Rightarrow> if \<not> fst ?r1 then fail_with b vm False (snd ?r1)
            else if \<not> fst ?r2 then fail_with b vm False (snd ?r2) else (Some True, snd ?r2)))"
      using False by (simp add: resume_vm_def s pl at case_prod_unfold Let_def split: option.splits bool.splits)
    have np: "dma_res ?b {vm} w (None :: bool option, wp)"
      by (rule dma_resI) (use live_okD(1) [OF po(2)] pc m in simp_all)
    have na: "dma_res ?b {vm} w (None :: bool option, wa)"
      by (rule dma_resI) (use smmu_opD(1) [OF a(1)] ac m in simp_all)
    have from_a: "dma_res ?b {vm} w q" if "dma_res ?b {vm} wa q" for q :: "bool option \<times> ('a, 'b) DmaWorld_scheme"
      by (rule dma_res_from [OF that]) (use ac m in simp_all)
    have "dma_res ?b {vm} w (fail_with b vm False wa) \<and> dma_res ?b {vm} w (fail_with b vm False (snd ?r1))
        \<and> dma_res ?b {vm} w (fail_with b vm False (snd ?r2)) \<and> dma_res ?b {vm} w (Some True, snd ?r2)" if rn: "r \<noteq> None"
    proof -
      note la = a(2) [OF rn]
      have "held ?e u" if "held (dw_entries wa) u" for u
        by (rule held_map [OF that]) (simp add: dev_live_def)
      then have l4: "live_ok ?b ?w4" by (intro live_entries) (use la in simp_all)
      have s4: "same_dma wa (snd ?r2)"
        by (rule same_dma_trans [OF same_dma_trans [OF same_dma_simps(3) same_dma_simps(4)] same_dma_simps(3)])
      show ?thesis
        using from_a [OF fail_with_ok(1) [OF la]] from_a [OF dma_res_same [OF same_dma_simps(3) fail_with_ok(1)]]
          from_a [OF dma_res_same [OF s4 fail_with_ok(1)]] from_a [OF dma_res_same [OF s4 dma_res_live]] la l4 by simp
    qed
    note rs = this
    show ?thesis
    proof (cases "p = None \<or> r = None")
      case True
      then show ?thesis unfolding eq using np na by (cases p) auto
    next
      case some: False
      then obtain k x where kx: "p = Some k" "r = Some x" by auto
      note q = rs [unfolded kx(2), OF option.distinct(2)]
      show ?thesis unfolding eq kx using q
        by (cases x) (auto intro!: if_cases [where P = "dma_res ?b {vm} w"] simp del: on_hw_def)
    qed
  qed
qed

section \<open>Interrupts and EOIs\<close>

lemma interrupts_ok:
  assumes l: "live_ok (db_board b) w"
  shows "dma_res (db_board b) {} w (dma_handle_irq b post intid handled w)"
    "dma_res (db_board b) {} w (dma_handle_virtual_eoi b slot vintid token w)"
proof -
  let ?b = "db_board b"
  have hw: "dma_res ?b {} w (r, upd_hw_smmu f w)" "dma_res ?b {} w (fail_with b vm x (upd_hw_smmu f w))" for r :: "bool option" and f vm and x :: bool
    using dma_res_same [OF same_dma_simps(2) dma_res_live] dma_res_same [OF same_dma_simps(2) fail_with_ok(1)] l by simp_all
  have on: "dma_res ?b {} w (r, snd (on_hw g (upd_hw_smmu f w)))" "dma_res ?b {} w (fail_with b vm x (snd (on_hw g (upd_hw_smmu f w))))"
    for r :: "bool option" and f vm and x :: bool and g :: "'a \<Rightarrow> bool \<times> 'a"
    using dma_res_same [OF same_dma_trans [OF same_dma_simps(2) same_dma_simps(3)] dma_res_live]
      dma_res_same [OF same_dma_trans [OF same_dma_simps(2) same_dma_simps(3)] fail_with_ok(1)] l by simp_all
  show "dma_res ?b {} w (dma_handle_irq b post intid handled w)"
    unfolding dma_handle_irq_def using dma_res_live [OF l] hw
    by (auto simp: Let_def split: option.split if_split)
  show "dma_res ?b {} w (dma_handle_virtual_eoi b slot vintid token w)"
    unfolding dma_handle_virtual_eoi_def using dma_res_live [OF l] on
    by (auto simp: Let_def case_prod_unfold split: option.split if_split)
qed

section \<open>Init\<close>

lemma init_ok:
  assumes "domains_ok (db_board b) (domains w)" "tied (domains w)" "\<forall>vm. idle_vm vm (domains w)" "cr_ready (sw_commands w)"
  shows "live_ok (db_board b) (dma_init b w)" "domains (dma_init b w) = domains w" "dw_panic (dma_init b w) = dw_panic w"
    "DmaWorld.more (dma_init b w) = DmaWorld.more w"
proof -
  show d: "domains (dma_init b w) = domains w" "dw_panic (dma_init b w) = dw_panic w" "DmaWorld.more (dma_init b w) = DmaWorld.more w"
    by (simp_all add: dma_init_def Let_def case_prod_unfold domains_def)
  have "sw_commands (dma_init b w) = sw_commands w" by (simp add: dma_init_def Let_def case_prod_unfold)
  then show "live_ok (db_board b) (dma_init b w)"
    using assms d(1) unfolding live_ok_def by (auto simp: idle_vm_def)
qed

end
