(* ===== verification/NovaDmaSystem.thy ===== *)
theory NovaDmaSystem
  imports NovaDmaSafe NovaSmpThms
begin

text \<open>
  The VM lifecycle coordinator with the DMA device stack it drives. The device
  component is the subscriber of the quiesce and virtual EOI services; the state of the
  peers is its world with a record of every image copy, which notes whether the SMMU
  let a stream of that VM through at the copy. A panicked device stack takes no more
  calls: the panic stops every core of the program.
\<close>

section \<open>The device stack as a peer\<close>

record 'h DmaSystem = "'h DmaWorld" +
  ds_restored :: "(nat \<times> bool) list"

definition vm_open :: "nat \<Rightarrow> ('h, 'z) SmmuWorld_scheme \<Rightarrow> bool" where
  "vm_open vm w \<longleftrightarrow> (\<exists>sid \<in> set [0 ..< kStreamCount]. sb_owner_vm (sw_bindings w ! sid) = vm \<and> ste_open (sw_stream_table w ! sid))"

definition dma_call :: "('h DmaSystem \<Rightarrow> 'r option \<times> 'h DmaSystem) \<Rightarrow> 'h DmaSystem \<Rightarrow> 'r option \<times> 'h DmaSystem" where
  "dma_call f d = (if dw_panic d then (None, d) else let (r, d') = f d in (r, if r = None then d'\<lparr>dw_panic := True\<rparr> else d'))"

definition dma_peers :: "'h DmaBoard \<Rightarrow> 'h DmaSystem Peers" where
  "dma_peers b = \<lparr>pr_vm_reset = (\<lambda>_ d. d),
     pr_reload = (\<lambda>vm d. d\<lparr>ds_restored := ds_restored d @ [(vm, vm_open vm d)]\<rparr>),
     pr_eoi = (\<lambda>ev d. case ev of VirqReevaluate _ \<Rightarrow> d
       | VirtualEoi slot vintid token \<Rightarrow> snd (dma_call (dma_handle_virtual_eoi b slot vintid token) d)),
     pr_dma = (\<lambda>op vm g d. let (r, d') = dma_call (dma_handle_quiesce b op vm g) d in
       ((True, case r of Some x \<Rightarrow> x | None \<Rightarrow> DqPending), d'))\<rparr>"

text \<open>What the device stack does outside the calls of the coordinator.\<close>

inductive dma_moves :: "'h DmaBoard \<Rightarrow> 'h DmaSystem \<Rightarrow> 'h DmaSystem \<Rightarrow> bool" for b where
  hardware: "dma_moves b d (d\<lparr>sw_hw := h\<rparr>)"
| smmu_irq: "dma_moves b d (snd (dma_call (smmu_handle_irq (db_board b) i handled) d))"
| device_irq: "dma_moves b d (snd (dma_call (dma_handle_irq b post i handled) d))"
| dma_start: "dma_moves b d (snd (start_dma b dev vm g src dst len to_ram d))"

section \<open>The contract of the coordinator holds\<close>

definition sys_ok :: "'h DmaBoard \<Rightarrow> 'h DmaSystem \<Rightarrow> bool" where
  "sys_ok b d \<longleftrightarrow> domains_ok (db_board b) (domains d) \<and> (\<not> dw_panic d \<longrightarrow> live_ok (db_board b) d)
     \<and> (\<forall>r \<in> set (ds_restored d). \<not> snd r)"

definition sys_quiet :: "nat \<Rightarrow> 'h DmaSystem \<Rightarrow> bool" where
  "sys_quiet vm d \<longleftrightarrow> closed_vm vm (domains d)"

lemma vm_open_closed: "vm_open vm d \<longleftrightarrow> \<not> closed_vm vm (domains d)"
  by (auto simp: vm_open_def closed_vm_def domains_def)

lemma more_restored:
  assumes "DmaWorld.more w' = DmaWorld.more (w :: 'h DmaSystem)"
  shows "ds_restored w' = ds_restored w"
  using assms by (cases w, cases w', simp)

lemma sys_upd [simp]:
  "domains (d\<lparr>dw_panic := p\<rparr>) = domains d" "domains (d\<lparr>ds_restored := x\<rparr>) = domains d" "domains (d\<lparr>sw_hw := h\<rparr>) = domains d"
  "live_ok b (d\<lparr>ds_restored := x\<rparr>) = live_ok b d" "live_ok b (d\<lparr>sw_hw := h\<rparr>) = live_ok b d"
  by (simp_all add: domains_def live_ok_def)

lemma call_ok:
  assumes "sys_ok b d" "\<not> dw_panic d \<Longrightarrow> live_ok (db_board b) d \<Longrightarrow> dma_res (db_board b) V d (f d)"
  shows "sys_ok b (snd (dma_call f d))" "vm \<notin> V \<Longrightarrow> sys_quiet vm d \<Longrightarrow> sys_quiet vm (snd (dma_call f d))"
proof -
  have "sys_ok b (snd (dma_call f d)) \<and> (vm \<notin> V \<longrightarrow> sys_quiet vm d \<longrightarrow> sys_quiet vm (snd (dma_call f d)))"
  proof (cases "dw_panic d")
    case True
    then show ?thesis using assms(1) by (simp add: dma_call_def)
  next
    case False
    then have r: "dma_res (db_board b) V d (f d)" using assms by (simp add: sys_ok_def)
    then have m: "ds_restored (snd (f d)) = ds_restored d" by (intro more_restored) (simp add: dma_res_def)
    show ?thesis
      using assms(1) False r m by (auto simp: dma_call_def sys_ok_def sys_quiet_def dma_res_def case_prod_unfold Let_def)
  qed
  then show "sys_ok b (snd (dma_call f d))" "vm \<notin> V \<Longrightarrow> sys_quiet vm d \<Longrightarrow> sys_quiet vm (snd (dma_call f d))" by simp_all
qed

lemma dma_res_map: "dma_res b V w p \<Longrightarrow> dma_res b V w (map_option f (fst p), snd p)"
  by (simp add: dma_res_def)

lemma handle_quiesce_res:
  assumes "live_ok (db_board b) w"
  shows "dma_res (db_board b) (if op = DqResume then {vm} else {}) w (dma_handle_quiesce b op vm g w)"
proof (cases op)
  case DqResume
  then show ?thesis using dma_res_map [OF resume_vm_ok [OF assms]] by (simp add: dma_handle_quiesce_def case_prod_unfold Let_def)
next
  case DqCanStart
  then show ?thesis by (simp add: dma_handle_quiesce_def dma_res_live [OF assms])
next
  case DqBegin
  then show ?thesis using begin_quiesce_ok [OF assms, of vm] by (simp add: dma_handle_quiesce_def)
next
  case DqPoll
  then show ?thesis using poll_quiesce_ok [OF assms, of vm] by (simp add: dma_handle_quiesce_def)
qed

lemma handle_quiesce_drained:
  assumes "live_ok (db_board b) w" "op = DqBegin \<or> op = DqPoll"
  shows "drained_vm vm (dma_handle_quiesce b op vm g w)"
  using begin_quiesce_ok [OF assms(1), of vm] poll_quiesce_ok [OF assms(1), of vm] assms(2) by (auto simp: dma_handle_quiesce_def)

lemma dma_peers_ok: "peers_ok (dma_peers b) sys_quiet (sys_ok b)"
  unfolding peers_ok_def
proof (intro conjI allI impI; (elim conjE)?)
  fix v vm and d :: "'a DmaSystem" assume "sys_ok b d"
  note c = call_ok [OF this, of "{}" "dma_handle_virtual_eoi b s i t" for s i t, OF interrupts_ok(2)]
  show "sys_quiet vm (pr_eoi (dma_peers b) v d)" if "sys_quiet vm d"
    using c that by (simp add: dma_peers_def split: VgicEvent.split)
  show "sys_ok b (pr_eoi (dma_peers b) v d)"
    using c \<open>sys_ok b d\<close> by (simp add: dma_peers_def split: VgicEvent.split)
next
  fix x vm and d :: "'a DmaSystem" assume "sys_quiet vm d"
  then show "sys_quiet vm (pr_vm_reset (dma_peers b) x d)" "sys_quiet vm (pr_reload (dma_peers b) x d)"
    by (simp_all add: dma_peers_def sys_quiet_def)
next
  fix op x g and d :: "'a DmaSystem" assume o: "sys_ok b d"
  note c = call_ok [OF o, of "if op = DqResume then {x} else {}" "dma_handle_quiesce b op x g", OF handle_quiesce_res]
  show "sys_ok b (snd (pr_dma (dma_peers b) op x g d))" using c(1) by (simp add: dma_peers_def case_prod_unfold Let_def)
  show "sys_quiet vm (snd (pr_dma (dma_peers b) op x g d))" if "sys_quiet vm d" "x \<noteq> vm \<or> op \<noteq> DqResume" for vm
    using c(2) [OF _ _ that(1)] that(2) by (cases "op = DqResume") (simp_all add: dma_peers_def case_prod_unfold Let_def)
  show "sys_quiet x (snd (pr_dma (dma_peers b) op x g d))" if "op = DqBegin \<or> op = DqPoll"
    "dma_quiesce_outcome (fst (fst (pr_dma (dma_peers b) op x g d))) (snd (fst (pr_dma (dma_peers b) op x g d))) = DqComplete"
  proof -
    have p: "\<not> dw_panic d" using that(2) by (auto simp: dma_peers_def dma_call_def dma_quiesce_outcome_def case_prod_unfold Let_def)
    then have "drained_vm x (dma_handle_quiesce b op x g d)" 
      using o by (intro handle_quiesce_drained [OF _ that(1)]) (simp add: sys_ok_def)
    then show ?thesis using that(2) p
      by (auto simp: dma_peers_def dma_call_def dma_quiesce_outcome_def drained_vm_def sys_quiet_def case_prod_unfold Let_def split: option.splits)
  qed
next
  fix x and d :: "'a DmaSystem" assume "sys_ok b d"
  then show "sys_ok b (pr_vm_reset (dma_peers b) x d)" by (simp add: dma_peers_def)
next
  fix vm and d :: "'a DmaSystem" assume "sys_ok b d" "sys_quiet vm d"
  then show "sys_ok b (pr_reload (dma_peers b) vm d)"
    by (auto simp: dma_peers_def sys_ok_def sys_quiet_def vm_open_closed)
qed

lemma close_res:
  assumes "live_ok b d" "smmu_close b V d (snd p)"
  shows "dma_res b {} d p"
proof -
  note op = smmu_closeD(1) [OF assms(2)] and c = close_closed [OF assms(2)]
  note m = more_fields [OF smmu_opD(4) [OF op]]
  show ?thesis unfolding dma_res_def using smmu_opD(1) [OF op] c m live_close [OF assms m(1)] by simp
qed

lemma start_same: "\<exists>h. snd (start_dma b dev vm g src dst len r (d :: 'h DmaSystem)) = d\<lparr>sw_hw := h\<rparr>"
proof -
  have e: "\<exists>h. d = d\<lparr>sw_hw := h\<rparr>" by (rule exI [of _ "sw_hw d"]) simp
  show ?thesis unfolding start_dma_def on_hw_def
    by (auto simp only: snd_conv intro: e split: option.split if_split)
qed

lemma hw_ok: "sys_ok b (d\<lparr>sw_hw := h\<rparr>) = sys_ok b d" "sys_quiet vm (d\<lparr>sw_hw := h\<rparr>) = sys_quiet vm d"
  by (simp_all add: sys_ok_def sys_quiet_def)

lemma dma_devices_ok: "devices_ok (dma_moves b) sys_quiet (sys_ok b)"
  unfolding devices_ok_def
proof (intro allI impI)
  fix d d' :: "'a DmaSystem" assume g: "sys_ok b d" and m: "dma_moves b d d'"
  show "sys_ok b d' \<and> (\<forall>vm. sys_quiet vm d \<longrightarrow> sys_quiet vm d')"
    using m
  proof cases
    case (smmu_irq i handled)
    have r: "dma_res (db_board b) {} d (smmu_handle_irq (db_board b) i handled d)" if "live_ok (db_board b) d"
      by (rule close_res [OF that faults_ok(2) [OF live_okD(1,2) [OF that]]])
    show ?thesis unfolding smmu_irq
      using call_ok [of b d "{}" "smmu_handle_irq (db_board b) i handled", OF g r] by simp
  next
    case (device_irq post i handled)
    show ?thesis unfolding device_irq
      using call_ok [of b d "{}" "dma_handle_irq b post i handled", OF g interrupts_ok(1)] by simp
  next
    case (dma_start dev vm g src dst len to_ram)
    obtain h where "snd (start_dma b dev vm g src dst len to_ram d) = d\<lparr>sw_hw := h\<rparr>" using start_same [of b dev vm g src dst len to_ram d] ..
    then show ?thesis unfolding dma_start using g by (simp add: hw_ok)
  qed (simp add: hw_ok g)
qed

end
