(* ===== verification/NovaSmmuBringup.thy ===== *)
theory NovaSmmuBringup
  imports NovaSmmuIso
begin

text \<open>
  Liveness of the driver. The handshakes poll a device register; on a device that
  acknowledges a register write and consumes the commands it is told of, each poll
  loop ends at once, no command is refused, and the SMMU comes up.
\<close>

section \<open>A device that answers\<close>

text \<open>
  \<open>cr0\<close>, \<open>irq\<close> and \<open>prd\<close> read the registers of the device off its state: CR0ACK and
  IRQ_CTRLACK follow their control registers, the consumer of the command queue has
  reached its producer, and a GBPA update completes.
\<close>

definition smmu_answers :: "'h Board \<Rightarrow> ('h \<Rightarrow> u32) \<Rightarrow> ('h \<Rightarrow> u32) \<Rightarrow> ('h \<Rightarrow> u32) \<Rightarrow> bool" where
  "smmu_answers b cr0 irq prd \<longleftrightarrow>
     (\<forall>h. fst (bd_read32 b kCr0Ack h) = cr0 h \<and> fst (bd_read32 b kIrqAck h) = irq h \<and> fst (bd_read32 b kCmdqCons h) = prd h
        \<and> fst (bd_read32 b kGbpa h) AND kGbpaUpdate = 0)
   \<and> (\<forall>off h. cr0 (snd (bd_read32 b off h)) = cr0 h \<and> irq (snd (bd_read32 b off h)) = irq h \<and> prd (snd (bd_read32 b off h)) = prd h)
   \<and> (\<forall>off v h. cr0 (bd_write32 b off v h) = (if off = kCr0 then v else cr0 h)
        \<and> irq (bd_write32 b off v h) = (if off = kIrqCtrl then v else irq h)
        \<and> prd (bd_write32 b off v h) = (if off = kCmdqProd then v else prd h))
   \<and> (\<forall>off v h. prd (bd_write64 b off v h) = prd h) \<and> (\<forall>m h. prd (bd_publish b m h) = prd h)"

lemma answersD:
  assumes "smmu_answers b cr0 irq prd"
  shows "fst (bd_read32 b kCr0Ack h) = cr0 h" "fst (bd_read32 b kIrqAck h) = irq h" "fst (bd_read32 b kCmdqCons h) = prd h"
    "fst (bd_read32 b kGbpa h) AND kGbpaUpdate = 0" "prd (snd (bd_read32 b off h)) = prd h"
    "cr0 (bd_write32 b off v h) = (if off = kCr0 then v else cr0 h)" "irq (bd_write32 b off v h) = (if off = kIrqCtrl then v else irq h)"
    "prd (bd_write32 b off v h) = (if off = kCmdqProd then v else prd h)" "prd (bd_write64 b off64 v64 h) = prd h"
    "prd (bd_publish b m h) = prd h"
  using assms unfolding smmu_answers_def by blast+

lemma wait_for_answer:
  assumes "fst (bd_read32 b off h) = v" "0 < n"
  shows "wait_for b off v n h = (True, snd (bd_read32 b off h))"
  using assms by (subst wait_for.simps) (simp add: case_prod_unfold)

lemma write_synced_answer:
  assumes a: "smmu_answers b cr0 irq prd" and n: "0 < n" and r: "off = kCr0 \<and> ack = kCr0Ack \<or> off = kIrqCtrl \<and> ack = kIrqAck"
  shows "fst (write_synced b off ack v n h)" "prd (snd (write_synced b off ack v n h)) = prd h"
proof -
  have "fst (bd_read32 b ack (bd_write32 b off v h)) = v" using r answersD(1,2,6,7) [OF a] by auto
  note w = wait_for_answer [OF this n]
  have "off \<noteq> kCmdqProd" using r by (auto simp: kCr0_def kIrqCtrl_def kCmdqProd_def)
  then show "fst (write_synced b off ack v n h)" "prd (snd (write_synced b off ack v n h)) = prd h"
    using w answersD(5,8) [OF a] by (simp_all add: write_synced_def)
qed

lemma block_bypass_answer:
  assumes a: "smmu_answers b cr0 irq prd" and n: "0 < n"
  shows "fst (block_bypass b n n h)"
proof -
  have u: "fst (wait_update b n h)" for h
    using n answersD(4) [OF a] by (subst wait_update.simps) (simp add: case_prod_unfold)
  show ?thesis using n answersD(4) [OF a] u by (subst block_bypass.simps) (simp add: case_prod_unfold Let_def)
qed

lemma shut_down_answer:
  assumes "smmu_answers b cr0 irq prd" "0 < n"
  shows "fst (shut_down b n h) = BsNone"
  using block_bypass_answer [OF assms] write_synced_answer(1) [OF assms]
  by (simp add: shut_down_def case_prod_unfold)

lemma enable_faults_answer:
  assumes "smmu_answers b cr0 irq prd" "0 < n"
  shows "fst (enable_faults b n h) = BsNone"
  using write_synced_answer(1) [OF assms] by (simp add: enable_faults_def case_prod_unfold)

section \<open>Submission\<close>

text \<open>The device has consumed what the ring produced, and nothing is in flight.\<close>

definition caught_up :: "('h \<Rightarrow> u32) \<Rightarrow> ('h, 'z) SmmuWorld_scheme \<Rightarrow> bool" where
  "caught_up prd w \<longleftrightarrow> prd (sw_hw w) = qs_producer (cr_queue (sw_commands w)) \<and> unat (qs_producer (cr_queue (sw_commands w))) < 32
     \<and> qs_log2_entries (cr_queue (sw_commands w)) = 4 \<and> length (cr_entries (sw_commands w)) = 16 \<and> 0 < cr_poll_limit (sw_commands w)"

lemma pointer_mask4: "qs_log2_entries q = 4 \<Longrightarrow> qs_pointer_mask q = mask 5"
  by (simp add: qs_pointer_mask_def qs_wrap_mask_def qs_capacity_def qs_valid_def kMaxQueueLog2Entries_def mask_eq_exp_minus_1)

lemma mask5_keeps: "unat (v :: u32) < 32 \<Longrightarrow> v AND mask 5 = v"
  by (simp add: take_bit_eq_mask [symmetric] word_unat_eq_iff unsigned_take_bit_eq take_bit_nat_eq_self)

lemma no_queue_error: "unat (v :: u32) < 32 \<Longrightarrow> v AND kCmdqConsErrorMask = 0"
proof -
  assume v: "unat v < 32"
  have "v AND kCmdqConsErrorMask = (v AND mask 5) AND kCmdqConsErrorMask" by (simp only: mask5_keeps [OF v])
  also have "\<dots> = v AND (mask 5 AND kCmdqConsErrorMask)" by (simp only: and.assoc)
  also have "mask 5 AND kCmdqConsErrorMask = (0 :: u32)" by (simp add: kCmdqConsErrorMask_def mask_eq_exp_minus_1)
  finally show "v AND kCmdqConsErrorMask = 0" by simp
qed

lemma wait_idle_answer:
  assumes a: "smmu_answers b cr0 irq prd" and c: "caught_up prd w"
  shows "fst (wait_idle b w)" "caught_up prd (snd (wait_idle b w))" "sw_commands (snd (wait_idle b w)) = sw_commands w"
proof -
  let ?q = "cr_queue (sw_commands w)"
  have q: "prd (sw_hw w) = qs_producer ?q" "unat (qs_producer ?q) < 32" "qs_log2_entries ?q = 4" "0 < cr_poll_limit (sw_commands w)"
    using c by (simp_all add: caught_up_def)
  have "wait_idle_polls b (qs_pointer_mask ?q) (qs_producer ?q) (cr_poll_limit (sw_commands w)) (sw_hw w) = (True, snd (bd_read32 b kCmdqCons (sw_hw w)))"
    using q answersD(3) [OF a] by (subst wait_idle_polls.simps) (simp add: case_prod_unfold pointer_mask4 mask5_keeps no_queue_error)
  then show "fst (wait_idle b w)" "caught_up prd (snd (wait_idle b w))" "sw_commands (snd (wait_idle b w)) = sw_commands w"
    using c answersD(5) [OF a] by (simp_all add: wait_idle_def on_hw_def caught_up_def)
qed

lemma advance_small:
  assumes "qs_log2_entries q = 4" "unat v < 32"
  shows "unat (qs_advance q v) < 32"
proof -
  have z: "v AND NOT (mask 5) = 0" using mask5_keeps [OF assms(2)] by (metis and.assoc and_zero_eq word_and_not and.right_neutral)
  have "qs_advance q v = take_bit 5 (v + 1)"
    using assms(1) z by (simp add: qs_advance_def pointer_mask4 take_bit_eq_mask)
  then show ?thesis using take_bit_nat_less_exp [of 5 "unat (v + 1)"] by (simp add: unsigned_take_bit_eq)
qed

lemma stage_commands_ok:
  assumes "qs_rep q p c" "qs_log2_entries q = 4" "length cs + (p - c) \<le> 16" "unat (qs_producer q) < 32"
  shows "\<exists>q' es'. stage_commands cs q es = (True, q', es') \<and> length es' = length es \<and> qs_log2_entries q' = 4 \<and> unat (qs_producer q') < 32
    \<and> qs_rep q' (p + length cs) c"
  using assms
proof (induction cs arbitrary: q p es)
  case (Cons x cs)
  have le: "c \<le> p" using Cons.prems(1) by (simp add: qs_rep_def)
  have t: "fst (try_produce q)" using rep_produce(1) [OF Cons.prems(1)] Cons.prems(2,3) by simp
  have "qs_producer (snd (try_produce q)) = qs_advance q (qs_producer q)" using t by (auto simp: try_produce_def split: if_splits)
  then have s: "unat (qs_producer (snd (try_produce q))) < 32" using advance_small Cons.prems(2,4) by simp
  note st = Cons.IH [OF rep_produce(2) [OF Cons.prems(1) t] _ _ s]
  show ?case using st [of "es[unat (qs_producer_index q) := x]"] t le Cons.prems(2,3)
    by (simp add: queue_store_def case_prod_unfold Suc_diff_le)
qed simp

definition produced :: "('h, 'z) SmmuWorld_scheme \<Rightarrow> nat" where
  "produced w = unat (qs_producer (cr_queue (sw_commands w)))"

lemma small_rep:
  assumes "qs_rep q p c" "qs_log2_entries q = 4" "unat (qs_producer q) < 32"
  shows "unat (qs_producer q) = p mod 32"
proof -
  have "take_bit 5 (qs_producer q) = take_bit 5 (of_nat p)" using assms(1,2) by (simp add: qs_rep_def)
  then have "unat (take_bit 5 (qs_producer q)) = p mod 2 ^ 5" by (simp only: unat_take_of_nat)
  then show ?thesis using mask5_keeps [OF assms(3)] by (simp add: take_bit_eq_mask)
qed

lemma submit_answer:
  assumes a: "smmu_answers b cr0 irq prd" and c: "caught_up prd w" and r: "cr_ready (sw_commands w)" and n: "length cs \<le> 15"
  shows "fst (submit b cs w) \<and> caught_up prd (snd (submit b cs w)) \<and> cr_ready (sw_commands (snd (submit b cs w)))
    \<and> produced (snd (submit b cs w)) = (produced w + length cs + 1) mod 32 \<and> sw_event_cons (snd (submit b cs w)) = sw_event_cons w"
proof -
  let ?r = "sw_commands w" let ?q = "cr_queue (sw_commands w)"
  define w1 where "w1 = snd (wait_idle b w)"
  define w2 where "w2 = snd (on_hw (bd_read32 b kCmdqCons) w1)"
  note i = wait_idle_answer [OF a c, folded w1_def]
  have q: "prd (sw_hw w) = qs_producer ?q" "unat (qs_producer ?q) < 32" "qs_log2_entries ?q = 4" "length (cr_entries ?r) = 16"
    using c by (simp_all add: caught_up_def)
  have cons: "fst (on_hw (bd_read32 b kCmdqCons) w1) = qs_producer ?q" and w2: "sw_commands w2 = ?r" "caught_up prd w2"
    using i(2,3) answersD(3,5) [OF a] unfolding w2_def caught_up_def on_hw_def by simp_all
  define st where "st = ?q\<lparr>qs_consumer := qs_producer ?q AND qs_pointer_mask ?q\<rparr>"
  have "qs_used st = 0" using q(2,3) by (simp add: st_def qs_used_def pointer_mask4 mask5_keeps)
  moreover have v: "qs_valid st" using q(3) by (simp add: st_def qs_valid_def kMaxQueueLog2Entries_def)
  ultimately have "qs_consistent st" by (simp add: qs_consistent_def)
  note rep = consistent_rep [OF this]
  have s4: "qs_log2_entries st = 4" "unat (qs_producer st) < 32" using q by (simp_all add: st_def)
  obtain q' es' where sc: "stage_commands (cs @ [make_command_sync]) st (cr_entries ?r) = (True, q', es')" "length es' = length (cr_entries ?r)"
      "qs_log2_entries q' = 4" "unat (qs_producer q') < 32" "qs_rep q' (unat (qs_producer ?q) + (length cs + 1)) (unat (qs_producer ?q))"
    using stage_commands_ok [OF rep s4(1) _ s4(2), of "cs @ [make_command_sync]" "cr_entries ?r"] n \<open>qs_used st = 0\<close>
      mask5_keeps [OF q(2)] pointer_mask4 [OF q(3)] by (auto simp: st_def)
  have ev: "sw_event_cons w2 = sw_event_cons w" by (simp add: w1_def w2_def on_hw_def wait_idle_def Let_def)
  define w3 where "w3 = upd_hw_smmu (bd_write32 b kCmdqProd (qs_producer q'))
    (upd_ring (\<lambda>r. r\<lparr>cr_queue := q'\<rparr>) (publish_memory b (upd_ring (\<lambda>r. r\<lparr>cr_entries := es'\<rparr>) w2)))"
  have c3: "caught_up prd w3" "cr_ready (sw_commands w3)"
    using sc q(4) w2 r answersD(8) [OF a, of kCmdqProd] c
    by (simp_all add: w3_def caught_up_def upd_hw_smmu_def upd_ring_def publish_memory_def)
  have "submit b cs w = wait_idle b w3"
    using n r q(4) i(1) sc(1) unfolding submit_def w3_def
    by (simp add: case_prod_unfold Let_def cons st_def [symmetric] w1_def [symmetric] w2_def [symmetric] w2(1))
  moreover have "produced w3 = (produced w + length cs + 1) mod 32"
    using small_rep [OF sc(5,3,4)] by (simp add: produced_def w3_def upd_hw_smmu_def upd_ring_def publish_memory_def add.assoc)
  moreover have "sw_event_cons (snd (wait_idle b w3)) = sw_event_cons w"
    using ev by (simp add: w3_def on_hw_def wait_idle_def Let_def upd_hw_smmu_def upd_ring_def publish_memory_def)
  ultimately show ?thesis using wait_idle_answer [OF a c3(1)] c3(2) by (simp add: produced_def)
qed

lemma submit_all_answer:
  assumes a: "smmu_answers b cr0 irq prd"
  shows "caught_up prd w \<Longrightarrow> cr_ready (sw_commands w) \<Longrightarrow> \<forall>cs \<in> set css. length cs \<le> 15
    \<Longrightarrow> fst (submit_all b css w) \<and> caught_up prd (snd (submit_all b css w)) \<and> cr_ready (sw_commands (snd (submit_all b css w)))
      \<and> produced (snd (submit_all b css w)) mod 32 = (produced w + sum_list (map (\<lambda>cs. length cs + 1) css)) mod 32
      \<and> sw_event_cons (snd (submit_all b css w)) = sw_event_cons w"
proof (induction css arbitrary: w)
  case (Cons cs css)
  have l: "length cs \<le> 15" using Cons.prems(3) by simp
  note s = submit_answer [OF a Cons.prems(1,2) l]
  show ?case using Cons.IH [of "snd (submit b cs w)"] s Cons.prems(3)
    by (simp add: case_prod_unfold) (metis add.assoc mod_add_left_eq plus_1_eq_Suc add_Suc_right add_Suc)
qed simp

lemma chunks_length: "0 < n \<Longrightarrow> cs \<in> set (chunks n xs) \<Longrightarrow> length cs \<le> n"
proof (induction n xs rule: chunks.induct)
  case (1 n xs)
  then show ?case by (subst (asm) (2) chunks.simps) (auto split: if_splits)
qed

section \<open>Bring-up\<close>

lemma caught_up_write:
  assumes "smmu_answers b cr0 irq prd" "caught_up prd w" "off \<noteq> kCmdqProd"
  shows "caught_up prd (upd_hw_smmu (bd_write32 b off v) w)"
  using assms(2,3) answersD(8) [OF assms(1)] by (simp add: caught_up_def upd_hw_smmu_def)

lemma caught_up_synced:
  assumes "smmu_answers b cr0 irq prd" "caught_up prd w" "0 < n" "off = kCr0 \<and> ack = kCr0Ack \<or> off = kIrqCtrl \<and> ack = kIrqAck"
  shows "caught_up prd (snd (on_hw (write_synced b off ack v n) w))" "fst (on_hw (write_synced b off ack v n) w)"
  using assms(2) write_synced_answer [OF assms(1,3,4)] by (simp_all add: caught_up_def on_hw_def)

lemma on_hw_commands [simp]: "sw_commands (snd (on_hw f w)) = sw_commands w" "sw_commands (upd_hw_smmu g w) = sw_commands w"
  by (simp_all add: on_hw_def upd_hw_smmu_def)

lemma bring_up_answer:
  assumes a: "smmu_answers b cr0 irq prd" and q: "qs_producer (cr_queue (sw_commands w)) = 0" "qs_log2_entries (cr_queue (sw_commands w)) = 4"
    "length (cr_entries (sw_commands w)) = 16" "0 < cr_poll_limit (sw_commands w)"
  shows "fst (bring_up_translation b layout n w) = BsNone" "caught_up prd (snd (bring_up_translation b layout n w))"
    "cr_ready (sw_commands (snd (bring_up_translation b layout n w)))"
    "sw_event_cons (snd (bring_up_translation b layout n w)) = sw_event_cons w"
    "produced (snd (bring_up_translation b layout n w)) = (sum_list (map (\<lambda>cs. length cs + 1)
       (chunks 15 (map (\<lambda>sid. make_cfgi_ste (of_nat sid)) [0 ..< n]))) + 2) mod 32"
proof -
  let ?n = "cr_poll_limit (sw_commands w)"
  note k = kCr0_def kCr0Ack_def kIrqCtrl_def kIrqAck_def kCmdqProd_def kCmdqCons_def kStrtabBaseCfg_def kCr1_def kCr2_def kEvtqProd_def kEvtqCons_def
  define w1 where "w1 = upd_hw_smmu (\<lambda>h. bd_write32 b kCmdqCons 0 (bd_write32 b kCmdqProd 0
                (bd_write64 b kCmdqBase (queue_base (rl_command_queue_pa layout) (rl_command_log2 layout))
                (bd_write32 b kStrtabBaseCfg (stream_table_config (rl_sid_bits layout))
                (bd_write64 b kStrtabBase (stream_table_base (rl_stream_table_pa layout))
                (bd_write32 b kCr2 kCr2Protected (bd_write32 b kCr1 kCr1Cacheable h))))))) w"
  have c1: "caught_up prd w1" "sw_commands w1 = sw_commands w"
    using q answersD(8) [OF a] by (simp_all add: w1_def caught_up_def upd_hw_smmu_def k)
  define w2 where "w2 = snd (on_hw (write_synced b kCr0 kCr0Ack kCr0CmdqEnable ?n) w1)"
  note s2 = caught_up_synced [OF a c1(1) q(4), of kCr0 kCr0Ack kCr0CmdqEnable, folded w2_def]
  define w3 where "w3 = upd_ring (\<lambda>r. r\<lparr>cr_ready := True\<rparr>) w2"
  have c3: "caught_up prd w3" "cr_ready (sw_commands w3)" "length (cr_entries (sw_commands w3)) = 16"
    using s2 q by (simp_all add: w3_def upd_ring_def caught_up_def)
  let ?css = "chunks (min kMaxCommandBatch (length (cr_entries (sw_commands w3)) - 1)) (map (\<lambda>sid. make_cfgi_ste (of_nat sid)) [0 ..< n])"
  have l: "\<forall>cs \<in> set ?css. length cs \<le> 15" using chunks_length [of 15] c3(3) by (auto simp: kMaxCommandBatch_def)
  define w4 where "w4 = snd (submit_all b ?css w3)"
  note s4 = submit_all_answer [OF a c3(1,2) l, folded w4_def]
  define w5 where "w5 = snd (submit b [make_tlbi_nsnh_all] w4)"
  note s5 = submit_answer [OF a, of w4 "[make_tlbi_nsnh_all]", folded w5_def]
  define w6 where "w6 = upd_hw_smmu (\<lambda>h. bd_write32 b kEvtqCons 0 (bd_write32 b kEvtqProd 0
                     (bd_write64 b kEvtqBase (queue_base (rl_event_queue_pa layout) (rl_event_log2 layout)) h))) w5"
  have c6: "caught_up prd w6" using s5 s4 answersD(8,9) [OF a] by (simp add: w6_def caught_up_def upd_hw_smmu_def k)
  define w7 where "w7 = snd (on_hw (write_synced b kCr0 kCr0Ack (kCr0CmdqEnable OR kCr0EvtqEnable) ?n) w6)"
  note s7 = caught_up_synced [OF a c6 q(4), of kCr0 kCr0Ack "kCr0CmdqEnable OR kCr0EvtqEnable", folded w7_def]
  define w8 where "w8 = snd (on_hw (write_synced b kIrqCtrl kIrqAck 0 ?n) w7)"
  note s8 = caught_up_synced [OF a s7(1) q(4), of kIrqCtrl kIrqAck 0, folded w8_def]
  define w9 where "w9 = upd_hw_smmu (bd_write32 b kGerrorN (fst (on_hw (bd_read32 b kGerror) w8))) (snd (on_hw (bd_read32 b kGerror) w8))"
  have c9: "caught_up prd w9" using s8 answersD(5,8) [OF a] by (simp add: w9_def caught_up_def upd_hw_smmu_def on_hw_def k kGerrorN_def)
  have cmd: "sw_commands w9 = sw_commands w5" by (simp add: w9_def w8_def w7_def w6_def)
  have ev: "sw_event_cons w9 = sw_event_cons w5" "sw_event_cons w3 = sw_event_cons w" "produced w3 = produced w"
    by (simp_all add: w9_def w8_def w7_def w6_def w3_def w2_def w1_def upd_hw_smmu_def on_hw_def upd_ring_def produced_def)
  have "produced w5 = (sum_list (map (\<lambda>cs. length cs + 1) ?css) + 2) mod 32"
  proof -
    have "produced w = 0" using q(1) by (simp add: produced_def)
    then have "produced w4 mod 32 = sum_list (map (\<lambda>cs. length cs + 1) ?css) mod 32" using s4 ev(3) by simp
    from mod_add_cong [OF this refl, of 2] show ?thesis using s4 s5 by simp
  qed
  moreover have "bring_up_translation b layout n w = (BsNone, w9)"
    unfolding bring_up_translation_def Let_def case_prod_unfold
      w1_def [symmetric] w2_def [symmetric] w3_def [symmetric] w4_def [symmetric] w5_def [symmetric] w6_def [symmetric] w7_def [symmetric]
      w8_def [symmetric] w9_def [symmetric]
    using s2 s4 s5 s7 s8 by simp
  ultimately show "fst (bring_up_translation b layout n w) = BsNone" "caught_up prd (snd (bring_up_translation b layout n w))"
    "cr_ready (sw_commands (snd (bring_up_translation b layout n w)))"
    "sw_event_cons (snd (bring_up_translation b layout n w)) = sw_event_cons w"
    "produced (snd (bring_up_translation b layout n w)) = (sum_list (map (\<lambda>cs. length cs + 1)
       (chunks 15 (map (\<lambda>sid. make_cfgi_ste (of_nat sid)) [0 ..< n]))) + 2) mod 32"
    using c9 s4 s5 ev cmd c3(3) by (simp_all add: kMaxCommandBatch_def produced_def)
qed

lemma build_contexts_ring [simp]: "sw_commands (snd (build_contexts b vms w)) = sw_commands w"
    "sw_event_cons (snd (build_contexts b vms w)) = sw_event_cons w"
  by (induction vms arbitrary: w) (simp_all split: option.split prod.split bool.split)

lemma configure_streams_ring [simp]: "sw_commands (snd (configure_streams n as w)) = sw_commands w"
    "sw_event_cons (snd (configure_streams n as w)) = sw_event_cons w"
  by (induction as arbitrary: w) (simp_all add: Let_def case_prod_unfold set_binding_def)

lemma build_dma_contexts_ring: "sw_commands (snd (build_dma_contexts b caps w)) = sw_commands w"
    "sw_event_cons (snd (build_dma_contexts b caps w)) = sw_event_cons w"
  by (simp_all add: build_dma_contexts_def Let_def case_prod_unfold publish_memory_def)

lemma smmu_init_state:
  assumes "smmu_answers b cr0 irq prd"
    and "bd_read32 b kIdr0 = (\<lambda>h. (idr0, h))" "bd_read32 b kIdr1 = (\<lambda>h. (idr1, h))" "bd_read32 b kIdr5 = (\<lambda>h. (idr5, h))" "idr0 \<noteq> 0"
    and "validate_capabilities (decode_capabilities idr0 idr1 idr5) (layout_of b) = ReNone"
    and "fst (build_dma_contexts b (decode_capabilities idr0 idr1 idr5) (smmu_clear (snd (on_hw (shut_down b kPollLimit) w))))"
    and "\<And>i h. bd_enable_spi b i 0 SpiEdge h = (True, h)"
    and "qs_log2_entries (cr_queue (sw_commands w)) = 4" "0 < cr_poll_limit (sw_commands w)"
  shows "fst (smmu_init b w) = None" "caught_up prd (snd (smmu_init b w))" "cr_ready (sw_commands (snd (smmu_init b w)))"
    "sw_event_cons (snd (smmu_init b w)) = sw_event_cons (snd (build_dma_contexts b (decode_capabilities idr0 idr1 idr5)
        (smmu_clear (snd (on_hw (shut_down b kPollLimit) w)))))" "sw_enabled (snd (smmu_init b w))"
    "produced (snd (smmu_init b w)) = (sum_list (map (\<lambda>cs. length cs + 1)
       (chunks 15 (map (\<lambda>sid. make_cfgi_ste (of_nat sid)) [0 ..< kStreamCount]))) + 2) mod 32"
    "domains (snd (smmu_init b w)) = domains (snd (build_dma_contexts b (decode_capabilities idr0 idr1 idr5)
        (smmu_clear (snd (on_hw (shut_down b kPollLimit) w)))))"
proof -
  have p: "0 < kPollLimit" by (simp add: kPollLimit_def)
  let ?w = "smmu_clear (snd (on_hw (shut_down b kPollLimit) w))"
  define w1 where "w1 = snd (build_dma_contexts b (decode_capabilities idr0 idr1 idr5) ?w)"
  have ring: "sw_commands w1 = sw_commands ?w" unfolding w1_def by (rule build_dma_contexts_ring(1))
  have r: "sw_commands (publish_memory b w1) = sw_commands ?w" using ring by (simp add: publish_memory_def)
  define w2 where "w2 = snd (bring_up_translation b (layout_of b) kStreamCount (publish_memory b w1))"
  have q: "qs_producer (cr_queue (sw_commands (publish_memory b w1))) = 0" "qs_log2_entries (cr_queue (sw_commands (publish_memory b w1))) = 4"
    "length (cr_entries (sw_commands (publish_memory b w1))) = 16" "0 < cr_poll_limit (sw_commands (publish_memory b w1))"
    using r assms(9,10) by (simp_all add: smmu_clear_def kCommandCount_def)
  note up = bring_up_answer [OF assms(1) q, of "layout_of b" kStreamCount, folded w2_def]
  have same: "on_hw (\<lambda>h. (x, h)) v = (x, v)" for x :: 'x and v :: "('a, 'b) SmmuWorld_scheme" by (simp add: on_hw_def)
  have en: "bd_enable_spi b i 0 SpiEdge = (\<lambda>h. (True, h))" for i using assms(8) by auto
  have "smmu_init b w = (None, (snd (on_hw (enable_faults b kPollLimit) w2))\<lparr>sw_enabled := True\<rparr>)"
    unfolding smmu_init_def assms(2-4) same en Let_def case_prod_unfold fst_conv snd_conv
    using assms(5-7) up(1) shut_down_answer [OF assms(1) p] enable_faults_answer [OF assms(1) p] by (simp add: w1_def w2_def on_hw_def)
  moreover have "prd (snd (enable_faults b kPollLimit h)) = prd h" for h
    using write_synced_answer [OF assms(1) p] by (simp add: enable_faults_def case_prod_unfold)
  moreover have "domains w2 = domains w1" using bring_up_ok(1) [of b "layout_of b" kStreamCount "publish_memory b w1"]
    by (simp add: w2_def domains_def)
  ultimately show "fst (smmu_init b w) = None" "caught_up prd (snd (smmu_init b w))" "cr_ready (sw_commands (snd (smmu_init b w)))"
    "sw_event_cons (snd (smmu_init b w)) = sw_event_cons (snd (build_dma_contexts b (decode_capabilities idr0 idr1 idr5)
        (smmu_clear (snd (on_hw (shut_down b kPollLimit) w)))))" "sw_enabled (snd (smmu_init b w))"
    "produced (snd (smmu_init b w)) = (sum_list (map (\<lambda>cs. length cs + 1)
       (chunks 15 (map (\<lambda>sid. make_cfgi_ste (of_nat sid)) [0 ..< kStreamCount]))) + 2) mod 32"
    "domains (snd (smmu_init b w)) = domains (snd (build_dma_contexts b (decode_capabilities idr0 idr1 idr5)
        (smmu_clear (snd (on_hw (shut_down b kPollLimit) w)))))"
    using up by (simp_all add: caught_up_def on_hw_def w1_def produced_def domains_def publish_memory_def)
qed


section \<open>Attach\<close>

lemma caught_up_publish: "smmu_answers b cr0 irq prd \<Longrightarrow> caught_up prd w \<Longrightarrow> caught_up prd (publish_memory b w)"
  using answersD(10) by (fastforce simp: caught_up_def publish_memory_def)

lemma caught_up_steps [simp]:
  "caught_up prd (set_ste sid i v w) = caught_up prd w" "caught_up prd (set_binding sid x w) = caught_up prd w"
  "sw_commands (set_ste sid i v w) = sw_commands w" "sw_commands (set_binding sid x w) = sw_commands w"
  by (simp_all add: caught_up_def set_ste_def set_binding_def)

lemma caught_up_fold: "caught_up prd (fold (\<lambda>i. set_ste sid i (f i)) is w) = caught_up prd w"
    "sw_commands (fold (\<lambda>i. set_ste sid i (f i)) is w) = sw_commands w"
  by (induction "is" arbitrary: w) simp_all

lemma install_stream_answer:
  assumes a: "smmu_answers b cr0 irq prd" and c: "caught_up prd w" and r: "cr_ready (sw_commands w)"
    and e: "se_ok (make_stage2_ste (tc_root_pa x) (tc_vmid x))"
  shows "fst (submit b [make_cfgi_ste (of_nat sid)] (publish_memory b (set_ste sid 0 0 w)))"
    "fst (install_stream b sid x w)" "caught_up prd (snd (install_stream b sid x w))"
proof -
  let ?n = "se_entry (make_stage2_ste (tc_root_pa x) (tc_vmid x))"
  have p: "sw_commands (publish_memory b v) = sw_commands v" for v :: "('a, 'b) SmmuWorld_scheme" by (simp add: publish_memory_def)
  have pub: "caught_up prd v \<Longrightarrow> caught_up prd (publish_memory b v)" for v :: "('a, 'b) SmmuWorld_scheme" by (rule caught_up_publish [OF a])
  let ?w1 = "publish_memory b (set_ste sid 0 0 w)"
  have c1: "caught_up prd ?w1" "cr_ready (sw_commands ?w1)" using pub c r by (simp_all add: p)
  note s = submit_answer [OF a c1, of "[make_cfgi_ste (of_nat sid)]"]
  show s1: "fst (submit b [make_cfgi_ste (of_nat sid)] ?w1)" using s by simp
  define w2 where "w2 = snd (submit b [make_cfgi_ste (of_nat sid)] ?w1)"
  let ?w4 = "publish_memory b (set_ste sid 0 (?n ! 0) (publish_memory b (fold (\<lambda>i. set_ste sid i (?n ! i)) [1 ..< length ?n] w2)))"
  have c4: "caught_up prd ?w4" "cr_ready (sw_commands ?w4)"
    using s pub by (simp_all add: p w2_def caught_up_fold)
  have "install_stream b sid x w = submit b [make_cfgi_ste (of_nat sid), make_tlbi_s12_vmall (tc_vmid x)] ?w4"
    using e s1 by (simp add: install_stream_def case_prod_unfold Let_def w2_def)
  then show "fst (install_stream b sid x w)" "caught_up prd (snd (install_stream b sid x w))"
    using submit_answer [OF a c4, of "[make_cfgi_ste (of_nat sid), make_tlbi_s12_vmall (tc_vmid x)]"] by simp_all
qed

definition stream_ready :: "u64 \<Rightarrow> Domains \<Rightarrow> nat \<Rightarrow> bool" where
  "stream_ready g d sid \<longleftrightarrow> attached d sid \<or> can_attach (dm_bindings d ! sid) g"

lemma attach_streams_answer:
  assumes a: "smmu_answers b cr0 irq prd" and vm: "vm < dm_count (domains w)"
    and e: "se_ok (make_stage2_ste (tc_root_pa (sw_contexts w ! vm)) (tc_vmid (sw_contexts w ! vm)))"
    and "caught_up prd w" "cr_ready (sw_commands w)" "domains_ok b (domains w)" "tied (domains w)" "of_vm w vm sids" "\<forall>sid \<in> set sids. stream_ready g (domains w) sid"
  shows "fst (attach_streams b vm g sids w) = Some True
    \<and> caught_up prd (snd (attach_streams b vm g sids w)) \<and> cr_ready (sw_commands (snd (attach_streams b vm g sids w)))
    \<and> (\<forall>sid \<in> set sids. attached (domains w) sid \<or> dm_table (domains (snd (attach_streams b vm g sids w))) ! sid
        = se_entry (make_stage2_ste (tc_root_pa (sw_contexts w ! vm)) (tc_vmid (sw_contexts w ! vm))))
    \<and> (\<forall>sid < kStreamCount. attached (domains w) sid \<longrightarrow> dm_table (domains (snd (attach_streams b vm g sids w))) ! sid = dm_table (domains w) ! sid)"
  using assms(2-)
proof (induction sids arbitrary: w)
  case Nil
  then show ?case by simp
next
  case (Cons sid sids)
  let ?x = "sw_bindings w ! sid" let ?c = "sw_contexts w ! vm" let ?e = "se_entry (make_stage2_ste (tc_root_pa ?c) (tc_vmid ?c))"
  have s: "sid < kStreamCount" "owner (domains w) sid = vm" and rest: "of_vm w vm sids" using Cons.prems(7) by (simp_all add: of_vm_def)
  have rr: "\<forall>sid \<in> set sids. stream_ready g (domains w) sid" using Cons.prems(8) by simp
  show ?case
  proof (cases "sb_state ?x = DsAttached")
    case True
    then show ?thesis using Cons.IH [OF Cons.prems(1-6) rest rr] by (simp add: sw_domains)
  next
    case False
    note i = install_stream_answer [OF a Cons.prems(3,4,2)]
    note l = entry_size [OF Cons.prems(5)]
    note en = install_stream_entry [OF l(2) l(1) [OF s(1)] s(1) Cons.prems(2) i(1)]
    define w1 where "w1 = snd (install_stream b sid ?c w)"
    define w2 where "w2 = set_binding sid (?x\<lparr>sb_generation := g, sb_state := DsAttached\<rparr>) w1"
    have bi: "sw_bindings w1 = sw_bindings w" using en(1) by (simp add: w1_def sw_domains)
    have "can_attach ?x g" using Cons.prems(8) False by (simp add: stream_ready_def sw_domains)
    then have q: "attach_streams b vm g (sid # sids) w = attach_streams b vm g sids w2"
      using False i(2) bi by (simp add: case_prod_unfold Let_def mark_attached_def w1_def w2_def)
    have op: "smmu_op b {vm} w w1" using install_stream_ok(1) [OF Cons.prems(5) s Cons.prems(1)] by (simp add: w1_def)
    have d1: "domains w1 = (domains w)\<lparr>dm_table := (dm_table (domains w))[sid := ?e]\<rparr>" using en(1) by (simp add: w1_def)
    have d2: "domains w2 = (domains w1)\<lparr>dm_bindings := (dm_bindings (domains w))[sid := ?x\<lparr>sb_generation := g, sb_state := DsAttached\<rparr>]\<rparr>"
      using bi by (simp add: w2_def set_binding_def domains_def)
    have ok2: "domains_ok b (domains w2)"
      using kept_binding [OF smmu_opD(1) [OF op] s(1), of "?x\<lparr>sb_generation := g, sb_state := DsAttached\<rparr>"] d1 d2 by (simp add: sw_domains)
    have t2: "tied (domains w2)"
      using Cons.prems(6) l s by (auto simp: tied_def d2 d1 nth_upd)
    have o2: "of_vm w2 vm sids" using rest l s by (auto simp: of_vm_def d2 d1 nth_upd sw_domains)
    have r2: "\<forall>sid \<in> set sids. stream_ready g (domains w2) sid"
      using rr rest l s by (auto simp: stream_ready_def d2 d1 nth_upd of_vm_def)
    have c2: "caught_up prd w2" "cr_ready (sw_commands w2)" using i(3) en(2) Cons.prems(4) by (simp_all add: w2_def w1_def)
    have k2: "sw_contexts w2 = sw_contexts w" "dm_count (domains w2) = dm_count (domains w)" by (simp_all add: sw_domains d2 d1)
    note ih = Cons.IH [of w2, unfolded k2, OF Cons.prems(1,2) c2 ok2 t2 o2 r2]
    have at2: "attached (domains w2) i \<longleftrightarrow> i = sid \<or> attached (domains w) i" if "i < kStreamCount" for i
      using that l s by (simp add: d2 d1 nth_upd)
    have tb2: "dm_table (domains w2) ! i = (if i = sid then ?e else dm_table (domains w) ! i)" if "i < kStreamCount" for i
      using that l s by (simp add: d2 d1 nth_upd)
    have lt: "\<forall>i \<in> set sids. i < kStreamCount" using rest by (simp add: of_vm_def)
    have na: "\<not> attached (domains w) sid" using False by (simp add: sw_domains)
    show ?thesis unfolding q using ih at2 tb2 lt s na by (auto split: if_splits)
  qed
qed

lemma stage2_entry_open: "se_ok (make_stage2_ste root vmid) \<Longrightarrow> ste_open (se_entry (make_stage2_ste root vmid))"
  by (auto simp: make_stage2_ste_def se_ok_def ste_open_def kSteValid_def kConfigShift_def kStage2Only_def kConfigMask_def split: if_splits)

text \<open>
  An attach that may proceed completes. On a device that answers, in a sound state
  of the domains, a request to attach a VM all of whose streams are attached or may be
  is granted: it does not panic half-way, and each stream that was not attached carries
  the complete, open Stage 2 entry of the VM afterwards.
\<close>

lemma attach_vm_opens:
  assumes "smmu_answers b cr0 irq prd" "caught_up prd w" "cr_ready (sw_commands w)" "domains_ok b (domains w)" "tied (domains w)"
    and "vm < sw_context_count w" "generation \<noteq> 0" "can_attach_vm (sw_bindings w) (streams_of (sw_vm_streams w) vm) generation"
    and "se_ok (make_stage2_ste (tc_root_pa (sw_contexts w ! vm)) (tc_vmid (sw_contexts w ! vm)))"
  shows "fst (attach_vm b vm generation w) = Some True
    \<and> (\<forall>sid \<in> set (streams_of (sw_vm_streams w) vm). sb_state (sw_bindings w ! sid) \<noteq> DsAttached
        \<longrightarrow> ste_open (sw_stream_table (snd (attach_vm b vm generation w)) ! sid))"
proof -
  let ?sids = "streams_of (sw_vm_streams w) vm"
  have vm: "vm < dm_count (domains w)" using assms(6) by (simp add: sw_domains)
  have r: "\<forall>sid \<in> set ?sids. stream_ready generation (domains w) sid"
    using assms(8) unfolding can_attach_vm_def stream_ready_def sw_domains by meson
  note at = attach_streams_answer [OF assms(1) vm assms(9,2-5) of_vm_streams [OF assms(4) vm] r]
  have "attach_vm b vm generation w = attach_streams b vm generation ?sids w"
    using assms(3,6,7,8) by (simp add: attach_vm_def)
  moreover have "sw_stream_table v = dm_table (domains v)" for v :: "('a, 'b) SmmuWorld_scheme" by (simp add: domains_def)
  ultimately show ?thesis using at stage2_entry_open [OF assms(9)] by (auto simp: sw_domains)
qed

section \<open>A small device\<close>

text \<open>Three registers: CR0, IRQ_CTRL and the producer of the command queue. One guest, one stream.\<close>

type_synonym wit_regs = "u32 \<times> u32 \<times> u32"

definition wit_dma_guest :: GuestDescriptor where
  "wit_dma_guest = sample_guest\<lparr>gd_ipa_base := 0x50000000, gd_load_pa := 0x60000000, gd_ipa_size := 0x200000, gd_vmid := 1, gd_vcpus := 1,
     gd_cpu := [0, 0, 0, 0], gd_auto_start := True\<rparr>"

definition wit_board :: "wit_regs Board" where
  "wit_board = \<lparr>bd_read32 = (\<lambda>off (cr0, irq, prd).
       (if off = kIdr0 then 0x19 else if off = kIdr1 then 0x840005 else if off = kIdr5 then 0x12
        else if off = kCr0Ack then cr0 else if off = kIrqAck then irq else if off = kCmdqCons then prd else 0, cr0, irq, prd)),
     bd_write32 = (\<lambda>off v (cr0, irq, prd). (if off = kCr0 then v else cr0, if off = kIrqCtrl then v else irq, if off = kCmdqProd then v else prd)),
     bd_write64 = (\<lambda>off v h. h), bd_publish = (\<lambda>m h. h), bd_event = (\<lambda>i h. [0, 0, 0, 0]), bd_now = (\<lambda>h. 0), bd_hz = 1000000,
     bd_enable_spi = (\<lambda>i c t h. (True, h)), bd_configure_spi = (\<lambda>i c t h. (True, h)), bd_mask_spi = (\<lambda>i h. (True, h)),
     bd_unmask_spi = (\<lambda>i h. (True, h)), bd_clear_pending_spi = (\<lambda>i h. (True, h)), bd_event_intid = 106, bd_command_intid = 107,
     bd_error_intid = 109, bd_guests = [wit_dma_guest], bd_assignments = [\<lparr>as_device_id = 3, as_stream_id = 8, as_vm = 0\<rparr>],
     bd_devices = [\<lparr>ds_device_id = 3, ds_stream_id = 8\<rparr>], bd_protected = [\<lparr>pr_base = 0x40000000, pr_size = 0x10000000\<rparr>],
     bd_stream_table_pa = 0x40100000, bd_command_queue_pa = 0x40200000, bd_event_queue_pa = 0x40300000,
     bd_l1_pa = (\<lambda>vm. 0x40400000), bd_l2_pa = (\<lambda>vm. 0x40401000), bd_l3_pa = (\<lambda>vm i. 0x40402000 + push_bit 12 (of_nat i))\<rparr>"

definition wit_sw :: "wit_regs SmmuWorld" where
  "wit_sw = \<lparr>sw_hw = (0, 0, 0), sw_stream_table = [], sw_commands = \<lparr>cr_entries = [],
       cr_queue = \<lparr>qs_log2_entries = 4, qs_producer = 0, qs_consumer = 0\<rparr>, cr_poll_limit = kPollLimit, cr_ready = False\<rparr>,
     sw_tables = replicate kMaxGuests (tables_of wit_board 0), sw_contexts = [], sw_bindings = [], sw_vm_streams = [], sw_context_count = 0,
     sw_enabled = False, sw_event_cons = 0, sw_audit_events = 0, sw_notices = []\<rparr>"

lemma wit_answers: "smmu_answers wit_board fst (fst \<circ> snd) (snd \<circ> snd)"
  by (auto simp: smmu_answers_def wit_board_def kIdr0_def kIdr1_def kIdr5_def kCr0Ack_def kIrqAck_def kCmdqCons_def kGbpa_def kGbpaUpdate_def)

lemma wit_idr: "bd_read32 wit_board kIdr0 = (\<lambda>h. (0x19, h))" "bd_read32 wit_board kIdr1 = (\<lambda>h. (0x840005, h))" "bd_read32 wit_board kIdr5 = (\<lambda>h. (0x12, h))"
  by (auto simp: wit_board_def kIdr0_def kIdr1_def kIdr5_def fun_eq_iff)

lemma wit_capable: "validate_capabilities (decode_capabilities 0x19 0x840005 0x12) (layout_of wit_board) = ReNone"
  by code_simp

lemma wit_table: "\<exists>t. build_dma_table (tables_of wit_board 0) wit_dma_guest = Some (True, t)"
  by (simp add: build_dma_table_def wit_dma_guest_def sample_guest_def tables_of_def kDmaL3PoolSize_def
        map_range_def map_range_refused_def k4KiB_value limit_values init_tables_def
        map_l1.simps select_l2_def l1_index_div kInvalid_def is_valid_def
        descriptor_type_def desc_consts kL1Shift_def map_region_eq takes_block_def k2MiB_value)

lemma wit_policy: "pc_ok (validate_full_policy (bd_assignments wit_board) (bd_devices wit_board) (bd_guests wit_board)
    \<lparr>pl_sid_bits = kSidBits, pl_protected_pa = bd_protected wit_board\<rparr>)"
  by (simp add: validate_full_policy_def validate_policy_def validate_device_policy_def guest_policy_error_def
        assignment_policy_error_def device_stream_error_def device_found_def device_incomplete_def
        guest_range_valid_def range_well_formed_def ranges_overlap_def sample_guest_def kPageSize_def
        sid_out_of_range_def kNoDevice_def pc_ok_def pc_pass_def wit_board_def wit_dma_guest_def kSidBits_def)

lemma wit_index: "build_stream_index 32 ((replicate 32 binding_none)[8 := binding_none\<lparr>sb_owner_vm := 0\<rparr>]) = [[8], [], [], []]"
proof -
  let ?bs = "(replicate 32 binding_none)[8 := binding_none\<lparr>sb_owner_vm := 0\<rparr>]"
  have none: "fold (index_stream 32 ?bs) xs ix = ix" if "\<forall>i \<in> set xs. i < 32 \<and> i \<noteq> 8" for xs ix
    using that by (induction xs arbitrary: ix) (simp_all add: index_stream_def sb_configured_def binding_none_def Let_def)
  have s: "[0 ..< 32] = [0 ..< 8] @ [8] @ [9 ..< (32 :: nat)]" by code_simp
  have "build_stream_index 32 ?bs = index_stream 32 ?bs 8 (replicate kMaxGuests [])"
    unfolding build_stream_index_def using none [of "[0 ..< 8]"] none [of "[9 ..< 32]"] by (simp add: s)
  moreover have "replicate 4 [] = [[], [], [], [] :: nat list]" by (simp add: numeral_eq_Suc)
  ultimately show ?thesis by (simp add: index_stream_def sb_configured_def Let_def kMaxGuests_def kNoVm_def)
qed

lemma wit_contexts:
  "fst (build_dma_contexts wit_board (decode_capabilities 0x19 0x840005 0x12) w)"
  "\<exists>t. domains (snd (build_dma_contexts wit_board (decode_capabilities 0x19 0x840005 0x12) w)) =
     \<lparr>dm_table = (sw_stream_table w)[8 := make_abort_ste], dm_tables = (sw_tables w)[0 := t],
      dm_contexts = (replicate 4 context_none)[0 := \<lparr>tc_owner_vm = 0, tc_vmid = 1, tc_root_pa = 0x40400000\<rparr>],
      dm_bindings = (replicate 32 binding_none)[8 := binding_none\<lparr>sb_owner_vm := 0\<rparr>], dm_streams = [[8], [], [], []], dm_count = 1\<rparr>"
proof -
  obtain t where t: "build_dma_table (tables_of wit_board 0) wit_dma_guest = Some (True, t)" using wit_table by blast
  have v: "validate_contexts [\<lparr>tc_owner_vm = 0, tc_vmid = gd_vmid wit_dma_guest, tc_root_pa = bd_l1_pa wit_board 0\<rparr>] [wit_dma_guest]
      (cp_vmid16 (decode_capabilities 0x19 0x840005 0x12)) = CeNone"
    by code_simp
  have g: "bd_guests wit_board = [wit_dma_guest]" "bd_assignments wit_board = [\<lparr>as_device_id = 3, as_stream_id = 8, as_vm = 0\<rparr>]"
    by (simp_all add: wit_board_def)
  have one: "take (Suc 0) ((replicate 4 x)[0 := y]) = [y]" for x y :: TranslationContext by (simp add: numeral_eq_Suc)
  let ?c = "(replicate 4 context_none)[0 := \<lparr>tc_owner_vm = 0, tc_vmid = gd_vmid wit_dma_guest, tc_root_pa = bd_l1_pa wit_board 0\<rparr>]"
  let ?bs = "(replicate 32 binding_none)[8 := binding_none\<lparr>sb_owner_vm := 0\<rparr>]"
  define w0 where "w0 = w\<lparr>sw_contexts := replicate 4 context_none, sw_bindings := replicate 32 binding_none, sw_vm_streams := replicate 4 []\<rparr>"
  define w1 where "w1 = w0\<lparr>sw_tables := (sw_tables w)[0 := t], sw_contexts := ?c\<rparr>"
  define w2 where "w2 = w1\<lparr>sw_context_count := 1, sw_bindings := ?bs, sw_stream_table := (sw_stream_table w)[8 := make_abort_ste]\<rparr>"
  have 1: "build_contexts wit_board [0] w0 = (True, w1)" using t by (simp add: w1_def w0_def g)
  have "\<not> sb_configured binding_none" "sb_state binding_none = DsDetached" by (simp_all add: sb_configured_def binding_none_def)
  then have b: "configure_binding binding_none 0 1 = (True, binding_none\<lparr>sb_owner_vm := 0\<rparr>)"
    by (simp add: configure_binding_def binding_none_def)
  have "sw_bindings w1 ! 8 = binding_none" "length (sw_bindings w1) = 32" by (simp_all add: w1_def w0_def)
  then have 2: "configure_streams 1 (bd_assignments wit_board) (w1\<lparr>sw_context_count := 1\<rparr>) = (True, w2)"
    using b by (simp add: g Let_def set_binding_def w2_def w1_def w0_def)
  have 3: "validate_contexts (take 1 (sw_contexts w1)) (bd_guests wit_board) (cp_vmid16 (decode_capabilities 0x19 0x840005 0x12)) = CeNone"
    using v by (simp add: w1_def one g)
  have "build_dma_contexts wit_board (decode_capabilities 0x19 0x840005 0x12) w
      = (True, publish_memory wit_board (w2\<lparr>sw_vm_streams := build_stream_index kStreamCount (sw_bindings w2)\<rparr>))"
    using wit_policy 1 2 3 unfolding build_dma_contexts_def
    by (simp add: g kMaxGuests_def kStreamCount_def w0_def [symmetric])
  moreover have "build_stream_index kStreamCount (sw_bindings w2) = [[8], [], [], []]"
    using wit_index by (simp add: w2_def kStreamCount_def)
  ultimately have B: "build_dma_contexts wit_board (decode_capabilities 0x19 0x840005 0x12) w
      = (True, publish_memory wit_board (w2\<lparr>sw_vm_streams := [[8], [], [], []]\<rparr>))" by simp
  then show "fst (build_dma_contexts wit_board (decode_capabilities 0x19 0x840005 0x12) w)" by simp
  show "\<exists>t. domains (snd (build_dma_contexts wit_board (decode_capabilities 0x19 0x840005 0x12) w)) =
     \<lparr>dm_table = (sw_stream_table w)[8 := make_abort_ste], dm_tables = (sw_tables w)[0 := t],
      dm_contexts = (replicate 4 context_none)[0 := \<lparr>tc_owner_vm = 0, tc_vmid = 1, tc_root_pa = 0x40400000\<rparr>],
      dm_bindings = (replicate 32 binding_none)[8 := binding_none\<lparr>sb_owner_vm := 0\<rparr>], dm_streams = [[8], [], [], []], dm_count = 1\<rparr>"
    unfolding B by (intro exI [of _ t]) (simp add: domains_def publish_memory_def w2_def w1_def w0_def wit_dma_guest_def wit_board_def)
qed


end
