(* ===== verification/NovaDmaThms.thy ===== *)
theory NovaDmaThms
  imports NovaDmaSystem NovaSmmuBringup
begin

text \<open>
  The properties of the program as a whole: the machine of the cores with the DMA
  device stack as the peer of its lifecycle coordinator. The boot state is the one in
  which the SMMU came up; a stack that did not come up takes no stream.
\<close>

section \<open>Boot\<close>

definition dma_boot :: "nat \<Rightarrow> 'h DmaBoard \<Rightarrow> 'h DmaSystem Env \<Rightarrow> 'h DmaSystem Machine \<Rightarrow> bool" where
  "dma_boot n b e m \<longleftrightarrow> cfg_ok n e \<and> en_peers e = dma_peers b \<and> en_guests e = bd_guests (db_board b) \<and> en_guests e \<noteq> []
     \<and> (\<exists>online timers hw g s s'. smmu_init (db_board b) s = (None, s') \<and> length (sw_tables s) = kMaxGuests
        \<and> ds_restored s = [] \<and> length online = n \<and> length timers = n \<and> length hw = n
        \<and> m = \<lparr>mc_w = vcpu_init e 0 (smp_zero n online timers hw g (dma_init b s')), mc_batch = replicate n [],
               mc_sched = replicate n False\<rparr>)"

lemma dma_boot_smp:
  assumes "dma_boot n b e m"
  shows "smp_boot n e (dma_moves b) sys_quiet (sys_ok b) m"
proof -
  from assms obtain online timers hw g s s' where
    c: "cfg_ok n e" "en_peers e = dma_peers b" "en_guests e \<noteq> []" and
    s: "smmu_init (db_board b) s = (None, s')" "length (sw_tables s) = kMaxGuests" "ds_restored s = []" and
    l: "length online = n" "length timers = n" "length hw = n" and
    m: "m = \<lparr>mc_w = vcpu_init e 0 (smp_zero n online timers hw g (dma_init b s')), mc_batch = replicate n [], mc_sched = replicate n False\<rparr>"
    unfolding dma_boot_def by blast
  note i = smmu_init_ok [OF s(1,2)]
  note d = init_ok [OF conjunct1 [OF i] conjunct1 [OF conjunct2 [OF i]]
      conjunct1 [OF conjunct2 [OF conjunct2 [OF i]]] conjunct1 [OF conjunct2 [OF conjunct2 [OF conjunct2 [OF i]]]]]
  have "SmmuWorld.more s' = SmmuWorld.more s" using i by simp
  then have "DmaWorld.more (dma_init b s') = DmaWorld.more s" using d(4) more_fields(4) [of s' s] by simp
  then have "ds_restored (dma_init b s') = []" using s(3) more_restored by metis
  then have "sys_ok b (dma_init b s')" using i d(1,2) unfolding sys_ok_def by simp
  moreover have "setting n e sys_quiet (sys_ok b)" using c(1,2) dma_peers_ok [of b] by (simp add: setting_def)
  ultimately show ?thesis
    unfolding smp_boot_def using c(3) l m dma_devices_ok by blast
qed

text \<open>The boot went through the policy check of the ownership tables.\<close>

lemma boot_policy:
  assumes "dma_boot n b e m"
  shows "pc_ok (validate_policy (bd_assignments (db_board b)) (bd_guests (db_board b))
    \<lparr>pl_sid_bits = kSidBits, pl_protected_pa = bd_protected (db_board b)\<rparr>)"
proof -
  obtain s s' :: "'a DmaSystem" where s: "smmu_init (db_board b) s = (None, s')" using assms unfolding dma_boot_def by blast
  have "\<exists>caps w. fst (build_dma_contexts (db_board b) caps (smmu_clear w) :: bool \<times> 'a DmaSystem)"
    using s unfolding smmu_init_def Let_def case_prod_unfold by (auto split: if_split_asm)
  then have "pc_ok (validate_full_policy (bd_assignments (db_board b)) (bd_devices (db_board b)) (bd_guests (db_board b))
      \<lparr>pl_sid_bits = kSidBits, pl_protected_pa = bd_protected (db_board b)\<rparr>)"
    unfolding build_dma_contexts_def Let_def by (auto split: if_split_asm)
  then show ?thesis by (rule validate_full_policy_ok(1))
qed

lemma reachable_sys:
  assumes "dma_boot n b e m0" "(smp_step n e (dma_moves b))\<^sup>*\<^sup>* m0 m"
  shows "sys_ok b (w_dev (mc_w m))"
  by (rule baseD(4) [OF safeD(1) [OF reachable_safe(2) [OF dma_boot_smp [OF assms(1)] assms(2)]]])

section \<open>A small machine\<close>

text \<open>One core, one VM with one vCPU, and one DMA device on stream 8 of the small SMMU.\<close>

definition wit_backend :: "wit_regs Backend" where
  "wit_backend = \<lparr>bk_device_id = 3, bk_reset_capability = RcQuiesce, bk_present = Some (\<lambda>h. (True, h)), bk_configure = Some (\<lambda>h. (True, h)),
     bk_quiesce = Some (\<lambda>h. (True, h)), bk_drained = Some (\<lambda>h. (True, h)), bk_reset = None, bk_resume = Some (\<lambda>h. (True, h)),
     bk_start_dma = Some (\<lambda>_ _ _ _ h. (True, h)), bk_clear_interrupts = Some (\<lambda>h. h)\<rparr>"

definition wit_dma_board :: "wit_regs DmaBoard" where
  "wit_dma_board = \<lparr>db_board = wit_board, db_backends = [wit_backend],
     db_capabilities = [\<lparr>dc_device_id = 3, dc_reset = RcQuiesce, dc_coherent = True\<rparr>], db_interrupts = []\<rparr>"

definition wit_entry :: Entry where
  "wit_entry = \<lparr>ey_device_id = 3, ey_owner_vm = 0, ey_state = DvQuiesced, ey_generation = 0, ey_deadline = 0, ey_bus_master_blocked = True\<rparr>"

definition wit_ds0 :: "wit_regs DmaSystem" where
  "wit_ds0 = \<lparr>sw_hw = (0, 0, 0), sw_stream_table = [], sw_commands = \<lparr>cr_entries = [],
       cr_queue = \<lparr>qs_log2_entries = 4, qs_producer = 0, qs_consumer = 0\<rparr>, cr_poll_limit = kPollLimit, cr_ready = False\<rparr>,
     sw_tables = replicate kMaxGuests (tables_of wit_board 0), sw_contexts = [], sw_bindings = [], sw_vm_streams = [], sw_context_count = 0,
     sw_enabled = False, sw_event_cons = 0, sw_audit_events = 0, sw_notices = [], dw_entries = [], dw_valid = False, dw_panic = False,
     ds_restored = []\<rparr>"

definition wit_up :: "wit_regs DmaSystem" where
  "wit_up = dma_init wit_dma_board (snd (smmu_init wit_board wit_ds0))"

lemma wit_init: "fst (smmu_init wit_board wit_ds0) = None" "caught_up (snd \<circ> snd) (snd (smmu_init wit_board wit_ds0))"
    "cr_ready (sw_commands (snd (smmu_init wit_board wit_ds0)))" "sw_enabled (snd (smmu_init wit_board wit_ds0))"
    "sw_event_cons (snd (smmu_init wit_board wit_ds0)) = 0" "produced (snd (smmu_init wit_board wit_ds0)) = 5"
    "domains (snd (smmu_init wit_board wit_ds0)) = domains (snd (build_dma_contexts wit_board (decode_capabilities 0x19 0x840005 0x12)
        (smmu_clear (snd (on_hw (shut_down wit_board kPollLimit) wit_ds0)))))"
proof -
  have e: "bd_enable_spi wit_board i 0 SpiEdge h = (True, h)" for i h by (simp add: wit_board_def)
  have q: "qs_log2_entries (cr_queue (sw_commands wit_ds0)) = 4" "0 < cr_poll_limit (sw_commands wit_ds0)"
    by (simp_all add: wit_ds0_def kPollLimit_def)
  note s = smmu_init_state [OF wit_answers wit_idr _ wit_capable wit_contexts(1) e q, simplified]
  have "sum_list (map (\<lambda>cs. length cs + 1) (chunks 15 (map (\<lambda>sid. make_cfgi_ste (of_nat sid)) [0 ..< kStreamCount]))) = 35"
    by (simp add: kStreamCount_def chunks.simps)
  then show "produced (snd (smmu_init wit_board wit_ds0)) = 5" using s(6) by simp
  show "sw_event_cons (snd (smmu_init wit_board wit_ds0)) = 0"
    using s(4) by (simp add: build_dma_contexts_ring(2) smmu_clear_def)
  show "fst (smmu_init wit_board wit_ds0) = None" "cr_ready (sw_commands (snd (smmu_init wit_board wit_ds0)))"
    "caught_up (snd \<circ> snd) (snd (smmu_init wit_board wit_ds0))" "sw_enabled (snd (smmu_init wit_board wit_ds0))"
    "domains (snd (smmu_init wit_board wit_ds0)) = domains (snd (build_dma_contexts wit_board (decode_capabilities 0x19 0x840005 0x12)
        (smmu_clear (snd (on_hw (shut_down wit_board kPollLimit) wit_ds0)))))"
    using s(1,3,5,7) smmu_init_state(2) [OF wit_answers wit_idr _ wit_capable wit_contexts(1) e q] by simp_all
qed

text \<open>The device stack once up: ready to resume VM 0, with the rest of its state open.\<close>

definition wit_can :: "wit_regs DmaSystem \<Rightarrow> bool" where
  "wit_can d \<longleftrightarrow> sw_bindings d ! 8 = \<lparr>sb_owner_vm = 0, sb_generation = 0, sb_state = DsDetached\<rparr> \<and> sw_context_count d = 1
     \<and> sw_contexts d ! 0 = \<lparr>tc_owner_vm = 0, tc_vmid = 1, tc_root_pa = 0x40400000\<rparr> \<and> sw_vm_streams d ! 0 = [8]
     \<and> length (sw_bindings d) = 32 \<and> length (sw_stream_table d) = 32 \<and> length (sw_stream_table d ! 8) = 8 \<and> sw_event_cons d = 0
     \<and> cr_ready (sw_commands d) \<and> qs_log2_entries (cr_queue (sw_commands d)) = 4 \<and> length (cr_entries (sw_commands d)) = 16
     \<and> 0 < cr_poll_limit (sw_commands d) \<and> qs_producer (cr_queue (sw_commands d)) = 5 \<and> snd (snd (sw_hw d)) = 5
     \<and> dw_entries d = [wit_entry] \<and> dw_valid d \<and> \<not> dw_panic d"

definition wit_dev :: "u32 \<Rightarrow> u32 \<Rightarrow> (nat \<Rightarrow> CommandEntry) \<Rightarrow> u32 \<Rightarrow> nat \<Rightarrow> (nat \<Rightarrow> StreamTableEntry) \<Rightarrow> Stage2Tables list \<Rightarrow>
    TranslationContext list \<Rightarrow> (nat \<Rightarrow> StreamBinding) \<Rightarrow> u32 \<Rightarrow> FaultNotice list \<Rightarrow> wit_regs DmaSystem" where
  "wit_dev x y f z k tb ts cs g au no = \<lparr>sw_hw = (x, y, 5), sw_stream_table = (map tb [0 ..< 32])[8 := make_abort_ste],
     sw_commands = \<lparr>cr_entries = map f [0 ..< 16], cr_queue = \<lparr>qs_log2_entries = 4, qs_producer = 5, qs_consumer = z\<rparr>,
       cr_poll_limit = Suc k, cr_ready = True\<rparr>,
     sw_tables = ts, sw_contexts = \<lparr>tc_owner_vm = 0, tc_vmid = 1, tc_root_pa = 0x40400000\<rparr> # cs,
     sw_bindings = (map g [0 ..< 32])[8 := \<lparr>sb_owner_vm = 0, sb_generation = 0, sb_state = DsDetached\<rparr>],
     sw_vm_streams = [[8], [], [], []], sw_context_count = 1, sw_enabled = True, sw_event_cons = 0, sw_audit_events = au, sw_notices = no,
     dw_entries = [wit_entry], dw_valid = True, dw_panic = False, ds_restored = []\<rparr>"

lemma list_open: "length xs = n \<Longrightarrow> (map (nth xs) [0 ..< n])[i := xs ! i] = xs"
  using map_nth [of xs] by simp

lemma wit_dma_init: "dma_init wit_dma_board w = w\<lparr>dw_entries := [wit_entry], dw_valid := True\<rparr>"
proof -
  have p: "bp_ok (validate_backend_policy (bd_assignments wit_board) (db_capabilities wit_dma_board) (db_backends wit_dma_board) kMaxDevices)"
    by (simp add: validate_backend_policy_def backend_error_def backend_assignment_error_def backend_well_formed_def find_capability_def
        find_backend_def wit_board_def wit_dma_board_def wit_backend_def kMaxDevices_def kNoDevice_def bp_ok_def)
  have l: "registry_load kMaxDevices (bd_assignments wit_board) = (True, [entry_new 3 0])"
    by (simp add: registry_load_def registry_add_def registry_find_def wit_board_def kMaxDevices_def kNoDevice_def kNoVm_def)
  have "probe_device wit_dma_board (entry_new 3 0) h = (DvQuiesced, h)" for h
    by (simp add: probe_device_def backend_present_def backend_configure_def call_backend_def backend_for_def find_backend_def
        prepare_interrupt_def interrupt_for_device_def wit_dma_board_def wit_backend_def entry_new_def)
  then have q: "probe_entries wit_dma_board [entry_new 3 0] h = ([wit_entry], h)" for h
    by (simp add: wit_entry_def entry_new_def)
  have b: "db_board wit_dma_board = wit_board" by (simp add: wit_dma_board_def)
  show ?thesis using p l q unfolding dma_init_def b by (simp add: Let_def)
qed

lemma wit_up_dev: "\<exists>x y f z k tb ts cs g au no. wit_up = wit_dev x y f z k tb ts cs g au no"
proof -
  let ?s = "snd (smmu_init wit_board wit_ds0)"
  note i = wit_init
  obtain t where d: "domains ?s = \<lparr>dm_table = (replicate 32 (replicate 8 0))[8 := make_abort_ste], dm_tables = (replicate 4 (tables_of wit_board 0))[0 := t],
      dm_contexts = (replicate 4 context_none)[0 := \<lparr>tc_owner_vm = 0, tc_vmid = 1, tc_root_pa = 0x40400000\<rparr>],
      dm_bindings = (replicate 32 binding_none)[8 := binding_none\<lparr>sb_owner_vm := 0\<rparr>], dm_streams = [[8], [], [], []], dm_count = 1\<rparr>"
    using wit_contexts(2) [of "smmu_clear (snd (on_hw (shut_down wit_board kPollLimit) wit_ds0))"] i(7)
    by (auto simp: smmu_clear_def wit_ds0_def kStreamCount_def kMaxGuests_def on_hw_def)
  let ?r = "sw_commands ?s"
  have m: "SmmuWorld.more ?s = SmmuWorld.more wit_ds0"
    using smmu_init_ok [of wit_board wit_ds0 ?s] i(1) by (simp add: wit_ds0_def prod_eq_iff)
  note mf = more_fields [OF m]
  have c: "qs_log2_entries (cr_queue ?r) = 4" "length (cr_entries ?r) = 16" "0 < cr_poll_limit ?r" "snd (snd (sw_hw ?s)) = qs_producer (cr_queue ?r)"
    using i(2) by (simp_all add: caught_up_def)
  have p: "qs_producer (cr_queue ?r) = 5" using i(6) by (simp add: produced_def word_unat_eq_iff)
  obtain k where k: "cr_poll_limit ?r = Suc k" using c(3) gr0_implies_Suc by blast
  have r4: "replicate 4 x = [x, x, x, x]" for x :: TranslationContext by (simp add: numeral_eq_Suc)
  have dd: "sw_stream_table ?s = (replicate 32 (replicate 8 0))[8 := make_abort_ste]" "sw_vm_streams ?s = [[8], [], [], []]" "sw_context_count ?s = 1"
      "sw_contexts ?s = (replicate 4 context_none)[0 := \<lparr>tc_owner_vm = 0, tc_vmid = 1, tc_root_pa = 0x40400000\<rparr>]"
      "sw_bindings ?s = (replicate 32 binding_none)[8 := binding_none\<lparr>sb_owner_vm := 0\<rparr>]"
    using d by (simp_all only: domains_def Domains.ext_inject)
  have b: "sw_bindings ?s ! 8 = \<lparr>sb_owner_vm = 0, sb_generation = 0, sb_state = DsDetached\<rparr>" "length (sw_bindings ?s) = 32"
    "sw_stream_table ?s ! 8 = make_abort_ste" "length (sw_stream_table ?s) = 32" "sw_vm_streams ?s = [[8], [], [], []]" "sw_context_count ?s = 1"
    "\<lparr>tc_owner_vm = 0, tc_vmid = 1, tc_root_pa = 0x40400000\<rparr> # tl (sw_contexts ?s) = sw_contexts ?s"
    using dd r4 by (simp_all add: binding_none_def)
  have r: "dw_panic ?s = False" "ds_restored ?s = []"
    using mf(3) more_restored [OF mf(4)] by (simp_all add: wit_ds0_def)
  have l: "(map (nth (sw_bindings ?s)) [0 ..< 32])[8 := \<lparr>sb_owner_vm = 0, sb_generation = 0, sb_state = DsDetached\<rparr>] = sw_bindings ?s"
    "(map (nth (sw_stream_table ?s)) [0 ..< 32])[8 := make_abort_ste] = sw_stream_table ?s"
    "map (nth (cr_entries ?r)) [0 ..< 16] = cr_entries ?r"
    using list_open [of "sw_bindings ?s" 32 8] list_open [of "sw_stream_table ?s" 32 8] map_nth [of "cr_entries ?r"] b(1-4) c(2) by metis+
  have h: "(fst (sw_hw ?s), fst (snd (sw_hw ?s)), 5) = sw_hw ?s" using c(4) p by (metis prod.collapse)
  have q: "\<lparr>cr_entries = cr_entries ?r, cr_queue = \<lparr>qs_log2_entries = 4, qs_producer = 5, qs_consumer = qs_consumer (cr_queue ?r)\<rparr>,
      cr_poll_limit = Suc k, cr_ready = True\<rparr> = ?r" using c p k i(3) by simp
  have "wit_up = wit_dev (fst (sw_hw ?s)) (fst (snd (sw_hw ?s))) (nth (cr_entries ?r)) (qs_consumer (cr_queue ?r)) k (nth (sw_stream_table ?s))
      (sw_tables ?s) (tl (sw_contexts ?s)) (nth (sw_bindings ?s)) (sw_audit_events ?s) (sw_notices ?s)"
    unfolding wit_up_def wit_dma_init
  proof (rule DmaSystem.equality)
  qed (simp_all only: wit_dev_def l h q b(5-7), simp_all add: b r i(4,5))
  then show ?thesis by blast
qed

section \<open>Its run\<close>

text \<open>A resume of VM 0 that can proceed is granted, and opens stream 8.\<close>

lemma wit_drain:
  assumes "sw_event_cons d = 0"
  shows "poll_events wit_board d = (Some 0, d)"
proof -
  note k = kIdr0_def kIdr1_def kIdr5_def kCr0Ack_def kIrqAck_def kCmdqCons_def kEvtqProd_def kEvtqCons_def kCr0_def kIrqCtrl_def kCmdqProd_def
  have hw: "bd_read32 wit_board kEvtqProd h = (0, h)" "bd_write32 wit_board kEvtqCons v h = h" "bd_publish wit_board m h = h" for h v m
    by (cases h; simp add: wit_board_def k)+
  let ?q = "\<lparr>qs_log2_entries = kEventQueueLog2, qs_producer = 0, qs_consumer = 0\<rparr>"
  have q: "qs_consistent ?q" "qs_empty ?q" "\<not> event_overflow_pending ?q"
    by (simp_all add: qs_consistent_def qs_empty_def qs_valid_def qs_used_def event_overflow_pending_def kEventQueueLog2_def kMaxQueueLog2Entries_def)
  have "drain_events wit_board kEventQueueLog2 f s d = ((\<lparr>dn_processed = 0, dn_corrupt = False, dn_overflow = False\<rparr>, s), d)" for f and s :: "u32 list \<times> u32"
    unfolding drain_events_def on_hw_def hw using assms q
    by (simp add: Let_def NovaSmmu.drain_loop.simps [of _ _ ?q] publish_memory_def upd_hw_smmu_def hw)
  then show ?thesis
    by (simp add: poll_events_def drain_event_queue_def dispatch_faults_def Let_def)
qed

lemma wit_resume:
  assumes w: "wit_can d" and g: "g \<noteq> 0"
  shows "fst (dma_handle_quiesce wit_dma_board DqResume 0 g d) = Some DqComplete"
    "ste_open (sw_stream_table (snd (dma_handle_quiesce wit_dma_board DqResume 0 g d)) ! 8)"
    "sb_owner_vm (sw_bindings (snd (dma_handle_quiesce wit_dma_board DqResume 0 g d)) ! 8) = 0"
proof -
  let ?c = "\<lparr>tc_owner_vm = 0, tc_vmid = 1, tc_root_pa = 0x40400000\<rparr>"
  let ?es = "[wit_entry\<lparr>ey_state := DvResuming\<rparr>]"
  have bd: "db_board wit_dma_board = wit_board" by (simp add: wit_dma_board_def)
  have e: "dw_entries d = [wit_entry]" "dw_valid d" using w by (simp_all add: wit_can_def)
  define d1 where "d1 = d\<lparr>dw_entries := ?es\<rparr>"
  have same: "sw_commands d1 = sw_commands d" "sw_hw d1 = sw_hw d" "sw_bindings d1 = sw_bindings d" "sw_contexts d1 = sw_contexts d"
    "sw_vm_streams d1 = sw_vm_streams d" "sw_context_count d1 = sw_context_count d" "sw_event_cons d1 = sw_event_cons d"
    "sw_stream_table d1 = sw_stream_table d" by (simp_all add: d1_def)
  have c: "caught_up (snd \<circ> snd) d1" "cr_ready (sw_commands d1)" using w by (simp_all add: same wit_can_def caught_up_def)
  have ok: "se_ok (make_stage2_ste (tc_root_pa ?c) (tc_vmid ?c))" by (simp add: make_stage2_ste_def se_ok_def kPa40Mask_def)
  note ins = install_stream_answer [OF wit_answers c ok, of 8]
  have l: "length (dm_table (domains d1)) = kStreamCount" "length (dm_table (domains d1) ! 8) = 8" "8 < kStreamCount"
    using w by (simp_all add: same domains_def wit_can_def kStreamCount_def)
  note en = install_stream_entry [OF l ok ins(1)]
  define d2 where "d2 = snd (install_stream wit_board 8 ?c d1)"
  have b: "sw_bindings d ! 8 = \<lparr>sb_owner_vm = 0, sb_generation = 0, sb_state = DsDetached\<rparr>" using w by (simp add: wit_can_def)
  have d2: "sw_bindings d2 = sw_bindings d" "sw_stream_table d2 = (sw_stream_table d)[8 := se_entry (make_stage2_ste (tc_root_pa ?c) (tc_vmid ?c))]"
    using en(1) by (simp_all add: d2_def domains_def same)
  have 1: "dw_entries d2 = ?es" using en(3) more_fields(1) [of d2 d1] by (simp add: d2_def d1_def)
  have can: "can_attach (sw_bindings d ! 8) g" using b g by (simp add: can_attach_def sb_configured_def kNoVm_def word_neq_0_conv)
  let ?x = "(sw_bindings d ! 8)\<lparr>sb_generation := g, sb_state := DsAttached\<rparr>"
  have at: "attach_vm wit_board 0 g d1 = (Some True, set_binding 8 ?x d2)"
    using ins(2) c g b can d2 w unfolding attach_vm_def
    by (simp add: same can_attach_vm_def streams_of_def kMaxGuests_def wit_can_def Let_def case_prod_unfold mark_attached_def d2_def)
  have pr: "prepare_interrupt wit_dma_board 0 3 h = (True, h)" "backend_resume wit_dma_board 3 h = (True, h)" "unmask_device wit_dma_board 3 h = (True, h)" for h
    by (simp_all add: prepare_interrupt_def interrupt_for_device_def backend_resume_def call_backend_def backend_for_def find_backend_def
        unmask_device_def wit_dma_board_def wit_backend_def)
  let ?d3 = "set_binding 8 ?x d2"
  have pe: "poll_events wit_board d1 = (Some 0, d1)" by (rule wit_drain) (use w in \<open>simp add: same wit_can_def\<close>)
  have r: "resume_vm wit_dma_board 0 g d = (Some True, ?d3\<lparr>dw_entries := [wit_entry\<lparr>ey_generation := g, ey_state := DvActive, ey_bus_master_blocked := False\<rparr>]\<rparr>)"
    using e g at [unfolded d1_def] pe [unfolded d1_def] 1 unfolding resume_vm_def bd
    by (simp add: owner_failed_def owner_active_def wit_entry_def Let_def pr on_hw_def set_binding_def)
  show "fst (dma_handle_quiesce wit_dma_board DqResume 0 g d) = Some DqComplete"
    using r by (simp add: dma_handle_quiesce_def Let_def)
  show "ste_open (sw_stream_table (snd (dma_handle_quiesce wit_dma_board DqResume 0 g d)) ! 8)"
    "sb_owner_vm (sw_bindings (snd (dma_handle_quiesce wit_dma_board DqResume 0 g d)) ! 8) = 0"
    using r d2 w b stage2_entry_open [OF ok] by (auto simp: dma_handle_quiesce_def Let_def set_binding_def wit_can_def nth_list_update)
qed

definition wit_resumed :: "nat \<Rightarrow> u64 \<Rightarrow> wit_regs DmaSystem \<Rightarrow> wit_regs DmaSystem" where
  [code del]: "wit_resumed vm g d = snd (dma_call (dma_handle_quiesce wit_dma_board DqResume vm g) d)"

definition wit_pr :: "DmaQuiesceOp \<Rightarrow> nat \<Rightarrow> u64 \<Rightarrow> wit_regs DmaSystem \<Rightarrow> (bool \<times> DmaQuiesceResult) \<times> wit_regs DmaSystem" where
  "wit_pr = pr_dma (dma_peers wit_dma_board)"

lemma wit_pr_code [code]:
  "wit_pr op vm g d = (if op = DqResume \<and> vm = 0 \<and> g \<noteq> 0 \<and> wit_can d then ((True, DqComplete), wit_resumed vm g d)
     else let (r, d') = dma_call (dma_handle_quiesce wit_dma_board op vm g) d in ((True, case r of Some x \<Rightarrow> x | None \<Rightarrow> DqPending), d'))"
proof (cases "op = DqResume \<and> vm = 0 \<and> g \<noteq> 0 \<and> wit_can d")
  case True
  then have "\<not> dw_panic d" by (simp add: wit_can_def)
  then have "fst (dma_call (dma_handle_quiesce wit_dma_board op vm g) d) = Some DqComplete"
    using wit_resume(1) [of d g] True by (simp add: dma_call_def case_prod_unfold Let_def)
  then show ?thesis using True by (simp add: wit_pr_def dma_peers_def wit_resumed_def case_prod_unfold Let_def)
next
  case False
  then show ?thesis by (simp only: wit_pr_def dma_peers_def Peers.select_convs if_False)
qed

definition wit_dma_peers :: "wit_regs DmaSystem Peers" where
  "wit_dma_peers = dma_peers wit_dma_board"

lemma wit_dma_peers_code [code]: "wit_dma_peers = \<lparr>pr_vm_reset = (\<lambda>_ d. d), pr_reload = pr_reload (dma_peers wit_dma_board),
    pr_eoi = pr_eoi (dma_peers wit_dma_board), pr_dma = wit_pr\<rparr>"
  by (simp add: wit_dma_peers_def wit_pr_def) (simp add: dma_peers_def)

definition wit_dma_env :: "wit_regs DmaSystem Env" where
  "wit_dma_env = \<lparr>en_guests = [wit_dma_guest], en_peers = wit_dma_peers, en_now = 0, en_turn = 0, en_hz = 62500000, en_eisr = (\<lambda>_. 0), en_spoken = False\<rparr>"

definition wit_dm0 :: "wit_regs DmaSystem \<Rightarrow> wit_regs DmaSystem Machine" where
  "wit_dm0 d = \<lparr>mc_w = vcpu_init wit_dma_env 0 (smp_zero 1 [True] [\<lparr>st_queue = queue_init kSlotCount, st_programmed = 0, st_cnthp = None\<rparr>] [wit_hw] wit_vgic d),
     mc_batch = [[]], mc_sched = [False]\<rparr>"

definition wit_dm1 :: "wit_regs DmaSystem \<Rightarrow> wit_regs DmaSystem Machine" where
  "wit_dm1 d = (wit_dm0 d)\<lparr>mc_w := irq_enter 0 (mc_w (wit_dm0 d))\<rparr>"

definition wit_dm2 :: "wit_regs DmaSystem \<Rightarrow> wit_regs DmaSystem Machine" where
  "wit_dm2 d = (wit_dm1 d)\<lparr>mc_w := snd (command_reset wit_dma_env 0 0 (mc_w (wit_dm1 d)))\<rparr>"

lemma wit_dma_dev:
  "(P :: _ \<Rightarrow> bool) (w_dev (mc_w (wit_dm2 (wit_dev x y f z k tb ts cs g au no))))
     = P (wit_resumed 0 2 ((wit_dev x y f z k tb ts cs g au no)\<lparr>ds_restored := [(0, vm_open 0 (wit_dev x y f z k tb ts cs g au no))]\<rparr>))"
  by (code_simp, simp)

lemma wit_dma_eval:
  "\<not> in_irq 0 (mc_w (wit_dm0 (wit_dev x y f z k tb ts cs g au no))) \<and> in_irq 0 (mc_w (wit_dm1 (wit_dev x y f z k tb ts cs g au no)))
     \<and> w_lifecycle (mc_w (wit_dm0 (wit_dev x y f z k tb ts cs g au no))) = [tracker_init, tracker_init, tracker_init, tracker_init]
     \<and> w_lifecycle (mc_w (wit_dm1 (wit_dev x y f z k tb ts cs g au no))) = [tracker_init, tracker_init, tracker_init, tracker_init]"
  by code_simp

lemma wit_dma_cfg: "cfg_ok 1 wit_dma_env"
proof -
  have "affinity wit_dma_env slot < 1" if "valid_slot wit_dma_env slot" for slot
  proof -
    have "slot < 2" using that by (simp add: valid_slot_def g_count_def wit_dma_env_def kMaxGuests_def kMaxVcpusPerVm_def)
    then have "slot = 0 \<or> slot = 1" by linarith
    then show ?thesis by (auto simp: affinity_def wit_dma_env_def wit_dma_guest_def vm_of_def vcpu_of_def kMaxVcpusPerVm_def)
  qed
  then show ?thesis by (simp add: cfg_ok_def wit_dma_env_def wit_dma_guest_def kMaxGuests_def kMaxVcpusPerVm_def)
qed

lemma wit_dma_boot: "dma_boot 1 wit_dma_board wit_dma_env (wit_dm0 wit_up)"
  unfolding dma_boot_def
proof (intro conjI exI)
  show "smmu_init (db_board wit_dma_board) wit_ds0 = (None, snd (smmu_init wit_board wit_ds0))"
    using wit_init(1) by (simp add: wit_dma_board_def prod_eq_iff)
  show "wit_dm0 wit_up = \<lparr>mc_w = vcpu_init wit_dma_env 0 (smp_zero 1 [True] [\<lparr>st_queue = queue_init kSlotCount, st_programmed = 0, st_cnthp = None\<rparr>]
      [wit_hw] wit_vgic (dma_init wit_dma_board (snd (smmu_init wit_board wit_ds0)))), mc_batch = replicate 1 [], mc_sched = replicate 1 False\<rparr>"
    by (simp add: wit_dm0_def wit_up_def)
qed (use wit_dma_cfg in \<open>simp_all add: wit_dma_env_def wit_dma_peers_def wit_dma_board_def wit_board_def wit_ds0_def\<close>)

lemma wit_dma_steps: "(smp_step 1 wit_dma_env (dma_moves wit_dma_board))\<^sup>*\<^sup>* (wit_dm0 wit_up) (wit_dm2 wit_up)"
proof -
  obtain x y f z k tb ts cs g au no where u: "wit_up = wit_dev x y f z k tb ts cs g au no" using wit_up_dev by blast
  note ev = wit_dma_eval [of x y f z k tb ts cs g au no, folded u]
  have fr: "all_fresh 2 wit_dma_env (mc_w (wit_dm0 wit_up))" "all_fresh 2 wit_dma_env (mc_w (wit_dm1 wit_up))"
    using ev by (simp_all add: all_fresh_def fresh_def wit_dma_env_def tracker_init_def)
  have "smp_step 1 wit_dma_env (dma_moves wit_dma_board) (wit_dm0 wit_up) (wit_dm1 wit_up)"
    unfolding wit_dm1_def by (rule smp_step.core [OF _ _ _ _ cpu_step.irq]) (use ev fr in \<open>simp_all add: wit_dm0_def\<close>)
  moreover have "smp_step 1 wit_dma_env (dma_moves wit_dma_board) (wit_dm1 wit_up) (wit_dm2 wit_up)"
    unfolding wit_dm2_def by (rule smp_step.core [OF _ _ _ _ cpu_step.host_reset]) (use ev fr in \<open>simp_all add: wit_dm1_def wit_dm0_def\<close>)
  ultimately show ?thesis by (meson converse_rtranclp_into_rtranclp rtranclp.rtrancl_refl)
qed

text \<open>After the reset the image has been copied once, and stream 8 is open again.\<close>

lemma wit_dma_end:
  "\<exists>was. ds_restored (w_dev (mc_w (wit_dm2 wit_up))) = [(0, was)]"
  "ste_open (sw_stream_table (w_dev (mc_w (wit_dm2 wit_up))) ! 8)" "sb_owner_vm (sw_bindings (w_dev (mc_w (wit_dm2 wit_up))) ! 8) = 0"
proof -
  obtain x y f z k tb ts cs g au no where u: "wit_up = wit_dev x y f z k tb ts cs g au no" using wit_up_dev by blast
  let ?d = "wit_up\<lparr>ds_restored := [(0, vm_open 0 wit_up)]\<rparr>"
  have e: "w_dev (mc_w (wit_dm2 wit_up)) = wit_resumed 0 2 ?d"
    using wit_dma_dev [of "\<lambda>d. d = wit_resumed 0 2 ?d" x y f z k tb ts cs g au no, folded u] by simp
  have c: "wit_can ?d" unfolding u by (simp add: wit_can_def wit_dev_def wit_entry_def make_abort_ste_def)
  have p: "\<not> dw_panic ?d" unfolding u by (simp add: wit_dev_def)
  note r = wit_resume [OF c, of 2]
  have d: "wit_resumed 0 2 ?d = snd (dma_handle_quiesce wit_dma_board DqResume 0 2 ?d)"
    using p r(1) by (simp add: wit_resumed_def dma_call_def case_prod_unfold Let_def)
  show "ste_open (sw_stream_table (w_dev (mc_w (wit_dm2 wit_up))) ! 8)" "sb_owner_vm (sw_bindings (w_dev (mc_w (wit_dm2 wit_up))) ! 8) = 0"
    unfolding e d using r(2,3) by simp_all
  have "live_ok (db_board wit_dma_board) wit_up"
  proof -
    note i = smmu_init_ok [of wit_board wit_ds0 "snd (smmu_init wit_board wit_ds0)"]
    have "length (sw_tables wit_ds0) = kMaxGuests" "smmu_init wit_board wit_ds0 = (None, snd (smmu_init wit_board wit_ds0))"
      using wit_init(1) by (simp_all add: wit_ds0_def prod_eq_iff)
    then show ?thesis unfolding wit_up_def using i init_ok(1) [of wit_dma_board "snd (smmu_init wit_board wit_ds0)"] by (simp add: wit_dma_board_def)
  qed
  then have "live_ok (db_board wit_dma_board) ?d" by simp
  then have "ds_restored (snd (dma_handle_quiesce wit_dma_board DqResume 0 2 ?d)) = ds_restored ?d"
    using handle_quiesce_res [of wit_dma_board ?d DqResume 0 2] by (intro more_restored) (simp add: dma_res_def)
  then show "\<exists>was. ds_restored (w_dev (mc_w (wit_dm2 wit_up))) = [(0, was)]" unfolding e d by simp
qed

section \<open>Restores and streams\<close>



text \<open>
  C2. A device reaches the memory of its owner and nothing else. In every reachable
  state, if the entry of a stream lets transactions through then the stream belongs
  to a VM of the configuration, the entry names the Stage 2 root and the VMID of that
  VM, and every address those tables translate lies in the window of that VM, in no
  window of another VM and in no range the hypervisor protects.
\<close>

theorem dma_isolated:
  assumes "dma_boot n b e m0" "(smp_step n e (dma_moves b))\<^sup>*\<^sup>* m0 m"
    and "d = w_dev (mc_w m)" "sid < kStreamCount" "ste_open (sw_stream_table d ! sid)"
    and "vm = sb_owner_vm (sw_bindings d ! sid)" "s2_pools_ok (tables_of (db_board b) vm)"
    and "unat x < 2 ^ 39" "s2_walk (sw_tables d ! vm) x = Some (p, a)"
  shows "vm < length (en_guests e) \<and> sw_stream_table d ! sid = se_entry (make_stage2_ste (bd_l1_pa (db_board b) vm) (gd_vmid (en_guests e ! vm)))
    \<and> unat p \<in> range_set (gd_load_pa (en_guests e ! vm)) (gd_ipa_size (en_guests e ! vm)) \<and> a = kAttrNormalRwData
    \<and> (\<forall>u < length (en_guests e). u \<noteq> vm \<longrightarrow> unat p \<notin> range_set (gd_load_pa (en_guests e ! u)) (gd_ipa_size (en_guests e ! u)))
    \<and> (\<forall>r \<in> set (bd_protected (db_board b)). unat p \<notin> range_set (pr_base r) (pr_size r))"
proof -
  let ?b = "db_board b" let ?g = "bd_guests ?b ! vm"
  have g: "en_guests e = bd_guests ?b" using assms(1) by (simp add: dma_boot_def)
  have "domains_ok ?b (domains d)" using reachable_sys [OF assms(1,2)] assms(3) by (simp add: sys_ok_def)
  note en = open_owner [OF this assms(4), of vm]
  have v: "vm < length (bd_guests ?b)" "sw_stream_table d ! sid = se_entry (make_stage2_ste (bd_l1_pa ?b vm) (gd_vmid ?g))"
    "build_dma_table (tables_of ?b vm) ?g = Some (True, sw_tables d ! vm)"
    using en assms(5,6) by (simp_all add: domains_def)
  have p: "unat p \<in> range_set (gd_load_pa ?g) (gd_ipa_size ?g)" "a = kAttrNormalRwData"
    using build_dma_table_in [OF assms(7) v(3) assms(8,9)] by simp_all
  note pol = boot_policy [OF assms(1)]
  have "unat p \<notin> range_set (gd_load_pa (bd_guests ?b ! u)) (gd_ipa_size (bd_guests ?b ! u))" if "u < length (bd_guests ?b)" "u \<noteq> vm" for u
    using guest_windows_disjoint [OF pol that(1) v(1) that(2)] p(1) by blast
  moreover have "unat p \<notin> range_set (pr_base r) (pr_size r)" if "r \<in> set (bd_protected ?b)" for r
    using guest_windows_unprotected [OF pol v(1), of r] that p(1) by auto
  ultimately show ?thesis using g v p by simp
qed

lemma dma_isolated_witness:
  "0x60000123 \<in> range_set (gd_load_pa wit_dma_guest) (gd_ipa_size wit_dma_guest)
    \<and> sw_stream_table (w_dev (mc_w (wit_dm2 wit_up))) ! 8 = se_entry (make_stage2_ste 0x40400000 1)"
proof -
  let ?d = "w_dev (mc_w (wit_dm2 wit_up))"
  have o: "domains_ok (db_board wit_dma_board) (domains ?d)" using reachable_sys [OF wit_dma_boot wit_dma_steps] by (simp add: sys_ok_def)
  have s: "(8 :: nat) < kStreamCount" by (simp add: kStreamCount_def)
  have b: "db_board wit_dma_board = wit_board" by (simp add: wit_dma_board_def)
  have g: "bd_guests wit_board = [wit_dma_guest]" by (simp add: wit_board_def)
  have two: "[0 ..< 2] = [0, Suc 0]" "replicate 2 x = [x, x]" for x :: "nat \<Rightarrow> u64" by (simp_all add: numeral_eq_Suc)
  have pools: "s2_pools_ok (tables_of wit_board 0)"
    by (simp add: s2_pools_ok_def tables_of_def frames_distinct_def kDmaL3PoolSize_def two wit_board_def kOutputAddrMask_def)
  have bt: "build_dma_table (tables_of wit_board 0) wit_dma_guest = Some (True, sw_tables ?d ! 0)"
    using open_owner(2) [OF o s, of 0] wit_dma_end(2,3) b g by (simp add: domains_def)
  have w: "s2_walk (sw_tables ?d ! 0) 0x50000123 = Some (0x60000123, kAttrNormalRwData)"
    using dma_table_walk [OF pools bt, of "0x50000123"] by (simp add: wit_dma_guest_def gd_to_pa_def)
  show ?thesis
    using dma_isolated [OF wit_dma_boot wit_dma_steps refl s wit_dma_end(2) refl, of "0x50000123"] pools w wit_dma_end(3) b
    by (simp add: wit_dma_env_def) (simp add: wit_board_def wit_dma_guest_def)
qed

end
