(* ===== verification/NovaSync.thy ===== *)
theory NovaSync
  imports NovaMachine
begin

text \<open>
  \<open>src/nova/sync.hpp\<close>: the ticket lock that serialises every handler the other theories
  treat as one step. A thread runs \<open>lock\<close> and \<open>unlock\<close> split at each atomic access,
  and the threads interleave freely; the tickets are 32-bit and wrap.
\<close>

section \<open>The lock\<close>

record SpinLock =
  lk_next :: u32
  lk_serving :: u32

text \<open>
  Where a thread is: outside, spinning in \<open>lock\<close> with its ticket, in the section, or in
  \<open>unlock\<close> after the load of \<open>serving_\<close> and before its store.
\<close>

datatype LockPc = LkOut | LkSpin u32 | LkIn | LkStore u32

record LockState =
  ls_lock :: SpinLock
  ls_pc :: "nat \<Rightarrow> LockPc"
  ls_arrived :: "nat list"
  ls_granted :: "nat list"

text \<open>
  \<open>ls_arrived\<close> and \<open>ls_granted\<close> are history: the threads in the order of their
  \<open>fetch_add\<close>, and in the order they entered.
\<close>

definition lock_take :: "nat \<Rightarrow> LockState \<Rightarrow> LockState" where
  "lock_take t s = s\<lparr>ls_lock := (ls_lock s)\<lparr>lk_next := lk_next (ls_lock s) + 1\<rparr>,
     ls_pc := (ls_pc s)(t := LkSpin (lk_next (ls_lock s))), ls_arrived := ls_arrived s @ [t]\<rparr>"

definition lock_poll :: "nat \<Rightarrow> u32 \<Rightarrow> LockState \<Rightarrow> LockState" where
  "lock_poll t ticket s = (if lk_serving (ls_lock s) \<noteq> ticket then s
     else s\<lparr>ls_pc := (ls_pc s)(t := LkIn), ls_granted := ls_granted s @ [t]\<rparr>)"

definition unlock_load :: "nat \<Rightarrow> LockState \<Rightarrow> LockState" where
  "unlock_load t s = s\<lparr>ls_pc := (ls_pc s)(t := LkStore (lk_serving (ls_lock s)))\<rparr>"

definition unlock_store :: "nat \<Rightarrow> u32 \<Rightarrow> LockState \<Rightarrow> LockState" where
  "unlock_store t v s = s\<lparr>ls_lock := (ls_lock s)\<lparr>lk_serving := v + 1\<rparr>, ls_pc := (ls_pc s)(t := LkOut)\<rparr>"

inductive lock_step :: "nat \<Rightarrow> LockState \<Rightarrow> LockState \<Rightarrow> bool" for n where
  take: "t < n \<Longrightarrow> ls_pc s t = LkOut \<Longrightarrow> lock_step n s (lock_take t s)"
| poll: "t < n \<Longrightarrow> ls_pc s t = LkSpin ticket \<Longrightarrow> lock_step n s (lock_poll t ticket s)"
| load: "t < n \<Longrightarrow> ls_pc s t = LkIn \<Longrightarrow> lock_step n s (unlock_load t s)"
| store: "t < n \<Longrightarrow> ls_pc s t = LkStore v \<Longrightarrow> lock_step n s (unlock_store t v s)"

definition lock_init :: "LockState \<Rightarrow> bool" where
  "lock_init s \<longleftrightarrow> lk_next (ls_lock s) = lk_serving (ls_lock s) \<and> (\<forall>t. ls_pc s t = LkOut) \<and> ls_arrived s = [] \<and> ls_granted s = []"

definition in_section :: "LockState \<Rightarrow> nat \<Rightarrow> bool" where
  "in_section s t \<longleftrightarrow> (case ls_pc s t of LkOut \<Rightarrow> False | LkSpin _ \<Rightarrow> False | _ \<Rightarrow> True)"

section \<open>The queue of the waiting threads\<close>

text \<open>
  The threads between \<open>fetch_add\<close> and the store of \<open>unlock\<close>, oldest first: they hold
  consecutive tickets from \<open>serving_\<close> on, and only the first may be in the section.
\<close>

fun pc_at :: "u32 \<Rightarrow> LockPc \<Rightarrow> bool \<Rightarrow> bool" where
  "pc_at ticket LkOut hd_in = False"
| "pc_at ticket (LkSpin v) hd_in = (v = ticket \<and> \<not> hd_in)"
| "pc_at ticket LkIn hd_in = hd_in"
| "pc_at ticket (LkStore v) hd_in = (hd_in \<and> v = ticket)"

definition lock_queue :: "nat \<Rightarrow> LockState \<Rightarrow> nat list \<Rightarrow> bool \<Rightarrow> bool" where
  "lock_queue n s q hd_in \<longleftrightarrow> distinct q \<and> set q \<subseteq> {..< n} \<and> (\<forall>t. t \<notin> set q \<longrightarrow> ls_pc s t = LkOut)
     \<and> (\<forall>i < length q. pc_at (lk_serving (ls_lock s) + of_nat i) (ls_pc s (q ! i)) (hd_in \<and> i = 0))
     \<and> lk_next (ls_lock s) = lk_serving (ls_lock s) + of_nat (length q) \<and> (hd_in \<longrightarrow> q \<noteq> [])
     \<and> (\<exists>done. ls_arrived s = done @ q \<and> ls_granted s = done @ (if hd_in then [hd q] else []))"

definition lock_inv :: "nat \<Rightarrow> LockState \<Rightarrow> bool" where
  "lock_inv n s \<longleftrightarrow> (\<exists>q hd_in. lock_queue n s q hd_in)"

lemma queue_short:
  assumes "lock_queue n s q h"
  shows "length q \<le> n"
  using assms card_mono [of "{..< n}" "set q"] by (simp add: lock_queue_def distinct_card)

lemma queue_pc:
  "lock_queue n s q h \<Longrightarrow> i < length q \<Longrightarrow> pc_at (lk_serving (ls_lock s) + of_nat i) (ls_pc s (q ! i)) (h \<and> i = 0)"
  by (simp add: lock_queue_def)

lemma queue_init: "lock_init s \<Longrightarrow> lock_queue n s [] False"
  by (simp add: lock_init_def lock_queue_def)

lemma queue_take:
  assumes "lock_queue n s q h" "t < n" "ls_pc s t = LkOut"
  shows "lock_queue n (lock_take t s) (q @ [t]) h"
proof -
  have t: "t \<notin> set q"
  proof
    assume "t \<in> set q"
    then obtain i where "i < length q" "q ! i = t" by (auto simp: in_set_conv_nth)
    then show False using assms(1,3) by (auto simp: lock_queue_def)
  qed
  then have "q ! i \<noteq> t" if "i < length q" for i using that nth_mem by metis
  then show ?thesis using assms t by (auto simp: lock_queue_def lock_take_def nth_append less_Suc_eq algebra_simps)
qed

text \<open>The ticket of a thread in the queue tells its place, as there are fewer than 2^32 threads.\<close>

lemma ticket_place:
  assumes "lock_queue n s q h" "n < 2 ^ 32" "ls_pc s t \<noteq> LkOut"
  obtains i where "i < length q" "q ! i = t" "pc_at (lk_serving (ls_lock s) + of_nat i) (ls_pc s t) (h \<and> i = 0)"
    "lk_serving (ls_lock s) + of_nat i = lk_serving (ls_lock s) \<longleftrightarrow> i = 0"
proof -
  have "t \<in> set q" using assms(1,3) by (auto simp: lock_queue_def)
  then obtain i where i: "i < length q" "q ! i = t" by (auto simp: in_set_conv_nth)
  have "i < 2 ^ 32" using i(1) queue_short [OF assms(1)] assms(2) by linarith
  then have "(of_nat i :: u32) = 0 \<longleftrightarrow> i = 0" by (auto simp: word_of_nat_eq_0_iff dest: dvd_imp_le)
  moreover have "pc_at (lk_serving (ls_lock s) + of_nat i) (ls_pc s (q ! i)) (h \<and> i = 0)"
    by (rule queue_pc [OF assms(1) i(1)])
  ultimately show ?thesis using that [of i] i by simp
qed

lemma queue_nth: "lock_queue n s q h \<Longrightarrow> i < length q \<Longrightarrow> q ! i = t \<Longrightarrow> j < length q \<Longrightarrow> q ! j = t \<longleftrightarrow> j = i"
  by (auto simp: lock_queue_def nth_eq_iff_index_eq)

lemma queue_poll:
  assumes "lock_queue n s q h" "n < 2 ^ 32" "ls_pc s t = LkSpin v"
  shows "\<exists>h. lock_queue n (lock_poll t v s) q h"
proof (cases "lk_serving (ls_lock s) = v")
  case False
  then show ?thesis using assms(1) by (auto simp: lock_poll_def)
next
  case True
  obtain i where i: "i < length q" "q ! i = t" "pc_at (lk_serving (ls_lock s) + of_nat i) (ls_pc s t) (h \<and> i = 0)"
    "lk_serving (ls_lock s) + of_nat i = lk_serving (ls_lock s) \<longleftrightarrow> i = 0"
    using ticket_place [OF assms(1,2), of t] assms(3) by auto
  have z: "i = 0" "\<not> h" using i(3,4) assms(3) True by auto
  note o = queue_nth [OF assms(1) i(1,2)]
  have "q \<noteq> []" "hd q = t" using i(1,2) z(1) by (auto simp: hd_conv_nth)
  then have "lock_queue n (lock_poll t v s) q True"
    using assms(1) z o True by (auto simp: lock_queue_def lock_poll_def)
  then show ?thesis by blast
qed

lemma queue_load:
  assumes "lock_queue n s q h" "n < 2 ^ 32" "ls_pc s t = LkIn"
  shows "lock_queue n (unlock_load t s) q h"
proof -
  obtain i where i: "i < length q" "q ! i = t" "h \<and> i = 0"
    using ticket_place [OF assms(1,2), of t] assms(3) by auto
  have "t \<in> set q" using i(1,2) nth_mem by blast
  then show ?thesis using assms(1) i(3) queue_nth [OF assms(1) i(1,2)]
    by (auto simp: lock_queue_def unlock_load_def)
qed

lemma queue_store:
  assumes "lock_queue n s q h" "n < 2 ^ 32" "ls_pc s t = LkStore v"
  shows "lock_queue n (unlock_store t v s) (tl q) False"
proof -
  obtain i where i0: "i < length q" "q ! i = t" "pc_at (lk_serving (ls_lock s) + of_nat i) (ls_pc s t) (h \<and> i = 0)"
    by (rule ticket_place [OF assms(1,2), of t]) (use assms(3) in simp_all)
  then have i: "h" "i = 0" "v = lk_serving (ls_lock s)" using assms(3) by simp_all
  obtain q' where q: "q = t # q'" using i0(1,2) i(2) by (cases q) simp_all
  have "t \<notin> set q'" using assms(1) q by (simp add: lock_queue_def)
  then have o: "q' ! j \<noteq> t" if "j < length q'" for j using that nth_mem by metis
  have p: "pc_at (lk_serving (ls_lock s) + 1 + of_nat j) (ls_pc s (q' ! j)) False" if "j < length q'" for j
  proof -
    have "Suc j < length q" using that q by simp
    then have "pc_at (lk_serving (ls_lock s) + of_nat (Suc j)) (ls_pc s (q ! Suc j)) False"
      using queue_pc [OF assms(1), of "Suc j"] by simp
    then show ?thesis using q by (simp add: algebra_simps)
  qed
  let ?s = "unlock_store t v s"
  have f: "lk_serving (ls_lock ?s) = lk_serving (ls_lock s) + 1" "lk_next (ls_lock ?s) = lk_next (ls_lock s)"
    "ls_arrived ?s = ls_arrived s" "ls_granted ?s = ls_granted s" "ls_pc ?s = (ls_pc s)(t := LkOut)"
    using i(3) by (simp_all add: unlock_store_def)
  have "\<exists>d. ls_arrived s = d @ q' \<and> ls_granted s = d"
    using assms(1) q i(1) by (force simp: lock_queue_def)
  moreover have "lk_next (ls_lock s) = lk_serving (ls_lock s) + 1 + of_nat (length q')"
    using assms(1) q by (simp add: lock_queue_def algebra_simps)
  moreover have "distinct q'" "set q' \<subseteq> {..< n}" "\<forall>u. u \<notin> set q' \<longrightarrow> ((ls_pc s)(t := LkOut)) u = LkOut"
    using assms(1) q by (auto simp: lock_queue_def)
  ultimately show ?thesis using o p by (simp add: lock_queue_def f q)
qed

lemma lock_inv_step:
  assumes "n < 2 ^ 32" "lock_inv n s" "lock_step n s s'"
  shows "lock_inv n s'"
proof -
  obtain q h where q: "lock_queue n s q h" using assms(2) by (auto simp: lock_inv_def)
  show ?thesis using assms(3) unfolding lock_inv_def
  proof cases
    case (take t)
    then show "\<exists>q h. lock_queue n s' q h" using queue_take [OF q] by blast
  next
    case (poll t v)
    then show "\<exists>q h. lock_queue n s' q h" using queue_poll [OF q assms(1)] by blast
  next
    case (load t)
    then show "\<exists>q h. lock_queue n s' q h" using queue_load [OF q assms(1)] by blast
  next
    case (store t v)
    then show "\<exists>q h. lock_queue n s' q h" using queue_store [OF q assms(1)] by blast
  qed
qed

interpretation lkm: invariant_machine lock_init "lock_step (min n (2 ^ 32 - 1))" "lock_inv (min n (2 ^ 32 - 1))" for n
proof
  show "lock_init s \<Longrightarrow> lock_inv (min n (2 ^ 32 - 1)) s" for s using queue_init by (auto simp: lock_inv_def)
qed (rule lock_inv_step, auto)

lemma queue_section:
  assumes "lock_queue n s q h" "n < 2 ^ 32" "in_section s t"
  shows "h \<and> q \<noteq> [] \<and> t = hd q"
proof -
  have o: "ls_pc s t \<noteq> LkOut" using assms(3) by (auto simp: in_section_def)
  obtain i where i: "i < length q" "q ! i = t" "pc_at (lk_serving (ls_lock s) + of_nat i) (ls_pc s t) (h \<and> i = 0)"
    using ticket_place [OF assms(1,2) o] by auto
  then have "h \<and> i = 0" using assms(3) by (auto simp: in_section_def split: LockPc.splits)
  then show ?thesis using i(1,2) by (auto simp: hd_conv_nth)
qed

section \<open>Mutual exclusion and order\<close>

text \<open>
  C35. The lock every shared structure of the hypervisor is behind. For up to 2^32 - 1
  threads, any interleaving of their atomic accesses and any number of wraps of the
  tickets, at most one thread is in its critical section, threads enter in the order of
  their \<open>fetch_add\<close>, and a thread finds the lock busy only while another one has it or
  is before it in the queue.
\<close>

theorem ticket_lock_safe:
  assumes "n < 2 ^ 32" "lock_init s0" "(lock_step n)\<^sup>*\<^sup>* s0 s"
  shows "(in_section s t \<longrightarrow> in_section s u \<longrightarrow> t = u)
    \<and> ls_granted s = take (length (ls_granted s)) (ls_arrived s)
    \<and> (ls_arrived s \<noteq> ls_granted s \<longrightarrow> (\<exists>v. in_section s v) \<or> ls_pc s (ls_arrived s ! length (ls_granted s)) = LkSpin (lk_serving (ls_lock s)))"
proof -
  have m: "min n (2 ^ 32 - 1) = n" using assms(1) by simp
  obtain q h where q: "lock_queue n s q h"
    using lkm.reachable_inv [OF assms(2), of n s] assms(3) unfolding m lock_inv_def by blast
  obtain d where d: "ls_arrived s = d @ q" "ls_granted s = d @ (if h then [hd q] else [])" using q by (auto simp: lock_queue_def)
  have "(\<exists>v. in_section s v) \<or> ls_pc s (ls_arrived s ! length (ls_granted s)) = LkSpin (lk_serving (ls_lock s))"
    if "ls_arrived s \<noteq> ls_granted s"
  proof (cases h)
    case True
    then have "pc_at (lk_serving (ls_lock s)) (ls_pc s (hd q)) True"
      using q queue_pc [OF q, of 0] by (cases q) (auto simp: lock_queue_def)
    then have "in_section s (hd q)" by (cases "ls_pc s (hd q)") (auto simp: in_section_def)
    then show ?thesis by blast
  next
    case False
    then have "q \<noteq> []" using that d by auto
    then have "pc_at (lk_serving (ls_lock s)) (ls_pc s (q ! 0)) False" using queue_pc [OF q, of 0] False by simp
    then have "ls_pc s (q ! 0) = LkSpin (lk_serving (ls_lock s))" by (cases "ls_pc s (q ! 0)") auto
    then show ?thesis using d False \<open>q \<noteq> []\<close> by (simp add: nth_append)
  qed
  moreover have "ls_granted s = take (length (ls_granted s)) (ls_arrived s)"
    using d q by (cases q) (auto simp: lock_queue_def)
  ultimately show ?thesis using queue_section [OF q assms(1)] by blast
qed

text \<open>Two threads at the wrap of the tickets: the second spins while the first is in the section.\<close>

definition wit_lock0 :: LockState where
  "wit_lock0 = \<lparr>ls_lock = \<lparr>lk_next = - 1, lk_serving = - 1\<rparr>, ls_pc = (\<lambda>_. LkOut), ls_arrived = [], ls_granted = []\<rparr>"

definition wit_lock1 :: LockState where
  "wit_lock1 = lock_poll 0 0 (lock_poll 1 (- 1) (lock_take 0 (lock_take 1 wit_lock0)))"

lemma wit_lock_steps: "(lock_step 2)\<^sup>*\<^sup>* wit_lock0 wit_lock1"
proof -
  let ?a = "lock_take 1 wit_lock0" let ?b = "lock_take 0 ?a" let ?c = "lock_poll 1 (- 1) ?b"
  have "lock_step 2 wit_lock0 ?a" by (rule take) (simp_all add: wit_lock0_def)
  moreover have "lock_step 2 ?a ?b" by (rule take) (simp_all add: lock_take_def wit_lock0_def)
  moreover have "lock_step 2 ?b ?c" by (rule poll) (simp_all add: lock_take_def wit_lock0_def)
  moreover have "lock_step 2 ?c wit_lock1" unfolding wit_lock1_def
    by (rule poll) (simp_all add: lock_take_def lock_poll_def wit_lock0_def)
  ultimately show ?thesis by (meson r_into_rtranclp rtranclp_trans)
qed

lemma ticket_lock_safe_witness:
  "in_section wit_lock1 1 \<and> \<not> in_section wit_lock1 0 \<and> ls_granted wit_lock1 = take 1 (ls_arrived wit_lock1) \<and> ls_arrived wit_lock1 = [1, 0]"
proof -
  have i: "lock_init wit_lock0" by (simp add: lock_init_def wit_lock0_def)
  have v: "in_section wit_lock1 1" "ls_arrived wit_lock1 = [1, 0]" "ls_granted wit_lock1 = [1]"
    by (simp_all add: wit_lock1_def wit_lock0_def lock_take_def lock_poll_def in_section_def)
  then show ?thesis using ticket_lock_safe [OF _ i wit_lock_steps, of 0 1] by auto
qed

end
