(* ===== verification/NovaTelemetry.thy ===== *)
theory NovaTelemetry
  imports NovaMachine
begin

text \<open>
  \<open>src/nova/telemetry.hpp\<close>: the published region and its sequence locks. First the
  publisher as the code runs it, then one slot with the accesses of the publisher and of
  a reader split apart, the source changing at any time. The region is its header, its
  descriptor table and its bytes by offset from the base; a source is read through the
  memory of the machine. Accesses are sequentially consistent.
\<close>

section \<open>The region\<close>

definition NOVA_TLM_MAGIC :: u64 where "NOVA_TLM_MAGIC = 0x0000004D4C54564E"
definition NOVA_TLM_VERSION :: u32 where "NOVA_TLM_VERSION = 1"
definition NOVA_TLM_DESC_SIZE :: u32 where "NOVA_TLM_DESC_SIZE = 32"
definition NOVA_TLM_MAX_SLOTS :: nat where "NOVA_TLM_MAX_SLOTS = 64"
definition NOVA_TLM_PAYLOAD_OFF :: u64 where "NOVA_TLM_PAYLOAD_OFF = 0x1000"
definition NOVA_TLM_PAYLOAD_BYTES :: u64 where "NOVA_TLM_PAYLOAD_BYTES = 0x8000"
definition NOVA_TLM_ALIGN :: u64 where "NOVA_TLM_ALIGN = 8"

record Descriptor =
  td_source :: u64
  td_seq :: u64
  td_stamp :: u64
  td_at :: u32
  td_bytes :: u32

record TlmHeader =
  th_magic :: u64
  th_version :: u32
  th_slots :: u32
  th_max_slots :: u32
  th_desc_size :: u32
  th_period_us :: u32
  th_budget :: u32
  th_bytes :: u32
  th_freq :: u32

type_synonym memory = "nat \<Rightarrow> u8"

record Publisher =
  pb_placed :: bool
  pb_header :: TlmHeader
  pb_table :: "Descriptor list"
  pb_mem :: memory
  pb_slots :: nat
  pb_used :: u64
  pb_copied :: u64
  pb_cursor :: nat

definition descriptor_none :: Descriptor where
  "descriptor_none = \<lparr>td_source = 0, td_seq = 0, td_stamp = 0, td_at = 0, td_bytes = 0\<rparr>"

definition bind_region :: "u32 \<Rightarrow> u32 \<Rightarrow> u32 \<Rightarrow> Publisher \<Rightarrow> Publisher" where
  "bind_region period_us budget freq p = p\<lparr>pb_placed := True, pb_slots := 0, pb_used := 0, pb_copied := 0, pb_cursor := 0,
     pb_table := replicate NOVA_TLM_MAX_SLOTS descriptor_none,
     pb_header := \<lparr>th_magic = 0, th_version = NOVA_TLM_VERSION, th_slots = 0, th_max_slots = of_nat NOVA_TLM_MAX_SLOTS,
       th_desc_size = NOVA_TLM_DESC_SIZE, th_period_us = period_us, th_budget = budget, th_bytes = 0, th_freq = freq\<rparr>\<rparr>"

definition declare_stride :: "u64 \<Rightarrow> u64" where
  "declare_stride bytes = (bytes + NOVA_TLM_ALIGN - 1) AND NOT (NOVA_TLM_ALIGN - 1)"

definition declare_span :: "u64 \<Rightarrow> u64 \<Rightarrow> Publisher \<Rightarrow> bool \<times> Publisher" where
  "declare_span source bytes p =
     (if \<not> pb_placed p \<or> pb_slots p \<ge> NOVA_TLM_MAX_SLOTS \<or> bytes = 0 then (False, p)
      else if pb_used p + declare_stride bytes > NOVA_TLM_PAYLOAD_BYTES then (False, p)
      else (True, p\<lparr>
        pb_table := (pb_table p)[pb_slots p := (pb_table p ! pb_slots p)\<lparr>td_source := source,
          td_at := ucast (NOVA_TLM_PAYLOAD_OFF + pb_used p), td_bytes := ucast bytes\<rparr>],
        pb_used := pb_used p + declare_stride bytes, pb_copied := pb_copied p + bytes, pb_slots := Suc (pb_slots p)\<rparr>))"

definition open_region :: "Publisher \<Rightarrow> Publisher" where
  "open_region p = (if \<not> pb_placed p then p
     else p\<lparr>pb_header := (pb_header p)\<lparr>th_slots := of_nat (pb_slots p), th_bytes := ucast (pb_copied p), th_magic := NOVA_TLM_MAGIC\<rparr>\<rparr>)"

section \<open>A turn\<close>

text \<open>
  \<open>copy_changed\<close> from the bytes \<open>src\<close> to the offsets from \<open>at\<close>: whole words while both
  sides are aligned, then bytes.
\<close>

definition copy_word :: "memory \<Rightarrow> nat \<Rightarrow> nat \<Rightarrow> memory \<times> bool \<Rightarrow> memory \<times> bool" where
  "copy_word src at w = (\<lambda>(mem, moved).
     (\<lambda>a. if at + 8 * w \<le> a \<and> a < at + 8 * w + 8 then src (a - at) else mem a,
      moved \<or> map (\<lambda>k. mem (at + 8 * w + k)) [0 ..< 8] \<noteq> map (\<lambda>k. src (8 * w + k)) [0 ..< 8]))"

definition copy_byte :: "memory \<Rightarrow> nat \<Rightarrow> nat \<Rightarrow> memory \<times> bool \<Rightarrow> memory \<times> bool" where
  "copy_byte src at i = (\<lambda>(mem, moved). (mem(at + i := src i), moved \<or> mem (at + i) \<noteq> src i))"

definition copy_changed :: "bool \<Rightarrow> memory \<Rightarrow> nat \<Rightarrow> nat \<Rightarrow> memory \<Rightarrow> memory \<times> bool" where
  "copy_changed aligned src at n mem =
     (let words = (if aligned then n div 8 else 0) in
      fold (copy_byte src at) [8 * words ..< n] (fold (copy_word src at) [0 ..< words] (mem, False)))"

definition publish_slot :: "(u64 \<Rightarrow> u8) \<Rightarrow> nat \<Rightarrow> u64 \<Rightarrow> Publisher \<Rightarrow> u32 \<times> Publisher" where
  "publish_slot machine index stamp p =
     (let d = pb_table p ! index; at = unat (td_at d);
          (mem, moved) = copy_changed (td_at d AND 7 = 0 \<and> td_source d AND 7 = 0) (\<lambda>i. machine (td_source d + of_nat i)) at
            (unat (td_bytes d)) (pb_mem p);
          d = (if moved then d\<lparr>td_stamp := stamp, td_seq := td_seq d + 2\<rparr> else d) in
      (td_bytes d, p\<lparr>pb_mem := mem, pb_table := (pb_table p)[index := d]\<rparr>))"

fun publish_slots :: "(u64 \<Rightarrow> u8) \<Rightarrow> u64 \<Rightarrow> nat \<Rightarrow> nat \<Rightarrow> Publisher \<Rightarrow> nat \<times> Publisher" where
  "publish_slots machine stamp 0 spent p = (spent, p)"
| "publish_slots machine stamp (Suc left) spent p =
     (if spent \<ge> unat (th_budget (pb_header p)) then (spent, p)
      else let (n, p) = publish_slot machine (pb_cursor p) stamp p in
        publish_slots machine stamp left (spent + unat n) (p\<lparr>pb_cursor := (pb_cursor p + 1) mod pb_slots p\<rparr>))"

definition publish_turn :: "(u64 \<Rightarrow> u8) \<Rightarrow> u64 \<Rightarrow> Publisher \<Rightarrow> nat \<times> Publisher" where
  "publish_turn machine stamp p =
     (if \<not> pb_placed p \<or> pb_slots p = 0 then (0, p) else publish_slots machine stamp (pb_slots p) 0 p)"

definition publish_all :: "(u64 \<Rightarrow> u8) \<Rightarrow> u64 \<Rightarrow> Publisher \<Rightarrow> nat \<times> Publisher" where
  "publish_all machine stamp p =
     (if \<not> pb_placed p then (0, p)
      else fold (\<lambda>i (spent, p). let (n, p) = publish_slot machine i stamp p in (spent + unat n, p)) [0 ..< pb_slots p] (0, p))"

text \<open>The copy is the whole span, and what it reports is whether any byte differed.\<close>

definition span_copy :: "nat \<Rightarrow> memory \<Rightarrow> nat \<Rightarrow> nat \<Rightarrow> memory \<Rightarrow> memory" where
  "span_copy at src lo hi mem = (\<lambda>a. if at + lo \<le> a \<and> a < at + hi then src (a - at) else mem a)"

definition span_differs :: "nat \<Rightarrow> memory \<Rightarrow> nat \<Rightarrow> nat \<Rightarrow> memory \<Rightarrow> bool" where
  "span_differs at src lo hi mem \<longleftrightarrow> (\<exists>i. lo \<le> i \<and> i < hi \<and> mem (at + i) \<noteq> src i)"

lemma span_join:
  assumes "lo \<le> mid" "mid \<le> hi"
  shows "span_copy at src mid hi (span_copy at src lo mid mem) = span_copy at src lo hi mem"
    and "span_differs at src mid hi (span_copy at src lo mid mem) \<longleftrightarrow> span_differs at src mid hi mem"
    and "span_differs at src lo mid mem \<or> span_differs at src mid hi mem \<longleftrightarrow> span_differs at src lo hi mem"
proof -
  show "span_copy at src mid hi (span_copy at src lo mid mem) = span_copy at src lo hi mem"
    using assms by (intro ext) (auto simp: span_copy_def)
  show "span_differs at src mid hi (span_copy at src lo mid mem) \<longleftrightarrow> span_differs at src mid hi mem"
    by (simp add: span_differs_def span_copy_def cong: conj_cong)
  show "span_differs at src lo mid mem \<or> span_differs at src mid hi mem \<longleftrightarrow> span_differs at src lo hi mem"
  proof
    assume "span_differs at src lo mid mem \<or> span_differs at src mid hi mem"
    then obtain i where "lo \<le> i" "i < hi" "mem (at + i) \<noteq> src i"
      using assms unfolding span_differs_def by (meson order.trans order.strict_trans2)
    then show "span_differs at src lo hi mem" by (auto simp: span_differs_def)
  next
    assume "span_differs at src lo hi mem"
    then obtain i where "lo \<le> i" "i < hi" "mem (at + i) \<noteq> src i" by (auto simp: span_differs_def)
    then show "span_differs at src lo mid mem \<or> span_differs at src mid hi mem"
      by (cases "i < mid") (auto simp: span_differs_def)
  qed
qed

lemma span_none [simp]: "span_copy at src i i mem = mem" "\<not> span_differs at src i i mem"
  by (auto simp: span_copy_def span_differs_def fun_eq_iff)

lemma copy_word_span:
  "copy_word src at w (mem, moved) =
     (span_copy at src (8 * w) (8 * Suc w) mem, moved \<or> span_differs at src (8 * w) (8 * Suc w) mem)"
proof -
  have "(\<exists>k < 8. mem (at + 8 * w + k) \<noteq> src (8 * w + k)) \<longleftrightarrow> span_differs at src (8 * w) (8 * Suc w) mem"
    unfolding span_differs_def
  proof
    assume "\<exists>k < 8. mem (at + 8 * w + k) \<noteq> src (8 * w + k)"
    then obtain k where "k < 8" "mem (at + 8 * w + k) \<noteq> src (8 * w + k)" by blast
    then show "\<exists>i. 8 * w \<le> i \<and> i < 8 * Suc w \<and> mem (at + i) \<noteq> src i"
      by (intro exI [of _ "8 * w + k"]) (simp add: add.assoc)
  next
    assume "\<exists>i. 8 * w \<le> i \<and> i < 8 * Suc w \<and> mem (at + i) \<noteq> src i"
    then obtain i where "8 * w \<le> i" "i < 8 * Suc w" "mem (at + i) \<noteq> src i" by blast
    then show "\<exists>k < 8. mem (at + 8 * w + k) \<noteq> src (8 * w + k)"
      by (intro exI [of _ "i - 8 * w"]) simp
  qed
  then show ?thesis by (simp add: copy_word_def span_copy_def list_eq_iff_nth_eq fun_eq_iff ac_simps)
qed

lemma copy_byte_span:
  "copy_byte src at i (mem, moved) = (span_copy at src i (Suc i) mem, moved \<or> span_differs at src i (Suc i) mem)"
proof -
  have "span_copy at src i (Suc i) mem = mem(at + i := src i)" by (auto simp: span_copy_def fun_eq_iff)
  moreover have "span_differs at src i (Suc i) mem \<longleftrightarrow> mem (at + i) \<noteq> src i" by (auto simp: span_differs_def less_Suc_eq_le)
  ultimately show ?thesis by (simp add: copy_byte_def)
qed

lemma copy_words_span: "fold (copy_word src at) [0 ..< w] (mem, False) = (span_copy at src 0 (8 * w) mem, span_differs at src 0 (8 * w) mem)"
proof (induction w)
  case (Suc w)
  have le: "0 \<le> 8 * w" "8 * w \<le> 8 * Suc w" by simp_all
  show ?case
    by (simp add: Suc copy_word_span span_join [OF le] span_join(2) [OF le] del: mult_Suc_right)
qed simp

lemma copy_bytes_span:
  assumes "lo \<le> m"
  shows "fold (copy_byte src at) [lo ..< m] (span_copy at src 0 lo mem, span_differs at src 0 lo mem) =
     (span_copy at src 0 m mem, span_differs at src 0 m mem)"
  using assms
proof (induction m rule: dec_induct)
  case (step m)
  have le: "0 \<le> m" "m \<le> Suc m" by simp_all
  show ?case using step by (simp add: copy_byte_span span_join [OF le])
qed simp

lemma copy_changed_span: "copy_changed aligned src at n mem = (span_copy at src 0 n mem, span_differs at src 0 n mem)"
proof -
  have "8 * (n div 8) \<le> n" by simp
  then show ?thesis using copy_bytes_span [of "8 * (n div 8)" n src at mem] copy_bytes_span [of 0 n src at mem]
    by (cases aligned) (simp_all add: copy_changed_def copy_words_span Let_def)
qed

section \<open>Slots do not overlap\<close>

text \<open>
  The descriptors in use: each payload lies inside the region, starts where a word copy
  may, and after the end of the one before. The sizes are those of objects, far from
  the end of the address space.
\<close>

definition slots_apart :: "Publisher \<Rightarrow> bool" where
  "slots_apart p \<longleftrightarrow> length (pb_table p) = NOVA_TLM_MAX_SLOTS \<and> pb_slots p \<le> NOVA_TLM_MAX_SLOTS \<and> unat (pb_used p) \<le> 0x8000
     \<and> 8 dvd unat (pb_used p)
     \<and> (\<forall>i < pb_slots p. let d = pb_table p ! i in 0x1000 \<le> unat (td_at d) \<and> 8 dvd unat (td_at d)
          \<and> unat (td_at d) + unat (td_bytes d) \<le> 0x1000 + unat (pb_used p)
          \<and> (\<forall>j < i. unat (td_at (pb_table p ! j)) + unat (td_bytes (pb_table p ! j)) \<le> unat (td_at d)))"

lemma declare_stride_exact:
  assumes "unat bytes < 2 ^ 64 - 8"
  shows "unat (declare_stride bytes) = (unat bytes + 7) div 8 * 8"
proof -
  have e: "declare_stride bytes = (bytes + 7) AND NOT (mask 3)"
    by (simp add: declare_stride_def NOVA_TLM_ALIGN_def mask_eq_exp_minus_1 add_diff_eq [symmetric])
  have "unat (bytes + 7) = unat bytes + 7"
    using unat_add_no_wrap [of bytes 7] assms by simp
  then show ?thesis by (simp add: e unat_and_not_mask minus_mod_eq_div_mult)
qed

lemma declare_keeps_apart:
  assumes "slots_apart p" "unat bytes < 2 ^ 64 - 2 ^ 20"
  shows "slots_apart (snd (declare_span source bytes p))"
proof (cases "\<not> pb_placed p \<or> pb_slots p \<ge> NOVA_TLM_MAX_SLOTS \<or> bytes = 0 \<or> pb_used p + declare_stride bytes > NOVA_TLM_PAYLOAD_BYTES")
  case True
  then show ?thesis using assms(1) by (auto simp: declare_span_def)
next
  case False
  let ?u = "unat (pb_used p)" and ?st = "(unat bytes + 7) div 8 * 8"
  have u: "?u \<le> 0x8000" "8 dvd ?u" using assms(1) by (simp_all add: slots_apart_def)
  have st: "unat (declare_stride bytes) = ?st" using assms(2) by (intro declare_stride_exact) simp
  have "unat (pb_used p + declare_stride bytes) = ?u + ?st"
    using unat_add_no_wrap [of "pb_used p" "declare_stride bytes"] st u(1) assms(2) by simp
  then have fit: "?u + ?st \<le> 0x8000"
    using False by (simp add: NOVA_TLM_PAYLOAD_BYTES_def word_le_nat_alt not_less)
  have sz: "unat bytes \<le> ?st" by simp
  have at: "unat (ucast (NOVA_TLM_PAYLOAD_OFF + pb_used p) :: u32) = 0x1000 + ?u"
    using unat_add_no_wrap [of "NOVA_TLM_PAYLOAD_OFF" "pb_used p"] u(1)
    by (simp add: NOVA_TLM_PAYLOAD_OFF_def unsigned_ucast_eq take_bit_nat_eq_self)
  have nb: "unat (ucast bytes :: u32) = unat bytes" using sz fit by (simp add: unsigned_ucast_eq take_bit_nat_eq_self)
  let ?p = "snd (declare_span source bytes p)"
  have f: "pb_slots ?p = Suc (pb_slots p)" "unat (pb_used ?p) = ?u + ?st" "length (pb_table ?p) = length (pb_table p)"
    "\<And>i. i < pb_slots p \<Longrightarrow> pb_table ?p ! i = pb_table p ! i"
    "unat (td_at (pb_table ?p ! pb_slots p)) = 0x1000 + ?u" "unat (td_bytes (pb_table ?p ! pb_slots p)) = unat bytes"
    using False assms(1) at nb \<open>unat (pb_used p + declare_stride bytes) = ?u + ?st\<close>
    by (auto simp: declare_span_def slots_apart_def)
  have old: "unat (td_at (pb_table p ! i)) + unat (td_bytes (pb_table p ! i)) \<le> 0x1000 + ?u" if "i < pb_slots p" for i
    using assms(1) that by (simp add: slots_apart_def Let_def)
  show ?thesis unfolding slots_apart_def
  proof (intro conjI allI impI)
    fix i assume "i < pb_slots ?p"
    then consider "i < pb_slots p" | "i = pb_slots p" using f(1) by linarith
    then show "let d = pb_table ?p ! i in 0x1000 \<le> unat (td_at d) \<and> 8 dvd unat (td_at d)
          \<and> unat (td_at d) + unat (td_bytes d) \<le> 0x1000 + unat (pb_used ?p)
          \<and> (\<forall>j < i. unat (td_at (pb_table ?p ! j)) + unat (td_bytes (pb_table ?p ! j)) \<le> unat (td_at d))"
    proof cases
      case 1
      have "unat (td_at (pb_table p ! i)) + unat (td_bytes (pb_table p ! i)) \<le> 0x1000 + (?u + ?st)" using old [OF 1] by linarith
      then show ?thesis using 1 assms(1) f(4) by (simp add: slots_apart_def Let_def f(2))
    next
      case 2
      show ?thesis using u sz old by (simp add: 2 f(2,4,5,6) Let_def)
    qed
  qed (use False assms(1) u fit in \<open>simp_all add: f slots_apart_def\<close>)
qed

lemma bind_apart: "slots_apart (bind_region period_us budget freq p)"
  by (simp add: slots_apart_def bind_region_def)

text \<open>
  Past that bound the padding wraps: the stride of the largest size is zero, and the
  span is accepted with a descriptor that runs past the region.
\<close>

lemma declare_wraps: "declare_stride (- 1) = 0"
  by (simp add: declare_stride_def NOVA_TLM_ALIGN_def)

section \<open>One slot, publisher and reader interleaved\<close>

text \<open>
  \<open>publish_slot\<close> with its accesses apart: the odd sequence, a byte at a time out of the
  live source, the stamp of a turn that moved something, the closing sequence. A copy a
  byte at a time allows every interleaving a copy a word at a time does.
\<close>

datatype PubPc = PbIdle | PbCopy u64 u64 nat bool | PbStamp u64 u64 | PbClose u64 bool

text \<open>\<open>read_slot\<close>: the sequence, the bytes, the stamp, the sequence again.\<close>

datatype RdPc = RdIdle | RdCopy u64 "u8 list" | RdStamp u64 "u8 list" | RdCheck u64 "u8 list" u64

record Seqlock =
  sl_seq :: u64
  sl_stamp :: u64
  sl_bytes :: "u8 list"
  sl_source :: "u8 list"
  sl_pub :: PubPc
  sl_rd :: RdPc
  sl_readings :: "(u64 \<times> u8 list \<times> u64) list"
  sl_published :: "(u8 list \<times> u64) list"

text \<open>
  \<open>sl_readings\<close> and \<open>sl_published\<close> are history: the readings accepted as stable, and the
  contents the slot had when its sequence was last even, one for each value of it.
\<close>

inductive pub_step :: "Seqlock \<Rightarrow> Seqlock \<Rightarrow> bool" where
  source: "length bs = length (sl_source s) \<Longrightarrow> pub_step s (s\<lparr>sl_source := bs\<rparr>)"
| begin_turn: "sl_pub s = PbIdle \<Longrightarrow> pub_step s (s\<lparr>sl_seq := sl_seq s + 1, sl_pub := PbCopy (sl_seq s) stamp 0 False\<rparr>)"
| copy: "sl_pub s = PbCopy start stamp i moved \<Longrightarrow> i < length (sl_bytes s) \<Longrightarrow>
    pub_step s (s\<lparr>sl_bytes := (sl_bytes s)[i := sl_source s ! i],
                  sl_pub := PbCopy start stamp (Suc i) (moved \<or> sl_bytes s ! i \<noteq> sl_source s ! i)\<rparr>)"
| copied: "sl_pub s = PbCopy start stamp i moved \<Longrightarrow> i = length (sl_bytes s) \<Longrightarrow>
    pub_step s (s\<lparr>sl_pub := if moved then PbStamp start stamp else PbClose start False\<rparr>)"
| stamp: "sl_pub s = PbStamp start stamp \<Longrightarrow> pub_step s (s\<lparr>sl_stamp := stamp, sl_pub := PbClose start True\<rparr>)"
| close: "sl_pub s = PbClose start moved \<Longrightarrow>
    pub_step s (s\<lparr>sl_seq := if moved then start + 2 else start, sl_pub := PbIdle,
                  sl_published := sl_published s @ (if moved then [(sl_bytes s, sl_stamp s)] else [])\<rparr>)"

inductive rd_step :: "nat \<Rightarrow> Seqlock \<Rightarrow> Seqlock \<Rightarrow> bool" for capacity where
  open_even: "sl_rd s = RdIdle \<Longrightarrow> sl_seq s AND 1 = 0 \<Longrightarrow> length (sl_bytes s) \<le> capacity \<Longrightarrow>
    rd_step capacity s (s\<lparr>sl_rd := RdCopy (sl_seq s) []\<rparr>)"
| read: "sl_rd s = RdCopy before out \<Longrightarrow> length out < length (sl_bytes s) \<Longrightarrow>
    rd_step capacity s (s\<lparr>sl_rd := RdCopy before (out @ [sl_bytes s ! length out])\<rparr>)"
| read_end: "sl_rd s = RdCopy before out \<Longrightarrow> length out = length (sl_bytes s) \<Longrightarrow>
    rd_step capacity s (s\<lparr>sl_rd := RdStamp before out\<rparr>)"
| read_stamp: "sl_rd s = RdStamp before out \<Longrightarrow> rd_step capacity s (s\<lparr>sl_rd := RdCheck before out (sl_stamp s)\<rparr>)"
| check: "sl_rd s = RdCheck before out stamp \<Longrightarrow>
    rd_step capacity s (s\<lparr>sl_rd := RdIdle,
      sl_readings := sl_readings s @ (if sl_seq s = before then [(before, out, stamp)] else [])\<rparr>)"

definition seqlock_step :: "nat \<Rightarrow> Seqlock \<Rightarrow> Seqlock \<Rightarrow> bool" where
  "seqlock_step capacity s s' \<longleftrightarrow> pub_step s s' \<or> rd_step capacity s s'"

definition seqlock_init :: "Seqlock \<Rightarrow> bool" where
  "seqlock_init s \<longleftrightarrow> sl_seq s = 0 \<and> length (sl_source s) = length (sl_bytes s) \<and> sl_pub s = PbIdle \<and> sl_rd s = RdIdle
     \<and> sl_readings s = [] \<and> sl_published s = [(sl_bytes s, sl_stamp s)]"

text \<open>The sequence of the \<open>k\<close>-th published content.\<close>

definition seq_of :: "nat \<Rightarrow> u64" where "seq_of k = of_nat (2 * k)"

text \<open>What the slot holds against the last published content; \<open>h\<close> is the history.\<close>

fun pub_ok :: "Seqlock \<Rightarrow> PubPc \<Rightarrow> bool" where
  "pub_ok s PbIdle \<longleftrightarrow> sl_seq s = seq_of (length (sl_published s) - 1) \<and> sl_bytes s = fst (last (sl_published s)) \<and> sl_stamp s = snd (last (sl_published s))"
| "pub_ok s (PbCopy start stamp i moved) \<longleftrightarrow> start = seq_of (length (sl_published s) - 1) \<and> sl_seq s = start + 1
     \<and> sl_stamp s = snd (last (sl_published s)) \<and> i \<le> length (sl_bytes s)
     \<and> drop i (sl_bytes s) = drop i (fst (last (sl_published s)))
     \<and> (moved \<longleftrightarrow> take i (sl_bytes s) \<noteq> take i (fst (last (sl_published s))))"
| "pub_ok s (PbStamp start stamp) \<longleftrightarrow> start = seq_of (length (sl_published s) - 1) \<and> sl_seq s = start + 1
     \<and> sl_bytes s \<noteq> fst (last (sl_published s))"
| "pub_ok s (PbClose start moved) \<longleftrightarrow> start = seq_of (length (sl_published s) - 1) \<and> sl_seq s = start + 1
     \<and> (if moved then sl_bytes s \<noteq> fst (last (sl_published s)) else sl_bytes s = fst (last (sl_published s)) \<and> sl_stamp s = snd (last (sl_published s)))"

text \<open>Whether the turn in progress has changed the slot.\<close>

fun pub_moved :: "PubPc \<Rightarrow> bool" where
  "pub_moved PbIdle = False"
| "pub_moved (PbCopy start stamp i moved) = moved"
| "pub_moved (PbStamp start stamp) = True"
| "pub_moved (PbClose start moved) = moved"

text \<open>
  A reader's view is that of one publication, unless the slot has moved since: then the
  sequence will not be the one it read.
\<close>

definition view_ok :: "Seqlock \<Rightarrow> u64 \<Rightarrow> u8 list \<Rightarrow> u64 option \<Rightarrow> bool" where
  "view_ok s before out stamp \<longleftrightarrow> (\<exists>k < length (sl_published s). before = seq_of k
     \<and> (k = length (sl_published s) - 1 \<and> \<not> pub_moved (sl_pub s) \<longrightarrow>
          out = take (length out) (sl_bytes s) \<and> (\<forall>t. stamp = Some t \<longrightarrow> t = sl_stamp s)))"

fun rd_ok :: "Seqlock \<Rightarrow> RdPc \<Rightarrow> bool" where
  "rd_ok s RdIdle = True"
| "rd_ok s (RdCopy before out) \<longleftrightarrow> view_ok s before out None \<and> length out \<le> length (sl_bytes s)"
| "rd_ok s (RdStamp before out) \<longleftrightarrow> view_ok s before out None \<and> length out = length (sl_bytes s)"
| "rd_ok s (RdCheck before out stamp) \<longleftrightarrow> view_ok s before out (Some stamp) \<and> length out = length (sl_bytes s)"

definition readings_ok :: "Seqlock \<Rightarrow> bool" where
  "readings_ok s \<longleftrightarrow> (\<forall>q bs t. (q, bs, t) \<in> set (sl_readings s) \<longrightarrow> (\<exists>k < length (sl_published s). q = seq_of k \<and> (bs, t) = sl_published s ! k))"

definition seqlock_inv :: "Seqlock \<Rightarrow> bool" where
  "seqlock_inv s \<longleftrightarrow> sl_published s \<noteq> [] \<and> length (sl_source s) = length (sl_bytes s)
     \<and> (\<forall>x \<in> set (sl_published s). length (fst x) = length (sl_bytes s))
     \<and> (\<forall>k. Suc k < length (sl_published s) \<longrightarrow> fst (sl_published s ! k) \<noteq> fst (sl_published s ! Suc k))
     \<and> pub_ok s (sl_pub s) \<and> rd_ok s (sl_rd s) \<and> readings_ok s"

lemma seq_step [simp]: "seq_of k + 2 = seq_of (Suc k)"
  by (simp add: seq_of_def algebra_simps)

lemma seq_zero [simp]: "seq_of 0 = 0"
  by (simp add: seq_of_def)

lemma seq_words:
  assumes "j < 2 ^ 63" "k < 2 ^ 63"
  shows "seq_of j + 1 \<noteq> seq_of k" "seq_of j = seq_of k \<longleftrightarrow> j = k"
proof -
  have e: "seq_of j + 1 = of_nat (2 * j + 1)" by (simp add: seq_of_def)
  have "unat (seq_of j + 1) = 2 * j + 1" unfolding e using assms(1) by (subst unat_of_nat) (simp add: take_bit_nat_eq_self)
  moreover have u: "unat (seq_of i) = 2 * i" if "i < 2 ^ 63" for i
    unfolding seq_of_def using that by (subst unat_of_nat) (simp add: take_bit_nat_eq_self)
  moreover have "2 * j + 1 \<noteq> 2 * k" by presburger
  ultimately show "seq_of j + 1 \<noteq> seq_of k" "seq_of j = seq_of k \<longleftrightarrow> j = k"
    using assms by (metis, metis nat_mult_eq_cancel1 zero_less_numeral)
qed

lemma view_mono:
  assumes "view_ok s before out stamp" "sl_published s' = sl_published s @ ys"
    and "ys = [] \<Longrightarrow> \<not> pub_moved (sl_pub s') \<Longrightarrow> \<not> pub_moved (sl_pub s) \<and> sl_bytes s' = sl_bytes s \<and> sl_stamp s' = sl_stamp s"
  shows "view_ok s' before out stamp"
proof -
  obtain k where k: "k < length (sl_published s)" "before = seq_of k"
    "k = length (sl_published s) - 1 \<and> \<not> pub_moved (sl_pub s) \<longrightarrow> out = take (length out) (sl_bytes s) \<and> (\<forall>t. stamp = Some t \<longrightarrow> t = sl_stamp s)"
    using assms(1) unfolding view_ok_def by blast
  show ?thesis
  proof (cases "ys = []")
    case True
    then show ?thesis using k assms(2,3) unfolding view_ok_def by (intro exI [of _ k]) auto
  next
    case False
    then have "k < length (sl_published s') - 1" using k(1) assms(2) by (cases ys) simp_all
    then show ?thesis using k(2) unfolding view_ok_def by (intro exI [of _ k]) simp
  qed
qed

lemma rd_mono:
  assumes "rd_ok s r" "sl_published s' = sl_published s @ ys" "length (sl_bytes s') = length (sl_bytes s)"
    and "ys = [] \<Longrightarrow> \<not> pub_moved (sl_pub s') \<Longrightarrow> \<not> pub_moved (sl_pub s) \<and> sl_bytes s' = sl_bytes s \<and> sl_stamp s' = sl_stamp s"
  shows "rd_ok s' r"
  using assms(1,3) view_mono [OF _ assms(2,4)] by (cases r) auto

lemma readings_mono:
  assumes "readings_ok s" "sl_published s' = sl_published s @ ys" "sl_readings s' = sl_readings s"
  shows "readings_ok s'"
proof -
  have "\<exists>k < length (sl_published s'). q = seq_of k \<and> (bs, t) = sl_published s' ! k" if m: "(q, bs, t) \<in> set (sl_readings s')" for q bs t
  proof -
    obtain k where "k < length (sl_published s)" "q = seq_of k" "(bs, t) = sl_published s ! k"
      using assms(1) m [unfolded assms(3)] unfolding readings_ok_def by blast
    then show ?thesis by (intro exI [of _ k]) (simp add: assms(2) nth_append)
  qed
  then show ?thesis unfolding readings_ok_def by blast
qed

text \<open>A publisher step that leaves the history alone.\<close>

lemma inv_pub_local:
  assumes "seqlock_inv s" "pub_ok s' (sl_pub s')" "sl_published s' = sl_published s" "length (sl_bytes s') = length (sl_bytes s)"
    "length (sl_source s') = length (sl_source s)" "sl_rd s' = sl_rd s" "sl_readings s' = sl_readings s"
    "\<not> pub_moved (sl_pub s') \<Longrightarrow> \<not> pub_moved (sl_pub s) \<and> sl_bytes s' = sl_bytes s \<and> sl_stamp s' = sl_stamp s"
  shows "seqlock_inv s'"
  using assms rd_mono [of s "sl_rd s" s' "[]"] readings_mono [of s s' "[]"] by (simp add: seqlock_inv_def)

lemma invD:
  assumes "seqlock_inv s"
  shows "pub_ok s (sl_pub s)" "length (fst (last (sl_published s))) = length (sl_bytes s)" "sl_published s \<noteq> []"
  using assms by (simp_all add: seqlock_inv_def)

lemma inv_pub_step:
  assumes "seqlock_inv s" "pub_step s s'"
  shows "seqlock_inv s'"
  using assms(2)
proof cases
  case (source bs)
  have "pub_ok s' (sl_pub s')" using invD(1) [OF assms(1)] source by (cases "sl_pub s") simp_all
  then show ?thesis by (rule inv_pub_local [OF assms(1)]) (simp_all add: source)
next
  case (begin_turn stamp)
  have "pub_ok s' (sl_pub s')" using invD(1) [OF assms(1)] begin_turn by simp
  then show ?thesis by (rule inv_pub_local [OF assms(1)]) (simp_all add: begin_turn)
next
  case (copy start stamp i moved)
  let ?l = "fst (last (sl_published s))"
  have ok: "drop i (sl_bytes s) = drop i ?l" "moved \<longleftrightarrow> take i (sl_bytes s) \<noteq> take i ?l" "length ?l = length (sl_bytes s)"
    using invD(1,2) [OF assms(1)] copy by simp_all
  have at: "sl_bytes s ! i = ?l ! i" using ok(1,3) copy(3) by (metis Cons_nth_drop_Suc list.inject)
  have "drop (Suc i) (sl_bytes s) = drop (Suc i) ?l" using ok(1) by (metis drop_Suc tl_drop drop_drop add.commute plus_1_eq_Suc)
  moreover have "take (Suc i) ((sl_bytes s)[i := x]) = take i (sl_bytes s) @ [x]" "take (Suc i) ?l = take i ?l @ [?l ! i]" for x
    using copy(3) ok(3) by (simp_all add: take_Suc_conv_app_nth)
  ultimately have "pub_ok s' (sl_pub s')"
    using invD(1) [OF assms(1)] copy(1-3) ok(2) at by (simp, metis)
  then show ?thesis
    by (rule inv_pub_local [OF assms(1)]) (use copy in \<open>simp_all add: list_update_same_conv\<close>)
next
  case (copied start stamp i moved)
  have "pub_ok s' (sl_pub s')" using invD(1,2) [OF assms(1)] copied by auto
  then show ?thesis by (rule inv_pub_local [OF assms(1)]) (use copied in auto)
next
  case (stamp start stamp')
  have "pub_ok s' (sl_pub s')" using invD(1) [OF assms(1)] stamp by simp
  then show ?thesis by (rule inv_pub_local [OF assms(1)]) (simp_all add: stamp)
next
  case (close start moved)
  show ?thesis
  proof (cases moved)
    case False
    have "pub_ok s' (sl_pub s')" using invD(1) [OF assms(1)] close False by simp
    then show ?thesis by (rule inv_pub_local [OF assms(1)]) (simp_all add: close False)
  next
    case True
    let ?h = "sl_published s"
    have l: "last ?h = ?h ! (length ?h - 1)" "?h \<noteq> []" using invD(3) [OF assms(1)] by (simp_all add: last_conv_nth)
    have ok: "start = seq_of (length ?h - 1)" "sl_bytes s \<noteq> fst (last ?h)" using invD(1) [OF assms(1)] close True by simp_all
    have p: "sl_published s' = ?h @ [(sl_bytes s, sl_stamp s)]" by (simp add: close True)
    have "start + 2 = seq_of (length (sl_published s') - 1)"
      using ok(1) l(2) by (cases ?h) (simp_all add: p)
    then have "pub_ok s' (sl_pub s')" by (simp add: close True)
    moreover have "fst (sl_published s' ! k) \<noteq> fst (sl_published s' ! Suc k)" if "Suc k < length (sl_published s')" for k
    proof (cases "Suc k < length ?h")
      case True
      then show ?thesis using assms(1) by (simp add: p nth_append seqlock_inv_def)
    next
      case False
      then have "k = length ?h - 1" using that by (simp add: p)
      then show ?thesis using ok(2) l by (simp add: p nth_append)
    qed
    moreover have "rd_ok s' (sl_rd s')" using rd_mono [of s "sl_rd s" s', OF _ p] assms(1) by (simp add: close seqlock_inv_def)
    moreover have "readings_ok s'" using readings_mono [of s s', OF _ p] assms(1) by (simp add: close seqlock_inv_def)
    ultimately show ?thesis using assms(1) p by (simp add: seqlock_inv_def close)
  qed
qed

lemma inv_rd_local:
  assumes "seqlock_inv s" "rd_ok s r"
  shows "seqlock_inv (s\<lparr>sl_rd := r\<rparr>)"
proof -
  have p: "pub_ok (s\<lparr>sl_rd := r\<rparr>) q = pub_ok s q" for q by (cases q) simp_all
  have r: "rd_ok (s\<lparr>sl_rd := r\<rparr>) q = rd_ok s q" for q by (cases q) (simp_all add: view_ok_def)
  show ?thesis using assms p r by (simp add: seqlock_inv_def readings_ok_def)
qed

text \<open>An even sequence is that of the last publication, with no turn in progress.\<close>

lemma even_idle:
  assumes "seqlock_inv s" "sl_seq s AND 1 = 0"
  shows "sl_pub s = PbIdle" "sl_seq s = seq_of (length (sl_published s) - 1)"
proof -
  have o: "(seq_of k + 1) AND 1 \<noteq> 0" for k
    by (simp add: seq_of_def and_one_eq mod_2_eq_odd)
  have "sl_pub s = PbIdle"
    using invD(1) [OF assms(1)] assms(2) o by (cases "sl_pub s") auto
  then show "sl_pub s = PbIdle" "sl_seq s = seq_of (length (sl_published s) - 1)"
    using invD(1) [OF assms(1)] by simp_all
qed

lemma open_view:
  assumes "seqlock_inv s" "sl_seq s AND 1 = 0"
  shows "view_ok s (sl_seq s) [] None"
  using even_idle [OF assms] invD(3) [OF assms(1)] unfolding view_ok_def
  by (intro exI [of _ "length (sl_published s) - 1"]) simp

lemma inv_rd_step:
  assumes "seqlock_inv s" "rd_step capacity s s'" "length (sl_published s) < 2 ^ 63"
  shows "seqlock_inv s'"
  using assms(2)
proof cases
  case open_even
  then show ?thesis using inv_rd_local [OF assms(1)] open_view [OF assms(1)] by simp
next
  case (read before out)
  have v: "view_ok s before out None" using assms(1) read by (simp add: seqlock_inv_def)
  have "view_ok s before (out @ [sl_bytes s ! length out]) None"
    using v read(3) unfolding view_ok_def by (auto simp: take_Suc_conv_app_nth)
  then show ?thesis using inv_rd_local [OF assms(1)] read by simp
next
  case (read_end before out)
  then have "rd_ok s (RdStamp before out)" using assms(1) by (simp add: seqlock_inv_def)
  then show ?thesis using inv_rd_local [OF assms(1)] read_end(1) by simp
next
  case (read_stamp before out)
  have v: "view_ok s before out None" "length out = length (sl_bytes s)" using assms(1) read_stamp by (simp_all add: seqlock_inv_def)
  then have "view_ok s before out (Some (sl_stamp s))" by (auto simp: view_ok_def)
  then show ?thesis using inv_rd_local [OF assms(1)] v(2) read_stamp by simp
next
  case (check before out stamp)
  have v: "view_ok s before out (Some stamp)" "length out = length (sl_bytes s)" using assms(1) check by (simp_all add: seqlock_inv_def)
  have "\<exists>k < length (sl_published s). before = seq_of k \<and> (out, stamp) = sl_published s ! k" if "sl_seq s = before"
  proof -
    obtain k where k: "k < length (sl_published s)" "before = seq_of k"
      "k = length (sl_published s) - 1 \<and> \<not> pub_moved (sl_pub s) \<longrightarrow> out = take (length out) (sl_bytes s) \<and> stamp = sl_stamp s"
      using v(1) unfolding view_ok_def by auto
    have e: "sl_seq s AND 1 = 0" unfolding that k(2) by (simp add: seq_of_def and_one_eq mod_2_eq_odd)
    have kl: "k = length (sl_published s) - 1"
      using seq_words(2) [of k "length (sl_published s) - 1"] even_idle(2) [OF assms(1) e] that k(1,2) assms(3) by simp
    then have "out = sl_bytes s" "stamp = sl_stamp s"
      using k(3) even_idle(1) [OF assms(1) e] v(2) by simp_all
    moreover have "sl_bytes s = fst (last (sl_published s))" "sl_stamp s = snd (last (sl_published s))"
      using invD(1) [OF assms(1)] even_idle(1) [OF assms(1) e] by simp_all
    moreover have "last (sl_published s) = sl_published s ! k"
      using kl invD(3) [OF assms(1)] by (simp add: last_conv_nth)
    ultimately show ?thesis using k(1,2) by (intro exI [of _ k]) simp
  qed
  then have "readings_ok s'" using assms(1) check by (auto simp: seqlock_inv_def readings_ok_def)
  moreover have "pub_ok s' q = pub_ok s q" for q using check by (cases q) simp_all
  ultimately show ?thesis using assms(1) check by (simp add: seqlock_inv_def)
qed

lemma publish_grows: "seqlock_step capacity s s' \<Longrightarrow> length (sl_published s) \<le> length (sl_published s')"
  by (auto simp: seqlock_step_def elim!: pub_step.cases rd_step.cases)

text \<open>The sequence takes 2^63 publications to come round: the bounded histories are a machine.\<close>

interpretation seqm: invariant_machine seqlock_init
  "\<lambda>s s'. seqlock_step capacity s s' \<and> length (sl_published s') < 2 ^ 63" seqlock_inv for capacity
proof
  show "seqlock_inv s" if "seqlock_init s" for s
    using that by (simp add: seqlock_init_def seqlock_inv_def readings_ok_def)
  show "seqlock_inv s'" if "seqlock_inv s" "seqlock_step capacity s s' \<and> length (sl_published s') < 2 ^ 63" for s s'
  proof -
    have "length (sl_published s) \<le> length (sl_published s')"
      using that(2) publish_grows by blast
    then show ?thesis using that inv_pub_step inv_rd_step unfolding seqlock_step_def by (metis le_less_trans)
  qed
qed

lemma bounded_run:
  assumes "(seqlock_step capacity)\<^sup>*\<^sup>* s s'" "length (sl_published s') < 2 ^ 63"
  shows "(\<lambda>s s'. seqlock_step capacity s s' \<and> length (sl_published s') < 2 ^ 63)\<^sup>*\<^sup>* s s'"
  using assms
proof (induction rule: rtranclp_induct)
  case (step t u)
  then have "length (sl_published t) < 2 ^ 63" using publish_grows [OF step(2)] by simp
  then show ?case using step by (auto intro: rtranclp.rtrancl_into_rtrancl)
qed simp

text \<open>
  C36. A stable reading is one reading. Under every interleaving of publisher turns, a
  reader's accesses and changes of the live source, the bytes and the stamp a reader
  accepts are those of one publication, the one its sequence names, and never a mix; and
  the sequence moves exactly when the bytes do: two consecutive publications differ.
\<close>

theorem stable_reading_is_one:
  assumes "seqlock_init s0" "(seqlock_step capacity)\<^sup>*\<^sup>* s0 s" "length (sl_published s) < 2 ^ 63"
  shows "((q, bs, t) \<in> set (sl_readings s) \<longrightarrow> (\<exists>k < length (sl_published s). q = of_nat (2 * k) \<and> (bs, t) = sl_published s ! k))
    \<and> (Suc k < length (sl_published s) \<longrightarrow> fst (sl_published s ! k) \<noteq> fst (sl_published s ! Suc k))
    \<and> (sl_pub s = PbIdle \<longrightarrow> sl_seq s = of_nat (2 * (length (sl_published s) - 1)) \<and> sl_bytes s = fst (last (sl_published s)))"
proof -
  have i: "seqlock_inv s" by (rule seqm.reachable_inv [OF assms(1) bounded_run [OF assms(2,3)]])
  have "readings_ok s" "\<forall>k. Suc k < length (sl_published s) \<longrightarrow> fst (sl_published s ! k) \<noteq> fst (sl_published s ! Suc k)"
    using i by (simp_all add: seqlock_inv_def)
  then show ?thesis using invD(1) [OF i] unfolding readings_ok_def by (auto simp: seq_of_def)
qed

text \<open>One byte is published as it moves from 0 to 7; the reader crosses the turn, retries and reads 7.\<close>

definition wit_seq0 :: Seqlock where
  "wit_seq0 = \<lparr>sl_seq = 0, sl_stamp = 0, sl_bytes = [0], sl_source = [0], sl_pub = PbIdle, sl_rd = RdIdle,
     sl_readings = [], sl_published = [([0], 0)]\<rparr>"

definition wit_seq1 :: Seqlock where
  "wit_seq1 = \<lparr>sl_seq = 2, sl_stamp = 5, sl_bytes = [7], sl_source = [7], sl_pub = PbIdle, sl_rd = RdIdle,
     sl_readings = [(2, [7], 5)], sl_published = [([0], 0), ([7], 5)]\<rparr>"

lemma wit_seq_steps: "(seqlock_step 4)\<^sup>*\<^sup>* wit_seq0 wit_seq1"
proof -
  note P = converse_rtranclp_into_rtranclp [of "seqlock_step 4", OF disjI1 [THEN seqlock_step_def [THEN iffD2]]]
  note R = converse_rtranclp_into_rtranclp [of "seqlock_step 4", OF disjI2 [THEN seqlock_step_def [THEN iffD2]]]
  show ?thesis unfolding wit_seq0_def
    apply (rule R, rule open_even, simp, simp, simp, simp?)
    apply (rule P, rule source [of "[7]"], simp, simp?)
    apply (rule P, rule begin_turn [of _ 5], simp, simp?)
    apply (rule R, rule read, simp, simp, simp?)
    apply (rule P, rule copy [where moved = False], simp, simp, simp?)
    apply (rule P, rule copied [where moved = True], simp, simp, simp?)
    apply (rule P, rule stamp, simp, simp?)
    apply (rule P, rule close [where moved = True], simp, simp?)
    apply (rule R, rule read_end, simp, simp, simp?)
    apply (rule R, rule read_stamp, simp, simp?)
    apply (rule R, rule check, simp, simp?)
    apply (rule R, rule open_even, simp, simp, simp, simp?)
    apply (rule R, rule read, simp, simp, simp?)
    apply (rule R, rule read_end, simp, simp, simp?)
    apply (rule R, rule read_stamp, simp, simp?)
    apply (rule R, rule check, simp, simp?)
    apply (simp add: wit_seq1_def)
    done
qed

lemma stable_reading_is_one_witness:
  "seqlock_init wit_seq0 \<and> (seqlock_step 4)\<^sup>*\<^sup>* wit_seq0 wit_seq1 \<and> sl_readings wit_seq1 = [(of_nat (2 * 1), sl_published wit_seq1 ! 1)]
     \<and> fst (sl_published wit_seq1 ! 0) \<noteq> fst (sl_published wit_seq1 ! 1)"
proof -
  have i: "seqlock_init wit_seq0" by (simp add: seqlock_init_def wit_seq0_def)
  have "length (sl_published wit_seq1) < 2 ^ 63" by (simp add: wit_seq1_def)
  note th = stable_reading_is_one [OF i wit_seq_steps this, of "2" "[7]" "5" "0"]
  show ?thesis using th i wit_seq_steps by (simp add: wit_seq1_def)
qed

end
