(* ===== verification/NovaVuart.thy ===== *)
theory NovaVuart
  imports NovaGuest NovaRing
begin

text \<open>
  \<open>components/vdev/vuart\<close>: the PL011 register model (\<open>vuart_model.hpp\<close>) and its
  component (\<open>vuart.cpp\<close>), and \<open>components/infra/console_mux\<close>: line assembly and input
  focus (\<open>line_model.hpp\<close>, \<open>console_mux.cpp\<close>). A character is its byte. Console
  output is the list of the strings handed to the console; the interrupts posted to the
  virtual GIC are a list of VMs.
\<close>

section \<open>Register model\<close>

definition kUartFrameSize :: u64 where "kUartFrameSize = 0x1000"
definition kUartDr :: u64 where "kUartDr = 0x000"
definition kUartRsr :: u64 where "kUartRsr = 0x004"
definition kUartFr :: u64 where "kUartFr = 0x018"
definition kUartIbrd :: u64 where "kUartIbrd = 0x024"
definition kUartFbrd :: u64 where "kUartFbrd = 0x028"
definition kUartLcrH :: u64 where "kUartLcrH = 0x02C"
definition kUartCr :: u64 where "kUartCr = 0x030"
definition kUartIfls :: u64 where "kUartIfls = 0x034"
definition kUartImsc :: u64 where "kUartImsc = 0x038"
definition kUartRis :: u64 where "kUartRis = 0x03C"
definition kUartMis :: u64 where "kUartMis = 0x040"
definition kUartIcr :: u64 where "kUartIcr = 0x044"
definition kUartDmacr :: u64 where "kUartDmacr = 0x048"
definition kUartIds :: u64 where "kUartIds = 0xFE0"
definition kFrRxfe :: u32 where "kFrRxfe = 0x10"
definition kFrTxfe :: u32 where "kFrTxfe = 0x80"
definition kIntRx :: u32 where "kIntRx = 0x10"
definition kImscMask :: u32 where "kImscMask = 0x7FF"
definition kFifoDepth :: nat where "kFifoDepth = 16"

definition is_config_reg :: "u64 \<Rightarrow> bool" where
  "is_config_reg off \<longleftrightarrow> off \<in> {kUartRsr, kUartIbrd, kUartFbrd, kUartLcrH, kUartCr, kUartIfls, kUartDmacr}"

record UartState =
  ur_fifo :: "u8 list"
  ur_head :: nat
  ur_count :: nat
  ur_imsc :: u32

definition uart_reset :: UartState where
  "uart_reset = \<lparr>ur_fifo = replicate kFifoDepth 0, ur_head = 0, ur_count = 0, ur_imsc = 0\<rparr>"

definition rx_empty :: "UartState \<Rightarrow> bool" where
  "rx_empty u \<longleftrightarrow> ur_count u = 0"

definition rx_push :: "UartState \<Rightarrow> u8 \<Rightarrow> bool \<times> UartState" where
  "rx_push u b = (if ur_count u = kFifoDepth then (False, u)
     else (True, u\<lparr>ur_fifo := (ur_fifo u)[(ur_head u + ur_count u) mod kFifoDepth := b], ur_count := ur_count u + 1\<rparr>))"

definition rx_pop :: "UartState \<Rightarrow> u8 \<times> UartState" where
  "rx_pop u = (if ur_count u = 0 then (0, u)
     else (ur_fifo u ! ur_head u, u\<lparr>ur_head := (ur_head u + 1) mod kFifoDepth, ur_count := ur_count u - 1\<rparr>))"

definition ris :: "UartState \<Rightarrow> u32" where
  "ris u = (if rx_empty u then 0 else kIntRx)"

definition mis :: "UartState \<Rightarrow> u32" where
  "mis u = ris u AND ur_imsc u"

definition kUartIdValues :: "u8 list" where
  "kUartIdValues = [0x11, 0x10, 0x14, 0x00, 0x0D, 0xF0, 0x05, 0xB1]"

record RegRead =
  rr_known :: bool
  rr_value :: u64

record WriteEffect =
  we_known :: bool
  we_tx :: bool
  we_tx_byte :: u8

definition rr_is :: "u64 \<Rightarrow> RegRead" where
  "rr_is v = \<lparr>rr_known = True, rr_value = v\<rparr>"

definition reg_read :: "UartState \<Rightarrow> u64 \<Rightarrow> RegRead \<times> UartState" where
  "reg_read u off =
     (if off \<ge> kUartIds \<and> off < kUartFrameSize \<and> off mod 4 = 0 then (rr_is (ucast (kUartIdValues ! unat ((off - kUartIds) div 4))), u)
      else if is_config_reg off then (rr_is 0, u)
      else if off = kUartDr then (let (b, u) = rx_pop u in (rr_is (ucast b), u))
      else if off = kUartFr then (rr_is (ucast (kFrTxfe OR (if rx_empty u then kFrRxfe else 0))), u)
      else if off = kUartImsc then (rr_is (ucast (ur_imsc u)), u)
      else if off = kUartRis then (rr_is (ucast (ris u)), u)
      else if off = kUartMis then (rr_is (ucast (mis u)), u)
      else (\<lparr>rr_known = False, rr_value = 0\<rparr>, u))"

definition reg_write :: "UartState \<Rightarrow> u64 \<Rightarrow> u64 \<Rightarrow> WriteEffect \<times> UartState" where
  "reg_write u off v =
     (if is_config_reg off \<or> off = kUartIcr then (\<lparr>we_known = True, we_tx = False, we_tx_byte = 0\<rparr>, u)
      else if off = kUartDr then (\<lparr>we_known = True, we_tx = True, we_tx_byte = ucast v\<rparr>, u)
      else if off = kUartImsc then (\<lparr>we_known = True, we_tx = False, we_tx_byte = 0\<rparr>, u\<lparr>ur_imsc := ucast v AND kImscMask\<rparr>)
      else (\<lparr>we_known = False, we_tx = False, we_tx_byte = 0\<rparr>, u))"

section \<open>Line assembly and focus\<close>

definition kTagLen :: nat where "kTagLen = 6"
definition kLineMax :: nat where "kLineMax = 120"
definition kSwitched :: nat where "kSwitched = 2 ^ 64 - 1"
definition kFocusByte :: u8 where "kFocusByte = 0x14"

record LineBuf =
  lb_data :: "u8 list"
  lb_len :: nat

definition line_reset :: LineBuf where
  "line_reset = \<lparr>lb_data = replicate (kTagLen + kLineMax + 1) 0, lb_len = 0\<rparr>"

definition render_tag :: "nat \<Rightarrow> LineBuf \<Rightarrow> LineBuf" where
  "render_tag vm l = l\<lparr>lb_data := (lb_data l)[0 := 0x5B, 1 := 0x76, 2 := 0x6D, 3 := 0x30 + of_nat vm, 4 := 0x5D, 5 := 0x20]\<rparr>"

definition put_char :: "LineBuf \<Rightarrow> u8 \<Rightarrow> bool \<times> LineBuf" where
  "put_char l c =
     (if c = 0x0D then (False, l) else if c = 0x0A then (True, l)
      else let l = (if lb_len l < kLineMax then l\<lparr>lb_data := (lb_data l)[kTagLen + lb_len l := c], lb_len := lb_len l + 1\<rparr> else l) in
        (lb_len l = kLineMax, l))"

definition finish_line :: "nat \<Rightarrow> LineBuf \<Rightarrow> u8 list \<times> LineBuf" where
  "finish_line vm l =
     (let l = render_tag vm l; l = l\<lparr>lb_data := (lb_data l)[kTagLen + lb_len l := 0x0A]\<rparr> in
      (take (kTagLen + lb_len l + 1) (lb_data l), l))"

text \<open>The search of \<open>next_focus\<close> over the distances from \<open>from\<close>.\<close>

definition next_focus :: "nat \<Rightarrow> nat \<Rightarrow> (nat \<Rightarrow> bool) \<Rightarrow> nat" where
  "next_focus start n valid = (case find (\<lambda>i. valid ((start + i) mod n)) [1 ..< n + 1] of
     Some i \<Rightarrow> (start + i) mod n | None \<Rightarrow> start)"

section \<open>The components\<close>

definition NOVA_VUART_IPA_BASE :: u64 where "NOVA_VUART_IPA_BASE = 0x09000000"

record VuartWorld =
  vu_guests :: "GuestDescriptor list"
  vu_uart :: "UartState list"
  vu_line :: "LineBuf list"
  vu_focus :: nat
  vu_live :: "(nat \<Rightarrow> bool) option"
  vu_console :: "u8 list list"
  vu_posts :: "nat list"

definition mux_emit :: "nat \<Rightarrow> VuartWorld \<Rightarrow> VuartWorld" where
  "mux_emit slot w = (let (text, l) = finish_line (vm_of slot) (vu_line w ! slot) in
     w\<lparr>vu_line := (vu_line w)[slot := l\<lparr>lb_len := 0\<rparr>], vu_console := vu_console w @ [text]\<rparr>)"

definition guest_putc :: "nat \<Rightarrow> u8 \<Rightarrow> VuartWorld \<Rightarrow> VuartWorld" where
  "guest_putc slot c w =
     (if slot \<ge> kMaxVcpus then w
      else let (full, l) = put_char (vu_line w ! slot) c; w = w\<lparr>vu_line := (vu_line w)[slot := l]\<rparr> in
        if full then mux_emit slot w else w)"

definition guest_write :: "nat \<Rightarrow> u8 list \<Rightarrow> VuartWorld \<Rightarrow> VuartWorld" where
  "guest_write slot = fold (guest_putc slot)"

definition mux_flush :: "nat \<Rightarrow> VuartWorld \<Rightarrow> VuartWorld" where
  "mux_flush slot w = (if slot < kMaxVcpus \<and> lb_len (vu_line w ! slot) \<noteq> 0 then mux_emit slot w else w)"

definition mux_vm_reset :: "nat \<Rightarrow> VuartWorld \<Rightarrow> VuartWorld" where
  "mux_vm_reset vm w = (if vm \<ge> kMaxGuests then w
     else w\<lparr>vu_line := fold (\<lambda>v ls. ls[slot_of vm v := (ls ! slot_of vm v)\<lparr>lb_len := 0\<rparr>]) [0 ..< kMaxVcpusPerVm] (vu_line w)\<rparr>)"

definition focus_valid :: "VuartWorld \<Rightarrow> nat \<Rightarrow> bool" where
  "focus_valid w vm \<longleftrightarrow> vm < length (vu_guests w) \<and> gd_uart (vu_guests w ! vm) = UartVuart
     \<and> (case vu_live w of None \<Rightarrow> True | Some live \<Rightarrow> live (slot_of vm 0))"

definition cycle_focus :: "nat \<Rightarrow> VuartWorld \<Rightarrow> nat" where
  "cycle_focus start w = next_focus start (length (vu_guests w)) (focus_valid w)"

definition set_liveness_probe :: "(nat \<Rightarrow> bool) option \<Rightarrow> VuartWorld \<Rightarrow> VuartWorld" where
  "set_liveness_probe probe w = w\<lparr>vu_live := probe\<rparr>"

definition input_route :: "u8 \<Rightarrow> VuartWorld \<Rightarrow> nat \<times> VuartWorld" where
  "input_route c w =
     (if c \<noteq> kFocusByte
      then let w = (if focus_valid w (vu_focus w) then w else w\<lparr>vu_focus := cycle_focus (vu_focus w) w\<rparr>) in (vu_focus w, w)
      else (kSwitched, w\<lparr>vu_focus := cycle_focus (vu_focus w) w\<rparr>))"

definition post_rx :: "nat \<Rightarrow> VuartWorld \<Rightarrow> VuartWorld" where
  "post_rx vm w = w\<lparr>vu_posts := vu_posts w @ [vm]\<rparr>"

definition inject :: "nat \<Rightarrow> u8 \<Rightarrow> VuartWorld \<Rightarrow> VuartWorld" where
  "inject vm byte w =
     (let u = vu_uart w ! vm; u' = snd (rx_push u byte); w = w\<lparr>vu_uart := (vu_uart w)[vm := u']\<rparr> in
      if mis u = 0 \<and> mis u' \<noteq> 0 then post_rx vm w else w)"

definition vuart_vm_reset :: "nat \<Rightarrow> VuartWorld \<Rightarrow> VuartWorld" where
  "vuart_vm_reset vm w = (if vm \<ge> kMaxGuests then w else w\<lparr>vu_uart := (vu_uart w)[vm := uart_reset]\<rparr>)"

text \<open>
  The trapped access of the vCPU in \<open>slot\<close>: whether the device claims it, and the value a
  read answers. An offset nobody models reads as zero and is logged.
\<close>

definition vuart_mmio :: "nat \<Rightarrow> u64 \<Rightarrow> bool \<Rightarrow> u64 \<Rightarrow> VuartWorld \<Rightarrow> (bool \<times> u64) \<times> VuartWorld" where
  "vuart_mmio slot ipa is_write v w =
     (if ipa < NOVA_VUART_IPA_BASE \<or> ipa \<ge> NOVA_VUART_IPA_BASE + kUartFrameSize then ((False, v), w)
      else let vm = vm_of slot in
        if gd_uart (vu_guests w ! vm) \<noteq> UartVuart then ((False, v), w)
        else let off = ipa - NOVA_VUART_IPA_BASE; u = vu_uart w ! vm in
          if is_write
          then let (effect, u') = reg_write u off v; w = w\<lparr>vu_uart := (vu_uart w)[vm := u']\<rparr> in
            if \<not> we_known effect then ((True, v), w)
            else let w = (if we_tx effect then guest_putc slot (we_tx_byte effect) w else w) in
              ((True, v), if mis u = 0 \<and> mis u' \<noteq> 0 then post_rx vm w else w)
          else let (r, u') = reg_read u off in ((True, rr_value r), w\<lparr>vu_uart := (vu_uart w)[vm := u']\<rparr>))"

text \<open>
  The physical interrupt \<open>intid\<close>, whether another component has claimed it; \<open>bytes\<close> is
  what the receiver holds until it reads empty.
\<close>

definition vuart_handle_irq :: "u32 \<Rightarrow> u32 \<Rightarrow> bool \<Rightarrow> u8 list \<Rightarrow> VuartWorld \<Rightarrow> bool \<times> VuartWorld" where
  "vuart_handle_irq rx_intid intid handled bytes w =
     (if handled \<or> intid \<noteq> rx_intid then (handled, w)
      else (True, fold (\<lambda>c w. let (vm, w) = input_route c w in if vm \<noteq> kSwitched then inject vm c w else w) bytes w))"

section \<open>Lines\<close>

definition line_wf :: "LineBuf \<Rightarrow> bool" where
  "line_wf l \<longleftrightarrow> length (lb_data l) = kTagLen + kLineMax + 1 \<and> lb_len l \<le> kLineMax"

definition line_payload :: "LineBuf \<Rightarrow> u8 list" where
  "line_payload l = take (lb_len l) (drop kTagLen (lb_data l))"

text \<open>A buffered character is appended; the line leaves at the newline or when it is full.\<close>

lemma put_char_payload:
  assumes "line_wf l"
  shows "line_wf (snd (put_char l c))"
    and "lb_len l < kLineMax \<Longrightarrow> line_payload (snd (put_char l c)) = line_payload l @ (if c = 0x0D \<or> c = 0x0A then [] else [c])"
    and "\<not> fst (put_char l c) \<Longrightarrow> lb_len l < kLineMax \<Longrightarrow> lb_len (snd (put_char l c)) < kLineMax"
proof -
  show "line_wf (snd (put_char l c))" "\<not> fst (put_char l c) \<Longrightarrow> lb_len l < kLineMax \<Longrightarrow> lb_len (snd (put_char l c)) < kLineMax"
    using assms by (auto simp: put_char_def line_wf_def Let_def split: if_splits)
  show "line_payload (snd (put_char l c)) = line_payload l @ (if c = 0x0D \<or> c = 0x0A then [] else [c])" if "lb_len l < kLineMax"
    using assms that
    by (simp add: put_char_def line_wf_def line_payload_def Let_def drop_update_swap take_Suc_conv_app_nth kTagLen_def)
qed

text \<open>What the console is handed: the tag of the VM, the payload, one newline.\<close>

lemma finish_line_text:
  assumes "line_wf l"
  shows "fst (finish_line vm l) = [0x5B, 0x76, 0x6D, 0x30 + of_nat vm, 0x5D, 0x20] @ line_payload l @ [0x0A]"
proof -
  let ?t = "[0x5B, 0x76, 0x6D, 0x30 + of_nat vm, 0x5D, 0x20] :: u8 list"
  obtain hd tl where d: "lb_data l = hd @ tl" "length hd = 6" "length tl = 121"
    using assms by (intro that [of "take 6 (lb_data l)" "drop 6 (lb_data l)"]) (simp_all add: line_wf_def kTagLen_def kLineMax_def)
  have "(hd @ tl)[0 := 0x5B, 1 := 0x76, 2 := 0x6D, 3 := 0x30 + of_nat vm, 4 := 0x5D, 5 := 0x20] = ?t @ tl"
    using d(2) by (auto simp: length_Suc_conv numeral_eq_Suc)
  then have "lb_data (render_tag vm l) = ?t @ tl" by (simp add: render_tag_def d(1))
  moreover have "lb_len l \<le> 120" using assms by (simp add: line_wf_def kLineMax_def)
  ultimately show ?thesis using d
    by (simp add: finish_line_def Let_def line_payload_def kTagLen_def render_tag_def list_update_append take_Cons' take_Suc_conv_app_nth)
qed

section \<open>The receive FIFO\<close>

definition uart_wf :: "UartState \<Rightarrow> bool" where
  "uart_wf u \<longleftrightarrow> length (ur_fifo u) = kFifoDepth \<and> ur_head u < kFifoDepth \<and> ur_count u \<le> kFifoDepth \<and> ur_imsc u AND kImscMask = ur_imsc u"

definition rx_content :: "UartState \<Rightarrow> u8 list" where
  "rx_content u = map (\<lambda>k. ur_fifo u ! ((ur_head u + k) mod kFifoDepth)) [0 ..< ur_count u]"

definition rx_put :: "UartState \<Rightarrow> u8 \<Rightarrow> UartState option" where
  "rx_put u b = (if fst (rx_push u b) then Some (snd (rx_push u b)) else None)"

definition rx_get :: "UartState \<Rightarrow> (u8 \<times> UartState) option" where
  "rx_get u = (if rx_empty u then None else Some (rx_pop u))"

lemma rx_put_room:
  assumes "uart_wf u" "ur_count u < kFifoDepth"
  shows "uart_wf (snd (rx_push u b))" "rx_content (snd (rx_push u b)) = rx_content u @ [b]" "fst (rx_push u b)"
proof -
  have u: "length (ur_fifo u) = 16" "ur_head u < 16" "ur_count u < 16" using assms by (simp_all add: uart_wf_def kFifoDepth_def)
  have o: "(ur_head u + ur_count u) mod 16 \<noteq> (ur_head u + k) mod 16" if "k < ur_count u" for k
    using mod_distinct_window [of "ur_head u + k" "ur_head u + ur_count u" 16] that u by simp
  show "uart_wf (snd (rx_push u b))" using assms by (simp add: rx_push_def uart_wf_def)
  show "rx_content (snd (rx_push u b)) = rx_content u @ [b]"
    using o u by (simp add: rx_push_def rx_content_def kFifoDepth_def)
  show "fst (rx_push u b)" using assms by (simp add: rx_push_def)
qed

lemma rx_get_some:
  assumes "uart_wf u" "rx_content u = x # xs"
  shows "uart_wf (snd (rx_pop u))" "rx_content (snd (rx_pop u)) = xs" "fst (rx_pop u) = x" "\<not> rx_empty u"
proof -
  have u: "length (ur_fifo u) = 16" "ur_head u < 16" "ur_count u \<le> 16" using assms by (simp_all add: uart_wf_def kFifoDepth_def)
  obtain n where n: "ur_count u = Suc n" using assms(2) by (cases "ur_count u") (simp_all add: rx_content_def)
  have e: "rx_content u = ur_fifo u ! ur_head u # map (\<lambda>k. ur_fifo u ! ((ur_head u + 1 + k) mod 16)) [0 ..< n]"
    using u by (simp add: rx_content_def n map_upt_Suc kFifoDepth_def del: upt_Suc)
  show "uart_wf (snd (rx_pop u))" using assms(1) n by (simp add: rx_pop_def uart_wf_def kFifoDepth_def)
  show "rx_content (snd (rx_pop u)) = xs" "fst (rx_pop u) = x" "\<not> rx_empty u"
    using assms(2) e by (simp_all add: rx_pop_def rx_content_def rx_empty_def n kFifoDepth_def mod_simps)
qed

interpretation uartq: fifo_ring rx_put rx_get rx_content kFifoDepth uart_wf
proof
  show "length (rx_content u) \<le> kFifoDepth" if "uart_wf u" for u using that by (simp add: rx_content_def uart_wf_def)
  show "rx_put u x = None" if "uart_wf u" "length (rx_content u) = kFifoDepth" for u x
    using that by (simp add: rx_put_def rx_push_def rx_content_def)
  show "\<exists>u'. rx_put u x = Some u' \<and> uart_wf u' \<and> rx_content u' = rx_content u @ [x]"
    if "uart_wf u" "length (rx_content u) < kFifoDepth" for u x
    using that rx_put_room [of u x] by (simp add: rx_put_def rx_content_def)
  show "rx_get u = None" if "uart_wf u" "rx_content u = []" for u
    using that by (simp add: rx_get_def rx_content_def rx_empty_def)
  show "\<exists>u'. rx_get u = Some (x, u') \<and> uart_wf u' \<and> rx_content u' = xs" if "uart_wf u" "rx_content u = x # xs" for u x xs
    using that rx_get_some [OF that] by (intro exI [of _ "snd (rx_pop u)"]) (simp add: rx_get_def prod_eq_iff)
qed

section \<open>The interrupt follows the level\<close>

text \<open>
  What happens to the UART of a VM: a host byte, a guest read or write of a register.
  \<open>ut_level\<close> is set when the component posts the interrupt and cleared while the masked
  level is low; \<open>ut_in\<close> and \<open>ut_out\<close> are the bytes the FIFO took and those the guest read
  from it.
\<close>

datatype UartOp = HostByte u8 | GuestRead u64 | GuestWrite u64 u64

record UartTrace =
  ut_state :: UartState
  ut_in :: "u8 list"
  ut_out :: "u8 list"
  ut_level :: bool

definition uart_op :: "UartOp \<Rightarrow> UartTrace \<Rightarrow> UartTrace" where
  "uart_op op t = (let u = ut_state t in case op of
     HostByte b \<Rightarrow> (let (ok, u') = rx_push u b; raise = (mis u = 0 \<and> mis u' \<noteq> 0) in
       t\<lparr>ut_state := u', ut_in := ut_in t @ (if ok then [b] else []), ut_level := (ut_level t \<or> raise) \<and> mis u' \<noteq> 0\<rparr>)
   | GuestRead off \<Rightarrow> (let (r, u') = reg_read u off in
       t\<lparr>ut_state := u', ut_out := ut_out t @ (if off = kUartDr \<and> \<not> rx_empty u then [ucast (rr_value r)] else []),
         ut_level := ut_level t \<and> mis u' \<noteq> 0\<rparr>)
   | GuestWrite off v \<Rightarrow> (let (e, u') = reg_write u off v; raise = (mis u = 0 \<and> mis u' \<noteq> 0) in
       t\<lparr>ut_state := u', ut_level := (ut_level t \<or> raise) \<and> mis u' \<noteq> 0\<rparr>))"

definition uart_trace0 :: UartTrace where
  "uart_trace0 = \<lparr>ut_state = uart_reset, ut_in = [], ut_out = [], ut_level = False\<rparr>"

definition uart_inv :: "UartTrace \<Rightarrow> bool" where
  "uart_inv t \<longleftrightarrow> uart_wf (ut_state t) \<and> ut_in t = ut_out t @ rx_content (ut_state t) \<and> (ut_level t \<longleftrightarrow> mis (ut_state t) \<noteq> 0)"

lemma byte_widen: "(ucast (ucast (b :: u8) :: u64) :: u8) = b"
  by (rule bit_eqI) (auto simp: bit_simps)

lemma pop_lowers: "mis (snd (rx_pop u)) \<noteq> 0 \<Longrightarrow> mis u \<noteq> 0"
  by (auto simp: rx_pop_def mis_def ris_def rx_empty_def split: if_splits)

lemma reg_read_cases:
  shows "off \<noteq> kUartDr \<Longrightarrow> snd (reg_read u off) = u"
    and "reg_read u kUartDr = (rr_is (ucast (fst (rx_pop u))), snd (rx_pop u))"
  by (simp_all add: reg_read_def Let_def kUartDr_def kUartIds_def is_config_reg_def kUartRsr_def kUartIbrd_def kUartFbrd_def
        kUartLcrH_def kUartCr_def kUartIfls_def kUartDmacr_def case_prod_unfold)

lemma reg_write_state:
  "snd (reg_write u off v) = (if off = kUartImsc then u\<lparr>ur_imsc := ucast v AND kImscMask\<rparr> else u)"
  by (simp add: reg_write_def kUartDr_def kUartImsc_def kUartIcr_def is_config_reg_def kUartRsr_def kUartIbrd_def kUartFbrd_def
        kUartLcrH_def kUartCr_def kUartIfls_def kUartDmacr_def)

lemma uart_inv_op:
  assumes "uart_inv t"
  shows "uart_inv (uart_op op t)"
proof (cases op)
  case (HostByte b)
  let ?u = "ut_state t"
  have wf: "uart_wf ?u" using assms by (simp add: uart_inv_def)
  show ?thesis
  proof (cases "ur_count ?u = kFifoDepth")
    case True
    then have "rx_push ?u b = (False, ?u)" by (simp add: rx_push_def)
    then show ?thesis using assms HostByte by (auto simp: uart_op_def uart_inv_def)
  next
    case False
    then have "ur_count ?u < kFifoDepth" using wf by (simp add: uart_wf_def)
    note r = rx_put_room [OF wf this, of b]
    show ?thesis using assms HostByte r by (auto simp: uart_op_def uart_inv_def case_prod_unfold Let_def)
  qed
next
  case (GuestRead off)
  let ?u = "ut_state t"
  have wf: "uart_wf ?u" using assms by (simp add: uart_inv_def)
  show ?thesis
  proof (cases "off = kUartDr")
    case False
    then show ?thesis using assms GuestRead reg_read_cases(1) [OF False]
      by (auto simp: uart_op_def uart_inv_def case_prod_unfold Let_def)
  next
    case True
    show ?thesis
    proof (cases "rx_content ?u")
      case Nil
      then have "rx_empty ?u" "rx_pop ?u = (0, ?u)" by (simp_all add: rx_content_def rx_empty_def rx_pop_def)
      then show ?thesis using assms GuestRead True
        by (auto simp: uart_op_def uart_inv_def reg_read_cases(2) Let_def)
    next
      case (Cons x xs)
      note g = rx_get_some [OF wf Cons]
      show ?thesis using assms GuestRead True g Cons pop_lowers [of ?u]
        by (auto simp: uart_op_def uart_inv_def reg_read_cases(2) Let_def rr_is_def byte_widen)
    qed
  qed
next
  case (GuestWrite off v)
  have "uart_wf (snd (reg_write (ut_state t) off v))" "rx_content (snd (reg_write (ut_state t) off v)) = rx_content (ut_state t)"
    using assms by (simp_all add: uart_inv_def reg_write_state uart_wf_def rx_content_def and.assoc)
  then show ?thesis using assms GuestWrite
    by (auto simp: uart_op_def uart_inv_def case_prod_unfold Let_def)
qed



end
