(* ===== verification/NovaFdt.thy ===== *)
theory NovaFdt
  imports NovaPrelude
begin

text \<open>
  \<open>components/infra/dtb_parser/include/dtb_parser/fdt_model.hpp\<close>: the flattened device
  tree walker. A byte span is a window of memory, so that a read outside of it is a read
  of some other byte and not an error of the model. Offsets are naturals: every offset
  the walker forms is below the size of a block, at most 2^32, plus one token.
\<close>

section \<open>Bytes\<close>

record Bytes =
  by_mem :: "nat \<Rightarrow> u8"
  by_off :: nat
  by_size :: nat

definition byte_at :: "Bytes \<Rightarrow> nat \<Rightarrow> u8" where
  "byte_at b i = by_mem b (by_off b + i)"

definition subspan :: "Bytes \<Rightarrow> nat \<Rightarrow> nat \<Rightarrow> Bytes" where
  "subspan b off n = b\<lparr>by_off := by_off b + off, by_size := n\<rparr>"

definition kFdtMagic :: u32 where "kFdtMagic = 0xD00DFEED"
definition kFdtVersion :: u32 where "kFdtVersion = 17"
definition kTokBeginNode :: u32 where "kTokBeginNode = 1"
definition kTokEndNode :: u32 where "kTokEndNode = 2"
definition kTokProp :: u32 where "kTokProp = 3"
definition kTokNop :: u32 where "kTokNop = 4"
definition kTokEnd :: u32 where "kTokEnd = 9"

text \<open>\<open>std::byteswap\<close> of 32 bits.\<close>

definition byteswap32 :: "u32 \<Rightarrow> u32" where
  "byteswap32 v = push_bit 24 (v AND 0xFF) OR push_bit 8 (v AND 0xFF00) OR (drop_bit 8 v AND 0xFF00) OR drop_bit 24 v"

definition be32 :: "Bytes \<Rightarrow> nat \<Rightarrow> u32" where
  "be32 b off = (if off + 4 > by_size b then 0
     else byteswap32 (foldl (\<lambda>v i. v OR push_bit (8 * i) (ucast (byte_at b (off + i)))) 0 [0 ..< 4]))"

definition be64 :: "Bytes \<Rightarrow> nat \<Rightarrow> u64" where
  "be64 b off = push_bit 32 (ucast (be32 b off)) OR ucast (be32 b (off + 4))"

definition pad4 :: "nat \<Rightarrow> nat" where
  "pad4 n = (n + 3) div 4 * 4"

record View =
  vw_ok :: bool
  vw_structs :: Bytes
  vw_strings :: Bytes

definition no_bytes :: Bytes where "no_bytes = \<lparr>by_mem = (\<lambda>_. 0), by_off = 0, by_size = 0\<rparr>"

definition no_view :: View where "no_view = \<lparr>vw_ok = False, vw_structs = no_bytes, vw_strings = no_bytes\<rparr>"

definition make_view :: "Bytes \<Rightarrow> View" where
  "make_view blob =
     (if by_size blob < 40 \<or> be32 blob 0 \<noteq> kFdtMagic then no_view
      else let total = be32 blob 4; off_struct = be32 blob 8; off_strings = be32 blob 12; version = be32 blob 20;
               last_comp = be32 blob 24; size_str = be32 blob 32; size_struct = be32 blob 36 in
        if version < kFdtVersion \<or> last_comp > kFdtVersion \<or> unat total > by_size blob
           \<or> unat off_struct + unat size_struct > unat total \<or> unat off_strings + unat size_str > unat total then no_view
        else \<lparr>vw_ok = True, vw_structs = subspan blob (unat off_struct) (unat size_struct),
               vw_strings = subspan blob (unat off_strings) (unat size_str)\<rparr>)"

section \<open>Tokens\<close>

text \<open>The scan of \<open>read_string\<close> for the terminator.\<close>

function scan_nul :: "Bytes \<Rightarrow> nat \<Rightarrow> nat" where
  "scan_nul b i = (if i < by_size b \<and> byte_at b i \<noteq> 0 then scan_nul b (Suc i) else i)"
  by pat_completeness auto
termination by (relation "measure (\<lambda>(b, i). by_size b - i)") auto

declare scan_nul.simps [simp del]

text \<open>No text is a null view, which compares as the empty string.\<close>

definition read_string :: "Bytes \<Rightarrow> nat \<Rightarrow> u8 list option" where
  "read_string b off = (let e = scan_nul b off in
     if e \<ge> by_size b then None else Some (map (byte_at b) [off ..< e]))"

definition view_text :: "u8 list option \<Rightarrow> u8 list" where
  "view_text v = (case v of None \<Rightarrow> [] | Some s \<Rightarrow> s)"

definition skip_token :: "Bytes \<Rightarrow> nat \<Rightarrow> nat" where
  "skip_token structs off =
     (let tok = be32 structs off in
      if tok = kTokBeginNode then
        (case read_string structs (off + 4) of None \<Rightarrow> by_size structs | Some name \<Rightarrow> off + 4 + pad4 (length name + 1))
      else if tok = kTokProp then off + 12 + pad4 (unat (be32 structs (off + 4)))
      else if tok = kTokEndNode \<or> tok = kTokNop then off + 4
      else by_size structs)"

lemma skip_token_grows: "off < by_size structs \<Longrightarrow> off < skip_token structs off"
  by (auto simp: skip_token_def Let_def pad4_def split: option.split)

lemma skip_token_nearer: "\<not> by_size structs \<le> off \<Longrightarrow> by_size structs - skip_token structs off < by_size structs - off"
  using skip_token_grows [of off structs] by linarith

definition kRootNode :: nat where "kRootNode = 0"

definition name_matches :: "u8 list \<Rightarrow> u8 list \<Rightarrow> bool" where
  "name_matches node_name name \<longleftrightarrow> node_name = name
     \<or> (length node_name > length name \<and> node_name ! length name = 0x40 \<and> take (length name) node_name = name)"

section \<open>Nodes and properties\<close>

text \<open>
  The loop of \<open>for_each_child\<close>: \<open>f\<close> is called on each direct child with what it has
  gathered so far, and its verdict ends the walk with that child.
\<close>

function walk_children :: "(nat \<Rightarrow> u8 list \<Rightarrow> 's \<Rightarrow> bool \<times> 's) \<Rightarrow> View \<Rightarrow> nat \<Rightarrow> nat \<Rightarrow> 's \<Rightarrow> nat option \<times> 's" where
  "walk_children f v off depth s =
     (if off \<ge> by_size (vw_structs v) then (None, s)
      else let tok = be32 (vw_structs v) off; next_off = skip_token (vw_structs v) off in
        if tok = kTokBeginNode then
          (if depth = 0
           then let (hit, s) = f off (view_text (read_string (vw_structs v) (off + 4))) s in
             if hit then (Some off, s) else walk_children f v next_off (Suc depth) s
           else walk_children f v next_off (Suc depth) s)
        else if tok = kTokEndNode then (if depth = 0 then (None, s) else walk_children f v next_off (depth - 1) s)
        else if tok = kTokEnd then (None, s)
        else walk_children f v next_off depth s)"
  by pat_completeness auto
termination
  by (relation "measure (\<lambda>(f, v, off, depth, s). by_size (vw_structs v) - off)")
     (simp_all add: skip_token_nearer del: not_le)

declare walk_children.simps [simp del]

definition for_each_child :: "(nat \<Rightarrow> u8 list \<Rightarrow> 's \<Rightarrow> bool \<times> 's) \<Rightarrow> View \<Rightarrow> nat \<Rightarrow> 's \<Rightarrow> nat option \<times> 's" where
  "for_each_child f v node s =
     (if be32 (vw_structs v) node \<noteq> kTokBeginNode then (None, s)
      else walk_children f v (skip_token (vw_structs v) node) 0 s)"

definition find_child :: "View \<Rightarrow> nat \<Rightarrow> u8 list \<Rightarrow> nat option" where
  "find_child v node name = fst (for_each_child (\<lambda>_ n s. (name_matches n name, s)) v node ())"

definition count_children :: "View \<Rightarrow> nat \<Rightarrow> u8 list \<Rightarrow> u32" where
  "count_children v node name = snd (for_each_child (\<lambda>_ n k. (False, k + (if name_matches n name then 1 else 0))) v node 0)"

function walk_props :: "View \<Rightarrow> nat \<Rightarrow> u8 list \<Rightarrow> Bytes option" where
  "walk_props v off name =
     (if off \<ge> by_size (vw_structs v) then None
      else let tok = be32 (vw_structs v) off in
        if tok = kTokProp then
          (let len = unat (be32 (vw_structs v) (off + 4)); nameoff = unat (be32 (vw_structs v) (off + 8)) in
           if off + 12 + len > by_size (vw_structs v) then None
           else if view_text (read_string (vw_strings v) nameoff) = name then Some (subspan (vw_structs v) (off + 12) len)
           else walk_props v (skip_token (vw_structs v) off) name)
        else if tok \<noteq> kTokNop then None
        else walk_props v (skip_token (vw_structs v) off) name)"
  by pat_completeness auto
termination
  by (relation "measure (\<lambda>(v, off, name). by_size (vw_structs v) - off)")
     (simp_all add: skip_token_nearer del: not_le)

declare walk_props.simps [simp del]

definition find_prop :: "View \<Rightarrow> nat \<Rightarrow> u8 list \<Rightarrow> Bytes option" where
  "find_prop v node name = (if be32 (vw_structs v) node \<noteq> kTokBeginNode then None
     else walk_props v (skip_token (vw_structs v) node) name)"

definition prop_u32 :: "Bytes option \<Rightarrow> nat \<Rightarrow> u32" where
  "prop_u32 p index = (case p of None \<Rightarrow> 0 | Some b \<Rightarrow> be32 b (index * 4))"

definition prop_u64 :: "Bytes option \<Rightarrow> nat \<Rightarrow> u64" where
  "prop_u64 p index = (case p of None \<Rightarrow> 0 | Some b \<Rightarrow> be64 b (index * 8))"

section \<open>The guest configuration\<close>

record GuestInfo =
  gi_ok :: bool
  gi_mem_base :: u64
  gi_mem_size :: u64
  gi_cpus :: u32
  gi_has_uart :: bool
  gi_autostart :: bool
  gi_has_affinity :: bool
  gi_affinity :: "u8 list"

definition no_info :: GuestInfo where
  "no_info = \<lparr>gi_ok = False, gi_mem_base = 0, gi_mem_size = 0, gi_cpus = 0, gi_has_uart = False, gi_autostart = False,
     gi_has_affinity = False, gi_affinity = replicate 8 0\<rparr>"

text \<open>ASCII of the names of the schema.\<close>

definition ascii :: "string \<Rightarrow> u8 list" where
  "ascii = map (\<lambda>c. of_nat (of_char c))"

definition parse_guest :: "Bytes \<Rightarrow> GuestInfo" where
  "parse_guest blob =
     (let v = make_view blob in
      if \<not> vw_ok v then no_info
      else case (find_child v kRootNode (ascii ''memory''), find_child v kRootNode (ascii ''cpus'')) of
        (Some mem, Some cpus) \<Rightarrow>
          (let reg = find_prop v mem (ascii ''reg'') in
           case reg of
             None \<Rightarrow> no_info
           | Some b \<Rightarrow>
               if by_size b < 16 then no_info
               else let n = count_children v cpus (ascii ''cpu''); aff = find_prop v kRootNode (ascii ''nova,affinity'');
                        has_aff = (case aff of None \<Rightarrow> False | Some a \<Rightarrow> by_size a = 4 * unat n \<and> unat n \<le> 8) in
                 \<lparr>gi_ok = n > 0 \<and> prop_u64 reg 1 > 0, gi_mem_base = prop_u64 reg 0, gi_mem_size = prop_u64 reg 1, gi_cpus = n,
                   gi_has_uart = find_child v kRootNode (ascii ''uart'') \<noteq> None,
                   gi_autostart = find_prop v kRootNode (ascii ''nova,autostart'') \<noteq> None, gi_has_affinity = has_aff,
                   gi_affinity = (if has_aff then foldl (\<lambda>l i. l[i := ucast (prop_u32 aff i)]) (replicate 8 0) [0 ..< unat n] else replicate 8 0)\<rparr>)
      | _ \<Rightarrow> no_info)"

section \<open>What a parse depends on\<close>

text \<open>Two windows that show the same bytes, whatever lies around them.\<close>

definition same_bytes :: "Bytes \<Rightarrow> Bytes \<Rightarrow> bool" where
  "same_bytes a b \<longleftrightarrow> by_size a = by_size b \<and> (\<forall>i < by_size b. byte_at a i = byte_at b i)"

definition same_view :: "View \<Rightarrow> View \<Rightarrow> bool" where
  "same_view v w \<longleftrightarrow> vw_ok v = vw_ok w \<and> same_bytes (vw_structs v) (vw_structs w) \<and> same_bytes (vw_strings v) (vw_strings w)"

lemma same_bytes_size: "same_bytes a b \<Longrightarrow> by_size a = by_size b"
  by (simp add: same_bytes_def)

lemma same_bytes_at: "same_bytes a b \<Longrightarrow> i < by_size b \<Longrightarrow> byte_at a i = byte_at b i"
  by (simp add: same_bytes_def)

lemma same_bytes_refl [simp]: "same_bytes a a"
  by (simp add: same_bytes_def)

lemma same_subspan:
  assumes "same_bytes a b" "off + n \<le> by_size b"
  shows "same_bytes (subspan a off n) (subspan b off n)"
proof -
  have "byte_at (subspan x off n) i = byte_at x (off + i)" for x i
    by (simp add: byte_at_def subspan_def add.assoc)
  then show ?thesis
    using assms by (simp add: same_bytes_def) (simp add: subspan_def)
qed

lemma same_be32:
  assumes "same_bytes a b" shows "be32 a off = be32 b off"
proof -
  have "foldl (\<lambda>v i. v OR push_bit (8 * i) (ucast (byte_at a (off + i)))) s [0 ..< 4]
      = foldl (\<lambda>v i. v OR push_bit (8 * i) (ucast (byte_at b (off + i)))) (s :: u32) [0 ..< 4]"
    if "off + 4 \<le> by_size b" for s
    by (rule foldl_cong) (use that assms in \<open>auto simp: same_bytes_at\<close>)
  then show ?thesis
    using same_bytes_size [OF assms] by (simp add: be32_def)
qed

lemma same_be64: "same_bytes a b \<Longrightarrow> be64 a off = be64 b off"
  by (simp add: be64_def same_be32 [of a b])

lemma same_scan_nul: "same_bytes a b \<Longrightarrow> scan_nul a i = scan_nul b i"
proof (induction b i rule: scan_nul.induct)
  case (1 b i)
  then show ?case
    by (subst (1 2) scan_nul.simps) (auto simp: same_bytes_size same_bytes_at)
qed

lemma same_read_string: "same_bytes a b \<Longrightarrow> read_string a off = read_string b off"
  by (simp add: read_string_def Let_def same_scan_nul [of a b] same_bytes_size same_bytes_at)

lemma same_skip_token: "same_bytes a b \<Longrightarrow> skip_token a off = skip_token b off"
  by (simp add: skip_token_def Let_def same_be32 [of a b] same_read_string [of a b] same_bytes_size [of a b]
      cong: option.case_cong)

lemma same_view_structs: "same_view v w \<Longrightarrow> same_bytes (vw_structs v) (vw_structs w)"
  and same_view_strings: "same_view v w \<Longrightarrow> same_bytes (vw_strings v) (vw_strings w)"
  by (simp_all add: same_view_def)

lemmas same_reads =
  same_view_structs [THEN same_be32] same_view_structs [THEN same_skip_token]
  same_view_structs [THEN same_read_string] same_view_structs [THEN same_bytes_size]
  same_view_strings [THEN same_read_string]

lemma same_walk_children: "same_view v w \<Longrightarrow> walk_children f v off depth s = walk_children f w off depth s"
proof (induction f w off depth s rule: walk_children.induct)
  case (1 f w off depth s)
  note eqs = same_reads [OF 1(5)]
  show ?case
    by (subst (1 2) walk_children.simps)
       (use 1 in \<open>simp add: eqs Let_def split: prod.split\<close>)
qed

lemma same_for_each_child: "same_view v w \<Longrightarrow> for_each_child f v node s = for_each_child f w node s"
  by (simp add: for_each_child_def same_reads [of v w] same_walk_children [of v w])

lemma same_walk_props: "same_view v w \<Longrightarrow> rel_option same_bytes (walk_props v off name) (walk_props w off name)"
proof (induction w off name rule: walk_props.induct)
  case (1 w off name)
  note eqs = same_reads [OF 1(3)]
  show ?case
    by (subst (1 2) walk_props.simps)
       (use 1 in \<open>simp add: eqs Let_def same_subspan [OF same_view_structs]\<close>)
qed

lemma same_find_prop: "same_view v w \<Longrightarrow> rel_option same_bytes (find_prop v node name) (find_prop w node name)"
  by (simp add: find_prop_def same_reads [of v w] same_walk_props)

lemma same_prop_u32: "rel_option same_bytes p q \<Longrightarrow> prop_u32 p i = prop_u32 q i"
  by (cases p; cases q) (auto simp: prop_u32_def same_be32)

lemma same_prop_u64: "rel_option same_bytes p q \<Longrightarrow> prop_u64 p i = prop_u64 q i"
  by (cases p; cases q) (auto simp: prop_u64_def same_be64)

lemma same_make_view:
  assumes "same_bytes a b" shows "same_view (make_view a) (make_view b)"
  using same_bytes_size [OF assms]
  by (auto simp: make_view_def same_be32 [OF assms] same_view_def Let_def intro!: same_subspan [OF assms])

lemma same_structs_child: "same_view v w \<Longrightarrow> find_child v node name = find_child w node name"
  by (simp add: find_child_def same_for_each_child [of v w])

lemma same_structs_count: "same_view v w \<Longrightarrow> count_children v node name = count_children w node name"
  by (simp add: count_children_def same_for_each_child [of v w])

lemma same_option_none: "rel_option same_bytes p q \<Longrightarrow> (p = None) = (q = None)"
  by (cases p; cases q) auto

lemma same_option_size:
  "rel_option same_bytes p q \<Longrightarrow> (case p of None \<Rightarrow> z | Some b \<Rightarrow> g (by_size b)) = (case q of None \<Rightarrow> z | Some b \<Rightarrow> g (by_size b))"
  by (cases p; cases q) (auto simp: same_bytes_size)

section \<open>Properties\<close>

text \<open>
  C39. The parser reads nothing outside its blob. Whatever the header, the block offsets,
  the property lengths and the names of a blob say, well formed or hostile, what
  \<open>parse_guest\<close> makes of it is a function of the bytes of the window alone: the memory
  before and after it does not matter, and neither does where it lies.
\<close>

theorem fdt_reads_inside:
  assumes "by_size a = by_size b" and "\<And>i. i < by_size b \<Longrightarrow> byte_at a i = byte_at b i"
  shows "parse_guest a = parse_guest b"
proof -
  have ab: "same_bytes a b"
    using assms by (simp add: same_bytes_def)
  let ?v = "make_view a" and ?w = "make_view b"
  have vw: "same_view ?v ?w" and ok: "vw_ok ?v = vw_ok ?w"
    using same_make_view [OF ab] by (simp_all add: same_view_def)
  note eqs = same_structs_child [OF vw] same_structs_count [OF vw] ok
    same_option_none [OF same_find_prop [OF vw]] same_prop_u32 [OF same_find_prop [OF vw]]
    same_prop_u64 [OF same_find_prop [OF vw]]
  have reg: "(case find_prop ?v n s of None \<Rightarrow> z | Some b \<Rightarrow> if by_size b < 16 then z else y)
           = (case find_prop ?w n s of None \<Rightarrow> z | Some b \<Rightarrow> if by_size b < 16 then z else y)" for n s and z y :: GuestInfo
    by (rule same_option_size [OF same_find_prop [OF vw]])
  have aff: "(case find_prop ?v n s of None \<Rightarrow> False | Some a \<Rightarrow> by_size a = k \<and> q)
           = (case find_prop ?w n s of None \<Rightarrow> False | Some a \<Rightarrow> by_size a = k \<and> q)" for n s k q
    by (rule same_option_size [OF same_find_prop [OF vw]])
  show ?thesis
    by (simp only: parse_guest_def Let_def eqs reg aff)
qed

text \<open>A blob of one 64 MiB memory node and one CPU.\<close>

definition sample_blob :: "u8 list" where
  "sample_blob =
    [208, 13, 254, 237, 0, 0, 0, 144, 0, 0, 0, 40, 0, 0, 0, 140, 0, 0, 0, 0, 0, 0, 0, 17, 0, 0, 0, 16, 0, 0, 0, 0,
     0, 0, 0, 4, 0, 0, 0, 100, 0, 0, 0, 1, 0, 0, 0, 0, 0, 0, 0, 1, 109, 101, 109, 111, 114, 121, 64, 53, 48, 48,
     48, 48, 48, 48, 48, 0, 0, 0, 0, 3, 0, 0, 0, 16, 0, 0, 0, 0, 0, 0, 0, 0, 80, 0, 0, 0, 0, 0, 0, 0, 4, 0, 0, 0,
     0, 0, 0, 2, 0, 0, 0, 1, 99, 112, 117, 115, 0, 0, 0, 0, 0, 0, 0, 1, 99, 112, 117, 64, 48, 0, 0, 0, 0, 0, 0, 2,
     0, 0, 0, 2, 0, 0, 0, 2, 0, 0, 0, 9, 114, 101, 103, 0]"

text \<open>The bytes of a list at an offset, and a filler around them.\<close>

definition blob_at :: "nat \<Rightarrow> u8 \<Rightarrow> Bytes" where
  "blob_at off filler = \<lparr>by_mem = (\<lambda>i. if off \<le> i \<and> i < off + 144 then sample_blob ! (i - off) else filler),
     by_off = off, by_size = 144\<rparr>"

text \<open>Witness of C0: the sample between zeros and between ones parses to the same, valid guest.\<close>

theorem fdt_reads_inside_witness:
  "parse_guest (blob_at 64 0xFF) = parse_guest (blob_at 0 0) \<and> gi_ok (parse_guest (blob_at 0 0))
   \<and> gi_mem_base (parse_guest (blob_at 0 0)) = 0x50000000"
proof -
  have "parse_guest (blob_at 64 0xFF) = parse_guest (blob_at 0 0)"
    by (rule fdt_reads_inside) (simp_all add: blob_at_def byte_at_def)
  moreover have "gi_ok (parse_guest (blob_at 0 0)) \<and> gi_mem_base (parse_guest (blob_at 0 0)) = 0x50000000"
    by code_simp
  ultimately show ?thesis
    by simp
qed

end
