(* ===== verification/NovaTrace.thy ===== *)
theory NovaTrace
  imports NovaPrelude
begin

text \<open>
  \<open>src/nova/trace.hpp\<close>: the per-CPU overwriting event rings. First the writer as the
  code runs it, on the bytes of memory; then the writers of all rings and one reader with
  their accesses apart. Addresses and sizes are naturals: the sums the code forms stay
  inside the region, whose size bounds them. The event codes are parameters.
\<close>

section \<open>Memory\<close>

text \<open>A little-endian store and load of \<open>n\<close> bytes.\<close>

definition store_le :: "nat \<Rightarrow> nat \<Rightarrow> nat \<Rightarrow> (nat \<Rightarrow> u8) \<Rightarrow> (nat \<Rightarrow> u8)" where
  "store_le n a v m = (\<lambda>x. if a \<le> x \<and> x < a + n then of_nat (v div 256 ^ (x - a)) else m x)"

definition load_le :: "nat \<Rightarrow> nat \<Rightarrow> (nat \<Rightarrow> u8) \<Rightarrow> nat" where
  "load_le n a m = (\<Sum>k < n. unat (m (a + k)) * 256 ^ k)"

lemma load_frame: "(\<And>k. k < n \<Longrightarrow> m (a + k) = m' (a + k)) \<Longrightarrow> load_le n a m = load_le n a m'"
  by (simp add: load_le_def)

lemma load_store: "load_le n a (store_le n a v m) = v mod 256 ^ n"
proof -
  have "(\<Sum>k < n. unat (of_nat (v div 256 ^ k) :: u8) * 256 ^ k) = v mod 256 ^ n"
  proof (induction n)
    case (Suc n)
    have "(v div 256 ^ n) mod 256 * 256 ^ n + v mod 256 ^ n = v mod (256 ^ n * 256)"
      by (simp add: mod_mult2_eq)
    then show ?case
      using Suc by (simp add: unat_of_nat take_bit_nat_def ac_simps)
  qed simp
  then show ?thesis
    by (simp add: load_le_def store_le_def)
qed

lemma store_le_other:
  assumes "\<And>d. d < n \<Longrightarrow> x \<noteq> a + d"
  shows "store_le n a v m x = m x"
proof -
  have "\<not> (a \<le> x \<and> x < a + n)"
  proof
    assume "a \<le> x \<and> x < a + n"
    then have "x = a + (x - a)" "x - a < n" by linarith+
    then show False using assms [of "x - a"] by simp
  qed
  then show ?thesis by (auto simp: store_le_def)
qed

section \<open>The layout\<close>

definition NOVA_TRACE_MAGIC :: u64 where "NOVA_TRACE_MAGIC = 0x004543415254564E"
definition NOVA_TRACE_VERSION :: u32 where "NOVA_TRACE_VERSION = 2"
definition NOVA_TRACE_HEADER_SIZE :: nat where "NOVA_TRACE_HEADER_SIZE = 64"
definition NOVA_TRACE_HEAD_OFF :: nat where "NOVA_TRACE_HEAD_OFF = 0"
definition NOVA_TRACE_RECORDS_OFF :: nat where "NOVA_TRACE_RECORDS_OFF = 64"
definition NOVA_TRACE_REC_SIZE :: nat where "NOVA_TRACE_REC_SIZE = 32"
definition NOVA_TRACE_MAX_RINGS :: nat where "NOVA_TRACE_MAX_RINGS = 4"

lemmas trace_layout = NOVA_TRACE_HEADER_SIZE_def NOVA_TRACE_HEAD_OFF_def NOVA_TRACE_RECORDS_OFF_def
  NOVA_TRACE_REC_SIZE_def NOVA_TRACE_MAX_RINGS_def

record TraceRec =
  tr_ts :: u64
  tr_type :: u16
  tr_cpu :: u8
  tr_flags :: u8
  tr_a :: u32
  tr_b :: u64
  tr_c :: u64

text \<open>\<open>Ring\<close>: the addresses of the head and the records, and the mask; no head, not placed.\<close>

record TraceRing =
  rn_head :: "nat option"
  rn_records :: nat
  rn_mask :: u64

definition unplaced :: TraceRing where
  "unplaced = \<lparr>rn_head = None, rn_records = 0, rn_mask = 0\<rparr>"

definition ring_stride :: "nat \<Rightarrow> nat" where
  "ring_stride capacity = NOVA_TRACE_RECORDS_OFF + capacity * NOVA_TRACE_REC_SIZE"

definition trace_region_size :: "nat \<Rightarrow> nat \<Rightarrow> nat" where
  "trace_region_size rings capacity = NOVA_TRACE_HEADER_SIZE + rings * ring_stride capacity"

text \<open>\<open>std::bit_floor\<close>: the largest power of two not above \<open>n\<close>, and 0 of 0.\<close>

fun bit_floor :: "nat \<Rightarrow> nat" where
  "bit_floor n = (if n < 2 then n else 2 * bit_floor (n div 2))"

declare bit_floor.simps [simp del]

definition records_per_ring :: "nat \<Rightarrow> nat \<Rightarrow> nat" where
  "records_per_ring room rings =
     (if rings = 0 \<or> room < NOVA_TRACE_HEADER_SIZE then 0
      else let per_ring = (room - NOVA_TRACE_HEADER_SIZE) div rings in
        if per_ring \<le> NOVA_TRACE_RECORDS_OFF then 0
        else bit_floor ((per_ring - NOVA_TRACE_RECORDS_OFF) div NOVA_TRACE_REC_SIZE))"

definition make_ring :: "nat \<Rightarrow> nat \<Rightarrow> TraceRing" where
  "make_ring base capacity = \<lparr>rn_head = Some (base + NOVA_TRACE_HEAD_OFF), rn_records = base + NOVA_TRACE_RECORDS_OFF,
     rn_mask = of_nat capacity - 1\<rparr>"

definition ring_at :: "nat \<Rightarrow> nat \<Rightarrow> nat \<Rightarrow> nat" where
  "ring_at base index capacity = base + NOVA_TRACE_HEADER_SIZE + index * ring_stride capacity"

section \<open>Operations\<close>

definition ring_head :: "(nat \<Rightarrow> u8) \<Rightarrow> TraceRing \<Rightarrow> u64" where
  "ring_head m r = (case rn_head r of None \<Rightarrow> 0 | Some h \<Rightarrow> of_nat (load_le 8 h m))"

definition store_record :: "nat \<Rightarrow> TraceRec \<Rightarrow> (nat \<Rightarrow> u8) \<Rightarrow> (nat \<Rightarrow> u8)" where
  "store_record slot e m =
     (let m = store_le 8 slot (unat (tr_ts e)) m;
          m = store_le 2 (slot + 8) (unat (tr_type e)) m;
          m = store_le 1 (slot + 10) (unat (tr_cpu e)) m;
          m = store_le 1 (slot + 11) (unat (tr_flags e)) m;
          m = store_le 4 (slot + 12) (unat (tr_a e)) m;
          m = store_le 8 (slot + 16) (unat (tr_b e)) m in
      store_le 8 (slot + 24) (unat (tr_c e)) m)"

text \<open>\<open>emit\<close> of a placed ring, and the count of an unplaced one (\<open>g_early\<close>).\<close>

definition emit :: "TraceRing \<Rightarrow> u64 \<Rightarrow> u16 \<Rightarrow> u8 \<Rightarrow> u32 \<Rightarrow> u64 \<Rightarrow> u64 \<Rightarrow> (nat \<Rightarrow> u8) \<times> u32 \<Rightarrow> (nat \<Rightarrow> u8) \<times> u32" where
  "emit r ts typ cpu a b c = (\<lambda>(m, early).
     case rn_head r of
       None \<Rightarrow> (m, early + 1)
     | Some h \<Rightarrow>
         (let index = ring_head m r; slot = rn_records r + NOVA_TRACE_REC_SIZE * unat (index AND rn_mask r);
              e = \<lparr>tr_ts = ts, tr_type = typ, tr_cpu = cpu, tr_flags = 0, tr_a = a, tr_b = b, tr_c = c\<rparr> in
          (store_le 8 h (unat (index + 1)) (store_record slot e m), early)))"

text \<open>The header fields but the magic, and the heads.\<close>

definition trace_format :: "nat \<Rightarrow> u32 \<Rightarrow> u32 \<Rightarrow> u32 \<Rightarrow> (nat \<Rightarrow> u8) \<Rightarrow> (nat \<Rightarrow> u8)" where
  "trace_format base rings capacity freq m =
     (let m = store_le 4 (base + 8) (unat NOVA_TRACE_VERSION) m;
          m = store_le 4 (base + 12) NOVA_TRACE_REC_SIZE m;
          m = store_le 4 (base + 16) (unat (of_nat (ring_stride (unat capacity)) :: u32)) m;
          m = store_le 4 (base + 20) (unat rings) m;
          m = store_le 4 (base + 24) (unat capacity) m;
          m = store_le 4 (base + 28) (unat freq) m;
          m = store_le 4 (base + 32) 0 m in
      fold (\<lambda>i. store_le 8 (ring_at base i (unat capacity) + NOVA_TRACE_HEAD_OFF) 0) [0 ..< unat rings] m)"

definition trace_publish :: "nat \<Rightarrow> u32 \<Rightarrow> (nat \<Rightarrow> u8) \<Rightarrow> (nat \<Rightarrow> u8)" where
  "trace_publish base early m = store_le 8 base (unat NOVA_TRACE_MAGIC) (store_le 4 (base + 32) (unat early) m)"

definition trace_place :: "nat \<Rightarrow> nat \<Rightarrow> nat \<Rightarrow> u32 \<Rightarrow> (nat \<Rightarrow> TraceRing) \<Rightarrow> (nat \<Rightarrow> u8) \<times> u32 \<Rightarrow> (nat \<Rightarrow> TraceRing) \<times> (nat \<Rightarrow> u8)" where
  "trace_place base room rings freq g_ring = (\<lambda>(m, early).
     (let count = min rings NOVA_TRACE_MAX_RINGS; capacity = records_per_ring room count in
      if capacity = 0 then (g_ring, m)
      else let m = trace_format base (of_nat count) (of_nat capacity) freq m;
               g_ring = (\<lambda>i. if i < count then make_ring (ring_at base i capacity) capacity else g_ring i) in
        (g_ring, trace_publish base early m)))"

text \<open>The bytes of a record, in the order of its fields.\<close>

definition le_bytes :: "nat \<Rightarrow> nat \<Rightarrow> u8 list" where
  "le_bytes n v = map (\<lambda>k. of_nat (v div 256 ^ k)) [0 ..< n]"

definition rec_bytes :: "TraceRec \<Rightarrow> u8 list" where
  "rec_bytes e = le_bytes 8 (unat (tr_ts e)) @ le_bytes 2 (unat (tr_type e)) @ le_bytes 1 (unat (tr_cpu e)) @
     le_bytes 1 (unat (tr_flags e)) @ le_bytes 4 (unat (tr_a e)) @ le_bytes 8 (unat (tr_b e)) @ le_bytes 8 (unat (tr_c e))"

lemma length_le_bytes [simp]: "length (le_bytes n v) = n"
  by (simp add: le_bytes_def)

lemma length_rec_bytes [simp]: "length (rec_bytes e) = 32"
  by (simp add: rec_bytes_def)

definition put_bytes :: "nat \<Rightarrow> u8 list \<Rightarrow> (nat \<Rightarrow> u8) \<Rightarrow> (nat \<Rightarrow> u8)" where
  "put_bytes a bs m = (\<lambda>x. if a \<le> x \<and> x < a + length bs then bs ! (x - a) else m x)"

lemma put_bytes_nil [simp]: "put_bytes a [] m = m"
  by (auto simp: put_bytes_def fun_eq_iff)

lemma put_bytes_append: "b = a + length bs \<Longrightarrow> put_bytes b cs (put_bytes a bs m) = put_bytes a (bs @ cs) m"
proof
  fix x assume b: "b = a + length bs"
  consider "x < a" | "a \<le> x" "x < b" | "b \<le> x" by linarith
  then show "put_bytes b cs (put_bytes a bs m) x = put_bytes a (bs @ cs) m x"
    by cases (use b in \<open>auto simp: put_bytes_def nth_append\<close>)
qed

lemma store_le_bytes: "store_le n a v m = put_bytes a (le_bytes n v) m"
  by (auto simp: store_le_def le_bytes_def put_bytes_def fun_eq_iff)

lemma store_record_bytes: "store_record slot e m = put_bytes slot (rec_bytes e) m"
  by (simp add: store_record_def Let_def store_le_bytes rec_bytes_def put_bytes_append)

section \<open>Capacity\<close>

lemma bit_floor_power: "0 < n \<Longrightarrow> \<exists>p. bit_floor n = 2 ^ p \<and> 2 ^ p \<le> n"
proof (induction n rule: bit_floor.induct)
  case (1 n)
  show ?case
  proof (cases "n < 2")
    case True
    then show ?thesis using 1(2) by (intro exI [of _ 0]) (simp add: bit_floor.simps)
  next
    case False
    then obtain p where "bit_floor (n div 2) = 2 ^ p" "2 ^ p \<le> n div 2" using 1 by auto
    then show ?thesis using False bit_floor.simps [of n] by (intro exI [of _ "Suc p"]) simp
  qed
qed

lemma capacity_fits:
  assumes "records_per_ring room rings \<noteq> 0"
  shows "\<exists>p. records_per_ring room rings = 2 ^ p" and "trace_region_size rings (records_per_ring room rings) \<le> room"
proof -
  let ?per = "(room - 64) div rings" and ?c = "records_per_ring room rings"
  have c: "rings \<noteq> 0" "64 \<le> room" "64 < ?per" "?c = bit_floor ((?per - 64) div 32)"
    using assms by (auto simp: records_per_ring_def trace_layout Let_def split: if_splits)
  have "0 < (?per - 64) div 32"
    using assms c by (cases "(?per - 64) div 32 = 0") (auto simp: bit_floor.simps)
  then obtain p where p: "?c = 2 ^ p" "2 ^ p \<le> (?per - 64) div 32"
    using bit_floor_power c(4) by metis
  then show "\<exists>p. ?c = 2 ^ p" by blast
  have "ring_stride ?c \<le> ?per"
    using p c(3) by (simp add: ring_stride_def trace_layout)
  then have "rings * ring_stride ?c \<le> rings * ?per" by simp
  also have "\<dots> \<le> room - 64" by simp
  finally show "trace_region_size rings ?c \<le> room"
    using c(2) by (simp add: trace_region_size_def trace_layout)
qed

section \<open>Writers and a reader interleaved\<close>

text \<open>
  \<open>emit\<close> with its accesses apart, on every core at once: the load of the head, the record
  a byte at a time (which allows every interleaving of its field stores), the store of
  the head. The reader is the host's: the head, the window, the head again, and what has
  fallen out of the window meanwhile is dropped.
\<close>

datatype TracePc = TwIdle | TwBody u64 TraceRec nat
datatype TraceRd = TrIdle | TrCopy nat nat nat "u8 list" "(nat \<times> u8 list) list"

record TraceSys =
  tw_mem :: "nat \<Rightarrow> u8"
  tw_pc :: "nat \<Rightarrow> TracePc"
  tw_rd :: TraceRd
  tw_emitted :: "nat \<Rightarrow> TraceRec list"
  tw_read :: "(nat \<times> nat \<times> u8 list) list"

text \<open>
  \<open>tw_emitted\<close> and \<open>tw_read\<close> are history: the records published on each ring, and the
  readings (ring, index, bytes) a drain has kept.
\<close>

definition oldest_intact :: "nat \<Rightarrow> nat \<Rightarrow> nat" where
  "oldest_intact capacity head = (if head \<ge> capacity then head - capacity + 1 else 0)"

definition slot_at :: "nat \<Rightarrow> nat \<Rightarrow> nat \<Rightarrow> nat \<Rightarrow> nat" where
  "slot_at base capacity i k = ring_at base i capacity + NOVA_TRACE_RECORDS_OFF + (k mod capacity) * NOVA_TRACE_REC_SIZE"

definition head_at :: "nat \<Rightarrow> nat \<Rightarrow> nat \<Rightarrow> (nat \<Rightarrow> u8) \<Rightarrow> nat" where
  "head_at base capacity i m = load_le 8 (ring_at base i capacity + NOVA_TRACE_HEAD_OFF) m"

inductive emit_step :: "(nat \<Rightarrow> TraceRing) \<Rightarrow> nat \<Rightarrow> TraceSys \<Rightarrow> TraceSys \<Rightarrow> bool" for g_ring count where
  load: "i < count \<Longrightarrow> tw_pc s i = TwIdle \<Longrightarrow> tr_flags e = 0 \<Longrightarrow>
    emit_step g_ring count s (s\<lparr>tw_pc := (tw_pc s)(i := TwBody (ring_head (tw_mem s) (g_ring i)) e 0)\<rparr>)"
| body: "i < count \<Longrightarrow> tw_pc s i = TwBody index e j \<Longrightarrow> j < 32 \<Longrightarrow>
    emit_step g_ring count s (s\<lparr>
      tw_mem := (tw_mem s)(rn_records (g_ring i) + NOVA_TRACE_REC_SIZE * unat (index AND rn_mask (g_ring i)) + j := rec_bytes e ! j),
      tw_pc := (tw_pc s)(i := TwBody index e (Suc j))\<rparr>)"
| publish: "i < count \<Longrightarrow> tw_pc s i = TwBody index e 32 \<Longrightarrow> rn_head (g_ring i) = Some h \<Longrightarrow>
    emit_step g_ring count s (s\<lparr>tw_mem := store_le 8 h (unat (index + 1)) (tw_mem s),
      tw_pc := (tw_pc s)(i := TwIdle), tw_emitted := (tw_emitted s)(i := tw_emitted s i @ [e])\<rparr>)"

inductive drain_step :: "nat \<Rightarrow> nat \<Rightarrow> nat \<Rightarrow> TraceSys \<Rightarrow> TraceSys \<Rightarrow> bool" for base capacity count where
  start: "i < count \<Longrightarrow> tw_rd s = TrIdle \<Longrightarrow> before = head_at base capacity i (tw_mem s) \<Longrightarrow>
    drain_step base capacity count s (s\<lparr>tw_rd := TrCopy i before (max cursor (oldest_intact capacity before)) [] []\<rparr>)"
| byte: "tw_rd s = TrCopy i before k bs got \<Longrightarrow> k < before \<Longrightarrow> length bs < 32 \<Longrightarrow>
    drain_step base capacity count s (s\<lparr>tw_rd := TrCopy i before k (bs @ [tw_mem s (slot_at base capacity i k + length bs)]) got\<rparr>)"
| taken: "tw_rd s = TrCopy i before k bs got \<Longrightarrow> k < before \<Longrightarrow> length bs = 32 \<Longrightarrow>
    drain_step base capacity count s (s\<lparr>tw_rd := TrCopy i before (Suc k) [] (got @ [(k, bs)])\<rparr>)"
| check: "tw_rd s = TrCopy i before k [] got \<Longrightarrow> before \<le> k \<Longrightarrow>
    drain_step base capacity count s (s\<lparr>tw_rd := TrIdle, tw_read := tw_read s @
      map (Pair i) (filter (\<lambda>(k, bs). oldest_intact capacity (head_at base capacity i (tw_mem s)) \<le> k) got)\<rparr>)"

definition trace_step :: "(nat \<Rightarrow> TraceRing) \<Rightarrow> nat \<Rightarrow> nat \<Rightarrow> nat \<Rightarrow> TraceSys \<Rightarrow> TraceSys \<Rightarrow> bool" where
  "trace_step g_ring base capacity count s s' \<longleftrightarrow> emit_step g_ring count s s' \<or> drain_step base capacity count s s'"

definition trace_start :: "(nat \<Rightarrow> u8) \<Rightarrow> TraceSys" where
  "trace_start m = \<lparr>tw_mem = m, tw_pc = (\<lambda>_. TwIdle), tw_rd = TrIdle, tw_emitted = (\<lambda>_. []), tw_read = []\<rparr>"

section \<open>Addresses\<close>

lemma intact_iff: "oldest_intact capacity n \<le> k \<longleftrightarrow> n < k + capacity \<or> (n < capacity)"
  by (auto simp: oldest_intact_def)

lemma ring_offset_eq:
  assumes "o1 < ring_stride capacity" "o2 < ring_stride capacity"
  shows "ring_at base i capacity + o1 = ring_at base j capacity + o2 \<longleftrightarrow> i = j \<and> o1 = o2"
proof
  assume e: "ring_at base i capacity + o1 = ring_at base j capacity + o2"
  then have "i * ring_stride capacity + o1 = j * ring_stride capacity + o2" by (simp add: ring_at_def)
  then have "(i * ring_stride capacity + o1) div ring_stride capacity = (j * ring_stride capacity + o2) div ring_stride capacity"
    by simp
  then have "i = j" using assms by simp
  then show "i = j \<and> o1 = o2" using e by simp
qed simp

lemma rec_offset:
  assumes "0 < capacity" "j < 32"
  shows "64 + (k mod capacity) * 32 + j < ring_stride capacity"
proof -
  have "k mod capacity + 1 \<le> capacity" using assms(1) by (simp add: Suc_leI)
  then have "(k mod capacity + 1) * 32 \<le> capacity * 32" by (rule mult_le_mono1)
  then show ?thesis using assms(2) by (simp add: ring_stride_def trace_layout)
qed

lemma slot_split: "slot_at base capacity i k + j = ring_at base i capacity + (64 + (k mod capacity) * 32 + j)"
  by (simp add: slot_at_def trace_layout)

lemma slot_eq:
  assumes "0 < capacity" "j < 32" "j' < 32"
  shows "slot_at base capacity i k + j = slot_at base capacity i' k' + j' \<longleftrightarrow> i = i' \<and> k mod capacity = k' mod capacity \<and> j = j'"
proof -
  have d: "(a * 32 + x) div 32 = a" if "x < 32" for a x :: nat using that by simp
  have e: "a * 32 + j = b * 32 + j' \<longleftrightarrow> a = b \<and> j = j'" for a b :: nat
  proof
    assume h: "a * 32 + j = b * 32 + j'"
    then have "a = b" using d [OF assms(2), of a] d [OF assms(3), of b] by simp
    then show "a = b \<and> j = j'" using h by simp
  qed simp
  have "slot_at base capacity i k + j = slot_at base capacity i' k' + j'
      \<longleftrightarrow> i = i' \<and> 64 + (k mod capacity) * 32 + j = 64 + (k' mod capacity) * 32 + j'"
    unfolding slot_split by (rule ring_offset_eq) (rule rec_offset [OF assms(1)], fact)+
  also have "\<dots> \<longleftrightarrow> i = i' \<and> (k mod capacity) * 32 + j = (k' mod capacity) * 32 + j'"
    by (simp only: add.assoc add_left_cancel)
  finally show ?thesis
    by (simp only: e)
qed

text \<open>A head is no byte of a record.\<close>

lemma head_slot_apart:
  assumes "0 < capacity" "j < 32" "d < 8"
  shows "ring_at base i capacity + d \<noteq> slot_at base capacity i' k + j"
proof -
  have "d < ring_stride capacity" using assms(3) by (simp add: ring_stride_def trace_layout)
  then show ?thesis
    using ring_offset_eq [OF _ rec_offset [OF assms(1,2)], of d base i i' k] assms(3) by (simp add: slot_split)
qed

lemma heads_apart:
  assumes "d < 8" "d' < 8" "ring_at base i capacity + d = ring_at base i' capacity + d'"
  shows "i = i'"
  using assms ring_offset_eq [of d capacity d' base i i'] by (simp add: ring_stride_def trace_layout)

lemma mask_index:
  assumes "capacity = 2 ^ p" "p < 64"
  shows "unat ((of_nat n :: u64) AND rn_mask (make_ring base capacity)) = n mod capacity"
proof -
  have "rn_mask (make_ring base capacity) = mask p"
    by (simp add: make_ring_def assms(1) mask_eq_exp_minus_1)
  then have "unat ((of_nat n :: u64) AND rn_mask (make_ring base capacity)) = (n mod 2 ^ 64) mod 2 ^ p"
    using assms(2) by (simp add: unsigned_take_bit_eq unat_of_nat flip: take_bit_eq_mask) (simp add: take_bit_eq_mod)
  also have "\<dots> = n mod 2 ^ p"
    using mod_mod_cancel [OF le_imp_power_dvd [of p 64 "2 :: nat"], of n] assms(2) by simp
  finally show ?thesis by (simp add: assms(1))
qed

text \<open>Two indices of a window share a slot only if they are the same.\<close>

lemma window_mod:
  assumes "k < n" "n < k + (capacity :: nat)"
  shows "k mod capacity \<noteq> n mod capacity"
proof
  assume "k mod capacity = n mod capacity"
  then have "capacity dvd n - k" using assms(1) by (metis mod_eq_dvd_iff_nat less_imp_le)
  then show False using assms by (auto dest: dvd_imp_le)
qed

section \<open>The invariant of the rings\<close>

definition placed_rings :: "(nat \<Rightarrow> TraceRing) \<Rightarrow> nat \<Rightarrow> nat \<Rightarrow> nat \<Rightarrow> bool" where
  "placed_rings g_ring base capacity count \<longleftrightarrow> (\<exists>p < 64. capacity = 2 ^ p)
     \<and> (\<forall>i < count. g_ring i = make_ring (ring_at base i capacity) capacity)"

text \<open>
  The head counts the records, the window holds them, and the record being written is in
  the slot past the window.
\<close>

definition window_ok :: "nat \<Rightarrow> nat \<Rightarrow> nat \<Rightarrow> TraceSys \<Rightarrow> bool" where
  "window_ok base capacity i s \<longleftrightarrow> (\<forall>k < length (tw_emitted s i). length (tw_emitted s i) < k + capacity \<longrightarrow>
     (\<forall>j < 32. tw_mem s (slot_at base capacity i k + j) = rec_bytes (tw_emitted s i ! k) ! j))"

definition body_ok :: "nat \<Rightarrow> nat \<Rightarrow> nat \<Rightarrow> TraceSys \<Rightarrow> bool" where
  "body_ok base capacity i s \<longleftrightarrow> (\<forall>index e j. tw_pc s i = TwBody index e j \<longrightarrow>
     index = of_nat (length (tw_emitted s i)) \<and> j \<le> 32
     \<and> (\<forall>j' < j. tw_mem s (slot_at base capacity i (length (tw_emitted s i)) + j') = rec_bytes e ! j'))"

definition ring_inv :: "nat \<Rightarrow> nat \<Rightarrow> TraceSys \<Rightarrow> nat \<Rightarrow> bool" where
  "ring_inv base capacity s i \<longleftrightarrow> head_at base capacity i (tw_mem s) = length (tw_emitted s i) mod 2 ^ 64
     \<and> window_ok base capacity i s \<and> body_ok base capacity i s"

lemma placed_positive: "placed_rings g_ring base capacity count \<Longrightarrow> 0 < capacity"
  by (auto simp: placed_rings_def)

lemma placed_head:
  assumes "placed_rings g_ring base capacity count" "i < count" "ring_inv base capacity s i"
  shows "ring_head (tw_mem s) (g_ring i) = of_nat (length (tw_emitted s i))"
proof -
  have "load_le 8 (ring_at base i capacity) (tw_mem s) = length (tw_emitted s i) mod 2 ^ 64"
    using assms(3) by (simp add: ring_inv_def head_at_def trace_layout)
  moreover have "(of_nat (m mod 2 ^ 64) :: u64) = of_nat m" for m
    by (rule word_unat_eq_iff [THEN iffD2]) (simp add: unat_of_nat take_bit_eq_mod)
  ultimately show ?thesis
    using assms(1,2) by (simp add: placed_rings_def ring_head_def make_ring_def trace_layout del: of_nat_mod)
qed

lemma placed_slot:
  assumes "placed_rings g_ring base capacity count" "i < count"
  shows "rn_records (g_ring i) + NOVA_TRACE_REC_SIZE * unat ((of_nat n :: u64) AND rn_mask (g_ring i)) = slot_at base capacity i n"
proof -
  obtain p where p: "p < 64" "capacity = 2 ^ p" "g_ring i = make_ring (ring_at base i capacity) capacity"
    using assms by (auto simp: placed_rings_def)
  show ?thesis
    unfolding p(3) mask_index [OF p(2,1)] by (simp add: make_ring_def slot_at_def ac_simps)
qed

lemma head_at_store_slot:
  assumes "0 < capacity" "j < 32"
  shows "head_at base capacity i (m(slot_at base capacity i' k + j := v)) = head_at base capacity i m"
  unfolding head_at_def by (rule load_frame) (use head_slot_apart [OF assms] in \<open>auto simp: trace_layout\<close>)

lemma body_writes_window:
  assumes "0 < capacity" "j < 32" "ring_inv base capacity s i" "tw_pc s i' = TwBody (of_nat n) e j" "n = length (tw_emitted s i')"
  shows "ring_inv base capacity (s\<lparr>tw_mem := (tw_mem s)(slot_at base capacity i' n + j := rec_bytes e ! j),
    tw_pc := (tw_pc s)(i' := TwBody (of_nat n) e (Suc j))\<rparr>) i" (is "ring_inv base capacity ?s i")
proof -
  have "window_ok base capacity i ?s"
    unfolding window_ok_def
  proof (intro allI impI)
    fix k j' :: nat assume k: "k < length (tw_emitted ?s i)" "length (tw_emitted ?s i) < k + capacity" "j' < 32"
    have "i = i' \<Longrightarrow> k mod capacity \<noteq> n mod capacity" using k window_mod [of k n] assms(5) by simp
    then have "slot_at base capacity i k + j' \<noteq> slot_at base capacity i' n + j"
      by (auto simp: slot_eq [OF assms(1) k(3) assms(2)])
    then show "tw_mem ?s (slot_at base capacity i k + j') = rec_bytes (tw_emitted ?s i ! k) ! j'"
      using assms(3) k by (simp add: ring_inv_def window_ok_def)
  qed
  moreover have "body_ok base capacity i ?s"
    unfolding body_ok_def
  proof (intro allI impI)
    fix index d l assume pc: "tw_pc ?s i = TwBody index d l"
    show "index = of_nat (length (tw_emitted ?s i)) \<and> l \<le> 32
       \<and> (\<forall>j' < l. tw_mem ?s (slot_at base capacity i (length (tw_emitted ?s i)) + j') = rec_bytes d ! j')"
    proof (cases "i = i'")
      case True
      have old: "\<forall>j' < j. tw_mem s (slot_at base capacity i' n + j') = rec_bytes e ! j'"
        using assms(3-5) True by (simp add: ring_inv_def body_ok_def)
      show ?thesis using pc True assms(2,5) old by (auto simp: less_Suc_eq)
    next
      case False
      have a: "index = of_nat (length (tw_emitted s i)) \<and> l \<le> 32
         \<and> (\<forall>j' < l. tw_mem s (slot_at base capacity i (length (tw_emitted s i)) + j') = rec_bytes d ! j')"
        using assms(3) pc False by (simp add: ring_inv_def body_ok_def)
      have "j' < l \<Longrightarrow> slot_at base capacity i (length (tw_emitted s i)) + j' \<noteq> slot_at base capacity i' n + j" for j'
        using a False by (simp add: slot_eq [OF assms(1) _ assms(2)])
      then show ?thesis using a by simp
    qed
  qed
  ultimately show ?thesis
    using assms(3) by (simp add: ring_inv_def head_at_store_slot [OF assms(1,2)])
qed

lemma publish_ring:
  assumes "0 < capacity" "ring_inv base capacity s i" "tw_pc s i' = TwBody index e 32" "ring_inv base capacity s i'"
  shows "ring_inv base capacity (s\<lparr>tw_mem := store_le 8 (ring_at base i' capacity) (unat (index + 1)) (tw_mem s),
    tw_pc := (tw_pc s)(i' := TwIdle), tw_emitted := (tw_emitted s)(i' := tw_emitted s i' @ [e])\<rparr>) i" (is "ring_inv base capacity ?s i")
proof -
  have slot: "tw_mem ?s (slot_at base capacity a k + j) = tw_mem s (slot_at base capacity a k + j)" if "j < 32" for a k j
    using head_slot_apart [OF assms(1) that] by (simp add: store_le_other) (metis store_le_other)
  have ix: "index = of_nat (length (tw_emitted s i'))"
    "\<forall>j < 32. tw_mem s (slot_at base capacity i' (length (tw_emitted s i')) + j) = rec_bytes e ! j"
    using assms(3,4) by (auto simp: ring_inv_def body_ok_def)
  have "head_at base capacity i (tw_mem ?s) = length (tw_emitted ?s i) mod 2 ^ 64"
  proof (cases "i = i'")
    case True
    have "unat (index + 1) = unat (of_nat (Suc (length (tw_emitted s i'))) :: u64)" by (simp only: ix(1) of_nat_Suc add.commute)
    also have "\<dots> = Suc (length (tw_emitted s i')) mod 2 ^ 64" by (simp only: unat_of_nat take_bit_eq_mod) simp
    finally show ?thesis using True by (simp add: head_at_def trace_layout load_store)
  next
    case False
    then have "head_at base capacity i (tw_mem ?s) = head_at base capacity i (tw_mem s)"
      unfolding head_at_def
      by (intro load_frame) (auto simp: trace_layout intro!: store_le_other dest: heads_apart)
    then show ?thesis using assms(2) False by (simp add: ring_inv_def)
  qed
  moreover have "window_ok base capacity i ?s"
    unfolding window_ok_def
  proof (intro allI impI)
    fix k j :: nat assume k: "k < length (tw_emitted ?s i)" "length (tw_emitted ?s i) < k + capacity" "j < 32"
    have old: "k < length (tw_emitted s i) \<Longrightarrow> length (tw_emitted s i) < k + capacity
      \<Longrightarrow> tw_mem s (slot_at base capacity i k + j) = rec_bytes (tw_emitted s i ! k) ! j"
      using assms(2) k(3) by (simp add: ring_inv_def window_ok_def)
    have "i = i' \<and> k = length (tw_emitted s i') \<or> k < length (tw_emitted s i) \<and> length (tw_emitted s i) < k + capacity
        \<and> tw_emitted ?s i ! k = tw_emitted s i ! k"
      using k(1,2) by (cases "i = i'") (auto simp: nth_append)
    then show "tw_mem ?s (slot_at base capacity i k + j) = rec_bytes (tw_emitted ?s i ! k) ! j"
      using slot [OF k(3), of i k] ix(2) k(3) old by auto
  qed
  moreover have "body_ok base capacity i ?s"
    using assms(2) slot by (auto simp: ring_inv_def body_ok_def)
  ultimately show ?thesis by (simp add: ring_inv_def)
qed

section \<open>The reader's view\<close>

definition got_ok :: "nat \<Rightarrow> TraceSys \<Rightarrow> nat \<Rightarrow> nat \<Rightarrow> u8 list \<Rightarrow> bool" where
  "got_ok capacity s i k bs \<longleftrightarrow> k < length (tw_emitted s i) \<and> length bs \<le> 32
     \<and> (length (tw_emitted s i) < k + capacity \<longrightarrow> (\<forall>j < length bs. bs ! j = rec_bytes (tw_emitted s i ! k) ! j))"

definition rd_inv :: "nat \<Rightarrow> nat \<Rightarrow> TraceSys \<Rightarrow> bool" where
  "rd_inv capacity count s \<longleftrightarrow> (\<forall>i before k bs got. tw_rd s = TrCopy i before k bs got \<longrightarrow>
     i < count \<and> before \<le> length (tw_emitted s i) \<and> (k < before \<longrightarrow> got_ok capacity s i k bs)
     \<and> (\<forall>k' bs'. (k', bs') \<in> set got \<longrightarrow> length bs' = 32 \<and> got_ok capacity s i k' bs'))"

definition read_ok :: "nat \<Rightarrow> TraceSys \<Rightarrow> bool" where
  "read_ok count s \<longleftrightarrow> (\<forall>i k bs. (i, k, bs) \<in> set (tw_read s) \<longrightarrow>
     i < count \<and> k < length (tw_emitted s i) \<and> bs = rec_bytes (tw_emitted s i ! k))"

definition no_wrap :: "nat \<Rightarrow> TraceSys \<Rightarrow> bool" where
  "no_wrap count s \<longleftrightarrow> (\<forall>i < count. length (tw_emitted s i) < 2 ^ 64)"

definition trace_inv :: "nat \<Rightarrow> nat \<Rightarrow> nat \<Rightarrow> (nat \<Rightarrow> u8) \<Rightarrow> TraceSys \<Rightarrow> bool" where
  "trace_inv base capacity count m s \<longleftrightarrow> (\<forall>i < count. ring_inv base capacity s i) \<and> rd_inv capacity count s
     \<and> (no_wrap count s \<longrightarrow> read_ok count s)
     \<and> (\<forall>x. (\<forall>i < count. \<forall>d < ring_stride capacity. x \<noteq> ring_at base i capacity + d) \<longrightarrow> tw_mem s x = m x)"

lemma trace_inv_ring: "trace_inv base capacity count m s \<Longrightarrow> i < count \<Longrightarrow> ring_inv base capacity s i"
  by (simp add: trace_inv_def)

text \<open>Publishing only shrinks the window: what a reader holds of a ring stays right.\<close>

lemma got_ok_emitted:
  assumes "got_ok capacity s i k bs" "tw_emitted s' i = tw_emitted s i @ es"
  shows "got_ok capacity s' i k bs"
  using assms by (auto simp: got_ok_def nth_append)

lemma emitted_keeps_reader:
  assumes "rd_inv capacity count s" "tw_rd s' = tw_rd s" "\<And>i. \<exists>es. tw_emitted s' i = tw_emitted s i @ es"
  shows "rd_inv capacity count s'"
proof -
  have g: "got_ok capacity s' i k bs" if "got_ok capacity s i k bs" for i k bs
  proof -
    obtain es where "tw_emitted s' i = tw_emitted s i @ es" using assms(3) by blast
    then show ?thesis by (rule got_ok_emitted [OF that])
  qed
  have le: "length (tw_emitted s i) \<le> length (tw_emitted s' i)" for i
    using assms(3) [of i] by auto
  show ?thesis
    unfolding rd_inv_def
  proof (intro allI impI)
    fix i before k bs got assume "tw_rd s' = TrCopy i before k bs got"
    then have "i < count \<and> before \<le> length (tw_emitted s i) \<and> (k < before \<longrightarrow> got_ok capacity s i k bs)
       \<and> (\<forall>k' bs'. (k', bs') \<in> set got \<longrightarrow> length bs' = 32 \<and> got_ok capacity s i k' bs')"
      using assms(1,2) by (simp add: rd_inv_def)
    then show "i < count \<and> before \<le> length (tw_emitted s' i) \<and> (k < before \<longrightarrow> got_ok capacity s' i k bs)
       \<and> (\<forall>k' bs'. (k', bs') \<in> set got \<longrightarrow> length bs' = 32 \<and> got_ok capacity s' i k' bs')"
      using g le [of i] by (meson le_trans)
  qed
qed

lemma emitted_keeps_read:
  assumes "no_wrap count s \<longrightarrow> read_ok count s" "tw_read s' = tw_read s" "\<And>i. \<exists>es. tw_emitted s' i = tw_emitted s i @ es"
  shows "no_wrap count s' \<longrightarrow> read_ok count s'"
proof
  assume w: "no_wrap count s'"
  have le: "length (tw_emitted s i) \<le> length (tw_emitted s' i)"
    and nth: "k < length (tw_emitted s i) \<Longrightarrow> tw_emitted s' i ! k = tw_emitted s i ! k" for i k
    using assms(3) [of i] by (auto simp: nth_append)
  have "no_wrap count s" using w le by (auto simp: no_wrap_def dest: le_less_trans)
  then have "read_ok count s" using assms(1) by blast
  then show "read_ok count s'"
    unfolding read_ok_def assms(2) by (auto simp: nth intro: less_le_trans [OF _ le])
qed

lemma ring_inv_cong:
  assumes "tw_mem s' = tw_mem s" "tw_pc s' = tw_pc s" "tw_emitted s' = tw_emitted s"
  shows "ring_inv base capacity s' i = ring_inv base capacity s i"
  using assms by (simp add: ring_inv_def window_ok_def body_ok_def)

section \<open>The invariant holds\<close>

lemma emit_keeps:
  assumes "placed_rings g_ring base capacity count" "trace_inv base capacity count m s" "emit_step g_ring count s s'"
  shows "trace_inv base capacity count m s'"
proof -
  have cap: "0 < capacity" by (rule placed_positive [OF assms(1)])
  have grow: "\<And>i. \<exists>es. tw_emitted s' i = tw_emitted s i @ es" and rd: "tw_rd s' = tw_rd s" "tw_read s' = tw_read s"
    using assms(3) by (auto elim!: emit_step.cases)
  have "\<forall>i < count. ring_inv base capacity s' i"
    using assms(3)
  proof cases
    case (load i e)
    have "ring_inv base capacity s' i'" if "i' < count" for i'
      using trace_inv_ring [OF assms(2) that] placed_head [OF assms(1) load(2) trace_inv_ring [OF assms(2) load(2)]]
      unfolding load(1) by (simp add: ring_inv_def window_ok_def body_ok_def)
    then show ?thesis by blast
  next
    case (body i index e j)
    have ix: "index = of_nat (length (tw_emitted s i))"
      using trace_inv_ring [OF assms(2) body(2)] body(3) by (simp add: ring_inv_def body_ok_def)
    show ?thesis
      using body_writes_window [OF cap body(4) trace_inv_ring [OF assms(2)] body(3) [unfolded ix] refl]
      by (simp add: body(1) ix placed_slot [OF assms(1) body(2)])
  next
    case (publish i index e h)
    have h: "h = ring_at base i capacity"
      using assms(1) publish(2,4) by (simp add: placed_rings_def make_ring_def trace_layout)
    show ?thesis
      using publish_ring [OF cap trace_inv_ring [OF assms(2)] publish(3) trace_inv_ring [OF assms(2) publish(2)]]
      by (simp add: publish(1) h)
  qed
  moreover have "tw_mem s' x = tw_mem s x" if x: "\<forall>i < count. \<forall>d < ring_stride capacity. x \<noteq> ring_at base i capacity + d" for x
    using assms(3)
  proof cases
    case (body i index e j)
    have ix: "index = of_nat (length (tw_emitted s i))"
      using trace_inv_ring [OF assms(2) body(2)] body(3) by (simp add: ring_inv_def body_ok_def)
    have "x \<noteq> slot_at base capacity i (length (tw_emitted s i)) + j"
      using x body(2) rec_offset [OF cap body(4)] by (simp add: slot_split del: add.assoc)
    then show ?thesis by (simp add: body(1) ix placed_slot [OF assms(1) body(2)])
  next
    case (publish i index e h)
    have h: "h = ring_at base i capacity"
      using assms(1) publish(2,4) by (simp add: placed_rings_def make_ring_def trace_layout)
    have "d < ring_stride capacity" if "d < 8" for d using that by (simp add: ring_stride_def trace_layout)
    then have "store_le 8 h (unat (index + 1)) (tw_mem s) x = tw_mem s x"
      using x publish(2) by (intro store_le_other) (simp add: h)
    then show ?thesis by (simp add: publish(1))
  qed simp
  moreover have "rd_inv capacity count s" "no_wrap count s \<longrightarrow> read_ok count s"
    using assms(2) by (simp_all add: trace_inv_def)
  ultimately show ?thesis
    using emitted_keeps_reader [OF _ rd(1) grow] emitted_keeps_read [OF _ rd(2) grow] assms(2)
    by (simp add: trace_inv_def)
qed

lemma rd_inv_copy:
  "rd_inv capacity count s \<Longrightarrow> tw_rd s = TrCopy i before k bs got \<Longrightarrow>
     i < count \<and> before \<le> length (tw_emitted s i) \<and> (k < before \<longrightarrow> got_ok capacity s i k bs)
     \<and> (\<forall>k' bs'. (k', bs') \<in> set got \<longrightarrow> length bs' = 32 \<and> got_ok capacity s i k' bs')"
  by (simp add: rd_inv_def)

lemma rd_inv_intro:
  assumes "tw_rd s = TrCopy i before k bs got" "i < count" "before \<le> length (tw_emitted s i)" "k < before \<Longrightarrow> got_ok capacity s i k bs"
    "\<And>k' bs'. (k', bs') \<in> set got \<Longrightarrow> length bs' = 32 \<and> got_ok capacity s i k' bs'"
  shows "rd_inv capacity count s"
  using assms by (simp add: rd_inv_def)

lemma got_ok_frame: "tw_emitted s' = tw_emitted s \<Longrightarrow> got_ok capacity s' i k bs = got_ok capacity s i k bs"
  by (simp add: got_ok_def)

lemma got_ok_nil: "k < length (tw_emitted s i) \<Longrightarrow> got_ok capacity s i k []"
  by (simp add: got_ok_def)

lemma got_ok_byte:
  assumes "got_ok capacity s i k bs" "length bs < 32" "ring_inv base capacity s i"
  shows "got_ok capacity s i k (bs @ [tw_mem s (slot_at base capacity i k + length bs)])"
  using assms by (auto simp: got_ok_def ring_inv_def window_ok_def nth_append less_Suc_eq)

text \<open>A whole copy still inside the window is the record.\<close>

lemma got_ok_whole:
  assumes "got_ok capacity s i k bs" "length bs = 32" "length (tw_emitted s i) < k + capacity"
  shows "k < length (tw_emitted s i)" "bs = rec_bytes (tw_emitted s i ! k)"
  using assms by (auto simp: got_ok_def list_eq_iff_nth_eq)

lemma drain_keeps:
  assumes "trace_inv base capacity count m s" "drain_step base capacity count s s'"
  shows "trace_inv base capacity count m s'"
proof -
  have same: "tw_mem s' = tw_mem s" "tw_pc s' = tw_pc s" "tw_emitted s' = tw_emitted s"
    using assms(2) by (auto elim!: drain_step.cases)
  have inv: "rd_inv capacity count s" "no_wrap count s \<longrightarrow> read_ok count s"
    using assms(1) by (simp_all add: trace_inv_def)
  note g = got_ok_frame [OF same(3)]
  have "rd_inv capacity count s' \<and> (no_wrap count s \<longrightarrow> read_ok count s')"
    using assms(2)
  proof cases
    case (start i before cursor)
    have "before \<le> length (tw_emitted s i)"
      using trace_inv_ring [OF assms(1) start(2)] start(4) by (simp add: ring_inv_def)
    then have "got_ok capacity s' i k []" if "k < before" for k
      using that same(3) by (intro got_ok_nil) (simp add: less_le_trans)
    then have "rd_inv capacity count s'"
      using \<open>before \<le> length (tw_emitted s i)\<close> start(1,2)
      by (intro rd_inv_intro [where i = i and before = before and bs = "[]" and got = "[]"]) simp_all
    then show ?thesis using inv(2) start by (simp add: read_ok_def)
  next
    case (byte i before k bs got)
    note c = rd_inv_copy [OF inv(1) byte(2)]
    have "got_ok capacity s i k (bs @ [tw_mem s (slot_at base capacity i k + length bs)])"
      using c byte(3,4) trace_inv_ring [OF assms(1)] by (intro got_ok_byte) blast+
    then have "rd_inv capacity count s'"
      by (intro rd_inv_intro [where i = i and before = before and k = k and got = got]) (use byte(1) c g in simp_all)
    then show ?thesis using inv(2) byte by (simp add: read_ok_def)
  next
    case (taken i before k bs got)
    note c = rd_inv_copy [OF inv(1) taken(2)]
    have "got_ok capacity s' i (Suc k) []" if "Suc k < before"
      using c that same(3) by (intro got_ok_nil) simp
    then have "rd_inv capacity count s'"
      by (intro rd_inv_intro [where i = i and before = before and k = "Suc k" and got = "got @ [(k, bs)]"])
         (use taken(1,3,4) c g in auto)
    then show ?thesis using inv(2) taken by (simp add: read_ok_def)
  next
    case (check i before k got)
    note c = rd_inv_copy [OF inv(1) check(2)]
    have "rd_inv capacity count s'" by (simp add: check(1) rd_inv_def)
    moreover have "read_ok count s'" if w: "no_wrap count s"
    proof -
      have head: "head_at base capacity i (tw_mem s) = length (tw_emitted s i)"
        using trace_inv_ring [OF assms(1)] c w by (simp add: ring_inv_def no_wrap_def)
      have new: "i < count \<and> k' < length (tw_emitted s i) \<and> bs' = rec_bytes (tw_emitted s i ! k')"
        if "(k', bs') \<in> set got" "oldest_intact capacity (length (tw_emitted s i)) \<le> k'" for k' bs'
      proof -
        have "length (tw_emitted s i) < k' + capacity" using that(2) by (auto simp: intact_iff)
        then show ?thesis using c got_ok_whole that(1) by blast
      qed
      have "read_ok count s" using inv(2) w by blast
      then show ?thesis using new by (auto simp: read_ok_def check(1) head)
    qed
    ultimately show ?thesis by blast
  qed
  moreover have "no_wrap count s' = no_wrap count s" by (simp add: no_wrap_def same)
  ultimately show ?thesis
    using assms(1) same by (simp add: trace_inv_def ring_inv_cong [OF same])
qed

section \<open>Placement\<close>

lemma load_store_other: "a + n \<le> b \<or> b + n' \<le> a \<Longrightarrow> load_le n a (store_le n' b v m) = load_le n a m"
  by (rule load_frame) (auto simp: store_le_def)

abbreviation zero_heads :: "nat \<Rightarrow> nat \<Rightarrow> nat \<Rightarrow> (nat \<Rightarrow> u8) \<Rightarrow> (nat \<Rightarrow> u8)" where
  "zero_heads base capacity count \<equiv> fold (\<lambda>i. store_le 8 (ring_at base i capacity + NOVA_TRACE_HEAD_OFF) 0) [0 ..< count]"

lemma zero_heads_header: "a + n \<le> base + 64 \<Longrightarrow> load_le n a (zero_heads base capacity count m) = load_le n a m"
  by (induction count) (simp_all add: load_store_other ring_at_def trace_layout)

lemma zero_heads_head: "i < count \<Longrightarrow> load_le 8 (ring_at base i capacity) (zero_heads base capacity count m) = 0"
proof (induction count)
  case (Suc count)
  let ?m = "zero_heads base capacity count m"
  show ?case
  proof (cases "i = count")
    case True
    then show ?thesis by (simp add: trace_layout load_store)
  next
    case False
    then have "load_le 8 (ring_at base i capacity) (store_le 8 (ring_at base count capacity) 0 ?m) = load_le 8 (ring_at base i capacity) ?m"
      by (intro load_frame) (auto intro!: store_le_other dest: heads_apart)
    then show ?thesis using Suc False by (simp add: trace_layout)
  qed
qed simp

lemma ring_inside:
  assumes "i < count" "d < ring_stride capacity" "trace_region_size count capacity \<le> room"
  shows "base + 64 \<le> ring_at base i capacity + d" "ring_at base i capacity + d < base + room"
proof -
  have "Suc i * ring_stride capacity \<le> count * ring_stride capacity"
    using assms(1) by (intro mult_le_mono1) simp
  then show "ring_at base i capacity + d < base + room" "base + 64 \<le> ring_at base i capacity + d"
    using assms(2,3) by (simp_all add: ring_at_def trace_region_size_def trace_layout)
qed

lemma zero_heads_outside:
  assumes "trace_region_size count capacity \<le> room" "x < base \<or> base + room \<le> x" "n \<le> count"
  shows "zero_heads base capacity n m x = m x"
  using assms(3)
proof (induction n)
  case (Suc n)
  have s: "d < ring_stride capacity" if "d < 8" for d using that by (simp add: ring_stride_def trace_layout)
  have "store_le 8 (ring_at base n capacity) 0 (zero_heads base capacity n m) x = zero_heads base capacity n m x"
    using Suc(2) ring_inside [of n count _ capacity room base] s assms(1,2)
    by (intro store_le_other) fastforce
  then show ?case using Suc by (simp add: trace_layout)
qed simp

definition placed_header :: "nat \<Rightarrow> nat \<Rightarrow> nat \<Rightarrow> (nat \<Rightarrow> u8) \<Rightarrow> bool" where
  "placed_header base capacity count m \<longleftrightarrow> load_le 8 base m = unat NOVA_TRACE_MAGIC \<and> load_le 4 (base + 16) m = ring_stride capacity
     \<and> load_le 4 (base + 20) m = count \<and> load_le 4 (base + 24) m = capacity"

lemma place_places:
  assumes "trace_place base room rings freq g0 (m0, early) = (g_ring, m)" "records_per_ring room (min rings 4) = capacity"
    "capacity \<noteq> 0" "room < 2 ^ 32" "count = min rings 4"
  shows "placed_rings g_ring base capacity count" "\<And>i. i < count \<Longrightarrow> head_at base capacity i m = 0"
    "placed_header base capacity count m" "x < base \<or> base + room \<le> x \<Longrightarrow> m x = m0 x"
proof -
  have fit: "trace_region_size count capacity \<le> room" and pow: "\<exists>p. capacity = 2 ^ p"
    using capacity_fits [of room "min rings 4"] assms(2,3,5) by auto
  obtain p where p: "capacity = 2 ^ p" using pow by blast
  have cnt: "0 < count"
    using assms(2,3,5) by (auto simp: records_per_ring_def split: if_splits)
  have "ring_stride capacity \<le> count * ring_stride capacity" using cnt by (simp add: Suc_leI)
  then have "ring_stride capacity < 2 ^ 32"
    using fit assms(4) by (simp only: trace_region_size_def)
  moreover have "capacity \<le> ring_stride capacity" by (simp add: ring_stride_def trace_layout)
  ultimately have le: "ring_stride capacity < 2 ^ 32" "capacity < 2 ^ 32" by linarith+
  have "p < 64"
  proof (rule ccontr)
    assume "\<not> p < 64"
    then have "(2 :: nat) ^ 32 \<le> 2 ^ p" by (intro power_increasing) simp_all
    then show False using le(2) p by simp
  qed
  have u: "unat (of_nat v :: u32) = v" if "v < 2 ^ 32" for v
    using that by (simp add: unat_of_nat take_bit_nat_eq_self)
  have c32: "unat (of_nat capacity :: u32) = capacity" "unat (of_nat count :: u32) = count"
    "unat (of_nat (ring_stride capacity) :: u32) = ring_stride capacity"
    using u le assms(5) by simp_all
  have g: "g_ring = (\<lambda>i. if i < count then make_ring (ring_at base i capacity) capacity else g0 i)"
    and m: "m = trace_publish base early (trace_format base (of_nat count) (of_nat capacity) freq m0)"
    using assms(1-3,5) by (auto simp: trace_place_def trace_layout Let_def)
  show "placed_rings g_ring base capacity count"
    using p \<open>p < 64\<close> by (auto simp: placed_rings_def g)
  have mag: "unat NOVA_TRACE_MAGIC < 256 ^ 8" using unsigned_less [of NOVA_TRACE_MAGIC] by simp
  note stores = m trace_publish_def trace_format_def Let_def c32
  show "head_at base capacity i m = 0" if "i < count" for i
  proof -
    have "base + 64 \<le> ring_at base i capacity" by (simp add: ring_at_def trace_layout)
    then show ?thesis
      using zero_heads_head [OF that] by (simp add: head_at_def stores trace_layout load_store_other)
  qed
  show "placed_header base capacity count m"
    unfolding placed_header_def stores
    using le assms(5) mag by (simp add: load_store load_store_other zero_heads_header)
  show "m x = m0 x" if "x < base \<or> base + room \<le> x"
  proof -
    have "64 \<le> room" using fit by (simp add: trace_region_size_def trace_layout)
    then have out: "store_le k (base + o1) v f x = f x" if "o1 + k \<le> 64" for k o1 v f
      using \<open>x < base \<or> base + room \<le> x\<close> that by (auto simp: store_le_def)
    show ?thesis
      using out [of 0 8] by (simp add: stores out zero_heads_outside [OF fit that])
  qed
qed

section \<open>Runs of one writer and one reader\<close>

lemma body_run:
  assumes "i < count" "tw_pc s i = TwBody index e 0" "n \<le> 32"
    "slot = rn_records (g_ring i) + NOVA_TRACE_REC_SIZE * unat (index AND rn_mask (g_ring i))"
  shows "(trace_step g_ring base capacity count)\<^sup>*\<^sup>* s
    (s\<lparr>tw_mem := put_bytes slot (take n (rec_bytes e)) (tw_mem s), tw_pc := (tw_pc s)(i := TwBody index e n)\<rparr>)"
  using assms(3)
proof (induction n)
  case 0
  have "s\<lparr>tw_mem := put_bytes slot (take 0 (rec_bytes e)) (tw_mem s), tw_pc := (tw_pc s)(i := TwBody index e 0)\<rparr> = s"
    by (simp flip: assms(2))
  then show ?case by (simp only: rtranclp.rtrancl_refl)
next
  case (Suc n)
  let ?s = "s\<lparr>tw_mem := put_bytes slot (take n (rec_bytes e)) (tw_mem s), tw_pc := (tw_pc s)(i := TwBody index e n)\<rparr>"
  have "(put_bytes slot (take n (rec_bytes e)) (tw_mem s))(slot + n := rec_bytes e ! n)
      = put_bytes slot (take (Suc n) (rec_bytes e)) (tw_mem s)"
    using Suc(2) by (auto simp: put_bytes_def fun_eq_iff less_Suc_eq take_Suc_conv_app_nth nth_append)
  then have "trace_step g_ring base capacity count ?s
      (s\<lparr>tw_mem := put_bytes slot (take (Suc n) (rec_bytes e)) (tw_mem s), tw_pc := (tw_pc s)(i := TwBody index e (Suc n))\<rparr>)"
    using emit_step.body [of i count ?s index e n g_ring] assms(1) Suc(2)
    by (simp add: trace_step_def assms(4)) 
  then show ?case using Suc by (meson Suc_leD rtranclp.rtrancl_into_rtrancl)
qed

text \<open>Run to its end without interruption, the split writer computes \<open>emit\<close>.\<close>

lemma emit_run:
  assumes "i < count" "tw_pc s i = TwIdle" "rn_head (g_ring i) = Some h"
    "e = \<lparr>tr_ts = ts, tr_type = typ, tr_cpu = cpu, tr_flags = 0, tr_a = a, tr_b = b, tr_c = c\<rparr>"
  shows "(trace_step g_ring base capacity count)\<^sup>*\<^sup>* s
    (s\<lparr>tw_mem := fst (emit (g_ring i) ts typ cpu a b c (tw_mem s, early)), tw_emitted := (tw_emitted s)(i := tw_emitted s i @ [e])\<rparr>)"
proof -
  let ?index = "ring_head (tw_mem s) (g_ring i)"
  let ?slot = "rn_records (g_ring i) + NOVA_TRACE_REC_SIZE * unat (?index AND rn_mask (g_ring i))"
  let ?s1 = "s\<lparr>tw_pc := (tw_pc s)(i := TwBody ?index e 0)\<rparr>"
  let ?s2 = "s\<lparr>tw_mem := put_bytes ?slot (rec_bytes e) (tw_mem s), tw_pc := (tw_pc s)(i := TwBody ?index e 32)\<rparr>"
  have "trace_step g_ring base capacity count s ?s1"
    using emit_step.load [OF assms(1,2), of e g_ring] assms(4) by (simp add: trace_step_def)
  moreover have "(trace_step g_ring base capacity count)\<^sup>*\<^sup>* ?s1 ?s2"
    using body_run [OF assms(1), of ?s1 ?index e 32 ?slot g_ring base capacity] by simp
  moreover have "(tw_pc s)(i := TwIdle) = tw_pc s"
    using assms(2) by (metis fun_upd_triv)
  then have "trace_step g_ring base capacity count ?s2
    (s\<lparr>tw_mem := fst (emit (g_ring i) ts typ cpu a b c (tw_mem s, early)), tw_emitted := (tw_emitted s)(i := tw_emitted s i @ [e])\<rparr>)"
    using emit_step.publish [of i count ?s2 ?index e g_ring h] assms(1,3)
    by (simp add: trace_step_def emit_def Let_def assms(4) store_record_bytes)
  ultimately show ?thesis
    by (meson converse_rtranclp_into_rtranclp rtranclp.rtrancl_into_rtrancl)
qed

lemma byte_run:
  assumes "tw_rd s = TrCopy i before k [] got" "k < before" "n \<le> 32"
  shows "(trace_step g_ring base capacity count)\<^sup>*\<^sup>* s
    (s\<lparr>tw_rd := TrCopy i before k (map (\<lambda>j. tw_mem s (slot_at base capacity i k + j)) [0 ..< n]) got\<rparr>)"
  using assms(3)
proof (induction n)
  case 0
  have "s\<lparr>tw_rd := TrCopy i before k [] got\<rparr> = s" by (simp flip: assms(1))
  then show ?case by simp
next
  case (Suc n)
  let ?s = "s\<lparr>tw_rd := TrCopy i before k (map (\<lambda>j. tw_mem s (slot_at base capacity i k + j)) [0 ..< n]) got\<rparr>"
  have "trace_step g_ring base capacity count ?s
    (s\<lparr>tw_rd := TrCopy i before k (map (\<lambda>j. tw_mem s (slot_at base capacity i k + j)) [0 ..< Suc n]) got\<rparr>)"
    using drain_step.byte [of ?s i before k _ got base capacity count] assms(2) Suc(2) by (simp add: trace_step_def)
  then show ?case using Suc by (meson Suc_leD rtranclp.rtrancl_into_rtrancl)
qed

text \<open>A drain of a ring with one record.\<close>

lemma drain_run:
  assumes "tw_rd s = TrIdle" "i < count" "head_at base capacity i (tw_mem s) = 1" "1 < capacity"
  shows "\<exists>bs. (trace_step g_ring base capacity count)\<^sup>*\<^sup>* s (s\<lparr>tw_read := tw_read s @ [(i, 0, bs)]\<rparr>)"
proof -
  let ?R = "trace_step g_ring base capacity count"
  let ?bs = "map (\<lambda>j. tw_mem s (slot_at base capacity i 0 + j)) [0 ..< 32]"
  have "?R s (s\<lparr>tw_rd := TrCopy i 1 0 [] []\<rparr>)"
    using drain_step.start [OF assms(2,1), of 1 base capacity 0] assms(3,4) by (simp add: trace_step_def oldest_intact_def)
  moreover have "?R\<^sup>*\<^sup>* (s\<lparr>tw_rd := TrCopy i 1 0 [] []\<rparr>) (s\<lparr>tw_rd := TrCopy i 1 0 ?bs []\<rparr>)"
    using byte_run [of "s\<lparr>tw_rd := TrCopy i 1 0 [] []\<rparr>" i 1 0 "[]" 32 g_ring base capacity count] by simp
  moreover have "?R (s\<lparr>tw_rd := TrCopy i 1 0 ?bs []\<rparr>) (s\<lparr>tw_rd := TrCopy i 1 1 [] [(0, ?bs)]\<rparr>)"
    using drain_step.taken [of "s\<lparr>tw_rd := TrCopy i 1 0 ?bs []\<rparr>" i 1 0 ?bs "[]" base capacity count] by (simp add: trace_step_def)
  moreover have "s\<lparr>tw_rd := TrIdle, tw_read := tw_read s @ [(i, 0, ?bs)]\<rparr> = s\<lparr>tw_read := tw_read s @ [(i, 0, ?bs)]\<rparr>"
    by (simp flip: assms(1))
  then have "?R (s\<lparr>tw_rd := TrCopy i 1 1 [] [(0, ?bs)]\<rparr>) (s\<lparr>tw_read := tw_read s @ [(i, 0, ?bs)]\<rparr>)"
    using drain_step.check [of "s\<lparr>tw_rd := TrCopy i 1 1 [] [(0, ?bs)]\<rparr>" i 1 1 "[(0, ?bs)]" base capacity count] assms(3,4)
    by (simp add: trace_step_def oldest_intact_def)
  ultimately show ?thesis
    by (meson converse_rtranclp_into_rtranclp rtranclp.rtrancl_into_rtrancl)
qed

section \<open>Properties\<close>

text \<open>
  C40. Overwriting never corrupts what is read. Once the rings are placed in a region of
  less than 4 GiB, whatever memory held, and whatever the cores emit and the host drains,
  access by access in any order: every record a drain keeps is, byte for byte, the one
  its core emitted under that index; at any moment the records less than a lap behind the
  head are whole in memory; the header the reader parses stays as it was published; and
  no byte outside the region is written. The rings publish fewer than 2^64 records each.
\<close>

theorem trace_reads_are_true:
  assumes "trace_place base room rings freq g0 (m0, early) = (g_ring, m)"
    and "records_per_ring room (min rings 4) = capacity" "capacity \<noteq> 0" "room < 2 ^ 32" "count = min rings 4"
    and "(trace_step g_ring base capacity count)\<^sup>*\<^sup>* (trace_start m) s"
    and "\<And>i. i < count \<Longrightarrow> length (tw_emitted s i) < 2 ^ 64"
  shows "((i, k, bs) \<in> set (tw_read s) \<longrightarrow> i < count \<and> k < length (tw_emitted s i) \<and> bs = rec_bytes (tw_emitted s i ! k))
    \<and> (i < count \<and> k < length (tw_emitted s i) \<and> length (tw_emitted s i) < k + capacity \<and> j < 32 \<longrightarrow>
         tw_mem s (slot_at base capacity i k + j) = rec_bytes (tw_emitted s i ! k) ! j)
    \<and> placed_header base capacity count (tw_mem s)
    \<and> (x < base \<or> base + room \<le> x \<longrightarrow> tw_mem s x = m0 x)"
proof -
  note p = place_places [OF assms(1-5)]
  have fit: "trace_region_size count capacity \<le> room"
    using capacity_fits [of room "min rings 4"] assms(2,3,5) by auto
  have start: "trace_inv base capacity count m (trace_start m)"
    using p(2) by (simp add: trace_inv_def trace_start_def ring_inv_def window_ok_def body_ok_def rd_inv_def read_ok_def)
  from assms(6) have inv: "trace_inv base capacity count m s"
  proof (induction rule: rtranclp_induct)
    case (step s s')
    show ?case
      using step(2) emit_keeps [OF p(1) step(3)] drain_keeps [OF step(3)] unfolding trace_step_def by blast
  qed (rule start)
  have same: "tw_mem s x = m x" if x: "x < base + 64 \<or> base + room \<le> x" for x
  proof -
    have "x \<noteq> ring_at base i capacity + d" if "i < count" "d < ring_stride capacity" for i d
      using ring_inside [OF that fit, of base] x by linarith
    then show ?thesis using inv by (simp add: trace_inv_def)
  qed
  have "placed_header base capacity count (tw_mem s) = placed_header base capacity count m"
    by (simp add: placed_header_def load_frame [of _ "tw_mem s" _ m] same)
  moreover have "x < base \<or> base + room \<le> x \<longrightarrow> tw_mem s x = m0 x"
    using same [of x] p(4) [of x] by auto
  moreover have "no_wrap count s" using assms(7) by (simp add: no_wrap_def)
  then have "read_ok count s" using inv by (simp add: trace_inv_def)
  then have "(i, k, bs) \<in> set (tw_read s) \<longrightarrow> i < count \<and> k < length (tw_emitted s i) \<and> bs = rec_bytes (tw_emitted s i ! k)"
    by (simp add: read_ok_def)
  moreover have "i < count \<and> k < length (tw_emitted s i) \<and> length (tw_emitted s i) < k + capacity \<and> j < 32 \<longrightarrow>
         tw_mem s (slot_at base capacity i k + j) = rec_bytes (tw_emitted s i ! k) ! j"
    using trace_inv_ring [OF inv] by (simp add: ring_inv_def window_ok_def)
  ultimately show ?thesis
    using p(3) by blast
qed

text \<open>
  Witness of C0: two rings of two records at address 0; core 0 emits one event and the
  host drains it.
\<close>

definition sample_rec :: TraceRec where
  "sample_rec = \<lparr>tr_ts = 77, tr_type = 7, tr_cpu = 0, tr_flags = 0, tr_a = 1, tr_b = 2, tr_c = 3\<rparr>"

definition sample_rings :: "(nat \<Rightarrow> TraceRing) \<times> (nat \<Rightarrow> u8)" where
  "sample_rings = trace_place 0 320 2 1000 (\<lambda>_. unplaced) (\<lambda>_. 0, 5)"

theorem trace_reads_are_true_witness:
  "\<exists>s bs. (trace_step (fst sample_rings) 0 2 2)\<^sup>*\<^sup>* (trace_start (snd sample_rings)) s \<and> tw_emitted s 0 = [sample_rec]
     \<and> tw_read s = [(0, 0, bs)] \<and> bs = rec_bytes sample_rec \<and> placed_header 0 2 2 (tw_mem s) \<and> tw_mem s 400 = 0"
proof -
  let ?g = "fst sample_rings" and ?s0 = "trace_start (snd sample_rings)"
  have cap: "records_per_ring 320 (min 2 4) = 2"
    by (simp add: records_per_ring_def trace_layout bit_floor.simps)
  have pl: "trace_place 0 320 2 1000 (\<lambda>_. unplaced) (\<lambda>_. 0, 5) = (?g, snd sample_rings)"
    by (simp add: sample_rings_def)
  have placed: "placed_rings ?g 0 2 2" "head_at 0 2 0 (snd sample_rings) = 0"
    using place_places(1,2) [OF pl cap, of 2] by simp_all
  have ring: "?g 0 = make_ring (ring_at 0 0 2) 2" using placed(1) by (simp add: placed_rings_def)
  define m1 where "m1 = fst (emit (?g 0) 77 7 0 1 2 3 (tw_mem ?s0, 5))"
  let ?s1 = "?s0\<lparr>tw_mem := m1, tw_emitted := (tw_emitted ?s0)(0 := tw_emitted ?s0 0 @ [sample_rec])\<rparr>"
  have run1: "(trace_step ?g 0 2 2)\<^sup>*\<^sup>* ?s0 ?s1"
    unfolding m1_def by (rule emit_run) (simp_all add: trace_start_def ring make_ring_def sample_rec_def)
  have "head_at 0 2 0 (tw_mem ?s1) = 1"
    using placed(2)
    by (simp add: m1_def emit_def ring make_ring_def Let_def head_at_def trace_layout load_store ring_head_def trace_start_def)
  then obtain bs where run2: "(trace_step ?g 0 2 2)\<^sup>*\<^sup>* ?s1 (?s1\<lparr>tw_read := tw_read ?s1 @ [(0, 0, bs)]\<rparr>)"
    using drain_run [of ?s1 0 2 0 2 ?g] by (auto simp: trace_start_def)
  let ?s2 = "?s1\<lparr>tw_read := tw_read ?s1 @ [(0, 0, bs)]\<rparr>"
  have run: "(trace_step ?g 0 2 2)\<^sup>*\<^sup>* ?s0 ?s2" by (rule rtranclp_trans [OF run1 run2])
  have "length (tw_emitted ?s2 i) < 2 ^ 64" for i by (simp add: trace_start_def)
  then have "bs = rec_bytes sample_rec \<and> placed_header 0 2 2 (tw_mem ?s2) \<and> tw_mem ?s2 400 = 0"
    using trace_reads_are_true [OF pl cap _ _ _ run, of 0 0 bs 0 400] by (simp add: trace_start_def)
  then show ?thesis
    using run by (intro exI [of _ ?s2] exI [of _ bs]) (simp add: trace_start_def)
qed

end
