(* ===== verification/Spec2Isabelle.thy ===== *)
theory Spec2Isabelle
  imports NovaPrelude NovaTimebase NovaIvc NovaCoreMmu NovaVgicInv NovaTimer NovaTrap NovaSmpThms NovaDmaThms NovaSync
    NovaTelemetry NovaCommand NovaVuart NovaFdt NovaTrace
begin

text \<open>placeholder\<close>

end
